(* ===== verification/Prelude.thy ===== *)
theory Prelude
  imports Main "HOL-Library.Word"
begin

text \<open>
  Shared vocabulary of the development: the machine types of the C++ sources, the
  faults a C++ statement can run into, the result type that carries them, and the
  generic lemmas on lists, maps and words that the component theories share.
\<close>

unbundle bit_operations_syntax

section \<open>Machine types\<close>

type_synonym u8 = "8 word"
type_synonym u16 = "16 word"
type_synonym u32 = "32 word"
type_synonym u64 = "64 word"
type_synonym bytes = "8 word list"

text \<open>A \<open>std::string\<close> is a sequence of bytes; its model is the list of the same characters.\<close>

definition byte_of_char :: "char \<Rightarrow> u8" where
  "byte_of_char c = of_char c"

definition char_of_byte :: "u8 \<Rightarrow> char" where
  "char_of_byte b = char_of (unat b)"

abbreviation bytes_of_string :: "string \<Rightarrow> bytes" where
  "bytes_of_string s \<equiv> map byte_of_char s"

abbreviation string_of_bytes :: "bytes \<Rightarrow> string" where
  "string_of_bytes bs \<equiv> map char_of_byte bs"

lemma of_char_nat_less: "(of_char c :: nat) < 256"
  by (metis of_char_mod_256 mod_less_divisor zero_less_numeral)

lemma unat_byte_of_char: "unat (byte_of_char c) = of_char c"
proof -
  have "byte_of_char c = of_nat (of_char c)"
    by (simp add: byte_of_char_def of_nat_of_char)
  then show ?thesis
    using of_char_nat_less [of c] by (simp add: unat_of_nat)
qed

lemma char_of_byte_of_char [simp]: "char_of_byte (byte_of_char c) = c"
  by (simp add: char_of_byte_def unat_byte_of_char)

lemma byte_of_char_of_byte [simp]: "byte_of_char (char_of_byte b) = b"
proof -
  have "unat b mod 256 = unat b"
    using unsigned_less [where ?'a = nat, of b] by simp
  then have "unat (byte_of_char (char_of_byte b)) = unat b"
    by (simp add: unat_byte_of_char) (simp add: char_of_byte_def)
  then show ?thesis by (rule unsigned_word_eqI)
qed

lemma char_byte_comp [simp]:
  "char_of_byte \<circ> byte_of_char = id"
  "byte_of_char \<circ> char_of_byte = id"
  by (auto simp: fun_eq_iff)

lemma string_of_bytes_of_string [simp]: "string_of_bytes (bytes_of_string s) = s"
  by (simp add: map_idI)

lemma bytes_of_string_of_bytes [simp]: "bytes_of_string (string_of_bytes b) = b"
  by (simp add: map_idI)

section \<open>Faults and results\<close>

text \<open>
  What a C++ statement can do instead of producing a value: read or write outside an
  object, dereference an empty pointer, use an object that was deleted, read a variable that
  has no value yet, fail an \<open>assert\<close>, or throw from an allocation.
  \<open>OutOfFuel\<close> is no behaviour of the program: it marks a model run that was given too
  few recursion steps, and each use comes with a lemma that says how many are enough.
  Every definition that could meet one of these returns a \<open>result\<close>; proving that it
  returns \<open>Inr\<close> is proving memory safety.
\<close>

datatype fault = OutOfBounds | NullDeref | UseAfterFree | Uninitialised | AssertFailed | BadAlloc | OutOfFuel

type_synonym 'a result = "fault + 'a"

definition rbind :: "'a result \<Rightarrow> ('a \<Rightarrow> 'b result) \<Rightarrow> 'b result" where
  "rbind r f = (case r of Inl e \<Rightarrow> Inl e | Inr x \<Rightarrow> f x)"

named_theorems result_simps "equations that evaluate the result type"

lemma rbind_simps [simp, result_simps]:
  "rbind (Inl e) f = Inl e"
  "rbind (Inr x) f = f x"
  by (simp_all add: rbind_def)

lemma rbind_eq_Inr [result_simps]: "rbind r f = Inr y \<longleftrightarrow> (\<exists>x. r = Inr x \<and> f x = Inr y)"
  by (cases r) auto

lemma list_case_Inr [result_simps]:
  "(case xs of [] \<Rightarrow> Inl e | y # ys \<Rightarrow> g y ys) = Inr r \<longleftrightarrow> (\<exists>y ys. xs = y # ys \<and> g y ys = Inr r)"
  by (cases xs) auto

lemma rbind_assoc: "rbind (rbind r f) g = rbind r (\<lambda>x. rbind (f x) g)"
  by (cases r) auto

definition is_ok :: "'a result \<Rightarrow> bool" where
  "is_ok r \<longleftrightarrow> (case r of Inl _ \<Rightarrow> False | Inr _ \<Rightarrow> True)"

lemma is_ok_simps [simp]:
  "is_ok (Inr x)" "\<not> is_ok (Inl e)"
  by (simp_all add: is_ok_def)

lemma is_ok_iff: "is_ok r \<longleftrightarrow> (\<exists>x. r = Inr x)"
  by (cases r) auto

text \<open>Reading one element of an array at an index the code computed.\<close>

definition nth_checked :: "'a list \<Rightarrow> nat \<Rightarrow> 'a result" where
  "nth_checked xs i = (if i < length xs then Inr (xs ! i) else Inl OutOfBounds)"

text \<open>Reading \<open>n\<close> elements from index \<open>i\<close> on (\<open>memcpy\<close>, \<open>std::string(p,n)\<close>).\<close>

definition slice_checked :: "'a list \<Rightarrow> nat \<Rightarrow> nat \<Rightarrow> 'a list result" where
  "slice_checked xs i n =
     (if i + n \<le> length xs then Inr (take n (drop i xs)) else Inl OutOfBounds)"

lemma nth_checked_ok [simp]: "i < length xs \<Longrightarrow> nth_checked xs i = Inr (xs ! i)"
  by (simp add: nth_checked_def)

lemma slice_checked_ok [simp]:
  "i + n \<le> length xs \<Longrightarrow> slice_checked xs i n = Inr (take n (drop i xs))"
  by (simp add: slice_checked_def)

section \<open>Overwriting a block of an array\<close>

text \<open>\<open>memcpy(&a[i], d, d.size())\<close> on the list that models the array \<open>a\<close>.\<close>

definition blit :: "'a list \<Rightarrow> nat \<Rightarrow> 'a list \<Rightarrow> 'a list" where
  "blit a i d = take i a @ d @ drop (i + length d) a"

named_theorems blit_simps "reading back an array after a block write"

lemma length_blit [simp]: "i + length d \<le> length a \<Longrightarrow> length (blit a i d) = length a"
  by (simp add: blit_def)

lemma take_blit [blit_simps]: "n \<le> i \<Longrightarrow> i \<le> length a \<Longrightarrow> take n (blit a i d) = take n a"
  by (simp add: blit_def min_absorb1)

lemma blit_read [blit_simps]:
  "i \<le> length a \<Longrightarrow> take (length d) (drop i (blit a i d)) = d"
  by (simp add: blit_def)

lemma blit_extend [blit_simps]:
  assumes "h \<le> i" and "i \<le> length a"
  shows "take (i + length d - h) (drop h (blit a i d)) = take (i - h) (drop h a) @ d"
  using assms by (simp add: blit_def drop_take)

text \<open>Reading outside a block that was overwritten.\<close>

lemma nth_blit_before [blit_simps]: "j < i \<Longrightarrow> i \<le> length a \<Longrightarrow> blit a i d ! j = a ! j"
  by (simp add: blit_def nth_append)

lemma nth_blit_after [blit_simps]:
  "i + length d \<le> j \<Longrightarrow> i + length d \<le> length a \<Longrightarrow> blit a i d ! j = a ! j"
  by (cases "j - i < length d") (auto simp: blit_def nth_append add.commute)

lemma drop_blit_before [blit_simps]:
  "k \<le> i \<Longrightarrow> i \<le> length a \<Longrightarrow> drop k (blit a i d) = blit (drop k a) (i - k) d"
  by (simp add: blit_def drop_take)

lemma drop_blit_after [blit_simps]:
  "i + length d \<le> k \<Longrightarrow> i + length d \<le> length a \<Longrightarrow> drop k (blit a i d) = drop k a"
  by (simp add: blit_def)

section \<open>Lists\<close>

lemma take_drop_self: "take (length xs - n) (drop n xs) = drop n xs"
  by simp

lemma drop_take_append:
  "n \<le> m \<Longrightarrow> drop n (take m xs) @ drop m xs = drop n xs"
  by (metis append_take_drop_id drop_append length_take min.cobounded2 append_Nil2
      diff_is_0_eq' drop_drop drop_take le_add_diff_inverse2 take_add take_drop)

lemma list_length_ge_2: "2 \<le> length xs \<longleftrightarrow> (\<exists>a b ys. xs = a # b # ys)"
  by (cases xs; cases "tl xs") (auto simp: Suc_le_length_iff numeral_2_eq_2)

section \<open>Maps used as \<open>std::unordered_map\<close>\<close>

text \<open>\<open>m[k]\<close> on a missing key value-initialises the entry.\<close>

definition map_at :: "'v \<Rightarrow> ('k \<rightharpoonup> 'v) \<Rightarrow> 'k \<Rightarrow> 'v" where
  "map_at d m k = (case m k of None \<Rightarrow> d | Some v \<Rightarrow> v)"

lemma map_at_simps [simp]:
  "map_at d (m(k \<mapsto> v)) k = v"
  "k \<noteq> k' \<Longrightarrow> map_at d (m(k' \<mapsto> v)) k = map_at d m k"
  "map_at d Map.empty k = d"
  by (simp_all add: map_at_def)

section \<open>Narrowing conversions\<close>

text \<open>
  Conversion of an integer to \<open>int32_t\<close>, \<open>int64_t\<close> and \<open>uint32_t\<close>: the value modulo the
  width, read as the target type does. Fields of these types are integers in the model, and
  the conversion is written where the code converts.
\<close>

definition int32 :: "int \<Rightarrow> int" where
  "int32 x = sint (word_of_int x :: u32)"

definition int64 :: "int \<Rightarrow> int" where
  "int64 x = sint (word_of_int x :: u64)"

definition uint32 :: "int \<Rightarrow> int" where
  "uint32 x = x mod 2 ^ 32"

lemma int32_id: "- (2 ^ 31) \<le> x \<Longrightarrow> x < 2 ^ 31 \<Longrightarrow> int32 x = x"
  by (simp add: int32_def sint_sbintrunc' signed_take_bit_int_eq_self_iff)

lemma int64_id: "- (2 ^ 63) \<le> x \<Longrightarrow> x < 2 ^ 63 \<Longrightarrow> int64 x = x"
  by (simp add: int64_def sint_sbintrunc' signed_take_bit_int_eq_self_iff)

lemma uint32_id: "0 \<le> x \<Longrightarrow> x < 2 ^ 32 \<Longrightarrow> uint32 x = x"
  by (simp add: uint32_def)

lemma uint32_range: "0 \<le> uint32 x" "uint32 x < 2 ^ 32"
  by (simp_all add: uint32_def)

section \<open>Numbers in decimal\<close>

fun decimal :: "nat \<Rightarrow> string" where
  "decimal n = (if n < 10 then [''0123456789'' ! n] else decimal (n div 10) @ [''0123456789'' ! (n mod 10)])"

declare decimal.simps [simp del]

lemma digit_inj: "i < 10 \<Longrightarrow> j < 10 \<Longrightarrow> ''0123456789'' ! i = ''0123456789'' ! j \<Longrightarrow> i = j"
  by (subst (asm) nth_eq_iff_index_eq) simp_all

lemma decimal_not_empty [simp]: "decimal n \<noteq> []"
  by (subst decimal.simps) simp

lemma decimal_inj: "decimal n = decimal m \<Longrightarrow> n = m"
proof (induction n arbitrary: m rule: decimal.induct)
  case (1 n)
  show ?case
  proof (cases "n < 10")
    case True
    with 1(2) have "decimal m = [''0123456789'' ! n]" by (simp add: decimal.simps [of n])
    with True show ?thesis
      by (cases "m < 10") (auto simp: decimal.simps [of m] digit_inj)
  next
    case False
    with 1(2) have "\<not> m < 10" by (auto simp: decimal.simps [of n] decimal.simps [of m] split: if_splits)
    with 1(2) False have e: "decimal (n div 10) = decimal (m div 10)" "''0123456789'' ! (n mod 10) = ''0123456789'' ! (m mod 10)"
      by (simp_all add: decimal.simps [of n] decimal.simps [of m])
    have "n div 10 = m div 10" by (rule 1(1) [OF False e(1)])
    moreover have "n mod 10 = m mod 10" by (rule digit_inj [OF _ _ e(2)]) simp_all
    ultimately show ?thesis by (metis div_mult_mod_eq)
  qed
qed

end
