(* ===== verification/ByteIO.thy ===== *)
theory ByteIO
  imports Prelude
begin

text \<open>
  Network byte order: \<open>mmedia/base/BytesReader.cc\<close> and \<open>BytesWriter.cc\<close>.
  A \<open>const char *data\<close> is the list of the bytes from the pointer to the end of its
  object; a read past that end is the fault \<open>OutOfBounds\<close>. A writer returns the bytes it
  stores at the pointer; its C++ return value is their number.
\<close>

section \<open>BytesReader\<close>

fun ReadUint32T :: "bytes \<Rightarrow> u32 result" where
  "ReadUint32T (a # b # c # d # _) =
     Inr (push_bit 24 (ucast a) OR push_bit 16 (ucast b) OR push_bit 8 (ucast c) OR ucast d)"
| "ReadUint32T _ = Inl OutOfBounds"

fun ReadUint24T :: "bytes \<Rightarrow> u32 result" where
  "ReadUint24T (a # b # c # _) =
     Inr (push_bit 16 (ucast a) OR push_bit 8 (ucast b) OR ucast c)"
| "ReadUint24T _ = Inl OutOfBounds"

fun ReadUint16T :: "bytes \<Rightarrow> u16 result" where
  "ReadUint16T (a # b # _) = Inr (push_bit 8 (ucast a) OR ucast b)"
| "ReadUint16T _ = Inl OutOfBounds"

fun ReadUint8T :: "bytes \<Rightarrow> u8 result" where
  "ReadUint8T (a # _) = Inr a"
| "ReadUint8T [] = Inl OutOfBounds"

section \<open>BytesWriter\<close>

definition WriteUint32T :: "u32 \<Rightarrow> bytes" where
  "WriteUint32T v =
     [ucast (drop_bit 24 v), ucast (drop_bit 16 v), ucast (drop_bit 8 v), ucast v]"

definition WriteUint24T :: "u32 \<Rightarrow> bytes" where
  "WriteUint24T v = tl (WriteUint32T v)"

definition WriteUint16T :: "u16 \<Rightarrow> bytes" where
  "WriteUint16T v = [ucast (drop_bit 8 v), ucast v]"

definition WriteUint8T :: "u8 \<Rightarrow> bytes" where
  "WriteUint8T v = [v]"

text \<open>
  \<open>memcpy(p, &v, 4)\<close> on the little-endian hosts the project builds for: the bytes of
  \<open>v\<close> from the least significant on. The RTMP code uses it for the message stream id,
  the three-byte chunk stream id and the extended timestamp.
\<close>

definition memcpy_u32 :: "u32 \<Rightarrow> bytes" where
  "memcpy_u32 v = rev (WriteUint32T v)"

definition memcpy_u16 :: "u16 \<Rightarrow> bytes" where
  "memcpy_u16 v = rev (WriteUint16T v)"

fun load_u32 :: "bytes \<Rightarrow> u32 result" where
  "load_u32 (a # b # c # d # _) = ReadUint32T [d, c, b, a]"
| "load_u32 _ = Inl OutOfBounds"

text \<open>\<open>hton64\<close> reverses the eight bytes on a little-endian host.\<close>

definition hton64_bytes :: "u64 \<Rightarrow> bytes" where
  "hton64_bytes v =
     WriteUint32T (ucast (drop_bit 32 v)) @ WriteUint32T (ucast v)"

definition ntoh64_bytes :: "bytes \<Rightarrow> u64 result" where
  "ntoh64_bytes d =
     rbind (ReadUint32T d) (\<lambda>hi. rbind (ReadUint32T (drop 4 d)) (\<lambda>lo.
       Inr (push_bit 32 (ucast hi) OR ucast lo)))"

section \<open>Widths and bounds\<close>

named_theorems byteio_simps "lengths, bounds and round trips of the byte readers and writers"

lemma length_Write [simp, byteio_simps]:
  "length (WriteUint32T v) = 4"
  "length (WriteUint24T v) = 3"
  "length (WriteUint16T w) = 2"
  "length (WriteUint8T x) = 1"
  "length (memcpy_u32 v) = 4"
  "length (memcpy_u16 w) = 2"
  "length (hton64_bytes q) = 8"
  by (simp_all add: WriteUint32T_def WriteUint24T_def WriteUint16T_def WriteUint8T_def
      memcpy_u32_def memcpy_u16_def hton64_bytes_def)

text \<open>A read succeeds exactly when enough bytes are left in the object.\<close>

lemma ReadUint32T_ok_iff: "is_ok (ReadUint32T d) \<longleftrightarrow> 4 \<le> length d"
  by (cases d rule: ReadUint32T.cases) auto

lemma ReadUint24T_ok_iff: "is_ok (ReadUint24T d) \<longleftrightarrow> 3 \<le> length d"
  by (cases d rule: ReadUint24T.cases) auto

lemma ReadUint16T_ok_iff: "is_ok (ReadUint16T d) \<longleftrightarrow> 2 \<le> length d"
  by (cases d rule: ReadUint16T.cases) auto

lemma ReadUint8T_ok_iff: "is_ok (ReadUint8T d) \<longleftrightarrow> 1 \<le> length d"
  by (cases d) auto

lemma load_u32_ok_iff: "is_ok (load_u32 d) \<longleftrightarrow> 4 \<le> length d"
  by (cases d rule: load_u32.cases) auto

lemma ntoh64_ok_iff: "is_ok (ntoh64_bytes d) \<longleftrightarrow> 8 \<le> length d"
proof -
  have "is_ok (ntoh64_bytes d) \<longleftrightarrow> is_ok (ReadUint32T d) \<and> is_ok (ReadUint32T (drop 4 d))"
    by (cases "ReadUint32T d"; cases "ReadUint32T (drop 4 d)") (auto simp: ntoh64_bytes_def)
  then show ?thesis by (auto simp: ReadUint32T_ok_iff)
qed

lemmas read_ok_iff = ReadUint32T_ok_iff ReadUint24T_ok_iff ReadUint16T_ok_iff
  ReadUint8T_ok_iff load_u32_ok_iff ntoh64_ok_iff

lemma readE:
  "4 \<le> length d \<Longrightarrow> \<exists>v. ReadUint32T d = Inr v"
  "3 \<le> length d \<Longrightarrow> \<exists>v. ReadUint24T d = Inr v"
  "2 \<le> length d \<Longrightarrow> \<exists>w. ReadUint16T d = Inr w"
  "1 \<le> length d \<Longrightarrow> \<exists>b. ReadUint8T d = Inr b"
  "4 \<le> length d \<Longrightarrow> \<exists>v. load_u32 d = Inr v"
  "8 \<le> length d \<Longrightarrow> \<exists>q. ntoh64_bytes d = Inr q"
  using read_ok_iff is_ok_iff by metis+

lemma read_dropE:
  "i + 4 \<le> length d \<Longrightarrow> \<exists>v. ReadUint32T (drop i d) = Inr v"
  "i + 3 \<le> length d \<Longrightarrow> \<exists>v. ReadUint24T (drop i d) = Inr v"
  "i + 2 \<le> length d \<Longrightarrow> \<exists>w. ReadUint16T (drop i d) = Inr w"
  "i + 1 \<le> length d \<Longrightarrow> \<exists>b. ReadUint8T (drop i d) = Inr b"
  "i + 4 \<le> length d \<Longrightarrow> \<exists>v. load_u32 (drop i d) = Inr v"
  "i + 8 \<le> length d \<Longrightarrow> \<exists>q. ntoh64_bytes (drop i d) = Inr q"
  using readE [of "drop i d"] by auto

text \<open>More bytes behind a successful read do not change it.\<close>

lemma read_append:
  "ReadUint32T d = Inr v \<Longrightarrow> ReadUint32T (d @ e) = Inr v"
  "ReadUint24T d = Inr v \<Longrightarrow> ReadUint24T (d @ e) = Inr v"
  "ReadUint16T d = Inr w \<Longrightarrow> ReadUint16T (d @ e) = Inr w"
  "ReadUint8T d = Inr b \<Longrightarrow> ReadUint8T (d @ e) = Inr b"
  "load_u32 d = Inr v \<Longrightarrow> load_u32 (d @ e) = Inr v"
  by (cases d rule: ReadUint32T.cases, simp_all) (cases d rule: ReadUint24T.cases, simp_all,
      cases d rule: ReadUint16T.cases, simp_all, cases d, simp_all,
      cases d rule: load_u32.cases, simp_all)

text \<open>A 24-bit read stays below \<open>2 ^ 24\<close>.\<close>

lemma ReadUint24T_bound: "ReadUint24T d = Inr v \<Longrightarrow> v \<le> 0xFFFFFF"
proof (cases d rule: ReadUint24T.cases)
  case (1 a b c rest)
  assume "ReadUint24T d = Inr v"
  with 1 have v: "v = push_bit 16 (ucast a) OR push_bit 8 (ucast b) OR ucast c"
    by simp
  have "v = take_bit 24 v"
    unfolding v by (rule bit_word_eqI) (force simp: bit_simps dest: bit_imp_le_length)
  then have "v = v AND 0xFFFFFF"
    by (simp add: take_bit_eq_mask mask_eq_exp_minus_1)
  then show ?thesis
    by (metis word_and_le1)
qed auto

section \<open>Round trips\<close>

text \<open>Which of the four bytes of a 32-bit word holds bit \<open>n\<close>.\<close>

lemma byte_cases:
  assumes "n < (32 :: nat)"
  obtains (b0) "n < 8" | (b1) "8 \<le> n" "n < 16" | (b2) "16 \<le> n" "n < 24" | (b3) "24 \<le> n" "n < 32"
  using assms by linarith

lemma u32_split:
  "push_bit 24 (ucast (ucast (drop_bit 24 v) :: u8)) OR push_bit 16 (ucast (ucast (drop_bit 16 v) :: u8))
    OR push_bit 8 (ucast (ucast (drop_bit 8 v) :: u8)) OR ucast (ucast v :: u8) = (v :: u32)"
  (is "?l = v")
proof (rule bit_word_eqI)
  fix n assume "n < LENGTH(32)"
  then have "n < 32" by simp
  then show "bit ?l n = bit v n"
    by (cases rule: byte_cases) (auto simp: bit_simps less_diff_conv2)
qed

lemma u24_split:
  "push_bit 16 (ucast (ucast (drop_bit 16 v) :: u8))
    OR push_bit 8 (ucast (ucast (drop_bit 8 v) :: u8)) OR ucast (ucast v :: u8) = (take_bit 24 v :: u32)"
  (is "?l = _")
proof (rule bit_word_eqI)
  fix n assume "n < LENGTH(32)"
  then have "n < 32" by simp
  then show "bit ?l n = bit (take_bit 24 v) n"
    by (cases rule: byte_cases) (auto simp: bit_simps less_diff_conv2)
qed

lemma u16_split:
  "push_bit 8 (ucast (ucast (drop_bit 8 v) :: u8)) OR ucast (ucast v :: u8) = (v :: u16)"
  by (rule bit_word_eqI) (auto simp: bit_simps)

lemma u64_split:
  "push_bit 32 (ucast (ucast (drop_bit 32 v) :: u32)) OR ucast (ucast v :: u32) = (v :: u64)"
  (is "?l = v")
proof (rule bit_word_eqI)
  fix n assume "n < LENGTH(64)"
  then show "bit ?l n = bit v n"
    by (cases "n < 32") (auto simp: bit_simps less_diff_conv2)
qed

lemma Read_Write32 [simp, byteio_simps]: "ReadUint32T (WriteUint32T v @ rest) = Inr v"
  by (simp add: WriteUint32T_def u32_split)

lemma Read_Write24 [simp, byteio_simps]: "ReadUint24T (WriteUint24T v @ rest) = Inr (take_bit 24 v)"
  by (simp add: WriteUint24T_def WriteUint32T_def u24_split)

text \<open>A 24-bit value determines its three bytes.\<close>

lemma Write_Read24:
  assumes "ReadUint24T (a # b # c # r) = Inr m"
  shows "WriteUint24T m = [a, b, c]"
proof -
  have m: "m = push_bit 16 (ucast a) OR push_bit 8 (ucast b) OR ucast c"
    using assms by simp
  have "ucast (drop_bit 16 m) = a" "ucast (drop_bit 8 m) = b" "ucast m = c"
    unfolding m by (rule bit_word_eqI; force simp: bit_simps dest: bit_imp_le_length)+
  then show ?thesis by (simp add: WriteUint24T_def WriteUint32T_def)
qed

lemma Read_Write16 [simp, byteio_simps]: "ReadUint16T (WriteUint16T w @ rest) = Inr w"
  by (simp add: WriteUint16T_def u16_split)

lemma Read_Write8 [simp, byteio_simps]: "ReadUint8T (WriteUint8T b @ rest) = Inr b"
  by (simp add: WriteUint8T_def)

lemma load_memcpy_u32 [simp, byteio_simps]: "load_u32 (memcpy_u32 v @ rest) = Inr v"
  by (simp add: memcpy_u32_def WriteUint32T_def u32_split)

lemma ntoh64_hton64 [simp, byteio_simps]: "ntoh64_bytes (hton64_bytes q @ rest) = Inr q"
  by (simp add: ntoh64_bytes_def hton64_bytes_def u64_split)

lemma Read_memcpy_byteswap:
  "ReadUint32T (memcpy_u32 v @ rest) = load_u32 (WriteUint32T v @ rest)"
  by (simp add: memcpy_u32_def WriteUint32T_def)

end
