(* ===== verification/Packet.thy ===== *)
theory Packet
  imports ByteIO
begin

text \<open>
  Media packets, \<open>mmedia/base/Packet.h\<close> and \<open>Packet.cc\<close>: a header with the payload
  allocated behind it in one block. The record has the class's fields (prefixed \<open>pk_\<close>),
  \<open>pk_data\<close> is the payload area of \<open>capacity_\<close> bytes, and \<open>ext_\<close>, a \<open>shared_ptr<void>\<close>,
  is an optional value of the type its users store there.
\<close>

definition kPacketTypeVideo :: u32 where "kPacketTypeVideo = 1"
definition kPacketTypeAudio :: u32 where "kPacketTypeAudio = 2"
definition kPacketTypeMeta :: u32 where "kPacketTypeMeta = 4"
definition kPacketTypeMeta3 :: u32 where "kPacketTypeMeta3 = 8"
definition kFrameTypeKeyFrame :: u32 where "kFrameTypeKeyFrame = 16"
definition kFrameTypeIDR :: u32 where "kFrameTypeIDR = 32"
definition kPacketTypeUnKnowed :: u32 where "kPacketTypeUnKnowed = 255"

lemmas packet_type_defs = kPacketTypeVideo_def kPacketTypeAudio_def kPacketTypeMeta_def
  kPacketTypeMeta3_def kFrameTypeKeyFrame_def kFrameTypeIDR_def kPacketTypeUnKnowed_def

record 'e Packet =
  pk_type :: u32
  pk_size :: nat
  pk_index :: int
  pk_timestamp :: u64
  pk_capacity :: nat
  pk_ext :: "'e option"
  pk_data :: bytes

text \<open>
  \<open>NewPacket(int32_t size)\<close> allocates \<open>size + sizeof(Packet)\<close> bytes, the sum in \<open>size_t\<close>;
  the packed header has 40 bytes. A negative size wraps to a huge request, which throws, or,
  from -40 on, to a block too small for the header whose fields are then written.
\<close>

definition NewPacket :: "int \<Rightarrow> 'e Packet result" where
  "NewPacket sz =
     (if sz < - 40 then Inl BadAlloc
      else if sz < 0 then Inl OutOfBounds
      else Inr \<lparr>pk_type = kPacketTypeUnKnowed, pk_size = 0, pk_index = -1, pk_timestamp = 0,
                pk_capacity = nat sz, pk_ext = None, pk_data = replicate (nat sz) 0\<rparr>)"

definition IsVideo :: "'e Packet \<Rightarrow> bool" where
  "IsVideo p \<longleftrightarrow> pk_type p AND kPacketTypeVideo = kPacketTypeVideo"

definition IsKeyFrame :: "'e Packet \<Rightarrow> bool" where
  "IsKeyFrame p \<longleftrightarrow> pk_type p AND kPacketTypeVideo = kPacketTypeVideo \<and>
     pk_type p AND kFrameTypeKeyFrame = kFrameTypeKeyFrame"

definition IsAudio :: "'e Packet \<Rightarrow> bool" where
  "IsAudio p \<longleftrightarrow> pk_type p = kPacketTypeAudio"

definition IsMeta :: "'e Packet \<Rightarrow> bool" where
  "IsMeta p \<longleftrightarrow> pk_type p = kPacketTypeMeta"

definition IsMeta3 :: "'e Packet \<Rightarrow> bool" where
  "IsMeta3 p \<longleftrightarrow> pk_type p = kPacketTypeMeta3"

definition Space :: "'e Packet \<Rightarrow> int" where
  "Space p = int (pk_capacity p) - int (pk_size p)"

text \<open>Copying bytes to \<open>Data() + PacketSize()\<close>, then \<open>UpdatePacketSize\<close>.\<close>

definition packet_append :: "bytes \<Rightarrow> 'e Packet \<Rightarrow> 'e Packet result" where
  "packet_append d p =
     (if pk_size p + length d \<le> length (pk_data p)
      then Inr (p\<lparr>pk_data := blit (pk_data p) (pk_size p) d, pk_size := pk_size p + length d\<rparr>)
      else Inl OutOfBounds)"

text \<open>The payload: the first \<open>PacketSize()\<close> bytes of the data.\<close>

definition payload :: "'e Packet \<Rightarrow> bytes" where
  "payload p = take (pk_size p) (pk_data p)"

text \<open>A packet filled with given bytes, as the senders build it: allocate, write, set the size.\<close>

definition packet_inv :: "'e Packet \<Rightarrow> bool" where
  "packet_inv p \<longleftrightarrow> pk_size p \<le> pk_capacity p \<and> length (pk_data p) = pk_capacity p"

lemma NewPacket_ok:
  "0 \<le> sz \<Longrightarrow> \<exists>p. NewPacket sz = Inr p \<and> packet_inv p \<and> pk_size p = 0 \<and> pk_capacity p = nat sz"
  by (simp add: NewPacket_def packet_inv_def)

lemma packet_append_ok:
  assumes "packet_inv p" and "int (length d) \<le> Space p"
  shows "\<exists>p'. packet_append d p = Inr p' \<and> packet_inv p' \<and> payload p' = payload p @ d \<and>
           Space p' = Space p - int (length d) \<and> pk_ext p' = pk_ext p \<and> pk_capacity p' = pk_capacity p"
  using assms blit_extend [of 0 "pk_size p" "pk_data p" d]
  by (auto simp: packet_append_def packet_inv_def Space_def payload_def)

text \<open>The type predicates on the four types the RTMP receiver assigns.\<close>

lemma packet_kinds:
  "pk_type p = kPacketTypeAudio \<Longrightarrow> IsAudio p \<and> \<not> IsVideo p \<and> \<not> IsMeta p \<and> \<not> IsKeyFrame p"
  "pk_type p = kPacketTypeVideo \<Longrightarrow> IsVideo p \<and> \<not> IsAudio p \<and> \<not> IsMeta p \<and> \<not> IsKeyFrame p"
  "pk_type p = kPacketTypeMeta \<Longrightarrow> IsMeta p \<and> \<not> IsAudio p \<and> \<not> IsVideo p"
  "pk_type p = kPacketTypeMeta3 \<Longrightarrow> IsMeta3 p \<and> \<not> IsMeta p \<and> \<not> IsVideo p"
  "pk_type p = kPacketTypeVideo OR kFrameTypeKeyFrame \<Longrightarrow> IsVideo p \<and> IsKeyFrame p"
  by (auto simp: IsAudio_def IsVideo_def IsMeta_def IsMeta3_def IsKeyFrame_def packet_type_defs)

end
