(* ===== verification/RtmpChunk.thy ===== *)
theory RtmpChunk
  imports Packet
begin

text \<open>
  Receiving RTMP chunks: the loop body of \<open>RtmpContext::ParseMessage\<close> in
  \<open>mmedia/rtmp/RtmpContext.cc\<close>, over the receiving fields of the class. Its outcome on the
  bytes in the socket buffer is either "return 1 and wait for more" (with the fields as the
  early return leaves them) or one chunk consumed, with the packet if it is complete.

  An absent key of the \<open>unordered_map\<close>s \<open>in_message_headers_\<close>, \<open>in_deltas_\<close> and
  \<open>in_ext_\<close> reads as the default value, so these are total functions; chunk stream ids are
  \<open>nat\<close>. Buffers are below 2 GiB, so that a negative \<open>bytes\<close>, which the comparison with
  the unsigned remainder turns into at least \<open>2 ^ 31\<close>, is always larger.
\<close>

record RtmpMsgHeader =
  rh_cs_id :: nat
  rh_timestamp :: u32
  rh_msg_len :: u32
  rh_msg_type :: u8
  rh_msg_sid :: u32

definition RtmpMsgHeader_new :: RtmpMsgHeader where
  "RtmpMsgHeader_new = \<lparr>rh_cs_id = 0, rh_timestamp = 0, rh_msg_len = 0, rh_msg_type = 0, rh_msg_sid = 0\<rparr>"

type_synonym RtmpPacket = "RtmpMsgHeader Packet"

record RtmpIn =
  in_headers :: "nat \<Rightarrow> RtmpMsgHeader"
  in_packets :: "nat \<rightharpoonup> RtmpPacket"
  in_deltas :: "nat \<Rightarrow> u32"
  in_ext :: "nat \<Rightarrow> bool"
  in_chunk_size :: int

definition RtmpIn_new :: RtmpIn where
  "RtmpIn_new = \<lparr>in_headers = (\<lambda>_. RtmpMsgHeader_new), in_packets = (\<lambda>_. None),
                 in_deltas = (\<lambda>_. 0), in_ext = (\<lambda>_. False), in_chunk_size = 128\<rparr>"

section \<open>Parsing one chunk\<close>

text \<open>The basic header: format, chunk stream id and its length; \<open>None\<close> is "not enough bytes".\<close>

definition basic_header :: "bytes \<Rightarrow> (nat \<times> nat \<times> nat) option result" where
  "basic_header d =
     rbind (nth_checked d 0) (\<lambda>b.
       let fmt = unat (drop_bit 6 b); c = b AND 0x3F
       in if c = 0
          then (if length d < 2 then Inr None
                else rbind (nth_checked d 1) (\<lambda>b1. Inr (Some (fmt, 64 + unat b1, 2))))
          else if c = 1
          then (if length d < 3 then Inr None
                else rbind (nth_checked d 1) (\<lambda>b1. rbind (nth_checked d 2) (\<lambda>b2.
                  Inr (Some (fmt, 64 + unat b1 + unat b2 * 256, 3)))))
          else Inr (Some (fmt, unat c, 1)))"

text \<open>
  The message header of the four formats: the new header of the packet, \<open>ts\<close>, the bytes
  used and the new delta of the chunk stream.
\<close>

definition message_header ::
  "nat \<Rightarrow> RtmpMsgHeader \<Rightarrow> u32 \<Rightarrow> RtmpMsgHeader \<Rightarrow> bytes \<Rightarrow> (RtmpMsgHeader \<times> u32 \<times> nat \<times> u32) result" where
  "message_header fmt prev delta h d =
     (if fmt = 0
      then rbind (ReadUint24T d) (\<lambda>ts. rbind (ReadUint24T (drop 3 d)) (\<lambda>len.
           rbind (ReadUint8T (drop 6 d)) (\<lambda>ty. rbind (load_u32 (drop 7 d)) (\<lambda>sid.
             Inr (h\<lparr>rh_timestamp := ts, rh_msg_len := len, rh_msg_type := ty, rh_msg_sid := sid\<rparr>, ts, 11, 0)))))
      else if fmt = 1
      then rbind (ReadUint24T d) (\<lambda>ts. rbind (ReadUint24T (drop 3 d)) (\<lambda>len.
           rbind (ReadUint8T (drop 6 d)) (\<lambda>ty.
             Inr (h\<lparr>rh_timestamp := ts + rh_timestamp prev, rh_msg_len := len, rh_msg_type := ty,
                     rh_msg_sid := rh_msg_sid prev\<rparr>, ts, 7, ts))))
      else if fmt = 2
      then rbind (ReadUint24T d) (\<lambda>ts.
             Inr (h\<lparr>rh_timestamp := ts + rh_timestamp prev, rh_msg_len := rh_msg_len prev,
                     rh_msg_type := rh_msg_type prev, rh_msg_sid := rh_msg_sid prev\<rparr>, ts, 3, ts))
      else Inr (h\<lparr>rh_timestamp := (if rh_timestamp h = 0 then delta + rh_timestamp prev else rh_timestamp h),
                   rh_msg_len := rh_msg_len prev,
                   rh_msg_type := rh_msg_type prev, rh_msg_sid := rh_msg_sid prev\<rparr>, 0, 0, delta))"

text \<open>The packet being assembled on a chunk stream, allocated when there is none.\<close>

definition current_packet :: "RtmpIn \<Rightarrow> nat \<Rightarrow> int \<Rightarrow> RtmpPacket result" where
  "current_packet s csid msg_len =
     (case in_packets s csid of
        Some p \<Rightarrow> Inr p
      | None \<Rightarrow> rbind (NewPacket msg_len) (\<lambda>p.
          Inr (p\<lparr>pk_ext := Some \<lparr>rh_cs_id = csid, rh_timestamp = 0, rh_msg_len = word_of_int msg_len,
                                   rh_msg_type = 0, rh_msg_sid = 0\<rparr>\<rparr>)))"

datatype chunk_out = NeedMore RtmpIn | GotChunk RtmpIn bytes "RtmpPacket option"

text \<open>
  From the end of the message header on: extended timestamp, then the chunk's share of
  the payload. \<open>d\<close> starts behind the message header.
\<close>

definition chunk_body ::
  "RtmpIn \<Rightarrow> nat \<Rightarrow> nat \<Rightarrow> RtmpMsgHeader \<Rightarrow> RtmpMsgHeader \<Rightarrow> RtmpPacket \<Rightarrow> bytes \<Rightarrow> chunk_out result" where
  "chunk_body s fmt csid prev h packet d =
     (let bytes = min (Space packet) (in_chunk_size s);
          packet = packet\<lparr>pk_ext := Some h\<rparr>;
          s = s\<lparr>in_packets := (in_packets s)(csid \<mapsto> packet)\<rparr>
      in if bytes < 0 \<or> length d < nat bytes then Inr (NeedMore s)
         else rbind (packet_append (take (nat bytes) d) packet) (\<lambda>p.
           let s = s\<lparr>in_headers := (in_headers s)(csid := h)\<rparr>; rest = drop (nat bytes) d
           in if Space p = 0
              then Inr (GotChunk (s\<lparr>in_packets := (in_packets s)(csid := None)\<rparr>) rest
                     (Some (p\<lparr>pk_type := ucast (rh_msg_type h), pk_timestamp := ucast (rh_timestamp h)\<rparr>)))
              else Inr (GotChunk (s\<lparr>in_packets := (in_packets s)(csid \<mapsto> p)\<rparr>) rest None)))"

definition extended_timestamp ::
  "RtmpIn \<Rightarrow> nat \<Rightarrow> nat \<Rightarrow> RtmpMsgHeader \<Rightarrow> RtmpMsgHeader \<Rightarrow> RtmpPacket \<Rightarrow> u32 \<Rightarrow> bytes \<Rightarrow> chunk_out result" where
  "extended_timestamp s fmt csid prev h packet ts d =
     (let ext = (if fmt = 3 then in_ext s csid else ts = 0xFFFFFF);
          s = s\<lparr>in_ext := (in_ext s)(csid := ext)\<rparr>
      in if ext
         then (if length d < 4
               then Inr (NeedMore (s\<lparr>in_packets := (in_packets s)(csid \<mapsto> packet\<lparr>pk_ext := Some h\<rparr>)\<rparr>))
               else rbind (ReadUint32T d) (\<lambda>ts.
                 if fmt \<noteq> 0
                 then chunk_body (s\<lparr>in_deltas := (in_deltas s)(csid := ts)\<rparr>) fmt csid prev
                        (h\<lparr>rh_timestamp := ts + rh_timestamp prev\<rparr>) packet (drop 4 d)
                 else chunk_body s fmt csid prev h packet (drop 4 d)))
         else chunk_body s fmt csid prev h packet d)"

text \<open>The length of the message: from the header, else what the chunk stream had last.\<close>

definition chunk_msg_len :: "RtmpIn \<Rightarrow> nat \<Rightarrow> nat \<Rightarrow> bytes \<Rightarrow> int result" where
  "chunk_msg_len s fmt csid body =
     (let prev = in_headers s csid
      in if fmt = 0 \<or> fmt = 1
         then rbind (ReadUint24T (drop 3 body)) (\<lambda>l. Inr (uint l))
         else Inr (if rh_msg_len prev = 0 then in_chunk_size s else sint (rh_msg_len prev)))"

definition parse_message :: "RtmpIn \<Rightarrow> nat \<Rightarrow> nat \<Rightarrow> bytes \<Rightarrow> chunk_out result" where
  "parse_message s fmt csid body =
     rbind (chunk_msg_len s fmt csid body) (\<lambda>msg_len.
     rbind (current_packet s csid msg_len) (\<lambda>packet.
     case pk_ext packet of None \<Rightarrow> Inl NullDeref | Some h0 \<Rightarrow>
     rbind (message_header fmt (in_headers s csid) (in_deltas s csid) h0 body) (\<lambda>(h, ts, used, delta).
       extended_timestamp (s\<lparr>in_deltas := (in_deltas s)(csid := delta)\<rparr>)
         fmt csid (in_headers s csid) h packet ts (drop used body))))"

definition parse_chunk :: "RtmpIn \<Rightarrow> bytes \<Rightarrow> chunk_out result" where
  "parse_chunk s d =
     rbind (basic_header d) (\<lambda>bh. case bh of None \<Rightarrow> Inr (NeedMore s) | Some (fmt, csid, parsed) \<Rightarrow>
       let sz = length d - parsed
       in if sz = 0 \<or> fmt = 0 \<and> sz < 11 \<or> fmt = 1 \<and> sz < 7 \<or> fmt = 2 \<and> sz < 3
          then Inr (NeedMore s)
          else parse_message s fmt csid (drop parsed d))"

text \<open>
  The loop \<open>while (total_bytes > 1)\<close> without the message handlers: the chunks of a byte
  sequence, one per round, and the packets they complete. The first argument bounds the
  rounds; a round consumes at least one byte, so the length of the data is enough.
\<close>

fun parse_chunks :: "nat \<Rightarrow> RtmpIn \<Rightarrow> bytes \<Rightarrow> (RtmpPacket list \<times> RtmpIn \<times> bytes) result" where
  "parse_chunks 0 s d = Inl OutOfFuel"
| "parse_chunks (Suc f) s d =
     (if length d > 1
      then rbind (parse_chunk s d) (\<lambda>out. case out of
             NeedMore s' \<Rightarrow> Inr ([], s', d)
           | GotChunk s' rest p \<Rightarrow>
               rbind (parse_chunks f s' rest) (\<lambda>(ps, s'', d').
                 Inr ((case p of None \<Rightarrow> ps | Some p \<Rightarrow> p # ps), s'', d')))
      else Inr ([], s, d))"

section \<open>Safety\<close>

text \<open>
  What the receiving fields keep: an assembled packet has its payload area and a header,
  and every stored message length has 24 bits.
\<close>

definition rin_inv :: "RtmpIn \<Rightarrow> bool" where
  "rin_inv s \<longleftrightarrow>
     (\<forall>csid p. in_packets s csid = Some p \<longrightarrow> packet_inv p \<and> pk_ext p \<noteq> None) \<and>
     (\<forall>csid. rh_msg_len (in_headers s csid) \<le> 0xFFFFFF) \<and> in_chunk_size s < 2 ^ 31"

lemma rin_inv_new: "rin_inv RtmpIn_new"
  by (simp add: rin_inv_def RtmpIn_new_def RtmpMsgHeader_new_def)

lemma basic_header_ok:
  assumes "d \<noteq> []"
  shows "\<exists>bh. basic_header d = Inr bh"
    and "basic_header d = Inr (Some (fmt, csid, parsed)) \<Longrightarrow>
           1 \<le> parsed \<and> parsed \<le> length d \<and> fmt < 4 \<and> 2 \<le> csid"
proof -
  show "\<exists>bh. basic_header d = Inr bh"
    using assms by (auto simp: basic_header_def Let_def)
  assume bh: "basic_header d = Inr (Some (fmt, csid, parsed))"
  have "unat (drop_bit 6 b) < 4" for b :: u8
  proof -
    have "unat (drop_bit 6 b) = drop_bit 6 (unat b)" by (rule unat_drop_bit_eq)
    also have "\<dots> = unat b div 64" by (simp add: drop_bit_eq_div)
    finally show ?thesis
      using unsigned_less [where ?'a = nat, of b] by (simp add: less_mult_imp_div_less)
  qed
  moreover have "2 \<le> unat c" if "c \<noteq> 0" "c \<noteq> 1" for c :: u8
  proof -
    have "unat c \<noteq> 0" using that(1) by (metis unsigned_0 unsigned_word_eqI)
    moreover have "unat c \<noteq> 1" using that(2) by (metis unsigned_1 unsigned_word_eqI)
    ultimately show ?thesis by linarith
  qed
  ultimately show "1 \<le> parsed \<and> parsed \<le> length d \<and> fmt < 4 \<and> 2 \<le> csid"
    using bh assms by (auto simp: basic_header_def Let_def Suc_le_eq split: if_splits)
qed

definition hdr_len :: "nat \<Rightarrow> nat" where
  "hdr_len fmt = (if fmt = 0 then 11 else if fmt = 1 then 7 else if fmt = 2 then 3 else 0)"

lemma message_header_ok:
  assumes "hdr_len fmt \<le> length d" and "rh_msg_len prev \<le> 0xFFFFFF"
  shows "\<exists>h' ts delta'. message_header fmt prev delta h d = Inr (h', ts, hdr_len fmt, delta') \<and>
           rh_msg_len h' \<le> 0xFFFFFF"
proof -
  consider "fmt = 0" | "fmt = 1" | "fmt = 2" | "2 < fmt" by linarith
  then show ?thesis
  proof cases
    case 1
    with assms(1) have "11 \<le> length d" by (simp add: hdr_len_def)
    then obtain ts len ty sid where "ReadUint24T d = Inr ts" "ReadUint24T (drop 3 d) = Inr len"
      "ReadUint8T (drop 6 d) = Inr ty" "load_u32 (drop 7 d) = Inr sid"
      using read_dropE(2) [of 0 d] read_dropE(2) [of 3 d] read_dropE(4) [of 6 d] read_dropE(5) [of 7 d]
      by fastforce
    with 1 ReadUint24T_bound show ?thesis by (auto simp: message_header_def hdr_len_def)
  next
    case 2
    with assms(1) have "7 \<le> length d" by (simp add: hdr_len_def)
    then obtain ts len ty where "ReadUint24T d = Inr ts" "ReadUint24T (drop 3 d) = Inr len"
      "ReadUint8T (drop 6 d) = Inr ty"
      using read_dropE(2) [of 0 d] read_dropE(2) [of 3 d] read_dropE(4) [of 6 d]
      by fastforce
    with 2 ReadUint24T_bound show ?thesis by (auto simp: message_header_def hdr_len_def)
  next
    case 3
    with assms(1) obtain ts where "ReadUint24T d = Inr ts"
      using readE(2) [of d] by (auto simp: hdr_len_def)
    with 3 assms(2) show ?thesis by (auto simp: message_header_def hdr_len_def)
  next
    case 4
    with assms(2) show ?thesis by (auto simp: message_header_def hdr_len_def)
  qed
qed

text \<open>A good outcome: a state with the invariant, and a chunk takes bytes off the front.\<close>

definition chunk_out_ok :: "bytes \<Rightarrow> int \<Rightarrow> chunk_out \<Rightarrow> bool" where
  "chunk_out_ok d cs out \<longleftrightarrow> (case out of
       NeedMore s \<Rightarrow> rin_inv s \<and> in_chunk_size s = cs
     | GotChunk s rest p \<Rightarrow> rin_inv s \<and> in_chunk_size s = cs \<and> (\<exists>n. rest = drop n d) \<and>
         (\<forall>q. p = Some q \<longrightarrow> packet_inv q \<and> Space q = 0 \<and> pk_ext q \<noteq> None))"

lemma chunk_body_ok:
  assumes "rin_inv s" and "packet_inv packet" and "rh_msg_len h \<le> 0xFFFFFF"
  shows "\<exists>out. chunk_body s fmt csid prev h packet d = Inr out \<and> chunk_out_ok d (in_chunk_size s) out"
proof (cases "min (Space packet) (in_chunk_size s) < 0 \<or>
              length d < nat (min (Space packet) (in_chunk_size s))")
  case True
  with assms show ?thesis
    by (auto simp: chunk_body_def Let_def chunk_out_ok_def rin_inv_def packet_inv_def)
next
  case False
  let ?n = "nat (min (Space packet) (in_chunk_size s))"
  let ?p = "packet\<lparr>pk_ext := Some h\<rparr>"
  have "packet_inv ?p" "int (length (take ?n d)) \<le> Space ?p"
    using assms(2) False by (auto simp: packet_inv_def Space_def)
  from packet_append_ok [OF this] obtain p where
    "packet_append (take ?n d) ?p = Inr p" "packet_inv p" "pk_ext p = Some h"
    by auto
  moreover from this have "packet_inv (p\<lparr>pk_type := t, pk_timestamp := u\<rparr>)" for t u
    by (simp add: packet_inv_def)
  ultimately show ?thesis using False assms
    by (auto simp: chunk_body_def Let_def chunk_out_ok_def rin_inv_def Space_def)
qed

lemma extended_timestamp_ok:
  assumes "rin_inv s" and "packet_inv packet" and "rh_msg_len h \<le> 0xFFFFFF"
  shows "\<exists>out. extended_timestamp s fmt csid prev h packet ts d = Inr out \<and>
           chunk_out_ok d (in_chunk_size s) out"
proof -
  define s1 where "s1 e = s\<lparr>in_ext := (in_ext s)(csid := e)\<rparr>" for e
  have s1: "rin_inv (s1 e)" "rin_inv (s1 e\<lparr>in_deltas := x\<rparr>)"
    "in_chunk_size (s1 e) = in_chunk_size s" "in_chunk_size (s1 e\<lparr>in_deltas := x\<rparr>) = in_chunk_size s" for e x
    using assms(1) by (simp_all add: s1_def rin_inv_def)
  have sub: "chunk_out_ok (drop k d) c out \<Longrightarrow> chunk_out_ok d c out" for k c out
    by (auto simp: chunk_out_ok_def split: chunk_out.splits)
  have need: "chunk_out_ok d (in_chunk_size s)
      (NeedMore ((s1 e)\<lparr>in_packets := (in_packets s)(csid \<mapsto> packet\<lparr>pk_ext := Some h\<rparr>)\<rparr>))" for e
    using assms(1,2) by (auto simp: chunk_out_ok_def rin_inv_def s1_def packet_inv_def)
  have body: "\<exists>out. chunk_body x fmt csid prev h' packet (drop k d) = Inr out \<and>
      chunk_out_ok d (in_chunk_size s) out"
    if "rin_inv x" "in_chunk_size x = in_chunk_size s" "rh_msg_len h' \<le> 0xFFFFFF" for x h' k
    using chunk_body_ok [OF that(1) assms(2) that(3), of fmt csid prev "drop k d"] that(2) sub by metis
  define e where "e = (if fmt = 3 then in_ext s csid else ts = 0xFFFFFF)"
  show ?thesis
  proof (cases e)
    case False
    then show ?thesis
      using body [of "s1 e" h 0] s1 assms(3)
      by (simp add: extended_timestamp_def Let_def e_def [symmetric] s1_def [symmetric])
  next
    case True
    show ?thesis
    proof (cases "length d < 4")
      case short: True
      then show ?thesis using True need [of e]
        by (simp add: extended_timestamp_def Let_def e_def [symmetric] s1_def)
    next
      case False
      then obtain t where "ReadUint32T d = Inr t" using readE(1) [of d] by auto
      then show ?thesis
        using True False s1 assms(3) body [of "s1 e" h 4]
          body [of "(s1 e)\<lparr>in_deltas := (in_deltas s)(csid := t)\<rparr>" "h\<lparr>rh_timestamp := t + rh_timestamp prev\<rparr>" 4]
        by (auto simp: extended_timestamp_def Let_def e_def [symmetric] s1_def)
    qed
  qed
qed

lemma uint24_nonneg: "(v :: u32) \<le> 0xFFFFFF \<Longrightarrow> 0 \<le> sint v"
proof -
  assume "v \<le> 0xFFFFFF"
  then have "uint v \<le> 0xFFFFFF" by (simp add: word_le_def)
  moreover have "- (2 ^ 31) \<le> uint v"
    by (rule order_trans [OF _ unsigned_greater_eq]) simp
  ultimately have "- (2 ^ 31) \<le> uint v \<and> uint v < 2 ^ 31" by simp
  then have "signed_take_bit 31 (uint v) = uint v"
    by (simp only: signed_take_bit_int_eq_self_iff)
  then show ?thesis by (simp add: sint_uint)
qed

lemma current_packet_ok:
  assumes "rin_inv s" and "0 \<le> msg_len"
  shows "\<exists>p h0. current_packet s csid msg_len = Inr p \<and> packet_inv p \<and> pk_ext p = Some h0"
proof (cases "in_packets s csid")
  case None
  obtain p :: RtmpPacket where "NewPacket msg_len = Inr p" "packet_inv p"
    using NewPacket_ok [OF assms(2)] by blast
  with None show ?thesis by (simp add: current_packet_def packet_inv_def)
next
  case (Some p)
  with assms(1) show ?thesis by (fastforce simp: current_packet_def rin_inv_def)
qed

lemma chunk_msg_len_ok:
  assumes "rin_inv s" and "0 \<le> in_chunk_size s" and "hdr_len fmt \<le> length b"
  shows "\<exists>m. chunk_msg_len s fmt csid b = Inr m \<and> 0 \<le> m"
proof (cases "fmt = 0 \<or> fmt = 1")
  case True
  with assms(3) have "3 + 3 \<le> length b" by (auto simp: hdr_len_def)
  then obtain l where "ReadUint24T (drop 3 b) = Inr l" using read_dropE(2) by blast
  with True show ?thesis by (auto simp: chunk_msg_len_def)
next
  case False
  have "rh_msg_len (in_headers s csid) \<le> 0xFFFFFF" using assms(1) by (simp add: rin_inv_def)
  with False assms(2) uint24_nonneg show ?thesis by (auto simp: chunk_msg_len_def Let_def)
qed

lemma chunk_msg_len_append:
  assumes "chunk_msg_len s fmt csid b = Inr m" and "hdr_len fmt \<le> length b"
  shows "chunk_msg_len s fmt csid (b @ e) = Inr m"
  using assms read_append(2) [of "drop 3 b" _ e]
  by (auto simp: chunk_msg_len_def hdr_len_def Let_def rbind_eq_Inr split: if_splits)

lemma chunk_msg_len_cong:
  "in_headers s' = in_headers s \<Longrightarrow> in_chunk_size s' = in_chunk_size s \<Longrightarrow>
     chunk_msg_len s' fmt csid b = chunk_msg_len s fmt csid b"
  by (simp add: chunk_msg_len_def Let_def)

lemma parse_message_ok:
  assumes inv: "rin_inv s" and cs: "0 \<le> in_chunk_size s" and b: "hdr_len fmt \<le> length b"
  shows "\<exists>out. parse_message s fmt csid b = Inr out \<and> chunk_out_ok b (in_chunk_size s) out"
proof -
  let ?prev = "in_headers s csid"
  have prev: "rh_msg_len ?prev \<le> 0xFFFFFF" using inv by (simp add: rin_inv_def)
  obtain m where m: "chunk_msg_len s fmt csid b = Inr m" "0 \<le> m"
    using chunk_msg_len_ok [OF inv cs b] by blast
  obtain p h0 where p: "current_packet s csid m = Inr p" "packet_inv p" "pk_ext p = Some h0"
    using current_packet_ok [OF inv m(2)] by blast
  obtain h ts delta where mh: "message_header fmt ?prev (in_deltas s csid) h0 b = Inr (h, ts, hdr_len fmt, delta)"
    "rh_msg_len h \<le> 0xFFFFFF"
    using message_header_ok [OF b prev] by blast
  let ?s = "s\<lparr>in_deltas := (in_deltas s)(csid := delta)\<rparr>"
  have "rin_inv ?s" using inv by (simp add: rin_inv_def)
  from extended_timestamp_ok [OF this p(2) mh(2), of fmt csid ?prev ts "drop (hdr_len fmt) b"]
  obtain out where out: "extended_timestamp ?s fmt csid ?prev h p ts (drop (hdr_len fmt) b) = Inr out"
    "chunk_out_ok (drop (hdr_len fmt) b) (in_chunk_size s) out" by auto
  have "parse_message s fmt csid b = Inr out"
    using m(1) p mh out(1) by (simp add: parse_message_def Let_def)
  with out(2) show ?thesis by (auto simp: chunk_out_ok_def split: chunk_out.splits)
qed

text \<open>
  With a chunk size that is not negative, the loop body never reads past the buffer,
  never writes past the packet, and keeps the invariant.
\<close>

lemma parse_chunk_ok:
  assumes inv: "rin_inv s" and cs: "0 \<le> in_chunk_size s" and d: "d \<noteq> []"
  shows "\<exists>out. parse_chunk s d = Inr out \<and> chunk_out_ok d (in_chunk_size s) out"
proof -
  obtain bh where bh: "basic_header d = Inr bh" using basic_header_ok(1) [OF d] by blast
  show ?thesis
  proof (cases bh)
    case None
    with bh inv show ?thesis by (simp add: parse_chunk_def chunk_out_ok_def)
  next
    case (Some q)
    obtain fmt csid parsed where q: "q = (fmt, csid, parsed)" by (rule prod_cases3)
    let ?b = "drop parsed d"
    show ?thesis
    proof (cases "length ?b = 0 \<or> length ?b < hdr_len fmt")
      case True
      with bh Some q inv show ?thesis
        by (auto simp: parse_chunk_def chunk_out_ok_def hdr_len_def Let_def split: if_splits)
    next
      case False
      then have eq: "parse_chunk s d = parse_message s fmt csid ?b"
        using bh Some q by (auto simp: parse_chunk_def hdr_len_def Let_def split: if_splits)
      from parse_message_ok [OF inv cs, of fmt ?b csid] False obtain out
        where "parse_message s fmt csid ?b = Inr out" "chunk_out_ok ?b (in_chunk_size s) out" by auto
      with eq show ?thesis by (auto simp: chunk_out_ok_def split: chunk_out.splits)
    qed
  qed
qed

section \<open>Fragmentation\<close>

text \<open>
  A chunk is parsed the same whatever follows it, and an early return can be repeated:
  parsing again, with more bytes, from the state the early return left gives what parsing
  from the state before it would have given.
\<close>

lemma message_header_append:
  assumes "message_header fmt prev delta h d = Inr r" and "hdr_len fmt \<le> length d"
  shows "message_header fmt prev delta h (d @ e) = Inr r"
  using assms
  by (auto simp: message_header_def hdr_len_def rbind_eq_Inr read_append split: if_splits)

lemma chunk_body_got:
  "chunk_body s fmt csid prev h packet d = Inr (GotChunk s' rest p) \<Longrightarrow>
     chunk_body s fmt csid prev h packet (d @ e) = Inr (GotChunk s' (rest @ e) p)"
  by (auto simp: chunk_body_def Let_def rbind_eq_Inr split: if_splits)

lemma chunk_body_need:
  "chunk_body s fmt csid prev h packet d = Inr (NeedMore s') \<Longrightarrow>
     s' = s\<lparr>in_packets := (in_packets s)(csid \<mapsto> packet\<lparr>pk_ext := Some h\<rparr>)\<rparr>"
  by (auto simp: chunk_body_def Let_def rbind_eq_Inr split: if_splits)

lemma extended_timestamp_got:
  "extended_timestamp s fmt csid prev h packet ts d = Inr (GotChunk s' rest p) \<Longrightarrow>
     extended_timestamp s fmt csid prev h packet ts (d @ e) = Inr (GotChunk s' (rest @ e) p)"
  by (auto simp: extended_timestamp_def Let_def rbind_eq_Inr read_append chunk_body_got split: if_splits)

lemma parse_message_got:
  assumes "parse_message s fmt csid b = Inr (GotChunk s' rest p)" and "hdr_len fmt \<le> length b"
  shows "parse_message s fmt csid (b @ e) = Inr (GotChunk s' (rest @ e) p)"
proof -
  let ?prev = "in_headers s csid"
  from assms(1) obtain m packet h0 h ts used delta where
    m: "chunk_msg_len s fmt csid b = Inr m"
    and p: "current_packet s csid m = Inr packet" "pk_ext packet = Some h0"
    and mh: "message_header fmt ?prev (in_deltas s csid) h0 b = Inr (h, ts, used, delta)"
    and et: "extended_timestamp (s\<lparr>in_deltas := (in_deltas s)(csid := delta)\<rparr>) fmt csid ?prev h packet ts
               (drop used b) = Inr (GotChunk s' rest p)"
    by (auto simp: parse_message_def rbind_eq_Inr split: option.splits)
  have used: "used \<le> length b"
    using mh assms(2) by (auto simp: message_header_def hdr_len_def rbind_eq_Inr split: if_splits)
  from extended_timestamp_got [OF et, of e] used
  have "extended_timestamp (s\<lparr>in_deltas := (in_deltas s)(csid := delta)\<rparr>) fmt csid ?prev h packet ts
               (drop used (b @ e)) = Inr (GotChunk s' (rest @ e) p)" by simp
  then show ?thesis
    using chunk_msg_len_append [OF m assms(2), of e] p message_header_append [OF mh assms(2), of e]
    by (simp add: parse_message_def)
qed

text \<open>What an early return after the message header has changed.\<close>

lemma extended_timestamp_need:
  assumes "extended_timestamp s fmt csid prev h packet ts d = Inr (NeedMore s')"
  obtains (plain) e where "s' = s\<lparr>in_ext := (in_ext s)(csid := e),
                            in_packets := (in_packets s)(csid \<mapsto> packet\<lparr>pk_ext := Some h\<rparr>)\<rparr>"
      and "e = (if fmt = 3 then in_ext s csid else ts = 0xFFFFFF)"
    | (ext) t where "ReadUint32T d = Inr t" "fmt \<noteq> 0" "if fmt = 3 then in_ext s csid else ts = 0xFFFFFF"
      and "4 \<le> length d"
      and "s' = s\<lparr>in_ext := (in_ext s)(csid := True), in_deltas := (in_deltas s)(csid := t),
                  in_packets := (in_packets s)(csid \<mapsto> packet\<lparr>pk_ext := Some (h\<lparr>rh_timestamp := t + rh_timestamp prev\<rparr>)\<rparr>)\<rparr>"
proof -
  define e where "e = (if fmt = 3 then in_ext s csid else ts = 0xFFFFFF)"
  show thesis
  proof (cases "e \<and> \<not> length d < 4 \<and> fmt \<noteq> 0")
    case True
    then obtain t where "ReadUint32T d = Inr t" using readE(1) [of d] by auto
    with True assms ext [of t] show thesis
      by (auto simp: extended_timestamp_def Let_def e_def dest!: chunk_body_need split: if_splits)
  next
    case False
    with assms plain [of e] show thesis
      by (auto simp: extended_timestamp_def Let_def e_def rbind_eq_Inr
          dest!: chunk_body_need split: if_splits)
  qed
qed

text \<open>What the rest of the loop body overwrites does not matter to it.\<close>

lemma chunk_body_absorb:
  "chunk_body (s\<lparr>in_packets := (in_packets s)(csid := q)\<rparr>) fmt csid prev h (packet\<lparr>pk_ext := x\<rparr>) d =
   chunk_body s fmt csid prev h packet d"
  by (simp add: chunk_body_def Let_def Space_def)

lemma extended_timestamp_absorb:
  assumes "e = (if fmt = 3 then in_ext s csid else ts = 0xFFFFFF)"
    and s': "s' = s\<lparr>in_ext := (in_ext s)(csid := e), in_packets := (in_packets s)(csid := q)\<rparr>"
  shows "extended_timestamp s' fmt csid prev h (packet\<lparr>pk_ext := x\<rparr>) ts d =
         extended_timestamp s fmt csid prev h packet ts d"
proof -
  let ?s = "s\<lparr>in_ext := (in_ext s)(csid := e)\<rparr>"
  have e: "(if fmt = 3 then in_ext s' csid else ts = 0xFFFFFF) = e"
    using assms(1) by (simp add: s')
  have 1: "s'\<lparr>in_ext := (in_ext s')(csid := e)\<rparr> = ?s\<lparr>in_packets := (in_packets ?s)(csid := q)\<rparr>"
    by (simp add: s')
  have 2: "?s\<lparr>in_packets := (in_packets ?s)(csid := q), in_deltas := y\<rparr> =
      ?s\<lparr>in_deltas := y, in_packets := (in_packets (?s\<lparr>in_deltas := y\<rparr>))(csid := q)\<rparr>" for y by simp
  have 3: "in_packets (s'\<lparr>in_ext := z\<rparr>) = (in_packets s)(csid := q)" "in_deltas s' = in_deltas s" for z
    by (simp_all add: s')
  show ?thesis
    unfolding extended_timestamp_def Let_def e assms(1) [symmetric] 1
    by (simp only: 2 chunk_body_absorb) (simp add: s' cong: if_cong)
qed

text \<open>The message header can be read again over its own result.\<close>

lemma message_header_again:
  assumes "message_header fmt prev delta h0 b = Inr (h, ts, used, delta')"
  shows "message_header fmt prev delta' h b = Inr (h, ts, used, delta')"
  using assms by (auto simp: message_header_def rbind_eq_Inr split: if_splits)

lemma message_header_again_ext:
  assumes "message_header fmt prev delta h0 b = Inr (h, ts, used, delta')" and "fmt \<noteq> 0"
  shows "message_header fmt prev t (h\<lparr>rh_timestamp := t + rh_timestamp prev\<rparr>) b =
           Inr (if fmt = 1 \<or> fmt = 2 then (h, ts, used, delta')
                else (h\<lparr>rh_timestamp := t + rh_timestamp prev\<rparr>, ts, used, t))"
  using assms by (auto simp: message_header_def rbind_eq_Inr split: if_splits)

lemma extended_timestamp_absorb_ext:
  assumes ext: "if fmt = 3 then in_ext s csid else ts = 0xFFFFFF" and "fmt \<noteq> 0"
    and t: "ReadUint32T d = Inr t" "4 \<le> length d"
    and s': "s' = s\<lparr>in_ext := (in_ext s)(csid := True), in_deltas := (in_deltas s)(csid := y),
             in_packets := (in_packets s)(csid := q)\<rparr>"
    and h': "h' = h\<lparr>rh_timestamp := z\<rparr>"
  shows "extended_timestamp s' fmt csid prev h' (packet\<lparr>pk_ext := x\<rparr>) ts d =
         extended_timestamp s fmt csid prev h packet ts d"
proof -
  let ?s = "s\<lparr>in_ext := (in_ext s)(csid := True), in_deltas := (in_deltas s)(csid := t)\<rparr>"
  let ?h = "h\<lparr>rh_timestamp := t + rh_timestamp prev\<rparr>"
  have e: "(if fmt = 3 then in_ext s' csid else ts = 0xFFFFFF) = True"
    "(if fmt = 3 then in_ext s csid else ts = 0xFFFFFF) = True"
    using ext by (simp_all add: s')
  have 1: "s'\<lparr>in_ext := (in_ext s')(csid := True),
      in_deltas := (in_deltas (s'\<lparr>in_ext := (in_ext s')(csid := True)\<rparr>))(csid := t)\<rparr> =
      ?s\<lparr>in_packets := (in_packets ?s)(csid := q)\<rparr>"
    by (simp add: s')
  have 2: "s\<lparr>in_ext := (in_ext s)(csid := True),
      in_deltas := (in_deltas (s\<lparr>in_ext := (in_ext s)(csid := True)\<rparr>))(csid := t)\<rparr> = ?s"
    by simp
  have "extended_timestamp s' fmt csid prev h' (packet\<lparr>pk_ext := x\<rparr>) ts d =
      chunk_body (?s\<lparr>in_packets := (in_packets ?s)(csid := q)\<rparr>) fmt csid prev ?h
        (packet\<lparr>pk_ext := x\<rparr>) (drop 4 d)"
    unfolding extended_timestamp_def Let_def e using t assms(2) 1 by (simp add: h')
  also have "\<dots> = chunk_body ?s fmt csid prev ?h packet (drop 4 d)"
    by (rule chunk_body_absorb)
  also have "\<dots> = extended_timestamp s fmt csid prev h packet ts d"
    unfolding extended_timestamp_def Let_def e using t assms(2) by (simp add: 2)
  finally show ?thesis .
qed

lemma parse_message_need:
  assumes need: "parse_message s fmt csid b = Inr (NeedMore s')" and len: "hdr_len fmt \<le> length b"
    and fmt: "fmt < 4"
  shows "parse_message s' fmt csid (b @ e) = parse_message s fmt csid (b @ e)"
proof -
  let ?prev = "in_headers s csid"
  from need obtain m packet h0 h ts used delta where
    m: "chunk_msg_len s fmt csid b = Inr m"
    and p: "current_packet s csid m = Inr packet" "pk_ext packet = Some h0"
    and mh: "message_header fmt ?prev (in_deltas s csid) h0 b = Inr (h, ts, used, delta)"
    and et: "extended_timestamp (s\<lparr>in_deltas := (in_deltas s)(csid := delta)\<rparr>) fmt csid ?prev h packet ts
               (drop used b) = Inr (NeedMore s')"
    by (auto simp: parse_message_def rbind_eq_Inr split: option.splits)
  define s1 where "s1 = s\<lparr>in_deltas := (in_deltas s)(csid := delta)\<rparr>"
  let ?d = "drop used (b @ e)"
  have used: "used \<le> length b"
    using mh len by (auto simp: message_header_def hdr_len_def rbind_eq_Inr split: if_splits)
  have m': "chunk_msg_len s fmt csid (b @ e) = Inr m" by (rule chunk_msg_len_append [OF m len])
  have lhs: "parse_message s fmt csid (b @ e) = extended_timestamp s1 fmt csid ?prev h packet ts ?d"
    using m' p message_header_append [OF mh len, of e] by (simp add: parse_message_def s1_def)
  from et [folded s1_def] show ?thesis
  proof (cases rule: extended_timestamp_need)
    case (plain x)
    have mh': "message_header fmt ?prev delta h (b @ e) = Inr (h, ts, used, delta)"
      by (rule message_header_append [OF message_header_again [OF mh] len])
    have sel: "in_headers s' = in_headers s" "in_chunk_size s' = in_chunk_size s"
      "in_deltas s' csid = delta" "in_packets s' csid = Some (packet\<lparr>pk_ext := Some h\<rparr>)"
      "s'\<lparr>in_deltas := (in_deltas s')(csid := delta)\<rparr> = s'"
      by (simp_all add: plain(1) s1_def)
    have "parse_message s' fmt csid (b @ e) =
        extended_timestamp s' fmt csid ?prev h (packet\<lparr>pk_ext := Some h\<rparr>) ts ?d"
      using m' mh' sel chunk_msg_len_cong [OF sel(1,2)] by (simp add: parse_message_def current_packet_def)
    also have "\<dots> = extended_timestamp s1 fmt csid ?prev h packet ts ?d"
      by (rule extended_timestamp_absorb [OF plain(2,1)])
    finally show ?thesis using lhs by simp
  next
    case (ext t)
    let ?h = "h\<lparr>rh_timestamp := t + rh_timestamp ?prev\<rparr>"
    define y where "y = (if fmt = 1 \<or> fmt = 2 then delta else t)"
    define z where "z = (if fmt = 1 \<or> fmt = 2 then rh_timestamp h else t + rh_timestamp ?prev)"
    have r: "(if fmt = 1 \<or> fmt = 2 then (h, ts, used, delta) else (?h, ts, used, t)) =
        (h\<lparr>rh_timestamp := z\<rparr>, ts, used, y)" by (simp add: y_def z_def)
    have mh': "message_header fmt ?prev t ?h (b @ e) = Inr (h\<lparr>rh_timestamp := z\<rparr>, ts, used, y)"
      using message_header_append [OF message_header_again_ext [OF mh ext(2), of t] len, of e]
      unfolding r .
    have sel: "in_headers s' = in_headers s" "in_chunk_size s' = in_chunk_size s"
      "in_deltas s' csid = t" "in_packets s' csid = Some (packet\<lparr>pk_ext := Some ?h\<rparr>)"
      by (simp_all add: ext(5) s1_def)
    have s2: "s'\<lparr>in_deltas := (in_deltas s')(csid := y)\<rparr> =
        s1\<lparr>in_ext := (in_ext s1)(csid := True), in_deltas := (in_deltas s1)(csid := y),
           in_packets := (in_packets s1)(csid \<mapsto> packet\<lparr>pk_ext := Some ?h\<rparr>)\<rparr>"
      by (simp add: ext(5) s1_def)
    have "parse_message s' fmt csid (b @ e) =
        extended_timestamp (s'\<lparr>in_deltas := (in_deltas s')(csid := y)\<rparr>) fmt csid ?prev
          (h\<lparr>rh_timestamp := z\<rparr>) (packet\<lparr>pk_ext := Some ?h\<rparr>) ts ?d"
      using m' mh' sel chunk_msg_len_cong [OF sel(1,2)] by (simp add: parse_message_def current_packet_def)
    also have "\<dots> = extended_timestamp s1 fmt csid ?prev h packet ts ?d"
      using ext(3) ext(4) used read_append(1) [OF ext(1), of e]
      by (intro extended_timestamp_absorb_ext [where t = t and q = "Some (packet\<lparr>pk_ext := Some ?h\<rparr>)", OF _ ext(2) _ _ s2]) auto
    finally show ?thesis using lhs by simp
  qed
qed

text \<open>Both halves for the whole loop body.\<close>

lemma basic_header_append:
  "basic_header d = Inr (Some bh) \<Longrightarrow> basic_header (d @ e) = Inr (Some bh)"
  by (auto simp: basic_header_def Let_def rbind_eq_Inr nth_checked_def nth_append split: if_splits)

lemma parse_chunk_eq:
  "basic_header d = Inr (Some (fmt, csid, parsed)) \<Longrightarrow>
     parse_chunk s d = (if length d \<le> parsed \<or> length d - parsed < hdr_len fmt then Inr (NeedMore s)
                        else parse_message s fmt csid (drop parsed d))"
  by (auto simp: parse_chunk_def hdr_len_def Let_def)

lemma parse_chunk_elim:
  assumes "parse_chunk s d = Inr out" and "out \<noteq> NeedMore s"
  obtains fmt csid parsed where "basic_header d = Inr (Some (fmt, csid, parsed))"
    and "parse_message s fmt csid (drop parsed d) = Inr out"
    and "parsed < length d" "hdr_len fmt \<le> length (drop parsed d)"
proof -
  from assms obtain bh where bh: "basic_header d = Inr (Some bh)"
    by (auto simp: parse_chunk_def rbind_eq_Inr split: option.splits)
  obtain fmt csid parsed where "bh = (fmt, csid, parsed)" by (rule prod_cases3)
  with bh that assms show thesis
    by (auto simp: parse_chunk_eq split: if_splits)
qed

lemma parse_chunk_got:
  assumes "parse_chunk s d = Inr (GotChunk s' rest p)"
  shows "parse_chunk s (d @ e) = Inr (GotChunk s' (rest @ e) p)"
proof -
  from assms obtain fmt csid parsed where bh: "basic_header d = Inr (Some (fmt, csid, parsed))"
    and pm: "parse_message s fmt csid (drop parsed d) = Inr (GotChunk s' rest p)"
    and len: "parsed < length d" "hdr_len fmt \<le> length (drop parsed d)"
    by (rule parse_chunk_elim) simp
  from parse_message_got [OF pm len(2), of e] len parse_chunk_eq [OF basic_header_append [OF bh, of e]]
  show ?thesis by simp
qed

lemma parse_chunk_need:
  assumes need: "parse_chunk s d = Inr (NeedMore s')" and d: "d \<noteq> []"
  shows "parse_chunk s' (d @ e) = parse_chunk s (d @ e)"
proof (cases "s' = s")
  case False
  with need obtain fmt csid parsed where bh: "basic_header d = Inr (Some (fmt, csid, parsed))"
    and pm: "parse_message s fmt csid (drop parsed d) = Inr (NeedMore s')"
    and len: "parsed < length d" "hdr_len fmt \<le> length (drop parsed d)"
    by (auto elim: parse_chunk_elim)
  have "fmt < 4" using basic_header_ok(2) [OF d bh] by simp
  from parse_message_need [OF pm len(2) this, of e] len parse_chunk_eq [OF basic_header_append [OF bh, of e]]
  show ?thesis by simp
qed simp

lemma chunk_body_consumes:
  "chunk_body s fmt csid prev h packet d = Inr (GotChunk s' rest p) \<Longrightarrow> length rest \<le> length d"
  by (auto simp: chunk_body_def Let_def rbind_eq_Inr split: if_splits)

lemma extended_timestamp_consumes:
  "extended_timestamp s fmt csid prev h packet ts d = Inr (GotChunk s' rest p) \<Longrightarrow>
     length rest \<le> length d"
  by (auto simp: extended_timestamp_def Let_def rbind_eq_Inr split: if_splits
      dest!: chunk_body_consumes)

lemma parse_message_consumes:
  assumes "parse_message s fmt csid b = Inr (GotChunk s' rest p)"
  shows "length rest \<le> length b"
  using assms
  by (auto simp: parse_message_def rbind_eq_Inr split: option.splits dest!: extended_timestamp_consumes)

lemma parse_chunk_consumes:
  assumes "parse_chunk s d = Inr (GotChunk s' rest p)" and "d \<noteq> []"
  shows "length rest < length d"
proof -
  from assms(1) obtain fmt csid parsed where bh: "basic_header d = Inr (Some (fmt, csid, parsed))"
    and pm: "parse_message s fmt csid (drop parsed d) = Inr (GotChunk s' rest p)"
    and "parsed < length d"
    by (rule parse_chunk_elim) simp
  with parse_message_consumes [OF pm] basic_header_ok(2) [OF assms(2) bh] show ?thesis by (simp; linarith)
qed

section \<open>The loop\<close>

text \<open>
  Termination and safety of the whole loop: with as many rounds as there are bytes it
  returns, with the invariant, having taken bytes off the front only.
\<close>

lemma parse_chunks_ok:
  assumes "rin_inv s" and "0 \<le> in_chunk_size s" and "length d < f"
  shows "\<exists>ps s' n. parse_chunks f s d = Inr (ps, s', drop n d) \<and> rin_inv s' \<and>
           in_chunk_size s' = in_chunk_size s"
  using assms
proof (induction f arbitrary: s d)
  case (Suc f)
  show ?case
  proof (cases "1 < length d")
    case False
    with Suc.prems show ?thesis by (auto intro!: exI [of _ 0])
  next
    case True
    then have "d \<noteq> []" by auto
    from parse_chunk_ok [OF Suc.prems(1,2) this] obtain out where
      out: "parse_chunk s d = Inr out" "chunk_out_ok d (in_chunk_size s) out" by blast
    show ?thesis
    proof (cases out)
      case (NeedMore s')
      with out True show ?thesis by (auto simp: chunk_out_ok_def intro!: exI [of _ 0])
    next
      case (GotChunk s' rest p)
      with out obtain n where s': "rin_inv s'" "in_chunk_size s' = in_chunk_size s" "rest = drop n d"
        by (auto simp: chunk_out_ok_def)
      have "length rest < length d"
        using out(1) GotChunk parse_chunk_consumes [OF _ \<open>d \<noteq> []\<close>] by simp
      then have "length rest < f" using Suc.prems(3) by simp
      with Suc.IH [OF s'(1)] s'(2) Suc.prems(2) obtain ps s'' n' where
        "parse_chunks f s' rest = Inr (ps, s'', drop n' rest)" "rin_inv s''"
        "in_chunk_size s'' = in_chunk_size s" by metis
      with out(1) GotChunk True s'(3) show ?thesis by auto
    qed
  qed
qed simp

text \<open>More rounds than needed change nothing.\<close>

lemma parse_chunks_fuel:
  "parse_chunks f s d = Inr r \<Longrightarrow> f \<le> f' \<Longrightarrow> parse_chunks f' s d = Inr r"
proof (induction f arbitrary: f' s d r)
  case (Suc f)
  then obtain g where g: "f' = Suc g" "f \<le> g" by (cases f') auto
  show ?case
  proof (cases "1 < length d")
    case True
    with Suc.prems(1) obtain out where out: "parse_chunk s d = Inr out" by (auto simp: rbind_eq_Inr)
    show ?thesis
      using Suc.prems(1) Suc.IH [OF _ g(2)] out g(1) True
      by (cases out) (auto simp: rbind_eq_Inr)
  next
    case False
    with Suc.prems(1) g(1) show ?thesis by simp
  qed
qed simp

text \<open>
  Splitting the byte stream: what a call leaves in the buffer, with the bytes that arrive
  later behind it, gives the second call what is missing of the result on the whole.
\<close>

lemma parse_chunks_append:
  assumes "parse_chunks f s d = Inr (ps, s', rest)"
    and "parse_chunks g s' (rest @ e) = Inr (qs, s'', rest')"
  shows "parse_chunks (f + g) s (d @ e) = Inr (ps @ qs, s'', rest')"
  using assms
proof (induction f arbitrary: s d ps)
  case (Suc f)
  show ?case
  proof (cases "1 < length d")
    case False
    with Suc.prems have "ps = []" "s' = s" "rest = d" by auto
    with Suc.prems(2) parse_chunks_fuel [OF Suc.prems(2), of "Suc f + g"] show ?thesis by simp
  next
    case True
    then have ne: "d \<noteq> []" by auto
    from Suc.prems(1) True obtain out where out: "parse_chunk s d = Inr out" by (auto simp: rbind_eq_Inr)
    show ?thesis
    proof (cases out)
      case (NeedMore t)
      with Suc.prems(1) True out have eq: "ps = []" "s' = t" "rest = d" by auto
      have "parse_chunks (Suc f + g) t (d @ e) = Inr (qs, s'', rest')"
        using parse_chunks_fuel [OF Suc.prems(2), of "Suc f + g"] eq by simp
      with parse_chunk_need [OF out [unfolded NeedMore] ne, of e] True eq(1) show ?thesis by simp
    next
      case (GotChunk t r p)
      with Suc.prems(1) True out obtain ps' where
        1: "parse_chunks f t r = Inr (ps', s', rest)" "ps = (case p of None \<Rightarrow> ps' | Some p \<Rightarrow> p # ps')"
        by (auto simp: rbind_eq_Inr)
      from Suc.IH [OF 1(1) Suc.prems(2)] parse_chunk_got [OF out [unfolded GotChunk], of e] True 1(2)
      show ?thesis by (simp split: option.splits)
    qed
  qed
qed simp

text \<open>The loop with a round per byte.\<close>

definition run_chunks :: "RtmpIn \<Rightarrow> bytes \<Rightarrow> (RtmpPacket list \<times> RtmpIn \<times> bytes) result" where
  "run_chunks s d = parse_chunks (Suc (length d)) s d"

lemma run_chunks_ok:
  assumes "rin_inv s" and "0 \<le> in_chunk_size s"
  shows "\<exists>ps s' n. run_chunks s d = Inr (ps, s', drop n d) \<and> rin_inv s' \<and>
           in_chunk_size s' = in_chunk_size s"
  unfolding run_chunks_def by (rule parse_chunks_ok [OF assms]) simp

lemma run_chunks_unique:
  assumes "rin_inv s" and "0 \<le> in_chunk_size s" and n: "parse_chunks n s d = Inr r"
  shows "run_chunks s d = Inr r"
proof -
  let ?f = "Suc (length d)"
  obtain r' where r': "parse_chunks ?f s d = Inr r'"
    using run_chunks_ok [OF assms(1,2), of d] by (auto simp: run_chunks_def)
  have "parse_chunks (max n ?f) s d = Inr r" "parse_chunks (max n ?f) s d = Inr r'"
    by (rule parse_chunks_fuel [OF n], simp) (rule parse_chunks_fuel [OF r'], simp)
  with r' show ?thesis by (simp add: run_chunks_def)
qed

end
