(* ===== verification/RtmpSend.thy ===== *)
theory RtmpSend
  imports RtmpChunk
begin

text \<open>
  Sending RTMP messages: \<open>BuildChunk\<close>, \<open>Send\<close>, \<open>CheckAndSend\<close> and \<open>PushOutQueue\<close> of
  \<open>mmedia/rtmp/RtmpContext.cc\<close> over the sending fields of the class. The chunk headers are
  written one behind the other into \<open>out_buffer_\<close>, 4096 bytes, by unchecked writes; a
  write past it is the fault \<open>OutOfBounds\<close>. The \<open>BufferNode\<close>s of \<open>sending_bufs_\<close> point into
  that buffer and into the packets; neither changes while they are queued, so a node is its
  bytes. A node that reaches past its packet is a fault where it is made. What the
  connection gets to send is returned.
\<close>

definition kRtmpMsgTypeChunkSize :: u8 where "kRtmpMsgTypeChunkSize = 1"
definition kRtmpMsgTypeBytesRead :: u8 where "kRtmpMsgTypeBytesRead = 3"
definition kRtmpMsgTypeUserControl :: u8 where "kRtmpMsgTypeUserControl = 4"
definition kRtmpMsgTypeWindowACKSize :: u8 where "kRtmpMsgTypeWindowACKSize = 5"
definition kRtmpMsgTypeSetPeerBW :: u8 where "kRtmpMsgTypeSetPeerBW = 6"
definition kRtmpMsgTypeAudio :: u8 where "kRtmpMsgTypeAudio = 8"
definition kRtmpMsgTypeVideo :: u8 where "kRtmpMsgTypeVideo = 9"
definition kRtmpMsgTypeAMF3Meta :: u8 where "kRtmpMsgTypeAMF3Meta = 15"
definition kRtmpMsgTypeAMF3Message :: u8 where "kRtmpMsgTypeAMF3Message = 17"
definition kRtmpMsgTypeAMFMeta :: u8 where "kRtmpMsgTypeAMFMeta = 18"
definition kRtmpMsgTypeAMFMessage :: u8 where "kRtmpMsgTypeAMFMessage = 20"

lemmas rtmp_msg_type_defs = kRtmpMsgTypeChunkSize_def kRtmpMsgTypeBytesRead_def
  kRtmpMsgTypeUserControl_def kRtmpMsgTypeWindowACKSize_def kRtmpMsgTypeSetPeerBW_def
  kRtmpMsgTypeAudio_def kRtmpMsgTypeVideo_def kRtmpMsgTypeAMF3Meta_def
  kRtmpMsgTypeAMF3Message_def kRtmpMsgTypeAMFMeta_def kRtmpMsgTypeAMFMessage_def

text \<open>
  The sending fields. \<open>out_current_\<close> is its distance from \<open>out_buffer_\<close>; an absent key of
  \<open>out_message_headers_\<close> holds a null pointer, one of \<open>out_deltas_\<close> holds 0;
  \<open>out_chunk_size_\<close> is never assigned.
\<close>

record RtmpOut =
  ro_pos :: nat
  ro_deltas :: "nat \<Rightarrow> u32"
  ro_headers :: "nat \<rightharpoonup> RtmpMsgHeader"
  ro_waiting :: "RtmpPacket list"
  ro_bufs :: "bytes list"
  ro_packets :: "RtmpPacket list"
  ro_sending :: bool

definition RtmpOut_new :: RtmpOut where
  "RtmpOut_new = \<lparr>ro_pos = 0, ro_deltas = (\<lambda>_. 0), ro_headers = (\<lambda>_. None), ro_waiting = [],
                  ro_bufs = [], ro_packets = [], ro_sending = False\<rparr>"

definition out_buffer_size :: nat where "out_buffer_size = 4096"
definition out_chunk_size :: nat where "out_chunk_size = 4096"

section \<open>Building chunks\<close>

text \<open>Writing \<open>n\<close> bytes at \<open>out_current_\<close>.\<close>

definition out_write :: "nat \<Rightarrow> bytes \<Rightarrow> nat result" where
  "out_write pos d = (if pos + length d \<le> out_buffer_size then Inr (pos + length d) else Inl OutOfBounds)"

definition write_basic_header :: "nat \<Rightarrow> nat \<Rightarrow> bytes" where
  "write_basic_header fmt csid =
     (if csid < 64 then [push_bit 6 (of_nat fmt) OR of_nat csid]
      else if csid < 64 + 256 then [push_bit 6 (of_nat fmt), of_nat (csid - 64)]
      else [push_bit 6 (of_nat fmt) OR 1] @ memcpy_u16 (of_nat (csid - 64)))"

definition write_message_header :: "nat \<Rightarrow> u32 \<Rightarrow> RtmpMsgHeader \<Rightarrow> bytes" where
  "write_message_header fmt ts h =
     (if fmt = 0
      then WriteUint24T ts @ WriteUint24T (rh_msg_len h) @ WriteUint8T (rh_msg_type h) @ memcpy_u32 (rh_msg_sid h)
      else if fmt = 1
      then WriteUint24T ts @ WriteUint24T (rh_msg_len h) @ WriteUint8T (rh_msg_type h)
      else if fmt = 2 then WriteUint24T ts
      else [])"

definition write_extended :: "u32 \<Rightarrow> bytes" where
  "write_extended timestamp = (if timestamp \<ge> 0xFFFFFF then memcpy_u32 timestamp else [])"

text \<open>The choice of the header format; \<open>timestamp\<close> becomes the delta when one is used.\<close>

definition choose_fmt :: "RtmpMsgHeader option \<Rightarrow> u32 \<Rightarrow> bool \<Rightarrow> RtmpMsgHeader \<Rightarrow> u32 \<Rightarrow> nat \<times> u32" where
  "choose_fmt prev delta use_delta h timestamp =
     (case prev of None \<Rightarrow> (0, timestamp) | Some p \<Rightarrow>
        if use_delta
        then (let t = timestamp - rh_timestamp p
              in (if rh_msg_type h = rh_msg_type p \<and> rh_msg_len h = rh_msg_len p
                  then if t = delta then 3 else 2 else 1, t))
        else (0, timestamp))"

text \<open>
  The loop over the payload: a node per chunk, and before every chunk but the first a
  type 3 header, unless \<open>out_buffer_\<close> is used up, when the rest of the message is dropped.
\<close>

function chunk_loop :: "bytes \<Rightarrow> bytes \<Rightarrow> nat \<Rightarrow> nat \<Rightarrow> nat \<Rightarrow> (bytes list \<times> nat) result" where
  "chunk_loop hdr data len parsed pos =
     (let sz = min (len - parsed) out_chunk_size
      in rbind (slice_checked data parsed sz) (\<lambda>chunk.
           if parsed + sz < len
           then if pos \<ge> out_buffer_size then Inr ([chunk], pos)
                else rbind (out_write pos hdr) (\<lambda>pos'.
                     rbind (chunk_loop hdr data len (parsed + sz) pos') (\<lambda>(bs, q).
                       Inr (chunk # hdr # bs, q)))
           else Inr ([chunk], pos)))"
  by pat_completeness auto
termination
  by (relation "measure (\<lambda>(_, _, len, parsed, _). len - parsed)") (auto simp: out_chunk_size_def)

declare chunk_loop.simps [simp del]

text \<open>
  The body of both overloads, from the choice of the format on. A message length from
  \<open>2 ^ 31\<close> on makes \<open>size\<close> negative and the first node run off the packet.
\<close>

definition build_chunks :: "RtmpPacket \<Rightarrow> RtmpMsgHeader \<Rightarrow> bool \<Rightarrow> u32 \<Rightarrow> RtmpOut \<Rightarrow> RtmpOut result" where
  "build_chunks packet h use_delta timestamp s =
     (let csid = rh_cs_id h;
          (fmt, t) = choose_fmt (ro_headers s csid) (ro_deltas s csid) use_delta h timestamp;
          prev = (case ro_headers s csid of None \<Rightarrow> RtmpMsgHeader_new | Some p \<Rightarrow> p);
          ts = (if t \<ge> 0xFFFFFF then 0xFFFFFF else t);
          hdr = write_basic_header fmt csid @ write_message_header fmt ts h @ write_extended t;
          deltas = (if fmt = 0 then (ro_deltas s)(csid := 0)
                    else if fmt = 1 \<or> fmt = 2 then (ro_deltas s)(csid := t)
                    else ro_deltas s);
          prev' = prev\<lparr>rh_cs_id := csid, rh_msg_len := rh_msg_len h, rh_msg_sid := rh_msg_sid h,
                       rh_msg_type := rh_msg_type h,
                       rh_timestamp := (if fmt = 0 then t else rh_timestamp prev + t)\<rparr>
      in rbind (out_write (ro_pos s) hdr) (\<lambda>pos.
         if rh_msg_len h \<ge> 0x80000000 then Inl OutOfBounds
         else rbind (chunk_loop (write_basic_header 3 csid @ write_extended t) (pk_data packet)
                       (unat (rh_msg_len h)) 0 pos) (\<lambda>(nodes, pos').
           Inr (s\<lparr>ro_pos := pos', ro_deltas := deltas, ro_headers := (ro_headers s)(csid \<mapsto> prev'),
                  ro_bufs := ro_bufs s @ hdr # nodes\<rparr>))))"

text \<open>
  \<open>BuildChunk(PacketPtr &&packet, ...)\<close>, the one the queue uses: true, and the new state,
  if the packet has a message header.
\<close>

definition BuildChunk_move :: "RtmpPacket \<Rightarrow> u32 \<Rightarrow> bool \<Rightarrow> RtmpOut \<Rightarrow> (bool \<times> RtmpOut) result" where
  "BuildChunk_move packet timestamp fmt0 s =
     (case pk_ext packet of
        None \<Rightarrow> Inr (False, s)
      | Some h \<Rightarrow>
          let use_delta = (\<not> fmt0 \<and> (case ro_headers s (rh_cs_id h) of None \<Rightarrow> False | Some p \<Rightarrow>
                             timestamp \<ge> rh_timestamp p \<and> rh_msg_sid h = rh_msg_sid p))
          in rbind (build_chunks packet h use_delta timestamp s) (\<lambda>s'.
               Inr (True, s'\<lparr>ro_packets := ro_packets s' @ [packet]\<rparr>)))"

text \<open>
  \<open>BuildChunk(const PacketPtr &packet, ...)\<close>, called by the owner of the context. Its
  condition asks for \<open>!prev\<close> before it reads \<open>prev->timestamp\<close>.
\<close>

definition BuildChunk :: "RtmpPacket \<Rightarrow> u32 \<Rightarrow> bool \<Rightarrow> RtmpOut \<Rightarrow> (bool \<times> RtmpOut) result" where
  "BuildChunk packet timestamp fmt0 s =
     (case pk_ext packet of
        None \<Rightarrow> Inr (False, s)
      | Some h \<Rightarrow>
          let s = s\<lparr>ro_packets := ro_packets s @ [packet]\<rparr>
          in if \<not> fmt0 \<and> ro_headers s (rh_cs_id h) = None then Inl NullDeref
             else rbind (build_chunks packet h False timestamp s) (\<lambda>s'. Inr (True, s')))"

section \<open>The queue\<close>

text \<open>At most the given number of waiting packets is built into chunks.\<close>

fun build_waiting :: "nat \<Rightarrow> RtmpOut \<Rightarrow> RtmpOut result" where
  "build_waiting 0 s = Inr s"
| "build_waiting (Suc n) s =
     (case ro_waiting s of
        [] \<Rightarrow> Inr s
      | packet # ps \<Rightarrow> rbind (BuildChunk_move packet 0 False (s\<lparr>ro_waiting := ps\<rparr>)) (\<lambda>(_, s').
          build_waiting n s'))"

text \<open>What the connection is given to send, if \<open>Send\<close> reaches it.\<close>

definition Send :: "RtmpOut \<Rightarrow> (RtmpOut \<times> bytes list option) result" where
  "Send s =
     (if ro_sending s then Inr (s, None)
      else rbind (build_waiting 10 (s\<lparr>ro_sending := True\<rparr>)) (\<lambda>s'. Inr (s', Some (ro_bufs s'))))"

definition Ready :: "RtmpOut \<Rightarrow> bool" where
  "Ready s \<longleftrightarrow> \<not> ro_sending s"

text \<open>\<open>CheckAndSend\<close>: the second component says that \<open>OnActive\<close> is due.\<close>

definition CheckAndSend :: "RtmpOut \<Rightarrow> (RtmpOut \<times> bytes list option \<times> bool) result" where
  "CheckAndSend s =
     (let s = s\<lparr>ro_sending := False, ro_pos := 0, ro_bufs := [], ro_packets := []\<rparr>
      in if ro_waiting s \<noteq> []
         then rbind (Send s) (\<lambda>(s', sent). Inr (s', sent, False))
         else Inr (s, None, True))"

definition PushOutQueue :: "RtmpPacket \<Rightarrow> RtmpOut \<Rightarrow> (RtmpOut \<times> bytes list option) result" where
  "PushOutQueue packet s = Send (s\<lparr>ro_waiting := ro_waiting s @ [packet]\<rparr>)"

end
