(* ===== verification/RtmpChunkTrip.thy ===== *)
theory RtmpChunkTrip
  imports RtmpSend
begin

text \<open>
  Sender against receiver: what \<open>BuildChunk\<close> puts into the sending buffers, the loop of
  \<open>ParseMessage\<close> takes apart into the same packets. The receiver's fields follow the
  sender's (\<open>synced\<close>), message by message.
\<close>

section \<open>The nodes of a message\<close>

text \<open>The payload cut into chunks with a type 3 header between them.\<close>

function split_chunks :: "bytes \<Rightarrow> bytes \<Rightarrow> bytes list" where
  "split_chunks hdr xs =
     (if length xs \<le> out_chunk_size then [xs]
      else take out_chunk_size xs # hdr # split_chunks hdr (drop out_chunk_size xs))"
  by pat_completeness auto
termination
  by (relation "measure (\<lambda>(_, xs). length xs)") (auto simp: out_chunk_size_def)

declare split_chunks.simps [simp del]

lemma chunk_count_step: "out_chunk_size < n \<Longrightarrow> (n - 1) div out_chunk_size = Suc ((n - out_chunk_size - 1) div out_chunk_size)"
proof -
  assume "out_chunk_size < n"
  then have "n - 1 = (n - out_chunk_size - 1) + out_chunk_size" by simp
  then show ?thesis by (simp add: out_chunk_size_def del: One_nat_def)
qed

text \<open>With room for the headers, the loop writes the whole payload.\<close>

lemma chunk_loop_ok:
  assumes "parsed \<le> len" and "len \<le> length data" and "0 < length hdr"
    and "pos + length hdr * ((len - parsed - 1) div out_chunk_size) \<le> out_buffer_size"
  shows "chunk_loop hdr data len parsed pos =
           Inr (split_chunks hdr (take (len - parsed) (drop parsed data)),
                pos + length hdr * ((len - parsed - 1) div out_chunk_size))"
  using assms
proof (induction hdr data len parsed pos rule: chunk_loop.induct)
  case (1 hdr data len parsed pos)
  show ?case
  proof (cases "len - parsed \<le> out_chunk_size")
    case True
    have "(len - parsed - 1) div out_chunk_size = 0"
      using True by (cases "len = parsed") (simp_all add: out_chunk_size_def)
    with 1(2-) True show ?thesis
      by (simp add: chunk_loop.simps split_chunks.simps min_absorb1 Let_def)
  next
    case False
    let ?n = "(len - parsed - out_chunk_size - 1) div out_chunk_size"
    have n: "(len - parsed - 1) div out_chunk_size = Suc ?n"
      using False by (intro chunk_count_step) simp
    have room: "pos + length hdr + length hdr * ?n \<le> out_buffer_size"
      using 1(5) unfolding n by simp
    then have "pos < out_buffer_size" "pos + length hdr \<le> out_buffer_size" using 1(4) by linarith+
    moreover have "chunk_loop hdr data len (parsed + out_chunk_size) (pos + length hdr) =
        Inr (split_chunks hdr (take (len - (parsed + out_chunk_size)) (drop (parsed + out_chunk_size) data)),
             pos + length hdr + length hdr * ?n)"
      using 1(1) [OF refl]
        1(2-4) False room \<open>pos < out_buffer_size\<close> \<open>pos + length hdr \<le> out_buffer_size\<close>
      by (simp add: min_absorb2 out_write_def)
    moreover have "min (len - parsed) out_chunk_size = out_chunk_size"
      "length (take (len - parsed) (drop parsed data)) = len - parsed"
      using False 1(3) by simp_all
    ultimately show ?thesis
      using False 1(3) unfolding n
      by (subst chunk_loop.simps, subst split_chunks.simps)
        (simp add: Let_def out_write_def add.commute min_absorb2 drop_take)
  qed
qed

section \<open>Headers\<close>

lemma unat_of_nat8: "n < 256 \<Longrightarrow> unat (of_nat n :: u8) = n"
  by (simp add: unat_of_nat take_bit_nat_eq_self)

lemma unat_of_nat16: "n < 65536 \<Longrightarrow> unat (of_nat n :: u16) = n"
  by (simp add: unat_of_nat take_bit_nat_eq_self)

lemma basic_header_bits:
  assumes "fmt < 4" and "c < 64"
  shows "unat (drop_bit 6 (push_bit 6 (of_nat fmt) OR of_nat c :: u8)) = fmt"
    and "(push_bit 6 (of_nat fmt) OR of_nat c :: u8) AND 0x3F = of_nat c"
proof -
  have c: "(of_nat c :: u8) = take_bit 6 (of_nat c)"
  proof -
    have "take_bit 6 c = c" using assms(2) by (simp add: take_bit_nat_eq_self)
    then show ?thesis by (metis of_nat_take_bit)
  qed
  have "drop_bit 6 (push_bit 6 (of_nat fmt) OR of_nat c :: u8) = of_nat fmt"
  proof -
    consider "fmt = 0" | "fmt = 1" | "fmt = 2" | "fmt = 3" using assms(1) by linarith
    then have "drop_bit 6 (push_bit 6 (of_nat fmt :: u8)) = of_nat fmt" by cases simp_all
    moreover have "drop_bit 6 (of_nat c :: u8) = 0"
      by (subst c) (rule bit_word_eqI; simp add: bit_simps)
    ultimately show ?thesis by (simp add: drop_bit_or)
  qed
  then show "unat (drop_bit 6 (push_bit 6 (of_nat fmt) OR of_nat c :: u8)) = fmt"
    using assms(1) by (simp add: unat_of_nat take_bit_nat_eq_self)
  have m: "(0x3F :: u8) = mask 6" by (simp add: mask_eq_exp_minus_1)
  have "take_bit 6 (push_bit 6 (of_nat fmt :: u8)) = 0"
    by (rule bit_word_eqI) (simp add: bit_simps)
  then show "(push_bit 6 (of_nat fmt) OR of_nat c :: u8) AND 0x3F = of_nat c"
    unfolding m take_bit_eq_mask [symmetric] take_bit_or using c by simp
qed

lemma basic_header_write:
  assumes "fmt < 4" and "2 \<le> csid" and "csid < 65600"
  shows "basic_header (write_basic_header fmt csid @ e) =
           Inr (Some (fmt, csid, length (write_basic_header fmt csid)))"
proof -
  consider "csid < 64" | "64 \<le> csid" "csid < 320" | "320 \<le> csid" by linarith
  then show ?thesis
  proof cases
    case 1
    have u: "unat (of_nat csid :: u8) = csid"
      using 1 by (simp add: unat_of_nat take_bit_nat_eq_self)
    then have "(of_nat csid :: u8) \<noteq> 0" "(of_nat csid :: u8) \<noteq> 1"
      using assms(2) by (auto simp del: unat_of_nat)
    with u 1 basic_header_bits [OF assms(1) 1] show ?thesis
      by (simp add: basic_header_def write_basic_header_def Let_def)
  next
    case 2
    have "unat (of_nat (csid - 64) :: u8) = csid - 64"
      using 2 by (intro unat_of_nat8) simp
    with 2 basic_header_bits [OF assms(1), of 0] show ?thesis
      by (simp add: basic_header_def write_basic_header_def Let_def)
  next
    case 3
    let ?w = "of_nat (csid - 64) :: u16"
    have w: "unat ?w = csid - 64"
      using 3 assms(3) by (intro unat_of_nat16) simp
    have "unat (drop_bit 8 v) = unat v div 256" for v :: u16
      using unat_drop_bit_eq [of 8 v] by (simp add: drop_bit_eq_div)
    then have "unat (ucast ?w :: u8) = unat ?w mod 256"
      "unat (ucast (drop_bit 8 ?w) :: u8) = unat ?w div 256 mod 256"
      by (simp_all only: unsigned_ucast_eq take_bit_eq_mod) simp_all
    moreover have "unat ?w div 256 mod 256 = unat ?w div 256" using w assms(3) by simp
    ultimately have "64 + unat (ucast ?w :: u8) + unat (ucast (drop_bit 8 ?w) :: u8) * 256 = csid"
      using w 3 by simp
    with 3 basic_header_bits [OF assms(1), of 1] show ?thesis
      by (simp add: basic_header_def write_basic_header_def Let_def memcpy_u16_def WriteUint16T_def)
  qed
qed

lemma length_write_basic_header:
  "1 \<le> length (write_basic_header fmt csid)" "length (write_basic_header fmt csid) \<le> 3"
  by (auto simp: write_basic_header_def)

lemma length_write_message_header:
  "length (write_message_header fmt ts h) = hdr_len fmt"
  by (simp add: write_message_header_def hdr_len_def)

lemma take_bit_24: "(v :: u32) \<le> 0xFFFFFF \<Longrightarrow> take_bit 24 v = v"
proof -
  assume "v \<le> 0xFFFFFF"
  then have "unat v < 2 ^ 24" by (simp add: word_le_nat_alt)
  then have "unat (take_bit 24 v) = unat v"
    by (simp add: unsigned_take_bit_eq take_bit_nat_eq_self)
  then show ?thesis by (rule unsigned_word_eqI)
qed

text \<open>What the receiver makes of a written message header.\<close>

definition read_back :: "nat \<Rightarrow> RtmpMsgHeader \<Rightarrow> u32 \<Rightarrow> u32 \<Rightarrow> RtmpMsgHeader \<Rightarrow> RtmpMsgHeader \<Rightarrow> RtmpMsgHeader" where
  "read_back fmt prev delta t h h0 =
     (if fmt = 0 then h0\<lparr>rh_timestamp := t, rh_msg_len := rh_msg_len h, rh_msg_type := rh_msg_type h,
                        rh_msg_sid := rh_msg_sid h\<rparr>
      else if fmt = 1 then h0\<lparr>rh_timestamp := t + rh_timestamp prev, rh_msg_len := rh_msg_len h,
                              rh_msg_type := rh_msg_type h, rh_msg_sid := rh_msg_sid prev\<rparr>
      else if fmt = 2 then h0\<lparr>rh_timestamp := t + rh_timestamp prev, rh_msg_len := rh_msg_len prev,
                              rh_msg_type := rh_msg_type prev, rh_msg_sid := rh_msg_sid prev\<rparr>
      else h0\<lparr>rh_timestamp := (if rh_timestamp h0 = 0 then delta + rh_timestamp prev else rh_timestamp h0),
              rh_msg_len := rh_msg_len prev, rh_msg_type := rh_msg_type prev, rh_msg_sid := rh_msg_sid prev\<rparr>)"

lemma message_header_write:
  assumes "t \<le> 0xFFFFFF" and "rh_msg_len h \<le> 0xFFFFFF"
  shows "message_header fmt prev delta h0 (write_message_header fmt t h @ e) =
           Inr (read_back fmt prev delta t h h0, if fmt < 3 then t else 0, hdr_len fmt,
                if fmt = 0 then 0 else if fmt < 3 then t else delta)"
proof -
  have "drop 3 (WriteUint24T t @ x) = x" "drop 6 (WriteUint24T t @ WriteUint24T t' @ x) = x"
    "drop 7 (WriteUint24T t @ WriteUint24T t' @ WriteUint8T b @ x) = x" for x t' b
    by simp_all
  with take_bit_24 [OF assms(1)] take_bit_24 [OF assms(2)] show ?thesis
    by (simp add: message_header_def write_message_header_def read_back_def hdr_len_def)
qed

lemma chunk_msg_len_write:
  assumes "t \<le> 0xFFFFFF" and "rh_msg_len h \<le> 0xFFFFFF"
    and "fmt < 2 \<or> rh_msg_len (in_headers r csid) = rh_msg_len h \<and> rh_msg_len h \<noteq> 0"
  shows "chunk_msg_len r fmt csid (write_message_header fmt t h @ e) = Inr (uint (rh_msg_len h))"
proof -
  have "sint (rh_msg_len h) = uint (rh_msg_len h)"
  proof -
    have "uint (rh_msg_len h) \<le> 0xFFFFFF" using assms(2) by (simp add: word_le_def)
    then have "signed_take_bit 31 (uint (rh_msg_len h)) = uint (rh_msg_len h)"
      by (intro iffD2 [OF signed_take_bit_int_eq_self_iff]) (auto intro: order_trans [OF _ uint_ge_0])
    then show ?thesis by (simp add: sint_uint)
  qed
  then show ?thesis
    using assms(3) take_bit_24 [OF assms(2)]
    by (auto simp: chunk_msg_len_def write_message_header_def Let_def)
qed

section \<open>One chunk\<close>

lemma parse_chunk_write:
  fixes fmt csid t h r
  defines "m \<equiv> write_basic_header fmt csid @ write_message_header fmt t h"
    and "delta \<equiv> if fmt = 0 then 0 else if fmt < 3 then t else in_deltas r csid"
  assumes fmt: "fmt < 4" and csid: "2 \<le> csid" "csid < 65600"
    and t: "t < 0xFFFFFF" and len: "rh_msg_len h \<le> 0xFFFFFF"
    and prev: "fmt < 2 \<or> rh_msg_len (in_headers r csid) = rh_msg_len h \<and> rh_msg_len h \<noteq> 0"
    and p: "current_packet r csid (uint (rh_msg_len h)) = Inr packet" "pk_ext packet = Some h0"
    and ext: "\<not> in_ext r csid" and x: "x \<noteq> []"
  shows "parse_chunk r (m @ x) =
           chunk_body (r\<lparr>in_deltas := (in_deltas r)(csid := delta), in_ext := (in_ext r)(csid := False)\<rparr>)
             fmt csid (in_headers r csid) (read_back fmt (in_headers r csid) (in_deltas r csid) t h h0) packet x"
proof -
  let ?b = "write_basic_header fmt csid" and ?m = "write_message_header fmt t h"
  have t': "t \<le> 0xFFFFFF" using t by simp
  have bh: "basic_header (m @ x) = Inr (Some (fmt, csid, length ?b))"
    using basic_header_write [OF fmt csid, of "?m @ x"] by (simp add: m_def)
  have "parse_chunk r (m @ x) = parse_message r fmt csid (?m @ x)"
    using parse_chunk_eq [OF bh, of r] x length_write_message_header [of fmt t h]
    by (simp add: m_def)
  also have "\<dots> = extended_timestamp (r\<lparr>in_deltas := (in_deltas r)(csid := delta)\<rparr>) fmt csid
      (in_headers r csid) (read_back fmt (in_headers r csid) (in_deltas r csid) t h h0) packet
      (if fmt < 3 then t else 0) x"
    unfolding parse_message_def chunk_msg_len_write [OF t' len prev] rbind_simps p
    using message_header_write [OF t' len, of fmt _ _ _ x] length_write_message_header [of fmt t h]
    by (simp add: p(2) delta_def)
  also have "\<dots> = chunk_body (r\<lparr>in_deltas := (in_deltas r)(csid := delta), in_ext := (in_ext r)(csid := False)\<rparr>)
             fmt csid (in_headers r csid) (read_back fmt (in_headers r csid) (in_deltas r csid) t h h0) packet x"
    using ext t fmt by (auto simp: extended_timestamp_def Let_def)
  finally show ?thesis .
qed

lemma chunk_body_eval:
  assumes "packet_inv packet" and "Space packet = int (length ys)"
    and "in_chunk_size s = int out_chunk_size"
  obtains p where "\<And>e. chunk_body s fmt csid prev h packet (take out_chunk_size ys @ e) =
      Inr (if length ys \<le> out_chunk_size
           then GotChunk (s\<lparr>in_packets := (in_packets s)(csid := None), in_headers := (in_headers s)(csid := h)\<rparr>) e
                  (Some (p\<lparr>pk_type := ucast (rh_msg_type h), pk_timestamp := ucast (rh_timestamp h)\<rparr>))
           else GotChunk (s\<lparr>in_packets := (in_packets s)(csid \<mapsto> p), in_headers := (in_headers s)(csid := h)\<rparr>) e None)"
    and "packet_inv p" "payload p = payload packet @ take out_chunk_size ys" "pk_ext p = Some h"
    and "Space p = int (length (drop out_chunk_size ys))"
proof -
  define c where "c = take out_chunk_size ys"
  let ?q = "packet\<lparr>pk_ext := Some h\<rparr>"
  have n: "nat (min (Space packet) (in_chunk_size s)) = length c"
    using assms(2,3) by (simp add: c_def)
  have pos: "\<not> min (Space packet) (in_chunk_size s) < 0" using assms(2,3) by simp
  have "packet_inv ?q" "int (length c) \<le> Space ?q"
    using assms(1,2) by (simp_all add: packet_inv_def Space_def c_def)
  from packet_append_ok [OF this] obtain p where p: "packet_append c ?q = Inr p" "packet_inv p"
    "payload p = payload packet @ c" "pk_ext p = Some h" "Space p = int (length ys) - int (length c)"
    using assms(2) by (auto simp: payload_def Space_def)
  have sp: "Space p = int (length (drop out_chunk_size ys))" using p(5) by (auto simp: c_def)
  then have sp0: "Space p = 0 \<longleftrightarrow> length ys \<le> out_chunk_size" by auto
  have take: "take (length c) (c @ e) = c" "drop (length c) (c @ e) = e"
    "\<not> length (c @ e) < length c" for e by simp_all
  have "chunk_body s fmt csid prev h packet (c @ e) =
      Inr (if length ys \<le> out_chunk_size
           then GotChunk (s\<lparr>in_packets := (in_packets s)(csid := None), in_headers := (in_headers s)(csid := h)\<rparr>) e
                  (Some (p\<lparr>pk_type := ucast (rh_msg_type h), pk_timestamp := ucast (rh_timestamp h)\<rparr>))
           else GotChunk (s\<lparr>in_packets := (in_packets s)(csid \<mapsto> p), in_headers := (in_headers s)(csid := h)\<rparr>) e None)" for e
    unfolding chunk_body_def Let_def n take p(1) rbind_simps using pos by (simp add: sp0)
  with p sp that show thesis unfolding c_def by blast
qed

section \<open>Runs of the loop\<close>

text \<open>On these bytes the loop yields these packets and this state, whatever follows.\<close>

definition parses :: "RtmpIn \<Rightarrow> bytes \<Rightarrow> RtmpPacket list \<Rightarrow> RtmpIn \<Rightarrow> bool" where
  "parses r d ps r' \<longleftrightarrow> (\<exists>n. \<forall>f e. parse_chunks (n + f) r (d @ e) =
     rbind (parse_chunks f r' e) (\<lambda>(qs, s, rest). Inr (ps @ qs, s, rest)))"

lemma parses_append:
  assumes "parses r d ps r1" and "parses r1 e qs r2"
  shows "parses r (d @ e) (ps @ qs) r2"
proof -
  obtain n where n: "parse_chunks (n + f) r (d @ x) =
      rbind (parse_chunks f r1 x) (\<lambda>(qs, s, rest). Inr (ps @ qs, s, rest))" for f x
    using assms(1) unfolding parses_def by blast
  obtain m where m: "parse_chunks (m + f) r1 (e @ x) =
      rbind (parse_chunks f r2 x) (\<lambda>(ps, s, rest). Inr (qs @ ps, s, rest))" for f x
    using assms(2) unfolding parses_def by blast
  have "parse_chunks ((n + m) + f) r ((d @ e) @ x) =
      rbind (parse_chunks f r2 x) (\<lambda>(xs, s, rest). Inr ((ps @ qs) @ xs, s, rest))" for f x
    using n [of "m + f" "e @ x"] m [of f x]
    by (cases "parse_chunks f r2 x") (auto simp: add.assoc)
  then show ?thesis unfolding parses_def by blast
qed

lemma parses_Nil: "parses r [] [] r"
proof -
  have "parse_chunks (0 + f) r ([] @ e) =
      rbind (parse_chunks f r e) (\<lambda>(qs, s, rest). Inr ([] @ qs, s, rest))" for f e
    by (cases "parse_chunks f r e") auto
  then show ?thesis unfolding parses_def by blast
qed

lemma parses_chunk:
  assumes "\<And>e. parse_chunk r (d @ e) = Inr (GotChunk r' e p)" and "1 < length d"
  shows "parses r d (case p of None \<Rightarrow> [] | Some q \<Rightarrow> [q]) r'"
proof -
  have "parse_chunks (1 + f) r (d @ e) =
      rbind (parse_chunks f r' e) (\<lambda>(qs, s, rest). Inr ((case p of None \<Rightarrow> [] | Some q \<Rightarrow> [q]) @ qs, s, rest))" for f e
    using assms by (auto split: option.splits)
  then show ?thesis unfolding parses_def by blast
qed

lemma parses_run: "parses r d ps r' \<Longrightarrow> \<exists>n. parse_chunks n r d = Inr (ps, r', [])"
  unfolding parses_def by (elim exE, rule_tac x = "n + 1" in exI) (drule_tac x = 1 in spec, drule_tac x = "[]" in spec, simp)

section \<open>One message\<close>

text \<open>The packet a message with header \<open>H\<close> and payload \<open>d\<close> is delivered as.\<close>

definition delivered :: "RtmpMsgHeader \<Rightarrow> bytes \<Rightarrow> RtmpPacket \<Rightarrow> bool" where
  "delivered H d p \<longleftrightarrow> payload p = d \<and> Space p = 0 \<and> pk_ext p = Some H \<and>
     pk_type p = ucast (rh_msg_type H) \<and> pk_timestamp p = ucast (rh_timestamp H)"

lemma payload_update [simp]:
  "payload (p\<lparr>pk_type := a\<rparr>) = payload p" "payload (p\<lparr>pk_timestamp := b\<rparr>) = payload p"
  "Space (p\<lparr>pk_type := a\<rparr>) = Space p" "Space (p\<lparr>pk_timestamp := b\<rparr>) = Space p"
  by (simp_all add: payload_def Space_def)

text \<open>A payload area at its start: from one chunk to the end of the message.\<close>

lemma parses_payload:
  fixes H csid
  defines "hdr \<equiv> write_basic_header 3 csid"
  assumes csid: "2 \<le> csid" "csid < 65600"
    and H: "rh_msg_len H \<le> 0xFFFFFF" "rh_msg_len H \<noteq> 0" "rh_timestamp H = 0 \<Longrightarrow> in_deltas r csid = 0"
    and r: "in_headers r csid = H" "in_chunk_size r = int out_chunk_size" "\<not> in_ext r csid"
      "in_packets r csid = Some p"
    and p: "pk_ext p = Some H" "packet_inv p" "Space p = int (length ys)"
    and ys: "ys \<noteq> []"
  shows "\<exists>q. parses r (hdr @ concat (split_chunks hdr ys)) [q] (r\<lparr>in_packets := (in_packets r)(csid := None)\<rparr>) \<and>
           delivered H (payload p @ ys) q"
  using r p ys H(3)
proof (induction "length ys" arbitrary: ys r p rule: less_induct)
  case less
  have m: "write_message_header 3 0 H = []" by (simp add: write_message_header_def)
  have rb: "read_back 3 H (in_deltas r csid) 0 H H = H"
    using less.prems(9) by (simp add: read_back_def)
  have upd: "r\<lparr>in_deltas := (in_deltas r)(csid := in_deltas r csid), in_ext := (in_ext r)(csid := False)\<rparr> = r"
    using less.prems(3) by (simp add: fun_upd_idem)
  have hdrs: "(in_headers r)(csid := H) = in_headers r" using less.prems(1) by auto
  have step: "parse_chunk r (hdr @ x) = chunk_body r 3 csid H H p x" if "x \<noteq> []" for x
    using parse_chunk_write [of 3 csid 0 H r p H x] csid H(1,2) less.prems(1-5) that m rb upd
    by (simp add: hdr_def current_packet_def)
  obtain q where q: "\<And>e. chunk_body r 3 csid H H p (take out_chunk_size ys @ e) =
      Inr (if length ys \<le> out_chunk_size
           then GotChunk (r\<lparr>in_packets := (in_packets r)(csid := None), in_headers := (in_headers r)(csid := H)\<rparr>) e
                  (Some (q\<lparr>pk_type := ucast (rh_msg_type H), pk_timestamp := ucast (rh_timestamp H)\<rparr>))
           else GotChunk (r\<lparr>in_packets := (in_packets r)(csid \<mapsto> q), in_headers := (in_headers r)(csid := H)\<rparr>) e None)"
    and q': "packet_inv q" "payload q = payload p @ take out_chunk_size ys" "pk_ext q = Some H"
      "Space q = int (length (drop out_chunk_size ys))"
    using chunk_body_eval [OF less.prems(6,7,2), of 3 csid H H] by blast
  have ne: "take out_chunk_size ys \<noteq> []" using less.prems(8) by (simp add: out_chunk_size_def)
  have len: "1 < length (hdr @ take out_chunk_size ys)"
    using length_write_basic_header(1) [of 3 csid] less.prems(8)
    by (cases ys) (auto simp: hdr_def out_chunk_size_def)
  show ?case
  proof (cases "length ys \<le> out_chunk_size")
    case True
    let ?q = "q\<lparr>pk_type := ucast (rh_msg_type H), pk_timestamp := ucast (rh_timestamp H)\<rparr>"
    have "parse_chunk r ((hdr @ take out_chunk_size ys) @ e) =
        Inr (GotChunk (r\<lparr>in_packets := (in_packets r)(csid := None)\<rparr>) e (Some ?q))" for e
      using step [of "take out_chunk_size ys @ e"] q [of e] True ne by (simp add: hdrs)
    from parses_chunk [OF this len] True
    have "parses r (hdr @ concat (split_chunks hdr ys)) [?q] (r\<lparr>in_packets := (in_packets r)(csid := None)\<rparr>)"
      by (simp add: split_chunks.simps)
    moreover have "delivered H (payload p @ ys) ?q"
      using q' True by (simp add: delivered_def)
    ultimately show ?thesis by blast
  next
    case False
    let ?r = "r\<lparr>in_packets := (in_packets r)(csid \<mapsto> q)\<rparr>" and ?ys = "drop out_chunk_size ys"
    have "parse_chunk r ((hdr @ take out_chunk_size ys) @ e) = Inr (GotChunk ?r e None)" for e
      using step [of "take out_chunk_size ys @ e"] q [of e] False ne by (simp add: hdrs)
    from parses_chunk [OF this len]
    have 1: "parses r (hdr @ take out_chunk_size ys) [] ?r" by simp
    have "length ?ys < length ys" "?ys \<noteq> []" using False less.prems(8) by (simp_all add: out_chunk_size_def)
    from less.hyps [OF this(1), of ?r q] this(2) less.prems q' obtain q2 where
      q2: "parses ?r (hdr @ concat (split_chunks hdr ?ys)) [q2] (?r\<lparr>in_packets := (in_packets ?r)(csid := None)\<rparr>)"
        "delivered H (payload q @ ?ys) q2" by auto
    have "concat (split_chunks hdr ys) = take out_chunk_size ys @ hdr @ concat (split_chunks hdr ?ys)"
      using False by (subst split_chunks.simps) simp
    with parses_append [OF 1 q2(1)] q2(2) q'(2) show ?thesis by auto
  qed
qed

text \<open>What the receiver's fields and the sender's agree on between messages.\<close>

definition synced :: "RtmpIn \<Rightarrow> RtmpOut \<Rightarrow> bool" where
  "synced r s \<longleftrightarrow> in_chunk_size r = int out_chunk_size \<and> in_packets r = (\<lambda>_. None) \<and>
     in_ext r = (\<lambda>_. False) \<and> in_deltas r = ro_deltas s \<and>
     (\<forall>c h. ro_headers s c = Some h \<longrightarrow> in_headers r c = h)"

definition hdr_room :: "u32 \<Rightarrow> nat" where
  "hdr_room len = 14 + 3 * ((unat len - 1) div out_chunk_size)"

text \<open>A message the receiver can take.\<close>

definition sendable :: "RtmpPacket \<Rightarrow> RtmpMsgHeader \<Rightarrow> bool" where
  "sendable packet h \<longleftrightarrow> pk_ext packet = Some h \<and> 2 \<le> rh_cs_id h \<and> rh_cs_id h < 65600 \<and>
     rh_msg_len h \<noteq> 0 \<and> rh_msg_len h \<le> 0xFFFFFF \<and> unat (rh_msg_len h) \<le> length (pk_data packet)"

lemma first_chunk:
  fixes h fmt t r H
  defines "csid \<equiv> rh_cs_id h"
  defines "hdr \<equiv> write_basic_header fmt csid @ write_message_header fmt t h"
    and "delta \<equiv> if fmt = 0 then 0 else if fmt < 3 then t else in_deltas r csid"
  assumes fmt: "fmt < 4" and t: "t < 0xFFFFFF" and s: "sendable packet h"
    and prev: "fmt < 2 \<or> rh_msg_len (in_headers r csid) = rh_msg_len h"
    and H: "read_back fmt (in_headers r csid) (in_deltas r csid) t h
             \<lparr>rh_cs_id = csid, rh_timestamp = 0, rh_msg_len = rh_msg_len h, rh_msg_type = 0, rh_msg_sid = 0\<rparr> = H"
      "rh_timestamp H = 0 \<Longrightarrow> delta = 0" "rh_msg_len H = rh_msg_len h"
    and r: "in_chunk_size r = int out_chunk_size" "in_packets r = (\<lambda>_. None)" "in_ext r = (\<lambda>_. False)"
    and d: "length d = unat (rh_msg_len h)"
  shows "\<exists>q. parses r (hdr @ concat (split_chunks (write_basic_header 3 csid) d)) [q]
           (r\<lparr>in_deltas := (in_deltas r)(csid := delta), in_headers := (in_headers r)(csid := H)\<rparr>) \<and>
           delivered H d q"
proof -
  let ?h0 = "\<lparr>rh_cs_id = csid, rh_timestamp = 0, rh_msg_len = rh_msg_len h, rh_msg_type = 0, rh_msg_sid = 0\<rparr>"
  let ?r = "r\<lparr>in_deltas := (in_deltas r)(csid := delta), in_ext := (in_ext r)(csid := False)\<rparr>"
  let ?r' = "r\<lparr>in_deltas := (in_deltas r)(csid := delta), in_headers := (in_headers r)(csid := H)\<rparr>"
  have csid: "2 \<le> csid" "csid < 65600" and len: "rh_msg_len h \<le> 0xFFFFFF" "rh_msg_len h \<noteq> 0"
    using s by (auto simp: sendable_def csid_def)
  have lenpos: "0 < unat (rh_msg_len h)" using len(2) by (simp add: unat_gt_0)
  obtain p where p: "current_packet r csid (uint (rh_msg_len h)) = Inr p" "pk_ext p = Some ?h0"
    "packet_inv p" "payload p = []" "Space p = int (length d)"
    using d r(2) by (simp add: current_packet_def NewPacket_def packet_inv_def payload_def Space_def)
  have step: "parse_chunk r (hdr @ x) = chunk_body ?r fmt csid (in_headers r csid) H p x" if "x \<noteq> []" for x
    using parse_chunk_write [OF fmt csid t len(1) _ p(1,2) _ that] prev len(2) r(3) H(1)
    by (simp add: hdr_def delta_def)
  have cs: "in_chunk_size ?r = int out_chunk_size" using r(1) by simp
  obtain q where q: "\<And>e. chunk_body ?r fmt csid (in_headers r csid) H p (take out_chunk_size d @ e) =
      Inr (if length d \<le> out_chunk_size
           then GotChunk (?r\<lparr>in_packets := (in_packets ?r)(csid := None), in_headers := (in_headers ?r)(csid := H)\<rparr>) e
                  (Some (q\<lparr>pk_type := ucast (rh_msg_type H), pk_timestamp := ucast (rh_timestamp H)\<rparr>))
           else GotChunk (?r\<lparr>in_packets := (in_packets ?r)(csid \<mapsto> q), in_headers := (in_headers ?r)(csid := H)\<rparr>) e None)"
    and q': "packet_inv q" "payload q = payload p @ take out_chunk_size d" "pk_ext q = Some H"
      "Space q = int (length (drop out_chunk_size d))"
    using chunk_body_eval [OF p(3,5) cs, of fmt csid "in_headers r csid" H] by blast
  have ne: "d \<noteq> []" "take out_chunk_size d \<noteq> []" using lenpos d by (auto simp: out_chunk_size_def)
  have len': "1 < length (hdr @ take out_chunk_size d)"
    using length_write_basic_header(1) [of fmt csid] ne(1)
    by (cases d) (auto simp: hdr_def out_chunk_size_def)
  have r1: "?r\<lparr>in_packets := (in_packets ?r)(csid := None), in_headers := (in_headers ?r)(csid := H)\<rparr> = ?r'"
    using r(2,3) by (simp add: fun_upd_idem)
  show ?thesis
  proof (cases "length d \<le> out_chunk_size")
    case True
    let ?q = "q\<lparr>pk_type := ucast (rh_msg_type H), pk_timestamp := ucast (rh_timestamp H)\<rparr>"
    have "parse_chunk r ((hdr @ take out_chunk_size d) @ e) = Inr (GotChunk ?r' e (Some ?q))" for e
      using step [of "take out_chunk_size d @ e"] q [of e] True ne r1 by simp
    from parses_chunk [OF this len'] True
    have "parses r (hdr @ concat (split_chunks (write_basic_header 3 csid) d)) [?q] ?r'"
      by (simp add: split_chunks.simps)
    moreover have "delivered H d ?q" using q' True p(4) by (simp add: delivered_def)
    ultimately show ?thesis by blast
  next
    case False
    let ?r2 = "?r\<lparr>in_packets := (in_packets ?r)(csid \<mapsto> q), in_headers := (in_headers ?r)(csid := H)\<rparr>"
    let ?d = "drop out_chunk_size d"
    have "parse_chunk r ((hdr @ take out_chunk_size d) @ e) = Inr (GotChunk ?r2 e None)" for e
      using step [of "take out_chunk_size d @ e"] q [of e] False ne by simp
    from parses_chunk [OF this len']
    have 1: "parses r (hdr @ take out_chunk_size d) [] ?r2" by simp
    have "?d \<noteq> []" using False by simp
    with parses_payload [OF csid, of H ?r2 q ?d] len H(2,3) q' r obtain q2 where
      q2: "parses ?r2 (write_basic_header 3 csid @ concat (split_chunks (write_basic_header 3 csid) ?d)) [q2]
             (?r2\<lparr>in_packets := (in_packets ?r2)(csid := None)\<rparr>)" "delivered H (payload q @ ?d) q2" by auto
    have r2: "?r2\<lparr>in_packets := (in_packets ?r2)(csid := None)\<rparr> = ?r'"
      using r(2,3) by (simp add: fun_upd_idem)
    have "concat (split_chunks (write_basic_header 3 csid) d) = take out_chunk_size d @
        write_basic_header 3 csid @ concat (split_chunks (write_basic_header 3 csid) ?d)"
      using False by (subst split_chunks.simps) simp
    with parses_append [OF 1 q2(1) [unfolded r2]] q2(2) q'(2) p(4) show ?thesis by auto
  qed
qed

text \<open>The sender: with room for the headers, the nodes carry the header and the whole payload.\<close>

lemma hdr_len_le: "hdr_len fmt \<le> 11"
  by (simp add: hdr_len_def)

lemma build_chunks_ok:
  fixes s h use_delta T
  defines "csid \<equiv> rh_cs_id h"
  assumes c: "choose_fmt (ro_headers s csid) (ro_deltas s csid) use_delta h T = (fmt, t)"
    and t: "t < 0xFFFFFF" and sd: "sendable packet h"
    and room: "ro_pos s + hdr_room (rh_msg_len h) \<le> out_buffer_size"
  shows "\<exists>pos'. pos' \<le> ro_pos s + hdr_room (rh_msg_len h) \<and>
           build_chunks packet h use_delta T s = Inr (s\<lparr>ro_pos := pos',
             ro_deltas := (ro_deltas s)(csid := if fmt = 0 then 0 else if fmt < 3 then t else ro_deltas s csid),
             ro_headers := (ro_headers s)(csid \<mapsto> h\<lparr>rh_timestamp :=
               (if fmt = 0 then t else rh_timestamp (case ro_headers s csid of None \<Rightarrow> RtmpMsgHeader_new | Some p \<Rightarrow> p) + t)\<rparr>),
             ro_bufs := ro_bufs s @ (write_basic_header fmt csid @ write_message_header fmt t h) #
               split_chunks (write_basic_header 3 csid) (take (unat (rh_msg_len h)) (pk_data packet))\<rparr>)"
proof -
  let ?hdr = "write_basic_header fmt csid @ write_message_header fmt t h" and ?h3 = "write_basic_header 3 csid"
  let ?len = "unat (rh_msg_len h)" and ?n = "(unat (rh_msg_len h) - 1) div out_chunk_size"
  have fmt: "fmt < 4" using c by (auto simp: choose_fmt_def Let_def split: option.splits if_splits)
  have len: "?len \<le> length (pk_data packet)" "0 < ?len" "\<not> rh_msg_len h \<ge> 0x80000000"
    using sd order_trans [of "0x80000000" "rh_msg_len h" "0xFFFFFF"]
    by (auto simp: sendable_def unat_gt_0)
  have "\<not> 0xFFFFFF \<le> t" using t by (simp only: not_le)
  then have ext: "\<not> t \<ge> 0xFFFFFF" "write_extended t = []" by (simp_all add: write_extended_def)
  have hl: "length ?hdr \<le> 14" "length ?h3 \<le> 3" "0 < length ?h3"
    using length_write_basic_header [of fmt csid] length_write_basic_header [of 3 csid]
      hdr_len_le [of fmt] length_write_message_header [of fmt t h]
    by (simp_all del: length_greater_0_conv)
  have "length ?h3 * ?n \<le> 3 * ?n" using hl(2) by (rule mult_le_mono1)
  then have q: "ro_pos s + length ?hdr + length ?h3 * ?n \<le> ro_pos s + hdr_room (rh_msg_len h)"
    using hl(1) unfolding hdr_room_def by linarith
  then have room': "ro_pos s + length ?hdr + length ?h3 * ?n \<le> out_buffer_size" using room by linarith
  have loop: "chunk_loop ?h3 (pk_data packet) ?len 0 (ro_pos s + length ?hdr) =
      Inr (split_chunks ?h3 (take ?len (pk_data packet)), ro_pos s + length ?hdr + length ?h3 * ?n)"
    using chunk_loop_ok [of 0 ?len "pk_data packet" ?h3 "ro_pos s + length ?hdr"] len(1) hl(3) room' by simp
  have ow: "out_write (ro_pos s) ?hdr = Inr (ro_pos s + length ?hdr)"
    using room' by (simp add: out_write_def)
  have prev: "p\<lparr>rh_cs_id := csid, rh_msg_len := rh_msg_len h, rh_msg_sid := rh_msg_sid h,
      rh_msg_type := rh_msg_type h, rh_timestamp := x\<rparr> = h\<lparr>rh_timestamp := x\<rparr>" for p x
    by (cases p; cases h) (simp add: csid_def)
  have deltas: "(if fmt = 0 then (ro_deltas s)(csid := 0) else if fmt = 1 \<or> fmt = 2 then (ro_deltas s)(csid := t)
      else ro_deltas s) = (ro_deltas s)(csid := if fmt = 0 then 0 else if fmt < 3 then t else ro_deltas s csid)"
    using fmt by auto
  have hdr: "write_basic_header fmt csid @ write_message_header fmt (if 0xFFFFFF \<le> t then 0xFFFFFF else t) h @ write_extended t = ?hdr"
    "write_basic_header 3 csid @ write_extended t = ?h3"
    using ext by simp_all
  show ?thesis
    unfolding build_chunks_def csid_def [symmetric] Let_def c prod.case prev deltas hdr ow rbind_simps
      loop if_not_P [OF len(3)]
    using q by (intro exI conjI) (assumption, rule refl)
qed

text \<open>The choice of the format keeps the timestamp, and the receiver finds the header again.\<close>

lemma choose_fmt_ok:
  assumes c: "choose_fmt prev delta use_delta h T = (fmt, t)"
    and use: "use_delta \<Longrightarrow> \<exists>p. prev = Some p \<and> rh_timestamp p \<le> T \<and> rh_msg_sid h = rh_msg_sid p"
    and hdr: "\<And>p. prev = Some p \<Longrightarrow> rp = p" and h0: "rh_cs_id h0 = rh_cs_id h" "rh_timestamp h0 = 0"
  shows "fmt < 4" and "t \<le> T"
    and "(if fmt = 0 then t else rh_timestamp (case prev of None \<Rightarrow> RtmpMsgHeader_new | Some p \<Rightarrow> p) + t) = T"
    and "fmt < 2 \<or> rh_msg_len rp = rh_msg_len h"
    and "read_back fmt rp delta t h h0 = h\<lparr>rh_timestamp := T\<rparr>"
    and "T = 0 \<Longrightarrow> (if fmt = 0 then 0 else if fmt < 3 then t else delta) = 0"
proof -
  have eq: "h0\<lparr>rh_timestamp := x, rh_msg_len := rh_msg_len h, rh_msg_type := rh_msg_type h,
      rh_msg_sid := rh_msg_sid h\<rparr> = h\<lparr>rh_timestamp := x\<rparr>" for x
    using h0 by (cases h; cases h0) simp
  show "fmt < 4" using c by (auto simp: choose_fmt_def Let_def split: option.splits if_splits)
  show "t \<le> T"
  proof (cases use_delta)
    case True
    with use obtain p where "prev = Some p" "rh_timestamp p \<le> T" by blast
    with c True show ?thesis by (auto simp: choose_fmt_def Let_def word_sub_le split: if_splits)
  next
    case False
    with c show ?thesis by (auto simp: choose_fmt_def split: option.splits)
  qed
  show "(if fmt = 0 then t else rh_timestamp (case prev of None \<Rightarrow> RtmpMsgHeader_new | Some p \<Rightarrow> p) + t) = T"
    and "fmt < 2 \<or> rh_msg_len rp = rh_msg_len h"
    and "read_back fmt rp delta t h h0 = h\<lparr>rh_timestamp := T\<rparr>"
    using c use hdr h0(2) eq [of T]
    by (auto simp: choose_fmt_def Let_def read_back_def split: option.splits if_splits)
  show "(if fmt = 0 then 0 else if fmt < 3 then t else delta) = 0" if "T = 0"
    using c use that
    by (auto simp: choose_fmt_def Let_def split: option.splits if_splits)
qed

text \<open>
  One message, whichever header format is chosen: the receiver gets the header with the
  given timestamp and the payload, and both sides are in step again.
\<close>

lemma build_chunks_trip:
  assumes sync: "synced r s" and sd: "sendable packet h" and T: "T < 0xFFFFFF"
    and room: "ro_pos s + hdr_room (rh_msg_len h) \<le> out_buffer_size"
    and use: "use_delta \<Longrightarrow> \<exists>p. ro_headers s (rh_cs_id h) = Some p \<and> rh_timestamp p \<le> T \<and> rh_msg_sid h = rh_msg_sid p"
  shows "\<exists>s' nodes r' q. build_chunks packet h use_delta T s = Inr s' \<and> ro_bufs s' = ro_bufs s @ nodes \<and>
           parses r (concat nodes) [q] r' \<and> synced r' s' \<and>
           delivered (h\<lparr>rh_timestamp := T\<rparr>) (take (unat (rh_msg_len h)) (pk_data packet)) q \<and>
           ro_pos s' \<le> ro_pos s + hdr_room (rh_msg_len h) \<and>
           ro_waiting s' = ro_waiting s \<and> ro_packets s' = ro_packets s \<and> ro_sending s' = ro_sending s"
proof -
  let ?csid = "rh_cs_id h" and ?H = "h\<lparr>rh_timestamp := T\<rparr>"
  let ?d = "take (unat (rh_msg_len h)) (pk_data packet)"
  let ?h0 = "\<lparr>rh_cs_id = ?csid, rh_timestamp = 0, rh_msg_len = rh_msg_len h, rh_msg_type = 0, rh_msg_sid = 0\<rparr>"
  obtain fmt t where c: "choose_fmt (ro_headers s ?csid) (ro_deltas s ?csid) use_delta h T = (fmt, t)"
    by (rule prod.exhaust)
  have hdr: "\<And>p. ro_headers s ?csid = Some p \<Longrightarrow> in_headers r ?csid = p"
    using sync by (simp add: synced_def)
  note ok = choose_fmt_ok [OF c use hdr, of ?h0, simplified]
  have t: "t < 0xFFFFFF" using ok(2) T by (rule order.strict_trans1)
  let ?delta = "if fmt = 0 then 0 else if fmt < 3 then t else ro_deltas s ?csid"
  have deltas: "in_deltas r = ro_deltas s" using sync by (simp add: synced_def)
  obtain pos' where b: "pos' \<le> ro_pos s + hdr_room (rh_msg_len h)"
    "build_chunks packet h use_delta T s = Inr (s\<lparr>ro_pos := pos', ro_deltas := (ro_deltas s)(?csid := ?delta),
       ro_headers := (ro_headers s)(?csid \<mapsto> ?H),
       ro_bufs := ro_bufs s @ (write_basic_header fmt ?csid @ write_message_header fmt t h) #
         split_chunks (write_basic_header 3 ?csid) ?d\<rparr>)"
    using build_chunks_ok [OF c t sd room] ok(3) by (auto simp del: fun_upd_apply)
  have len: "length ?d = unat (rh_msg_len h)" using sd by (simp add: sendable_def)
  have "\<exists>q. parses r ((write_basic_header fmt ?csid @ write_message_header fmt t h) @
      concat (split_chunks (write_basic_header 3 ?csid) ?d)) [q]
      (r\<lparr>in_deltas := (in_deltas r)(?csid := ?delta), in_headers := (in_headers r)(?csid := ?H)\<rparr>) \<and> delivered ?H ?d q"
    using first_chunk [OF ok(1) t sd _ _ _ _ _ _ _ len, of r ?H] ok(4-6) sync
    by (auto simp: synced_def deltas simp del: fun_upd_apply)
  then obtain q where q: "parses r (concat ((write_basic_header fmt ?csid @ write_message_header fmt t h) #
         split_chunks (write_basic_header 3 ?csid) ?d)) [q]
      (r\<lparr>in_deltas := (in_deltas r)(?csid := ?delta), in_headers := (in_headers r)(?csid := ?H)\<rparr>)" "delivered ?H ?d q"
    by auto
  have "synced (r\<lparr>in_deltas := (in_deltas r)(?csid := ?delta), in_headers := (in_headers r)(?csid := ?H)\<rparr>)
      (s\<lparr>ro_pos := pos', ro_deltas := (ro_deltas s)(?csid := ?delta),
       ro_headers := (ro_headers s)(?csid \<mapsto> ?H),
       ro_bufs := ro_bufs s @ (write_basic_header fmt ?csid @ write_message_header fmt t h) #
         split_chunks (write_basic_header 3 ?csid) ?d\<rparr>)"
    using sync by (simp add: synced_def)
  with b q show ?thesis by (intro exI conjI) (assumption | simp)+
qed

section \<open>Sequences of messages\<close>

text \<open>Several packets, each with its timestamp and flag, through the queue's \<open>BuildChunk\<close>.\<close>

fun build_all :: "(RtmpPacket \<times> u32 \<times> bool) list \<Rightarrow> RtmpOut \<Rightarrow> RtmpOut result" where
  "build_all [] s = Inr s"
| "build_all ((p, t, fmt0) # ps) s = rbind (BuildChunk_move p t fmt0 s) (\<lambda>(_, s'). build_all ps s')"

definition sendable_item :: "RtmpPacket \<times> u32 \<times> bool \<Rightarrow> bool" where
  "sendable_item x \<longleftrightarrow> (case x of (p, t, _) \<Rightarrow> (case pk_ext p of None \<Rightarrow> False | Some h \<Rightarrow> sendable p h) \<and> t < 0xFFFFFF)"

definition item_room :: "RtmpPacket \<times> u32 \<times> bool \<Rightarrow> nat" where
  "item_room x = (case pk_ext (fst x) of None \<Rightarrow> 0 | Some h \<Rightarrow> hdr_room (rh_msg_len h))"

text \<open>The packet \<open>q\<close> is what an item is delivered as.\<close>

definition item_delivered :: "RtmpPacket \<times> u32 \<times> bool \<Rightarrow> RtmpPacket \<Rightarrow> bool" where
  "item_delivered x q \<longleftrightarrow> (case x of (p, t, _) \<Rightarrow> (case pk_ext p of None \<Rightarrow> False | Some h \<Rightarrow>
     delivered (h\<lparr>rh_timestamp := t\<rparr>) (take (unat (rh_msg_len h)) (pk_data p)) q))"

lemma BuildChunk_move_trip:
  assumes sync: "synced r s" and sd: "sendable_item (p, t, fmt0)"
    and room: "ro_pos s + item_room (p, t, fmt0) \<le> out_buffer_size"
  shows "\<exists>s' nodes r' q. BuildChunk_move p t fmt0 s = Inr (True, s') \<and> ro_bufs s' = ro_bufs s @ nodes \<and>
           parses r (concat nodes) [q] r' \<and> synced r' s' \<and> item_delivered (p, t, fmt0) q \<and>
           ro_pos s' \<le> ro_pos s + item_room (p, t, fmt0) \<and> ro_waiting s' = ro_waiting s \<and>
           ro_sending s' = ro_sending s"
proof -
  from sd obtain h where h: "pk_ext p = Some h" "sendable p h" "t < 0xFFFFFF"
    by (auto simp: sendable_item_def split: option.splits)
  let ?use = "\<not> fmt0 \<and> (case ro_headers s (rh_cs_id h) of None \<Rightarrow> False | Some p \<Rightarrow>
                             t \<ge> rh_timestamp p \<and> rh_msg_sid h = rh_msg_sid p)"
  have "?use \<Longrightarrow> \<exists>p. ro_headers s (rh_cs_id h) = Some p \<and> rh_timestamp p \<le> t \<and> rh_msg_sid h = rh_msg_sid p"
    by (auto split: option.splits)
  with build_chunks_trip [OF sync h(2,3), of ?use] room h(1) obtain s' nodes r' q where
    t: "build_chunks p h ?use t s = Inr s'" "ro_bufs s' = ro_bufs s @ nodes"
    "parses r (concat nodes) [q] r'" "synced r' s'"
    "delivered (h\<lparr>rh_timestamp := t\<rparr>) (take (unat (rh_msg_len h)) (pk_data p)) q"
    "ro_pos s' \<le> ro_pos s + hdr_room (rh_msg_len h)" "ro_waiting s' = ro_waiting s"
    "ro_sending s' = ro_sending s" by (auto simp: item_room_def)
  have "synced r' (s'\<lparr>ro_packets := ro_packets s' @ [p]\<rparr>)" using t(4) by (simp add: synced_def)
  with t h(1) show ?thesis
    by (intro exI [of _ "s'\<lparr>ro_packets := ro_packets s' @ [p]\<rparr>"])
      (auto simp: BuildChunk_move_def Let_def item_delivered_def item_room_def)
qed

lemma build_all_trip:
  assumes "synced r s" and "list_all sendable_item xs"
    and "ro_pos s + (\<Sum>x\<leftarrow>xs. item_room x) \<le> out_buffer_size"
  shows "\<exists>s' nodes r' qs. build_all xs s = Inr s' \<and> ro_bufs s' = ro_bufs s @ nodes \<and>
           parses r (concat nodes) qs r' \<and> synced r' s' \<and> list_all2 item_delivered xs qs"
  using assms
proof (induction xs arbitrary: r s)
  case Nil
  then show ?case using parses_Nil by (auto intro!: exI [of _ "[]"])
next
  case (Cons x xs)
  obtain p t fmt0 where x: "x = (p, t, fmt0)" by (rule prod_cases3)
  from BuildChunk_move_trip [OF Cons.prems(1), of p t fmt0] Cons.prems(2,3) x obtain s1 n1 r1 q where
    1: "BuildChunk_move p t fmt0 s = Inr (True, s1)" "ro_bufs s1 = ro_bufs s @ n1"
    "parses r (concat n1) [q] r1" "synced r1 s1" "item_delivered x q"
    "ro_pos s1 \<le> ro_pos s + item_room x" by auto
  from Cons.IH [OF 1(4)] Cons.prems(2,3) 1(6) obtain s' n2 r' qs where
    2: "build_all xs s1 = Inr s'" "ro_bufs s' = ro_bufs s1 @ n2" "parses r1 (concat n2) qs r'"
    "synced r' s'" "list_all2 item_delivered xs qs" by auto
  have "parses r (concat (n1 @ n2)) (q # qs) r'" using parses_append [OF 1(3) 2(3)] by simp
  with 1 2 x show ?case by (auto intro!: exI [of _ "n1 @ n2"])
qed

end
