(* ===== verification/RtmpQueue.thy ===== *)
theory RtmpQueue
  imports RtmpChunkTrip
begin

text \<open>
  The sending queue of \<open>RtmpContext\<close>: one batch of at most ten packets is under way at a
  time, the next one starts when the connection reports the write complete. The lemmas give
  the conditions under which the unchecked writes stay inside \<open>out_buffer_\<close>, the order of
  the packets and the progress of the queue.
\<close>

text \<open>
  A packet whose message is in its payload area and small enough: ten of them take at most
  \<open>10 * (18 + 7 * 48)\<close> bytes of chunk headers.
\<close>

definition max_queued_len :: nat where "max_queued_len = 200000"

definition packet_ready :: "RtmpPacket \<Rightarrow> bool" where
  "packet_ready p \<longleftrightarrow> (case pk_ext p of None \<Rightarrow> True | Some h \<Rightarrow>
     unat (rh_msg_len h) \<le> length (pk_data p) \<and> unat (rh_msg_len h) \<le> max_queued_len)"

definition max_headers :: nat where "max_headers = 354"

lemma length_headers:
  "length (write_basic_header fmt csid @ write_message_header fmt ts h @ write_extended t) \<le> 18"
  "length (write_basic_header 3 csid @ write_extended t) \<le> 7"
  "0 < length (write_basic_header 3 csid @ write_extended t)"
  using length_write_basic_header [of fmt csid] length_write_basic_header [of 3 csid]
    length_write_message_header [of fmt ts h] hdr_len_le [of fmt]
  by (auto simp: write_extended_def)

lemma build_chunks_safe:
  assumes h: "unat (rh_msg_len h) \<le> length (pk_data packet)" "unat (rh_msg_len h) \<le> max_queued_len"
    and room: "ro_pos s + max_headers \<le> out_buffer_size"
  shows "\<exists>s'. build_chunks packet h use_delta T s = Inr s' \<and> ro_pos s' \<le> ro_pos s + max_headers \<and>
           ro_waiting s' = ro_waiting s \<and> ro_sending s' = ro_sending s \<and> ro_packets s' = ro_packets s"
proof -
  obtain fmt t where c: "choose_fmt (ro_headers s (rh_cs_id h)) (ro_deltas s (rh_cs_id h)) use_delta h T = (fmt, t)"
    by (rule prod.exhaust)
  define ts where "ts = (if t \<ge> 0xFFFFFF then 0xFFFFFF else t)"
  define hdr where "hdr = write_basic_header fmt (rh_cs_id h) @ write_message_header fmt ts h @ write_extended t"
  define h3 where "h3 = write_basic_header 3 (rh_cs_id h) @ write_extended t"
  let ?len = "unat (rh_msg_len h)" and ?n = "(unat (rh_msg_len h) - 1) div out_chunk_size"
  have l: "length hdr \<le> 18" "length h3 \<le> 7" "0 < length h3"
    unfolding hdr_def h3_def by (rule length_headers)+
  have "?n \<le> 48" using h(2) by (simp add: max_queued_len_def out_chunk_size_def div_le_mono [of _ 199999 4096, simplified])
  with l(2) have n: "length h3 * ?n \<le> 7 * 48" by (intro mult_le_mono)
  then have pos: "ro_pos s + length hdr + length h3 * ?n \<le> ro_pos s + max_headers"
    using l(1) unfolding max_headers_def by linarith
  have ow: "out_write (ro_pos s) hdr = Inr (ro_pos s + length hdr)"
    using pos room unfolding out_write_def by simp
  have loop: "chunk_loop h3 (pk_data packet) ?len 0 (ro_pos s + length hdr) =
      Inr (split_chunks h3 (take ?len (pk_data packet)), ro_pos s + length hdr + length h3 * ?n)"
    using chunk_loop_ok [of 0 ?len "pk_data packet" h3 "ro_pos s + length hdr"] h(1) l(3) pos room by simp
  have len: "\<not> 0x80000000 \<le> rh_msg_len h"
    using h(2) by (simp add: word_le_nat_alt max_queued_len_def)
  show ?thesis
    unfolding build_chunks_def Let_def c prod.case ts_def [symmetric] hdr_def [symmetric] h3_def [symmetric]
      ow rbind_simps loop if_not_P [OF len]
    by (intro exI conjI, rule refl) (simp_all add: pos [simplified])
qed

lemma BuildChunk_move_safe:
  assumes "packet_ready packet" and "ro_pos s + max_headers \<le> out_buffer_size"
  shows "\<exists>b s'. BuildChunk_move packet T fmt0 s = Inr (b, s') \<and> ro_pos s' \<le> ro_pos s + max_headers \<and>
           ro_waiting s' = ro_waiting s \<and> ro_sending s' = ro_sending s \<and>
           ro_packets s' = ro_packets s @ (if pk_ext packet = None then [] else [packet])"
proof (cases "pk_ext packet")
  case (Some h)
  let ?use = "\<not> fmt0 \<and> (case ro_headers s (rh_cs_id h) of None \<Rightarrow> False | Some p \<Rightarrow>
                             T \<ge> rh_timestamp p \<and> rh_msg_sid h = rh_msg_sid p)"
  from assms Some obtain s' where "build_chunks packet h ?use T s = Inr s'"
    "ro_pos s' \<le> ro_pos s + max_headers" "ro_waiting s' = ro_waiting s" "ro_sending s' = ro_sending s"
    "ro_packets s' = ro_packets s"
    using build_chunks_safe [of h packet s ?use T] by (auto simp: packet_ready_def)
  with Some show ?thesis by (auto simp: BuildChunk_move_def Let_def)
qed (auto simp: BuildChunk_move_def)

definition has_header :: "RtmpPacket \<Rightarrow> bool" where
  "has_header p \<longleftrightarrow> pk_ext p \<noteq> None"

lemma build_waiting_safe:
  assumes "list_all packet_ready (ro_waiting s)" and "ro_pos s + n * max_headers \<le> out_buffer_size"
  shows "\<exists>s'. build_waiting n s = Inr s' \<and> ro_waiting s' = drop n (ro_waiting s) \<and>
           ro_packets s' = ro_packets s @ filter has_header (take n (ro_waiting s)) \<and>
           ro_sending s' = ro_sending s \<and> ro_pos s' \<le> ro_pos s + n * max_headers"
  using assms
proof (induction n arbitrary: s)
  case (Suc n)
  show ?case
  proof (cases "ro_waiting s")
    case (Cons p ps)
    let ?s = "s\<lparr>ro_waiting := ps\<rparr>"
    have p: "packet_ready p" "list_all packet_ready ps" using Suc.prems(1) Cons by simp_all
    have "ro_pos ?s + max_headers \<le> out_buffer_size" using Suc.prems(2) by simp
    from BuildChunk_move_safe [OF p(1) this, of 0 False] obtain b s1 where
      1: "BuildChunk_move p 0 False ?s = Inr (b, s1)" "ro_pos s1 \<le> ro_pos s + max_headers"
      "ro_waiting s1 = ps" "ro_sending s1 = ro_sending s"
      "ro_packets s1 = ro_packets s @ (if pk_ext p = None then [] else [p])" by auto
    have "ro_pos s1 + n * max_headers \<le> out_buffer_size" using 1(2) Suc.prems(2) by simp
    from Suc.IH [OF _ this] p(2) 1(3) obtain s' where
      "build_waiting n s1 = Inr s'" "ro_waiting s' = drop n ps"
      "ro_packets s' = ro_packets s1 @ filter has_header (take n ps)"
      "ro_sending s' = ro_sending s1" "ro_pos s' \<le> ro_pos s1 + n * max_headers" by auto
    moreover have "has_header p \<longleftrightarrow> pk_ext p \<noteq> None" by (simp add: has_header_def)
    ultimately show ?thesis using 1 Cons by auto
  qed simp
qed simp

text \<open>A batch: sent when none is under way, in the order of the queue, without a fault.\<close>

lemma Send_safe:
  assumes "list_all packet_ready (ro_waiting s)" and "ro_pos s \<le> 556" and "\<not> ro_sending s"
  shows "\<exists>s'. Send s = Inr (s', Some (ro_bufs s')) \<and> ro_waiting s' = drop 10 (ro_waiting s) \<and>
           ro_packets s' = ro_packets s @ filter has_header (take 10 (ro_waiting s)) \<and> ro_sending s'"
proof -
  have "ro_pos (s\<lparr>ro_sending := True\<rparr>) + 10 * max_headers \<le> out_buffer_size"
    using assms(2) by (simp add: max_headers_def out_buffer_size_def)
  from build_waiting_safe [OF _ this] assms obtain s' where
    "build_waiting 10 (s\<lparr>ro_sending := True\<rparr>) = Inr s'" "ro_waiting s' = drop 10 (ro_waiting s)"
    "ro_packets s' = ro_packets s @ filter has_header (take 10 (ro_waiting s))" "ro_sending s'" by auto
  with assms(3) show ?thesis by (auto simp: Send_def)
qed

text \<open>
  What every operation of the queue keeps: its packets are ready, and between batches the
  header buffer has room for ten of them.
\<close>

definition queue_inv :: "RtmpOut \<Rightarrow> bool" where
  "queue_inv s \<longleftrightarrow> list_all packet_ready (ro_waiting s) \<and> (ro_sending s \<or> ro_pos s \<le> 556)"

lemma queue_inv_new: "queue_inv RtmpOut_new"
  by (simp add: queue_inv_def RtmpOut_new_def)

lemma list_all_drop: "list_all P xs \<Longrightarrow> list_all P (drop n xs)"
  by (auto simp: list_all_iff dest: in_set_dropD)

lemma Send_ok:
  assumes "queue_inv s"
  shows "\<exists>s' sent. Send s = Inr (s', sent) \<and> queue_inv s' \<and> ro_sending s' \<and>
           (ro_sending s \<longrightarrow> s' = s \<and> sent = None) \<and>
           (\<not> ro_sending s \<longrightarrow> sent = Some (ro_bufs s') \<and> ro_waiting s' = drop 10 (ro_waiting s))"
proof (cases "ro_sending s")
  case True
  with assms show ?thesis by (simp add: Send_def)
next
  case False
  with assms Send_safe [of s] list_all_drop [of packet_ready "ro_waiting s" 10] show ?thesis
    by (auto simp: queue_inv_def)
qed

lemma PushOutQueue_ok:
  assumes "queue_inv s" and "packet_ready p"
  shows "\<exists>s' sent. PushOutQueue p s = Inr (s', sent) \<and> queue_inv s' \<and> ro_sending s' \<and>
           (if ro_sending s then sent = None \<and> ro_waiting s' = ro_waiting s @ [p]
            else sent = Some (ro_bufs s') \<and> ro_waiting s' = drop 10 (ro_waiting s @ [p]))"
proof -
  have "queue_inv (s\<lparr>ro_waiting := ro_waiting s @ [p]\<rparr>)" using assms by (simp add: queue_inv_def)
  from Send_ok [OF this] show ?thesis by (auto simp: PushOutQueue_def)
qed

lemma CheckAndSend_ok:
  assumes "queue_inv s"
  shows "\<exists>s' sent active. CheckAndSend s = Inr (s', sent, active) \<and> queue_inv s' \<and>
           ro_waiting s' = drop 10 (ro_waiting s) \<and> (active \<longleftrightarrow> ro_waiting s = []) \<and>
           (ro_sending s' \<longleftrightarrow> ro_waiting s \<noteq> []) \<and>
           ro_packets s' = filter has_header (take 10 (ro_waiting s))"
proof -
  let ?s = "s\<lparr>ro_sending := False, ro_pos := 0, ro_bufs := [], ro_packets := []\<rparr>"
  have "list_all packet_ready (ro_waiting ?s)" "ro_pos ?s \<le> 556" "\<not> ro_sending ?s" "queue_inv ?s"
    using assms by (simp_all add: queue_inv_def)
  with Send_safe [of ?s] Send_ok [of ?s] show ?thesis
    by (cases "ro_waiting s = []") (auto simp: CheckAndSend_def queue_inv_def)
qed

section \<open>What the connection is given\<close>

text \<open>
  A message the queue takes and a peer can receive: small enough for ten headers of it to
  fit \<open>out_buffer_\<close>, and one the chunk loop accepts. A packet without a message header is
  taken too; \<open>BuildChunk\<close> drops it.
\<close>

definition queueable :: "RtmpPacket \<Rightarrow> bool" where
  "queueable p \<longleftrightarrow> packet_ready p \<and> (case pk_ext p of None \<Rightarrow> True | Some h \<Rightarrow> sendable p h)"

text \<open>\<open>Send\<close> builds a message with its default arguments, time stamp 0.\<close>

definition queue_delivered :: "RtmpPacket \<Rightarrow> RtmpPacket \<Rightarrow> bool" where
  "queue_delivered p q \<longleftrightarrow> item_delivered (p, 0, False) q"

lemma queueable_room:
  assumes "queueable p"
  shows "item_room (p, t, fmt0) \<le> 158"
proof (cases "pk_ext p")
  case (Some h)
  with assms have "unat (rh_msg_len h) \<le> 200000"
    by (simp add: queueable_def packet_ready_def max_queued_len_def)
  then have "(unat (rh_msg_len h) - 1) div 4096 \<le> 48"
    using div_le_mono [of "unat (rh_msg_len h) - 1" 199999 4096] by simp
  with Some show ?thesis by (simp add: item_room_def hdr_room_def out_chunk_size_def)
qed (simp add: item_room_def)

lemma build_waiting_trip:
  assumes "synced r s" and "list_all queueable (ro_waiting s)" and "ro_pos s + n * 158 \<le> out_buffer_size"
  shows "\<exists>s' nodes r' qs. build_waiting n s = Inr s' \<and> ro_bufs s' = ro_bufs s @ nodes \<and>
           parses r (concat nodes) qs r' \<and> synced r' s' \<and>
           list_all2 queue_delivered (filter has_header (take n (ro_waiting s))) qs \<and>
           ro_waiting s' = drop n (ro_waiting s) \<and> ro_sending s' = ro_sending s"
  using assms
proof (induction n arbitrary: r s)
  case 0
  then show ?case using parses_Nil by (auto intro!: exI [of _ "[]"])
next
  case (Suc n)
  show ?case
  proof (cases "ro_waiting s")
    case Nil
    with Suc.prems(1) show ?thesis using parses_Nil by (auto intro!: exI [of _ "[]"])
  next
    case (Cons p ps)
    let ?s = "s\<lparr>ro_waiting := ps\<rparr>"
    have p: "queueable p" "list_all queueable ps" and sync: "synced r ?s"
      using Suc.prems(1,2) Cons by (simp_all add: synced_def)
    show ?thesis
    proof (cases "pk_ext p")
      case None
      from Suc.IH [OF sync] p(2) Suc.prems(3) obtain s' nodes r' qs where
        "build_waiting n ?s = Inr s'" "ro_bufs s' = ro_bufs s @ nodes" "parses r (concat nodes) qs r'"
        "synced r' s'" "list_all2 queue_delivered (filter has_header (take n ps)) qs"
        "ro_waiting s' = drop n ps" "ro_sending s' = ro_sending s" by auto
      moreover have "\<not> has_header p" using None by (simp add: has_header_def)
      ultimately show ?thesis using Cons None by (auto simp: BuildChunk_move_def)
    next
      case (Some h)
      then have sd: "sendable_item (p, 0, False)" using p(1) by (simp add: queueable_def sendable_item_def)
      have "ro_pos ?s + item_room (p, 0, False) \<le> out_buffer_size"
        using queueable_room [OF p(1), of 0 False] Suc.prems(3) by simp
      from BuildChunk_move_trip [OF sync sd this] obtain s1 n1 r1 q where
        1: "BuildChunk_move p 0 False ?s = Inr (True, s1)" "ro_bufs s1 = ro_bufs s @ n1"
        "parses r (concat n1) [q] r1" "synced r1 s1" "item_delivered (p, 0, False) q"
        "ro_pos s1 \<le> ro_pos s + item_room (p, 0, False)" "ro_waiting s1 = ps" "ro_sending s1 = ro_sending s"
        by auto
      have "ro_pos s1 + n * 158 \<le> out_buffer_size"
        using 1(6) queueable_room [OF p(1), of 0 False] Suc.prems(3) by simp
      from Suc.IH [OF 1(4) _ this] p(2) 1(7) obtain s' n2 r' qs where
        2: "build_waiting n s1 = Inr s'" "ro_bufs s' = ro_bufs s1 @ n2" "parses r1 (concat n2) qs r'"
        "synced r' s'" "list_all2 queue_delivered (filter has_header (take n ps)) qs"
        "ro_waiting s' = drop n ps" "ro_sending s' = ro_sending s1" by auto
      have "parses r (concat (n1 @ n2)) (q # qs) r'" using parses_append [OF 1(3) 2(3)] by simp
      moreover have "has_header p" "queue_delivered p q"
        using Some 1(5) by (simp_all add: has_header_def queue_delivered_def)
      ultimately show ?thesis using 1 2 Cons
        by (intro exI [of _ s'] exI [of _ "n1 @ n2"] exI [of _ r'] exI [of _ "q # qs"]) simp
    qed
  qed
qed

text \<open>
  A run of the queue: messages are pushed and the connection reports its writes complete, in
  any order. What is collected is what \<open>connection_->Send\<close> is called with, and nothing else.
\<close>

datatype queue_event = QPush RtmpPacket | QWritten

fun queue_step :: "queue_event \<Rightarrow> RtmpOut \<Rightarrow> (RtmpOut \<times> bytes list option) result" where
  "queue_step (QPush p) s = PushOutQueue p s"
| "queue_step QWritten s = rbind (CheckAndSend s) (\<lambda>(s', sent, _). Inr (s', sent))"

definition written :: "bytes list option \<Rightarrow> bytes" where
  "written sent = (case sent of None \<Rightarrow> [] | Some bufs \<Rightarrow> concat bufs)"

fun run_queue :: "queue_event list \<Rightarrow> RtmpOut \<Rightarrow> (bytes \<times> RtmpOut) result" where
  "run_queue [] s = Inr ([], s)"
| "run_queue (e # es) s = rbind (queue_step e s) (\<lambda>(s', sent).
     rbind (run_queue es s') (\<lambda>(out, s''). Inr (written sent @ out, s'')))"

fun pushed :: "queue_event list \<Rightarrow> RtmpPacket list" where
  "pushed [] = []"
| "pushed (QPush p # es) = p # pushed es"
| "pushed (QWritten # es) = pushed es"

lemma pushed_append [simp]: "pushed (es @ fs) = pushed es @ pushed fs"
  by (induction es rule: pushed.induct) simp_all

lemma pushed_written [simp]: "pushed (replicate n QWritten) = []"
  by (induction n) simp_all

text \<open>What holds between the events, \<open>r\<close> being the peer that has read all that was written.\<close>

definition queue_synced :: "RtmpIn \<Rightarrow> RtmpOut \<Rightarrow> bool" where
  "queue_synced r s \<longleftrightarrow> synced r s \<and> list_all queueable (ro_waiting s) \<and>
     (\<not> ro_sending s \<longrightarrow> ro_pos s = 0 \<and> ro_bufs s = [])"

text \<open>What a step does: \<open>qs\<close> is received of the messages \<open>ps\<close>, \<open>rest\<close> keeps waiting.\<close>

definition step_sends :: "RtmpIn \<Rightarrow> (RtmpOut \<times> bytes list option) result \<Rightarrow> RtmpPacket list \<Rightarrow> RtmpPacket list \<Rightarrow> bool" where
  "step_sends r res ps rest \<longleftrightarrow> (\<exists>s' sent r' qs. res = Inr (s', sent) \<and> parses r (written sent) qs r' \<and>
     queue_synced r' s' \<and> list_all2 queue_delivered (filter has_header ps) qs \<and> ro_waiting s' = rest)"

lemma Send_idle:
  assumes "synced r s" "list_all queueable (ro_waiting s)" "\<not> ro_sending s" "ro_pos s = 0" "ro_bufs s = []"
  shows "step_sends r (Send s) (take 10 (ro_waiting s)) (drop 10 (ro_waiting s))"
proof -
  let ?s = "s\<lparr>ro_sending := True\<rparr>"
  have "synced r ?s" "list_all queueable (ro_waiting ?s)" "ro_pos ?s + 10 * 158 \<le> out_buffer_size"
    using assms by (simp_all add: synced_def out_buffer_size_def)
  from build_waiting_trip [OF this] assms(5) obtain s' r' qs where
    1: "build_waiting 10 ?s = Inr s'" "parses r (concat (ro_bufs s')) qs r'" "synced r' s'"
    "list_all2 queue_delivered (filter has_header (take 10 (ro_waiting s))) qs"
    "ro_waiting s' = drop 10 (ro_waiting s)" "ro_sending s'" by auto
  then have "queue_synced r' s'" using list_all_drop [OF assms(2)] by (simp add: queue_synced_def)
  with 1 assms(3) show ?thesis by (auto simp: step_sends_def Send_def written_def)
qed

lemma queue_step_sends:
  assumes "queue_synced r s" and "list_all queueable (pushed [e])"
  shows "\<exists>ps rest. ro_waiting s @ pushed [e] = ps @ rest \<and> step_sends r (queue_step e s) ps rest \<and>
           (e = QWritten \<longrightarrow> rest = drop 10 (ro_waiting s))"
proof (cases e)
  case (QPush p)
  let ?s = "s\<lparr>ro_waiting := ro_waiting s @ [p]\<rparr>"
  have s: "synced r ?s" "list_all queueable (ro_waiting ?s)"
    using assms QPush by (simp_all add: queue_synced_def synced_def)
  show ?thesis
  proof (cases "ro_sending s")
    case True
    with s have "queue_synced r ?s" by (simp add: queue_synced_def)
    with True have "step_sends r (queue_step e s) [] (ro_waiting s @ [p])"
      using QPush parses_Nil [of r] by (auto simp: step_sends_def PushOutQueue_def Send_def written_def)
    with QPush show ?thesis by (intro exI [of _ "[]"] exI) simp
  next
    case False
    with assms(1) have "ro_pos ?s = 0" "ro_bufs ?s = []" by (simp_all add: queue_synced_def)
    from Send_idle [OF s _ this] False QPush show ?thesis
      by (intro exI conjI) (rule append_take_drop_id [symmetric], simp_all add: PushOutQueue_def del: take_append drop_append)
  qed
next
  case QWritten
  let ?s = "s\<lparr>ro_sending := False, ro_pos := 0, ro_bufs := [], ro_packets := []\<rparr>"
  have s: "synced r ?s" "list_all queueable (ro_waiting ?s)"
    using assms by (simp_all add: queue_synced_def synced_def)
  have "step_sends r (queue_step e s) (take 10 (ro_waiting s)) (drop 10 (ro_waiting s))"
  proof (cases "ro_waiting s = []")
    case True
    with s have "queue_synced r ?s" by (simp add: queue_synced_def)
    with True QWritten show ?thesis
      using parses_Nil [of r] by (auto simp: step_sends_def CheckAndSend_def written_def)
  next
    case False
    have "step_sends r (Send ?s) (take 10 (ro_waiting s)) (drop 10 (ro_waiting s))"
      using Send_idle [OF s] by simp
    moreover have "queue_step e s = Send ?s"
      using False QWritten by (cases "Send ?s") (auto simp: CheckAndSend_def)
    ultimately show ?thesis by simp
  qed
  with QWritten show ?thesis by (intro exI conjI) (rule append_take_drop_id [symmetric, of _ 10], simp_all)
qed

lemma run_queue_sends:
  assumes "queue_synced r s" and "list_all queueable (pushed es)"
  shows "\<exists>out s' r' qs ps. run_queue es s = Inr (out, s') \<and> parses r out qs r' \<and> queue_synced r' s' \<and>
           ro_waiting s @ pushed es = ps @ ro_waiting s' \<and> list_all2 queue_delivered (filter has_header ps) qs \<and>
           (pushed es = [] \<longrightarrow> ro_waiting s' = drop (10 * length es) (ro_waiting s))"
  using assms
proof (induction es arbitrary: r s)
  case Nil
  then show ?case using parses_Nil [of r] by auto
next
  case (Cons e es)
  have e: "list_all queueable (pushed [e])" "list_all queueable (pushed es)" "pushed (e # es) = pushed [e] @ pushed es"
    using Cons.prems(2) by (cases e; simp)+
  from queue_step_sends [OF Cons.prems(1) e(1)] obtain ps1 s1 sent r1 qs1 where
    1: "ro_waiting s @ pushed [e] = ps1 @ ro_waiting s1" "queue_step e s = Inr (s1, sent)"
    "parses r (written sent) qs1 r1" "queue_synced r1 s1" "list_all2 queue_delivered (filter has_header ps1) qs1"
    "e = QWritten \<longrightarrow> ro_waiting s1 = drop 10 (ro_waiting s)" unfolding step_sends_def by blast
  from Cons.IH [OF 1(4) e(2)] obtain out s' r' qs2 ps2 where
    2: "run_queue es s1 = Inr (out, s')" "parses r1 out qs2 r'" "queue_synced r' s'"
    "ro_waiting s1 @ pushed es = ps2 @ ro_waiting s'" "list_all2 queue_delivered (filter has_header ps2) qs2"
    "pushed es = [] \<longrightarrow> ro_waiting s' = drop (10 * length es) (ro_waiting s1)" by blast
  have "ro_waiting s @ pushed (e # es) = (ps1 @ ps2) @ ro_waiting s'"
    using 1(1) 2(4) e(3) by (metis append.assoc)
  moreover have "list_all2 queue_delivered (filter has_header (ps1 @ ps2)) (qs1 @ qs2)"
    using list_all2_appendI [OF 1(5) 2(5)] by simp
  moreover have "pushed (e # es) = [] \<longrightarrow> ro_waiting s' = drop (10 * length (e # es)) (ro_waiting s)"
    using 1(6) 2(6) by (cases e) (simp_all add: add.commute)
  moreover have "run_queue (e # es) s = Inr (written sent @ out, s')" using 1(2) 2(1) by simp
  ultimately show ?case using parses_append [OF 1(3) 2(2)] 2(3) by blast
qed

lemma run_queue_append:
  assumes "run_queue es s = Inr (out, s')" and "run_queue fs s' = Inr (out', s'')"
  shows "run_queue (es @ fs) s = Inr (out @ out', s'')"
  using assms by (induction es arbitrary: s out) (auto simp: rbind_def split: sum.splits)

text \<open>
  From a fresh queue: enough completions after whatever happened, and the peer has every
  message.
\<close>

lemma run_queue_drains:
  assumes "queue_synced r s" and "list_all queueable (pushed es)"
    and "length (ro_waiting s) + length (pushed es) \<le> 10 * n"
  shows "\<exists>out s' r' qs. run_queue (es @ replicate n QWritten) s = Inr (out, s') \<and> parses r out qs r' \<and>
           ro_waiting s' = [] \<and> list_all2 queue_delivered (filter has_header (ro_waiting s @ pushed es)) qs"
proof -
  from run_queue_sends [OF assms(1,2)] obtain out1 s1 r1 qs1 ps1 where
    1: "run_queue es s = Inr (out1, s1)" "parses r out1 qs1 r1" "queue_synced r1 s1"
    "ro_waiting s @ pushed es = ps1 @ ro_waiting s1" "list_all2 queue_delivered (filter has_header ps1) qs1" by blast
  have "list_all queueable (pushed (replicate n QWritten))" by simp
  from run_queue_sends [OF 1(3) this] obtain out2 s2 r2 qs2 ps2 where
    2: "run_queue (replicate n QWritten) s1 = Inr (out2, s2)" "parses r1 out2 qs2 r2"
    "ro_waiting s1 = ps2 @ ro_waiting s2" "list_all2 queue_delivered (filter has_header ps2) qs2"
    "ro_waiting s2 = drop (10 * n) (ro_waiting s1)" unfolding pushed_written append_Nil2 length_replicate by blast
  have "length (ro_waiting s1) \<le> 10 * n"
    using arg_cong [OF 1(4), of length] assms(3) by simp
  with 2(5) have e: "ro_waiting s2 = []" by simp
  with 1(4) 2(3) have ps: "ro_waiting s @ pushed es = ps1 @ ps2" by simp
  have "list_all2 queue_delivered (filter has_header (ro_waiting s @ pushed es)) (qs1 @ qs2)"
    unfolding ps filter_append by (rule list_all2_appendI [OF 1(5) 2(4)])
  with run_queue_append [OF 1(1) 2(1)] parses_append [OF 1(2) 2(2)] e show ?thesis
    by (intro exI conjI) assumption+
qed

lemma queue_synced_new: "queue_synced (RtmpIn_new\<lparr>in_chunk_size := int out_chunk_size\<rparr>) RtmpOut_new"
  by (simp add: queue_synced_def synced_def RtmpIn_new_def RtmpOut_new_def)

end
