(* ===== verification/Double.thy ===== *)
theory Double
  imports ByteIO
begin

text \<open>
  The \<open>double\<close>s of the AMF code, as their IEEE 754 bit patterns. The code only moves bit
  patterns and converts between \<open>double\<close> and \<open>uint64_t\<close>: \<open>BytesReader::ReadUint64T\<close>
  returns the \<open>double\<close> it read as a \<open>uint64_t\<close>, and \<open>AMFNumber::Decode\<close> stores that
  integer in a \<open>double\<close> again.

  A conversion to \<open>uint64_t\<close> truncates towards zero. Outside \<open>(-1, 2 ^ 64)\<close> C++ leaves it
  undefined; the model has there what the compiler's code for baseline x86-64 computes
  (\<open>cvttsd2si\<close> below \<open>2 ^ 63\<close>, the same on the value less \<open>2 ^ 63\<close> from there on), and no
  theorem about values relies on it.
\<close>

type_synonym double = u64

definition dbl_neg :: "double \<Rightarrow> bool" where
  "dbl_neg d \<longleftrightarrow> 2 ^ 63 \<le> unat d"

definition dbl_exp :: "double \<Rightarrow> nat" where
  "dbl_exp d = (unat d div 2 ^ 52) mod 2 ^ 11"

definition dbl_frac :: "double \<Rightarrow> nat" where
  "dbl_frac d = unat d mod 2 ^ 52"

text \<open>The integer part of the absolute value of a finite number.\<close>

definition dbl_trunc :: "double \<Rightarrow> nat" where
  "dbl_trunc d =
     (if dbl_exp d < 1023 then 0
      else if dbl_exp d \<le> 1075 then (2 ^ 52 + dbl_frac d) div 2 ^ (1075 - dbl_exp d)
      else (2 ^ 52 + dbl_frac d) * 2 ^ (dbl_exp d - 1075))"

definition u64_of_double :: "double \<Rightarrow> u64" where
  "u64_of_double d =
     (if dbl_exp d < 1023 then 0
      else if dbl_neg d
      then (if dbl_exp d < 1086 then - of_nat (dbl_trunc d) else 2 ^ 63)
      else if dbl_exp d < 1087 then of_nat (dbl_trunc d)
      else if dbl_exp d = 2047 \<and> dbl_frac d \<noteq> 0 then 2 ^ 63
      else 0)"

definition ReadUint64T :: "bytes \<Rightarrow> u64 result" where
  "ReadUint64T d = rbind (ntoh64_bytes d) (\<lambda>v. Inr (u64_of_double v))"

lemma ReadUint64T_ok_iff: "is_ok (ReadUint64T d) \<longleftrightarrow> 8 \<le> length d"
  using ntoh64_ok_iff [of d] by (cases "ntoh64_bytes d") (auto simp: ReadUint64T_def)

text \<open>The number of significant bits of an integer.\<close>

fun bit_len :: "nat \<Rightarrow> nat" where
  "bit_len n = (if n = 0 then 0 else Suc (bit_len (n div 2)))"

declare bit_len.simps [simp del]

text \<open>\<open>uint64_t\<close> to \<open>double\<close>, rounding to nearest, ties to even.\<close>

definition round_even :: "nat \<Rightarrow> nat \<Rightarrow> nat" where
  "round_even n s =
     (let q = n div 2 ^ s; r = n mod 2 ^ s
      in if 2 * r > 2 ^ s \<or> (2 * r = 2 ^ s \<and> odd q) then q + 1 else q)"

definition dbl_make :: "nat \<Rightarrow> nat \<Rightarrow> double" where
  "dbl_make e f = of_nat (e * 2 ^ 52 + f)"

definition double_of_nat :: "nat \<Rightarrow> double" where
  "double_of_nat n =
     (if n = 0 then 0
      else let k = bit_len n - 1
           in if k \<le> 52 then dbl_make (1023 + k) ((n - 2 ^ k) * 2 ^ (52 - k))
              else dbl_make (1023 + k) (round_even n (k - 52) - 2 ^ 52))"

definition double_of_u64 :: "u64 \<Rightarrow> double" where
  "double_of_u64 v = double_of_nat (unat v)"

lemma bit_len_bounds: "n \<noteq> 0 \<Longrightarrow> 2 ^ (bit_len n - 1) \<le> n \<and> n < 2 ^ bit_len n \<and> 0 < bit_len n"
proof (induction n rule: bit_len.induct)
  case (1 n)
  show ?case
  proof (cases "n div 2 = 0")
    case True
    with 1 have "n = 1" by auto
    then show ?thesis by (simp add: bit_len.simps)
  next
    case False
    let ?m = "bit_len (n div 2)"
    from 1 False have IH: "2 ^ (?m - 1) \<le> n div 2" "n div 2 < 2 ^ ?m" "0 < ?m" by auto
    have "2 ^ ?m \<le> n"
    proof -
      have "(2 :: nat) ^ ?m = 2 * 2 ^ (?m - 1)" using IH(3) by (cases ?m) auto
      with IH(1) show ?thesis by linarith
    qed
    moreover have "n < 2 ^ Suc ?m" using IH(2) by simp
    ultimately show ?thesis using 1 by (simp add: bit_len.simps [of n])
  qed
qed

text \<open>The fields of a pattern that is assembled from an exponent and a fraction.\<close>

lemma dbl_fields:
  assumes "e < 2047" and "f < 2 ^ 52"
  shows "unat (dbl_make e f) = e * 2 ^ 52 + f"
    and "dbl_exp (dbl_make e f) = e"
    and "dbl_frac (dbl_make e f) = f"
    and "\<not> dbl_neg (dbl_make e f)"
proof -
  from assms have lt: "e * 2 ^ 52 + f < 2 ^ 63" by simp
  then show u: "unat (dbl_make e f) = e * 2 ^ 52 + f"
    unfolding dbl_make_def unat_of_nat by simp
  have "(e * 2 ^ 52 + f) div 2 ^ 52 = e" using assms(2) by simp
  then show "dbl_exp (dbl_make e f) = e" unfolding dbl_exp_def u using assms(1) by simp
  show "dbl_frac (dbl_make e f) = f" unfolding dbl_frac_def u using assms(2) by simp
  show "\<not> dbl_neg (dbl_make e f)" unfolding dbl_neg_def u using lt by simp
qed

text \<open>The pattern of a positive integer below \<open>2 ^ 53\<close>.\<close>

lemma double_of_nat_make:
  assumes "n \<noteq> 0" and "n < 2 ^ 53"
  obtains k f where "k \<le> 52" and "f < 2 ^ 52" and "double_of_nat n = dbl_make (1023 + k) f"
    and "2 ^ 52 + f = n * 2 ^ (52 - k)"
proof -
  define k where "k = bit_len n - 1"
  have b: "2 ^ k \<le> n" "n < 2 ^ Suc k"
    using bit_len_bounds [OF assms(1)] by (auto simp: k_def)
  have k: "k \<le> 52"
  proof (rule ccontr)
    assume "\<not> k \<le> 52"
    then have "(2 :: nat) ^ 53 \<le> 2 ^ k" by (intro power_increasing) auto
    with b(1) assms show False by linarith
  qed
  have split: "(2 :: nat) ^ 52 = 2 ^ k * 2 ^ (52 - k)"
    using k by (simp add: power_add [symmetric])
  define f where "f = (n - 2 ^ k) * 2 ^ (52 - k)"
  have f: "f < 2 ^ 52"
    unfolding f_def split using b by (intro mult_strict_right_mono) auto
  have d: "double_of_nat n = dbl_make (1023 + k) f"
    using assms(1) k by (simp add: double_of_nat_def k_def f_def Let_def)
  have "2 ^ 52 + f = (2 ^ k + (n - 2 ^ k)) * 2 ^ (52 - k)"
    unfolding f_def split by (rule distrib_right [symmetric])
  with b(1) have "2 ^ 52 + f = n * 2 ^ (52 - k)" by simp
  with k f d show ?thesis by (rule that)
qed

text \<open>Integers below \<open>2 ^ 53\<close> survive the trip through a \<open>double\<close>.\<close>

lemma u64_of_double_of_nat:
  assumes "n < 2 ^ 53"
  shows "u64_of_double (double_of_nat n) = of_nat n"
proof (cases "n = 0")
  case True
  then show ?thesis by (simp add: double_of_nat_def u64_of_double_def dbl_exp_def)
next
  case False
  from this assms obtain k f where kf: "k \<le> 52" "f < 2 ^ 52"
    "double_of_nat n = dbl_make (1023 + k) f" "2 ^ 52 + f = n * 2 ^ (52 - k)"
    by (rule double_of_nat_make)
  note fields = dbl_fields [of "1023 + k" f, OF _ kf(2)]
  have "dbl_trunc (double_of_nat n) = (2 ^ 52 + f) div 2 ^ (52 - k)"
    using kf(1) fields by (simp add: dbl_trunc_def kf(3))
  then have "dbl_trunc (double_of_nat n) = n"
    unfolding kf(4) by simp
  with kf fields show ?thesis
    by (simp add: u64_of_double_def)
qed

lemma double_of_u64_round_trip:
  "unat v < 2 ^ 53 \<Longrightarrow> u64_of_double (double_of_u64 v) = v"
  by (simp add: double_of_u64_def u64_of_double_of_nat)

text \<open>The top 16 bits of the pattern of such an integer are never \<open>0x0009\<close>.\<close>

lemma double_of_nat_high:
  assumes "n < 2 ^ 53"
  shows "unat (double_of_nat n) div 2 ^ 48 \<noteq> 9"
proof (cases "n = 0")
  case True
  then show ?thesis by (simp add: double_of_nat_def)
next
  case False
  from this assms obtain k f where kf: "k \<le> 52" "f < 2 ^ 52"
    "double_of_nat n = dbl_make (1023 + k) f"
    by (rule double_of_nat_make)
  have "(1023 * 2 ^ 52) div 2 ^ 48 \<le> ((1023 + k) * 2 ^ 52 + f) div (2 ^ 48 :: nat)"
    by (rule div_le_mono) simp
  with kf dbl_fields(1) [of "1023 + k" f] show ?thesis by simp
qed

end
