(* ===== verification/Interfaces.thy ===== *)
theory Interfaces
  imports Prelude
begin

text \<open>
  The contracts between components. \<open>byte_stream\<close> is what the protocol parsers rely on
  from the socket buffer; \<open>wire_format\<close> is what a message reader relies on from the
  encoding of one item. Each is interpreted in the theory of the component that provides it.
\<close>

section \<open>A byte stream: appended at the end, consumed at the front\<close>

text \<open>Appending a sequence of fragments, as the socket delivers them.\<close>

primrec feed :: "(bytes \<Rightarrow> 'b \<Rightarrow> 'b result) \<Rightarrow> bytes list \<Rightarrow> 'b \<Rightarrow> 'b result" where
  "feed app [] b = Inr b"
| "feed app (d # ds) b = rbind (app d b) (feed app ds)"

locale byte_stream =
  fixes app :: "bytes \<Rightarrow> 'b \<Rightarrow> 'b result"
    and ret :: "nat \<Rightarrow> 'b \<Rightarrow> 'b"
    and view :: "'b \<Rightarrow> bytes"
    and ok :: "'b \<Rightarrow> bool"
  assumes app_ok: "ok b \<Longrightarrow> \<exists>b'. app d b = Inr b' \<and> ok b' \<and> view b' = view b @ d"
    and ret_ok: "ok b \<Longrightarrow> ok (ret n b)"
    and ret_view: "ok b \<Longrightarrow> view (ret n b) = drop n (view b)"
begin

lemma feed_ok: "ok b \<Longrightarrow> \<exists>b'. feed app ds b = Inr b' \<and> ok b' \<and> view b' = view b @ concat ds"
proof (induction ds arbitrary: b)
  case Nil
  then show ?case by simp
next
  case (Cons d ds)
  obtain b1 where b1: "app d b = Inr b1" "ok b1" "view b1 = view b @ d"
    using app_ok [OF Cons.prems] by blast
  from Cons.IH [OF b1(2)] b1 show ?case by auto
qed

text \<open>How the bytes were cut into fragments does not show in the stream.\<close>

lemma feed_fragmentation:
  assumes "ok b" and "concat ds = concat es"
  shows "\<exists>b1 b2. feed app ds b = Inr b1 \<and> feed app es b = Inr b2 \<and> view b1 = view b2"
  using feed_ok [OF assms(1), of ds] feed_ok [OF assms(1), of es] assms(2) by auto

text \<open>A consumer that takes a whole message off the front leaves exactly what followed it.\<close>

lemma feed_then_consume:
  assumes "ok b" and "view b = []" and "concat ds = m @ rest"
  shows "\<exists>b'. feed app ds b = Inr b' \<and> take (length m) (view b') = m \<and>
           view (ret (length m) b') = rest"
  using feed_ok [OF assms(1), of ds] assms(2,3) by (auto simp: ret_view)

text \<open>Consuming commutes with later arrivals, as long as only present bytes are consumed.\<close>

lemma consume_commutes:
  assumes "ok b" and "n \<le> length (view b)"
  shows "\<exists>b1 b2. app d (ret n b) = Inr b1 \<and> app d b = Inr b2 \<and> view b1 = view (ret n b2)"
proof -
  obtain b1 where b1: "app d (ret n b) = Inr b1" "view b1 = view (ret n b) @ d"
    using app_ok [OF ret_ok [OF assms(1)]] by blast
  obtain b2 where b2: "app d b = Inr b2" "ok b2" "view b2 = view b @ d"
    using app_ok [OF assms(1)] by blast
  have "view b1 = view (ret n b2)"
    using b1 b2 assms by (simp add: ret_view)
  with b1 b2 show ?thesis by blast
qed

end

section \<open>A wire format: items that can be told apart in a byte sequence\<close>

text \<open>Decoding up to \<open>k\<close> items one after the other.\<close>

primrec decode_items :: "(bytes \<Rightarrow> ('a \<times> bytes) option) \<Rightarrow> nat \<Rightarrow> bytes \<Rightarrow> 'a list option" where
  "decode_items dec 0 d = Some []"
| "decode_items dec (Suc k) d =
     (case dec d of None \<Rightarrow> None
      | Some (x, rest) \<Rightarrow> map_option ((#) x) (decode_items dec k rest))"

locale wire_format =
  fixes enc :: "'a \<Rightarrow> bytes"
    and dec :: "bytes \<Rightarrow> ('a \<times> bytes) option"
    and wf :: "'a \<Rightarrow> bool"
  assumes dec_enc: "wf x \<Longrightarrow> dec (enc x @ rest) = Some (x, rest)"
begin

lemma enc_inj: "wf x \<Longrightarrow> wf y \<Longrightarrow> enc x @ r = enc y @ s \<Longrightarrow> x = y \<and> r = s"
  by (metis dec_enc option.inject prod.inject)

lemma decode_items_enc:
  "(\<forall>x \<in> set xs. wf x) \<Longrightarrow> decode_items dec (length xs) (concat (map enc xs) @ rest) = Some xs"
proof (induction xs)
  case Nil
  then show ?case by simp
next
  case (Cons x xs)
  then have "dec (enc x @ concat (map enc xs) @ rest) = Some (x, concat (map enc xs) @ rest)"
    by (intro dec_enc) simp
  with Cons show ?case by simp
qed

end

end
