(* ===== verification/Amf.thy ===== *)
theory Amf
  imports Double Interfaces
begin

text \<open>
  The AMF0 values of \<open>mmedia/rtmp/amf\<close>: the encoders of \<open>AMFAny.cc\<close>, the decoders of the
  value classes, and the object decoder of \<open>AMFObject.cc\<close>.

  A decoder gets \<open>const char *data\<close>, here the bytes from the pointer to the end of the
  packet, and \<open>int size\<close>, the bytes of the message it may still use; the two differ,
  and a read past the packet is the fault \<open>OutOfBounds\<close>. The C++ result \<open>-1\<close> is \<open>None\<close>.
\<close>

section \<open>Values\<close>

text \<open>One constructor per class; the first argument is the property name.\<close>

datatype AMFAny =
    AMFNumber string double
  | AMFBoolean string bool
  | AMFString string string
  | AMFObject string "AMFAny list"
  | AMFNull string
  | AMFDate string double u16
  | AMFLongString string string

definition kAMFNumber :: u8 where "kAMFNumber = 0"
definition kAMFBoolean :: u8 where "kAMFBoolean = 1"
definition kAMFString :: u8 where "kAMFString = 2"
definition kAMFObject :: u8 where "kAMFObject = 3"
definition kAMFNull :: u8 where "kAMFNull = 5"
definition kAMFEcmaArray :: u8 where "kAMFEcmaArray = 8"
definition kAMFObjectEnd :: u8 where "kAMFObjectEnd = 9"
definition kAMFStrictArray :: u8 where "kAMFStrictArray = 10"
definition kAMFDate :: u8 where "kAMFDate = 11"
definition kAMFLongString :: u8 where "kAMFLongString = 12"

lemmas amf_type_defs = kAMFNumber_def kAMFBoolean_def kAMFString_def kAMFObject_def kAMFNull_def
  kAMFEcmaArray_def kAMFObjectEnd_def kAMFStrictArray_def kAMFDate_def kAMFLongString_def

fun AMFAny_Name :: "AMFAny \<Rightarrow> string" where
  "AMFAny_Name (AMFNumber n _) = n"
| "AMFAny_Name (AMFBoolean n _) = n"
| "AMFAny_Name (AMFString n _) = n"
| "AMFAny_Name (AMFObject n _) = n"
| "AMFAny_Name (AMFNull n) = n"
| "AMFAny_Name (AMFDate n _ _) = n"
| "AMFAny_Name (AMFLongString n _) = n"

text \<open>
  The virtual accessors: the class's own override, or the default of \<open>AMFAny\<close> (an empty
  string, zero, no object). \<open>Boolean()\<close> of the base class asks \<open>IsString()\<close> and then calls
  itself again, so on the two string classes, which do not override it, it never returns.
\<close>

fun AMFAny_String :: "AMFAny \<Rightarrow> string" where
  "AMFAny_String (AMFString _ s) = s"
| "AMFAny_String (AMFLongString _ s) = s"
| "AMFAny_String _ = ''''"

fun AMFAny_Number :: "AMFAny \<Rightarrow> double" where
  "AMFAny_Number (AMFNumber _ d) = d"
| "AMFAny_Number _ = 0"

fun AMFAny_Date :: "AMFAny \<Rightarrow> double" where
  "AMFAny_Date (AMFDate _ d _) = d"
| "AMFAny_Date _ = 0"

fun AMFAny_Boolean :: "AMFAny \<Rightarrow> bool option" where
  "AMFAny_Boolean (AMFBoolean _ b) = Some b"
| "AMFAny_Boolean (AMFString _ _) = None"
| "AMFAny_Boolean (AMFLongString _ _) = None"
| "AMFAny_Boolean _ = Some False"

fun AMFAny_Object :: "AMFAny \<Rightarrow> AMFAny list option" where
  "AMFAny_Object (AMFObject _ ps) = Some ps"
| "AMFAny_Object _ = None"

section \<open>Encoders\<close>

definition WriteNumber :: "double \<Rightarrow> bytes" where
  "WriteNumber v = hton64_bytes v"

definition EncodeNumber :: "double \<Rightarrow> bytes" where
  "EncodeNumber v = kAMFNumber # WriteNumber v"

definition EncodeString :: "string \<Rightarrow> bytes" where
  "EncodeString s = kAMFString # WriteUint16T (of_nat (length s)) @ bytes_of_string s"

definition EncodeBoolean :: "bool \<Rightarrow> bytes" where
  "EncodeBoolean b = [kAMFBoolean, if b then 1 else 0]"

definition EncodeName :: "string \<Rightarrow> bytes" where
  "EncodeName n = WriteUint16T (of_nat (length n)) @ bytes_of_string n"

definition EncodeNamedNumber :: "string \<Rightarrow> double \<Rightarrow> bytes" where
  "EncodeNamedNumber n v = EncodeName n @ EncodeNumber v"

definition EncodeNamedString :: "string \<Rightarrow> string \<Rightarrow> bytes" where
  "EncodeNamedString n s = EncodeName n @ EncodeString s"

definition EncodeNamedBoolean :: "string \<Rightarrow> bool \<Rightarrow> bytes" where
  "EncodeNamedBoolean n b = EncodeName n @ EncodeBoolean b"

section \<open>Decoders of the simple classes\<close>

definition DecodeString :: "bytes \<Rightarrow> string result" where
  "DecodeString data =
     rbind (ReadUint16T data) (\<lambda>len.
     if 0 < len then rbind (slice_checked data 2 (unat len)) (\<lambda>s. Inr (string_of_bytes s))
     else Inr [])"

text \<open>The result of a value decoder: the value and the bytes used, or \<open>-1\<close>.\<close>

definition AMFNumber_Decode :: "string \<Rightarrow> bytes \<Rightarrow> int \<Rightarrow> (AMFAny \<times> nat) option result" where
  "AMFNumber_Decode name data sz =
     (if sz \<ge> 8
      then rbind (ReadUint64T data) (\<lambda>v. Inr (Some (AMFNumber name (double_of_u64 v), 8)))
      else Inr None)"

definition AMFBoolean_Decode :: "string \<Rightarrow> bytes \<Rightarrow> int \<Rightarrow> (AMFAny \<times> nat) option result" where
  "AMFBoolean_Decode name data sz =
     (if sz \<ge> 1
      then rbind (ReadUint8T data) (\<lambda>b. Inr (Some (AMFBoolean name (b \<noteq> 0), 1)))
      else Inr None)"

definition AMFString_Decode :: "string \<Rightarrow> bytes \<Rightarrow> int \<Rightarrow> (AMFAny \<times> nat) option result" where
  "AMFString_Decode name data sz =
     (if sz < 2 then Inr None
      else rbind (ReadUint16T data) (\<lambda>len.
        if sz < uint len + 2 then Inr None
        else rbind (DecodeString data) (\<lambda>s. Inr (Some (AMFString name s, unat len + 2)))))"

definition AMFDate_Decode :: "string \<Rightarrow> bytes \<Rightarrow> int \<Rightarrow> (AMFAny \<times> nat) option result" where
  "AMFDate_Decode name data sz =
     (if sz < 10 then Inr None
      else rbind (ReadUint64T data) (\<lambda>utc. rbind (ReadUint16T (drop 8 data)) (\<lambda>off.
        Inr (Some (AMFDate name (double_of_u64 utc) off, 10)))))"

text \<open>
  The length of a long string is a \<open>uint32_t\<close>, so \<open>len + 4\<close> wraps around and the
  comparison with \<open>size\<close> is done on unsigned words.
\<close>

definition AMFLongString_Decode :: "string \<Rightarrow> bytes \<Rightarrow> int \<Rightarrow> (AMFAny \<times> nat) option result" where
  "AMFLongString_Decode name data sz =
     (if sz < 4 then Inr None
      else rbind (ReadUint32T data) (\<lambda>len.
        if (word_of_int sz :: u32) < len + 4 then Inr None
        else rbind (slice_checked data 4 (unat len)) (\<lambda>s.
          Inr (Some (AMFLongString name (string_of_bytes s), unat (len + 4))))))"

section \<open>The object decoder\<close>

text \<open>
  What the \<open>switch\<close> on the type byte does: return \<open>-1\<close>, return what is parsed so far
  (\<open>kAMFObjectEnd\<close>), or go on after pushing at most one property and using some bytes.
\<close>

datatype amf_step = AmfErr | AmfEnd | AmfNext "AMFAny list" nat

definition amf_push :: "(AMFAny \<times> nat) option result \<Rightarrow> amf_step result" where
  "amf_push r = rbind r (\<lambda>v. Inr (case v of None \<Rightarrow> AmfErr | Some (p, len) \<Rightarrow> AmfNext [p] len))"

text \<open>
  \<open>AMFObject_Decode\<close> is the loop of \<open>Decode\<close>, with the properties and the bytes parsed so
  far; \<open>amf_switch\<close> is the \<open>switch\<close> that \<open>Decode\<close> and \<open>DecodeOnce\<close> both contain (its
  \<open>size\<close> is \<open>size - parsed\<close> at that point); \<open>amf_strict\<close> is the counting loop of a
  strict array. The first argument is fuel: one step per loop round or call.
\<close>

function AMFObject_Decode :: "nat \<Rightarrow> bytes \<Rightarrow> int \<Rightarrow> bool \<Rightarrow> nat \<Rightarrow> AMFAny list \<Rightarrow> (AMFAny list \<times> nat) option result"
  and amf_switch :: "nat \<Rightarrow> u8 \<Rightarrow> string \<Rightarrow> bytes \<Rightarrow> int \<Rightarrow> amf_step result"
  and AMFObject_DecodeOnce :: "nat \<Rightarrow> bytes \<Rightarrow> int \<Rightarrow> bool \<Rightarrow> AMFAny list \<Rightarrow> (AMFAny list \<times> nat) option result"
  and amf_strict :: "nat \<Rightarrow> nat \<Rightarrow> bytes \<Rightarrow> int \<Rightarrow> nat \<Rightarrow> AMFAny list \<Rightarrow> (AMFAny list \<times> nat) option result"
where
  "AMFObject_Decode 0 data sz has parsed props = Inl OutOfFuel"
| "AMFObject_Decode (Suc f) data sz has parsed props =
     (if int parsed + 3 < sz
      then rbind (ReadUint24T data) (\<lambda>m.
        if m = 9 then Inr (Some (props, parsed + 3))
        else rbind (if has then DecodeString data else Inr []) (\<lambda>nname.
          let used = (if nname \<noteq> [] then length nname + 2 else 0)
          in (case drop used data of
                [] \<Rightarrow> Inl OutOfBounds
              | type # data' \<Rightarrow>
                  rbind (amf_switch f type nname data' (sz - int (parsed + used + 1))) (\<lambda>s.
                    case s of
                      AmfErr \<Rightarrow> Inr None
                    | AmfEnd \<Rightarrow> Inr (Some (props, parsed + used + 1))
                    | AmfNext ps len \<Rightarrow>
                        AMFObject_Decode f (drop len data') sz has (parsed + used + 1 + len) (props @ ps)))))
      else Inr (Some (props, parsed)))"
| "amf_switch 0 type nname data sz = Inl OutOfFuel"
| "amf_switch (Suc f) type nname data sz =
     (if type = kAMFNumber then amf_push (AMFNumber_Decode nname data sz)
      else if type = kAMFBoolean then amf_push (AMFBoolean_Decode nname data sz)
      else if type = kAMFString then amf_push (AMFString_Decode nname data sz)
      else if type = kAMFObject
      then rbind (AMFObject_Decode f data sz True 0 []) (\<lambda>r. Inr (case r of
             None \<Rightarrow> AmfErr | Some (ps, len) \<Rightarrow> AmfNext [AMFObject nname ps] len))
      else if type = kAMFNull then Inr (AmfNext [AMFNull nname] 0)
      else if type = kAMFEcmaArray
      then rbind (ReadUint32T data) (\<lambda>count.
           rbind (AMFObject_Decode f (drop 4 data) (sz - 4) True 0 []) (\<lambda>r. Inr (case r of
             None \<Rightarrow> AmfErr | Some (ps, len) \<Rightarrow> AmfNext [AMFObject nname ps] (4 + len))))
      else if type = kAMFObjectEnd then Inr AmfEnd
      else if type = kAMFStrictArray
      then rbind (ReadUint32T data) (\<lambda>count.
           rbind (amf_strict f (nat (sint count)) (drop 4 data) (sz - 4) 0 []) (\<lambda>r. Inr (case r of
             None \<Rightarrow> AmfErr | Some (ps, len) \<Rightarrow> AmfNext [AMFObject nname ps] (4 + len))))
      else if type = kAMFDate then amf_push (AMFDate_Decode nname data sz)
      else if type = kAMFLongString then amf_push (AMFLongString_Decode nname data sz)
      else Inr (AmfNext [] 0))"
| "AMFObject_DecodeOnce 0 data sz has props = Inl OutOfFuel"
| "AMFObject_DecodeOnce (Suc f) data sz has props =
     rbind (if has then DecodeString data else Inr []) (\<lambda>nname.
       let used = (if nname \<noteq> [] then length nname + 2 else 0)
       in (case drop used data of
             [] \<Rightarrow> Inl OutOfBounds
           | type # data' \<Rightarrow>
               rbind (amf_switch f type nname data' (sz - int (used + 1))) (\<lambda>s.
                 case s of
                   AmfErr \<Rightarrow> Inr None
                 | AmfEnd \<Rightarrow> Inr (Some (props, used + 1))
                 | AmfNext ps len \<Rightarrow> Inr (Some (props @ ps, used + 1 + len)))))"
| "amf_strict 0 count data sz parsed props = Inl OutOfFuel"
| "amf_strict (Suc f) count data sz parsed props =
     (if 0 < count
      then rbind (AMFObject_DecodeOnce f data (sz - int parsed) True props) (\<lambda>r.
        case r of
          None \<Rightarrow> Inr None
        | Some (ps, len) \<Rightarrow> amf_strict f (count - 1) (drop len data) sz (parsed + len) ps)
      else Inr (Some (props, parsed)))"
  by pat_completeness auto
termination
  by (relation "measure (case_sum (case_sum fst fst) (case_sum fst fst))") auto

text \<open>The fuel that is always enough (see \<open>amf_fuel_enough\<close> below).\<close>

definition amf_fuel :: "bytes \<Rightarrow> nat" where
  "amf_fuel data = 4 * length data + 4"

text \<open>\<open>AMFObject obj; obj.Decode(data, size)\<close>, the properties it gathers.\<close>

definition amf_Decode :: "bytes \<Rightarrow> int \<Rightarrow> (AMFAny list \<times> nat) option result" where
  "amf_Decode data sz = AMFObject_Decode (amf_fuel data) data sz False 0 []"

section \<open>Looking properties up\<close>

fun Property_name :: "string \<Rightarrow> AMFAny list \<Rightarrow> AMFAny option" where
  "Property_name name [] = None"
| "Property_name name (p # ps) =
     (if AMFAny_Name p = name then Some p
      else case p of
             AMFObject _ sub \<Rightarrow>
               (case Property_name name sub of Some q \<Rightarrow> Some q | None \<Rightarrow> Property_name name ps)
           | _ \<Rightarrow> Property_name name ps)"

definition Property_index :: "int \<Rightarrow> AMFAny list \<Rightarrow> AMFAny option" where
  "Property_index i ps = (if i < 0 \<or> i \<ge> int (length ps) then None else Some (ps ! nat i))"

section \<open>Termination: the fuel is always enough\<close>

definition fueled :: "'a result \<Rightarrow> bool" where
  "fueled r \<longleftrightarrow> r \<noteq> Inl OutOfFuel"

lemma fueled_simps [simp]:
  "fueled (Inr x)" "fueled (Inl e) \<longleftrightarrow> e \<noteq> OutOfFuel"
  by (simp_all add: fueled_def)

lemma fueled_rbind: "fueled r \<Longrightarrow> (\<And>x. r = Inr x \<Longrightarrow> fueled (f x)) \<Longrightarrow> fueled (rbind r f)"
  by (cases r) auto

lemma fueled_read [simp]:
  "fueled (ReadUint32T d)" "fueled (ReadUint24T d)" "fueled (ReadUint16T d)"
  "fueled (ReadUint8T d)" "fueled (slice_checked d i n)"
  by (cases d rule: ReadUint32T.cases, auto,
      cases d rule: ReadUint24T.cases, auto,
      cases d rule: ReadUint16T.cases, auto,
      cases d, auto simp: slice_checked_def)

lemma fueled_leaf [simp]:
  "fueled (ReadUint64T d)" "fueled (DecodeString d)"
  by (auto simp: ReadUint64T_def ntoh64_bytes_def DecodeString_def intro!: fueled_rbind)

lemma fueled_values [simp]:
  "fueled (amf_push (AMFNumber_Decode n d sz))" "fueled (amf_push (AMFBoolean_Decode n d sz))"
  "fueled (amf_push (AMFString_Decode n d sz))" "fueled (amf_push (AMFDate_Decode n d sz))"
  "fueled (amf_push (AMFLongString_Decode n d sz))"
  by (auto simp: amf_push_def AMFNumber_Decode_def AMFBoolean_Decode_def AMFString_Decode_def
      AMFDate_Decode_def AMFLongString_Decode_def intro!: fueled_rbind)

lemma DecodeOnce_uses:
  "AMFObject_DecodeOnce f data sz has props = Inr (Some (ps, len)) \<Longrightarrow> 1 \<le> len \<and> data \<noteq> []"
  by (cases f) (auto simp: Let_def result_simps, case_tac xa, auto)

lemma drop_Cons_length: "drop n xs = y # ys \<Longrightarrow> length ys < length xs"
  by (metis Suc_le_lessD diff_le_self length_Cons length_drop)

lemma ReadUint32T_length: "ReadUint32T d = Inr v \<Longrightarrow> 4 \<le> length d"
  using ReadUint32T_ok_iff [of d] by simp

lemma amf_fueled:
  "4 * length data + 1 \<le> f \<Longrightarrow> fueled (AMFObject_Decode f data sz has parsed props)"
  "4 * length data + 2 \<le> f \<Longrightarrow> fueled (amf_switch f type nname data sz)"
  "4 * length data + 1 \<le> f \<Longrightarrow> fueled (AMFObject_DecodeOnce f data sz has props)"
  "4 * length data + 2 \<le> f \<Longrightarrow> fueled (amf_strict f count data sz parsed props)"
proof (induction f arbitrary: data sz has parsed props type nname count)
  case 0
  { case 1 then show ?case by simp }
  { case 2 then show ?case by simp }
  { case 3 then show ?case by simp }
  { case 4 then show ?case by simp }
next
  case (Suc f)
  note IH = Suc.IH
  {
    case 1
    then show ?case
      by (auto simp: Let_def intro!: fueled_rbind IH dest!: drop_Cons_length
          split: list.splits amf_step.splits) arith+
  next
    case 2
    then show ?case
      by (auto simp: intro!: fueled_rbind IH dest!: ReadUint32T_length)
  next
    case 3
    then show ?case
      by (auto simp: Let_def intro!: fueled_rbind IH dest!: drop_Cons_length
          split: list.splits amf_step.splits)
  next
    case 4
    then show ?case
      by (auto intro!: fueled_rbind IH dest!: DecodeOnce_uses split: option.splits)
        (cases data; simp; arith)
  }
qed

lemma amf_Decode_fuel: "amf_Decode data sz \<noteq> Inl OutOfFuel"
  using amf_fueled(1) [of data "amf_fuel data"] by (simp add: amf_Decode_def amf_fuel_def fueled_def)

section \<open>Round trip: what the encoders write is what the decoder returns\<close>

text \<open>
  The type byte and the bytes after it, as the code's encoders write a value; a nested
  object is a sequence of named values closed by \<open>00 00 09\<close>, the way \<open>SendConnect\<close>,
  \<open>HandleConnect\<close> and \<open>SendStatus\<close> in \<open>RtmpContext.cc\<close> assemble it.
\<close>

fun amf_type :: "AMFAny \<Rightarrow> u8" where
  "amf_type (AMFNumber _ _) = kAMFNumber"
| "amf_type (AMFBoolean _ _) = kAMFBoolean"
| "amf_type (AMFString _ _) = kAMFString"
| "amf_type (AMFObject _ _) = kAMFObject"
| "amf_type (AMFNull _) = kAMFNull"
| "amf_type (AMFDate _ _ _) = kAMFDate"
| "amf_type (AMFLongString _ _) = kAMFLongString"

definition amf_object_end :: bytes where
  "amf_object_end = [0, 0, 9]"

fun amf_body :: "AMFAny \<Rightarrow> bytes" where
  "amf_body (AMFNumber _ d) = tl (EncodeNumber d)"
| "amf_body (AMFBoolean _ b) = tl (EncodeBoolean b)"
| "amf_body (AMFString _ s) = tl (EncodeString s)"
| "amf_body (AMFObject _ ps) =
     concat (map (\<lambda>p. EncodeName (AMFAny_Name p) @ amf_type p # amf_body p) ps) @ amf_object_end"
| "amf_body _ = []"

abbreviation amf_enc :: "AMFAny \<Rightarrow> bytes" where
  "amf_enc p \<equiv> amf_type p # amf_body p"

abbreviation amf_named :: "AMFAny \<Rightarrow> bytes" where
  "amf_named p \<equiv> EncodeName (AMFAny_Name p) @ amf_enc p"

text \<open>
  The values the encoders represent: strings and names of less than 64 KiB, names inside
  objects not empty, numbers whose leading bytes do not look like an object end. The
  decoder's conversion of numbers through \<open>uint64_t\<close> is \<open>amf_conv\<close>.
\<close>

fun amf_conv :: "AMFAny \<Rightarrow> AMFAny" where
  "amf_conv (AMFNumber n d) = AMFNumber n (double_of_u64 (u64_of_double d))"
| "amf_conv (AMFObject n ps) = AMFObject n (map amf_conv ps)"
| "amf_conv p = p"

lemma amf_conv_nat [simp]:
  "k < 2 ^ 53 \<Longrightarrow> amf_conv (AMFNumber n (double_of_nat k)) = AMFNumber n (double_of_nat k)"
  by (simp add: u64_of_double_of_nat double_of_u64_def unat_of_nat take_bit_nat_eq_self)

fun amf_wf :: "AMFAny \<Rightarrow> bool" where
  "amf_wf (AMFNumber _ d) \<longleftrightarrow> take 2 (hton64_bytes d) \<noteq> [0, 9]"
| "amf_wf (AMFBoolean _ _) \<longleftrightarrow> True"
| "amf_wf (AMFString _ s) \<longleftrightarrow> length s < 65536"
| "amf_wf (AMFObject _ ps) \<longleftrightarrow>
     list_all (\<lambda>p. amf_wf p \<and> AMFAny_Name p \<noteq> [] \<and> length (AMFAny_Name p) < 65536) ps"
| "amf_wf (AMFNull _) \<longleftrightarrow> True"
| "amf_wf _ \<longleftrightarrow> False"

definition amf_named_wf :: "AMFAny \<Rightarrow> bool" where
  "amf_named_wf p \<longleftrightarrow> amf_wf p \<and> AMFAny_Name p \<noteq> [] \<and> length (AMFAny_Name p) < 65536"

text \<open>Each value decoder on its own encoding.\<close>

lemma WriteUint16T_len: "n < 65536 \<Longrightarrow> unat (of_nat n :: u16) = n"
  by (simp add: unat_of_nat)

lemma DecodeString_enc:
  assumes "length s < 65536"
  shows "DecodeString (WriteUint16T (of_nat (length s)) @ bytes_of_string s @ rest) = Inr s"
proof (cases "s = []")
  case False
  have "unat (of_nat (length s) :: u16) = length s" using assms by (rule WriteUint16T_len)
  moreover from this False have "(0 :: u16) < of_nat (length s)"
    by (metis length_0_conv unat_0 word_neq_0_conv)
  ultimately show ?thesis using False
    by (simp add: DecodeString_def)
qed (simp add: DecodeString_def)

lemma DecodeString_name:
  "length n < 65536 \<Longrightarrow> DecodeString (EncodeName n @ rest) = Inr n"
  by (simp add: EncodeName_def DecodeString_enc)

lemma length_EncodeName [simp]: "length (EncodeName n) = length n + 2"
  by (simp add: EncodeName_def)

text \<open>The three bytes at the head of a value are not the object end.\<close>

lemma not_object_end:
  assumes "a \<noteq> 0 \<or> b \<noteq> 0 \<or> c \<noteq> 9"
  shows "\<exists>m. ReadUint24T (a # b # c # r) = Inr m \<and> m \<noteq> 9"
proof -
  obtain m where m: "ReadUint24T (a # b # c # r) = Inr m" by simp
  have "m \<noteq> 9"
  proof
    assume "m = 9"
    with Write_Read24 [OF m] have "[a, b, c] = [0, 0, 9]"
      by (simp add: WriteUint24T_def WriteUint32T_def)
    with assms show False by simp
  qed
  with m show ?thesis by blast
qed

text \<open>
  How many bytes of its encoding the decoder reports for a value: all, but for an object
  that ends the message, whose \<open>00 00 09\<close> the loop guard leaves unread.
\<close>

fun amf_used :: "AMFAny \<Rightarrow> int \<Rightarrow> nat" where
  "amf_used (AMFObject n ps) sz =
     length (amf_body (AMFObject n ps)) - (if sz = int (length (amf_body (AMFObject n ps))) then 3 else 0)"
| "amf_used p sz = length (amf_body p)"

definition amf_value_ok :: "AMFAny \<Rightarrow> bool" where
  "amf_value_ok p \<longleftrightarrow>
     (\<forall>f rest sz. 4 * length (amf_body p) + 3 \<le> f \<longrightarrow> int (length (amf_body p)) \<le> sz \<longrightarrow>
        amf_switch f (amf_type p) (AMFAny_Name p) (amf_body p @ rest) sz = Inr (AmfNext [amf_conv p] (amf_used p sz)))"

lemma amf_step_named:
  assumes p: "amf_named_wf p" "amf_value_ok p"
    and f: "4 * length (amf_named p) \<le> f" and sz: "int parsed + int (length (amf_named p)) + 3 \<le> sz"
  shows "AMFObject_Decode (Suc f) (amf_named p @ rest) sz True parsed acc =
           AMFObject_Decode f rest sz True (parsed + length (amf_named p)) (acc @ [amf_conv p])"
proof -
  obtain c n where n: "AMFAny_Name p = c # n" and len: "length (AMFAny_Name p) < 65536"
    using p(1) by (cases "AMFAny_Name p") (auto simp: amf_named_wf_def)
  have w: "WriteUint16T (of_nat (length (AMFAny_Name p))) \<noteq> [0, 0]"
  proof
    assume z: "WriteUint16T (of_nat (length (AMFAny_Name p))) = [0, 0]"
    then have "ReadUint16T [0, 0] = Inr (of_nat (length (AMFAny_Name p)))"
      using Read_Write16 [of "of_nat (length (AMFAny_Name p))" "[]"] by simp
    then have "unat (of_nat (length (AMFAny_Name p)) :: u16) = 0" by simp
    with WriteUint16T_len [OF len] n show False by simp
  qed
  then obtain a b where ab: "WriteUint16T (of_nat (length (AMFAny_Name p))) = [a, b]" "a \<noteq> 0 \<or> b \<noteq> 0"
    by (auto simp: WriteUint16T_def)
  let ?data = "amf_named p @ rest"
  have "?data = a # b # byte_of_char c # bytes_of_string n @ amf_enc p @ rest"
    using ab(1) n by (simp add: EncodeName_def)
  then obtain m where m: "ReadUint24T ?data = Inr m" "m \<noteq> 9"
    using not_object_end ab(2) by metis
  have name: "DecodeString ?data = Inr (AMFAny_Name p)"
    using DecodeString_name [OF len] by simp
  have d: "drop (length (AMFAny_Name p) + 2) ?data = amf_enc p @ rest"
    by simp
  define s where "s = sz - int (parsed + (length (AMFAny_Name p) + 2) + 1)"
  have "int (length (amf_body p)) + 3 \<le> s"
    using sz by (simp add: s_def)
  then have "amf_switch f (amf_type p) (AMFAny_Name p) (amf_body p @ rest) s
      = Inr (AmfNext [amf_conv p] (length (amf_body p)))"
    using p(2) f unfolding amf_value_ok_def by (cases p) auto
  then show ?thesis
    using m name d n sz by (simp add: Let_def s_def add.assoc)
qed

text \<open>The loop over the named values of an object, up to and including the object end.\<close>

lemma amf_object_loop:
  assumes "\<forall>p \<in> set ps. amf_named_wf p \<and> amf_value_ok p"
    and "4 * length (concat (map amf_named ps)) + 3 \<le> f"
    and "int parsed + int (length (concat (map amf_named ps))) + 3 \<le> sz"
  shows "AMFObject_Decode f (concat (map amf_named ps) @ amf_object_end @ rest) sz True parsed acc =
           Inr (Some (acc @ map amf_conv ps, parsed + length (concat (map amf_named ps))
             + (if sz = int parsed + int (length (concat (map amf_named ps))) + 3 then 0 else 3)))"
  using assms
proof (induction ps arbitrary: f parsed acc)
  case Nil
  then obtain g where "f = Suc g" by (cases f) auto
  with Nil show ?case by (auto simp: amf_object_end_def)
next
  case (Cons p ps)
  then obtain g where g: "f = Suc g" by (cases f) auto
  have "AMFObject_Decode f (concat (map amf_named (p # ps)) @ amf_object_end @ rest) sz True parsed acc
      = AMFObject_Decode g (concat (map amf_named ps) @ amf_object_end @ rest) sz True
          (parsed + length (amf_named p)) (acc @ [amf_conv p])"
    using Cons.prems amf_step_named [of p g parsed sz "concat (map amf_named ps) @ amf_object_end @ rest" acc]
    by (simp add: g)
  also have "\<dots> = Inr (Some ((acc @ [amf_conv p]) @ map amf_conv ps, parsed + length (amf_named p) + length (concat (map amf_named ps))
      + (if sz = int (parsed + length (amf_named p)) + int (length (concat (map amf_named ps))) + 3 then 0 else 3)))"
    using Cons.prems by (intro Cons.IH) (auto simp: g)
  finally show ?case by (simp add: add.assoc)
qed

lemma amf_value_okI:
  assumes "\<And>g rest sz. 4 * length (amf_body p) + 2 \<le> g \<Longrightarrow> int (length (amf_body p)) \<le> sz \<Longrightarrow>
      amf_switch (Suc g) (amf_type p) (AMFAny_Name p) (amf_body p @ rest) sz = Inr (AmfNext [amf_conv p] (amf_used p sz))"
  shows "amf_value_ok p"
  unfolding amf_value_ok_def
proof (intro allI impI)
  fix f rest and sz :: int
  assume f: "4 * length (amf_body p) + 3 \<le> f" and sz: "int (length (amf_body p)) \<le> sz"
  then obtain g where "f = Suc g" by (cases f) auto
  with assms [of g sz rest] f sz
  show "amf_switch f (amf_type p) (AMFAny_Name p) (amf_body p @ rest) sz = Inr (AmfNext [amf_conv p] (amf_used p sz))"
    by simp
qed

lemma amf_value_ok: "amf_wf p \<Longrightarrow> amf_value_ok p"
proof (induction p)
  case (AMFNumber n d)
  have "ReadUint64T (hton64_bytes d @ rest) = Inr (u64_of_double d)" for rest
    by (simp add: ReadUint64T_def)
  with AMFNumber show ?case
    by (intro amf_value_okI) (simp add: amf_push_def AMFNumber_Decode_def EncodeNumber_def
        WriteNumber_def amf_type_defs)
next
  case (AMFBoolean n b)
  then show ?case
    by (intro amf_value_okI) (simp add: amf_push_def AMFBoolean_Decode_def EncodeBoolean_def
        amf_type_defs)
next
  case (AMFString n s)
  then have len: "length s < 65536" by simp
  have "uint (of_nat (length s) :: u16) = int (length s)"
    using WriteUint16T_len [OF len] by (metis uint_nat)
  with AMFString WriteUint16T_len [OF len] DecodeString_enc [OF len] show ?case
    by (intro amf_value_okI) (simp add: amf_push_def AMFString_Decode_def EncodeString_def
        amf_type_defs)
next
  case (AMFObject n ps)
  then have ps: "\<forall>p \<in> set ps. amf_named_wf p \<and> amf_value_ok p"
    by (auto simp: amf_named_wf_def list_all_iff)
  show ?case
  proof (rule amf_value_okI)
    fix g rest and sz :: int
    assume f: "4 * length (amf_body (AMFObject n ps)) + 2 \<le> g"
      and sz: "int (length (amf_body (AMFObject n ps))) \<le> sz"
    have loop: "AMFObject_Decode g (concat (map amf_named ps) @ amf_object_end @ rest) sz True 0 [] =
           Inr (Some ([] @ map amf_conv ps, 0 + length (concat (map amf_named ps))
             + (if sz = int 0 + int (length (concat (map amf_named ps))) + 3 then 0 else 3)))"
      using f sz by (intro amf_object_loop ps) (auto simp: amf_object_end_def)
    then show "amf_switch (Suc g) (amf_type (AMFObject n ps)) (AMFAny_Name (AMFObject n ps))
        (amf_body (AMFObject n ps) @ rest) sz = Inr (AmfNext [amf_conv (AMFObject n ps)] (amf_used (AMFObject n ps) sz))"
      by (simp add: amf_type_defs amf_object_end_def)
  qed
next
  case (AMFNull n)
  then show ?case
    by (intro amf_value_okI) (simp add: amf_type_defs)
qed simp_all

text \<open>
  The top-level values of a message carry no name. The loop guard \<open>parsed + 3 < size\<close>
  stops three bytes before the end, so a short value there (a null, a boolean, an empty
  string) is not read; \<open>amf_visible\<close> says which values are.
\<close>

fun amf_visible :: "AMFAny list \<Rightarrow> AMFAny list" where
  "amf_visible [] = []"
| "amf_visible (x # xs) =
     (if 3 < length (concat (map amf_enc (x # xs))) then x # amf_visible xs else [])"

lemma number_not_object_end:
  "take 2 (hton64_bytes d) \<noteq> [0, 9] \<Longrightarrow>
     \<exists>m. ReadUint24T (0 # hton64_bytes d @ r) = Inr m \<and> m \<noteq> 9"
  by (auto simp: hton64_bytes_def WriteUint32T_def simp del: ReadUint24T.simps intro!: not_object_end)

lemma amf_top_not_end:
  assumes "amf_wf p" and "3 < length (amf_enc p @ rest)"
  shows "\<exists>m. ReadUint24T (amf_enc p @ rest) = Inr m \<and> m \<noteq> 9"
proof (cases "amf_type p = 0")
  case True
  then obtain n d where "p = AMFNumber n d" by (cases p) (auto simp: amf_type_defs)
  with assms(1) number_not_object_end [of d rest] show ?thesis
    by (simp add: kAMFNumber_def EncodeNumber_def WriteNumber_def)
next
  case False
  from assms(2) obtain b c r where "amf_enc p @ rest = amf_type p # b # c # r"
    by (cases "amf_body p @ rest"; cases "tl (amf_body p @ rest)") auto
  with not_object_end [of "amf_type p"] False show ?thesis by metis
qed

lemma amf_top_loop:
  assumes "\<forall>p \<in> set ps. amf_wf p \<and> AMFAny_Name p = []"
    and "4 * length (concat (map amf_enc ps)) + 3 \<le> f"
  shows "\<exists>len. AMFObject_Decode f (concat (map amf_enc ps) @ extra)
           (int parsed + int (length (concat (map amf_enc ps)))) False parsed acc =
         Inr (Some (acc @ map amf_conv (amf_visible ps), len))"
  using assms
proof (induction ps arbitrary: f parsed acc)
  case Nil
  then show ?case by (cases f) auto
next
  case (Cons p ps)
  let ?rest = "concat (map amf_enc ps)"
  let ?sz = "int parsed + int (length (concat (map amf_enc (p # ps))))"
  from Cons.prems obtain g where g: "f = Suc g" by (cases f) auto
  show ?case
  proof (cases "3 < length (concat (map amf_enc (p # ps)))")
    case False
    then show ?thesis by (simp add: g)
  next
    case True
    from Cons.prems have p: "amf_wf p" "AMFAny_Name p = []" by auto
    obtain m where m: "ReadUint24T (amf_enc p @ ?rest @ extra) = Inr m" "m \<noteq> 9"
      using amf_top_not_end [OF p(1), of "?rest @ extra"] True by auto
    define s where "s = ?sz - int (parsed + 1)"
    have s: "s = int (length (amf_body p)) + int (length ?rest)" by (simp add: s_def)
    have sw: "amf_switch g (amf_type p) [] (amf_body p @ ?rest @ extra) s = Inr (AmfNext [amf_conv p] (amf_used p s))"
      using amf_value_ok [OF p(1)] p(2) Cons.prems(2) s by (simp add: g amf_value_ok_def)
    have unfold: "AMFObject_Decode f (concat (map amf_enc (p # ps)) @ extra) ?sz False parsed acc =
        AMFObject_Decode g (drop (amf_used p s) (amf_body p @ ?rest @ extra)) ?sz False
          (parsed + 1 + amf_used p s) (acc @ [amf_conv p])"
      using m sw True by (simp add: g s_def)
    show ?thesis
    proof (cases "amf_used p s = length (amf_body p)")
      case used: True
      have "\<exists>len. AMFObject_Decode g (?rest @ extra)
           (int (parsed + 1 + length (amf_body p)) + int (length ?rest)) False
           (parsed + 1 + length (amf_body p)) (acc @ [amf_conv p]) = Inr (Some ((acc @ [amf_conv p]) @ map amf_conv (amf_visible ps), len))"
        using Cons.prems by (intro Cons.IH) (auto simp: g)
      then obtain len where len: "AMFObject_Decode g (?rest @ extra)
           (int (parsed + 1 + length (amf_body p)) + int (length ?rest)) False
           (parsed + 1 + length (amf_body p)) (acc @ [amf_conv p]) = Inr (Some ((acc @ [amf_conv p]) @ map amf_conv (amf_visible ps), len))"
        by blast
      have sz: "int (parsed + 1 + length (amf_body p)) + int (length ?rest) = ?sz"
        by simp
      have rest: "drop (length (amf_body p)) (amf_body p @ ?rest @ extra) = ?rest @ extra"
        by simp
      have "(acc @ [amf_conv p]) @ map amf_conv (amf_visible ps) = acc @ map amf_conv (amf_visible (p # ps))"
        using True by simp
      with len show ?thesis
        unfolding unfold used rest sz by (intro exI [of _ len]) (simp only:)
    next
      case False
      then obtain n qs where "p = AMFObject n qs" by (cases p) auto
      with False s have used: "amf_used p s = length (amf_body p) - 3" "ps = []" "3 \<le> length (amf_body p)"
        by (auto split: if_splits simp: amf_object_end_def concat_eq_Nil_conv)
      from Cons.prems(2) used(3) obtain h where "g = Suc h" by (cases g) (auto simp: g)
      with unfold used True show ?thesis by auto
    qed
  qed
qed

lemma amf_Decode_message:
  assumes "\<forall>p \<in> set ps. amf_wf p \<and> AMFAny_Name p = []"
  shows "\<exists>len. amf_Decode (concat (map amf_enc ps) @ extra) (int (length (concat (map amf_enc ps)))) =
           Inr (Some (map amf_conv (amf_visible ps), len))"
  using amf_top_loop [OF assms, of "amf_fuel (concat (map amf_enc ps) @ extra)" extra 0 "[]"]
  by (simp add: amf_Decode_def amf_fuel_def)

text \<open>Numbers the encoders are given as integers are well formed.\<close>

lemma hton64_high:
  "take 2 (hton64_bytes d) = WriteUint16T (ucast (drop_bit 48 d))"
proof -
  have "ucast (drop_bit 24 (ucast (drop_bit 32 d) :: u32)) = (ucast (drop_bit 8 (ucast (drop_bit 48 d) :: u16)) :: u8)"
    "ucast (drop_bit 16 (ucast (drop_bit 32 d) :: u32)) = (ucast (ucast (drop_bit 48 d) :: u16) :: u8)"
    by (rule bit_word_eqI, auto simp: bit_simps less_diff_conv2)+
  then show ?thesis by (simp add: hton64_bytes_def WriteUint32T_def WriteUint16T_def)
qed

lemma amf_wf_number: "unat d div 2 ^ 48 \<noteq> 9 \<Longrightarrow> amf_wf (AMFNumber n d)"
proof -
  assume d: "unat d div 2 ^ 48 \<noteq> 9"
  have "take 2 (hton64_bytes d) \<noteq> [0, 9]"
  proof
    assume "take 2 (hton64_bytes d) = [0, 9]"
    then have "ReadUint16T (WriteUint16T (ucast (drop_bit 48 d)) @ []) = Inr 9"
      by (simp only: hton64_high) simp
    then have "(ucast (drop_bit 48 d) :: u16) = 9" by (simp only: Read_Write16) simp
    then have "unat (ucast (drop_bit 48 d) :: u16) = 9" by simp
    moreover have "unat (drop_bit 48 d) = unat d div 2 ^ 48"
      using unat_drop_bit_eq [of 48 d] by (simp add: drop_bit_eq_div)
    moreover have "unat d div 2 ^ 48 < 2 ^ 16"
      using unsigned_less [where ?'a = nat, of d] by (simp add: less_mult_imp_div_less)
    ultimately show False
      using d by (simp add: unsigned_ucast_eq take_bit_nat_eq_self)
  qed
  then show ?thesis by simp
qed

lemma amf_wf_nat [simp]: "k < 2 ^ 53 \<Longrightarrow> amf_wf (AMFNumber n (double_of_nat k))"
  by (rule amf_wf_number) (rule double_of_nat_high)

text \<open>
  The names in front of the properties are a wire format of their own: a length and as many
  characters. \<open>amf_read_name\<close> is how \<open>AMFObject::Decode\<close> takes one off the data.
\<close>

definition amf_read_name :: "bytes \<Rightarrow> (string \<times> bytes) option" where
  "amf_read_name d = (case DecodeString d of Inl _ \<Rightarrow> None | Inr s \<Rightarrow> Some (s, drop (length s + 2) d))"

interpretation amf_names: wire_format EncodeName amf_read_name "\<lambda>s. length s < 65536"
  by unfold_locales (simp add: amf_read_name_def DecodeString_name)

end
