(* ===== verification/MsgBuffer.thy ===== *)
theory MsgBuffer
  imports ByteIO Interfaces
begin

text \<open>
  The socket buffer of \<open>network/base/MsgBuffer.h\<close> and \<open>MsgBuffer.cpp\<close>: a
  \<open>std::vector<char>\<close> with a read index \<open>head_\<close> and a write index \<open>tail_\<close>. The record
  has the class's four fields, prefixed \<open>mb_\<close>; a position (\<open>Peek() + k\<close>) is the offset \<open>k\<close>. Sizes are
  \<open>nat\<close>: every \<open>size_t\<close> of the class is bounded by the length of an allocated vector.
  A failed \<open>assert\<close> is the fault \<open>AssertFailed\<close>.

  The abstract view is the byte sequence between the two indices, \<open>buf_contents\<close>. Every
  operation is proved to act on \<open>buf_contents\<close> as on a queue of bytes, and the interface
  that the parsers rely on is the locale \<open>byte_stream\<close>, interpreted on this class.
\<close>

record MsgBuffer =
  mb_head :: nat
  mb_initCap :: nat
  mb_buffer :: bytes
  mb_tail :: nat

definition kBufferDefaultLength :: nat where
  "kBufferDefaultLength = 2048"

definition kBufferOffset :: nat where
  "kBufferOffset = 8"

section \<open>Construction, sizes and the raw operations\<close>

definition MsgBuffer_new :: "nat \<Rightarrow> MsgBuffer" where
  "MsgBuffer_new len =
     \<lparr>mb_head = kBufferOffset, mb_initCap = len, mb_buffer = replicate (len + kBufferOffset) 0,
      mb_tail = kBufferOffset\<rparr>"

definition ReadableBytes :: "MsgBuffer \<Rightarrow> nat" where
  "ReadableBytes b = mb_tail b - mb_head b"

definition WritableBytes :: "MsgBuffer \<Rightarrow> nat" where
  "WritableBytes b = length (mb_buffer b) - mb_tail b"

text \<open>The bytes between \<open>Peek()\<close> and \<open>BeginWrite()\<close>.\<close>

definition buf_contents :: "MsgBuffer \<Rightarrow> bytes" where
  "buf_contents b = take (mb_tail b - mb_head b) (drop (mb_head b) (mb_buffer b))"

definition buffer_resize :: "nat \<Rightarrow> bytes \<Rightarrow> bytes" where
  "buffer_resize n xs = take n xs @ replicate (n - length xs) 0"

definition RetrieveAll :: "MsgBuffer \<Rightarrow> MsgBuffer" where
  "RetrieveAll b =
     (let b' = (if length (mb_buffer b) > mb_initCap b * 2
                then b\<lparr>mb_buffer := buffer_resize (mb_initCap b) (mb_buffer b)\<rparr> else b)
      in b'\<lparr>mb_tail := kBufferOffset, mb_head := kBufferOffset\<rparr>)"

definition Retrieve :: "nat \<Rightarrow> MsgBuffer \<Rightarrow> MsgBuffer" where
  "Retrieve len b =
     (if len \<ge> ReadableBytes b then RetrieveAll b else b\<lparr>mb_head := mb_head b + len\<rparr>)"

text \<open>
  \<open>raw_append\<close> is the \<open>memcpy\<close> at \<open>tail_\<close> of \<open>Append\<close> after the space has been made; a
  copy that runs past the vector is a fault.
\<close>

definition raw_append :: "bytes \<Rightarrow> MsgBuffer \<Rightarrow> MsgBuffer result" where
  "raw_append d b =
     (if mb_tail b + length d \<le> length (mb_buffer b)
      then Inr (b\<lparr>mb_buffer := blit (mb_buffer b) (mb_tail b) d, mb_tail := mb_tail b + length d\<rparr>)
      else Inl OutOfBounds)"

text \<open>
  \<open>EnsureWritableBytes\<close>: enough room, or move the data to the front, or a new buffer of
  at least twice the size. The new buffer's \<open>Append(*this)\<close> calls this function again, but
  with room to spare, so its first branch is taken and only the copy is left.
\<close>

definition EnsureWritableBytes :: "nat \<Rightarrow> MsgBuffer \<Rightarrow> MsgBuffer result" where
  "EnsureWritableBytes len b =
     (if WritableBytes b \<ge> len then Inr b
      else if mb_head b + WritableBytes b \<ge> len + kBufferOffset
      then Inr (b\<lparr>mb_buffer := blit (mb_buffer b) kBufferOffset (buf_contents b),
                  mb_tail := kBufferOffset + (mb_tail b - mb_head b),
                  mb_head := kBufferOffset\<rparr>)
      else (let newLen = (if length (mb_buffer b) * 2 > kBufferOffset + ReadableBytes b + len
                          then length (mb_buffer b) * 2
                          else kBufferOffset + ReadableBytes b + len)
            in raw_append (buf_contents b) (MsgBuffer_new newLen)))"

definition MsgBuffer_Append :: "bytes \<Rightarrow> MsgBuffer \<Rightarrow> MsgBuffer result" where
  "MsgBuffer_Append d b = rbind (EnsureWritableBytes (length d) b) (raw_append d)"

definition MsgBuffer_Append_buffer :: "MsgBuffer \<Rightarrow> MsgBuffer \<Rightarrow> MsgBuffer result" where
  "MsgBuffer_Append_buffer src b = MsgBuffer_Append (buf_contents src) b"

definition AppendInt8 :: "u8 \<Rightarrow> MsgBuffer \<Rightarrow> MsgBuffer result" where
  "AppendInt8 v = MsgBuffer_Append [v]"

definition AppendInt16 :: "u16 \<Rightarrow> MsgBuffer \<Rightarrow> MsgBuffer result" where
  "AppendInt16 v = MsgBuffer_Append (WriteUint16T v)"

definition AppendInt32 :: "u32 \<Rightarrow> MsgBuffer \<Rightarrow> MsgBuffer result" where
  "AppendInt32 v = MsgBuffer_Append (WriteUint32T v)"

definition AppendInt64 :: "u64 \<Rightarrow> MsgBuffer \<Rightarrow> MsgBuffer result" where
  "AppendInt64 v = MsgBuffer_Append (hton64_bytes v)"

text \<open>
  \<open>AddInFront\<close>. The second branch is a \<open>std::copy\<close> to a position inside its own source
  range; the model has the meaning the \<open>memmove\<close> of the implementation gives it.
\<close>

definition AddInFront :: "bytes \<Rightarrow> MsgBuffer \<Rightarrow> MsgBuffer result" where
  "AddInFront d b =
     (if mb_head b \<ge> length d
      then Inr (b\<lparr>mb_buffer := blit (mb_buffer b) (mb_head b - length d) d,
                  mb_head := mb_head b - length d\<rparr>)
      else if length d \<le> WritableBytes b
      then Inr (b\<lparr>mb_buffer := blit (blit (mb_buffer b) (mb_head b + length d) (buf_contents b)) (mb_head b) d,
                  mb_tail := mb_tail b + length d\<rparr>)
      else (let newLen = (if length d + ReadableBytes b < mb_initCap b then mb_initCap b
                          else length d + ReadableBytes b)
            in rbind (MsgBuffer_Append d (MsgBuffer_new newLen)) (MsgBuffer_Append (buf_contents b))))"

definition AddInFrontInt8 :: "u8 \<Rightarrow> MsgBuffer \<Rightarrow> MsgBuffer result" where
  "AddInFrontInt8 v = AddInFront [v]"

definition AddInFrontInt16 :: "u16 \<Rightarrow> MsgBuffer \<Rightarrow> MsgBuffer result" where
  "AddInFrontInt16 v = AddInFront (WriteUint16T v)"

definition AddInFrontInt32 :: "u32 \<Rightarrow> MsgBuffer \<Rightarrow> MsgBuffer result" where
  "AddInFrontInt32 v = AddInFront (WriteUint32T v)"

definition AddInFrontInt64 :: "u64 \<Rightarrow> MsgBuffer \<Rightarrow> MsgBuffer result" where
  "AddInFrontInt64 v = AddInFront (hton64_bytes v)"

section \<open>Peeking and reading\<close>

definition PeekInt8 :: "MsgBuffer \<Rightarrow> u8 result" where
  "PeekInt8 b = (if ReadableBytes b \<ge> 1 then ReadUint8T (buf_contents b) else Inl AssertFailed)"

definition PeekInt16 :: "MsgBuffer \<Rightarrow> u16 result" where
  "PeekInt16 b = (if ReadableBytes b \<ge> 2 then ReadUint16T (buf_contents b) else Inl AssertFailed)"

definition PeekInt32 :: "MsgBuffer \<Rightarrow> u32 result" where
  "PeekInt32 b = (if ReadableBytes b \<ge> 4 then ReadUint32T (buf_contents b) else Inl AssertFailed)"

definition PeekInt64 :: "MsgBuffer \<Rightarrow> u64 result" where
  "PeekInt64 b =
     (if ReadableBytes b \<ge> 8
      then ntoh64_bytes (buf_contents b)
      else Inl AssertFailed)"

text \<open>\<open>Read(len)\<close> returns at most \<open>len\<close> bytes and removes them.\<close>

definition MsgBuffer_Read :: "nat \<Rightarrow> MsgBuffer \<Rightarrow> bytes \<times> MsgBuffer" where
  "MsgBuffer_Read len b =
     (let n = (if len > ReadableBytes b then ReadableBytes b else len)
      in (take n (buf_contents b), Retrieve n b))"

definition ReadInt8 :: "MsgBuffer \<Rightarrow> (u8 \<times> MsgBuffer) result" where
  "ReadInt8 b = rbind (PeekInt8 b) (\<lambda>v. Inr (v, Retrieve 1 b))"

definition ReadInt16 :: "MsgBuffer \<Rightarrow> (u16 \<times> MsgBuffer) result" where
  "ReadInt16 b = rbind (PeekInt16 b) (\<lambda>v. Inr (v, Retrieve 2 b))"

definition ReadInt32 :: "MsgBuffer \<Rightarrow> (u32 \<times> MsgBuffer) result" where
  "ReadInt32 b = rbind (PeekInt32 b) (\<lambda>v. Inr (v, Retrieve 4 b))"

definition ReadInt64 :: "MsgBuffer \<Rightarrow> (u64 \<times> MsgBuffer) result" where
  "ReadInt64 b = rbind (PeekInt64 b) (\<lambda>v. Inr (v, Retrieve 8 b))"

definition RetrieveUntil :: "nat \<Rightarrow> MsgBuffer \<Rightarrow> MsgBuffer result" where
  "RetrieveUntil k b = (if k \<le> ReadableBytes b then Inr (Retrieve k b) else Inl AssertFailed)"

text \<open>\<open>FindCRLF\<close>: the offset of the first CR LF, if any.\<close>

fun search_crlf :: "bytes \<Rightarrow> nat option" where
  "search_crlf (a # b # r) =
     (if a = 13 \<and> b = 10 then Some 0 else map_option Suc (search_crlf (b # r)))"
| "search_crlf _ = None"

definition FindCRLF :: "MsgBuffer \<Rightarrow> nat option" where
  "FindCRLF b = search_crlf (buf_contents b)"

definition HasWritten :: "nat \<Rightarrow> MsgBuffer \<Rightarrow> MsgBuffer result" where
  "HasWritten len b =
     (if len \<le> WritableBytes b then Inr (b\<lparr>mb_tail := mb_tail b + len\<rparr>) else Inl AssertFailed)"

definition Unwrite :: "nat \<Rightarrow> MsgBuffer \<Rightarrow> MsgBuffer result" where
  "Unwrite offset b =
     (if ReadableBytes b \<ge> offset then Inr (b\<lparr>mb_tail := mb_tail b - offset\<rparr>) else Inl AssertFailed)"

text \<open>
  \<open>operator[]\<close>. Its assertion is \<open>ReadableBytes() >= offset\<close>, one too weak: the offset
  \<open>ReadableBytes()\<close> passes it and the access is to the vector, which may end there.
\<close>

definition MsgBuffer_at :: "MsgBuffer \<Rightarrow> nat \<Rightarrow> u8 result" where
  "MsgBuffer_at b offset =
     (if ReadableBytes b \<ge> offset then nth_checked (mb_buffer b) (mb_head b + offset)
      else Inl AssertFailed)"

text \<open>
  \<open>ReadFd\<close>: \<open>readv\<close> is the system call, given as the function from the two block sizes to
  an error number or the bytes it delivered, the first \<open>writable\<close> of them into the
  vector, the rest into \<open>extBuffer\<close>. The result is the new buffer with \<open>n\<close> or the
  error.
\<close>

definition ReadFd :: "(nat \<Rightarrow> nat \<Rightarrow> int + bytes) \<Rightarrow> MsgBuffer \<Rightarrow> (MsgBuffer \<times> (int + nat)) result" where
  "ReadFd readv b =
     (let writable = WritableBytes b;
          ext = (if writable < 8192 then 8192 else 0)
      in case readv writable ext of
           Inl e \<Rightarrow> Inr (b, Inl e)
         | Inr d \<Rightarrow>
             (let n = length d; b' = b\<lparr>mb_buffer := blit (mb_buffer b) (mb_tail b) (take writable d)\<rparr>
              in if n \<le> writable then Inr (b'\<lparr>mb_tail := mb_tail b + n\<rparr>, Inr n)
                 else rbind (MsgBuffer_Append (drop writable d) (b'\<lparr>mb_tail := length (mb_buffer b)\<rparr>))
                        (\<lambda>b''. Inr (b'', Inr n))))"

section \<open>The invariant\<close>

text \<open>
  The indices are ordered and inside the vector, and the vector keeps room for the
  \<open>kBufferOffset\<close> reserved bytes. The last needs \<open>initCap_ \<ge> 8\<close>, because
  \<open>RetrieveAll\<close> shrinks the vector to \<open>initCap_\<close> bytes and then sets both indices to 8;
  the project constructs buffers with the default 2048 only.
\<close>

definition mb_inv :: "MsgBuffer \<Rightarrow> bool" where
  "mb_inv b \<longleftrightarrow>
     mb_head b \<le> mb_tail b \<and> mb_tail b \<le> length (mb_buffer b) \<and>
     kBufferOffset \<le> mb_initCap b \<and> kBufferOffset \<le> length (mb_buffer b)"

named_theorems mb_simps "sizes and contents of a buffer after an operation"

lemma mb_inv_new [mb_simps]: "kBufferOffset \<le> len \<Longrightarrow> mb_inv (MsgBuffer_new len)"
  by (simp add: mb_inv_def MsgBuffer_new_def)

lemma buf_contents_new [simp, mb_simps]: "buf_contents (MsgBuffer_new len) = []"
  by (simp add: buf_contents_def MsgBuffer_new_def)

lemma length_buf_contents [simp, mb_simps]: "mb_inv b \<Longrightarrow> length (buf_contents b) = ReadableBytes b"
  by (auto simp: mb_inv_def buf_contents_def ReadableBytes_def min_def)

lemma mb_inv_RetrieveAll [simp, mb_simps]: "mb_inv b \<Longrightarrow> mb_inv (RetrieveAll b)"
  by (auto simp: mb_inv_def RetrieveAll_def Let_def buffer_resize_def)

lemma buf_contents_RetrieveAll [simp, mb_simps]: "buf_contents (RetrieveAll b) = []"
  by (simp add: buf_contents_def RetrieveAll_def Let_def)

lemma Retrieve_inv [simp, mb_simps]: "mb_inv b \<Longrightarrow> mb_inv (Retrieve n b)"
  using mb_inv_RetrieveAll [of b]
  by (auto simp: Retrieve_def ReadableBytes_def mb_inv_def)

lemma Retrieve_contents [simp, mb_simps]:
  assumes "mb_inv b"
  shows "buf_contents (Retrieve n b) = drop n (buf_contents b)"
proof (cases "n \<ge> ReadableBytes b")
  case True
  with assms show ?thesis by (simp add: Retrieve_def)
next
  case False
  then show ?thesis
    by (simp add: Retrieve_def buf_contents_def ReadableBytes_def drop_take add.commute)
qed

lemma raw_append_ok:
  assumes "mb_inv b" and "length d \<le> WritableBytes b"
  shows "\<exists>b'. raw_append d b = Inr b' \<and> mb_inv b' \<and> buf_contents b' = buf_contents b @ d"
  using assms
  by (auto simp: raw_append_def mb_inv_def WritableBytes_def buf_contents_def blit_extend)

lemma EnsureWritableBytes_ok:
  assumes "mb_inv b"
  shows "\<exists>b'. EnsureWritableBytes len b = Inr b' \<and> mb_inv b' \<and>
           buf_contents b' = buf_contents b \<and> len \<le> WritableBytes b'"
proof -
  note len = length_buf_contents [OF assms]
  consider (room) "WritableBytes b \<ge> len"
    | (move) "WritableBytes b < len" "mb_head b + WritableBytes b \<ge> len + kBufferOffset"
    | (grow) "WritableBytes b < len" "\<not> mb_head b + WritableBytes b \<ge> len + kBufferOffset"
    by linarith
  then show ?thesis
  proof cases
    case room
    with assms show ?thesis by (simp add: EnsureWritableBytes_def)
  next
    case move
    with assms len have fits: "kBufferOffset + length (buf_contents b) \<le> length (mb_buffer b)"
      by (auto simp: mb_inv_def WritableBytes_def ReadableBytes_def)
    have "take (mb_tail b - mb_head b)
            (drop kBufferOffset (blit (mb_buffer b) kBufferOffset (buf_contents b))) = buf_contents b"
      using fits len blit_read [of kBufferOffset "mb_buffer b" "buf_contents b"]
      by (simp add: ReadableBytes_def)
    with move assms len fits show ?thesis
      by (auto simp: EnsureWritableBytes_def mb_inv_def WritableBytes_def ReadableBytes_def
          buf_contents_def)
  next
    case grow
    define n where "n = (if length (mb_buffer b) * 2 > kBufferOffset + ReadableBytes b + len
                         then length (mb_buffer b) * 2 else kBufferOffset + ReadableBytes b + len)"
    have n: "kBufferOffset + ReadableBytes b + len \<le> n" by (simp add: n_def)
    have inv: "mb_inv (MsgBuffer_new n)" using n by (intro mb_inv_new) simp
    have room: "WritableBytes (MsgBuffer_new n) = n"
      by (simp add: WritableBytes_def MsgBuffer_new_def)
    have "raw_append (buf_contents b) (MsgBuffer_new n) = EnsureWritableBytes len b"
      using grow by (simp add: EnsureWritableBytes_def n_def Let_def)
    moreover obtain b' where b': "raw_append (buf_contents b) (MsgBuffer_new n) = Inr b'"
      "mb_inv b'" "buf_contents b' = buf_contents b"
      using raw_append_ok [OF inv, of "buf_contents b"] n len room by auto
    moreover have "len \<le> WritableBytes b'"
      using b'(1) n len
      by (auto simp: raw_append_def MsgBuffer_new_def WritableBytes_def split: if_splits)
    ultimately show ?thesis by metis
  qed
qed

lemma Append_ok:
  assumes "mb_inv b"
  shows "\<exists>b'. MsgBuffer_Append d b = Inr b' \<and> mb_inv b' \<and> buf_contents b' = buf_contents b @ d"
proof -
  obtain b1 where b1: "EnsureWritableBytes (length d) b = Inr b1" "mb_inv b1"
    "buf_contents b1 = buf_contents b" "length d \<le> WritableBytes b1"
    using EnsureWritableBytes_ok [OF assms] by blast
  with raw_append_ok [OF b1(2,4)] show ?thesis
    by (auto simp: MsgBuffer_Append_def)
qed

lemma AddInFront_ok:
  assumes "mb_inv b"
  shows "\<exists>b'. AddInFront d b = Inr b' \<and> mb_inv b' \<and> buf_contents b' = d @ buf_contents b"
proof -
  note len = length_buf_contents [OF assms]
  consider (front) "mb_head b \<ge> length d"
    | (shift) "mb_head b < length d" "length d \<le> WritableBytes b"
    | (grow) "mb_head b < length d" "WritableBytes b < length d"
    by linarith
  then show ?thesis
  proof cases
    case front
    then show ?thesis using assms
      by (auto simp: AddInFront_def mb_inv_def buf_contents_def blit_def drop_take)
  next
    case shift
    let ?b1 = "blit (mb_buffer b) (mb_head b + length d) (buf_contents b)"
    from shift assms have h: "mb_head b + length d + length (buf_contents b) \<le> length (mb_buffer b)"
      using len by (auto simp: mb_inv_def WritableBytes_def ReadableBytes_def)
    have "blit ?b1 (mb_head b) d =
            take (mb_head b) (mb_buffer b) @ d @ buf_contents b
            @ drop (mb_head b + length d + length (buf_contents b)) (mb_buffer b)"
      using h by (simp add: blit_def add.commute min_def)
    moreover have "mb_tail b + length d - mb_head b = length d + length (buf_contents b)"
      using assms len by (auto simp: mb_inv_def ReadableBytes_def)
    ultimately have "buf_contents (b\<lparr>mb_buffer := blit ?b1 (mb_head b) d, mb_tail := mb_tail b + length d\<rparr>)
        = d @ buf_contents b"
      using h by (simp add: buf_contents_def)
    moreover have "mb_inv (b\<lparr>mb_buffer := blit ?b1 (mb_head b) d, mb_tail := mb_tail b + length d\<rparr>)"
      using shift assms h len by (auto simp: mb_inv_def WritableBytes_def)
    ultimately show ?thesis using shift by (simp add: AddInFront_def)
  next
    case grow
    define n where "n = (if length d + ReadableBytes b < mb_initCap b then mb_initCap b
                         else length d + ReadableBytes b)"
    have "kBufferOffset \<le> n" using assms by (auto simp: n_def mb_inv_def)
    then obtain b1 where b1: "MsgBuffer_Append d (MsgBuffer_new n) = Inr b1" "mb_inv b1"
      "buf_contents b1 = d"
      using Append_ok [OF mb_inv_new, of n d] by auto
    with Append_ok [OF b1(2), of "buf_contents b"] grow show ?thesis
      by (auto simp: AddInFront_def n_def Let_def)
  qed
qed

section \<open>The buffer as a byte stream\<close>

interpretation mbs: byte_stream MsgBuffer_Append Retrieve buf_contents mb_inv
  by unfold_locales (simp_all add: Append_ok)

lemma ReadableBytes_contents: "mb_inv b \<Longrightarrow> ReadableBytes b = length (buf_contents b)"
  by simp

lemma Read_spec:
  assumes "mb_inv b"
  shows "fst (MsgBuffer_Read n b) = take n (buf_contents b)"
    and "buf_contents (snd (MsgBuffer_Read n b)) = drop n (buf_contents b)"
    and "mb_inv (snd (MsgBuffer_Read n b))"
  using assms by (auto simp: MsgBuffer_Read_def Let_def)

text \<open>The integer readers succeed exactly when the bytes are there, and never read past them.\<close>

lemma PeekInt_ok:
  assumes "mb_inv b"
  shows "is_ok (PeekInt8 b) \<longleftrightarrow> 1 \<le> length (buf_contents b)"
    and "is_ok (PeekInt16 b) \<longleftrightarrow> 2 \<le> length (buf_contents b)"
    and "is_ok (PeekInt32 b) \<longleftrightarrow> 4 \<le> length (buf_contents b)"
    and "is_ok (PeekInt64 b) \<longleftrightarrow> 8 \<le> length (buf_contents b)"
  using assms by (auto simp: PeekInt8_def PeekInt16_def PeekInt32_def PeekInt64_def read_ok_iff)

text \<open>What a reader of a front item returns, for the four widths.\<close>

lemma PeekInt_front:
  assumes "mb_inv b"
  shows "buf_contents b = v8 # r \<Longrightarrow> PeekInt8 b = Inr v8"
    and "buf_contents b = WriteUint16T v16 @ r \<Longrightarrow> PeekInt16 b = Inr v16"
    and "buf_contents b = WriteUint32T v32 @ r \<Longrightarrow> PeekInt32 b = Inr v32"
    and "buf_contents b = hton64_bytes v64 @ r \<Longrightarrow> PeekInt64 b = Inr v64"
  using ReadableBytes_contents [OF assms]
  by (auto simp: PeekInt8_def PeekInt16_def PeekInt32_def PeekInt64_def)

lemma ReadInt_ok:
  assumes "mb_inv b"
  shows "buf_contents b = v8 # r \<Longrightarrow> ReadInt8 b = Inr (v8, Retrieve 1 b)"
    and "buf_contents b = WriteUint16T v16 @ r \<Longrightarrow> ReadInt16 b = Inr (v16, Retrieve 2 b)"
    and "buf_contents b = WriteUint32T v32 @ r \<Longrightarrow> ReadInt32 b = Inr (v32, Retrieve 4 b)"
    and "buf_contents b = hton64_bytes v64 @ r \<Longrightarrow> ReadInt64 b = Inr (v64, Retrieve 8 b)"
  using PeekInt_front [OF assms]
  by (simp_all add: ReadInt8_def ReadInt16_def ReadInt32_def ReadInt64_def)

section \<open>Finding the line end\<close>

definition crlf_at :: "bytes \<Rightarrow> nat \<Rightarrow> bool" where
  "crlf_at d i \<longleftrightarrow> i + 1 < length d \<and> d ! i = 13 \<and> d ! (i + 1) = 10"

lemma crlf_at_Cons: "crlf_at (a # d) (Suc i) \<longleftrightarrow> crlf_at d i"
  by (simp add: crlf_at_def)

lemma search_crlf_Some: "search_crlf d = Some i \<Longrightarrow> crlf_at d i \<and> (\<forall>j < i. \<not> crlf_at d j)"
proof (induction d arbitrary: i rule: search_crlf.induct)
  case (1 a b r)
  show ?case
  proof (cases "a = 13 \<and> b = 10")
    case True
    with 1 show ?thesis by (simp add: crlf_at_def)
  next
    case False
    with "1.prems" obtain k where k: "search_crlf (b # r) = Some k" "i = Suc k" by auto
    have "\<not> crlf_at (a # b # r) 0" using False by (simp add: crlf_at_def)
    then show ?thesis
      using "1.IH" [OF False k(1)] k(2) by (auto simp: crlf_at_Cons less_Suc_eq_0_disj)
  qed
qed auto

lemma search_crlf_None: "search_crlf d = None \<Longrightarrow> \<not> crlf_at d i"
proof (induction d arbitrary: i rule: search_crlf.induct)
  case (1 a b r)
  then have "\<not> (a = 13 \<and> b = 10)" by (auto split: if_splits)
  with 1 show ?case by (cases i) (auto simp: crlf_at_Cons crlf_at_def)
qed (auto simp: crlf_at_def)

section \<open>Reading from the socket\<close>

text \<open>
  A \<open>readv\<close> that keeps its documented promise, to deliver no more than the two blocks
  hold, appends exactly the delivered bytes; an error leaves the buffer as it was.
\<close>

lemma ReadFd_ok:
  assumes inv: "mb_inv b"
    and readv: "\<And>w e d. readv w e = Inr d \<Longrightarrow> length d \<le> w + e"
  shows "(\<exists>e. ReadFd readv b = Inr (b, Inl e)) \<or>
         (\<exists>d b'. ReadFd readv b = Inr (b', Inr (length d)) \<and> mb_inv b' \<and>
            buf_contents b' = buf_contents b @ d)"
proof (cases "readv (WritableBytes b) (if WritableBytes b < 8192 then 8192 else 0)")
  case (Inl e)
  then show ?thesis by (simp add: ReadFd_def Let_def)
next
  case (Inr d)
  let ?w = "WritableBytes b"
  let ?d = "take ?w d"
  let ?b = "b\<lparr>mb_buffer := blit (mb_buffer b) (mb_tail b) ?d, mb_tail := mb_tail b + length ?d\<rparr>"
  have fits: "mb_tail b + length ?d \<le> length (mb_buffer b)"
    using inv by (auto simp: mb_inv_def WritableBytes_def)
  have b1: "mb_inv ?b" "buf_contents ?b = buf_contents b @ ?d"
    using raw_append_ok [OF inv, of ?d] fits by (auto simp: raw_append_def WritableBytes_def)
  show ?thesis
  proof (cases "length d \<le> ?w")
    case True
    with b1 Inr show ?thesis by (auto simp: ReadFd_def Let_def)
  next
    case False
    then have tail: "mb_tail b + length ?d = length (mb_buffer b)"
      using inv by (auto simp: mb_inv_def WritableBytes_def)
    obtain b' where b': "MsgBuffer_Append (drop ?w d) ?b = Inr b'" "mb_inv b'"
      "buf_contents b' = buf_contents b @ d"
      using Append_ok [OF b1(1), of "drop ?w d"] b1(2) by auto
    then show ?thesis
      using False Inr tail by (auto simp: ReadFd_def Let_def)
  qed
qed

end
