(* ===== verification/RtmpHandShake.thy ===== *)
theory RtmpHandShake
  imports MsgBuffer
begin

text \<open>
  The RTMP handshake, \<open>mmedia/rtmp/RtmpHandShake.cc\<close>: the digest arithmetic, the packets
  C1/S1 and C2/S2, and the state machine that client and server run.

  Outside the repository: HMAC-SHA256 (OpenSSL) is the parameter \<open>hmac key message\<close>, the
  random device is \<open>rnd i\<close>, the i-th byte drawn for a packet, and the clock is \<open>now\<close>.
  What the code relies on from HMAC is that a digest has 32 bytes, the hypothesis
  \<open>hmac_len\<close> of the theorems that need it.
\<close>

type_synonym hmac = "bytes \<Rightarrow> bytes \<Rightarrow> bytes"

definition hmac_len :: "hmac \<Rightarrow> bool" where
  "hmac_len h \<longleftrightarrow> (\<forall>k m. length (h k m) = 32)"

definition kRtmpHandShakePacketSize :: nat where
  "kRtmpHandShakePacketSize = 1536"

definition rtmp_server_ver :: bytes where
  "rtmp_server_ver = [0x0D, 0x0E, 0x0A, 0x0D]"

definition rtmp_client_ver :: bytes where
  "rtmp_client_ver = [0x0C, 0x00, 0x0D, 0x0E]"

definition rtmp_key_tail :: bytes where
  "rtmp_key_tail =
     [0xF0, 0xEE, 0xC2, 0x4A, 0x80, 0x68, 0xBE, 0xE8, 0x2E, 0x00, 0xD0, 0xD1, 0x02,
      0x9E, 0x7E, 0x57, 0x6E, 0xEC, 0x5D, 0x2D, 0x29, 0x80, 0x6F, 0xAB, 0x93, 0xB8,
      0xE6, 0x36, 0xCF, 0xEB, 0x31, 0xAE]"

definition rtmp_player_key :: bytes where
  "rtmp_player_key = bytes_of_string ''Genuine Adobe Flash Player 001'' @ rtmp_key_tail"

definition rtmp_server_key :: bytes where
  "rtmp_server_key = bytes_of_string ''Genuine Adobe Flash Media Server 001'' @ rtmp_key_tail"

text \<open>\<open>PLAYER_KEY_OPEN_PART_LEN\<close> and \<open>SERVER_KEY_OPEN_PART_LEN\<close> bytes of the keys.\<close>

definition player_open_key :: bytes where
  "player_open_key = take 30 rtmp_player_key"

definition server_open_key :: bytes where
  "server_open_key = take 36 rtmp_server_key"

section \<open>Digests\<close>

definition CalculateDigest :: "hmac \<Rightarrow> bytes \<Rightarrow> nat \<Rightarrow> nat \<Rightarrow> bytes \<Rightarrow> bytes" where
  "CalculateDigest hmac src len gap key =
     (if gap = 0 then hmac key (take len src)
      else hmac key (take gap src @ take (len - gap - 32) (drop (gap + 32) src)))"

definition VerifyDigest :: "hmac \<Rightarrow> bytes \<Rightarrow> nat \<Rightarrow> bytes \<Rightarrow> bool" where
  "VerifyDigest hmac buf digest_pos key \<longleftrightarrow>
     take 32 (drop digest_pos buf) = CalculateDigest hmac buf 1536 digest_pos key"

definition GetDigestOffset :: "bytes \<Rightarrow> nat \<Rightarrow> nat \<Rightarrow> nat" where
  "GetDigestOffset buf off mod_val =
     (unat (buf ! off) + unat (buf ! (off + 1)) + unat (buf ! (off + 2)) + unat (buf ! (off + 3)))
       mod mod_val + (off + 4)"

section \<open>State\<close>

datatype RtmpHandShakeState =
    kHandShakeInit
  | kHandShakePostC0C1 | kHandShakeWaitS0S1 | kHandShakePostC2 | kHandShakeWaitS2 | kHandShakeDoning
  | kHandShakeWaitC0C1 | kHandShakePostS0S1 | kHandShakePostS2 | kHandShakeWaitC2
  | kHandShakeDone

record RtmpHandShake =
  hs_client :: bool
  hs_complex :: bool
  hs_digest :: bytes
  hs_C1S1 :: bytes
  hs_C2S2 :: bytes
  hs_state :: RtmpHandShakeState

definition RtmpHandShake_new :: "bool \<Rightarrow> RtmpHandShake" where
  "RtmpHandShake_new client =
     \<lparr>hs_client = client, hs_complex = True, hs_digest = replicate 32 0,
      hs_C1S1 = replicate 1537 0, hs_C2S2 = replicate 1536 0, hs_state = kHandShakeInit\<rparr>"

section \<open>Packets\<close>

text \<open>
  C1 or S1: random bytes, version 3, zero time, the version field, and in complex mode the
  digest of the packet at the offset that four of the random bytes select.
\<close>

definition CreateC1S1 :: "hmac \<Rightarrow> (nat \<Rightarrow> u8) \<Rightarrow> RtmpHandShake \<Rightarrow> RtmpHandShake" where
  "CreateC1S1 hmac rnd hs =
     (let c = blit (blit (map rnd [0..<1537]) 0 [3]) 1 (replicate 4 0)
      in if \<not> hs_complex hs then hs\<lparr>hs_C1S1 := blit c 5 (replicate 4 0)\<rparr>
         else let offset = GetDigestOffset (drop 1 c) 8 728;
                  c' = blit c 5 (if hs_client hs then rtmp_client_ver else rtmp_server_ver);
                  d = CalculateDigest hmac (drop 1 c') 1536 offset
                        (if hs_client hs then player_open_key else server_open_key)
              in hs\<lparr>hs_C1S1 := blit c' (1 + offset) d, hs_digest := d\<rparr>)"

text \<open>
  \<open>CheckC1S1\<close>: the offset of the digest, 0 in simple mode, \<open>-1\<close> on failure; a zero version
  field switches the object to simple mode. \<open>bytes\<close> is \<open>1537\<close> at both calls.
\<close>

definition CheckC1S1 :: "hmac \<Rightarrow> bytes \<Rightarrow> int \<Rightarrow> RtmpHandShake \<Rightarrow> int \<times> RtmpHandShake" where
  "CheckC1S1 hmac data len hs =
     (if len \<noteq> 1537 then (-1, hs)
      else if data ! 0 \<noteq> 3 then (-1, hs)
      else if take 4 (drop 5 data) = [0, 0, 0, 0] then (0, hs\<lparr>hs_complex := False\<rparr>)
      else if hs_complex hs
      then (let handshake = drop 1 data;
                key = (if hs_client hs then server_open_key else player_open_key);
                off1 = GetDigestOffset handshake 8 728;
                off2 = GetDigestOffset handshake 772 728
            in if VerifyDigest hmac handshake off1 key then (int off1, hs)
               else if VerifyDigest hmac handshake off2 key then (int off2, hs)
               else (-1, hs))
      else (-1, hs))"

definition CreateC2S2 :: "hmac \<Rightarrow> (nat \<Rightarrow> u8) \<Rightarrow> u64 \<Rightarrow> bytes \<Rightarrow> nat \<Rightarrow> RtmpHandShake \<Rightarrow> RtmpHandShake" where
  "CreateC2S2 hmac rnd now data offset hs =
     (let c = blit (map rnd [0..<1536]) 0 (take 8 data);
          c = blit c 0 (WriteUint32T (ucast now))
      in if hs_complex hs
         then (let digest = CalculateDigest hmac (drop offset data) 32 0
                              (if hs_client hs then rtmp_player_key else rtmp_server_key)
               in hs\<lparr>hs_C2S2 := blit c 1504 (CalculateDigest hmac c 1504 0 digest)\<rparr>)
         else hs\<lparr>hs_C2S2 := c\<rparr>)"

definition CheckC2S2 :: "bytes \<Rightarrow> nat \<Rightarrow> bool" where
  "CheckC2S2 data len = True"

section \<open>The state machine\<close>

text \<open>
  What the handshake does to its connection: the byte blocks it passes to \<open>Send\<close>, in
  order. \<open>Start\<close>, \<open>HandShake\<close> and \<open>WriteComplete\<close> return them with the new state.
\<close>

definition SendC1S1 :: "RtmpHandShake \<Rightarrow> bytes list" where
  "SendC1S1 hs = [take 1537 (hs_C1S1 hs)]"

definition SendC2S2 :: "RtmpHandShake \<Rightarrow> bytes list" where
  "SendC2S2 hs = [take 1536 (hs_C2S2 hs)]"

definition HandShake_Start :: "hmac \<Rightarrow> (nat \<Rightarrow> u8) \<Rightarrow> RtmpHandShake \<Rightarrow> RtmpHandShake \<times> bytes list" where
  "HandShake_Start hmac rnd hs =
     (let hs = CreateC1S1 hmac rnd hs
      in if hs_client hs then (hs\<lparr>hs_state := kHandShakePostC0C1\<rparr>, SendC1S1 hs)
         else (hs\<lparr>hs_state := kHandShakeWaitC0C1\<rparr>, []))"

text \<open>
  \<open>HandShake(buf)\<close> returns 0 (done), 1 (more data needed) or -1 (error), with the new
  object, the buffer after its \<open>Retrieve\<close>s and what was sent.
\<close>

definition HandShake ::
  "hmac \<Rightarrow> (nat \<Rightarrow> u8) \<Rightarrow> u64 \<Rightarrow> RtmpHandShake \<Rightarrow> MsgBuffer \<Rightarrow>
     int \<times> RtmpHandShake \<times> MsgBuffer \<times> bytes list" where
  "HandShake hmac rnd now hs buf =
     (case hs_state hs of
        kHandShakeWaitC0C1 \<Rightarrow>
          if ReadableBytes buf < 1537 then (1, hs, buf, [])
          else (case CheckC1S1 hmac (buf_contents buf) 1537 hs of (offset, hs1) \<Rightarrow>
            if offset \<ge> 0
            then let hs2 = CreateC2S2 hmac rnd now (drop 1 (buf_contents buf)) (nat offset) hs1;
                     hs3 = hs2\<lparr>hs_state := kHandShakePostS0S1\<rparr>
                 in (1, hs3, Retrieve 1537 buf, SendC1S1 hs3)
            else (-1, hs1, buf, []))
      | kHandShakeWaitC2 \<Rightarrow>
          if ReadableBytes buf < 1536 then (1, hs, buf, [])
          else if CheckC2S2 (buf_contents buf) 1536
          then (0, hs\<lparr>hs_state := kHandShakeDone\<rparr>, Retrieve 1536 buf, [])
          else (-1, hs, buf, [])
      | kHandShakeWaitS0S1 \<Rightarrow>
          if ReadableBytes buf < 1537 then (1, hs, buf, [])
          else (case CheckC1S1 hmac (buf_contents buf) 1537 hs of (offset, hs1) \<Rightarrow>
            if offset \<ge> 0
            then let hs2 = CreateC2S2 hmac rnd now (drop 1 (buf_contents buf)) (nat offset) hs1;
                     buf1 = Retrieve 1537 buf
                 in if ReadableBytes buf1 = 1536
                    then (0, hs2\<lparr>hs_state := kHandShakeDoning\<rparr>, Retrieve 1536 buf1, SendC2S2 hs2)
                    else (1, hs2\<lparr>hs_state := kHandShakePostC2\<rparr>, buf1, SendC2S2 hs2)
            else (-1, hs1, buf, []))
      | kHandShakeWaitS2 \<Rightarrow> (0, hs\<lparr>hs_state := kHandShakeDone\<rparr>, Retrieve 1536 buf, [])
      | _ \<Rightarrow> (1, hs, buf, []))"

definition HandShake_WriteComplete :: "RtmpHandShake \<Rightarrow> RtmpHandShake \<times> bytes list" where
  "HandShake_WriteComplete hs =
     (case hs_state hs of
        kHandShakePostS0S1 \<Rightarrow> (hs\<lparr>hs_state := kHandShakePostS2\<rparr>, SendC2S2 hs)
      | kHandShakePostS2 \<Rightarrow> (hs\<lparr>hs_state := kHandShakeWaitC2\<rparr>, [])
      | kHandShakePostC0C1 \<Rightarrow> (hs\<lparr>hs_state := kHandShakeWaitS0S1\<rparr>, [])
      | kHandShakePostC2 \<Rightarrow> (hs\<lparr>hs_state := kHandShakeWaitC2\<rparr>, [])
      | kHandShakeDoning \<Rightarrow> (hs\<lparr>hs_state := kHandShakeDone\<rparr>, [])
      | _ \<Rightarrow> (hs, []))"

section \<open>The digest window\<close>

text \<open>
  Wherever the random bytes put the digest, its 32 bytes lie inside the 1536 bytes of the
  packet and after the four bytes that select it, for both layouts of the packet.
\<close>

lemma GetDigestOffset_bounds:
  "12 \<le> GetDigestOffset buf 8 728 \<and> GetDigestOffset buf 8 728 + 32 \<le> 1536"
  "776 \<le> GetDigestOffset buf 772 728 \<and> GetDigestOffset buf 772 728 + 32 \<le> 1536"
proof -
  have m: "n mod 728 \<le> 727" for n :: nat
    using mod_less_divisor [of 728 n] by linarith
  show "12 \<le> GetDigestOffset buf 8 728 \<and> GetDigestOffset buf 8 728 + 32 \<le> 1536"
    "776 \<le> GetDigestOffset buf 772 728 \<and> GetDigestOffset buf 772 728 + 32 \<le> 1536"
    unfolding GetDigestOffset_def
    using m [of "unat (buf ! 8) + unat (buf ! (8 + 1)) + unat (buf ! (8 + 2)) + unat (buf ! (8 + 3))"]
      m [of "unat (buf ! 772) + unat (buf ! (772 + 1)) + unat (buf ! (772 + 2)) + unat (buf ! (772 + 3))"]
    by linarith+
qed

lemma GetDigestOffset_cong:
  "(\<And>j. off \<le> j \<Longrightarrow> j < off + 4 \<Longrightarrow> a ! j = b ! j) \<Longrightarrow> GetDigestOffset a off m = GetDigestOffset b off m"
  by (simp add: GetDigestOffset_def)

text \<open>Storing the digest at its offset makes the check of the digest succeed.\<close>

lemma VerifyDigest_blit:
  assumes h: "hmac_len hmac" and len: "length p = 1536" and off: "0 < off" "off + 32 \<le> 1536"
  shows "VerifyDigest hmac (blit p off (CalculateDigest hmac p 1536 off key)) off key"
proof -
  define d where "d = CalculateDigest hmac p 1536 off key"
  have d: "length d = 32"
    using h by (simp add: d_def CalculateDigest_def hmac_len_def)
  have "take 32 (drop off (blit p off d)) = d"
    using blit_read [of off p d] off len d by simp
  moreover have "take off (blit p off d) = take off p"
    using off len by (simp add: take_blit)
  moreover have "drop (off + 32) (blit p off d) = drop (off + 32) p"
    using off len d by (simp add: drop_blit_after)
  ultimately show ?thesis
    using off(1) by (simp add: VerifyDigest_def CalculateDigest_def d_def [symmetric])
      (simp add: d_def CalculateDigest_def)
qed

text \<open>The packet that \<open>CreateC1S1\<close> builds in complex mode.\<close>

lemma CreateC1S1_packet:
  fixes rnd :: "nat \<Rightarrow> u8"
  assumes cx: "hs_complex c" and h: "hmac_len hmac"
  defines "P \<equiv> hs_C1S1 (CreateC1S1 hmac rnd c)"
  defines "key \<equiv> (if hs_client c then player_open_key else server_open_key)"
  shows "length P = 1537" and "P ! 0 = 3"
    and "take 4 (drop 5 P) = (if hs_client c then rtmp_client_ver else rtmp_server_ver)"
    and "VerifyDigest hmac (drop 1 P) (GetDigestOffset (drop 1 P) 8 728) key"
    and "hs_client (CreateC1S1 hmac rnd c) = hs_client c" and "hs_complex (CreateC1S1 hmac rnd c)"
    and "hs_state (CreateC1S1 hmac rnd c) = hs_state c"
proof -
  define c0 where "c0 = blit (blit (map rnd [0..<1537]) 0 [3]) 1 (replicate 4 0)"
  define ver where "ver = (if hs_client c then rtmp_client_ver else rtmp_server_ver)"
  define off where "off = GetDigestOffset (drop 1 c0) 8 728"
  define c1 where "c1 = blit c0 5 ver"
  define d where "d = CalculateDigest hmac (drop 1 c1) 1536 off key"
  have ver: "length ver = 4" by (simp add: ver_def rtmp_client_ver_def rtmp_server_ver_def)
  have c0: "length c0 = 1537" "c0 ! 0 = 3"
    by (simp_all add: c0_def nth_blit_before) (simp add: blit_def)
  have c1: "length c1 = 1537" using c0 ver by (simp add: c1_def)
  have d: "length d = 32" using h by (simp add: d_def CalculateDigest_def hmac_len_def)
  have off: "12 \<le> off" "off + 32 \<le> 1536" using GetDigestOffset_bounds(1) by (auto simp: off_def)
  have P: "P = blit c1 (1 + off) d"
    using cx by (simp add: P_def CreateC1S1_def Let_def c0_def c1_def d_def off_def ver_def key_def)
  show len: "length P = 1537" using c1 d off by (simp add: P)
  show "P ! 0 = 3"
    using c0 off ver by (simp add: P nth_blit_before c1_def)
  have "take 4 (drop 5 P) = take 4 (drop 5 c1)"
    using off c1 by (simp add: P drop_blit_before take_blit)
  then show "take 4 (drop 5 P) = (if hs_client c then rtmp_client_ver else rtmp_server_ver)"
    using c0 ver blit_read [of 5 c0 ver] by (simp add: c1_def ver_def)
  have dP: "drop 1 P = blit (drop 1 c1) off d"
    using c1 off by (simp add: P drop_blit_before)
  have "GetDigestOffset (drop 1 P) 8 728 = off"
    unfolding off_def
  proof (rule GetDigestOffset_cong)
    fix j :: nat assume j: "8 \<le> j" "j < 8 + 4"
    have "drop 1 P ! j = P ! (1 + j)"
      using len by simp
    also have "\<dots> = c1 ! (1 + j)"
      using j off c1 by (simp add: P nth_blit_before)
    also have "\<dots> = c0 ! (1 + j)"
      using j c0 ver by (simp add: c1_def nth_blit_after)
    finally show "drop 1 P ! j = drop 1 c0 ! j" using c0 by simp
  qed
  moreover have "VerifyDigest hmac (drop 1 P) off key"
    unfolding dP d_def using off c1 h by (intro VerifyDigest_blit) auto
  ultimately show "VerifyDigest hmac (drop 1 P) (GetDigestOffset (drop 1 P) 8 728) key"
    by simp
  show "hs_client (CreateC1S1 hmac rnd c) = hs_client c" "hs_complex (CreateC1S1 hmac rnd c)"
    "hs_state (CreateC1S1 hmac rnd c) = hs_state c"
    using cx by (simp_all add: CreateC1S1_def Let_def)
qed

text \<open>The check reads the first 1537 bytes only, whatever follows them in the buffer.\<close>

lemma VerifyDigest_take:
  assumes "1536 \<le> length h" and "0 < pos" and "pos + 32 \<le> 1536"
  shows "VerifyDigest hmac (take 1536 h) pos key = VerifyDigest hmac h pos key"
  using assms by (simp add: VerifyDigest_def CalculateDigest_def drop_take min_def)

lemma CheckC1S1_take:
  assumes len: "1537 \<le> length data"
  shows "CheckC1S1 hmac (take 1537 data) 1537 s = CheckC1S1 hmac data 1537 s"
proof -
  have d: "drop 1 (take 1537 data) = take 1536 (drop 1 data)"
    by (simp add: drop_take)
  have o1: "GetDigestOffset (take 1536 (drop 1 data)) 8 728 = GetDigestOffset (drop 1 data) 8 728"
    using len by (intro GetDigestOffset_cong) simp
  have o2: "GetDigestOffset (take 1536 (drop 1 data)) 772 728 = GetDigestOffset (drop 1 data) 772 728"
    using len by (intro GetDigestOffset_cong) simp
  have "VerifyDigest hmac (take 1536 (drop 1 data)) off key = VerifyDigest hmac (drop 1 data) off key"
    if "0 < off" "off + 32 \<le> 1536" for off key
    using that len by (intro VerifyDigest_take) auto
  then have v: "VerifyDigest hmac (take 1536 (drop 1 data)) (GetDigestOffset (drop 1 data) 8 728) key
      = VerifyDigest hmac (drop 1 data) (GetDigestOffset (drop 1 data) 8 728) key"
    "VerifyDigest hmac (take 1536 (drop 1 data)) (GetDigestOffset (drop 1 data) 772 728) key
      = VerifyDigest hmac (drop 1 data) (GetDigestOffset (drop 1 data) 772 728) key" for key
    using GetDigestOffset_bounds [of "drop 1 data"] by auto
  show ?thesis
    unfolding CheckC1S1_def Let_def d o1 o2 v using len by (simp add: drop_take min_def)
qed

text \<open>A peer of the opposite role, still in complex mode, accepts that packet.\<close>

lemma CheckC1S1_CreateC1S1:
  assumes "hmac_len hmac" and "hs_complex c" and "hs_complex s" and "hs_client s \<noteq> hs_client c"
    and "data = hs_C1S1 (CreateC1S1 hmac rnd c) @ rest"
  shows "\<exists>off. CheckC1S1 hmac data 1537 s = (int off, s) \<and> 12 \<le> off \<and> off + 32 \<le> 1536"
proof -
  let ?P = "hs_C1S1 (CreateC1S1 hmac rnd c)"
  note P = CreateC1S1_packet [OF assms(2,1), of rnd]
  have "take 4 (drop 5 ?P) \<noteq> [0, 0, 0, 0]"
    using P(3) by (simp add: rtmp_client_ver_def rtmp_server_ver_def)
  then have "CheckC1S1 hmac ?P 1537 s = (int (GetDigestOffset (drop 1 ?P) 8 728), s)"
    using P(2,4) assms(3,4) by (cases "hs_client c") (simp_all add: CheckC1S1_def Let_def)
  moreover have "CheckC1S1 hmac data 1537 s = CheckC1S1 hmac ?P 1537 s"
    using CheckC1S1_take [of data hmac s] P(1) assms(5) by simp
  ultimately show ?thesis using GetDigestOffset_bounds(1) by metis
qed

section \<open>Reachable states\<close>

text \<open>
  The steps of one endpoint: \<open>Start\<close> in the initial state, then data or a completed write
  in any order, with any bytes and any randomness. \<open>kHandShakeWaitS2\<close>, whose branch of
  \<open>HandShake\<close> takes 1536 bytes without looking whether they are there, is never reached.
\<close>

inductive hs_reach :: "hmac \<Rightarrow> bool \<Rightarrow> RtmpHandShake \<Rightarrow> bool" for hmac client where
  hs_start: "hs_reach hmac client (fst (HandShake_Start hmac rnd (RtmpHandShake_new client)))"
| hs_data: "hs_reach hmac client hs \<Longrightarrow>
     hs_reach hmac client (fst (snd (HandShake hmac rnd now hs buf)))"
| hs_written: "hs_reach hmac client hs \<Longrightarrow>
     hs_reach hmac client (fst (HandShake_WriteComplete hs))"

definition hs_inv :: "bool \<Rightarrow> RtmpHandShake \<Rightarrow> bool" where
  "hs_inv client hs \<longleftrightarrow> hs_client hs = client \<and>
     hs_state hs \<in> (if client
       then {kHandShakePostC0C1, kHandShakeWaitS0S1, kHandShakePostC2, kHandShakeDoning,
             kHandShakeWaitC2, kHandShakeDone}
       else {kHandShakeWaitC0C1, kHandShakePostS0S1, kHandShakePostS2, kHandShakeWaitC2,
             kHandShakeDone})"

lemma CheckC1S1_frame:
  "hs_state (snd (CheckC1S1 hmac data n hs)) = hs_state hs"
  "hs_client (snd (CheckC1S1 hmac data n hs)) = hs_client hs"
  by (auto simp: CheckC1S1_def Let_def)

lemma CreateC2S2_frame [simp]:
  "hs_state (CreateC2S2 hmac rnd now data off hs) = hs_state hs"
  "hs_client (CreateC2S2 hmac rnd now data off hs) = hs_client hs"
  "hs_complex (CreateC2S2 hmac rnd now data off hs) = hs_complex hs"
  "hs_C1S1 (CreateC2S2 hmac rnd now data off hs) = hs_C1S1 hs"
  by (auto simp: CreateC2S2_def Let_def)

lemma CreateC1S1_frame [simp]:
  "hs_client (CreateC1S1 hmac rnd hs) = hs_client hs"
  by (auto simp: CreateC1S1_def Let_def)

lemma HandShake_inv:
  assumes "hs_inv client hs"
  shows "hs_inv client (fst (snd (HandShake hmac rnd now hs buf)))"
proof (cases "CheckC1S1 hmac (buf_contents buf) 1537 hs")
  case (Pair off hs1)
  then have "hs_state hs1 = hs_state hs" "hs_client hs1 = hs_client hs"
    using CheckC1S1_frame [of hmac "buf_contents buf" 1537 hs] by auto
  with assms Pair show ?thesis
    by (auto simp: HandShake_def hs_inv_def Let_def split: RtmpHandShakeState.splits if_splits)
qed

lemma WriteComplete_inv: "hs_inv client hs \<Longrightarrow> hs_inv client (fst (HandShake_WriteComplete hs))"
  by (auto simp: HandShake_WriteComplete_def hs_inv_def split: RtmpHandShakeState.splits if_splits)

lemma hs_reach_inv: "hs_reach hmac client hs \<Longrightarrow> hs_inv client hs"
proof (induction rule: hs_reach.induct)
  case (hs_start rnd)
  then show ?case
    by (simp add: HandShake_Start_def Let_def hs_inv_def RtmpHandShake_new_def)
qed (auto intro: HandShake_inv WriteComplete_inv)

text \<open>The results of \<open>HandShake\<close>: never 2, and 0 only when the object is done or sending C2.\<close>

lemma HandShake_result:
  "fst (HandShake hmac rnd now hs buf) \<in> {0, 1, -1}"
  "fst (HandShake hmac rnd now hs buf) = 0 \<Longrightarrow>
     hs_state (fst (snd (HandShake hmac rnd now hs buf))) \<in> {kHandShakeDone, kHandShakeDoning}"
  by (auto simp: HandShake_def Let_def split: RtmpHandShakeState.splits if_splits prod.splits)

section \<open>A whole handshake\<close>

text \<open>
  Server and client, connected: each \<open>Send\<close> of one side arrives in the other side's
  buffer, and is followed by the sender's write completion. \<open>server_hello\<close> is the server's
  part up to the reply (S0S1 and, after its write completion, S2).
\<close>

definition server_hello ::
  "hmac \<Rightarrow> (nat \<Rightarrow> u8) \<Rightarrow> u64 \<Rightarrow> RtmpHandShake \<Rightarrow> MsgBuffer \<Rightarrow> int \<times> RtmpHandShake \<times> MsgBuffer \<times> bytes" where
  "server_hello hmac rnd now s buf =
     (case HandShake hmac rnd now s buf of (r, s1, buf1, out1) \<Rightarrow>
      (case HandShake_WriteComplete s1 of (s2, out2) \<Rightarrow>
      (case HandShake_WriteComplete s2 of (s3, out3) \<Rightarrow>
        (r, s3, buf1, concat (out1 @ out2 @ out3)))))"

lemma CheckC1S1_frame_C1S1: "hs_C1S1 (snd (CheckC1S1 hmac data n hs)) = hs_C1S1 hs"
  by (auto simp: CheckC1S1_def Let_def)

lemma length_C2S2:
  assumes "hmac_len hmac" and "8 \<le> length data"
  shows "length (hs_C2S2 (CreateC2S2 hmac rnd now data off hs)) = 1536"
proof -
  have "length (blit (blit (map rnd [0..<1536]) 0 (take 8 data)) 0 (WriteUint32T (ucast now))) = 1536"
    using assms(2) by simp
  then show ?thesis
    using assms(1) by (auto simp: CreateC2S2_def Let_def hmac_len_def CalculateDigest_def)
qed

text \<open>The server answers a client's C0C1 with S0S1 and S2, consumes it and waits for C2.\<close>

lemma server_hello_ok:
  assumes h: "hmac_len hmac" and buf: "mb_inv buf"
    and c: "hs_complex c" "hs_client c" and s: "hs_complex s" "\<not> hs_client s"
    and st: "hs_state s = kHandShakeWaitC0C1" and len: "length (hs_C1S1 s) = 1537"
    and data: "buf_contents buf = hs_C1S1 (CreateC1S1 hmac rndc c) @ rest"
  shows "\<exists>s' s2. server_hello hmac rnd now s buf = (1, s', Retrieve 1537 buf, hs_C1S1 s @ s2) \<and>
           length s2 = 1536 \<and> hs_state s' = kHandShakeWaitC2 \<and> hs_client s' = hs_client s"
proof -
  note P = CreateC1S1_packet [OF c(1) h, of rndc]
  obtain off where off: "CheckC1S1 hmac (buf_contents buf) 1537 s = (int off, s)"
    using CheckC1S1_CreateC1S1 [OF h c(1) s(1) _ data] c s by auto
  define s1 where "s1 = CreateC2S2 hmac rnd now (drop 1 (buf_contents buf)) off s"
  have "8 \<le> length (drop 1 (buf_contents buf))" using P(1) data by simp
  then have l2: "length (hs_C2S2 s1) = 1536"
    unfolding s1_def by (rule length_C2S2 [OF h])
  have "HandShake hmac rnd now s buf =
      (1, s1\<lparr>hs_state := kHandShakePostS0S1\<rparr>, Retrieve 1537 buf, [hs_C1S1 s])"
    using st off P(1) data len ReadableBytes_contents [OF buf]
    by (simp add: HandShake_def Let_def s1_def SendC1S1_def)
  then have "server_hello hmac rnd now s buf =
      (1, s1\<lparr>hs_state := kHandShakeWaitC2\<rparr>, Retrieve 1537 buf, hs_C1S1 s @ hs_C2S2 s1)"
    using l2 by (simp add: server_hello_def HandShake_WriteComplete_def SendC2S2_def)
  with l2 show ?thesis by (auto simp: s1_def)
qed

text \<open>
  The client's side: S0S1 accepted, C2 sent. With exactly S2 behind S0S1 the client is done
  at once; otherwise it finishes on the next 1536 bytes, in \<open>kHandShakeWaitC2\<close>.
\<close>

lemma client_reply_ok:
  assumes h: "hmac_len hmac" and buf: "mb_inv buf"
    and s: "hs_complex s" "\<not> hs_client s" and c: "hs_complex c" "hs_client c"
    and st: "hs_state c = kHandShakeWaitS0S1"
    and data: "buf_contents buf = hs_C1S1 (CreateC1S1 hmac rnds s) @ rest"
  shows "\<exists>c' c2. HandShake hmac rnd now c buf =
           (if length rest = 1536
            then (0, c'\<lparr>hs_state := kHandShakeDoning\<rparr>, Retrieve 1536 (Retrieve 1537 buf), [c2])
            else (1, c'\<lparr>hs_state := kHandShakePostC2\<rparr>, Retrieve 1537 buf, [c2])) \<and>
         length c2 = 1536"
proof -
  note P = CreateC1S1_packet [OF s(1) h, of rnds]
  obtain off where off: "CheckC1S1 hmac (buf_contents buf) 1537 c = (int off, c)"
    using CheckC1S1_CreateC1S1 [OF h s(1) c(1) _ data] c s by auto
  define c1 where "c1 = CreateC2S2 hmac rnd now (drop 1 (buf_contents buf)) off c"
  have "8 \<le> length (drop 1 (buf_contents buf))" using P(1) data by simp
  then have l2: "length (hs_C2S2 c1) = 1536"
    unfolding c1_def by (rule length_C2S2 [OF h])
  have r: "ReadableBytes (Retrieve 1537 buf) = length rest"
    using ReadableBytes_contents [OF Retrieve_inv [OF buf]] data P(1) buf by simp
  have "HandShake hmac rnd now c buf =
           (if length rest = 1536
            then (0, c1\<lparr>hs_state := kHandShakeDoning\<rparr>, Retrieve 1536 (Retrieve 1537 buf), [hs_C2S2 c1])
            else (1, c1\<lparr>hs_state := kHandShakePostC2\<rparr>, Retrieve 1537 buf, [hs_C2S2 c1]))"
    using st off P(1) data r l2 ReadableBytes_contents [OF buf]
    by (simp add: HandShake_def Let_def c1_def SendC2S2_def)
  with l2 show ?thesis by blast
qed

lemma wait_C2_ok:
  assumes "mb_inv buf" and "hs_state s = kHandShakeWaitC2" and "1536 \<le> length (buf_contents buf)"
  shows "HandShake hmac rnd now s buf = (0, s\<lparr>hs_state := kHandShakeDone\<rparr>, Retrieve 1536 buf, [])"
  using assms by (simp add: HandShake_def CheckC2S2_def)

text \<open>
  The exchange from \<open>Start\<close> on both sides, through fresh socket buffers; \<open>tail\<close> is what the
  client sends right behind C2. The result is, for client and server, the last return
  value, the final state and the bytes left in the buffer.
\<close>

definition run_handshake ::
  "hmac \<Rightarrow> (nat \<Rightarrow> u8) \<Rightarrow> (nat \<Rightarrow> u8) \<Rightarrow> u64 \<Rightarrow> bytes \<Rightarrow>
     ((int \<times> RtmpHandShakeState \<times> bytes) \<times> (int \<times> RtmpHandShakeState \<times> bytes)) result" where
  "run_handshake hmac rndc rnds now tail =
     (case HandShake_Start hmac rndc (RtmpHandShake_new True) of (c0, out0) \<Rightarrow>
      case HandShake_Start hmac rnds (RtmpHandShake_new False) of (s0, _) \<Rightarrow>
      rbind (MsgBuffer_Append (concat out0) (MsgBuffer_new kBufferDefaultLength)) (\<lambda>sbuf.
      case server_hello hmac rnds now s0 sbuf of (_, s1, sbuf1, reply) \<Rightarrow>
      case HandShake_WriteComplete c0 of (c1, _) \<Rightarrow>
      rbind (MsgBuffer_Append reply (MsgBuffer_new kBufferDefaultLength)) (\<lambda>cbuf.
      case HandShake hmac rndc now c1 cbuf of (rc, c2, cbuf1, out2) \<Rightarrow>
      case HandShake_WriteComplete c2 of (c3, _) \<Rightarrow>
      rbind (MsgBuffer_Append (concat out2 @ tail) sbuf1) (\<lambda>sbuf2.
      case HandShake hmac rnds now s1 sbuf2 of (rs, s2, sbuf3, _) \<Rightarrow>
        Inr ((rc, hs_state c3, buf_contents cbuf1), (rs, hs_state s2, buf_contents sbuf3))))))"

lemma Append_fresh:
  "\<exists>b. MsgBuffer_Append d (MsgBuffer_new kBufferDefaultLength) = Inr b \<and> mb_inv b \<and> buf_contents b = d"
  using Append_ok [OF mb_inv_new, of kBufferDefaultLength d]
  by (simp add: kBufferOffset_def kBufferDefaultLength_def)

lemma Start_facts:
  fixes cl :: bool and rnd :: "nat \<Rightarrow> u8"
  assumes "hmac_len hmac"
  defines "h \<equiv> fst (HandShake_Start hmac rnd (RtmpHandShake_new cl))"
  shows "h = (CreateC1S1 hmac rnd (RtmpHandShake_new cl))\<lparr>hs_state :=
               (if cl then kHandShakePostC0C1 else kHandShakeWaitC0C1)\<rparr>"
    and "concat (snd (HandShake_Start hmac rnd (RtmpHandShake_new cl))) =
           (if cl then hs_C1S1 (CreateC1S1 hmac rnd (RtmpHandShake_new cl)) else [])"
    and "hs_client h = cl" "hs_complex h" "length (hs_C1S1 h) = 1537"
  using CreateC1S1_packet [OF _ assms(1), of "RtmpHandShake_new cl" rnd]
  by (auto simp: h_def HandShake_Start_def Let_def RtmpHandShake_new_def SendC1S1_def)

lemma handshake_run:
  assumes h: "hmac_len hmac"
  shows "run_handshake hmac rndc rnds now tail =
           Inr ((0, kHandShakeDone, []), (0, kHandShakeDone, tail))"
proof -
  obtain c0 out0 where c0: "HandShake_Start hmac rndc (RtmpHandShake_new True) = (c0, out0)"
    by (rule prod.exhaust)
  obtain s0 out1 where s0: "HandShake_Start hmac rnds (RtmpHandShake_new False) = (s0, out1)"
    by (rule prod.exhaust)
  let ?C = "CreateC1S1 hmac rndc (RtmpHandShake_new True)"
  let ?S = "CreateC1S1 hmac rnds (RtmpHandShake_new False)"
  note C = Start_facts [OF h, of rndc True, unfolded c0, simplified]
  note S = Start_facts [OF h, of rnds False, unfolded s0, simplified]
  have new: "hs_complex (RtmpHandShake_new x)" "hs_client (RtmpHandShake_new x) = x" for x
    by (simp_all add: RtmpHandShake_new_def)
  obtain sbuf where sbuf: "MsgBuffer_Append (concat out0) (MsgBuffer_new kBufferDefaultLength) = Inr sbuf"
    "mb_inv sbuf" "buf_contents sbuf = hs_C1S1 ?C @ []"
    using Append_fresh [of "concat out0"] C(2) by auto
  obtain s1 s2 where s1: "server_hello hmac rnds now s0 sbuf = (1, s1, Retrieve 1537 sbuf, hs_C1S1 s0 @ s2)"
    "length s2 = 1536" "hs_state s1 = kHandShakeWaitC2"
    using server_hello_ok [OF h sbuf(2) new(1) _ S(4) _ _ S(5) sbuf(3), of rnds now] new(2) S by auto
  define c1 where "c1 = c0\<lparr>hs_state := kHandShakeWaitS0S1\<rparr>"
  have c1: "HandShake_WriteComplete c0 = (c1, [])"
    using C(1) by (simp add: HandShake_WriteComplete_def c1_def)
  obtain cbuf where cbuf: "MsgBuffer_Append (hs_C1S1 s0 @ s2) (MsgBuffer_new kBufferDefaultLength) = Inr cbuf"
    "mb_inv cbuf" "buf_contents cbuf = hs_C1S1 ?S @ s2"
    using Append_fresh [of "hs_C1S1 s0 @ s2"] S(1) by auto
  obtain c' c2 where c': "HandShake hmac rndc now c1 cbuf =
      (0, c'\<lparr>hs_state := kHandShakeDoning\<rparr>, Retrieve 1536 (Retrieve 1537 cbuf), [c2])" "length c2 = 1536"
    using client_reply_ok [OF h cbuf(2) new(1) _ _ _ _ cbuf(3), of c1 rndc now] new(2) C s1(2)
    by (auto simp: c1_def)
  have "length (hs_C1S1 ?S) = 1537" using S(1,5) by simp
  then have left: "buf_contents (Retrieve 1536 (Retrieve 1537 cbuf)) = []"
    using cbuf s1(2) by simp
  have "buf_contents (Retrieve 1537 sbuf) = []"
    using sbuf C(1,5) by simp
  then obtain sbuf2 where sbuf2: "MsgBuffer_Append (c2 @ tail) (Retrieve 1537 sbuf) = Inr sbuf2"
    "mb_inv sbuf2" "buf_contents sbuf2 = c2 @ tail"
    using Append_ok [OF Retrieve_inv [OF sbuf(2)], of "c2 @ tail" 1537] by auto
  have "HandShake hmac rnds now s1 sbuf2 = (0, s1\<lparr>hs_state := kHandShakeDone\<rparr>, Retrieve 1536 sbuf2, [])"
    using sbuf2 s1(3) c'(2) by (intro wait_C2_ok) auto
  then show ?thesis
    using c0 s0 sbuf(1) s1(1) c1 cbuf(1) c'(1) left sbuf2 c'(2)
    by (simp add: run_handshake_def HandShake_WriteComplete_def)
qed

end
