(* ===== verification/StringUtils.thy ===== *)
theory StringUtils
  imports Prelude "HOL-Library.Sublist"
begin

text \<open>
  \<open>base/StringUtils.cc\<close>: the string helpers the protocol parsers share. A \<open>std::string\<close> is
  a list of characters, \<open>npos\<close> is \<open>None\<close>, and a search from a position is a search in the
  rest of the string.
\<close>

section \<open>Searching\<close>

text \<open>\<open>std::string::find\<close>, \<open>find_first_of\<close> and \<open>find_last_of\<close>.\<close>

fun string_find :: "string \<Rightarrow> string \<Rightarrow> nat option" where
  "string_find d [] = (if d = [] then Some 0 else None)"
| "string_find d (c # s) = (if prefix d (c # s) then Some 0 else map_option Suc (string_find d s))"

fun find_first_of :: "char set \<Rightarrow> string \<Rightarrow> nat option" where
  "find_first_of cs [] = None"
| "find_first_of cs (c # s) = (if c \<in> cs then Some 0 else map_option Suc (find_first_of cs s))"

definition find_last_of :: "char set \<Rightarrow> string \<Rightarrow> nat option" where
  "find_last_of cs s = map_option (\<lambda>i. length s - 1 - i) (find_first_of cs (rev s))"

lemma string_find_Some:
  "string_find d s = Some n \<Longrightarrow>
     n + length d \<le> length s \<and> s = take n s @ d @ drop (n + length d) s \<and>
     (\<forall>m < n. \<not> prefix d (drop m s))"
proof (induction s arbitrary: n)
  case Nil
  then show ?case by (simp split: if_splits)
next
  case (Cons c s)
  show ?case
  proof (cases "prefix d (c # s)")
    case True
    then obtain zs where "c # s = d @ zs" by (auto simp: prefix_def)
    moreover have "n = 0" using Cons.prems True by simp
    ultimately show ?thesis by simp
  next
    case False
    with Cons.prems obtain k where k: "string_find d s = Some k" "n = Suc k" by auto
    have "\<not> prefix d (drop m (c # s))" if "m < n" for m
      using that False Cons.IH [OF k(1)] k(2) by (cases m) auto
    with Cons.IH [OF k(1)] k(2) show ?thesis by auto
  qed
qed

lemma string_find_None: "string_find d s = None \<Longrightarrow> \<not> prefix d (drop m s)"
proof (induction s arbitrary: m)
  case (Cons c s)
  then show ?case by (cases m) (auto split: if_splits)
qed (simp split: if_splits)

lemma string_find_bound: "string_find d s = Some n \<Longrightarrow> n + length d \<le> length s"
  using string_find_Some by blast

text \<open>A string that ends where \<open>d\<close> first occurs, or is short of it, does not contain \<open>d\<close>.\<close>

definition contains :: "string \<Rightarrow> string \<Rightarrow> bool" where
  "contains d s \<longleftrightarrow> string_find d s \<noteq> None"

lemma contains_iff: "contains d s \<longleftrightarrow> (\<exists>m. prefix d (drop m s))"
proof
  assume "contains d s"
  then obtain n where "string_find d s = Some n" by (auto simp: contains_def)
  from string_find_Some [OF this] have "drop n s = d @ drop (n + length d) s"
    by (metis append_eq_conv_conj length_take min_absorb2 add_leD1)
  then show "\<exists>m. prefix d (drop m s)" by (auto simp: prefix_def)
next
  assume "\<exists>m. prefix d (drop m s)"
  then show "contains d s" using string_find_None by (auto simp: contains_def)
qed

section \<open>Predicates and path parts\<close>

definition StartsWith :: "string \<Rightarrow> string \<Rightarrow> bool" where
  "StartsWith s sub =
     (if sub = [] then True
      else if s = [] then False
      else if length sub > length s then False
      else take (length sub) s = sub)"

definition EndsWith :: "string \<Rightarrow> string \<Rightarrow> bool" where
  "EndsWith s sub =
     (if sub = [] then True
      else if s = [] then False
      else if length sub > length s then False
      else drop (length s - length sub) s = sub)"

definition FilePath :: "string \<Rightarrow> string" where
  "FilePath path =
     (case find_last_of {CHR ''/'', CHR 0x5C} path of Some pos \<Rightarrow> take pos path | None \<Rightarrow> ''./'')"

definition FileNameExt :: "string \<Rightarrow> string" where
  "FileNameExt path =
     (case find_last_of {CHR ''/'', CHR 0x5C} path of
        Some pos \<Rightarrow> if pos + 1 < length path then drop (pos + 1) path else path
      | None \<Rightarrow> path)"

definition FileName :: "string \<Rightarrow> string" where
  "FileName path =
     (let file_name = FileNameExt path
      in case find_last_of {CHR ''.''} file_name of
           Some pos \<Rightarrow> if pos \<noteq> 0 then take pos file_name else file_name
         | None \<Rightarrow> file_name)"

definition Extension :: "string \<Rightarrow> string" where
  "Extension path =
     (let file_name = FileNameExt path
      in case find_last_of {CHR ''.''} file_name of
           Some pos \<Rightarrow> if pos \<noteq> 0 \<and> pos + 1 < length file_name then drop (pos + 1) file_name else file_name
         | None \<Rightarrow> file_name)"

lemma StartsWith_iff: "StartsWith s sub \<longleftrightarrow> prefix sub s"
  by (auto simp: StartsWith_def prefix_def) (metis append_take_drop_id)

lemma EndsWith_iff: "EndsWith s sub \<longleftrightarrow> suffix sub s"
  by (auto simp: EndsWith_def suffix_def) (metis append_take_drop_id)

lemma find_first_of_Some:
  "find_first_of cs s = Some n \<Longrightarrow> n < length s \<and> s ! n \<in> cs \<and> (\<forall>m < n. s ! m \<notin> cs)"
proof (induction s arbitrary: n)
  case (Cons c s)
  show ?case
  proof (cases "c \<in> cs")
    case False
    with Cons.prems obtain k where "find_first_of cs s = Some k" "n = Suc k" by auto
    with Cons.IH False show ?thesis by (auto simp: less_Suc_eq_0_disj)
  qed (use Cons.prems in auto)
qed simp

lemma find_first_of_None: "find_first_of cs s = None \<longleftrightarrow> set s \<inter> cs = {}"
  by (induction s) auto

lemma find_last_of_Some:
  assumes "find_last_of cs s = Some n"
  shows "n < length s \<and> s ! n \<in> cs \<and> (\<forall>m. n < m \<and> m < length s \<longrightarrow> s ! m \<notin> cs)"
proof -
  from assms obtain i where i: "find_first_of cs (rev s) = Some i" "n = length s - 1 - i"
    by (auto simp: find_last_of_def)
  note f = find_first_of_Some [OF i(1)]
  have "s ! m \<notin> cs" if "n < m" "m < length s" for m
  proof -
    have "length s - 1 - m < i" using that i(2) f by auto
    with f have "rev s ! (length s - 1 - m) \<notin> cs" by blast
    then show ?thesis using that by (simp add: rev_nth)
  qed
  with f i(2) show ?thesis by (auto simp: rev_nth)
qed

lemma find_last_of_None: "find_last_of cs s = None \<longleftrightarrow> set s \<inter> cs = {}"
  by (simp add: find_last_of_def find_first_of_None)

text \<open>A path with a separator before its last character is its directory and its file name.\<close>

lemma path_split:
  assumes "find_last_of {CHR ''/'', CHR 0x5C} path = Some pos" and "pos + 1 < length path"
  shows "path = FilePath path @ [path ! pos] @ FileNameExt path"
  using assms find_last_of_Some [OF assms(1)]
  by (simp add: FilePath_def FileNameExt_def id_take_nth_drop)

section \<open>Splitting\<close>

text \<open>\<open>SplitString\<close>: the loop from \<open>last\<close> on, as the rest of the string.\<close>

function split_rest :: "string \<Rightarrow> string \<Rightarrow> string list" where
  "split_rest d s =
     (if d = [] then []
      else case string_find d s of
             Some n \<Rightarrow> take n s # split_rest d (drop (n + length d) s)
           | None \<Rightarrow> if s \<noteq> [] then [s] else [])"
  by pat_completeness auto
termination
proof (relation "measure (\<lambda>(_, s). length s)")
  fix d s :: string and n
  assume "d \<noteq> []" and "string_find d s = Some n"
  with string_find_bound [OF this(2)]
  show "((d, drop (n + length d) s), d, s) \<in> measure (\<lambda>(_, s). length s)"
    by (cases d) auto
qed simp

declare split_rest.simps [simp del]

definition SplitString :: "string \<Rightarrow> string \<Rightarrow> string list" where
  "SplitString s delim = (if delim = [] then [] else split_rest delim s)"

text \<open>\<open>SplitStringFSM\<close>: the two states, the string being gathered and the result so far.\<close>

datatype split_state = kStateNormal | kStateDelimiter

function SplitStringFSM_loop :: "split_state \<Rightarrow> string \<Rightarrow> string \<Rightarrow> string list \<Rightarrow> char \<Rightarrow> string list" where
  "SplitStringFSM_loop st [] tmp result delim = (if tmp \<noteq> [] then result @ [tmp] else result)"
| "SplitStringFSM_loop kStateNormal (c # s) tmp result delim =
     (if c = delim then SplitStringFSM_loop kStateDelimiter (c # s) tmp result delim
      else SplitStringFSM_loop kStateNormal s (tmp @ [c]) result delim)"
| "SplitStringFSM_loop kStateDelimiter (c # s) tmp result delim =
     SplitStringFSM_loop kStateNormal s [] (result @ [tmp]) delim"
  by pat_completeness auto
termination
  by (relation "measures [\<lambda>(_, s, _). length s, \<lambda>(st, _). case st of kStateNormal \<Rightarrow> 1 | kStateDelimiter \<Rightarrow> 0]")
    auto

definition SplitStringFSM :: "string \<Rightarrow> char \<Rightarrow> string list" where
  "SplitStringFSM str delim = SplitStringFSM_loop kStateNormal str [] [] delim"

text \<open>The parts joined by the delimiter.\<close>

fun join :: "string \<Rightarrow> string list \<Rightarrow> string" where
  "join d [] = []"
| "join d [p] = p"
| "join d (p # ps) = p @ d @ join d ps"

lemma join_Cons: "ps \<noteq> [] \<Longrightarrow> join d (p # ps) = p @ d @ join d ps"
  by (cases ps) auto

lemma take_no_find:
  assumes "string_find d s = Some n" and "d \<noteq> []"
  shows "\<not> contains d (take n s)"
proof
  assume "contains d (take n s)"
  then obtain m where m: "prefix d (drop m (take n s))" by (auto simp: contains_iff)
  have "length d \<le> length (drop m (take n s))" using m by (rule prefix_length_le)
  with assms(2) have "m < n" by (cases d) auto
  have "prefix (drop m (take n s)) (drop m s)"
    by (metis append_take_drop_id drop_append prefixI append.assoc drop_take take_is_prefix)
  with m have "prefix d (drop m s)" by (rule prefix_order.trans)
  with string_find_Some [OF assms(1)] \<open>m < n\<close> show False by blast
qed

text \<open>
  Splitting loses nothing but a delimiter at the very end, and no part has a delimiter.
\<close>

lemma split_rest_ok:
  assumes "d \<noteq> []"
  shows "s = join d (split_rest d s) \<or> s = join d (split_rest d s) @ d"
    and "\<forall>p \<in> set (split_rest d s). \<not> contains d p"
proof -
  have "(s = join d (split_rest d s) \<or> s = join d (split_rest d s) @ d) \<and>
        (\<forall>p \<in> set (split_rest d s). \<not> contains d p)"
    using assms
  proof (induction d s rule: split_rest.induct)
    case (1 d s)
    show ?case
    proof (cases "string_find d s")
      case None
      with 1(2) show ?thesis by (auto simp: split_rest.simps [of d s] contains_def)
    next
      case (Some n)
      let ?r = "drop (n + length d) s"
      have eq: "split_rest d s = take n s # split_rest d ?r"
        using Some 1(2) by (simp add: split_rest.simps [of d s])
      have IH: "(?r = join d (split_rest d ?r) \<or> ?r = join d (split_rest d ?r) @ d) \<and>
          (\<forall>p \<in> set (split_rest d ?r). \<not> contains d p)"
        using 1 Some by blast
      have s: "s = take n s @ d @ ?r" using string_find_Some [OF Some] by blast
      have "s = join d (split_rest d s) \<or> s = join d (split_rest d s) @ d"
      proof (cases "split_rest d ?r = []")
        case True
        with IH have "?r = [] \<or> ?r = d" by simp
        moreover have "?r \<noteq> d"
        proof
          assume "?r = d"
          moreover have "split_rest d d \<noteq> []"
            using 1(2) by (subst split_rest.simps) (simp split: option.splits)
          ultimately show False using True by simp
        qed
        ultimately show ?thesis using s True eq by simp
      next
        case False
        with IH s eq show ?thesis by (metis append.assoc join_Cons)
      qed
      with eq IH take_no_find [OF Some 1(2)] show ?thesis by auto
    qed
  qed
  then show "s = join d (split_rest d s) \<or> s = join d (split_rest d s) @ d"
    and "\<forall>p \<in> set (split_rest d s). \<not> contains d p" by blast+
qed

text \<open>The state machine computes the same as the search loop for a one-character delimiter.\<close>

lemma string_find_char:
  "c \<notin> set t \<Longrightarrow> string_find [c] (t @ c # s) = Some (length t)"
  "c \<notin> set t \<Longrightarrow> string_find [c] t = None"
  by (induction t) (auto simp: prefix_def)

lemma FSM_loop_eq:
  assumes "delim \<notin> set tmp"
  shows "SplitStringFSM_loop kStateNormal s tmp result delim = result @ split_rest [delim] (tmp @ s)"
  using assms
proof (induction s arbitrary: tmp result)
  case Nil
  then show ?case by (simp add: split_rest.simps [of "[delim]" tmp] string_find_char)
next
  case (Cons c s)
  show ?case
  proof (cases "c = delim")
    case True
    with Cons.IH [of "[]"] Cons.prems show ?thesis
      by (simp add: split_rest.simps [of "[delim]" "tmp @ delim # s"] string_find_char)
  next
    case False
    with Cons.IH [of "tmp @ [c]"] Cons.prems show ?thesis by simp
  qed
qed

end
