(* ===== verification/RtmpContext.thy ===== *)
theory RtmpContext
  imports RtmpQueue Amf RtmpHandShake StringUtils
begin

text \<open>
  The RTMP session of one connection: class \<open>RtmpContext\<close> of \<open>mmedia/rtmp/RtmpContext.cc\<close>,
  with its receiving and sending fields, the handshake, the message handlers and the AMF
  commands.

  Calls that leave the component are recorded in \<open>rc_events\<close>, in their order: what is
  passed to \<open>connection_->Send\<close>, the callbacks of the \<open>RtmpHandler\<close>, and
  \<open>connection_->ForceClose\<close>. What a callback does to the context in turn (\<open>BuildChunk\<close>,
  \<open>Send\<close>) are operations of their own. Integer fields of type \<open>int32_t\<close> are 32-bit words,
  compared signed. Log output is left out.
\<close>

section \<open>State\<close>

datatype rtmp_event =
    EvSend "bytes list"
  | EvRecv RtmpPacket
  | EvPlay string string
  | EvPublish string string
  | EvPublishPrepare
  | EvActive
  | EvForceClose

datatype RtmpContextState = kRtmpHandShake | kRtmpWaitingDone | kRtmpMessage

record RtmpContext =
  rc_handshake :: RtmpHandShake
  rc_state :: RtmpContextState
  rc_handler :: bool
  rc_in :: RtmpIn
  rc_out :: RtmpOut
  rc_ack_size :: u32
  rc_in_bytes :: u32
  rc_last_left :: u32
  rc_app :: string
  rc_tc_url :: string
  rc_name :: string
  rc_session_name :: string
  rc_param :: string
  rc_is_player :: bool
  rc_is_client :: bool
  rc_events :: "rtmp_event list"

definition RtmpContext_new :: "bool \<Rightarrow> bool \<Rightarrow> RtmpContext" where
  "RtmpContext_new handler client =
     \<lparr>rc_handshake = RtmpHandShake_new client, rc_state = kRtmpHandShake, rc_handler = handler,
      rc_in = RtmpIn_new, rc_out = RtmpOut_new, rc_ack_size = 2500000, rc_in_bytes = 0,
      rc_last_left = 0, rc_app = [], rc_tc_url = [], rc_name = [], rc_session_name = [],
      rc_param = [], rc_is_player = False, rc_is_client = client, rc_events = []\<rparr>"

definition emit :: "rtmp_event list \<Rightarrow> RtmpContext \<Rightarrow> RtmpContext" where
  "emit evs c = c\<lparr>rc_events := rc_events c @ evs\<rparr>"

section \<open>Building and queueing messages\<close>

text \<open>
  A message packet: \<open>NewPacket(cap)\<close> is zeroed memory, \<open>body\<close> is what is written from its
  start on (past its end it is a heap overflow), the first \<open>len\<close> bytes are the message.
\<close>

definition message_packet :: "nat \<Rightarrow> nat \<Rightarrow> u32 \<Rightarrow> u8 \<Rightarrow> bytes \<Rightarrow> RtmpPacket result" where
  "message_packet cap csid sid ty body =
     rbind (NewPacket (int cap)) (\<lambda>p.
       if length body \<le> cap
       then Inr (p\<lparr>pk_data := blit (pk_data p) 0 body, pk_size := length body,
                   pk_ext := Some \<lparr>rh_cs_id = csid, rh_timestamp = 0, rh_msg_len = of_nat (length body),
                                    rh_msg_type = ty, rh_msg_sid = sid\<rparr>\<rparr>)
       else Inl OutOfBounds)"

definition rc_push :: "RtmpPacket \<Rightarrow> RtmpContext \<Rightarrow> RtmpContext result" where
  "rc_push packet c =
     rbind (PushOutQueue packet (rc_out c)) (\<lambda>(out, sent).
       Inr (emit (case sent of None \<Rightarrow> [] | Some bufs \<Rightarrow> [EvSend bufs]) (c\<lparr>rc_out := out\<rparr>)))"

definition send_message :: "nat \<Rightarrow> nat \<Rightarrow> u32 \<Rightarrow> u8 \<Rightarrow> bytes \<Rightarrow> RtmpContext \<Rightarrow> RtmpContext result" where
  "send_message cap csid sid ty body c = rbind (message_packet cap csid sid ty body) (\<lambda>p. rc_push p c)"

definition kRtmpCSIDCommand :: nat where "kRtmpCSIDCommand = 2"
definition kRtmpCSIDAMFIni :: nat where "kRtmpCSIDAMFIni = 3"
definition amf_end :: bytes where "amf_end = [0, 0, 9]"

definition SendSetChunkSize :: "RtmpContext \<Rightarrow> RtmpContext result" where
  "SendSetChunkSize = send_message 64 kRtmpCSIDCommand 0 kRtmpMsgTypeChunkSize
     (WriteUint32T (of_nat out_chunk_size))"

definition SendAckWindowSize :: "RtmpContext \<Rightarrow> RtmpContext result" where
  "SendAckWindowSize c = send_message 64 kRtmpCSIDCommand 0 kRtmpMsgTypeWindowACKSize
     (WriteUint32T (rc_ack_size c)) c"

definition SendSetPeerBandwidth :: "RtmpContext \<Rightarrow> RtmpContext result" where
  "SendSetPeerBandwidth c = send_message 64 kRtmpCSIDCommand 0 kRtmpMsgTypeSetPeerBW
     (WriteUint32T (rc_ack_size c) @ [0x02]) c"

definition SendBytesRecv :: "RtmpContext \<Rightarrow> RtmpContext result" where
  "SendBytesRecv c =
     (if rc_ack_size c \<le>s rc_in_bytes c
      then rbind (send_message 64 kRtmpCSIDCommand 0 kRtmpMsgTypeBytesRead
                    (WriteUint32T (rc_in_bytes c)) c) (\<lambda>c. Inr (c\<lparr>rc_in_bytes := 0\<rparr>))
      else Inr c)"

text \<open>
  \<open>SendUserCtrlMessage\<close> hands \<open>body\<close>, not \<open>p\<close>, to every writer, so that each value is
  stored over the one before it while the length counts them all.
\<close>

definition kRtmpEventTypeStreamBegin :: u16 where "kRtmpEventTypeStreamBegin = 0"
definition kRtmpEventTypeSetBufferLength :: u16 where "kRtmpEventTypeSetBufferLength = 3"
definition kRtmpEventTypePingRequest :: u16 where "kRtmpEventTypePingRequest = 5"
definition kRtmpEventTypePingResponse :: u16 where "kRtmpEventTypePingResponse = 6"

definition user_ctrl_body :: "u16 \<Rightarrow> u32 \<Rightarrow> u32 \<Rightarrow> bytes" where
  "user_ctrl_body nType value1 value2 =
     (let body = blit (blit (replicate 64 0) 0 (WriteUint16T nType)) 0 (WriteUint32T value1)
      in if nType = kRtmpEventTypeSetBufferLength
         then take 10 (blit body 0 (WriteUint32T value2))
         else take 6 body)"

definition SendUserCtrlMessage :: "u16 \<Rightarrow> u32 \<Rightarrow> u32 \<Rightarrow> RtmpContext \<Rightarrow> RtmpContext result" where
  "SendUserCtrlMessage nType value1 value2 = send_message 64 kRtmpCSIDCommand 0 kRtmpMsgTypeUserControl
     (user_ctrl_body nType value1 value2)"

section \<open>Commands sent\<close>

definition send_command :: "u32 \<Rightarrow> bytes \<Rightarrow> RtmpContext \<Rightarrow> RtmpContext result" where
  "send_command sid body = send_message 1024 kRtmpCSIDAMFIni sid kRtmpMsgTypeAMFMessage body"

definition connect_body :: "string \<Rightarrow> string \<Rightarrow> bytes" where
  "connect_body app tc_url =
     EncodeString ''connect'' @ EncodeNumber (double_of_nat 1) @ [kAMFObject]
     @ EncodeNamedString ''app'' app @ EncodeNamedString ''tcUrl'' tc_url
     @ EncodeNamedBoolean ''fpad'' False
     @ EncodeNamedNumber ''capabilities'' (double_of_nat 31)
     @ EncodeNamedNumber ''audioCodecs'' (double_of_nat 1639)
     @ EncodeNamedNumber ''videoCodecs'' (double_of_nat 252)
     @ EncodeNamedNumber ''videoFunction'' (double_of_nat 1) @ amf_end"

definition SendConnect :: "RtmpContext \<Rightarrow> RtmpContext result" where
  "SendConnect c = rbind (SendSetChunkSize c) (\<lambda>c.
     send_command 0 (connect_body (rc_app c) (rc_tc_url c)) c)"

definition connect_result_body :: "bool \<Rightarrow> bytes" where
  "connect_result_body amf3 =
     EncodeString ''_result'' @ EncodeNumber (double_of_nat 1) @ [kAMFObject]
     @ EncodeNamedString ''fmsVer'' ''FMS/3,0,1,123''
     @ EncodeNamedNumber ''capabilities'' (double_of_nat 31) @ amf_end
     @ [kAMFObject]
     @ EncodeNamedString ''level'' ''status''
     @ EncodeNamedString ''code'' ''NetConnection.Connect.Success''
     @ EncodeNamedString ''description'' ''Connection succeeded.''
     @ EncodeNamedNumber ''objectEncoding'' (if amf3 then double_of_nat 3 else 0) @ amf_end"

definition SendCreateStream :: "RtmpContext \<Rightarrow> RtmpContext result" where
  "SendCreateStream = send_command 0
     (EncodeString ''createStream'' @ EncodeNumber (double_of_nat 4) @ [kAMFNull])"

definition SendStatus :: "string \<Rightarrow> string \<Rightarrow> string \<Rightarrow> RtmpContext \<Rightarrow> RtmpContext result" where
  "SendStatus level code description = send_command 1
     (EncodeString ''onStatus'' @ EncodeNumber 0 @ [kAMFNull] @ [kAMFObject]
      @ EncodeNamedString ''level'' level @ EncodeNamedString ''code'' code
      @ EncodeNamedString ''description'' description @ amf_end)"

text \<open>The number \<open>-1000.0\<close> of \<open>SendPlay\<close> as its bit pattern.\<close>

definition SendPlay :: "RtmpContext \<Rightarrow> RtmpContext result" where
  "SendPlay c = send_command 1
     (EncodeString ''play'' @ EncodeNumber 0 @ [kAMFNull] @ EncodeString (rc_name c)
      @ EncodeNumber 0xC08F400000000000) c"

definition SendPublish :: "RtmpContext \<Rightarrow> RtmpContext result" where
  "SendPublish c = send_command 1
     (EncodeString ''publish'' @ EncodeNumber (double_of_nat 5) @ [kAMFNull]
      @ EncodeString (rc_name c) @ EncodeString ''live'') c"

section \<open>Names and URLs\<close>

text \<open>The domain, application and stream name that the url decides.\<close>

definition url_parts :: "string \<Rightarrow> string \<Rightarrow> string \<Rightarrow> string \<times> string \<times> string" where
  "url_parts tc_url app name =
     (let l = SplitString tc_url ''/''
      in if length l = 6 then (l ! 3, l ! 4, l ! 5)
         else if length l = 5 then (l ! 3, l ! 4, name)
         else if length l = 4 then (l ! 2, l ! 3, name)
         else ([], app, name))"

text \<open>The new application, parameters and name, and the session name.\<close>

definition parse_names :: "string \<Rightarrow> string \<Rightarrow> string \<Rightarrow> string \<times> string \<times> string \<times> string" where
  "parse_names tc_url app name =
     (let app = (case find_first_of {CHR ''/''} app of Some pos \<Rightarrow> drop (pos + 1) app | None \<Rightarrow> app);
          (param, name) = (case find_first_of {CHR ''?''} name of
             Some pos \<Rightarrow> (drop (pos + 1) name, take pos name) | None \<Rightarrow> ([], name));
          (domain, app, name) = url_parts tc_url app name;
          domain = (case find_first_of {CHR '':''} domain of Some p \<Rightarrow> take p domain | None \<Rightarrow> domain)
      in (app, param, name, domain @ ''/'' @ app @ ''/'' @ name))"

definition ParseNameAndTcUrl :: "RtmpContext \<Rightarrow> RtmpContext" where
  "ParseNameAndTcUrl c =
     (case parse_names (rc_tc_url c) (rc_app c) (rc_name c) of (app, param, name, session) \<Rightarrow>
        c\<lparr>rc_app := app, rc_param := param, rc_name := name, rc_session_name := session\<rparr>)"

definition Play :: "string \<Rightarrow> RtmpContext \<Rightarrow> RtmpContext" where
  "Play url c = ParseNameAndTcUrl (c\<lparr>rc_is_client := True, rc_is_player := True, rc_tc_url := url\<rparr>)"

definition Publish :: "string \<Rightarrow> RtmpContext \<Rightarrow> RtmpContext" where
  "Publish url c = ParseNameAndTcUrl (c\<lparr>rc_is_client := True, rc_is_player := False, rc_tc_url := url\<rparr>)"

section \<open>Handlers\<close>

text \<open>A pointer to a property that is dereferenced unchecked.\<close>

definition deref :: "'a option \<Rightarrow> 'a result" where
  "deref x = (case x of None \<Rightarrow> Inl NullDeref | Some v \<Rightarrow> Inr v)"

lemma deref_simps [simp]: "deref None = Inl NullDeref" "deref (Some v) = Inr v"
  by (simp_all add: deref_def)

definition HandleChunkSize :: "RtmpPacket \<Rightarrow> RtmpContext \<Rightarrow> RtmpContext result" where
  "HandleChunkSize packet c =
     (if pk_size packet \<ge> 4
      then rbind (ReadUint32T (pk_data packet)) (\<lambda>sz.
        Inr (c\<lparr>rc_in := (rc_in c)\<lparr>in_chunk_size := sint sz\<rparr>\<rparr>))
      else Inr c)"

definition HandleAckWindowSize :: "RtmpPacket \<Rightarrow> RtmpContext \<Rightarrow> RtmpContext result" where
  "HandleAckWindowSize packet c =
     (if pk_size packet \<ge> 4
      then rbind (ReadUint32T (pk_data packet)) (\<lambda>sz. Inr (c\<lparr>rc_ack_size := sz\<rparr>))
      else Inr c)"

definition HandleUserMessage :: "RtmpPacket \<Rightarrow> RtmpContext \<Rightarrow> RtmpContext result" where
  "HandleUserMessage packet c =
     (if pk_size packet < 6 then Inr c
      else rbind (ReadUint16T (pk_data packet)) (\<lambda>type.
           rbind (ReadUint32T (drop 2 (pk_data packet))) (\<lambda>value.
             if type = kRtmpEventTypePingRequest
             then SendUserCtrlMessage kRtmpEventTypePingResponse value 0 c
             else Inr c)))"

definition HandleConnect :: "AMFAny list \<Rightarrow> RtmpContext \<Rightarrow> RtmpContext result" where
  "HandleConnect obj c =
     rbind (deref (Property_name ''tcUrl'' obj)) (\<lambda>tc.
     let c = c\<lparr>rc_tc_url := AMFAny_String tc\<rparr>
     in rbind (deref (Property_index 2 obj)) (\<lambda>p2.
     rbind (case AMFAny_Object p2 of
              None \<Rightarrow> Inr (False, c)
            | Some sub \<Rightarrow> rbind (deref (Property_name ''app'' sub)) (\<lambda>app.
                Inr (case Property_name ''objectEncoding'' sub of
                       None \<Rightarrow> False | Some e \<Rightarrow> AMFAny_Number e = double_of_nat 3,
                     c\<lparr>rc_app := AMFAny_String app\<rparr>))) (\<lambda>(amf3, c).
     rbind (SendAckWindowSize c) (\<lambda>c.
     rbind (SendSetPeerBandwidth c) (\<lambda>c.
     rbind (SendSetChunkSize c) (\<lambda>c.
       send_command 0 (connect_result_body amf3) c))))))"

definition HandleCreateStream :: "AMFAny list \<Rightarrow> RtmpContext \<Rightarrow> RtmpContext result" where
  "HandleCreateStream obj c =
     rbind (deref (Property_index 1 obj)) (\<lambda>tran.
       send_command 0 (EncodeString ''_result'' @ EncodeNumber (AMFAny_Number tran) @ [kAMFNull]
         @ EncodeNumber (double_of_nat 1)) c)"

definition HandlePlay :: "AMFAny list \<Rightarrow> RtmpContext \<Rightarrow> RtmpContext result" where
  "HandlePlay obj c =
     rbind (deref (Property_index 1 obj)) (\<lambda>tran.
     rbind (deref (Property_index 3 obj)) (\<lambda>name.
     let c = (ParseNameAndTcUrl (c\<lparr>rc_name := AMFAny_String name\<rparr>))\<lparr>rc_is_player := True\<rparr>
     in rbind (SendUserCtrlMessage kRtmpEventTypeStreamBegin 1 0 c) (\<lambda>c.
        rbind (SendStatus ''status'' ''NetStream.Play.Start'' ''Start Playing'' c) (\<lambda>c.
          Inr (if rc_handler c then emit [EvPlay (rc_session_name c) (rc_param c)] c else c)))))"

definition HandlePublish :: "AMFAny list \<Rightarrow> RtmpContext \<Rightarrow> RtmpContext result" where
  "HandlePublish obj c =
     rbind (deref (Property_index 1 obj)) (\<lambda>tran.
     rbind (deref (Property_index 3 obj)) (\<lambda>name.
     let c = (ParseNameAndTcUrl (c\<lparr>rc_name := AMFAny_String name\<rparr>))\<lparr>rc_is_player := False\<rparr>
     in rbind (SendStatus ''status'' ''NetStream.Publish.Start'' ''Start Publishing'' c) (\<lambda>c.
          Inr (if rc_handler c then emit [EvPublish (rc_session_name c) (rc_param c)] c else c))))"

definition HandleResult :: "AMFAny list \<Rightarrow> RtmpContext \<Rightarrow> RtmpContext result" where
  "HandleResult obj c =
     rbind (deref (Property_index 1 obj)) (\<lambda>p.
       let id = AMFAny_Number p
       in if id = double_of_nat 1 then SendCreateStream c
          else if id = double_of_nat 4 then (if rc_is_player c then SendPlay c else SendPublish c)
          else if id = double_of_nat 5
          then Inr (if rc_handler c then emit [EvPublishPrepare] c else c)
          else Inr c)"

text \<open>\<open>obj.Property(3)->Object()->Property(name)->String()\<close>.\<close>

definition info_field :: "string \<Rightarrow> AMFAny list \<Rightarrow> string result" where
  "info_field name obj =
     rbind (deref (Property_index 3 obj)) (\<lambda>p.
     rbind (deref (AMFAny_Object p)) (\<lambda>sub.
     rbind (deref (Property_name name sub)) (\<lambda>q. Inr (AMFAny_String q))))"

definition HandleError :: "AMFAny list \<Rightarrow> RtmpContext \<Rightarrow> RtmpContext result" where
  "HandleError obj c = rbind (info_field ''description'' obj) (\<lambda>d. Inr (emit [EvForceClose] c))"

definition HandleStatus :: "AMFAny list \<Rightarrow> RtmpContext \<Rightarrow> RtmpContext result" where
  "HandleStatus obj c =
     rbind (info_field ''code'' obj) (\<lambda>code. rbind (info_field ''level'' obj) (\<lambda>level.
       if code = ''NetStream.Publish.Start''
       then (if rc_handler c then Inr (emit [EvPublish (rc_session_name c) (rc_param c)] c) else Inl NullDeref)
       else if code = ''NetStream.Play.Start''
       then (if rc_handler c then Inr (emit [EvPlay (rc_session_name c) (rc_param c)] c) else Inl NullDeref)
       else Inr c))"

text \<open>The table \<open>commands_\<close> the constructor fills.\<close>

definition rtmp_commands :: "string \<rightharpoonup> (AMFAny list \<Rightarrow> RtmpContext \<Rightarrow> RtmpContext result)" where
  "rtmp_commands =
     [''connect'' \<mapsto> HandleConnect, ''createStream'' \<mapsto> HandleCreateStream,
      ''_result'' \<mapsto> HandleResult, ''_error'' \<mapsto> HandleError, ''onStatus'' \<mapsto> HandleStatus,
      ''play'' \<mapsto> HandlePlay, ''publish'' \<mapsto> HandlePublish]"

definition HandleAmfCommand :: "RtmpPacket \<Rightarrow> bool \<Rightarrow> RtmpContext \<Rightarrow> RtmpContext result" where
  "HandleAmfCommand data amf3 c =
     (let body = (if amf3 then drop 1 (pk_data data) else pk_data data);
          msg_len = int (pk_size data) - (if amf3 then 1 else 0)
      in rbind (amf_Decode body msg_len) (\<lambda>r. case r of
           None \<Rightarrow> Inr c
         | Some (obj, _) \<Rightarrow>
             rbind (deref (Property_index 0 obj)) (\<lambda>method.
               case rtmp_commands (AMFAny_String method) of None \<Rightarrow> Inr c | Some f \<Rightarrow> f obj c)))"

definition SetPacketType :: "RtmpPacket \<Rightarrow> RtmpPacket" where
  "SetPacketType packet =
     (if pk_type packet = ucast kRtmpMsgTypeAudio then packet\<lparr>pk_type := kPacketTypeAudio\<rparr>
      else if pk_type packet = ucast kRtmpMsgTypeVideo then packet\<lparr>pk_type := kPacketTypeVideo\<rparr>
      else if pk_type packet = ucast kRtmpMsgTypeAMFMeta then packet\<lparr>pk_type := kPacketTypeMeta\<rparr>
      else if pk_type packet = ucast kRtmpMsgTypeAMF3Meta then packet\<lparr>pk_type := kPacketTypeMeta3\<rparr>
      else packet)"

definition MessageComplete :: "RtmpPacket \<Rightarrow> RtmpContext \<Rightarrow> RtmpContext result" where
  "MessageComplete data c =
     (let type = pk_type data
      in if type = ucast kRtmpMsgTypeChunkSize then HandleChunkSize data c
         else if type = ucast kRtmpMsgTypeBytesRead then Inr c
         else if type = ucast kRtmpMsgTypeUserControl then HandleUserMessage data c
         else if type = ucast kRtmpMsgTypeWindowACKSize then HandleAckWindowSize data c
         else if type = ucast kRtmpMsgTypeAMF3Message then HandleAmfCommand data True c
         else if type = ucast kRtmpMsgTypeAMFMessage then HandleAmfCommand data False c
         else if type \<in> {ucast kRtmpMsgTypeAMFMeta, ucast kRtmpMsgTypeAMF3Meta,
                          ucast kRtmpMsgTypeAudio, ucast kRtmpMsgTypeVideo}
         then Inr (if rc_handler c then emit [EvRecv (SetPacketType data)] c else c)
         else Inr c)"

section \<open>The entry points\<close>

text \<open>
  The loop of \<open>ParseMessage\<close>: one chunk per round, retrieved from the buffer before the
  message it completes is handled. The first argument bounds the rounds.
\<close>

fun parse_loop :: "nat \<Rightarrow> RtmpContext \<Rightarrow> MsgBuffer \<Rightarrow> (RtmpContext \<times> MsgBuffer) result" where
  "parse_loop 0 c buf = Inl OutOfFuel"
| "parse_loop (Suc f) c buf =
     (let d = buf_contents buf
      in if length d > 1
         then rbind (parse_chunk (rc_in c) d) (\<lambda>out. case out of
                NeedMore s \<Rightarrow> Inr (c\<lparr>rc_in := s\<rparr>, buf)
              | GotChunk s rest p \<Rightarrow>
                  let c = c\<lparr>rc_in := s\<rparr>; buf = Retrieve (length d - length rest) buf
                  in rbind (case p of None \<Rightarrow> Inr c | Some p \<Rightarrow> MessageComplete p c) (\<lambda>c.
                       parse_loop f c buf))
         else Inr (c, buf))"

definition ParseMessage :: "RtmpContext \<Rightarrow> MsgBuffer \<Rightarrow> (int \<times> RtmpContext \<times> MsgBuffer) result" where
  "ParseMessage c buf =
     rbind (SendBytesRecv (c\<lparr>rc_in_bytes := rc_in_bytes c + (of_nat (ReadableBytes buf) - rc_last_left c)\<rparr>)) (\<lambda>c.
     rbind (parse_loop (Suc (ReadableBytes buf)) c buf) (\<lambda>(c, buf). Inr (1, c, buf)))"

definition parse_in_message :: "RtmpContext \<Rightarrow> MsgBuffer \<Rightarrow> (int \<times> RtmpContext \<times> MsgBuffer) result" where
  "parse_in_message c buf =
     rbind (ParseMessage c buf) (\<lambda>(r, c, buf).
       Inr (r, c\<lparr>rc_last_left := of_nat (ReadableBytes buf)\<rparr>, buf))"

text \<open>
  \<open>Parse\<close>: the handshake until it is done, then messages. Its recursive call runs in state
  \<open>kRtmpMessage\<close>, so it is the branch of that state. The handshake takes the hash, the random
  bytes and the time of its creation.
\<close>

definition RtmpContext_Parse ::
  "hmac \<Rightarrow> (nat \<Rightarrow> u8) \<Rightarrow> u64 \<Rightarrow> RtmpContext \<Rightarrow> MsgBuffer \<Rightarrow> (int \<times> RtmpContext \<times> MsgBuffer) result" where
  "RtmpContext_Parse hmac rnd now c buf =
     (case rc_state c of
        kRtmpHandShake \<Rightarrow>
          (case HandShake hmac rnd now (rc_handshake c) buf of (ret, hs, buf, sent) \<Rightarrow>
             let c = emit (map (\<lambda>b. EvSend [b]) sent) (c\<lparr>rc_handshake := hs\<rparr>)
             in if ret = 0
                then let c = c\<lparr>rc_state := kRtmpMessage\<rparr>
                     in rbind (if rc_is_client c then SendConnect c else Inr c) (\<lambda>c.
                          if ReadableBytes buf > 0 then parse_in_message c buf
                          else Inr (ret, c, buf))
                else if ret = 2 then Inr (ret, c\<lparr>rc_state := kRtmpWaitingDone\<rparr>, buf)
                else Inr (ret, c, buf))
      | kRtmpMessage \<Rightarrow> parse_in_message c buf
      | kRtmpWaitingDone \<Rightarrow> Inr (0, c, buf))"

definition OnWriteComplete :: "RtmpContext \<Rightarrow> RtmpContext result" where
  "OnWriteComplete c =
     (case rc_state c of
        kRtmpHandShake \<Rightarrow>
          (case HandShake_WriteComplete (rc_handshake c) of (hs, sent) \<Rightarrow>
             Inr (emit (map (\<lambda>b. EvSend [b]) sent) (c\<lparr>rc_handshake := hs\<rparr>)))
      | kRtmpWaitingDone \<Rightarrow>
          let c = c\<lparr>rc_state := kRtmpMessage\<rparr>
          in if rc_is_client c then SendConnect c else Inr c
      | kRtmpMessage \<Rightarrow>
          rbind (CheckAndSend (rc_out c)) (\<lambda>(out, sent, active).
            Inr (emit ((case sent of None \<Rightarrow> [] | Some bufs \<Rightarrow> [EvSend bufs])
                       @ (if active \<and> rc_handler c then [EvActive] else [])) (c\<lparr>rc_out := out\<rparr>))))"

definition StartHandShake :: "hmac \<Rightarrow> (nat \<Rightarrow> u8) \<Rightarrow> RtmpContext \<Rightarrow> RtmpContext" where
  "StartHandShake hmac rnd c =
     (case HandShake_Start hmac rnd (rc_handshake c) of (hs, sent) \<Rightarrow>
        emit (map (\<lambda>b. EvSend [b]) sent) (c\<lparr>rc_handshake := hs\<rparr>))"

end
