(* ===== verification/RtmpSession.thy ===== *)
theory RtmpSession
  imports RtmpContext
begin

text \<open>
  Lemmas on the RTMP session: what sending a message keeps, what the control messages do,
  the command exchange that starts playing or publishing, the names made of urls, and the
  whole \<open>ParseMessage\<close> loop.
\<close>

section \<open>Sending\<close>

text \<open>
  The packets that are queued or in the batch under way; between batches nothing waits.
\<close>

definition queued :: "RtmpContext \<Rightarrow> RtmpPacket list" where
  "queued c = ro_packets (rc_out c) @ ro_waiting (rc_out c)"

definition out_inv :: "RtmpContext \<Rightarrow> bool" where
  "out_inv c \<longleftrightarrow> queue_inv (rc_out c) \<and> (ro_sending (rc_out c) \<or> ro_waiting (rc_out c) = [])"

text \<open>Only the sending fields and the record of calls have changed.\<close>

definition only_sent :: "RtmpContext \<Rightarrow> RtmpContext \<Rightarrow> bool" where
  "only_sent c c' \<longleftrightarrow> (\<exists>out evs. c' = c\<lparr>rc_out := out, rc_events := rc_events c @ evs\<rparr>)"

lemma only_sent_refl [simp]: "only_sent c c"
  by (cases c) (auto simp: only_sent_def intro: exI [of _ "[]"])

lemma only_sent_trans: "only_sent c c' \<Longrightarrow> only_sent c' c'' \<Longrightarrow> only_sent c c''"
  by (auto simp: only_sent_def) (metis append.assoc)

lemma only_sent_emit [simp]: "only_sent c (emit evs c)"
  by (cases c) (auto simp: only_sent_def emit_def)

lemma only_sent_out [simp]: "only_sent c (emit evs (c\<lparr>rc_out := out\<rparr>))"
  by (cases c) (auto simp: only_sent_def emit_def)

lemma emit_out [simp]: "rc_out (emit evs c) = rc_out c"
  by (simp add: emit_def)

lemma only_sent_frame:
  assumes "only_sent c c'"
  shows "rc_handshake c' = rc_handshake c" "rc_state c' = rc_state c" "rc_handler c' = rc_handler c"
    "rc_in c' = rc_in c" "rc_ack_size c' = rc_ack_size c" "rc_in_bytes c' = rc_in_bytes c"
    "rc_last_left c' = rc_last_left c" "rc_app c' = rc_app c" "rc_tc_url c' = rc_tc_url c"
    "rc_name c' = rc_name c" "rc_session_name c' = rc_session_name c" "rc_param c' = rc_param c"
    "rc_is_player c' = rc_is_player c" "rc_is_client c' = rc_is_client c"
  using assms by (auto simp: only_sent_def)

text \<open>A packet that carries a message of the given kind.\<close>

definition carries :: "RtmpPacket \<Rightarrow> u8 \<Rightarrow> bytes \<Rightarrow> bool" where
  "carries p ty body \<longleftrightarrow> packet_inv p \<and> payload p = body \<and>
     (\<exists>h. pk_ext p = Some h \<and> rh_msg_type h = ty \<and> unat (rh_msg_len h) = length body \<and> rh_timestamp h = 0)"

lemma message_packet_ok:
  assumes "length body \<le> cap" and "cap \<le> max_queued_len"
  shows "\<exists>p. message_packet cap csid sid ty body = Inr p \<and> carries p ty body \<and> packet_ready p"
proof -
  have "length body < 2 ^ 32" using assms by (simp add: max_queued_len_def)
  then have "unat (of_nat (length body) :: u32) = length body"
    by (simp add: unat_of_nat take_bit_nat_eq_self)
  with assms show ?thesis
    by (simp add: message_packet_def NewPacket_def carries_def packet_ready_def packet_inv_def
        payload_def blit_def)
qed

lemma rc_push_ok:
  assumes inv: "out_inv c" and p: "packet_ready p" "pk_ext p \<noteq> None"
  shows "\<exists>c'. rc_push p c = Inr c' \<and> out_inv c' \<and> only_sent c c' \<and> queued c' = queued c @ [p]"
proof -
  let ?s = "(rc_out c)\<lparr>ro_waiting := ro_waiting (rc_out c) @ [p]\<rparr>"
  have q: "queue_inv ?s" using inv p(1) by (simp add: out_inv_def queue_inv_def)
  show ?thesis
  proof (cases "ro_sending (rc_out c)")
    case True
    with q show ?thesis
      by (simp add: rc_push_def PushOutQueue_def Send_def out_inv_def queued_def)
  next
    case False
    with inv have w: "ro_waiting (rc_out c) = []" by (simp add: out_inv_def)
    have "list_all packet_ready (ro_waiting ?s)" "ro_pos ?s \<le> 556" "\<not> ro_sending ?s"
      using q False by (simp_all add: queue_inv_def)
    from Send_safe [OF this] obtain s' where s': "Send ?s = Inr (s', Some (ro_bufs s'))"
      "ro_waiting s' = []" "ro_packets s' = ro_packets (rc_out c) @ [p]" "ro_sending s'"
      using p(2) w by (auto simp: has_header_def)
    then show ?thesis
      using w by (auto simp: rc_push_def PushOutQueue_def out_inv_def queue_inv_def queued_def
          only_sent_def emit_def)
  qed
qed

text \<open>The one fact about sending: the message is queued, nothing faults.\<close>

lemma send_message_ok:
  assumes "out_inv c" and "length body \<le> cap" and "cap \<le> max_queued_len"
  shows "\<exists>c' p. send_message cap csid sid ty body c = Inr c' \<and> out_inv c' \<and> only_sent c c' \<and>
           carries p ty body \<and> queued c' = queued c @ [p]"
proof -
  obtain p where p: "message_packet cap csid sid ty body = Inr p" "carries p ty body" "packet_ready p"
    using message_packet_ok [OF assms(2,3)] by blast
  then have "pk_ext p \<noteq> None" by (auto simp: carries_def)
  from rc_push_ok [OF assms(1) p(3) this] p show ?thesis by (auto simp: send_message_def)
qed

lemma length_Encode [simp]:
  "length (EncodeNumber d) = 9" "length (EncodeString s) = length s + 3"
  "length (EncodeNamedNumber n d) = length n + 11"
  "length (EncodeNamedString n s) = length n + length s + 5"
  "length (EncodeNamedBoolean n b) = length n + 4"
  by (simp_all add: EncodeNumber_def WriteNumber_def EncodeString_def EncodeNamedNumber_def
      EncodeNamedString_def EncodeNamedBoolean_def EncodeBoolean_def)

lemma length_user_ctrl_body: "length (user_ctrl_body t v w) \<le> 64"
  by (simp add: user_ctrl_body_def Let_def)

lemma control_sends:
  assumes "out_inv c"
  shows "\<exists>c' p. SendSetChunkSize c = Inr c' \<and> out_inv c' \<and> only_sent c c' \<and>
           carries p kRtmpMsgTypeChunkSize (WriteUint32T (of_nat out_chunk_size)) \<and> queued c' = queued c @ [p]"
    and "\<exists>c' p. SendAckWindowSize c = Inr c' \<and> out_inv c' \<and> only_sent c c' \<and>
           carries p kRtmpMsgTypeWindowACKSize (WriteUint32T (rc_ack_size c)) \<and> queued c' = queued c @ [p]"
    and "\<exists>c' p. SendSetPeerBandwidth c = Inr c' \<and> out_inv c' \<and> only_sent c c' \<and>
           carries p kRtmpMsgTypeSetPeerBW (WriteUint32T (rc_ack_size c) @ [2]) \<and> queued c' = queued c @ [p]"
    and "\<exists>c' p. SendUserCtrlMessage t v w c = Inr c' \<and> out_inv c' \<and> only_sent c c' \<and>
           carries p kRtmpMsgTypeUserControl (user_ctrl_body t v w) \<and> queued c' = queued c @ [p]"
  unfolding SendSetChunkSize_def SendAckWindowSize_def SendSetPeerBandwidth_def SendUserCtrlMessage_def
  using length_user_ctrl_body by (intro send_message_ok assms; simp add: max_queued_len_def)+

lemma send_command_ok:
  assumes "out_inv c" and "length body \<le> 1024"
  shows "\<exists>c' p. send_command sid body c = Inr c' \<and> out_inv c' \<and> only_sent c c' \<and>
           carries p kRtmpMsgTypeAMFMessage body \<and> queued c' = queued c @ [p]"
  unfolding send_command_def by (intro send_message_ok assms) (simp add: max_queued_len_def)

section \<open>The command exchange\<close>

text \<open>
  The AMF values a command body is the encoding of. The names of the fields matter to the
  receiver; the numbers survive its conversion when they are integers.
\<close>

definition connect_args :: "string \<Rightarrow> string \<Rightarrow> AMFAny list" where
  "connect_args app url =
     [AMFString [] ''connect'', AMFNumber [] (double_of_nat 1),
      AMFObject [] [AMFString ''app'' app, AMFString ''tcUrl'' url, AMFBoolean ''fpad'' False,
        AMFNumber ''capabilities'' (double_of_nat 31), AMFNumber ''audioCodecs'' (double_of_nat 1639),
        AMFNumber ''videoCodecs'' (double_of_nat 252), AMFNumber ''videoFunction'' (double_of_nat 1)]]"

definition connect_result_args :: "bool \<Rightarrow> AMFAny list" where
  "connect_result_args amf3 =
     [AMFString [] ''_result'', AMFNumber [] (double_of_nat 1),
      AMFObject [] [AMFString ''fmsVer'' ''FMS/3,0,1,123'', AMFNumber ''capabilities'' (double_of_nat 31)],
      AMFObject [] [AMFString ''level'' ''status'', AMFString ''code'' ''NetConnection.Connect.Success'',
        AMFString ''description'' ''Connection succeeded.'',
        AMFNumber ''objectEncoding'' (if amf3 then double_of_nat 3 else double_of_nat 0)]]"

lemmas amf_encode_defs = EncodeString_def EncodeNumber_def EncodeBoolean_def EncodeNamedString_def
  EncodeNamedNumber_def EncodeNamedBoolean_def amf_end_def amf_object_end_def

lemma double_of_nat_0 [simp]: "double_of_nat 0 = 0"
  by (simp add: double_of_nat_def)

lemma dbl_conv_nat [simp]: "k < 2 ^ 53 \<Longrightarrow> double_of_u64 (u64_of_double (double_of_nat k)) = double_of_nat k"
  using amf_conv_nat [of k "[]"] by simp

lemma dbl_conv_0 [simp]: "double_of_u64 (u64_of_double 0) = 0"
  using dbl_conv_nat [of 0] by simp

lemma connect_body_enc: "connect_body app url = concat (map amf_enc (connect_args app url))"
  by (simp add: connect_body_def connect_args_def amf_encode_defs)

lemma connect_result_body_enc: "connect_result_body b = concat (map amf_enc (connect_result_args b))"
  by (simp add: connect_result_body_def connect_result_args_def amf_encode_defs)

lemma amf_wf_0 [simp]: "amf_wf (AMFNumber n 0)"
  using amf_wf_nat [of 0 n] by simp

lemma amf_conv_0 [simp]: "amf_conv (AMFNumber n 0) = AMFNumber n 0"
  using amf_conv_nat [of 0 n] by simp

text \<open>What a receiver does with such a message.\<close>

lemma HandleAmf_message:
  assumes q: "carries q ty (concat (map amf_enc ps))"
    and ps: "\<forall>p \<in> set ps. amf_wf p \<and> AMFAny_Name p = []"
  shows "HandleAmfCommand q False c =
           rbind (deref (Property_index 0 (map amf_conv (amf_visible ps)))) (\<lambda>method.
             case rtmp_commands (AMFAny_String method) of None \<Rightarrow> Inr c
             | Some f \<Rightarrow> f (map amf_conv (amf_visible ps)) c)"
proof -
  let ?b = "concat (map amf_enc ps)"
  have b: "take (pk_size q) (pk_data q) = ?b" "pk_size q \<le> length (pk_data q)"
    using q by (auto simp: carries_def payload_def packet_inv_def)
  then have sz: "pk_size q = length ?b" by (metis length_take min_absorb2)
  have d: "pk_data q = ?b @ drop (length ?b) (pk_data q)"
    using b(1) sz by (metis append_take_drop_id)
  obtain len where "amf_Decode (?b @ drop (length ?b) (pk_data q)) (int (length ?b)) =
      Inr (Some (map amf_conv (amf_visible ps), len))"
    using amf_Decode_message [OF ps] by blast
  then have "amf_Decode (pk_data q) (int (pk_size q)) = Inr (Some (map amf_conv (amf_visible ps), len))"
    unfolding sz d [symmetric] .
  then show ?thesis by (simp add: HandleAmfCommand_def)
qed

lemma rtmp_commands_simps [simp]:
  "rtmp_commands ''connect'' = Some HandleConnect" "rtmp_commands ''createStream'' = Some HandleCreateStream"
  "rtmp_commands ''_result'' = Some HandleResult" "rtmp_commands ''play'' = Some HandlePlay"
  "rtmp_commands ''publish'' = Some HandlePublish" "rtmp_commands ''onStatus'' = Some HandleStatus"
  "rtmp_commands ''_error'' = Some HandleError"
  by (simp_all add: rtmp_commands_def)

lemma SendConnect_ok:
  assumes "out_inv c" and "length (rc_app c) + length (rc_tc_url c) \<le> 800"
  shows "\<exists>c' p0 p. SendConnect c = Inr c' \<and> out_inv c' \<and> only_sent c c' \<and>
           carries p kRtmpMsgTypeAMFMessage (connect_body (rc_app c) (rc_tc_url c)) \<and>
           queued c' = queued c @ [p0, p]"
proof -
  obtain c1 p0 where 1: "SendSetChunkSize c = Inr c1" "out_inv c1" "only_sent c c1" "queued c1 = queued c @ [p0]"
    using control_sends(1) [OF assms(1)] by blast
  have f: "rc_app c1 = rc_app c" "rc_tc_url c1 = rc_tc_url c"
    using only_sent_frame [OF 1(3)] by simp_all
  have "length (connect_body (rc_app c) (rc_tc_url c)) \<le> 1024"
    using assms(2) by (simp add: connect_body_def amf_end_def)
  from send_command_ok [OF 1(2) this, of 0] 1 f show ?thesis
    by (auto simp: SendConnect_def dest: only_sent_trans)
qed

text \<open>\<open>connect\<close> at the server: it takes the names over and answers with four messages.\<close>

lemma HandleConnect_ok:
  assumes q: "carries q kRtmpMsgTypeAMFMessage (connect_body app url)"
    and len: "length app < 65536" "length url < 65536" and c: "out_inv c"
  shows "\<exists>c' p1 p2 p3 p. HandleAmfCommand q False c = Inr c' \<and> out_inv c' \<and>
           only_sent (c\<lparr>rc_tc_url := url, rc_app := app\<rparr>) c' \<and> queued c' = queued c @ [p1, p2, p3, p] \<and>
           carries p kRtmpMsgTypeAMFMessage (connect_result_body False)"
proof -
  let ?c = "c\<lparr>rc_tc_url := url, rc_app := app\<rparr>"
  have wf: "\<forall>p \<in> set (connect_args app url). amf_wf p \<and> AMFAny_Name p = []"
    using len by (simp add: connect_args_def del: amf_wf.simps(1))
  have vis: "map amf_conv (amf_visible (connect_args app url)) = connect_args app url"
    by (simp add: connect_args_def EncodeString_def EncodeNumber_def WriteNumber_def amf_object_end_def)
  have "HandleAmfCommand q False c = HandleConnect (connect_args app url) c"
    using HandleAmf_message [OF q [unfolded connect_body_enc] wf, of c]
    by (simp add: vis) (simp add: connect_args_def Property_index_def)
  also have "\<dots> = rbind (SendAckWindowSize ?c) (\<lambda>c. rbind (SendSetPeerBandwidth c) (\<lambda>c.
      rbind (SendSetChunkSize c) (\<lambda>c. send_command 0 (connect_result_body False) c)))"
    by (simp add: HandleConnect_def connect_args_def Property_index_def)
  finally have eq: "HandleAmfCommand q False c = \<dots>" .
  have i0: "out_inv ?c" "queued ?c = queued c" using c by (simp_all add: out_inv_def queued_def)
  obtain c1 p1 where 1: "SendAckWindowSize ?c = Inr c1" "out_inv c1" "only_sent ?c c1" "queued c1 = queued ?c @ [p1]"
    using control_sends(2) [OF i0(1)] by blast
  obtain c2 p2 where 2: "SendSetPeerBandwidth c1 = Inr c2" "out_inv c2" "only_sent c1 c2" "queued c2 = queued c1 @ [p2]"
    using control_sends(3) [OF 1(2)] by blast
  obtain c3 p3 where 3: "SendSetChunkSize c2 = Inr c3" "out_inv c3" "only_sent c2 c3" "queued c3 = queued c2 @ [p3]"
    using control_sends(1) [OF 2(2)] by blast
  have "length (connect_result_body False) \<le> 1024" by (simp add: connect_result_body_def amf_end_def)
  from send_command_ok [OF 3(2) this, of 0] obtain c4 p where
    4: "send_command 0 (connect_result_body False) c3 = Inr c4" "out_inv c4" "only_sent c3 c4"
    "queued c4 = queued c3 @ [p]" "carries p kRtmpMsgTypeAMFMessage (connect_result_body False)" by blast
  have "only_sent ?c c4" using 1(3) 2(3) 3(3) 4(3) by (blast intro: only_sent_trans)
  with 1 2 3 4 i0(2) eq show ?thesis by simp
qed

text \<open>The other commands of a session, as AMF values.\<close>

definition create_stream_args :: "AMFAny list" where
  "create_stream_args = [AMFString [] ''createStream'', AMFNumber [] (double_of_nat 4), AMFNull []]"

definition create_result_args :: "AMFAny list" where
  "create_result_args =
     [AMFString [] ''_result'', AMFNumber [] (double_of_nat 4), AMFNull [], AMFNumber [] (double_of_nat 1)]"

definition play_args :: "string \<Rightarrow> AMFAny list" where
  "play_args name = [AMFString [] ''play'', AMFNumber [] 0, AMFNull [], AMFString [] name,
     AMFNumber [] 0xC08F400000000000]"

definition publish_args :: "string \<Rightarrow> AMFAny list" where
  "publish_args name = [AMFString [] ''publish'', AMFNumber [] (double_of_nat 5), AMFNull [],
     AMFString [] name, AMFString [] ''live'']"

definition status_args :: "string \<Rightarrow> string \<Rightarrow> string \<Rightarrow> AMFAny list" where
  "status_args level code desc = [AMFString [] ''onStatus'', AMFNumber [] 0, AMFNull [],
     AMFObject [] [AMFString ''level'' level, AMFString ''code'' code, AMFString ''description'' desc]]"

lemmas command_args_defs = create_stream_args_def create_result_args_def play_args_def
  publish_args_def status_args_def connect_args_def connect_result_args_def

lemmas amf_length_defs = EncodeString_def EncodeNumber_def WriteNumber_def amf_object_end_def EncodeBoolean_def

lemma amf_wf_minus_1000 [simp]: "amf_wf (AMFNumber n 0xC08F400000000000)"
  by (rule amf_wf_number) simp

lemma command_args_wf:
  "\<forall>p \<in> set create_stream_args. amf_wf p \<and> AMFAny_Name p = []"
  "\<forall>p \<in> set create_result_args. amf_wf p \<and> AMFAny_Name p = []"
  "\<forall>p \<in> set (connect_result_args b). amf_wf p \<and> AMFAny_Name p = []"
  "length name < 65536 \<Longrightarrow> \<forall>p \<in> set (play_args name). amf_wf p \<and> AMFAny_Name p = []"
  "length name < 65536 \<Longrightarrow> \<forall>p \<in> set (publish_args name). amf_wf p \<and> AMFAny_Name p = []"
  "length level < 65536 \<Longrightarrow> length code < 65536 \<Longrightarrow> length desc < 65536 \<Longrightarrow>
     \<forall>p \<in> set (status_args level code desc). amf_wf p \<and> AMFAny_Name p = []"
  by (simp_all add: command_args_defs del: amf_wf.simps(1))

text \<open>A message handled as a result, at the client.\<close>

lemma HandleResult_message:
  assumes q: "carries q kRtmpMsgTypeAMFMessage (connect_result_body b)"
  shows "HandleAmfCommand q False c = SendCreateStream c"
proof -
  have vis: "map amf_conv (amf_visible (connect_result_args b)) = connect_result_args b"
    by (simp add: connect_result_args_def amf_length_defs)
  show ?thesis
    using HandleAmf_message [OF q [unfolded connect_result_body_enc] command_args_wf(3), of c]
    by (simp add: vis) (simp add: connect_result_args_def Property_index_def HandleResult_def)
qed

text \<open>A message whose encoding is sent: the bodies of the remaining \<open>Send\<close> functions.\<close>

lemma command_bodies:
  "EncodeString ''createStream'' @ EncodeNumber (double_of_nat 4) @ [kAMFNull] = concat (map amf_enc create_stream_args)"
  "EncodeString ''_result'' @ EncodeNumber (double_of_nat 4) @ [kAMFNull] @ EncodeNumber (double_of_nat 1)
     = concat (map amf_enc create_result_args)"
  "EncodeString ''play'' @ EncodeNumber 0 @ [kAMFNull] @ EncodeString name @ EncodeNumber 0xC08F400000000000
     = concat (map amf_enc (play_args name))"
  "EncodeString ''publish'' @ EncodeNumber (double_of_nat 5) @ [kAMFNull] @ EncodeString name @ EncodeString ''live''
     = concat (map amf_enc (publish_args name))"
  "EncodeString ''onStatus'' @ EncodeNumber 0 @ [kAMFNull] @ [kAMFObject]
      @ EncodeNamedString ''level'' level @ EncodeNamedString ''code'' code
      @ EncodeNamedString ''description'' desc @ amf_end = concat (map amf_enc (status_args level code desc))"
  by (simp_all add: command_args_defs amf_encode_defs)

lemma command_lengths:
  "length (concat (map amf_enc create_stream_args)) = 25"
  "length (concat (map amf_enc create_result_args)) = 29"
  "length (concat (map amf_enc (play_args name))) = 29 + length name"
  "length (concat (map amf_enc (publish_args name))) = 30 + length name"
  "length (concat (map amf_enc (status_args level code desc))) = length level + length code + length desc + 60"
  by (simp_all add: command_args_defs amf_length_defs)

lemma create_stream_ok:
  assumes "out_inv c"
  shows "\<exists>c' p. SendCreateStream c = Inr c' \<and> out_inv c' \<and> only_sent c c' \<and>
           carries p kRtmpMsgTypeAMFMessage (concat (map amf_enc create_stream_args)) \<and> queued c' = queued c @ [p]"
  unfolding SendCreateStream_def command_bodies by (intro send_command_ok assms) (simp add: command_lengths)

lemma HandleCreateStream_ok:
  assumes q: "carries q kRtmpMsgTypeAMFMessage (concat (map amf_enc create_stream_args))" and c: "out_inv c"
  shows "\<exists>c' p. HandleAmfCommand q False c = Inr c' \<and> out_inv c' \<and> only_sent c c' \<and>
           carries p kRtmpMsgTypeAMFMessage (concat (map amf_enc create_result_args)) \<and> queued c' = queued c @ [p]"
proof -
  have vis: "map amf_conv (amf_visible create_stream_args) =
      [AMFString [] ''createStream'', AMFNumber [] (double_of_nat 4)]"
    by (simp add: create_stream_args_def amf_length_defs)
  have "HandleAmfCommand q False c =
      HandleCreateStream [AMFString [] ''createStream'', AMFNumber [] (double_of_nat 4)] c"
    using HandleAmf_message [OF q command_args_wf(1), of c] unfolding vis
    by (simp add: Property_index_def)
  also have "\<dots> = send_command 0 (concat (map amf_enc create_result_args)) c"
    unfolding HandleCreateStream_def command_bodies(2) [symmetric] by (simp add: Property_index_def)
  finally have eq: "HandleAmfCommand q False c = \<dots>" .
  have len: "length (concat (map amf_enc create_result_args)) \<le> 1024" by (simp add: command_lengths)
  show ?thesis unfolding eq by (rule send_command_ok [OF c len])
qed

lemma HandleResult_stream:
  assumes q: "carries q kRtmpMsgTypeAMFMessage (concat (map amf_enc create_result_args))"
  shows "HandleAmfCommand q False c = (if rc_is_player c then SendPlay c else SendPublish c)"
proof -
  have vis: "map amf_conv (amf_visible create_result_args) = create_result_args"
    by (simp add: create_result_args_def amf_length_defs)
  have ne: "double_of_nat 4 \<noteq> double_of_nat 1"
    using dbl_conv_nat [of 4] u64_of_double_of_nat [of 4] u64_of_double_of_nat [of 1] by force
  show ?thesis
    using HandleAmf_message [OF q command_args_wf(2), of c] ne
    by (simp add: vis) (simp add: create_result_args_def Property_index_def HandleResult_def)
qed

lemma SendPlay_ok:
  assumes "out_inv c" and "length (rc_name c) \<le> 900"
  shows "\<exists>c' p. SendPlay c = Inr c' \<and> out_inv c' \<and> only_sent c c' \<and>
           carries p kRtmpMsgTypeAMFMessage (concat (map amf_enc (play_args (rc_name c)))) \<and> queued c' = queued c @ [p]"
  unfolding SendPlay_def command_bodies using assms(2)
  by (intro send_command_ok assms(1)) (simp add: command_lengths)

lemma SendPublish_ok:
  assumes "out_inv c" and "length (rc_name c) \<le> 900"
  shows "\<exists>c' p. SendPublish c = Inr c' \<and> out_inv c' \<and> only_sent c c' \<and>
           carries p kRtmpMsgTypeAMFMessage (concat (map amf_enc (publish_args (rc_name c)))) \<and> queued c' = queued c @ [p]"
  unfolding SendPublish_def command_bodies using assms(2)
  by (intro send_command_ok assms(1)) (simp add: command_lengths)

lemma SendStatus_ok:
  assumes "out_inv c" and "length level + length code + length desc \<le> 900"
  shows "\<exists>c' p. SendStatus level code desc c = Inr c' \<and> out_inv c' \<and> only_sent c c' \<and>
           carries p kRtmpMsgTypeAMFMessage (concat (map amf_enc (status_args level code desc))) \<and> queued c' = queued c @ [p]"
  unfolding SendStatus_def command_bodies using assms(2)
  by (intro send_command_ok assms(1)) (simp add: command_lengths)

lemma out_inv_update [simp]:
  "out_inv (c\<lparr>rc_name := a\<rparr>) = out_inv c" "out_inv (c\<lparr>rc_is_player := b\<rparr>) = out_inv c"
  "out_inv (emit evs c) = out_inv c" "out_inv (ParseNameAndTcUrl c) = out_inv c"
  "queued (c\<lparr>rc_name := a\<rparr>) = queued c" "queued (c\<lparr>rc_is_player := b\<rparr>) = queued c"
  "queued (emit evs c) = queued c" "queued (ParseNameAndTcUrl c) = queued c"
  by (simp_all add: out_inv_def queued_def emit_def ParseNameAndTcUrl_def Let_def split: prod.splits)

text \<open>The names the server derives for a stream it is asked for.\<close>

definition named :: "bool \<Rightarrow> string \<Rightarrow> RtmpContext \<Rightarrow> RtmpContext" where
  "named player name c = (ParseNameAndTcUrl (c\<lparr>rc_name := name\<rparr>))\<lparr>rc_is_player := player\<rparr>"

lemma named_frame [simp]:
  "out_inv (named b n c) = out_inv c" "queued (named b n c) = queued c" "rc_handler (named b n c) = rc_handler c"
  "rc_events (named b n c) = rc_events c"
  by (simp_all add: named_def) (simp_all add: ParseNameAndTcUrl_def Let_def split: prod.splits)

lemma HandlePlay_ok:
  assumes q: "carries q kRtmpMsgTypeAMFMessage (concat (map amf_enc (play_args name)))"
    and c: "out_inv c" "rc_handler c" "length name < 65536"
  defines "n \<equiv> named True name c"
  shows "\<exists>c' p0 p. HandleAmfCommand q False c = Inr c' \<and> out_inv c' \<and> only_sent n c' \<and>
           EvPlay (rc_session_name n) (rc_param n) \<in> set (rc_events c') \<and> queued c' = queued c @ [p0, p] \<and>
           carries p kRtmpMsgTypeAMFMessage
             (concat (map amf_enc (status_args ''status'' ''NetStream.Play.Start'' ''Start Playing'')))"
proof -
  have vis: "amf_visible (play_args name) = play_args name"
    by (simp add: play_args_def amf_length_defs)
  have "HandleAmfCommand q False c = HandlePlay (map amf_conv (play_args name)) c"
    using HandleAmf_message [OF q command_args_wf(4) [OF c(3)], of c] unfolding vis
    by (simp add: play_args_def Property_index_def)
  also have "\<dots> = rbind (SendUserCtrlMessage kRtmpEventTypeStreamBegin 1 0 n) (\<lambda>c.
        rbind (SendStatus ''status'' ''NetStream.Play.Start'' ''Start Playing'' c) (\<lambda>c.
          Inr (if rc_handler c then emit [EvPlay (rc_session_name c) (rc_param c)] c else c)))"
    by (simp add: HandlePlay_def play_args_def Property_index_def n_def named_def Let_def)
  finally have eq: "HandleAmfCommand q False c = \<dots>" .
  have n: "out_inv n" "queued n = queued c" "rc_handler n" using c by (simp_all add: n_def)
  obtain c1 p0 where 1: "SendUserCtrlMessage kRtmpEventTypeStreamBegin 1 0 n = Inr c1" "out_inv c1"
    "only_sent n c1" "queued c1 = queued n @ [p0]"
    using control_sends(4) [OF n(1)] by blast
  obtain c2 p where 2: "SendStatus ''status'' ''NetStream.Play.Start'' ''Start Playing'' c1 = Inr c2" "out_inv c2"
    "only_sent c1 c2" "queued c2 = queued c1 @ [p]" "carries p kRtmpMsgTypeAMFMessage
             (concat (map amf_enc (status_args ''status'' ''NetStream.Play.Start'' ''Start Playing'')))"
    using SendStatus_ok [OF 1(2), of "''status''" "''NetStream.Play.Start''" "''Start Playing''"] by auto
  have 3: "only_sent n c2" using 1(3) 2(3) by (rule only_sent_trans)
  note f = only_sent_frame [OF 3]
  let ?c = "emit [EvPlay (rc_session_name n) (rc_param n)] c2"
  have "HandleAmfCommand q False c = Inr ?c" using eq 1 2 f n by simp
  moreover have "only_sent n ?c" using 3 only_sent_emit by (rule only_sent_trans)
  moreover have "EvPlay (rc_session_name n) (rc_param n) \<in> set (rc_events ?c)" by (simp add: emit_def)
  ultimately show ?thesis using 1 2 n(2) by (intro exI [of _ ?c] exI [of _ p0] exI [of _ p]) simp
qed

lemma HandlePublish_ok:
  assumes q: "carries q kRtmpMsgTypeAMFMessage (concat (map amf_enc (publish_args name)))"
    and c: "out_inv c" "rc_handler c" "length name < 65536"
  defines "n \<equiv> named False name c"
  shows "\<exists>c' p. HandleAmfCommand q False c = Inr c' \<and> out_inv c' \<and> only_sent n c' \<and>
           EvPublish (rc_session_name n) (rc_param n) \<in> set (rc_events c') \<and> queued c' = queued c @ [p] \<and>
           carries p kRtmpMsgTypeAMFMessage
             (concat (map amf_enc (status_args ''status'' ''NetStream.Publish.Start'' ''Start Publishing'')))"
proof -
  have vis: "amf_visible (publish_args name) = publish_args name"
    by (simp add: publish_args_def amf_length_defs)
  have "HandleAmfCommand q False c = HandlePublish (map amf_conv (publish_args name)) c"
    using HandleAmf_message [OF q command_args_wf(5) [OF c(3)], of c] unfolding vis
    by (simp add: publish_args_def Property_index_def)
  also have "\<dots> = rbind (SendStatus ''status'' ''NetStream.Publish.Start'' ''Start Publishing'' n) (\<lambda>c.
          Inr (if rc_handler c then emit [EvPublish (rc_session_name c) (rc_param c)] c else c))"
    by (simp add: HandlePublish_def publish_args_def Property_index_def n_def named_def Let_def)
  finally have eq: "HandleAmfCommand q False c = \<dots>" .
  have n: "out_inv n" "queued n = queued c" "rc_handler n" using c by (simp_all add: n_def)
  obtain c2 p where 2: "SendStatus ''status'' ''NetStream.Publish.Start'' ''Start Publishing'' n = Inr c2" "out_inv c2"
    "only_sent n c2" "queued c2 = queued n @ [p]" "carries p kRtmpMsgTypeAMFMessage
             (concat (map amf_enc (status_args ''status'' ''NetStream.Publish.Start'' ''Start Publishing'')))"
    using SendStatus_ok [OF n(1), of "''status''" "''NetStream.Publish.Start''" "''Start Publishing''"] by auto
  note f = only_sent_frame [OF 2(3)]
  let ?c = "emit [EvPublish (rc_session_name n) (rc_param n)] c2"
  have "HandleAmfCommand q False c = Inr ?c" using eq 2 f n by simp
  moreover have "only_sent n ?c" using 2(3) only_sent_emit by (rule only_sent_trans)
  moreover have "EvPublish (rc_session_name n) (rc_param n) \<in> set (rc_events ?c)" by (simp add: emit_def)
  ultimately show ?thesis using 2 n(2) by (intro exI [of _ ?c] exI [of _ p]) simp
qed

lemma HandleStatus_message:
  assumes q: "carries q kRtmpMsgTypeAMFMessage (concat (map amf_enc (status_args ''status'' code desc)))"
    and len: "length code < 65536" "length desc < 65536" and c: "rc_handler c"
  shows "code = ''NetStream.Play.Start'' \<Longrightarrow>
           HandleAmfCommand q False c = Inr (emit [EvPlay (rc_session_name c) (rc_param c)] c)"
    and "code = ''NetStream.Publish.Start'' \<Longrightarrow>
           HandleAmfCommand q False c = Inr (emit [EvPublish (rc_session_name c) (rc_param c)] c)"
proof -
  have vis: "map amf_conv (amf_visible (status_args ''status'' code desc)) = status_args ''status'' code desc"
    by (simp add: status_args_def amf_length_defs)
  have eq: "HandleAmfCommand q False c = HandleStatus (status_args ''status'' code desc) c"
    using HandleAmf_message [OF q command_args_wf(6), of c] len unfolding vis
    by (simp add: status_args_def Property_index_def)
  show "code = ''NetStream.Play.Start'' \<Longrightarrow>
           HandleAmfCommand q False c = Inr (emit [EvPlay (rc_session_name c) (rc_param c)] c)"
    and "code = ''NetStream.Publish.Start'' \<Longrightarrow>
           HandleAmfCommand q False c = Inr (emit [EvPublish (rc_session_name c) (rc_param c)] c)"
    using c unfolding eq
    by (simp_all add: HandleStatus_def status_args_def info_field_def Property_index_def)
qed

section \<open>A whole session\<close>

text \<open>
  A client and a server that hand each other the last message they queued: connect,
  createStream and play or publish, up to the status the client gets.
\<close>

definition last_message :: "RtmpContext \<Rightarrow> RtmpPacket" where
  "last_message c = last (queued c)"

definition run_session :: "RtmpContext \<Rightarrow> RtmpContext \<Rightarrow> (RtmpContext \<times> RtmpContext) result" where
  "run_session c s =
     rbind (SendConnect c) (\<lambda>c. rbind (HandleAmfCommand (last_message c) False s) (\<lambda>s.
     rbind (HandleAmfCommand (last_message s) False c) (\<lambda>c. rbind (HandleAmfCommand (last_message c) False s) (\<lambda>s.
     rbind (HandleAmfCommand (last_message s) False c) (\<lambda>c. rbind (HandleAmfCommand (last_message c) False s) (\<lambda>s.
     rbind (HandleAmfCommand (last_message s) False c) (\<lambda>c. Inr (c, s))))))))"

text \<open>The first five steps, which play and publish share.\<close>

lemma session_start:
  assumes c: "out_inv c" and s: "out_inv s"
    and len: "length (rc_app c) + length (rc_tc_url c) \<le> 800"
  obtains c3 s3 where "out_inv c3" "only_sent c c3" "out_inv s3"
    "only_sent (s\<lparr>rc_tc_url := rc_tc_url c, rc_app := rc_app c\<rparr>) s3"
    "run_session c s = rbind (if rc_is_player c3 then SendPlay c3 else SendPublish c3) (\<lambda>c.
       rbind (HandleAmfCommand (last_message c) False s3) (\<lambda>s.
       rbind (HandleAmfCommand (last_message s) False c) (\<lambda>c. Inr (c, s))))"
proof -
  have l: "length (rc_app c) < 65536" "length (rc_tc_url c) < 65536" using len by simp_all
  obtain c1 p0 p1 where 1: "SendConnect c = Inr c1" "out_inv c1" "only_sent c c1"
    "carries p1 kRtmpMsgTypeAMFMessage (connect_body (rc_app c) (rc_tc_url c))" "queued c1 = queued c @ [p0, p1]"
    using SendConnect_ok [OF c len] by blast
  obtain s1 a b d p2 where 2: "HandleAmfCommand p1 False s = Inr s1" "out_inv s1"
    "only_sent (s\<lparr>rc_tc_url := rc_tc_url c, rc_app := rc_app c\<rparr>) s1" "queued s1 = queued s @ [a, b, d, p2]"
    "carries p2 kRtmpMsgTypeAMFMessage (connect_result_body False)"
    using HandleConnect_ok [OF 1(4) l s] by blast
  obtain c2 p3 where 3: "SendCreateStream c1 = Inr c2" "out_inv c2" "only_sent c1 c2"
    "carries p3 kRtmpMsgTypeAMFMessage (concat (map amf_enc create_stream_args))" "queued c2 = queued c1 @ [p3]"
    using create_stream_ok [OF 1(2)] by blast
  obtain s2 p4 where 4: "HandleAmfCommand p3 False s1 = Inr s2" "out_inv s2" "only_sent s1 s2"
    "carries p4 kRtmpMsgTypeAMFMessage (concat (map amf_enc create_result_args))" "queued s2 = queued s1 @ [p4]"
    using HandleCreateStream_ok [OF 3(4) 2(2)] by blast
  have "run_session c s = rbind (if rc_is_player c2 then SendPlay c2 else SendPublish c2) (\<lambda>c.
       rbind (HandleAmfCommand (last_message c) False s2) (\<lambda>s.
       rbind (HandleAmfCommand (last_message s) False c) (\<lambda>c. Inr (c, s))))"
    using 1(1,5) 2(1,4) 3(1,5) 4(1,5) HandleResult_message [OF 2(5), of c1] HandleResult_stream [OF 4(4), of c2]
    by (simp add: run_session_def last_message_def)
  moreover have "only_sent c c2" "only_sent (s\<lparr>rc_tc_url := rc_tc_url c, rc_app := rc_app c\<rparr>) s2"
    using 1(3) 3(3) 2(3) 4(3) by (blast intro: only_sent_trans)+
  ultimately show thesis using that 3(2) 4(2) by blast
qed

lemma named_cong:
  assumes "only_sent s s'"
  shows "rc_session_name (named b n s') = rc_session_name (named b n s)"
    and "rc_param (named b n s') = rc_param (named b n s)"
  using only_sent_frame [OF assms]
  by (simp_all add: named_def ParseNameAndTcUrl_def split: prod.splits)

lemma run_session_play:
  assumes c: "out_inv c" "rc_handler c" "rc_is_player c" and s: "out_inv s" "rc_handler s"
    and len: "length (rc_app c) + length (rc_tc_url c) \<le> 800" "length (rc_name c) \<le> 900"
  defines "n \<equiv> named True (rc_name c) (s\<lparr>rc_tc_url := rc_tc_url c, rc_app := rc_app c\<rparr>)"
  shows "\<exists>c' s'. run_session c s = Inr (c', s') \<and> out_inv c' \<and> out_inv s' \<and>
           EvPlay (rc_session_name n) (rc_param n) \<in> set (rc_events s') \<and>
           EvPlay (rc_session_name c) (rc_param c) \<in> set (rc_events c')"
proof -
  obtain c3 s3 where 3: "out_inv c3" "only_sent c c3" "out_inv s3"
    "only_sent (s\<lparr>rc_tc_url := rc_tc_url c, rc_app := rc_app c\<rparr>) s3"
    "run_session c s = rbind (if rc_is_player c3 then SendPlay c3 else SendPublish c3) (\<lambda>c.
       rbind (HandleAmfCommand (last_message c) False s3) (\<lambda>s.
       rbind (HandleAmfCommand (last_message s) False c) (\<lambda>c. Inr (c, s))))"
    by (rule session_start [OF c(1) s(1) len(1)])
  note fc = only_sent_frame [OF 3(2)] and fs = only_sent_frame [OF 3(4)]
  have "length (rc_name c3) \<le> 900" using len(2) fc by simp
  from SendPlay_ok [OF 3(1) this] obtain c4 p where 4: "SendPlay c3 = Inr c4" "out_inv c4" "only_sent c3 c4"
    "carries p kRtmpMsgTypeAMFMessage (concat (map amf_enc (play_args (rc_name c3))))" "queued c4 = queued c3 @ [p]"
    by blast
  note fc4 = only_sent_frame [OF 4(3)]
  have "rc_handler s3" "length (rc_name c3) < 65536" using s(2) len(2) fs fc by simp_all
  from HandlePlay_ok [OF 4(4) 3(3) this] obtain s4 q0 q where 5: "HandleAmfCommand p False s3 = Inr s4" "out_inv s4"
    "EvPlay (rc_session_name (named True (rc_name c3) s3)) (rc_param (named True (rc_name c3) s3)) \<in> set (rc_events s4)"
    "queued s4 = queued s3 @ [q0, q]" "carries q kRtmpMsgTypeAMFMessage
             (concat (map amf_enc (status_args ''status'' ''NetStream.Play.Start'' ''Start Playing'')))" by blast
  have 6: "HandleAmfCommand q False c4 = Inr (emit [EvPlay (rc_session_name c4) (rc_param c4)] c4)"
    using HandleStatus_message(1) [OF 5(5), of c4] c(2) fc fc4 by simp
  have "run_session c s = Inr (emit [EvPlay (rc_session_name c4) (rc_param c4)] c4, s4)"
    using 3(5) 4(1,5) 5(1,4) 6 c(3) fc by (simp add: last_message_def)
  moreover have "EvPlay (rc_session_name n) (rc_param n) \<in> set (rc_events s4)"
    using 5(3) named_cong [OF 3(4)] fc by (simp add: n_def)
  moreover have "EvPlay (rc_session_name c) (rc_param c) \<in> set (rc_events (emit [EvPlay (rc_session_name c4) (rc_param c4)] c4))"
    using fc fc4 by (simp add: emit_def)
  ultimately show ?thesis using 4(2) 5(2) by (intro exI conjI) (assumption | simp)+
qed

lemma run_session_publish:
  assumes c: "out_inv c" "rc_handler c" "\<not> rc_is_player c" and s: "out_inv s" "rc_handler s"
    and len: "length (rc_app c) + length (rc_tc_url c) \<le> 800" "length (rc_name c) \<le> 900"
  defines "n \<equiv> named False (rc_name c) (s\<lparr>rc_tc_url := rc_tc_url c, rc_app := rc_app c\<rparr>)"
  shows "\<exists>c' s'. run_session c s = Inr (c', s') \<and> out_inv c' \<and> out_inv s' \<and>
           EvPublish (rc_session_name n) (rc_param n) \<in> set (rc_events s') \<and>
           EvPublish (rc_session_name c) (rc_param c) \<in> set (rc_events c')"
proof -
  obtain c3 s3 where 3: "out_inv c3" "only_sent c c3" "out_inv s3"
    "only_sent (s\<lparr>rc_tc_url := rc_tc_url c, rc_app := rc_app c\<rparr>) s3"
    "run_session c s = rbind (if rc_is_player c3 then SendPlay c3 else SendPublish c3) (\<lambda>c.
       rbind (HandleAmfCommand (last_message c) False s3) (\<lambda>s.
       rbind (HandleAmfCommand (last_message s) False c) (\<lambda>c. Inr (c, s))))"
    by (rule session_start [OF c(1) s(1) len(1)])
  note fc = only_sent_frame [OF 3(2)] and fs = only_sent_frame [OF 3(4)]
  have "length (rc_name c3) \<le> 900" using len(2) fc by simp
  from SendPublish_ok [OF 3(1) this] obtain c4 p where 4: "SendPublish c3 = Inr c4" "out_inv c4" "only_sent c3 c4"
    "carries p kRtmpMsgTypeAMFMessage (concat (map amf_enc (publish_args (rc_name c3))))" "queued c4 = queued c3 @ [p]"
    by blast
  note fc4 = only_sent_frame [OF 4(3)]
  have "rc_handler s3" "length (rc_name c3) < 65536" using s(2) len(2) fs fc by simp_all
  from HandlePublish_ok [OF 4(4) 3(3) this] obtain s4 q where 5: "HandleAmfCommand p False s3 = Inr s4" "out_inv s4"
    "EvPublish (rc_session_name (named False (rc_name c3) s3)) (rc_param (named False (rc_name c3) s3)) \<in> set (rc_events s4)"
    "queued s4 = queued s3 @ [q]" "carries q kRtmpMsgTypeAMFMessage
             (concat (map amf_enc (status_args ''status'' ''NetStream.Publish.Start'' ''Start Publishing'')))" by blast
  have 6: "HandleAmfCommand q False c4 = Inr (emit [EvPublish (rc_session_name c4) (rc_param c4)] c4)"
    using HandleStatus_message(2) [OF 5(5), of c4] c(2) fc fc4 by simp
  have "run_session c s = Inr (emit [EvPublish (rc_session_name c4) (rc_param c4)] c4, s4)"
    using 3(5) 4(1,5) 5(1,4) 6 c(3) fc by (simp add: last_message_def)
  moreover have "EvPublish (rc_session_name n) (rc_param n) \<in> set (rc_events s4)"
    using 5(3) named_cong [OF 3(4)] fc by (simp add: n_def)
  moreover have "EvPublish (rc_session_name c) (rc_param c) \<in> set (rc_events (emit [EvPublish (rc_session_name c4) (rc_param c4)] c4))"
    using fc fc4 by (simp add: emit_def)
  ultimately show ?thesis using 4(2) 5(2) by (intro exI conjI) (assumption | simp)+
qed

section \<open>Names\<close>

lemma take_find_first_of: "find_first_of cs s = Some n \<Longrightarrow> find_first_of cs (take n s) = None"
  using find_first_of_Some [of cs s n] by (auto simp: find_first_of_None in_set_conv_nth)

text \<open>
  The server's name for the stream is the client's, when the url has the parts that decide it.
\<close>

lemma parse_names_again:
  assumes "length (SplitString url ''/'') \<in> {4, 5, 6}" and "parse_names url app name = (app1, param1, name1, s1)"
  shows "snd (snd (snd (parse_names url app1 name1))) = s1"
proof -
  let ?l = "SplitString url ''/''"
  obtain name0 where n0: "find_first_of {CHR ''?''} name0 = None"
    "snd (case find_first_of {CHR ''?''} name of
       Some pos \<Rightarrow> (drop (pos + 1) name, take pos name) | None \<Rightarrow> ([], name)) = name0"
    by (cases "find_first_of {CHR ''?''} name") (auto dest: take_find_first_of)
  consider "length ?l = 4" | "length ?l = 5" | "length ?l = 6" using assms(1) by auto
  then show ?thesis
    using assms(2) n0 by cases (auto simp: parse_names_def url_parts_def Let_def split: prod.splits)
qed

lemma session_name_agrees:
  fixes c s :: RtmpContext
  assumes "length (SplitString url ''/'') \<in> {4, 5, 6}"
  defines "c' \<equiv> Play url c"
  shows "rc_session_name (named b (rc_name c') (s\<lparr>rc_tc_url := rc_tc_url c', rc_app := rc_app c'\<rparr>)) = rc_session_name c'"
proof -
  obtain app1 param1 name1 s1 where p: "parse_names url (rc_app c) (rc_name c) = (app1, param1, name1, s1)"
    by (cases "parse_names url (rc_app c) (rc_name c)") auto
  from parse_names_again [OF assms(1) p] p show ?thesis
    by (auto simp: c'_def Play_def named_def ParseNameAndTcUrl_def split: prod.splits)
qed

text \<open>The session name of a url, in its four- and six-part forms, without the port.\<close>

lemma split_rest_part:
  "CHR ''/'' \<notin> set p \<Longrightarrow> split_rest ''/'' (p @ CHR ''/'' # s) = p # split_rest ''/'' s"
  "CHR ''/'' \<notin> set p \<Longrightarrow> p \<noteq> [] \<Longrightarrow> split_rest ''/'' p = [p]"
  by (subst split_rest.simps, simp add: string_find_char)+

lemma find_first_of_append:
  "ch \<notin> set p \<Longrightarrow> find_first_of {ch} (p @ ch # s) = Some (length p)"
  by (induction p) auto

lemma session_name_of_url:
  assumes parts: "CHR ''/'' \<notin> set host" "CHR ''/'' \<notin> set domain" "CHR '':'' \<notin> set domain"
      "CHR ''/'' \<notin> set port" "CHR ''/'' \<notin> set app" "app \<noteq> []" "CHR ''/'' \<notin> set name" "name \<noteq> []"
  shows "rc_session_name (Play (''rtmp://'' @ host @ ''/'' @ domain @ '':'' @ port @ ''/'' @ app @ ''/'' @ name) c)
           = domain @ ''/'' @ app @ ''/'' @ name"
proof -
  define url where "url = ''rtmp://'' @ host @ ''/'' @ domain @ '':'' @ port @ ''/'' @ app @ ''/'' @ name"
  have d: "CHR ''/'' \<notin> set (domain @ '':'' @ port)" using parts by simp
  have l: "SplitString url ''/'' = [''rtmp:'', [], host, domain @ '':'' @ port, app, name]"
    using split_rest_part(1) [of "''rtmp:''"] split_rest_part(1) [of "[]"] split_rest_part(1) [OF parts(1)]
      split_rest_part(1) [OF d] split_rest_part(1) [OF parts(5)] split_rest_part(2) [OF parts(7,8)]
    by (simp add: SplitString_def url_def)
  show ?thesis
    unfolding url_def [symmetric] using find_first_of_append [OF parts(3), of port]
    by (simp add: Play_def ParseNameAndTcUrl_def parse_names_def url_parts_def l Let_def split: prod.splits)
qed

section \<open>Control and media messages\<close>

text \<open>A message that is not a command: no fault, and the invariants are kept.\<close>

lemma sint_bound: "sint (w :: u32) < 2 ^ 31"
  using sint_range_size [of w] by (simp add: word_size)

lemma MessageComplete_ok:
  assumes p: "packet_inv p" and c: "out_inv c" "rin_inv (rc_in c)"
    and ty: "pk_type p \<noteq> ucast kRtmpMsgTypeAMFMessage" "pk_type p \<noteq> ucast kRtmpMsgTypeAMF3Message"
  shows "\<exists>c'. MessageComplete p c = Inr c' \<and> out_inv c' \<and> rin_inv (rc_in c')"
proof -
  have len: "pk_size p \<le> length (pk_data p)" using p by (simp add: packet_inv_def)
  have chunk: "\<exists>c'. HandleChunkSize p c = Inr c' \<and> out_inv c' \<and> rin_inv (rc_in c')"
  proof (cases "4 \<le> pk_size p")
    case True
    then obtain v where "ReadUint32T (pk_data p) = Inr v" using readE(1) [of "pk_data p"] len by auto
    with True c sint_bound [of v] show ?thesis by (simp add: HandleChunkSize_def out_inv_def rin_inv_def)
  qed (simp add: HandleChunkSize_def c)
  have ack: "\<exists>c'. HandleAckWindowSize p c = Inr c' \<and> out_inv c' \<and> rin_inv (rc_in c')"
  proof (cases "4 \<le> pk_size p")
    case True
    then obtain v where "ReadUint32T (pk_data p) = Inr v" using readE(1) [of "pk_data p"] len by auto
    with True c show ?thesis by (simp add: HandleAckWindowSize_def out_inv_def)
  qed (simp add: HandleAckWindowSize_def c)
  have user: "\<exists>c'. HandleUserMessage p c = Inr c' \<and> out_inv c' \<and> rin_inv (rc_in c')"
  proof (cases "6 \<le> pk_size p")
    case True
    then obtain t v where t: "ReadUint16T (pk_data p) = Inr t" "ReadUint32T (drop 2 (pk_data p)) = Inr v"
      using readE(3) [of "pk_data p"] read_dropE(1) [of 2 "pk_data p"] len by auto
    obtain c' where "SendUserCtrlMessage kRtmpEventTypePingResponse v 0 c = Inr c'" "out_inv c'" "only_sent c c'"
      using control_sends(4) [OF c(1)] by blast
    with True t c only_sent_frame(4) show ?thesis by (auto simp: HandleUserMessage_def)
  qed (simp add: HandleUserMessage_def c)
  have em: "out_inv (emit evs c) \<and> rin_inv (rc_in (emit evs c))" for evs
    using c by (simp add: emit_def out_inv_def)
  show ?thesis
    using chunk ack user em ty c unfolding MessageComplete_def Let_def
    by (simp split: if_split)
qed

text \<open>
  The answer to a ping carries the value where the type belongs: the type a receiver reads
  is the upper half of the value.
\<close>

lemma ping_response_body:
  "user_ctrl_body kRtmpEventTypePingResponse v w = WriteUint32T v @ [0, 0]"
proof -
  have "replicate 2 (0 :: u8) = [0, 0]" by (simp add: numeral_2_eq_2)
  then show ?thesis
    by (simp add: user_ctrl_body_def kRtmpEventTypePingResponse_def kRtmpEventTypeSetBufferLength_def
        blit_def)
qed

section \<open>The loop ends\<close>

lemma fueled_case_option:
  "(x = None \<Longrightarrow> fueled a) \<Longrightarrow> (\<And>y. x = Some y \<Longrightarrow> fueled (f y)) \<Longrightarrow>
     fueled (case x of None \<Rightarrow> a | Some y \<Rightarrow> f y)"
  by (cases x) auto

lemma fueled_case_prod: "(\<And>a b. x = (a, b) \<Longrightarrow> fueled (f a b)) \<Longrightarrow> fueled (case x of (a, b) \<Rightarrow> f a b)"
  by (cases x) auto

lemma fueled_if: "(P \<Longrightarrow> fueled a) \<Longrightarrow> (\<not> P \<Longrightarrow> fueled b) \<Longrightarrow> fueled (if P then a else b)"
  by simp

lemmas fueled_intros = fueled_rbind fueled_case_option fueled_case_prod fueled_if

lemma fueled_basic [simp]:
  "fueled (nth_checked xs i)" "fueled (out_write p d)" "fueled (NewPacket n)" "fueled (packet_append d q)"
  "fueled (deref x)" "fueled (load_u32 d)"
  by (auto simp: nth_checked_def out_write_def NewPacket_def packet_append_def deref_def split: option.splits)
    (cases d rule: load_u32.cases; simp)

lemma fueled_chunk_loop [simp]: "fueled (chunk_loop hdr data len parsed pos)"
proof (induction hdr data len parsed pos rule: chunk_loop.induct)
  case (1 hdr data len parsed pos)
  show ?case
    by (subst chunk_loop.simps) (auto simp: Let_def intro!: fueled_intros 1)
qed

lemma fueled_send [simp]:
  "fueled (build_chunks p h u t s)" "fueled (BuildChunk_move p t f s)"
  by (auto simp: build_chunks_def BuildChunk_move_def Let_def intro!: fueled_intros)

lemma fueled_waiting [simp]: "fueled (build_waiting n s)"
  by (induction n arbitrary: s) (auto intro!: fueled_intros split: list.split)

lemma fueled_push [simp]: "fueled (send_message cap csid sid ty body c)"
  by (auto simp: send_message_def message_packet_def rc_push_def PushOutQueue_def Send_def intro!: fueled_intros)

lemma fueled_commands [simp]:
  "fueled (SendSetChunkSize c)" "fueled (SendAckWindowSize c)" "fueled (SendSetPeerBandwidth c)"
  "fueled (SendBytesRecv c)" "fueled (SendUserCtrlMessage t v w c)" "fueled (send_command sid body c)"
  "fueled (SendCreateStream c)" "fueled (SendStatus l cd d c)" "fueled (SendPlay c)" "fueled (SendPublish c)"
  by (auto simp: SendSetChunkSize_def SendAckWindowSize_def SendSetPeerBandwidth_def SendBytesRecv_def
      SendUserCtrlMessage_def send_command_def SendCreateStream_def SendStatus_def SendPlay_def
      SendPublish_def intro!: fueled_intros)

lemma fueled_connect [simp]: "fueled (HandleConnect obj c)"
  by (auto simp: HandleConnect_def Let_def intro!: fueled_intros)

lemma fueled_handlers [simp]:
  "fueled (HandleCreateStream obj c)" "fueled (HandlePlay obj c)" "fueled (HandlePublish obj c)"
  "fueled (HandleResult obj c)"
  by (auto simp: HandleCreateStream_def HandlePlay_def HandlePublish_def HandleResult_def Let_def intro!: fueled_intros)

lemma fueled_status [simp]:
  "fueled (info_field n obj)" "fueled (HandleError obj c)" "fueled (HandleStatus obj c)"
  by (auto simp: info_field_def HandleError_def HandleStatus_def intro!: fueled_intros)

lemma fueled_amf_Decode [simp]: "fueled (amf_Decode data sz)"
  using amf_fueled(1) [of data "amf_fuel data"] by (simp add: amf_Decode_def amf_fuel_def)

lemma fueled_command_table: "rtmp_commands m = Some f \<Longrightarrow> fueled (f obj c)"
  by (auto simp: rtmp_commands_def split: if_splits)

lemma fueled_MessageComplete [simp]: "fueled (MessageComplete p c)"
proof -
  have "fueled (HandleAmfCommand p b c)" for b
    unfolding HandleAmfCommand_def Let_def
    by (intro fueled_intros) (simp_all add: fueled_command_table)
  moreover have "fueled (HandleChunkSize p c)" "fueled (HandleAckWindowSize p c)" "fueled (HandleUserMessage p c)"
    unfolding HandleChunkSize_def HandleAckWindowSize_def HandleUserMessage_def
    by (auto intro!: fueled_intros)
  ultimately show ?thesis
    unfolding MessageComplete_def Let_def by (intro fueled_if) simp_all
qed

lemma fueled_parse_chunk [simp]: "fueled (parse_chunk s d)"
proof -
  have body: "fueled (chunk_body s fmt csid prev h p d)" for s fmt csid prev h p d
    by (auto simp: chunk_body_def Let_def intro!: fueled_intros)
  have ext: "fueled (extended_timestamp s fmt csid prev h p ts d)" for s fmt csid prev h p ts d
    by (auto simp: extended_timestamp_def Let_def intro!: fueled_intros body)
  have "fueled (message_header fmt prev delta h d)" "fueled (chunk_msg_len s fmt csid d)"
    "fueled (current_packet s csid m)" for fmt prev delta h d s csid m
    by (auto simp: message_header_def chunk_msg_len_def current_packet_def Let_def intro!: fueled_intros)
  then show ?thesis
    by (auto simp: parse_chunk_def basic_header_def parse_message_def Let_def intro!: fueled_intros ext)
qed

text \<open>A round takes at least one byte out of the buffer, so the bytes in it bound the rounds.\<close>

lemma parse_loop_fueled:
  assumes "mb_inv buf" and "ReadableBytes buf < f"
  shows "fueled (parse_loop f c buf)"
  using assms
proof (induction f arbitrary: c buf)
  case (Suc f)
  let ?d = "buf_contents buf"
  show ?case
  proof (cases "1 < length ?d")
    case False
    with Suc.prems(1) show ?thesis by (simp add: Let_def)
  next
    case True
    have step: "fueled (parse_loop f c' (Retrieve (length ?d - length rest) buf))"
      if "parse_chunk (rc_in c) ?d = Inr (GotChunk s rest p)" for s rest p c'
    proof -
      have "?d \<noteq> []" using True by auto
      from parse_chunk_consumes [OF that this] have "length rest < length ?d" .
      moreover have "ReadableBytes (Retrieve n buf) = ReadableBytes buf - n" for n
        using Suc.prems(1) length_buf_contents [OF Retrieve_inv [OF Suc.prems(1)], of n] by simp
      ultimately show ?thesis
        using Suc.prems by (intro Suc.IH) auto
    qed
    show ?thesis
    proof (cases "parse_chunk (rc_in c) ?d")
      case (Inl e)
      with True fueled_parse_chunk [of "rc_in c" ?d] show ?thesis by (simp add: Let_def)
    next
      case (Inr out)
      with True step show ?thesis
        by (cases out) (auto simp: Let_def intro!: fueled_intros)
    qed
  qed
qed simp

lemma ParseMessage_fueled: "mb_inv buf \<Longrightarrow> fueled (ParseMessage c buf)"
  unfolding ParseMessage_def by (intro fueled_intros parse_loop_fueled) (simp_all del: parse_loop.simps)

end
