(* ===== verification/RtmpParse.thy ===== *)
theory RtmpParse
  imports RtmpSession
begin

text \<open>
  How \<open>ParseMessage\<close> ends: the rounds of its loop as a step relation, what every handler
  keeps of the context, and the three ways a run of the loop can go.
\<close>

section \<open>What the command handlers keep\<close>

text \<open>
  A handler that comes back leaves the queue's promise and the receiving fields alone.
\<close>

definition keeps_out :: "RtmpContext \<Rightarrow> RtmpContext result \<Rightarrow> bool" where
  "keeps_out c r \<longleftrightarrow> (out_inv c \<longrightarrow> (\<forall>c'. r = Inr c' \<longrightarrow> out_inv c' \<and> rc_in c' = rc_in c))"

lemma keeps_outD: "keeps_out c r \<Longrightarrow> out_inv c \<Longrightarrow> r = Inr c' \<Longrightarrow> out_inv c' \<and> rc_in c' = rc_in c"
  by (simp add: keeps_out_def)

lemma keeps_out_fault [simp]: "keeps_out c (Inl e)"
  by (simp add: keeps_out_def)

lemma keeps_out_Inr: "(out_inv c \<Longrightarrow> out_inv c' \<and> rc_in c' = rc_in c) \<Longrightarrow> keeps_out c (Inr c')"
  by (simp add: keeps_out_def)

lemma keeps_out_same [simp]: "keeps_out c (Inr c)" "keeps_out c (Inr (emit evs c))"
  by (simp_all add: keeps_out_def emit_def out_inv_def)

lemma keeps_out_then: "keeps_out c r \<Longrightarrow> (\<And>c'. r = Inr c' \<Longrightarrow> keeps_out c' (f c')) \<Longrightarrow> keeps_out c (rbind r f)"
proof (cases r)
  case (Inr c1)
  assume k: "keeps_out c r" and f: "\<And>c'. r = Inr c' \<Longrightarrow> keeps_out c' (f c')"
  from f [OF Inr] have f1: "keeps_out c1 (f c1)" .
  show ?thesis
    unfolding keeps_out_def
  proof (intro impI allI)
    fix c' assume "out_inv c" and c': "rbind r f = Inr c'"
    from keeps_outD [OF k this(1) Inr] have c1: "out_inv c1" "rc_in c1 = rc_in c" by simp_all
    from c' Inr have "f c1 = Inr c'" by simp
    from keeps_outD [OF f1 c1(1) this] c1(2) show "out_inv c' \<and> rc_in c' = rc_in c" by simp
  qed
qed simp

lemma keeps_out_read: "(\<And>x. r = Inr x \<Longrightarrow> keeps_out c (f x)) \<Longrightarrow> keeps_out c (rbind r f)"
  by (cases r) auto

text \<open>Fields other than the queue and the receiving ones may change first.\<close>

lemma keeps_out_after:
  "keeps_out c1 r \<Longrightarrow> (out_inv c \<Longrightarrow> out_inv c1 \<and> rc_in c1 = rc_in c) \<Longrightarrow> keeps_out c r"
  unfolding keeps_out_def by metis

lemma keeps_out_if: "(P \<Longrightarrow> keeps_out c a) \<Longrightarrow> (\<not> P \<Longrightarrow> keeps_out c b) \<Longrightarrow> keeps_out c (if P then a else b)"
  by simp

lemma keeps_out_message: "cap \<le> max_queued_len \<Longrightarrow> keeps_out c (send_message cap csid sid ty body c)"
proof (cases "length body \<le> cap")
  case True
  assume "cap \<le> max_queued_len"
  with True send_message_ok [of c body cap csid sid ty] only_sent_frame(4) show ?thesis
    by (auto simp: keeps_out_def)
next
  case False
  then have "message_packet cap csid sid ty body = Inl OutOfBounds \<or> (\<exists>e. message_packet cap csid sid ty body = Inl e)"
    by (auto simp: message_packet_def rbind_def split: sum.splits)
  then show ?thesis by (auto simp: send_message_def)
qed

lemma keeps_out_sends [simp]:
  "keeps_out c (send_command sid body c)" "keeps_out c (SendSetChunkSize c)" "keeps_out c (SendAckWindowSize c)"
  "keeps_out c (SendSetPeerBandwidth c)" "keeps_out c (SendUserCtrlMessage t v w c)"
  "keeps_out c (SendStatus l s d c)" "keeps_out c (SendCreateStream c)" "keeps_out c (SendPlay c)"
  "keeps_out c (SendPublish c)"
  by (simp_all add: send_command_def SendSetChunkSize_def SendAckWindowSize_def SendSetPeerBandwidth_def
      SendUserCtrlMessage_def SendStatus_def SendCreateStream_def SendPlay_def SendPublish_def
      keeps_out_message max_queued_len_def)

lemma out_inv_fields:
  "out_inv (c\<lparr>rc_tc_url := a\<rparr>) = out_inv c" "out_inv (c\<lparr>rc_app := b\<rparr>) = out_inv c"
  by (simp_all add: out_inv_def)

lemma rc_in_names [simp]: "rc_in (ParseNameAndTcUrl c) = rc_in c"
  by (simp add: ParseNameAndTcUrl_def split: prod.splits)

lemma keeps_out_Connect: "keeps_out c (HandleConnect obj c)"
proof -
  have rest: "keeps_out c2 (rbind (SendAckWindowSize c2) (\<lambda>c. rbind (SendSetPeerBandwidth c) (\<lambda>c.
      rbind (SendSetChunkSize c) (\<lambda>c. send_command 0 (connect_result_body amf3) c))))" for c2 amf3
    by (intro keeps_out_then) simp_all
  show ?thesis
    unfolding HandleConnect_def Let_def
  proof (intro keeps_out_read, goal_cases)
    case (1 tc p2 x)
    obtain amf3 c2 where x: "x = (amf3, c2)" by (rule prod.exhaust)
    have "out_inv c2 = out_inv c" "rc_in c2 = rc_in c"
      using 1(3) x by (auto split: option.splits simp: rbind_def out_inv_fields split: sum.splits)
    then show ?case unfolding x prod.case by (intro keeps_out_after [OF rest]) simp
  qed
qed

lemma keeps_out_handlers:
  "keeps_out c (HandleCreateStream obj c)" "keeps_out c (HandlePlay obj c)" "keeps_out c (HandlePublish obj c)"
  "keeps_out c (HandleResult obj c)" "keeps_out c (HandleError obj c)" "keeps_out c (HandleStatus obj c)"
proof -
  show "keeps_out c (HandleCreateStream obj c)"
    unfolding HandleCreateStream_def by (intro keeps_out_read) simp
  show "keeps_out c (HandlePlay obj c)"
    unfolding HandlePlay_def Let_def
    by (rule keeps_out_read, rule keeps_out_read, rule keeps_out_after, rule keeps_out_then,
        rule keeps_out_sends(5), rule keeps_out_then) simp_all
  show "keeps_out c (HandlePublish obj c)"
    unfolding HandlePublish_def Let_def
    by (rule keeps_out_read, rule keeps_out_read, rule keeps_out_after, rule keeps_out_then,
        rule keeps_out_sends(6)) simp_all
  show "keeps_out c (HandleResult obj c)"
    unfolding HandleResult_def Let_def by (intro keeps_out_read) simp
  show "keeps_out c (HandleError obj c)"
    unfolding HandleError_def by (intro keeps_out_read) simp
  show "keeps_out c (HandleStatus obj c)"
    unfolding HandleStatus_def by (intro keeps_out_read) simp
qed

lemma keeps_out_Amf: "keeps_out c (HandleAmfCommand p b c)"
proof -
  have f: "rtmp_commands m = Some f \<Longrightarrow> keeps_out c (f obj c)" for m f obj
    by (auto simp: rtmp_commands_def keeps_out_handlers keeps_out_Connect split: if_splits)
  show ?thesis
    unfolding HandleAmfCommand_def Let_def
  proof (rule keeps_out_read, goal_cases)
    case (1 x)
    show ?case
    proof (cases x)
      case (Some r)
      obtain obj rest where "r = (obj, rest)" by (rule prod.exhaust)
      moreover have "keeps_out c (rbind (deref (Property_index 0 obj)) (\<lambda>method.
          case rtmp_commands (AMFAny_String method) of None \<Rightarrow> Inr c | Some f \<Rightarrow> f obj c))"
        by (rule keeps_out_read) (simp add: f split: option.split)
      ultimately show ?thesis using Some by simp
    qed simp
  qed
qed

definition amf_command :: "RtmpPacket \<Rightarrow> bool" where
  "amf_command p \<longleftrightarrow> pk_type p = ucast kRtmpMsgTypeAMFMessage \<or> pk_type p = ucast kRtmpMsgTypeAMF3Message"

lemma MessageComplete_keeps:
  assumes "packet_inv p" and "out_inv c" "rin_inv (rc_in c)" and "MessageComplete p c = Inr c'"
  shows "out_inv c' \<and> rin_inv (rc_in c')"
proof (cases "amf_command p")
  case True
  then obtain b where "MessageComplete p c = HandleAmfCommand p b c"
    by (auto simp: amf_command_def MessageComplete_def Let_def rtmp_msg_type_defs)
  with keeps_outD [OF keeps_out_Amf assms(2)] assms(3,4) show ?thesis by metis
next
  case False
  with MessageComplete_ok [OF assms(1-3)] assms(4) show ?thesis by (auto simp: amf_command_def)
qed

lemma MessageComplete_faults:
  assumes "packet_inv p" and "out_inv c" "rin_inv (rc_in c)" and "MessageComplete p c = Inl e"
  shows "amf_command p \<and> e \<noteq> OutOfFuel"
proof -
  have "fueled (MessageComplete p c)" by simp
  with assms(4) have "e \<noteq> OutOfFuel" by simp
  with MessageComplete_ok [OF assms(1-3)] assms(4) show ?thesis by (auto simp: amf_command_def)
qed

section \<open>The rounds of the loop\<close>

text \<open>
  A round: a whole chunk is there, it is taken off the buffer, and the message it completes,
  if it completes one, is handled.
\<close>

inductive parse_round :: "RtmpContext \<times> MsgBuffer \<Rightarrow> RtmpContext \<times> MsgBuffer \<Rightarrow> bool" where
  round_chunk: "1 < length (buf_contents buf) \<Longrightarrow>
    parse_chunk (rc_in c) (buf_contents buf) = Inr (GotChunk s rest None) \<Longrightarrow>
    parse_round (c, buf) (c\<lparr>rc_in := s\<rparr>, Retrieve (length (buf_contents buf) - length rest) buf)"
| round_message: "1 < length (buf_contents buf) \<Longrightarrow>
    parse_chunk (rc_in c) (buf_contents buf) = Inr (GotChunk s rest (Some p)) \<Longrightarrow>
    MessageComplete p (c\<lparr>rc_in := s\<rparr>) = Inr c' \<Longrightarrow>
    parse_round (c, buf) (c', Retrieve (length (buf_contents buf) - length rest) buf)"

text \<open>
  Where the loop stops by itself: at most a byte is left, or the bytes left are the start
  of a chunk, whose fields are kept.
\<close>

definition parse_done :: "RtmpContext \<Rightarrow> MsgBuffer \<Rightarrow> RtmpContext \<Rightarrow> bool" where
  "parse_done c buf c' \<longleftrightarrow>
     length (buf_contents buf) \<le> 1 \<and> c' = c \<or>
     (\<exists>s. 1 < length (buf_contents buf) \<and> parse_chunk (rc_in c) (buf_contents buf) = Inr (NeedMore s) \<and> c' = c\<lparr>rc_in := s\<rparr>)"

text \<open>Where it faults: the next chunk completes an AMF command whose handler faults.\<close>

definition command_faults :: "RtmpContext \<Rightarrow> MsgBuffer \<Rightarrow> fault \<Rightarrow> bool" where
  "command_faults c buf e \<longleftrightarrow> (\<exists>s rest p. 1 < length (buf_contents buf) \<and>
     parse_chunk (rc_in c) (buf_contents buf) = Inr (GotChunk s rest (Some p)) \<and>
     amf_command p \<and> MessageComplete p (c\<lparr>rc_in := s\<rparr>) = Inl e)"

definition parse_ctx_inv :: "RtmpContext \<Rightarrow> bool" where
  "parse_ctx_inv c \<longleftrightarrow> out_inv c \<and> rin_inv (rc_in c)"

lemma parse_ctx_in: "parse_ctx_inv c \<Longrightarrow> rin_inv s \<Longrightarrow> parse_ctx_inv (c\<lparr>rc_in := s\<rparr>)"
  by (simp add: parse_ctx_inv_def out_inv_def)

text \<open>The outcome of the loop from a state, \<open>(c1, buf1)\<close> being the state of its last round.\<close>

definition loop_outcome :: "RtmpContext \<Rightarrow> MsgBuffer \<Rightarrow> (RtmpContext \<times> MsgBuffer) result \<Rightarrow> bool" where
  "loop_outcome c buf r \<longleftrightarrow> (\<exists>c1 buf1. parse_round\<^sup>*\<^sup>* (c, buf) (c1, buf1) \<and> parse_ctx_inv c1 \<and> mb_inv buf1 \<and>
     ((\<exists>c'. r = Inr (c', buf1) \<and> parse_done c1 buf1 c' \<and> parse_ctx_inv c') \<or>
      (\<exists>e. r = Inl e \<and> e \<noteq> OutOfFuel \<and> command_faults c1 buf1 e) \<or>
      in_chunk_size (rc_in c1) < 0 \<and> r \<noteq> Inl OutOfFuel))"

lemma loop_outcome_step:
  "parse_round (c, buf) (c1, buf1) \<Longrightarrow> loop_outcome c1 buf1 r \<Longrightarrow> loop_outcome c buf r"
  unfolding loop_outcome_def by (elim exE conjE, intro exI conjI, erule (1) converse_rtranclp_into_rtranclp)

lemma parse_loop_outcome:
  assumes "mb_inv buf" and "ReadableBytes buf < f" and "parse_ctx_inv c" and "0 \<le> in_chunk_size (rc_in c)"
  shows "loop_outcome c buf (parse_loop f c buf)"
  using assms
proof (induction f arbitrary: c buf)
  case (Suc f)
  let ?d = "buf_contents buf"
  note here = loop_outcome_def [THEN iffD2, OF exI [of _ c], OF exI [of _ buf]]
  show ?case
  proof (cases "1 < length ?d")
    case False
    then have "parse_done c buf c" by (simp add: parse_done_def)
    with False Suc.prems show ?thesis by (intro here) (auto simp: Let_def)
  next
    case True
    then have "?d \<noteq> []" by auto
    from parse_chunk_ok [OF _ Suc.prems(4) this] Suc.prems(3) obtain out where
      out: "parse_chunk (rc_in c) ?d = Inr out" "chunk_out_ok ?d (in_chunk_size (rc_in c)) out"
      by (auto simp: parse_ctx_inv_def)
    show ?thesis
    proof (cases out)
      case (NeedMore s)
      with out True have "parse_done c buf (c\<lparr>rc_in := s\<rparr>)" "parse_ctx_inv (c\<lparr>rc_in := s\<rparr>)"
        using parse_ctx_in [OF Suc.prems(3)] by (auto simp: parse_done_def chunk_out_ok_def)
      with out True NeedMore Suc.prems show ?thesis by (intro here) (auto simp: Let_def)
    next
      case (GotChunk s rest p)
      let ?c = "c\<lparr>rc_in := s\<rparr>" and ?buf = "Retrieve (length ?d - length rest) buf"
      have c: "parse_ctx_inv ?c" "in_chunk_size (rc_in ?c) = in_chunk_size (rc_in c)"
        using out(2) GotChunk parse_ctx_in [OF Suc.prems(3)] by (auto simp: chunk_out_ok_def)
      have "length rest < length ?d" using parse_chunk_consumes [OF _ \<open>?d \<noteq> []\<close>] out(1) GotChunk by blast
      moreover have "ReadableBytes ?buf = ReadableBytes buf - (length ?d - length rest)"
        using Suc.prems(1) length_buf_contents [OF Retrieve_inv [OF Suc.prems(1)]] by simp
      ultimately have buf: "mb_inv ?buf" "ReadableBytes ?buf < f"
        using Suc.prems(1,2) Retrieve_inv by auto
      have goes_on: "loop_outcome c' ?buf (parse_loop f c' ?buf)" if "parse_ctx_inv c'" for c'
      proof (cases "0 \<le> in_chunk_size (rc_in c')")
        case True
        from Suc.IH [OF buf that True] show ?thesis .
      next
        case False
        with that buf parse_loop_fueled [OF buf, of c'] show ?thesis
          unfolding loop_outcome_def fueled_def by (intro exI [of _ c'] exI [of _ ?buf]) simp
      qed
      have loop: "parse_loop (Suc f) c buf =
          rbind (case p of None \<Rightarrow> Inr ?c | Some p \<Rightarrow> MessageComplete p ?c) (\<lambda>c. parse_loop f c ?buf)"
        using True out(1) GotChunk by (simp add: Let_def)
      show ?thesis
      proof (cases p)
        case None
        with out GotChunk True have "parse_round (c, buf) (?c, ?buf)" by (auto intro: round_chunk)
        from loop_outcome_step [OF this goes_on [OF c(1)]] loop None show ?thesis by simp
      next
        case (Some q)
        have q: "packet_inv q" using out(2) GotChunk Some by (auto simp: chunk_out_ok_def)
        have ci: "out_inv ?c" "rin_inv (rc_in ?c)" using c(1) by (simp_all add: parse_ctx_inv_def)
        show ?thesis
        proof (cases "MessageComplete q ?c")
          case (Inl e)
          from MessageComplete_faults [OF q ci Inl] have "e \<noteq> OutOfFuel" "command_faults c buf e"
            using out GotChunk Some True Inl by (auto simp: command_faults_def)
          with loop Some Inl Suc.prems show ?thesis by (intro here) auto
        next
          case (Inr c')
          with out GotChunk True Some have "parse_round (c, buf) (c', ?buf)" by (auto intro: round_message)
          moreover have "parse_ctx_inv c'"
            using MessageComplete_keeps [OF q ci Inr] by (simp add: parse_ctx_inv_def)
          ultimately show ?thesis using loop_outcome_step [OF _ goes_on] loop Some Inr by simp
        qed
      qed
    qed
  qed
qed simp

text \<open>What \<open>ParseMessage\<close> does before its loop: the acknowledgement, when one is due.\<close>

definition acknowledged :: "RtmpContext \<Rightarrow> MsgBuffer \<Rightarrow> RtmpContext result" where
  "acknowledged c buf =
     SendBytesRecv (c\<lparr>rc_in_bytes := rc_in_bytes c + (of_nat (ReadableBytes buf) - rc_last_left c)\<rparr>)"

lemma acknowledged_ok:
  assumes "parse_ctx_inv c"
  shows "\<exists>c0. acknowledged c buf = Inr c0 \<and> parse_ctx_inv c0 \<and> rc_in c0 = rc_in c"
proof -
  let ?c = "c\<lparr>rc_in_bytes := rc_in_bytes c + (of_nat (ReadableBytes buf) - rc_last_left c)\<rparr>"
  have c: "out_inv ?c" "rin_inv (rc_in ?c)" using assms by (simp_all add: parse_ctx_inv_def out_inv_def)
  have "length (WriteUint32T (rc_in_bytes ?c)) \<le> 64" "64 \<le> max_queued_len" by (simp_all add: max_queued_len_def)
  from send_message_ok [OF c(1) this] obtain c1 where
    1: "send_message 64 kRtmpCSIDCommand 0 kRtmpMsgTypeBytesRead (WriteUint32T (rc_in_bytes ?c)) ?c = Inr c1"
    "out_inv c1" "only_sent ?c c1" by blast
  then have "rc_in c1 = rc_in c" using only_sent_frame(4) [OF 1(3)] by simp
  with 1 c show ?thesis
    by (auto simp: acknowledged_def SendBytesRecv_def parse_ctx_inv_def out_inv_def)
qed

text \<open>The bytes a round leaves are the end of the ones it found.\<close>

lemma parse_rounds_drop:
  assumes "parse_round\<^sup>*\<^sup>* (c, buf) (c', buf')" and "mb_inv buf"
  shows "mb_inv buf' \<and> (\<exists>n. buf_contents buf' = drop n (buf_contents buf))"
  using assms
proof (induction rule: rtranclp_induct2)
  case refl
  then show ?case by (auto intro: exI [of _ 0])
next
  case (step c1 b1 c2 b2)
  then obtain n k where "mb_inv b1" "buf_contents b1 = drop n (buf_contents buf)" "b2 = Retrieve k b1"
    by (auto elim: parse_round.cases)
  then show ?case using Retrieve_inv Retrieve_contents by (auto intro: exI [of _ "k + n"])
qed

text \<open>The whole call: the acknowledgement, the rounds, and how it ends.\<close>

definition message_outcome :: "RtmpContext \<Rightarrow> MsgBuffer \<Rightarrow> (int \<times> RtmpContext \<times> MsgBuffer) result \<Rightarrow> bool" where
  "message_outcome c buf r \<longleftrightarrow> (\<exists>c0 c1 buf1 n. acknowledged c buf = Inr c0 \<and>
     parse_round\<^sup>*\<^sup>* (c0, buf) (c1, buf1) \<and> mb_inv buf1 \<and> buf_contents buf1 = drop n (buf_contents buf) \<and>
     ((\<exists>c'. r = Inr (1, c', buf1) \<and> parse_done c1 buf1 c' \<and> parse_ctx_inv c') \<or>
      (\<exists>e. r = Inl e \<and> command_faults c1 buf1 e) \<or>
      in_chunk_size (rc_in c1) < 0))"

lemma ParseMessage_outcome:
  assumes "mb_inv buf" and "parse_ctx_inv c" and "0 \<le> in_chunk_size (rc_in c)"
  shows "message_outcome c buf (ParseMessage c buf)"
proof -
  obtain c0 where c0: "acknowledged c buf = Inr c0" "parse_ctx_inv c0" "rc_in c0 = rc_in c"
    using acknowledged_ok [OF assms(2)] by blast
  let ?r = "parse_loop (Suc (ReadableBytes buf)) c0 buf"
  have "loop_outcome c0 buf ?r"
    using parse_loop_outcome [OF assms(1) _ c0(2)] assms(3) c0(3) by (simp del: parse_loop.simps)
  then obtain c1 buf1 where 1: "parse_round\<^sup>*\<^sup>* (c0, buf) (c1, buf1)"
    "(\<exists>c'. ?r = Inr (c', buf1) \<and> parse_done c1 buf1 c' \<and> parse_ctx_inv c') \<or>
     (\<exists>e. ?r = Inl e \<and> e \<noteq> OutOfFuel \<and> command_faults c1 buf1 e) \<or>
     in_chunk_size (rc_in c1) < 0 \<and> ?r \<noteq> Inl OutOfFuel"
    unfolding loop_outcome_def by blast
  obtain n where n: "mb_inv buf1" "buf_contents buf1 = drop n (buf_contents buf)"
    using parse_rounds_drop [OF 1(1) assms(1)] by blast
  have pm: "ParseMessage c buf = rbind ?r (\<lambda>(c, buf). Inr (1, c, buf))"
    using c0(1) by (simp add: ParseMessage_def acknowledged_def del: parse_loop.simps)
  have "(\<exists>c'. ParseMessage c buf = Inr (1, c', buf1) \<and> parse_done c1 buf1 c' \<and> parse_ctx_inv c') \<or>
     (\<exists>e. ParseMessage c buf = Inl e \<and> command_faults c1 buf1 e) \<or> in_chunk_size (rc_in c1) < 0"
    using 1(2) unfolding pm by (elim disjE exE conjE) (simp_all del: parse_loop.simps)
  with c0(1) 1(1) n show ?thesis unfolding message_outcome_def by blast
qed

end
