(* ===== verification/Config.thy ===== *)
theory Config
  imports StringUtils
begin

text \<open>
  The configuration: \<open>base/AppInfo.cc\<close>, \<open>DomainInfo.cc\<close>, \<open>Target.cc\<close> and \<open>Config.cc\<close>. The
  JSON library is not part of the sources: its values have a type of their own and come with
  the accessors the code calls, the record \<open>json_ops\<close>. An accessor that throws gives
  \<open>None\<close>, and the exception leaves every function here. Files and directories are parameters too.
\<close>

section \<open>JSON values\<close>

record 'j json_ops =
  js_get :: "'j \<Rightarrow> string \<Rightarrow> 'j"
  js_get_default :: "'j \<Rightarrow> string \<Rightarrow> string \<Rightarrow> 'j"
  js_isNull :: "'j \<Rightarrow> bool"
  js_isArray :: "'j \<Rightarrow> bool"
  js_elems :: "'j \<Rightarrow> 'j list"
  js_asString :: "'j \<Rightarrow> string option"
  js_asUInt :: "'j \<Rightarrow> u32 option"
  js_asInt :: "'j \<Rightarrow> int option"

text \<open>The pattern \<open>if(!obj.isNull()) field = obj.as...()\<close>.\<close>

definition js_string :: "'j json_ops \<Rightarrow> 'j \<Rightarrow> string \<Rightarrow> string \<Rightarrow> string option" where
  "js_string J root key old =
     (if js_isNull J (js_get J root key) then Some old else js_asString J (js_get J root key))"

definition js_uint :: "'j json_ops \<Rightarrow> 'j \<Rightarrow> string \<Rightarrow> u32 \<Rightarrow> u32 option" where
  "js_uint J root key old =
     (if js_isNull J (js_get J root key) then Some old else js_asUInt J (js_get J root key))"

definition js_int :: "'j json_ops \<Rightarrow> 'j \<Rightarrow> string \<Rightarrow> int \<Rightarrow> int option" where
  "js_int J root key old =
     (if js_isNull J (js_get J root key) then Some old else js_asInt J (js_get J root key))"

definition js_on :: "'j json_ops \<Rightarrow> 'j \<Rightarrow> string \<Rightarrow> bool \<Rightarrow> bool option" where
  "js_on J root key old =
     (if js_isNull J (js_get J root key) then Some old
      else map_option (\<lambda>s. s = ''on'') (js_asString J (js_get J root key)))"

text \<open>A loop whose body may throw.\<close>

fun try_fold :: "('a \<Rightarrow> 's \<Rightarrow> 's option) \<Rightarrow> 'a list \<Rightarrow> 's \<Rightarrow> 's option" where
  "try_fold f [] s = Some s"
| "try_fold f (x # xs) s = Option.bind (f x s) (try_fold f xs)"

section \<open>Numbers in strings\<close>

text \<open>\<open>std::atoi\<close> for values in the range of \<open>int\<close>: blanks, a sign, then digits.\<close>

definition is_digit :: "char \<Rightarrow> bool" where
  "is_digit c \<longleftrightarrow> (of_char c :: nat) \<ge> 48 \<and> (of_char c :: nat) \<le> 57"

definition digits_value :: "string \<Rightarrow> int" where
  "digits_value ds = foldl (\<lambda>n c. 10 * n + (int (of_char c) - 48)) 0 ds"

definition atoi :: "string \<Rightarrow> int" where
  "atoi s =
     (let s = dropWhile (\<lambda>c. c = CHR 0x20 \<or> (of_char c :: nat) \<in> {9 .. 13}) s;
          value = (\<lambda>r. digits_value (takeWhile is_digit r))
      in case s of [] \<Rightarrow> 0
         | c # r \<Rightarrow> if c = CHR ''-'' then - value r else if c = CHR ''+'' then value r else value s)"

section \<open>Pull targets\<close>

text \<open>\<open>remote_port\<close> has no initialiser: it is \<open>None\<close> until it is assigned.\<close>

record Target =
  tg_remote_host :: string
  tg_remote_port :: "int option"
  tg_session_name :: string
  tg_domain_name :: string
  tg_app_name :: string
  tg_stream_name :: string
  tg_protocol :: string
  tg_url :: string
  tg_interval :: int
  tg_max_retry :: int
  tg_retry :: int
  tg_param :: string

definition Target_new :: "string \<Rightarrow> string \<Rightarrow> Target" where
  "Target_new d a =
     \<lparr>tg_remote_host = [], tg_remote_port = None, tg_session_name = [], tg_domain_name = d, tg_app_name = a,
      tg_stream_name = [], tg_protocol = [], tg_url = [], tg_interval = 1000, tg_max_retry = 0,
      tg_retry = 0, tg_param = []\<rparr>"

definition Target_of_session :: "string \<Rightarrow> Target" where
  "Target_of_session s =
     (let t = (Target_new [] [])\<lparr>tg_session_name := s\<rparr>; list = SplitString s ''/''
      in if length list = 3
         then t\<lparr>tg_domain_name := list ! 0, tg_app_name := list ! 1, tg_stream_name := list ! 2\<rparr>
         else t)"

text \<open>
  \<open>ParseTargetUrl\<close>: the host of an http url. It looks for the port in the still empty
  \<open>remote_host\<close>, and takes \<open>pos\<close> characters where \<open>pos - 7\<close> were meant.
\<close>

definition ParseTargetUrl :: "string \<Rightarrow> Target \<Rightarrow> Target option" where
  "ParseTargetUrl url t =
     (if tg_protocol t = ''http''
      then case find_first_of {CHR ''/''} (drop 7 url) of
             Some k \<Rightarrow>
               (let pos = k + 7; host = take pos (drop 7 url)
                in case find_first_of {CHR '':''} (tg_remote_host t) of
                     Some pos1 \<Rightarrow> Some (t\<lparr>tg_remote_port := Some (atoi (drop (pos1 + 1) (tg_remote_host t)) mod 65536),
                                          tg_remote_host := take pos1 (tg_remote_host t)\<rparr>)
                   | None \<Rightarrow> Some (t\<lparr>tg_remote_host := host, tg_remote_port := Some 80\<rparr>))
           | None \<Rightarrow> if length url < 7 then None
                     else Some (t\<lparr>tg_remote_host := drop 7 url, tg_remote_port := Some 80\<rparr>)
      else Some t)"

definition default_port :: "string \<Rightarrow> int option \<Rightarrow> int option" where
  "default_port protocol old =
     (if protocol = ''rtmp'' then Some 1935 else if protocol = ''http'' then Some 80
      else if protocol = ''pav'' then Some 22000 else old)"

text \<open>The host with an optional port behind a colon.\<close>

definition split_host :: "string \<Rightarrow> Target \<Rightarrow> Target" where
  "split_host host t =
     (case find_first_of {CHR '':''} host of
        Some pos \<Rightarrow> t\<lparr>tg_remote_port := Some (atoi (drop (pos + 1) host) mod 65536), tg_remote_host := take pos host\<rparr>
      | None \<Rightarrow> t\<lparr>tg_remote_host := host, tg_remote_port := default_port (tg_protocol t) (tg_remote_port t)\<rparr>)"

definition ParseTarget :: "'j json_ops \<Rightarrow> 'j \<Rightarrow> Target \<Rightarrow> Target option" where
  "ParseTarget J root t =
     Option.bind (js_string J root ''protocol'' (tg_protocol t)) (\<lambda>protocol.
     Option.bind (js_string J root ''url'' (tg_url t)) (\<lambda>url.
     Option.bind (js_string J root ''param'' (tg_param t)) (\<lambda>param.
     let t = t\<lparr>tg_protocol := protocol, tg_url := url, tg_param := param\<rparr> in
     Option.bind (if js_isNull J (js_get J root ''host'') then ParseTargetUrl url t
                  else map_option (\<lambda>h. split_host h t) (js_asString J (js_get J root ''host''))) (\<lambda>t.
     Option.bind (if js_isNull J (js_get J root ''port'') then Some (tg_remote_port t)
                  else map_option (\<lambda>p. Some (uint p mod 65536)) (js_asUInt J (js_get J root ''port''))) (\<lambda>port.
     Option.bind (if js_isNull J (js_get J root ''interval'') then Some (tg_interval t)
                  else map_option sint (js_asUInt J (js_get J root ''interval''))) (\<lambda>interval.
     Option.bind (if js_isNull J (js_get J root ''max_retry'') then Some (tg_max_retry t)
                  else map_option sint (js_asUInt J (js_get J root ''max_retry''))) (\<lambda>max_retry.
     Some (t\<lparr>tg_remote_port := port, tg_interval := interval, tg_max_retry := max_retry\<rparr>))))))))"

section \<open>Applications and domains\<close>

text \<open>\<open>AppInfo\<close>; the reference to its domain is the name the domain has.\<close>

record AppInfo =
  ai_domain :: string
  ai_domain_name :: string
  ai_app_name :: string
  ai_max_buffer :: u32
  ai_rtmp_support :: bool
  ai_flv_support :: bool
  ai_hls_support :: bool
  ai_content_latency :: u32
  ai_stream_idle_time :: u32
  ai_stream_timeout_time :: u32
  ai_pulls :: "Target list"

definition AppInfo_new :: "string \<Rightarrow> AppInfo" where
  "AppInfo_new d =
     \<lparr>ai_domain = d, ai_domain_name = [], ai_app_name = [], ai_max_buffer = 1000, ai_rtmp_support = False,
      ai_flv_support = False, ai_hls_support = False, ai_content_latency = 3000,
      ai_stream_idle_time = 30000, ai_stream_timeout_time = 30000, ai_pulls = []\<rparr>"

definition ParseAppInfo :: "'j json_ops \<Rightarrow> 'j \<Rightarrow> AppInfo \<Rightarrow> AppInfo option" where
  "ParseAppInfo J root a =
     Option.bind (js_string J root ''name'' (ai_app_name a)) (\<lambda>name.
     Option.bind (js_uint J root ''max_buffer'' (ai_max_buffer a)) (\<lambda>max_buffer.
     Option.bind (js_on J root ''rtmp_support'' (ai_rtmp_support a)) (\<lambda>rtmp.
     Option.bind (js_on J root ''flv_support'' (ai_flv_support a)) (\<lambda>flv.
     Option.bind (js_on J root ''hls_support'' (ai_hls_support a)) (\<lambda>hls.
     Option.bind (if js_isNull J (js_get J root ''content_latency'') then Some (ai_content_latency a)
                  else map_option (\<lambda>v. v * 1000) (js_asUInt J (js_get J root ''content_latency''))) (\<lambda>latency.
     Option.bind (js_uint J root ''stream_idle_time'' (ai_stream_idle_time a)) (\<lambda>idle.
     Option.bind (js_uint J root ''stream_timeout_time'' (ai_stream_timeout_time a)) (\<lambda>timeout.
     let pulls = js_get J root ''pull'' in
     Option.bind (if \<not> js_isNull J pulls \<and> js_isArray J pulls
                  then try_fold (\<lambda>e ts. map_option (\<lambda>t. ts @ [t]) (ParseTarget J e (Target_new (ai_domain a) name)))
                         (js_elems J pulls) (ai_pulls a)
                  else Some (ai_pulls a)) (\<lambda>ts.
     Some (a\<lparr>ai_app_name := name, ai_max_buffer := max_buffer, ai_rtmp_support := rtmp, ai_flv_support := flv,
             ai_hls_support := hls, ai_content_latency := latency, ai_stream_idle_time := idle,
             ai_stream_timeout_time := timeout, ai_pulls := ts\<rparr>))))))))))"

record DomainInfo =
  di_name :: string
  di_type :: string
  di_appinfos :: "string \<rightharpoonup> AppInfo"

definition DomainInfo_new :: DomainInfo where
  "DomainInfo_new = \<lparr>di_name = [], di_type = [], di_appinfos = Map.empty\<rparr>"

text \<open>\<open>emplace\<close> keeps an entry that is there.\<close>

definition emplace :: "'k \<Rightarrow> 'v \<Rightarrow> ('k \<rightharpoonup> 'v) \<Rightarrow> ('k \<rightharpoonup> 'v)" where
  "emplace k v m = (case m k of None \<Rightarrow> m(k \<mapsto> v) | Some _ \<Rightarrow> m)"

text \<open>
  \<open>ParseDomainInfo\<close> on the parsed file (\<open>None\<close>: it does not parse). The outer option is an
  exception, the flag the return value.
\<close>

definition ParseDomainInfo :: "'j json_ops \<Rightarrow> 'j option \<Rightarrow> DomainInfo \<Rightarrow> (bool \<times> DomainInfo) option" where
  "ParseDomainInfo J file d =
     (case file of None \<Rightarrow> Some (False, d) | Some root \<Rightarrow>
        let domain = js_get J root ''domain'' in
        if js_isNull J domain then Some (False, d)
        else Option.bind (js_string J domain ''name'' (di_name d)) (\<lambda>name.
             Option.bind (js_string J domain ''type'' (di_type d)) (\<lambda>type.
             let d = d\<lparr>di_name := name, di_type := type\<rparr>; apps = js_get J domain ''app'' in
             if js_isNull J apps then Some (False, d)
             else map_option (\<lambda>d. (True, d))
                    (try_fold (\<lambda>e d. map_option (\<lambda>a. d\<lparr>di_appinfos := emplace (ai_app_name a) a (di_appinfos d)\<rparr>)
                                      (ParseAppInfo J e (AppInfo_new (di_name d))))
                       (js_elems J apps) d))))"

definition DomainInfo_GetAppInfo :: "string \<Rightarrow> DomainInfo \<Rightarrow> AppInfo option" where
  "DomainInfo_GetAppInfo app_name d = di_appinfos d app_name"

section \<open>The configuration\<close>

datatype LogLevel = kTrace | kDebug | kInfo | kWarn | kError
datatype RotateType = kRotateNone | kRotateMinute | kRotateHour | kRotateDay

text \<open>The level of a \<open>LogInfo\<close> has no initialiser.\<close>

record LogInfo =
  li_level :: "LogLevel option"
  li_path :: string
  li_name :: string
  li_rotate_type :: RotateType

record ServiceInfo =
  sv_addr :: string
  sv_port :: int
  sv_protocol :: string
  sv_transport :: string

record Config =
  cf_name :: string
  cf_cpu_start :: int
  cf_thread_num :: int
  cf_cpus :: int
  cf_log_info :: "LogInfo option"
  cf_services :: "ServiceInfo list"
  cf_domaininfos :: "string \<rightharpoonup> DomainInfo"

definition Config_new :: Config where
  "Config_new = \<lparr>cf_name = [], cf_cpu_start = 0, cf_thread_num = 1, cf_cpus = 1, cf_log_info = None,
                 cf_services = [], cf_domaininfos = Map.empty\<rparr>"

definition ParseLogInfo :: "'j json_ops \<Rightarrow> 'j \<Rightarrow> LogInfo option" where
  "ParseLogInfo J root =
     (let new = \<lparr>li_level = None, li_path = [], li_name = [], li_rotate_type = kRotateNone\<rparr> in
      Option.bind (js_string J root ''level'' []) (\<lambda>level.
      Option.bind (js_string J root ''rotate'' []) (\<lambda>rt.
      Option.bind (js_string J root ''path'' []) (\<lambda>path.
      Option.bind (js_string J root ''name'' []) (\<lambda>name.
      Some (new\<lparr>li_level := (if level = ''TRACE'' then Some kTrace else if level = ''DEBUG'' then Some kDebug
                            else if level = ''INFO'' then Some kInfo else if level = ''WARN'' then Some kInfo
                            else if level = ''ERROR'' then Some kError else None),
                li_rotate_type := (if rt = ''DAY'' then kRotateDay else if rt = ''HOUR'' then kRotateHour
                                   else kRotateNone),
                li_path := path, li_name := name\<rparr>))))))"

definition parse_service :: "'j json_ops \<Rightarrow> 'j \<Rightarrow> ServiceInfo option" where
  "parse_service J s =
     Option.bind (js_asString J (js_get_default J s ''addr'' ''0.0.0.0'')) (\<lambda>addr.
     Option.bind (js_asInt J (js_get_default J s ''port'' ''0'')) (\<lambda>port.
     Option.bind (js_asString J (js_get_default J s ''protocol'' ''rtmp'')) (\<lambda>protocol.
     Option.bind (js_asString J (js_get_default J s ''transport'' ''tcp'')) (\<lambda>transport.
     Some \<lparr>sv_addr = addr, sv_port = port mod 65536, sv_protocol = protocol, sv_transport = transport\<rparr>))))"

definition ParseServiceInfo :: "'j json_ops \<Rightarrow> 'j \<Rightarrow> Config \<Rightarrow> (bool \<times> Config) option" where
  "ParseServiceInfo J root c =
     (if js_isNull J root then Some (False, c)
      else if \<not> js_isArray J root then Some (False, c)
      else map_option (\<lambda>c. (True, c))
             (try_fold (\<lambda>e c. map_option (\<lambda>s. c\<lparr>cf_services := cf_services c @ [s]\<rparr>) (parse_service J e))
                (js_elems J root) c))"

definition GetServiceInfo :: "string \<Rightarrow> string \<Rightarrow> Config \<Rightarrow> ServiceInfo option" where
  "GetServiceInfo protocol transport c =
     find (\<lambda>s. sv_protocol s = protocol \<and> sv_transport s = transport) (cf_services c)"

text \<open>A later file replaces the domain of the same name.\<close>

definition ParseDomainFile :: "'j json_ops \<Rightarrow> (string \<Rightarrow> 'j option) \<Rightarrow> string \<Rightarrow> Config \<Rightarrow> Config option" where
  "ParseDomainFile J load file c =
     map_option (\<lambda>(ok, d). if ok then c\<lparr>cf_domaininfos := (cf_domaininfos c)(di_name d \<mapsto> d)\<rparr> else c)
       (ParseDomainInfo J (load file) DomainInfo_new)"

text \<open>A directory: its regular files in the order of \<open>readdir\<close>, hidden ones left out.\<close>

datatype file_kind = Directory "(string \<times> bool) list option" | Regular | OtherKind

definition ParseDomainPath ::
    "'j json_ops \<Rightarrow> (string \<Rightarrow> 'j option) \<Rightarrow> string \<Rightarrow> (string \<times> bool) list option \<Rightarrow> Config \<Rightarrow> Config option" where
  "ParseDomainPath J load path entries c =
     (case entries of None \<Rightarrow> Some c | Some es \<Rightarrow>
        try_fold (\<lambda>(name, reg) c.
            if name \<noteq> [] \<and> hd name = CHR ''.'' then Some c
            else if reg then (if path = [] then None
                              else ParseDomainFile J load (if last path \<noteq> CHR ''/'' then path @ ''/'' @ name else path @ name) c)
            else Some c) es c)"

definition ParseDirectory ::
    "'j json_ops \<Rightarrow> (string \<Rightarrow> 'j option) \<Rightarrow> (string \<Rightarrow> file_kind option) \<Rightarrow> 'j \<Rightarrow> Config \<Rightarrow> (bool \<times> Config) option" where
  "ParseDirectory J load stat root c =
     (if js_isNull J root \<or> \<not> js_isArray J root then Some (False, c)
      else map_option (\<lambda>c. (True, c))
             (try_fold (\<lambda>d c. Option.bind (js_asString J d) (\<lambda>path.
                case stat path of
                  Some (Directory es) \<Rightarrow> ParseDomainPath J load path es c
                | Some Regular \<Rightarrow> ParseDomainFile J load path c
                | _ \<Rightarrow> Some c)) (js_elems J root) c))"

definition LoadConfig ::
    "'j json_ops \<Rightarrow> (string \<Rightarrow> 'j option) \<Rightarrow> (string \<Rightarrow> file_kind option) \<Rightarrow> string \<Rightarrow> Config \<Rightarrow> (bool \<times> Config) option" where
  "LoadConfig J load stat file c =
     (case load file of None \<Rightarrow> Some (False, c) | Some root \<Rightarrow>
        Option.bind (js_string J root ''name'' (cf_name c)) (\<lambda>name.
        Option.bind (js_int J root ''cpu_start'' (cf_cpu_start c)) (\<lambda>cpu_start.
        Option.bind (js_int J root ''cpus'' (cf_cpus c)) (\<lambda>cpus.
        Option.bind (js_int J root ''threads'' (cf_thread_num c)) (\<lambda>threads.
        Option.bind (if js_isNull J (js_get J root ''log'') then Some (cf_log_info c)
                     else map_option Some (ParseLogInfo J (js_get J root ''log''))) (\<lambda>log.
        Option.bind (ParseServiceInfo J (js_get J root ''services'')
                       (c\<lparr>cf_name := name, cf_cpu_start := cpu_start, cf_cpus := cpus, cf_thread_num := threads,
                          cf_log_info := log\<rparr>)) (\<lambda>(ok, c).
        if \<not> ok then Some (False, c)
        else map_option (\<lambda>(_, c). (True, c)) (ParseDirectory J load stat (js_get J root ''directory'') c))))))))"

definition Config_GetAppInfo :: "string \<Rightarrow> string \<Rightarrow> Config \<Rightarrow> AppInfo option" where
  "Config_GetAppInfo domain app c =
     (case cf_domaininfos c domain of Some d \<Rightarrow> DomainInfo_GetAppInfo app d | None \<Rightarrow> None)"

definition GetDomainInfo :: "string \<Rightarrow> Config \<Rightarrow> DomainInfo option" where
  "GetDomainInfo domain c = cf_domaininfos c domain"

end
