(* ===== verification/PullerRelay.thy ===== *)
theory PullerRelay
  imports Config
begin

text \<open>
  \<open>live/relay/PullerRelay.cc\<close> and \<open>live/relay/pull/RtmpPuller.cc\<close>: when a session has players
  and no publisher, it pulls the stream from the targets its application is configured with.
  The targets belong to the application and are shared by its sessions, so they are a list
  that every operation gets and returns, and a pointer to one is its position. A puller is
  the number it was created with. What an operation does to the session, to a puller or to
  the timer is the list of actions it returns, in the order they happen.
\<close>

section \<open>Pulling over RTMP\<close>

datatype relay_act =
    CloseThisSession
  | PullFrom nat string
  | PullAfter int "nat option" nat
  | FreePuller nat

definition is_rtmp :: "string \<Rightarrow> bool" where
  "is_rtmp protocol \<longleftrightarrow> protocol = ''RTMP'' \<or> protocol = ''rtmp''"

text \<open>The url \<open>RtmpPuller::Pull\<close> puts together; the port may never have been assigned.\<close>

definition pull_url :: "Target \<Rightarrow> string result" where
  "pull_url t =
     (case tg_remote_port t of None \<Rightarrow> Inl Uninitialised | Some port \<Rightarrow>
        Inr (''rtmp://'' @ tg_remote_host t @ '':'' @ decimal (nat port) @ ''/'' @ tg_domain_name t
               @ ''/'' @ tg_app_name t @ ''/'' @ tg_stream_name t))"

definition RtmpPuller_Pull :: "nat \<Rightarrow> Target \<Rightarrow> relay_act list result" where
  "RtmpPuller_Pull p t =
     (if is_rtmp (tg_protocol t) then rbind (pull_url t) (\<lambda>url. Inr [PullFrom p url]) else Inr [])"

text \<open>
  \<open>RtmpClient::ParseUrl\<close>: the address and the port the client connects to. \<open>find_last_of\<close>
  with a position looks backwards from there.
\<close>

definition RtmpClient_ParseUrl :: "string \<Rightarrow> (string \<times> int) option" where
  "RtmpClient_ParseUrl url =
     (if length url > 7
      then case find_last_of {CHR '':'', CHR ''/''} (take 8 url) of
             Some pos \<Rightarrow>
               (let domain = (if pos < 7 then drop 7 url else take (pos - 7) (drop 7 url));
                    port = (if url ! pos = CHR '':''
                            then case find_last_of {CHR ''/''} (take (pos + 2) url) of
                                   Some pos1 \<Rightarrow> atoi (if pos1 < pos then drop (pos + 1) url
                                                      else take (pos1 - pos) (drop (pos + 1) url)) mod 65536
                                 | None \<Rightarrow> 1935
                            else 1935)
                in Some (domain, port))
           | None \<Rightarrow> None
      else None)"

section \<open>The relay of a session\<close>

record Relay =
  pr_targets :: "nat list"
  pr_current :: "nat option"
  pr_index :: int
  pr_puller :: "nat option"
  pr_loop :: bool
  pr_created :: nat

definition Relay_new :: Relay where
  "Relay_new = \<lparr>pr_targets = [], pr_current = None, pr_index = -1, pr_puller = None, pr_loop = False, pr_created = 0\<rparr>"

definition GetTargets :: "Target list \<Rightarrow> Relay \<Rightarrow> bool \<times> Relay" where
  "GetTargets ts r = (let r = r\<lparr>pr_targets := [0 ..< length ts]\<rparr> in (pr_targets r \<noteq> [], r))"

definition ClearPuller :: "Relay \<Rightarrow> Relay \<times> relay_act list" where
  "ClearPuller r =
     (case pr_puller r of None \<Rightarrow> (r, []) | Some p \<Rightarrow> (r\<lparr>pr_puller := None\<rparr>, [FreePuller p]))"

definition GetPuller :: "Target \<Rightarrow> Relay \<Rightarrow> nat option \<times> Relay" where
  "GetPuller t r =
     (let r = r\<lparr>pr_loop := True\<rparr>
      in if is_rtmp (tg_protocol t) then (Some (pr_created r), r\<lparr>pr_created := pr_created r + 1\<rparr>) else (None, r))"

text \<open>A target without a stream name gets the one of the session that first pulls from it.\<close>

definition name_stream :: "string \<Rightarrow> Target \<Rightarrow> Target" where
  "name_stream name t =
     (if tg_stream_name t = []
      then let list = SplitString name ''/''
           in if length list = 3 then t\<lparr>tg_stream_name := list ! 2\<rparr> else t
      else t)"

definition may_retry :: "Target list \<Rightarrow> nat option \<Rightarrow> bool" where
  "may_retry ts cur = (case cur of None \<Rightarrow> False | Some i \<Rightarrow> tg_retry (ts ! i) < tg_max_retry (ts ! i))"

definition count_retry :: "Target \<Rightarrow> Target" where
  "count_retry t = t\<lparr>tg_retry := tg_retry t + 1\<rparr>"

definition SelectTarget :: "string \<Rightarrow> Target list \<Rightarrow> Relay \<Rightarrow> Target list \<times> Relay \<times> relay_act list" where
  "SelectTarget name ts r =
     (if may_retry ts (pr_current r)
      then (ts[the (pr_current r) := count_retry (ts ! the (pr_current r))], r, [])
      else
        let r = r\<lparr>pr_index := pr_index r + 1\<rparr>
        in if nat (pr_index r) < length (pr_targets r)
           then let i = pr_targets r ! nat (pr_index r);
                    (r, acts) = ClearPuller (r\<lparr>pr_current := Some i\<rparr>);
                    ts = ts[i := name_stream name (ts ! i)];
                    (p, r) = GetPuller (ts ! i) r
                in (ts, r\<lparr>pr_puller := p\<rparr>, acts)
           else (ts, r, [CloseThisSession]))"

definition Pull :: "string \<Rightarrow> bool \<Rightarrow> Target list \<Rightarrow> Relay \<Rightarrow> (Target list \<times> Relay \<times> relay_act list) result" where
  "Pull name publishing ts r =
     (if publishing then Inr (ts, r, [])
      else case SelectTarget name ts r of (ts, r, acts) \<Rightarrow>
        case pr_current r of
          None \<Rightarrow> Inl NullDeref
        | Some i \<Rightarrow>
            if tg_retry (ts ! i) = 0 \<or> tg_interval (ts ! i) = 0
            then case pr_puller r of
                   None \<Rightarrow> Inr (ts, r, acts)
                 | Some p \<Rightarrow> rbind (RtmpPuller_Pull p (ts ! i)) (\<lambda>as. Inr (ts, r, acts @ as))
            else if \<not> pr_loop r then Inl NullDeref
            else Inr (ts, r, acts @ [PullAfter (tg_interval (ts ! i)) (pr_puller r) i]))"

text \<open>The timer fires: the puller it has kept a pointer to may be gone.\<close>

definition PullTimer :: "nat option \<Rightarrow> nat \<Rightarrow> Target list \<Rightarrow> Relay \<Rightarrow> relay_act list result" where
  "PullTimer puller i ts r =
     (case puller of
        None \<Rightarrow> Inr []
      | Some p \<Rightarrow> if pr_puller r = Some p then RtmpPuller_Pull p (ts ! i) else Inl UseAfterFree)"

definition StartPullStream ::
    "string \<Rightarrow> bool \<Rightarrow> Target list \<Rightarrow> Relay \<Rightarrow> (Target list \<times> Relay \<times> relay_act list) result" where
  "StartPullStream name publishing ts r =
     (case GetTargets ts r of (found, r) \<Rightarrow>
        if \<not> found then Inr (ts, r, [CloseThisSession]) else Pull name publishing ts r)"

definition OnPullClose ::
    "string \<Rightarrow> bool \<Rightarrow> Target list \<Rightarrow> Relay \<Rightarrow> (Target list \<times> Relay \<times> relay_act list) result" where
  "OnPullClose = Pull"

section \<open>The order of the targets\<close>

text \<open>
  What a relay is expected to do, from the targets as they are configured. A target that
  speaks RTMP gets a puller, numbered in the order they are made; trying target \<open>i\<close> for
  the time its counter is \<open>q\<close> pulls at once when the counter or the interval is zero, and
  sets the timer otherwise.
\<close>

definition retries_left :: "Target \<Rightarrow> nat" where
  "retries_left t = nat (tg_max_retry t - tg_retry t)"

definition pullers_before :: "Target list \<Rightarrow> nat \<Rightarrow> nat" where
  "pullers_before ts i = length (filter (\<lambda>t. is_rtmp (tg_protocol t)) (take i ts))"

definition puller_of :: "Target list \<Rightarrow> nat \<Rightarrow> nat option" where
  "puller_of ts i = (if is_rtmp (tg_protocol (ts ! i)) then Some (pullers_before ts i) else None)"

definition target_url :: "string \<Rightarrow> Target \<Rightarrow> string" where
  "target_url name t =
     ''rtmp://'' @ tg_remote_host t @ '':'' @ decimal (nat (the (tg_remote_port t))) @ ''/'' @ tg_domain_name t @ ''/''
       @ tg_app_name t @ ''/'' @ tg_stream_name (name_stream name t)"

definition try_acts :: "string \<Rightarrow> Target list \<Rightarrow> nat \<Rightarrow> int \<Rightarrow> relay_act list" where
  "try_acts name ts i q =
     (if q = 0 \<or> tg_interval (ts ! i) = 0
      then case puller_of ts i of None \<Rightarrow> [] | Some p \<Rightarrow> [PullFrom p (target_url name (ts ! i))]
      else [PullAfter (tg_interval (ts ! i)) (puller_of ts i) i])"

text \<open>The puller of the target before is deleted when a target is tried for the first time.\<close>

definition frees :: "Target list \<Rightarrow> nat \<Rightarrow> relay_act list" where
  "frees ts i = (if i = 0 then [] else case puller_of ts (i - 1) of None \<Rightarrow> [] | Some p \<Rightarrow> [FreePuller p])"

type_synonym relay_trace = "(nat option \<times> relay_act list) list"

definition target_plan :: "string \<Rightarrow> Target list \<Rightarrow> nat \<Rightarrow> relay_trace" where
  "target_plan name ts i =
     (Some i, frees ts i @ try_acts name ts i (tg_retry (ts ! i))) #
     map (\<lambda>k. (Some i, try_acts name ts i (tg_retry (ts ! i) + int k))) [1 ..< Suc (retries_left (ts ! i))]"

definition relay_plan :: "string \<Rightarrow> Target list \<Rightarrow> relay_trace" where
  "relay_plan name ts = concat (map (target_plan name ts) [0 ..< length ts])"

text \<open>Past the last target the session is closed, and the last target pulled once more.\<close>

definition past_plan :: "string \<Rightarrow> Target list \<Rightarrow> nat option \<times> relay_act list" where
  "past_plan name ts =
     (let i = length ts - 1
      in (Some i, CloseThisSession # try_acts name ts i (tg_retry (ts ! i) + int (retries_left (ts ! i)))))"

definition follows_plan :: "(nat option \<times> relay_act list) \<Rightarrow> relay_trace \<Rightarrow> nat \<Rightarrow> relay_trace" where
  "follows_plan past plan k = take k plan @ replicate (k - length plan) past"

lemma follows_plan_Suc:
  "follows_plan past (x # plan) (Suc k) = x # follows_plan past plan k"
  "follows_plan past [] (Suc k) = past # follows_plan past [] k"
  by (simp_all add: follows_plan_def)

lemma name_stream_keeps [simp]:
  "tg_retry (name_stream name t) = tg_retry t" "tg_max_retry (name_stream name t) = tg_max_retry t"
  "tg_remote_port (name_stream name t) = tg_remote_port t" "tg_protocol (name_stream name t) = tg_protocol t"
  "tg_interval (name_stream name t) = tg_interval t" "tg_remote_host (name_stream name t) = tg_remote_host t"
  "tg_domain_name (name_stream name t) = tg_domain_name t" "tg_app_name (name_stream name t) = tg_app_name t"
  by (simp_all add: name_stream_def Let_def)

definition ports_known :: "Target list \<Rightarrow> bool" where
  "ports_known ts \<longleftrightarrow> list_all (\<lambda>t. tg_remote_port t \<noteq> None) ts"

text \<open>
  Where a relay is: its current target is \<open>i\<close>, retried \<open>k\<close> times; the later ones are as
  they were configured, and the index is past the last one only when nothing is left.
\<close>

definition relay_at :: "string \<Rightarrow> Target list \<Rightarrow> nat \<Rightarrow> nat \<Rightarrow> Target list \<Rightarrow> Relay \<Rightarrow> bool" where
  "relay_at name ts0 i k ts r \<longleftrightarrow>
     i < length ts0 \<and> k \<le> retries_left (ts0 ! i) \<and> length ts = length ts0 \<and>
     ts ! i = (name_stream name (ts0 ! i))\<lparr>tg_retry := tg_retry (ts0 ! i) + int k\<rparr> \<and>
     (\<forall>j. i < j \<longrightarrow> j < length ts0 \<longrightarrow> ts ! j = ts0 ! j) \<and>
     pr_targets r = [0 ..< length ts0] \<and> pr_current r = Some i \<and> pr_puller r = puller_of ts0 i \<and>
     pr_created r = pullers_before ts0 (Suc i) \<and> pr_loop r \<and>
     (pr_index r = int i \<or> pr_index r > int i \<and> Suc i = length ts0 \<and> k = retries_left (ts0 ! i))"

definition plan_left :: "string \<Rightarrow> Target list \<Rightarrow> nat \<Rightarrow> nat \<Rightarrow> relay_trace" where
  "plan_left name ts i k =
     map (\<lambda>k. (Some i, try_acts name ts i (tg_retry (ts ! i) + int k))) [Suc k ..< Suc (retries_left (ts ! i))] @
     concat (map (target_plan name ts) [Suc i ..< length ts])"

lemma pullers_before_Suc:
  "i < length ts \<Longrightarrow> pullers_before ts (Suc i) = pullers_before ts i + (if is_rtmp (tg_protocol (ts ! i)) then 1 else 0)"
  by (simp add: pullers_before_def take_Suc_conv_app_nth)

text \<open>The pull itself, on the target that was selected.\<close>

lemma pull_selected:
  assumes at: "relay_at name ts0 i k ts r" and "ports_known ts0"
    and sel: "SelectTarget name ts1 r1 = (ts, r, acts)"
  shows "Pull name False ts1 r1 = Inr (ts, r, acts @ try_acts name ts0 i (tg_retry (ts0 ! i) + int k))"
proof -
  from at have i: "i < length ts0" "ts ! i = (name_stream name (ts0 ! i))\<lparr>tg_retry := tg_retry (ts0 ! i) + int k\<rparr>"
    "pr_current r = Some i" "pr_puller r = puller_of ts0 i" "pr_loop r"
    by (simp_all add: relay_at_def)
  from i(1) assms(2) obtain port where port: "tg_remote_port (ts0 ! i) = Some port"
    by (auto simp: ports_known_def list_all_length)
  show ?thesis
    by (simp add: Pull_def sel i try_acts_def puller_of_def RtmpPuller_Pull_def pull_url_def port target_url_def)
qed

lemma select_again:
  assumes at: "relay_at name ts0 i k ts r" and k: "k < retries_left (ts0 ! i)"
  shows "\<exists>ts'. SelectTarget name ts r = (ts', r, []) \<and> relay_at name ts0 i (Suc k) ts' r"
proof -
  from at have i: "i < length ts0" "length ts = length ts0" "pr_current r = Some i"
    "ts ! i = (name_stream name (ts0 ! i))\<lparr>tg_retry := tg_retry (ts0 ! i) + int k\<rparr>"
    by (simp_all add: relay_at_def)
  have "may_retry ts (pr_current r)" using k i(3,4) by (simp add: may_retry_def retries_left_def)
  then have "SelectTarget name ts r = (ts[i := count_retry (ts ! i)], r, [])"
    using i(3) by (simp add: SelectTarget_def)
  moreover have "relay_at name ts0 i (Suc k) (ts[i := count_retry (ts ! i)]) r"
    using at i k by (auto simp: relay_at_def count_retry_def)
  ultimately show ?thesis by blast
qed

text \<open>Turning to a target, the first one or the next.\<close>

lemma select_turn:
  assumes "\<not> may_retry ts (pr_current r)" and "pr_index r + 1 = int i" and "i < length ts0"
    and "length ts = length ts0" and "\<forall>j. i \<le> j \<longrightarrow> j < length ts0 \<longrightarrow> ts ! j = ts0 ! j"
    and "pr_targets r = [0 ..< length ts0]" and "pr_created r = pullers_before ts0 i"
    and p: "(case pr_puller r of None \<Rightarrow> [] | Some p \<Rightarrow> [FreePuller p]) = frees ts0 i"
  shows "\<exists>ts' r'. SelectTarget name ts r = (ts', r', frees ts0 i) \<and> relay_at name ts0 i 0 ts' r'"
proof -
  let ?r = "r\<lparr>pr_index := int i, pr_current := Some i, pr_puller := puller_of ts0 i, pr_loop := True,
              pr_created := pullers_before ts0 (Suc i)\<rparr>"
  let ?ts = "ts[i := name_stream name (ts0 ! i)]"
  have clear: "ClearPuller r1 = (r1\<lparr>pr_puller := None\<rparr>, frees ts0 i)" if "pr_puller r1 = pr_puller r" for r1
    using p that by (cases r1) (auto simp: ClearPuller_def split: option.splits)
  have "SelectTarget name ts r = (?ts, ?r, frees ts0 i)"
    using assms(1-7) unfolding SelectTarget_def Let_def
    by (simp add: clear GetPuller_def puller_of_def pullers_before_Suc)
  moreover have "relay_at name ts0 i 0 ?ts ?r"
    using assms(3-6) by (auto simp: relay_at_def name_stream_def Let_def)
  ultimately show ?thesis by blast
qed

lemma select_past:
  assumes at: "relay_at name ts0 i k ts r" and k: "k = retries_left (ts0 ! i)" and i: "Suc i = length ts0"
  shows "\<exists>r'. SelectTarget name ts r = (ts, r', [CloseThisSession]) \<and> relay_at name ts0 i k ts r'"
proof -
  have no: "\<not> may_retry ts (pr_current r)"
    using at k by (simp add: relay_at_def may_retry_def retries_left_def)
  have "\<not> nat (pr_index r + 1) < length (pr_targets r)" using at i by (auto simp: relay_at_def)
  then have "SelectTarget name ts r = (ts, r\<lparr>pr_index := pr_index r + 1\<rparr>, [CloseThisSession])"
    using no by (simp add: SelectTarget_def Let_def)
  moreover have "relay_at name ts0 i k ts (r\<lparr>pr_index := pr_index r + 1\<rparr>)"
    using at k i by (auto simp: relay_at_def)
  ultimately show ?thesis by blast
qed

lemma plan_left_simps:
  "k < retries_left (ts ! i) \<Longrightarrow>
     plan_left name ts i k = (Some i, try_acts name ts i (tg_retry (ts ! i) + int (Suc k))) # plan_left name ts i (Suc k)"
  "k = retries_left (ts ! i) \<Longrightarrow> Suc i < length ts \<Longrightarrow>
     plan_left name ts i k = (Some (Suc i), frees ts (Suc i) @ try_acts name ts (Suc i) (tg_retry (ts ! Suc i))) #
       plan_left name ts (Suc i) 0"
  "k = retries_left (ts ! i) \<Longrightarrow> Suc i = length ts \<Longrightarrow> plan_left name ts i k = []"
  by (simp_all add: plan_left_def target_plan_def upt_conv_Cons del: upt_Suc)

text \<open>One more try, whoever asks for it: the next step of the plan, or past it.\<close>

lemma pull_follows:
  assumes at: "relay_at name ts0 i k ts r" and ports: "ports_known ts0"
  shows "\<exists>ts' r' i' k' acts. Pull name False ts r = Inr (ts', r', acts) \<and> relay_at name ts0 i' k' ts' r' \<and>
     (case plan_left name ts0 i k of
        [] \<Rightarrow> (Some i', acts) = past_plan name ts0 \<and> plan_left name ts0 i' k' = []
      | x # rest \<Rightarrow> (Some i', acts) = x \<and> plan_left name ts0 i' k' = rest)"
proof (cases "k < retries_left (ts0 ! i)")
  case True
  from select_again [OF at True] obtain ts' where
    s: "SelectTarget name ts r = (ts', r, [])" "relay_at name ts0 i (Suc k) ts' r" by blast
  from pull_selected [OF s(2) ports s(1)] s(2) show ?thesis
    unfolding plan_left_simps(1) [OF True] by (intro exI conjI) (assumption | simp)+
next
  case False
  with at have k: "k = retries_left (ts0 ! i)" and i: "i < length ts0" by (simp_all add: relay_at_def)
  show ?thesis
  proof (cases "Suc i < length ts0")
    case True
    have "\<not> may_retry ts (pr_current r)" using at k by (simp add: relay_at_def may_retry_def retries_left_def)
    moreover have "(case pr_puller r of None \<Rightarrow> [] | Some p \<Rightarrow> [FreePuller p]) = frees ts0 (Suc i)"
      using at by (simp add: relay_at_def frees_def)
    ultimately obtain ts' r' where
      s: "SelectTarget name ts r = (ts', r', frees ts0 (Suc i))" "relay_at name ts0 (Suc i) 0 ts' r'"
      using select_turn [of ts r "Suc i" ts0 name] at True by (auto simp: relay_at_def)
    from pull_selected [OF s(2) ports s(1)] s(2) show ?thesis
      unfolding plan_left_simps(2) [OF k True] by (intro exI conjI) (assumption | simp)+
  next
    case last: False
    with i have len: "Suc i = length ts0" by simp
    from select_past [OF at k this] obtain r' where
      s: "SelectTarget name ts r = (ts, r', [CloseThisSession])" "relay_at name ts0 i k ts r'" by blast
    have "length ts0 - 1 = i" using len by simp
    then have past: "past_plan name ts0 = (Some i, CloseThisSession # try_acts name ts0 i (tg_retry (ts0 ! i) + int k))"
      unfolding past_plan_def k by simp
    show ?thesis
      unfolding plan_left_simps(3) [OF k len] past
      by (rule exI [of _ ts], rule exI [of _ r'], rule exI [of _ i], rule exI [of _ k])
        (use pull_selected [OF s(2) ports s(1)] s(2) plan_left_simps(3) [OF k len] in simp)
  qed
qed

text \<open>
  A run while nobody publishes: players join and pulls end. Every event is observed by the
  target that is current after it and by all that was done to pullers, timer and session.
\<close>

datatype relay_event = PlayerJoins | PullEnds

fun relay_step ::
    "string \<Rightarrow> relay_event \<Rightarrow> Target list \<Rightarrow> Relay \<Rightarrow> (Target list \<times> Relay \<times> relay_act list) result" where
  "relay_step name PlayerJoins ts r = StartPullStream name False ts r"
| "relay_step name PullEnds ts r = OnPullClose name False ts r"

fun relay_run ::
    "string \<Rightarrow> relay_event list \<Rightarrow> Target list \<Rightarrow> Relay \<Rightarrow> (relay_trace \<times> Target list \<times> Relay) result" where
  "relay_run name [] ts r = Inr ([], ts, r)"
| "relay_run name (e # es) ts r =
     rbind (relay_step name e ts r) (\<lambda>(ts, r, acts).
     rbind (relay_run name es ts r) (\<lambda>(trace, ts', r').
       Inr ((pr_current r, acts) # trace, ts', r')))"

lemma relay_step_at: "relay_at name ts0 i k ts r \<Longrightarrow> relay_step name e ts r = Pull name False ts r"
  by (cases e; cases r) (auto simp: StartPullStream_def GetTargets_def OnPullClose_def relay_at_def)

lemma relay_run_follows:
  assumes "relay_at name ts0 i k ts r" and "ports_known ts0"
  shows "\<exists>ts' r'. relay_run name es ts r =
           Inr (follows_plan (past_plan name ts0) (plan_left name ts0 i k) (length es), ts', r')"
  using assms(1)
proof (induction es arbitrary: i k ts r)
  case Nil
  then show ?case by (simp add: follows_plan_def)
next
  case (Cons e es)
  from pull_follows [OF Cons.prems assms(2)] obtain ts1 r1 i' k' acts where
    1: "relay_step name e ts r = Inr (ts1, r1, acts)" "relay_at name ts0 i' k' ts1 r1"
    and c: "case plan_left name ts0 i k of
        [] \<Rightarrow> (Some i', acts) = past_plan name ts0 \<and> plan_left name ts0 i' k' = []
      | x # rest \<Rightarrow> (Some i', acts) = x \<and> plan_left name ts0 i' k' = rest"
    using relay_step_at [OF Cons.prems, of e] by metis
  have "pr_current r1 = Some i'" using 1(2) by (simp add: relay_at_def)
  with 1 c Cons.IH [OF 1(2)] show ?case
    by (cases "plan_left name ts0 i k") (auto simp: follows_plan_Suc)
qed

lemma relay_new_run:
  assumes "ts \<noteq> []" and "ports_known ts"
  shows "\<exists>ts' r'. relay_run name (PlayerJoins # es) ts Relay_new =
           Inr (follows_plan (past_plan name ts) (relay_plan name ts) (Suc (length es)), ts', r')"
proof -
  let ?r = "Relay_new\<lparr>pr_targets := [0 ..< length ts]\<rparr>"
  have "(case pr_puller ?r of None \<Rightarrow> [] | Some p \<Rightarrow> [FreePuller p]) = frees ts 0"
    by (simp add: Relay_new_def frees_def)
  with assms(1) obtain ts1 r1 where
    s: "SelectTarget name ts ?r = (ts1, r1, frees ts 0)" "relay_at name ts 0 0 ts1 r1"
    using select_turn [of ts ?r 0 ts name] by (auto simp: Relay_new_def may_retry_def pullers_before_def)
  have "relay_step name PlayerJoins ts Relay_new = Pull name False ts ?r"
    using assms(1) by (simp add: StartPullStream_def GetTargets_def Let_def)
  with pull_selected [OF s(2) assms(2) s(1)]
  have 1: "relay_step name PlayerJoins ts Relay_new = Inr (ts1, r1, frees ts 0 @ try_acts name ts 0 (tg_retry (ts ! 0)))"
    by simp
  have "pr_current r1 = Some 0" using s(2) by (simp add: relay_at_def)
  moreover have "relay_plan name ts = (Some 0, frees ts 0 @ try_acts name ts 0 (tg_retry (ts ! 0))) # plan_left name ts 0 0"
    using assms(1) by (simp add: relay_plan_def plan_left_def target_plan_def upt_conv_Cons [of 0])
  ultimately show ?thesis
    using 1 relay_run_follows [OF s(2) assms(2), of es] by (auto simp: follows_plan_Suc)
qed

section \<open>What goes wrong\<close>

text \<open>
  A timer that was set to retry keeps a pointer to the puller. Two more players join before it
  fires: the second one makes the relay turn to the next target, which deletes the puller.
\<close>

definition slow_target :: Target where
  "slow_target = (Target_new ''d'' ''a'')\<lparr>tg_remote_host := ''h'', tg_remote_port := Some 1935, tg_protocol := ''rtmp'', tg_max_retry := 1\<rparr>"

lemma pull_timer_dangles:
  "\<exists>ts1 r1 a1 ts2 r2 a2 ts3 r3 a3.
     StartPullStream ''d/a/s'' False [slow_target, slow_target] Relay_new = Inr (ts1, r1, a1) \<and>
     OnPullClose ''d/a/s'' False ts1 r1 = Inr (ts2, r2, a2) \<and> PullAfter 1000 (Some 0) 0 \<in> set a2 \<and>
     StartPullStream ''d/a/s'' False ts2 r2 = Inr (ts3, r3, a3) \<and> PullTimer (Some 0) 0 ts3 r3 = Inl UseAfterFree"
  by (simp add: StartPullStream_def OnPullClose_def Pull_def PullTimer_def GetTargets_def SelectTarget_def
      ClearPuller_def GetPuller_def RtmpPuller_Pull_def pull_url_def may_retry_def count_retry_def name_stream_def
      SplitString_def slow_target_def Target_new_def Relay_new_def is_rtmp_def Let_def numeral_2_eq_2)

text \<open>The target keeps the stream name of the session that was first, and a second one pulls that stream.\<close>

lemma target_name_shared:
  assumes "tg_stream_name t = []" and "SplitString a ''/'' = [d, app, x]" and "x \<noteq> []"
  shows "tg_stream_name (name_stream b (name_stream a t)) = x"
  using assms by (simp add: name_stream_def)

text \<open>The client takes everything behind \<open>rtmp://\<close>, port and path included, for the address.\<close>

lemma client_address_is_url:
  assumes "c \<noteq> CHR '':''" and "c \<noteq> CHR ''/''"
  shows "RtmpClient_ParseUrl (''rtmp://'' @ c # rest) = Some (c # rest, 1935)"
  using assms by (simp add: RtmpClient_ParseUrl_def find_last_of_def Let_def)

end
