(* ===== verification/TimeCorrector.thy ===== *)
theory TimeCorrector
  imports Packet
begin

text \<open>
  \<open>live/base/TimeCorrector.cc\<close> and \<open>CodecUtils.cc\<close>: the timestamps a stream gives its
  packets. Fields of type \<open>int64_t\<close> and \<open>int32_t\<close> are integers; timestamps of the code
  stay far below \<open>2 ^ 63\<close>, so only the conversions to 32 bits are written out.
\<close>

section \<open>CodecUtils\<close>

text \<open>The second byte of a sequence header is 0; the upper half of the first byte is the frame type.\<close>

definition IsCodecHeader :: "'e Packet \<Rightarrow> bool result" where
  "IsCodecHeader p =
     (if pk_size p > 1 then rbind (nth_checked (pk_data p) 1) (\<lambda>b. Inr (b = 0)) else Inr False)"

definition CodecUtils_IsKeyFrame :: "'e Packet \<Rightarrow> bool result" where
  "CodecUtils_IsKeyFrame p =
     (if pk_size p > 0 then rbind (nth_checked (pk_data p) 0) (\<lambda>b. Inr (drop_bit 4 b AND 0x0F = 1)) else Inr False)"

lemma codec_utils_ok:
  assumes "packet_inv p"
  shows "\<exists>b. IsCodecHeader p = Inr b" and "\<exists>b. CodecUtils_IsKeyFrame p = Inr b"
  using assms by (auto simp: IsCodecHeader_def CodecUtils_IsKeyFrame_def packet_inv_def)

section \<open>TimeCorrector\<close>

definition kMaxVideoDeltaTime :: int where "kMaxVideoDeltaTime = 100"
definition kMaxAudioDeltaTime :: int where "kMaxAudioDeltaTime = 100"
definition kDefaultVideoDeltaTime :: int where "kDefaultVideoDeltaTime = 40"
definition kDefaultAudioDeltaTime :: int where "kDefaultAudioDeltaTime = 20"

lemmas delta_defs = kMaxVideoDeltaTime_def kMaxAudioDeltaTime_def kDefaultVideoDeltaTime_def
  kDefaultAudioDeltaTime_def

record TimeCorrector =
  video_original_timestamp :: int
  video_corrected_timestamp :: int
  audio_original_timestamp :: int
  audio_corrected_timestamp :: int
  audio_numbers_between_video :: int

definition TimeCorrector_new :: TimeCorrector where
  "TimeCorrector_new =
     \<lparr>video_original_timestamp = -1, video_corrected_timestamp = 0, audio_original_timestamp = -1,
      audio_corrected_timestamp = 0, audio_numbers_between_video = 0\<rparr>"

definition CorrectAudioTimeStampByAudio :: "int \<Rightarrow> TimeCorrector \<Rightarrow> int \<times> TimeCorrector" where
  "CorrectAudioTimeStampByAudio time c =
     (if audio_original_timestamp c = -1
      then (uint32 time, c\<lparr>audio_original_timestamp := time, audio_corrected_timestamp := time\<rparr>)
      else let delta = time - audio_original_timestamp c;
               fine = (delta > - kMaxAudioDeltaTime \<and> delta < kMaxAudioDeltaTime);
               delta = (if fine then delta else kDefaultAudioDeltaTime);
               corrected = max 0 (audio_corrected_timestamp c + delta)
           in (uint32 corrected, c\<lparr>audio_original_timestamp := time, audio_corrected_timestamp := corrected\<rparr>))"

definition CorrectAudioTimeStampByVideo :: "int \<Rightarrow> TimeCorrector \<Rightarrow> int \<times> TimeCorrector" where
  "CorrectAudioTimeStampByVideo time c =
     (let c = c\<lparr>audio_numbers_between_video := audio_numbers_between_video c + 1\<rparr>
      in if audio_numbers_between_video c > 1 then CorrectAudioTimeStampByAudio time c
         else if video_original_timestamp c = -1
         then (uint32 time, c\<lparr>audio_original_timestamp := time, audio_corrected_timestamp := time\<rparr>)
         else let delta = time - video_original_timestamp c;
                  fine = (delta > - kMaxVideoDeltaTime \<and> delta < kMaxVideoDeltaTime);
                  delta = (if fine then delta else kDefaultVideoDeltaTime);
                  corrected = max 0 (audio_corrected_timestamp c + (video_corrected_timestamp c + delta))
              in (uint32 corrected, c\<lparr>audio_original_timestamp := time, audio_corrected_timestamp := corrected\<rparr>))"

text \<open>The first video frame, which takes over the audio time when the two are far apart.\<close>

definition video_start :: "int \<Rightarrow> TimeCorrector \<Rightarrow> TimeCorrector" where
  "video_start time c =
     (if video_original_timestamp c = -1
      then let c = c\<lparr>video_original_timestamp := time, video_corrected_timestamp := time\<rparr>
           in if audio_original_timestamp c \<noteq> -1
              then let delta = int32 (audio_original_timestamp c - video_original_timestamp c)
                   in if delta \<le> - kMaxAudioDeltaTime \<or> delta \<ge> kMaxAudioDeltaTime
                      then c\<lparr>video_original_timestamp := audio_original_timestamp c,
                             video_corrected_timestamp := audio_corrected_timestamp c\<rparr>
                      else c
              else c
      else c)"

definition CorrectVideoTimeStampByVideo :: "int \<Rightarrow> TimeCorrector \<Rightarrow> int \<times> TimeCorrector" where
  "CorrectVideoTimeStampByVideo time c =
     (let c = video_start time (c\<lparr>audio_numbers_between_video := 0\<rparr>);
          delta = time - video_original_timestamp c;
          fine = (delta > - kMaxVideoDeltaTime \<and> delta < kMaxVideoDeltaTime);
          delta = (if fine then delta else kDefaultVideoDeltaTime);
          corrected = max 0 (video_corrected_timestamp c + delta)
      in (uint32 corrected, c\<lparr>video_original_timestamp := time, video_corrected_timestamp := corrected\<rparr>))"

definition CorrectTimestamp :: "'e Packet \<Rightarrow> TimeCorrector \<Rightarrow> (int \<times> TimeCorrector) result" where
  "CorrectTimestamp p c =
     rbind (IsCodecHeader p) (\<lambda>hdr.
       Inr (if hdr then (0, c)
            else if IsVideo p then CorrectVideoTimeStampByVideo (sint (pk_timestamp p)) c
            else if IsAudio p then CorrectAudioTimeStampByAudio (sint (pk_timestamp p)) c
            else (0, c)))"

section \<open>What the correction guarantees\<close>

text \<open>
  From the second frame of a kind on, the corrected time moves by less than the limit,
  whatever the input does, and never below zero.
\<close>

lemma video_step:
  assumes "video_original_timestamp c \<noteq> -1" and "0 \<le> video_corrected_timestamp c"
  shows "\<bar>video_corrected_timestamp (snd (CorrectVideoTimeStampByVideo time c)) - video_corrected_timestamp c\<bar>
           < kMaxVideoDeltaTime"
    and "0 \<le> video_corrected_timestamp (snd (CorrectVideoTimeStampByVideo time c))"
  using assms by (auto simp: CorrectVideoTimeStampByVideo_def video_start_def Let_def delta_defs)

lemma audio_step:
  assumes "audio_original_timestamp c \<noteq> -1" and "0 \<le> audio_corrected_timestamp c"
  shows "\<bar>audio_corrected_timestamp (snd (CorrectAudioTimeStampByAudio time c)) - audio_corrected_timestamp c\<bar>
           < kMaxAudioDeltaTime"
    and "0 \<le> audio_corrected_timestamp (snd (CorrectAudioTimeStampByAudio time c))"
  using assms by (auto simp: CorrectAudioTimeStampByAudio_def Let_def delta_defs)

text \<open>A run of video frames: the corrected times.\<close>

fun correct_videos :: "int list \<Rightarrow> TimeCorrector \<Rightarrow> int list" where
  "correct_videos [] c = []"
| "correct_videos (t # ts) c =
     (case CorrectVideoTimeStampByVideo t c of (r, c') \<Rightarrow> r # correct_videos ts c')"

text \<open>A sequence whose neighbours are less than the limit apart.\<close>

fun smooth :: "int \<Rightarrow> int list \<Rightarrow> bool" where
  "smooth t [] \<longleftrightarrow> True"
| "smooth t (u # us) \<longleftrightarrow> \<bar>u - t\<bar> < kMaxVideoDeltaTime \<and> smooth u us"

text \<open>
  Smooth input is shifted by the offset between original and corrected time and otherwise
  not touched, as long as the times fit the return type.
\<close>

lemma correct_videos_smooth:
  assumes "video_original_timestamp c = t" and "t \<noteq> -1"
    and "smooth t ts" and "\<forall>u \<in> set ts. u \<noteq> -1 \<and> 0 \<le> u + off \<and> u + off < 2 ^ 32"
    and "video_corrected_timestamp c = t + off"
  shows "correct_videos ts c = map (\<lambda>u. u + off) ts"
  using assms
proof (induction ts arbitrary: t c)
  case (Cons u us)
  let ?c = "snd (CorrectVideoTimeStampByVideo u c)"
  have c: "CorrectVideoTimeStampByVideo u c =
      (u + off, c\<lparr>audio_numbers_between_video := 0, video_original_timestamp := u, video_corrected_timestamp := u + off\<rparr>)"
    using Cons.prems by (auto simp: CorrectVideoTimeStampByVideo_def video_start_def Let_def uint32_id)
  have "correct_videos us ?c = map (\<lambda>u. u + off) us"
    using Cons.prems by (intro Cons.IH [of _ u]) (auto simp: c)
  then show ?case by (simp add: c)
qed simp

text \<open>Any input at all: the corrected times are smooth.\<close>

lemma correct_videos_bounded:
  assumes "video_original_timestamp c \<noteq> -1" and "0 \<le> video_corrected_timestamp c"
    and "\<forall>t \<in> set ts. t \<noteq> -1"
    and "video_corrected_timestamp c + int (length ts) * kMaxVideoDeltaTime < 2 ^ 32"
  shows "smooth (video_corrected_timestamp c) (correct_videos ts c)"
  using assms
proof (induction ts arbitrary: c)
  case (Cons t ts)
  let ?c = "snd (CorrectVideoTimeStampByVideo t c)"
  note s = video_step [OF Cons.prems(1,2), of t]
  have v: "video_corrected_timestamp ?c + int (length ts) * kMaxVideoDeltaTime < 2 ^ 32"
    using s(1) Cons.prems(4) by (simp add: delta_defs)
  have r: "fst (CorrectVideoTimeStampByVideo t c) = video_corrected_timestamp ?c"
  proof -
    have "fst (CorrectVideoTimeStampByVideo t c) = uint32 (video_corrected_timestamp ?c)"
      by (simp add: CorrectVideoTimeStampByVideo_def Let_def)
    moreover have "video_corrected_timestamp ?c < 2 ^ 32" using v by (simp add: delta_defs)
    ultimately show ?thesis using s(2) by (simp add: uint32_id)
  qed
  have "video_original_timestamp ?c \<noteq> -1"
    using Cons.prems(3) by (simp add: CorrectVideoTimeStampByVideo_def Let_def)
  then have "smooth (video_corrected_timestamp ?c) (correct_videos ts ?c)"
    using Cons.prems(3) s(2) v by (intro Cons.IH) auto
  with s(1) r show ?case by (cases "CorrectVideoTimeStampByVideo t c") simp
qed simp

end
