(* ===== verification/GopMgr.thy ===== *)
theory GopMgr
  imports TimeCorrector
begin

text \<open>
  \<open>live/base/GopMgr.cc\<close>: the list of key frames a stream still holds, by packet index and
  timestamp, from which a player's entry point is chosen.
\<close>

record GopItemInfo =
  gi_index :: int
  gi_timestamp :: int

record GopMgr =
  gops :: "GopItemInfo list"
  gop_length :: int
  max_gop_length :: int
  gop_numbers :: int
  total_gop_length :: int
  latest_timestamp :: int

definition GopMgr_new :: GopMgr where
  "GopMgr_new = \<lparr>gops = [], gop_length = 0, max_gop_length = 0, gop_numbers = 0, total_gop_length = 0,
                 latest_timestamp = 0\<rparr>"

definition AddFrame :: "'e Packet \<Rightarrow> GopMgr \<Rightarrow> GopMgr" where
  "AddFrame p g =
     (let t = sint (pk_timestamp p);
          g = g\<lparr>latest_timestamp := t\<rparr>;
          g = (if IsKeyFrame p
               then g\<lparr>gops := gops g @ [\<lparr>gi_index = pk_index p, gi_timestamp = t\<rparr>],
                      max_gop_length := max (max_gop_length g) (gop_length g),
                      total_gop_length := total_gop_length g + gop_length g,
                      gop_numbers := gop_numbers g + 1,
                      gop_length := 0\<rparr>
               else g)
      in g\<lparr>gop_length := gop_length g + 1\<rparr>)"

definition MaxGopLength :: "GopMgr \<Rightarrow> int" where
  "MaxGopLength g = max_gop_length g"

definition GopSize :: "GopMgr \<Rightarrow> nat" where
  "GopSize g = length (gops g)"

text \<open>The backward loop of \<open>GetGopByLatency\<close>, on the reversed list; the latency is an \<open>int\<close>.\<close>

fun gop_search :: "int \<Rightarrow> int \<Rightarrow> GopItemInfo list \<Rightarrow> int \<times> int \<Rightarrow> int \<times> int" where
  "gop_search latest content [] r = r"
| "gop_search latest content (i # is) r =
     (let item_latency = int32 (latest - gi_timestamp i)
      in if item_latency \<le> content then gop_search latest content is (gi_index i, item_latency) else r)"

definition GetGopByLatency :: "int \<Rightarrow> GopMgr \<Rightarrow> int \<times> int" where
  "GetGopByLatency content g = gop_search (latest_timestamp g) content (rev (gops g)) (-1, 0)"

definition ClearExpriedGop :: "int \<Rightarrow> GopMgr \<Rightarrow> GopMgr" where
  "ClearExpriedGop min_idx g = g\<lparr>gops := filter (\<lambda>i. \<not> gi_index i \<le> min_idx) (gops g)\<rparr>"

section \<open>The chosen group of pictures\<close>

lemma gop_search_takeWhile:
  "gop_search latest content is r =
     (case takeWhile (\<lambda>i. int32 (latest - gi_timestamp i) \<le> content) is of
        [] \<Rightarrow> r
      | ks \<Rightarrow> (gi_index (last ks), int32 (latest - gi_timestamp (last ks))))"
proof (induction "is" arbitrary: r)
  case (Cons i "is")
  then show ?case
    by (cases "takeWhile (\<lambda>i. int32 (latest - gi_timestamp i) \<le> content) is") (simp_all add: Let_def)
qed simp

text \<open>
  The entry point: the oldest group of the longest run of newest groups that are all within
  the latency, or none if the newest is not.
\<close>

definition gop_in_latency :: "int \<Rightarrow> GopMgr \<Rightarrow> GopItemInfo \<Rightarrow> bool" where
  "gop_in_latency content g i \<longleftrightarrow> int32 (latest_timestamp g - gi_timestamp i) \<le> content"

lemma GetGop_found:
  assumes "gops g = older @ newer" and "newer \<noteq> []"
    and "\<forall>i \<in> set newer. gop_in_latency content g i"
    and "older \<noteq> [] \<Longrightarrow> \<not> gop_in_latency content g (last older)"
  shows "GetGopByLatency content g =
           (gi_index (hd newer), int32 (latest_timestamp g - gi_timestamp (hd newer)))"
proof -
  have "takeWhile (gop_in_latency content g) (rev older) = []"
    using assms(4) by (cases older rule: rev_cases) auto
  then have "takeWhile (gop_in_latency content g) (rev (gops g)) = rev newer"
    using assms(1,3) by (simp add: takeWhile_append)
  then show ?thesis
    using \<open>newer \<noteq> []\<close>
    by (cases "rev newer" rule: list.exhaust)
      (auto simp: GetGopByLatency_def gop_search_takeWhile gop_in_latency_def [abs_def] last_rev
         simp flip: last_rev split: list.splits)
qed

lemma GetGop_none:
  "(\<not> gop_in_latency content g (last (gops g)) \<or> gops g = []) \<Longrightarrow> GetGopByLatency content g = (-1, 0)"
  by (cases "gops g" rule: rev_cases) (auto simp: GetGopByLatency_def gop_in_latency_def Let_def)

lemma GetGop_index:
  assumes "GetGopByLatency content g = (idx, l)" and "idx \<noteq> -1"
  shows "idx \<in> gi_index ` set (gops g)"
proof -
  let ?ks = "takeWhile (\<lambda>i. int32 (latest_timestamp g - gi_timestamp i) \<le> content) (rev (gops g))"
  have "?ks \<noteq> []" and "idx = gi_index (last ?ks)"
    using assms by (auto simp: GetGopByLatency_def gop_search_takeWhile split: list.splits)
  moreover from \<open>?ks \<noteq> []\<close> have "last ?ks \<in> set (rev (gops g))"
    by (meson last_in_set set_takeWhileD)
  ultimately show ?thesis by simp
qed

section \<open>Lengths\<close>

text \<open>Every frame is counted in exactly one group, or in the one in progress.\<close>

lemma AddFrame_lengths:
  "total_gop_length (AddFrame p g) + gop_length (AddFrame p g) = total_gop_length g + gop_length g + 1"
  by (simp add: AddFrame_def Let_def)

lemma AddFrame_gops:
  "gops (AddFrame p g) =
     gops g @ (if IsKeyFrame p then [\<lparr>gi_index = pk_index p, gi_timestamp = sint (pk_timestamp p)\<rparr>] else [])"
  by (simp add: AddFrame_def Let_def)

lemma AddFrame_latest [simp]: "latest_timestamp (AddFrame p g) = sint (pk_timestamp p)"
  by (simp add: AddFrame_def Let_def)

text \<open>The number of groups and the longest one, over a run of frames.\<close>

definition gop_stats_inv :: "nat \<Rightarrow> GopMgr \<Rightarrow> bool" where
  "gop_stats_inv n g \<longleftrightarrow>
     total_gop_length g + gop_length g = int n \<and> 0 \<le> gop_length g \<and> 0 \<le> max_gop_length g \<and>
     0 \<le> total_gop_length g \<and>
     total_gop_length g \<le> gop_numbers g * max_gop_length g \<and> max_gop_length g \<le> int n \<and> 0 \<le> gop_numbers g"

lemma AddFrame_stats:
  assumes "gop_stats_inv n g"
  shows "gop_stats_inv (Suc n) (AddFrame p g)"
proof -
  have "total_gop_length g \<le> gop_numbers g * max_gop_length g" and "0 \<le> gop_numbers g"
    using assms by (auto simp: gop_stats_inv_def)
  then have "total_gop_length g \<le> gop_numbers g * max (max_gop_length g) (gop_length g)"
    by (meson max.cobounded1 mult_left_mono order_trans)
  then have "total_gop_length g + gop_length g \<le> (gop_numbers g + 1) * max (max_gop_length g) (gop_length g)"
    by (simp add: distrib_right)
  then show ?thesis
    using assms by (auto simp: gop_stats_inv_def AddFrame_def Let_def)
qed

end
