(* ===== verification/CodecHeader.thy ===== *)
theory CodecHeader
  imports Packet Amf
begin

text \<open>
  \<open>live/base/CodecHeader.cc\<close>: the sequence headers and metadata of a stream, all versions in
  order of arrival, looked up by the index of the frame a player starts from. \<open>ParseMeta\<close>
  only logs what it decodes; it is modelled for the reads it makes.
\<close>

record 'e CodecHeader =
  ch_video_header :: "'e Packet option"
  ch_audio_header :: "'e Packet option"
  ch_meta :: "'e Packet option"
  ch_meta_version :: int
  ch_audio_version :: int
  ch_video_version :: int
  ch_video_header_packets :: "'e Packet list"
  ch_audio_header_packets :: "'e Packet list"
  ch_meta_packets :: "'e Packet list"
  ch_start_timestamp :: int

definition CodecHeader_new :: "int \<Rightarrow> 'e CodecHeader" where
  "CodecHeader_new now =
     \<lparr>ch_video_header = None, ch_audio_header = None, ch_meta = None, ch_meta_version = 0,
      ch_audio_version = 0, ch_video_version = 0, ch_video_header_packets = [],
      ch_audio_header_packets = [], ch_meta_packets = [], ch_start_timestamp = now\<rparr>"

text \<open>The loop of the three lookups, from the newest packet back.\<close>

definition header_before :: "int \<Rightarrow> 'e Packet list \<Rightarrow> 'e Packet option \<Rightarrow> 'e Packet option" where
  "header_before idx ps newest =
     (if idx \<le> 0 then newest
      else case find (\<lambda>p. pk_index p \<le> idx) (rev ps) of Some p \<Rightarrow> Some p | None \<Rightarrow> newest)"

definition CodecHeader_Meta :: "int \<Rightarrow> 'e CodecHeader \<Rightarrow> 'e Packet option" where
  "CodecHeader_Meta idx h = header_before idx (ch_meta_packets h) (ch_meta h)"

definition CodecHeader_VideoHeader :: "int \<Rightarrow> 'e CodecHeader \<Rightarrow> 'e Packet option" where
  "CodecHeader_VideoHeader idx h = header_before idx (ch_video_header_packets h) (ch_video_header h)"

definition CodecHeader_AudioHeader :: "int \<Rightarrow> 'e CodecHeader \<Rightarrow> 'e Packet option" where
  "CodecHeader_AudioHeader idx h = header_before idx (ch_audio_header_packets h) (ch_audio_header h)"

definition SaveMeta :: "'e Packet \<Rightarrow> 'e CodecHeader \<Rightarrow> 'e CodecHeader" where
  "SaveMeta p h = h\<lparr>ch_meta := Some p, ch_meta_version := ch_meta_version h + 1,
                    ch_meta_packets := ch_meta_packets h @ [p]\<rparr>"

definition SaveAudioHeader :: "'e Packet \<Rightarrow> 'e CodecHeader \<Rightarrow> 'e CodecHeader" where
  "SaveAudioHeader p h = h\<lparr>ch_audio_header := Some p, ch_audio_version := ch_audio_version h + 1,
                           ch_audio_header_packets := ch_audio_header_packets h @ [p]\<rparr>"

definition SaveVideoHeader :: "'e Packet \<Rightarrow> 'e CodecHeader \<Rightarrow> 'e CodecHeader" where
  "SaveVideoHeader p h = h\<lparr>ch_video_header := Some p, ch_video_version := ch_video_version h + 1,
                           ch_video_header_packets := ch_video_header_packets h @ [p]\<rparr>"

text \<open>The properties \<open>ParseMeta\<close> prints: the numbers, then the strings.\<close>

definition meta_numbers :: "string list" where
  "meta_numbers = [''width'', ''height'', ''videocodecid'', ''framerate'', ''videodatarate'',
     ''audiosamplerate'', ''audiosamplesize'', ''audiocodecid'', ''audiodatarate'', ''duration'']"

definition meta_strings :: "string list" where
  "meta_strings = [''encoder'', ''server'']"

definition ParseMeta :: "'e Packet \<Rightarrow> ((string \<times> double) list \<times> (string \<times> string) list) option result" where
  "ParseMeta p =
     rbind (amf_Decode (pk_data p) (int (pk_size p))) (\<lambda>r. Inr (case r of None \<Rightarrow> None | Some (props, _) \<Rightarrow>
       Some (List.map_filter (\<lambda>n. map_option (\<lambda>a. (n, AMFAny_Number a)) (Property_name n props)) meta_numbers,
             List.map_filter (\<lambda>n. map_option (\<lambda>a. (n, AMFAny_String a)) (Property_name n props)) meta_strings)))"

definition ParseCodecHeader :: "'e Packet \<Rightarrow> 'e CodecHeader \<Rightarrow> 'e CodecHeader result" where
  "ParseCodecHeader p h =
     (if IsMeta p then rbind (ParseMeta p) (\<lambda>_. Inr (SaveMeta p h))
      else if IsAudio p then Inr (SaveAudioHeader p h)
      else if IsVideo p then Inr (SaveVideoHeader p h)
      else Inr h)"

section \<open>Lookups\<close>

lemma find_last:
  "find P (rev xs) = (case filter P xs of [] \<Rightarrow> None | ys \<Rightarrow> Some (last ys))"
proof (induction xs rule: rev_induct)
  case (snoc x xs)
  then show ?case by (auto split: list.splits)
qed simp

text \<open>With headers in index order: the newest one that is not after the frame, if there is one.\<close>

definition newest_before :: "int \<Rightarrow> 'e Packet list \<Rightarrow> 'e Packet \<Rightarrow> bool" where
  "newest_before idx ps p \<longleftrightarrow>
     p \<in> set ps \<and> pk_index p \<le> idx \<and> (\<forall>q \<in> set ps. pk_index q \<le> idx \<longrightarrow> pk_index q \<le> pk_index p)"

lemma sorted_le_last: "sorted xs \<Longrightarrow> x \<in> set xs \<Longrightarrow> x \<le> last xs"
  by (cases xs rule: rev_cases) (auto simp: sorted_append)

lemma header_before_newest:
  assumes "sorted (map pk_index ps)" and "0 < idx" and "\<exists>q \<in> set ps. pk_index q \<le> idx"
  shows "\<exists>p. header_before idx ps newest = Some p \<and> newest_before idx ps p"
proof -
  let ?ys = "filter (\<lambda>p. pk_index p \<le> idx) ps"
  have ne: "?ys \<noteq> []" using assms(3) by (auto simp: filter_empty_conv)
  have "sorted (map pk_index ?ys)"
    using assms(1) by (simp add: sorted_filter)
  then have "pk_index q \<le> pk_index (last ?ys)" if "q \<in> set ?ys" for q
    using sorted_le_last [of "map pk_index ?ys" "pk_index q"] that ne
    by (metis imageI last_map set_map)
  then have "newest_before idx ps (last ?ys)"
    using last_in_set [OF ne] unfolding newest_before_def by simp
  moreover have "find (\<lambda>p. pk_index p \<le> idx) (rev ps) = Some (last ?ys)"
    using ne by (simp add: find_last split: list.splits)
  ultimately show ?thesis
    using \<open>0 < idx\<close> by (simp add: header_before_def)
qed

lemma header_before_default:
  "(\<forall>q \<in> set ps. idx < pk_index q) \<or> idx \<le> 0 \<Longrightarrow> header_before idx ps newest = newest"
  by (auto simp: header_before_def find_last filter_empty_conv not_le split: list.splits)

text \<open>The newest header of each kind is the last of its list; a list is in index order.\<close>

definition newest_of :: "'e Packet list \<Rightarrow> 'e Packet option" where
  "newest_of ps = (if ps = [] then None else Some (last ps))"

definition ordered_upto :: "int \<Rightarrow> 'e Packet list \<Rightarrow> bool" where
  "ordered_upto n ps \<longleftrightarrow> sorted (map pk_index ps) \<and> (\<forall>p \<in> set ps. 0 \<le> pk_index p \<and> pk_index p \<le> n)"

lemma ordered_upto_Nil [simp]: "ordered_upto n []"
  by (simp add: ordered_upto_def)

lemma ordered_upto_snoc:
  "ordered_upto (pk_index p) ps \<Longrightarrow> 0 \<le> pk_index p \<Longrightarrow> ordered_upto (pk_index p) (ps @ [p])"
  by (force simp: ordered_upto_def sorted_append)

lemma ordered_upto_mono: "ordered_upto n ps \<Longrightarrow> n \<le> m \<Longrightarrow> ordered_upto m ps"
  by (force simp: ordered_upto_def)

lemma newest_of_snoc [simp]: "newest_of (ps @ [p]) = Some p"
  by (simp add: newest_of_def)

definition codec_inv :: "int \<Rightarrow> 'e CodecHeader \<Rightarrow> bool" where
  "codec_inv n h \<longleftrightarrow>
     ch_video_header h = newest_of (ch_video_header_packets h) \<and>
     ch_audio_header h = newest_of (ch_audio_header_packets h) \<and>
     ch_meta h = newest_of (ch_meta_packets h) \<and>
     ordered_upto n (ch_video_header_packets h) \<and> ordered_upto n (ch_audio_header_packets h) \<and>
     ordered_upto n (ch_meta_packets h)"

lemma codec_inv_new [simp]: "codec_inv n (CodecHeader_new now)"
  by (simp add: codec_inv_def CodecHeader_new_def newest_of_def)

lemma codec_inv_mono: "codec_inv n h \<Longrightarrow> n \<le> m \<Longrightarrow> codec_inv m h"
  by (auto simp: codec_inv_def intro: ordered_upto_mono)

lemma ParseCodecHeader_inv:
  assumes "codec_inv n h" and "n \<le> pk_index p" and "0 \<le> pk_index p" and "ParseCodecHeader p h = Inr h'"
  shows "codec_inv (pk_index p) h'"
proof -
  have "h' = h \<or> h' = SaveMeta p h \<or> h' = SaveAudioHeader p h \<or> h' = SaveVideoHeader p h"
    using assms(4) by (auto simp: ParseCodecHeader_def result_simps split: if_splits)
  moreover have "codec_inv (pk_index p) h"
    using assms(1,2) by (rule codec_inv_mono)
  ultimately show ?thesis
    using assms(1-3) unfolding codec_inv_def
    by (elim disjE) (simp_all add: ordered_upto_snoc SaveMeta_def SaveAudioHeader_def SaveVideoHeader_def)
qed

lemma find_mem: "find P xs = Some x \<Longrightarrow> x \<in> set xs"
  by (induction xs) (auto split: if_splits)

lemma header_before_cases:
  "header_before idx ps newest = Some p \<Longrightarrow> p \<in> set ps \<or> newest = Some p"
  unfolding header_before_def
  by (auto split: if_splits option.splits dest: find_mem)

lemma header_before_mem:
  assumes "header_before idx ps (newest_of ps) = Some p"
  shows "p \<in> set ps"
  using header_before_cases [OF assms] by (auto simp: newest_of_def split: if_splits)

lemma header_before_some: "ps \<noteq> [] \<Longrightarrow> header_before idx ps (newest_of ps) \<noteq> None"
  by (simp add: header_before_def newest_of_def split: option.splits)

end
