(* ===== verification/LiveUser.thy ===== *)
theory LiveUser
  imports Config TimeCorrector
begin

text \<open>
  \<open>live/user/User.h\<close>, \<open>User.cc\<close>, \<open>PlayerUser.h\<close> and \<open>PlayerUser.cc\<close>: the publisher or player behind a connection. The
  connection, the stream and the session are references: a connection is a number, the other
  two are the objects the operations get as arguments. \<open>PlayerUser\<close> extends the record as the
  class does.
\<close>

datatype UserType =
    kUserTypePublishRtmp | kUserTypePublishMpegts | kUserTypePublishPav | kUserTypePublishWebRtc
  | kUserTypePlayerPav | kUserTypePlayerFlv | kUserTypePlayerHls | kUserTypePlayerRtmp
  | kUserTypePlayerWebRTC | kUserTypeUnknowed

datatype UserProtocol =
    kUserProtocolHttp | kUserProtocolHttps | kUserProtocolQuic | kUserProtocolRtsp
  | kUserProtocolWebRTC | kUserProtocolUdp | kUserProtocolUnknowed

text \<open>The comparisons of the code are those of the enumeration's values.\<close>

fun user_type_value :: "UserType \<Rightarrow> nat" where
  "user_type_value kUserTypePublishRtmp = 0"
| "user_type_value kUserTypePublishMpegts = 1"
| "user_type_value kUserTypePublishPav = 2"
| "user_type_value kUserTypePublishWebRtc = 3"
| "user_type_value kUserTypePlayerPav = 4"
| "user_type_value kUserTypePlayerFlv = 5"
| "user_type_value kUserTypePlayerHls = 6"
| "user_type_value kUserTypePlayerRtmp = 7"
| "user_type_value kUserTypePlayerWebRTC = 8"
| "user_type_value kUserTypeUnknowed = 255"

lemma user_type_value_inj: "user_type_value a = user_type_value b \<longleftrightarrow> a = b"
  by (cases a; cases b) simp_all

instantiation UserType :: linorder
begin

definition less_eq_UserType :: "UserType \<Rightarrow> UserType \<Rightarrow> bool" where
  "less_eq_UserType a b \<longleftrightarrow> user_type_value a \<le> user_type_value b"

definition less_UserType :: "UserType \<Rightarrow> UserType \<Rightarrow> bool" where
  "less_UserType a b \<longleftrightarrow> user_type_value a < user_type_value b"

instance
  by standard (auto simp: less_eq_UserType_def less_UserType_def user_type_value_inj)

end

record User =
  us_connection :: "nat option"
  us_domain_name :: string
  us_app_name :: string
  us_stream_name :: string
  us_param :: string
  us_user_id :: string
  us_app_info :: AppInfo
  us_start_timestamp :: int
  us_type :: UserType
  us_protocol :: UserProtocol
  us_destroyed :: bool

record 'e PlayerUser = User +
  pl_meta :: "'e Packet option"
  pl_audio_header :: "'e Packet option"
  pl_video_header :: "'e Packet option"
  pl_wait_meta :: bool
  pl_wait_audio :: bool
  pl_wait_video :: bool
  pl_video_header_index :: int
  pl_audio_header_index :: int
  pl_meta_index :: int
  pl_time_corrector :: TimeCorrector
  pl_wait_timeout :: bool
  pl_out_version :: int
  pl_out_frame_timestamp :: int
  pl_out_frames :: "'e Packet list"
  pl_out_index :: int

definition User_new :: "nat \<Rightarrow> string \<Rightarrow> int \<Rightarrow> User" where
  "User_new conn peer now =
     \<lparr>us_connection = Some conn, us_domain_name = [], us_app_name = [], us_stream_name = [], us_param = [],
      us_user_id = peer, us_app_info = AppInfo_new [], us_start_timestamp = now,
      us_type = kUserTypeUnknowed, us_protocol = kUserProtocolUnknowed, us_destroyed = False\<rparr>"

definition PlayerUser_init :: "User \<Rightarrow> 'e PlayerUser" where
  "PlayerUser_init u = User.extend u
     (PlayerUser.fields None None None True True True 0 0 0 TimeCorrector_new False (-1) 0 [] (-1))"

text \<open>\<open>ElapsedTime\<close> is unsigned.\<close>

definition ElapsedTime :: "int \<Rightarrow> ('a) User_scheme \<Rightarrow> nat" where
  "ElapsedTime now u = nat ((now - us_start_timestamp u) mod 2 ^ 64)"

definition SetConnection :: "nat \<Rightarrow> ('a) User_scheme \<Rightarrow> ('a) User_scheme" where
  "SetConnection conn u = u\<lparr>us_connection := Some conn\<rparr>"

text \<open>What a user does to its connection.\<close>

datatype conn_call = ForceClose nat | ActiveConn nat | DeactiveConn nat

definition User_Close :: "('a) User_scheme \<Rightarrow> conn_call list" where
  "User_Close u = (case us_connection u of Some c \<Rightarrow> [ForceClose c] | None \<Rightarrow> [])"

definition User_Active :: "('a) User_scheme \<Rightarrow> conn_call list" where
  "User_Active u = (case us_connection u of Some c \<Rightarrow> [ActiveConn c] | None \<Rightarrow> [])"

definition User_Deactive :: "('a) User_scheme \<Rightarrow> conn_call list" where
  "User_Deactive u = (case us_connection u of Some c \<Rightarrow> [DeactiveConn c] | None \<Rightarrow> [])"

definition is_publish_type :: "UserType \<Rightarrow> bool" where
  "is_publish_type t \<longleftrightarrow> t \<le> kUserTypePublishWebRtc"

lemma is_publish_type_iff:
  "is_publish_type t \<longleftrightarrow>
     t \<in> {kUserTypePublishRtmp, kUserTypePublishMpegts, kUserTypePublishPav, kUserTypePublishWebRtc}"
  by (cases t) (simp_all add: is_publish_type_def less_eq_UserType_def)

end
