(* ===== verification/Stream.thy ===== *)
theory Stream
  imports GopMgr CodecHeader LiveUser
begin

text \<open>
  \<open>live/Stream.cc\<close>: the frames of one live stream, from the publisher's \<open>AddPacket\<close> to a
  player's \<open>GetFrames\<close>. The buffer is a ring of the last 1000 packets, indexed by frame number.
  The clock is a parameter, one reading per call. The HLS muxer is the list of packets it has
  been given; whether \<open>ActiveAllPlayers\<close> is called is part of the result. The lock of the
  code makes the two operations atomic, as they are here.
\<close>

definition packet_buffer_size :: nat where "packet_buffer_size = 1000"

record 'e Stream =
  st_data_coming_time :: int
  st_start_timestamp :: int
  st_ready_time :: int
  st_stream_time :: int
  st_session_name :: string
  st_frame_index :: int
  st_packet_buffer :: "'e Packet option list"
  st_has_meta :: bool
  st_has_video :: bool
  st_has_audio :: bool
  st_ready :: bool
  st_stream_version :: int
  st_gop_mgr :: GopMgr
  st_codec_headers :: "'e CodecHeader"
  st_time_corrector :: TimeCorrector
  st_muxer :: "'e Packet list"

definition Stream_new :: "string \<Rightarrow> int \<Rightarrow> 'e Stream" where
  "Stream_new name now =
     \<lparr>st_data_coming_time = 0, st_start_timestamp = now, st_ready_time = 0, st_stream_time = now,
      st_session_name = name, st_frame_index = -1, st_packet_buffer = replicate packet_buffer_size None,
      st_has_meta = False, st_has_video = False, st_has_audio = False, st_ready = False,
      st_stream_version = -1, st_gop_mgr = GopMgr_new, st_codec_headers = CodecHeader_new now,
      st_time_corrector = TimeCorrector_new, st_muxer = []\<rparr>"

definition SinceStart :: "int \<Rightarrow> 'e Stream \<Rightarrow> int" where
  "SinceStart now s = now - st_start_timestamp s"

definition Stream_Timeout :: "int \<Rightarrow> 'e Stream \<Rightarrow> bool" where
  "Stream_Timeout now s \<longleftrightarrow> now - st_stream_time s > 20 * 1000"

definition HasMedia :: "'e Stream \<Rightarrow> bool" where
  "HasMedia s \<longleftrightarrow> st_has_audio s \<or> st_has_video s \<or> st_has_meta s"

definition SetReady :: "int \<Rightarrow> 'e Stream \<Rightarrow> 'e Stream" where
  "SetReady now s = s\<lparr>st_ready := True, st_ready_time := now\<rparr>"

definition ProcessHls :: "AppInfo \<Rightarrow> 'e Packet \<Rightarrow> 'e Stream \<Rightarrow> 'e Stream" where
  "ProcessHls app p s = (if \<not> ai_hls_support app then s else s\<lparr>st_muxer := st_muxer s @ [p]\<rparr>)"

section \<open>Adding a packet\<close>

text \<open>The timestamp, the index, and the type of a key frame.\<close>

definition stamp_packet :: "int \<Rightarrow> 'e Packet \<Rightarrow> TimeCorrector \<Rightarrow> ('e Packet \<times> bool \<times> TimeCorrector) result" where
  "stamp_packet index p c =
     rbind (CorrectTimestamp p c) (\<lambda>(t, c').
       let p = p\<lparr>pk_timestamp := word_of_int t, pk_index := int32 index\<rparr>
       in rbind (if IsVideo p then CodecUtils_IsKeyFrame p else Inr False) (\<lambda>key.
            Inr (if key then p\<lparr>pk_type := kPacketTypeVideo OR kFrameTypeKeyFrame\<rparr> else p, key, c')))"

definition mark_media :: "'e Packet \<Rightarrow> 'e Stream \<Rightarrow> 'e Stream" where
  "mark_media p s =
     (if IsVideo p then s\<lparr>st_has_video := True, st_stream_version := st_stream_version s + 1\<rparr>
      else if IsAudio p then s\<lparr>st_has_audio := True, st_stream_version := st_stream_version s + 1\<rparr>
      else if IsMeta p then s\<lparr>st_has_meta := True, st_stream_version := st_stream_version s + 1\<rparr>
      else s)"

text \<open>A sequence header or metadata goes to the header store.\<close>

definition keep_header :: "'e Packet \<Rightarrow> 'e Stream \<Rightarrow> 'e Stream result" where
  "keep_header p s =
     rbind (IsCodecHeader p) (\<lambda>hdr.
       if hdr then rbind (ParseCodecHeader p (st_codec_headers s)) (\<lambda>h. Inr (mark_media p (s\<lparr>st_codec_headers := h\<rparr>)))
       else Inr s)"

text \<open>The packet takes the place of the one 1000 before it, whose group of pictures expires.\<close>

definition store_packet :: "int \<Rightarrow> 'e Packet \<Rightarrow> 'e Stream \<Rightarrow> 'e Stream" where
  "store_packet index p s =
     (let s = s\<lparr>st_packet_buffer := (st_packet_buffer s)[nat (index mod int packet_buffer_size) := Some p]\<rparr>;
          min_idx = st_frame_index s - int packet_buffer_size
      in if min_idx > 0 then s\<lparr>st_gop_mgr := ClearExpriedGop (int32 min_idx) (st_gop_mgr s)\<rparr> else s)"

definition AddPacket :: "AppInfo \<Rightarrow> int \<Rightarrow> 'e Packet \<Rightarrow> 'e Stream \<Rightarrow> ('e Stream \<times> bool) result" where
  "AddPacket app now p s =
     (let index = st_frame_index s + 1
      in rbind (stamp_packet index p (st_time_corrector s)) (\<lambda>(p, key, c).
         let s = s\<lparr>st_time_corrector := c, st_frame_index := index\<rparr>;
             s = (if key then SetReady now s else s)
         in rbind (keep_header p s) (\<lambda>s.
         let s = s\<lparr>st_gop_mgr := AddFrame p (st_gop_mgr s)\<rparr>;
             s = ProcessHls app p s;
             s = store_packet index p s;
             s = (if st_data_coming_time s = 0 then s\<lparr>st_data_coming_time := now\<rparr> else s);
             s = s\<lparr>st_stream_time := now\<rparr>
         in Inr (s, st_frame_index s < 300 \<or> st_frame_index s mod 5 = 0))))"

section \<open>Getting frames\<close>

text \<open>The loop of \<open>GetNextFrame\<close>; the index is converted to \<open>uint32_t\<close> before the remainder.\<close>

fun next_frames :: "nat \<Rightarrow> 'e Stream \<Rightarrow> int \<Rightarrow> 'e PlayerUser \<Rightarrow> 'e PlayerUser" where
  "next_frames 0 s idx u = u"
| "next_frames (Suc n) s idx u =
     (if idx > st_frame_index s then u
      else case st_packet_buffer s ! nat (uint32 idx mod int packet_buffer_size) of
             None \<Rightarrow> u
           | Some p \<Rightarrow> next_frames n s (pk_index p + 1)
                         (u\<lparr>pl_out_frames := pl_out_frames u @ [p], pl_out_index := pk_index p,
                            pl_out_frame_timestamp := int32 (sint (pk_timestamp p))\<rparr>))"

definition GetNextFrame :: "'e Stream \<Rightarrow> 'e PlayerUser \<Rightarrow> 'e PlayerUser" where
  "GetNextFrame s u = next_frames 10 s (pl_out_index u + 1) u"

text \<open>\<open>content_latency\<close> is read into an \<open>int\<close>.\<close>

definition content_latency :: "'e PlayerUser \<Rightarrow> int" where
  "content_latency u = sint (ai_content_latency (us_app_info u))"

definition SkipFrame :: "'e Stream \<Rightarrow> 'e PlayerUser \<Rightarrow> 'e PlayerUser" where
  "SkipFrame s u =
     (case GetGopByLatency (content_latency u) (st_gop_mgr s) of (idx, _) \<Rightarrow>
        if idx = -1 \<or> idx \<le> pl_out_index u then u
        else
          let u = (case CodecHeader_Meta idx (st_codec_headers s) of None \<Rightarrow> u | Some p \<Rightarrow>
                     if pk_index p > pl_meta_index u then u\<lparr>pl_meta := Some p, pl_meta_index := pk_index p\<rparr> else u);
              u = (case CodecHeader_AudioHeader idx (st_codec_headers s) of None \<Rightarrow> u | Some p \<Rightarrow>
                     if pk_index p > pl_audio_header_index u
                     then u\<lparr>pl_audio_header := Some p, pl_audio_header_index := pk_index p\<rparr> else u);
              u = (case CodecHeader_VideoHeader idx (st_codec_headers s) of None \<Rightarrow> u | Some p \<Rightarrow>
                     if pk_index p > pl_video_header_index u
                     then u\<lparr>pl_video_header := Some p, pl_video_header_index := pk_index p\<rparr> else u)
          in u\<lparr>pl_out_index := idx - 1\<rparr>)"

definition wait_timed_out :: "int \<Rightarrow> 'e PlayerUser \<Rightarrow> 'e PlayerUser" where
  "wait_timed_out now u =
     (if ElapsedTime now u \<ge> 1000 \<and> \<not> pl_wait_timeout u then u\<lparr>pl_wait_timeout := True\<rparr> else u)"

text \<open>Waiting for each kind of header: one that is known by now is taken.\<close>

definition take_meta :: "int \<Rightarrow> 'e Stream \<Rightarrow> 'e PlayerUser \<Rightarrow> 'e PlayerUser" where
  "take_meta idx s u =
     (let u = u\<lparr>pl_wait_meta := pl_wait_meta u \<and> st_has_meta s\<rparr>
      in if pl_wait_meta u
         then case CodecHeader_Meta idx (st_codec_headers s) of None \<Rightarrow> u | Some p \<Rightarrow>
                u\<lparr>pl_wait_meta := False, pl_meta := Some p, pl_meta_index := pk_index p\<rparr>
         else u)"

definition take_audio :: "int \<Rightarrow> 'e Stream \<Rightarrow> 'e PlayerUser \<Rightarrow> 'e PlayerUser" where
  "take_audio idx s u =
     (let u = u\<lparr>pl_wait_audio := pl_wait_audio u \<and> st_has_audio s\<rparr>
      in if pl_wait_audio u
         then case CodecHeader_AudioHeader idx (st_codec_headers s) of None \<Rightarrow> u | Some p \<Rightarrow>
                u\<lparr>pl_wait_audio := False, pl_audio_header := Some p, pl_audio_header_index := pk_index p\<rparr>
         else u)"

definition take_video :: "int \<Rightarrow> 'e Stream \<Rightarrow> 'e PlayerUser \<Rightarrow> 'e PlayerUser" where
  "take_video idx s u =
     (let u = u\<lparr>pl_wait_video := pl_wait_video u \<and> st_has_video s\<rparr>
      in if pl_wait_video u
         then case CodecHeader_VideoHeader idx (st_codec_headers s) of None \<Rightarrow> u | Some p \<Rightarrow>
                u\<lparr>pl_wait_video := False, pl_video_header := Some p, pl_video_header_index := pk_index p\<rparr>
         else u)"

definition take_headers :: "int \<Rightarrow> 'e Stream \<Rightarrow> 'e PlayerUser \<Rightarrow> 'e PlayerUser" where
  "take_headers idx s u = take_video idx s (take_audio idx s (take_meta idx s u))"

definition LocateGop :: "int \<Rightarrow> 'e Stream \<Rightarrow> 'e PlayerUser \<Rightarrow> bool \<times> 'e PlayerUser" where
  "LocateGop now s u =
     (case GetGopByLatency (content_latency u) (st_gop_mgr s) of (idx, _) \<Rightarrow>
        if idx = -1 then (False, wait_timed_out now u)
        else let u = take_headers idx s (u\<lparr>pl_out_index := idx - 1\<rparr>)
             in if pl_wait_meta u \<or> pl_wait_audio u \<or> pl_wait_video u \<or> idx = -1
                then (False, wait_timed_out now u)
                else (True, u\<lparr>pl_wait_meta := True, pl_wait_audio := True, pl_wait_video := True,
                              pl_out_version := st_stream_version s\<rparr>))"

text \<open>The player lags: its next frame is overwritten, or too old.\<close>

definition need_skip :: "'e Stream \<Rightarrow> 'e PlayerUser \<Rightarrow> bool" where
  "need_skip s u \<longleftrightarrow>
     pl_out_index u < int32 (st_frame_index s - int packet_buffer_size) \<or>
     latest_timestamp (st_gop_mgr s) - pl_out_frame_timestamp u > 2 * content_latency u"

definition GetFrames :: "int \<Rightarrow> 'e Stream \<Rightarrow> 'e PlayerUser \<Rightarrow> 'e PlayerUser" where
  "GetFrames now s u =
     (if \<not> HasMedia s then u
      else if pl_meta u \<noteq> None \<or> pl_audio_header u \<noteq> None \<or> pl_video_header u \<noteq> None \<or> pl_out_frames u \<noteq> []
      then u
      else if pl_out_index u \<ge> 0
      then GetNextFrame s (if need_skip s u then SkipFrame s u else u)
      else case LocateGop now s u of (found, u) \<Rightarrow> if found then GetNextFrame s u else u)"

end
