(* ===== verification/Session.thy ===== *)
theory Session
  imports PullerRelay Stream
begin

text \<open>
  \<open>live/Session.cc\<close>: a session has one stream, at most one publisher and a set of players.
  Users live in a heap, a function from numbers to objects, because a session, a connection
  and a callback hold pointers to the same user; a session is a value here, and the service
  keeps it in a heap of its own. The set of players is a list, in the order it happens to be
  iterated. What is done to connections is the list of calls that comes with the result.
\<close>

section \<open>Users on the heap\<close>

text \<open>A publisher is a \<open>User\<close>, a player an object of a class derived from \<open>PlayerUser\<close>.\<close>

datatype 'e user_obj = PlainUser User | PlayingUser "'e PlayerUser"

fun user_base :: "'e user_obj \<Rightarrow> User" where
  "user_base (PlainUser u) = u"
| "user_base (PlayingUser u) = User.truncate u"

fun is_player :: "'e user_obj \<Rightarrow> bool" where
  "is_player (PlainUser u) = False"
| "is_player (PlayingUser u) = True"

abbreviation user_type :: "'e user_obj \<Rightarrow> UserType" where
  "user_type u \<equiv> us_type (user_base u)"

abbreviation destroyed :: "'e user_obj \<Rightarrow> bool" where
  "destroyed u \<equiv> us_destroyed (user_base u)"

abbreviation user_conn :: "'e user_obj \<Rightarrow> nat option" where
  "user_conn u \<equiv> us_connection (user_base u)"

fun set_destroyed :: "'e user_obj \<Rightarrow> 'e user_obj" where
  "set_destroyed (PlainUser u) = PlainUser (u\<lparr>us_destroyed := True\<rparr>)"
| "set_destroyed (PlayingUser u) = PlayingUser (u\<lparr>us_destroyed := True\<rparr>)"

definition obj_Close :: "'e user_obj \<Rightarrow> conn_call list" where
  "obj_Close u = User_Close (user_base u)"

definition obj_Active :: "'e user_obj \<Rightarrow> conn_call list" where
  "obj_Active u = User_Active (user_base u)"

type_synonym 'e user_heap = "nat \<Rightarrow> 'e user_obj"

lemma set_destroyed_base [simp]:
  "user_base (set_destroyed u) = (user_base u)\<lparr>us_destroyed := True\<rparr>"
  "is_player (set_destroyed u) = is_player u"
  by (cases u; simp add: User.truncate_def)+

section \<open>The session\<close>

record 'e Session =
  ss_name :: string
  ss_players :: "nat list"
  ss_app_info :: AppInfo
  ss_stream :: "'e Stream"
  ss_publisher :: "nat option"
  ss_player_live_time :: int
  ss_pull :: "Relay option"

definition Session_new :: "string \<Rightarrow> AppInfo \<Rightarrow> int \<Rightarrow> 'e Session" where
  "Session_new name app now =
     \<lparr>ss_name = name, ss_players = [], ss_app_info = app, ss_stream = Stream_new name now,
      ss_publisher = None, ss_player_live_time = now, ss_pull = None\<rparr>"

definition IsPublishing :: "'e Session \<Rightarrow> bool" where
  "IsPublishing s \<longleftrightarrow> ss_publisher s \<noteq> None"

definition IsTimeout :: "int \<Rightarrow> 'e Session \<Rightarrow> bool" where
  "IsTimeout now s \<longleftrightarrow>
     Stream_Timeout now (ss_stream s) \<or>
     ss_players s = [] \<and> now - ss_player_live_time s > uint (ai_stream_idle_time (ss_app_info s))"

text \<open>The fields both ways of creating a user set.\<close>

definition named_user :: "'e Session \<Rightarrow> string list \<Rightarrow> string \<Rightarrow> UserType \<Rightarrow> User \<Rightarrow> User" where
  "named_user s names param type u =
     u\<lparr>us_app_info := ss_app_info s, us_domain_name := names ! 0, us_app_name := names ! 1,
       us_stream_name := names ! 2, us_param := param, us_type := type\<rparr>"

definition CreatePublishUser ::
    "nat \<Rightarrow> string \<Rightarrow> string \<Rightarrow> string \<Rightarrow> UserType \<Rightarrow> int \<Rightarrow> 'e Session \<Rightarrow> 'e user_obj option" where
  "CreatePublishUser conn peer session_name param type now s =
     (if session_name \<noteq> ss_name s then None
      else let names = SplitString session_name ''/'' in
        if length names \<noteq> 3 then None
        else Some (PlainUser (named_user s names param type (User_new conn peer now))))"

definition CreatePlayerUser ::
    "nat \<Rightarrow> string \<Rightarrow> string \<Rightarrow> string \<Rightarrow> UserType \<Rightarrow> int \<Rightarrow> 'e Session \<Rightarrow> 'e user_obj option" where
  "CreatePlayerUser conn peer session_name param type now s =
     (if session_name \<noteq> ss_name s then None
      else let names = SplitString session_name ''/'' in
        if length names \<noteq> 3 then None
        else if type \<in> {kUserTypePlayerRtmp, kUserTypePlayerFlv, kUserTypePlayerWebRTC}
        then Some (PlayingUser (PlayerUser_init (named_user s names param type (User_new conn peer now))))
        else None)"

text \<open>
  \<open>CloseUser\<close>: a user of a publishing type clears the publisher, whichever it is; any other is
  taken out of the players, where the pointer is null unless it is a player.
\<close>

definition CloseUser :: "int \<Rightarrow> nat \<Rightarrow> 'e Session \<times> 'e user_heap \<Rightarrow> ('e Session \<times> 'e user_heap) \<times> conn_call list" where
  "CloseUser now i = (\<lambda>(s, U).
     if destroyed (U i) then ((s, U), [])
     else let s' = (if is_publish_type (user_type (U i)) then s\<lparr>ss_publisher := None\<rparr>
                    else s\<lparr>ss_players := (if is_player (U i) then removeAll i (ss_players s) else ss_players s),
                           ss_player_live_time := now\<rparr>)
          in ((s', U(i := set_destroyed (U i))), obj_Close (U i)))"

definition CloseUserNoLock :: "int \<Rightarrow> nat \<Rightarrow> 'e Session \<times> 'e user_heap \<Rightarrow> ('e Session \<times> 'e user_heap) \<times> conn_call list" where
  "CloseUserNoLock now i = (\<lambda>(s, U).
     if destroyed (U i) then ((s, U), [])
     else let U' = U(i := set_destroyed (U i)) in
       if is_publish_type (user_type (U i))
       then if IsPublishing s then ((s\<lparr>ss_publisher := None\<rparr>, U'), obj_Close (U i)) else ((s, U'), [])
       else ((s\<lparr>ss_player_live_time := now\<rparr>, U'), obj_Close (U i)))"

fun close_players :: "int \<Rightarrow> nat list \<Rightarrow> 'e Session \<times> 'e user_heap \<Rightarrow> ('e Session \<times> 'e user_heap) \<times> conn_call list" where
  "close_players now [] st = (st, [])"
| "close_players now (i # is) st =
     (case CloseUserNoLock now i st of (st, cs) \<Rightarrow>
      case close_players now is st of (st, ds) \<Rightarrow> (st, cs @ ds))"

definition Session_Clear :: "int \<Rightarrow> 'e Session \<times> 'e user_heap \<Rightarrow> ('e Session \<times> 'e user_heap) \<times> conn_call list" where
  "Session_Clear now st =
     (case (case ss_publisher (fst st) of None \<Rightarrow> (st, []) | Some i \<Rightarrow> CloseUserNoLock now i st) of (st, cs) \<Rightarrow>
      case close_players now (ss_players (fst st)) st of ((s, U), ds) \<Rightarrow>
        ((s\<lparr>ss_players := []\<rparr>, U), cs @ ds))"

definition ActiveAllPlayers :: "'e Session \<times> 'e user_heap \<Rightarrow> conn_call list" where
  "ActiveAllPlayers st = concat (map (\<lambda>i. obj_Active (snd st i)) (ss_players (fst st)))"

text \<open>A publisher that is replaced is closed.\<close>

definition SetPublisher :: "nat \<Rightarrow> 'e Session \<times> 'e user_heap \<Rightarrow> ('e Session \<times> 'e user_heap) \<times> conn_call list" where
  "SetPublisher i = (\<lambda>(s, U).
     if ss_publisher s = Some i then ((s, U), [])
     else case ss_publisher s of
            Some j \<Rightarrow> if \<not> destroyed (U j)
                      then ((s\<lparr>ss_publisher := Some i\<rparr>, U(j := set_destroyed (U j))), obj_Close (U j))
                      else ((s\<lparr>ss_publisher := Some i\<rparr>, U), [])
          | None \<Rightarrow> ((s\<lparr>ss_publisher := Some i\<rparr>, U), []))"

text \<open>\<open>players_\<close> is a set.\<close>

definition insert_player :: "nat \<Rightarrow> 'e Session \<Rightarrow> 'e Session" where
  "insert_player i s = s\<lparr>ss_players := (if i \<in> set (ss_players s) then ss_players s else ss_players s @ [i])\<rparr>"

end
