(* ===== verification/LiveService.thy ===== *)
theory LiveService
  imports Session
begin

text \<open>
  \<open>live/LiveService.cc\<close>, with \<open>Session::AddPlayer\<close> and the callbacks of
  \<open>RtmpPuller.cc\<close>: the sessions by name, the objects they and the connections point to,
  and every operation a server, a puller or the timer calls. The clock and the peer's address
  are arguments. Objects are never freed here: a number that was given to one stays its own.
\<close>

section \<open>State\<close>

record 'e Live =
  lv_config :: Config
  lv_sessions :: "(string \<times> nat) list"
  lv_objs :: "nat \<Rightarrow> 'e Session"
  lv_next_session :: nat
  lv_users :: "'e user_heap"
  lv_owner :: "nat \<Rightarrow> nat"
  lv_next_user :: nat
  lv_ctx :: "nat \<rightharpoonup> nat"
  lv_pulls :: "string \<times> string \<Rightarrow> Target list"

text \<open>What the service does to connections, pullers and timers; a relay belongs to a session.\<close>

datatype live_act = ConnCall conn_call | RelayAct nat relay_act

definition config_pulls :: "Config \<Rightarrow> string \<times> string \<Rightarrow> Target list" where
  "config_pulls cfg = (\<lambda>(d, a). case Config_GetAppInfo d a cfg of Some app \<Rightarrow> ai_pulls app | None \<Rightarrow> [])"

definition Live_new :: "Config \<Rightarrow> 'e Live" where
  "Live_new cfg =
     \<lparr>lv_config = cfg, lv_sessions = [], lv_objs = (\<lambda>_. Session_new [] (AppInfo_new []) 0), lv_next_session = 0,
      lv_users = (\<lambda>_. PlainUser (User_new 0 [] 0)), lv_owner = (\<lambda>_. 0), lv_next_user = 0, lv_ctx = Map.empty,
      lv_pulls = config_pulls cfg\<rparr>"

text \<open>The key of an application's targets: the first two parts of a session's name.\<close>

definition app_key :: "string \<Rightarrow> string \<times> string" where
  "app_key name = (SplitString name ''/'' ! 0, SplitString name ''/'' ! 1)"

definition FindSession :: "string \<Rightarrow> 'e Live \<Rightarrow> nat option" where
  "FindSession name L = map_of (lv_sessions L) name"

definition CreateSession :: "int \<Rightarrow> string \<Rightarrow> 'e Live \<Rightarrow> nat option \<times> 'e Live" where
  "CreateSession now name L =
     (case map_of (lv_sessions L) name of
        Some sid \<Rightarrow> (Some sid, L)
      | None \<Rightarrow>
          let list = SplitString name ''/'' in
          if length list \<noteq> 3 then (None, L)
          else case Config_GetAppInfo (list ! 0) (list ! 1) (lv_config L) of
                 None \<Rightarrow> (None, L)
               | Some app \<Rightarrow>
                   let sid = lv_next_session L
                   in (Some sid, L\<lparr>lv_objs := (lv_objs L)(sid := Session_new name app now), lv_next_session := sid + 1,
                                   lv_sessions := lv_sessions L @ [(name, sid)]\<rparr>))"

text \<open>An operation of a session, on the heap.\<close>

definition on_session ::
    "('e Session \<times> 'e user_heap \<Rightarrow> ('e Session \<times> 'e user_heap) \<times> conn_call list) \<Rightarrow> nat \<Rightarrow> 'e Live \<Rightarrow>
     'e Live \<times> live_act list" where
  "on_session f sid L =
     (case f (lv_objs L sid, lv_users L) of ((s, U), cs) \<Rightarrow>
        (L\<lparr>lv_objs := (lv_objs L)(sid := s), lv_users := U\<rparr>, map ConnCall cs))"

definition CloseSession :: "int \<Rightarrow> string \<Rightarrow> 'e Live \<Rightarrow> 'e Live \<times> live_act list" where
  "CloseSession now name L =
     (case map_of (lv_sessions L) name of
        None \<Rightarrow> (L, [])
      | Some sid \<Rightarrow> on_session (Session_Clear now) sid (L\<lparr>lv_sessions := filter (\<lambda>(n, _). n \<noteq> name) (lv_sessions L)\<rparr>))"

text \<open>\<open>OnTimer\<close> clears and removes the sessions that have timed out.\<close>

fun clear_sessions :: "int \<Rightarrow> (string \<times> nat) list \<Rightarrow> 'e Live \<Rightarrow> 'e Live \<times> live_act list" where
  "clear_sessions now [] L = (L, [])"
| "clear_sessions now ((name, sid) # ns) L =
     (if IsTimeout now (lv_objs L sid)
      then case on_session (Session_Clear now) sid (L\<lparr>lv_sessions := filter (\<lambda>(n, _). n \<noteq> name) (lv_sessions L)\<rparr>) of
             (L, as) \<Rightarrow> case clear_sessions now ns L of (L, bs) \<Rightarrow> (L, as @ bs)
      else clear_sessions now ns L)"

definition OnTimer :: "int \<Rightarrow> 'e Live \<Rightarrow> 'e Live \<times> live_act list" where
  "OnTimer now L = clear_sessions now (lv_sessions L) L"

section \<open>Relays\<close>

text \<open>What a relay asks for: closing the session goes by its name, the rest leaves the service.\<close>

fun relay_acts :: "int \<Rightarrow> nat \<Rightarrow> relay_act list \<Rightarrow> 'e Live \<Rightarrow> 'e Live \<times> live_act list" where
  "relay_acts now sid [] L = (L, [])"
| "relay_acts now sid (a # as) L =
     (case (case a of CloseThisSession \<Rightarrow> CloseSession now (ss_name (lv_objs L sid)) L | _ \<Rightarrow> (L, [RelayAct sid a])) of
        (L, bs) \<Rightarrow> case relay_acts now sid as L of (L, cs) \<Rightarrow> (L, bs @ cs))"

definition on_relay ::
    "(string \<Rightarrow> bool \<Rightarrow> Target list \<Rightarrow> Relay \<Rightarrow> (Target list \<times> Relay \<times> relay_act list) result) \<Rightarrow>
     int \<Rightarrow> nat \<Rightarrow> 'e Live \<Rightarrow> ('e Live \<times> live_act list) result" where
  "on_relay f now sid L =
     (let s = lv_objs L sid; key = app_key (ss_name s);
          r = (case ss_pull s of None \<Rightarrow> Relay_new | Some r \<Rightarrow> r)
      in rbind (f (ss_name s) (IsPublishing s) (lv_pulls L key) r) (\<lambda>(ts, r, acts).
           Inr (relay_acts now sid acts
                  (L\<lparr>lv_objs := (lv_objs L)(sid := s\<lparr>ss_pull := Some r\<rparr>), lv_pulls := (lv_pulls L)(key := ts)\<rparr>))))"

text \<open>\<open>AddPlayer\<close>: without a publisher the stream is pulled.\<close>

definition AddPlayer :: "int \<Rightarrow> nat \<Rightarrow> nat \<Rightarrow> 'e Live \<Rightarrow> ('e Live \<times> live_act list) result" where
  "AddPlayer now sid i L =
     (let L = L\<lparr>lv_objs := (lv_objs L)(sid := insert_player i (lv_objs L sid))\<rparr>
      in rbind (if IsPublishing (lv_objs L sid) then Inr (L, []) else on_relay StartPullStream now sid L) (\<lambda>(L, as).
           Inr (L, as @ map ConnCall (obj_Active (lv_users L i)))))"

section \<open>Handlers\<close>

text \<open>A user that was created is the connection's context.\<close>

definition new_user :: "nat \<Rightarrow> nat \<Rightarrow> 'e user_obj \<Rightarrow> 'e Live \<Rightarrow> nat \<times> 'e Live" where
  "new_user conn sid u L =
     (let i = lv_next_user L
      in (i, L\<lparr>lv_users := (lv_users L)(i := u), lv_owner := (lv_owner L)(i := sid), lv_next_user := i + 1,
               lv_ctx := (lv_ctx L)(conn \<mapsto> i)\<rparr>))"

definition OnPlay ::
    "int \<Rightarrow> nat \<Rightarrow> string \<Rightarrow> string \<Rightarrow> string \<Rightarrow> 'e Live \<Rightarrow> (bool \<times> 'e Live \<times> live_act list) result" where
  "OnPlay now conn peer name param L =
     (case CreateSession now name L of
        (None, L) \<Rightarrow> Inr (False, L, [ConnCall (ForceClose conn)])
      | (Some sid, L) \<Rightarrow>
          case CreatePlayerUser conn peer name param kUserTypePlayerRtmp now (lv_objs L sid) of
            None \<Rightarrow> Inr (False, L, [ConnCall (ForceClose conn)])
          | Some u \<Rightarrow>
              case new_user conn sid u L of (i, L) \<Rightarrow>
                rbind (AddPlayer now sid i L) (\<lambda>(L, as). Inr (True, L, as)))"

definition OnPublish ::
    "int \<Rightarrow> nat \<Rightarrow> string \<Rightarrow> string \<Rightarrow> string \<Rightarrow> 'e Live \<Rightarrow> bool \<times> 'e Live \<times> live_act list" where
  "OnPublish now conn peer name param L =
     (case CreateSession now name L of
        (None, L) \<Rightarrow> (False, L, [ConnCall (ForceClose conn)])
      | (Some sid, L) \<Rightarrow>
          case CreatePublishUser conn peer name param kUserTypePublishRtmp now (lv_objs L sid) of
            None \<Rightarrow> (False, L, [ConnCall (ForceClose conn)])
          | Some u \<Rightarrow>
              case new_user conn sid u L of (i, L) \<Rightarrow>
              case on_session (SetPublisher i) sid L of (L, as) \<Rightarrow> (True, L, as))"

definition OnConnectionDestroy :: "int \<Rightarrow> nat \<Rightarrow> 'e Live \<Rightarrow> 'e Live \<times> live_act list" where
  "OnConnectionDestroy now conn L =
     (case lv_ctx L conn of None \<Rightarrow> (L, []) | Some i \<Rightarrow> on_session (CloseUser now i) (lv_owner L i) L)"

text \<open>A packet goes to the stream of the user's session, which may wake the players.\<close>

definition stream_recv :: "int \<Rightarrow> nat \<Rightarrow> 'e Packet \<Rightarrow> 'e Live \<Rightarrow> ('e Live \<times> live_act list) result" where
  "stream_recv now sid p L =
     (let s = lv_objs L sid
      in rbind (AddPacket (ss_app_info s) now p (ss_stream s)) (\<lambda>(st, active).
           let s = s\<lparr>ss_stream := st\<rparr>
           in Inr (L\<lparr>lv_objs := (lv_objs L)(sid := s)\<rparr>,
                   if active then map ConnCall (ActiveAllPlayers (s, lv_users L)) else [])))"

definition OnRecv :: "int \<Rightarrow> nat \<Rightarrow> 'e Packet \<Rightarrow> 'e Live \<Rightarrow> ('e Live \<times> live_act list) result" where
  "OnRecv now conn p L =
     (case lv_ctx L conn of
        None \<Rightarrow> Inr (L, [ConnCall (ForceClose conn)])
      | Some i \<Rightarrow> stream_recv now (lv_owner L i) p L)"

text \<open>
  \<open>OnActive\<close> on a connection the servers accepted; \<open>post\<close> is the player's \<open>PostFrames\<close> with the
  state of the connection's protocol context. The cast of the context is not checked.
\<close>

definition OnActive ::
    "('e Stream \<Rightarrow> 'e PlayerUser \<Rightarrow> 'c \<Rightarrow> ('e PlayerUser \<times> 'c \<times> conn_call list) result) \<Rightarrow> nat \<Rightarrow> 'c \<Rightarrow> 'e Live \<Rightarrow>
     ('e Live \<times> 'c \<times> live_act list) result" where
  "OnActive post conn c L =
     (case lv_ctx L conn of
        None \<Rightarrow> Inr (L, c, [])
      | Some i \<Rightarrow>
          if user_type (lv_users L i) \<ge> kUserTypePlayerPav
          then case lv_users L i of
                 PlainUser _ \<Rightarrow> Inl OutOfBounds
               | PlayingUser u \<Rightarrow> rbind (post (ss_stream (lv_objs L (lv_owner L i))) u c) (\<lambda>(u, c, cs).
                   Inr (L\<lparr>lv_users := (lv_users L)(i := PlayingUser u)\<rparr>, c, map ConnCall cs))
          else Inr (L, c, []))"

section \<open>The callbacks of a puller\<close>

text \<open>
  \<open>RtmpPuller::OnPlay\<close>: the peer has begun to send. The user that becomes the publisher gets
  the type of a player. A puller's connection is a \<open>RtmpClient\<close>'s, which reports its end to
  the close callback only (\<open>OnPullClose\<close>).
\<close>

definition Puller_OnPlay ::
    "int \<Rightarrow> nat \<Rightarrow> nat \<Rightarrow> string \<Rightarrow> string \<Rightarrow> 'e Live \<Rightarrow> (bool \<times> 'e Live \<times> live_act list) result" where
  "Puller_OnPlay now sid conn peer name L =
     (case lv_ctx L conn of
        Some i \<Rightarrow> (case on_session (SetPublisher i) sid L of (L, as) \<Rightarrow> Inr (True, L, as))
      | None \<Rightarrow>
          case CreatePublishUser conn peer name [] kUserTypePlayerRtmp now (lv_objs L sid) of
            None \<Rightarrow> rbind (on_relay OnPullClose now sid L) (\<lambda>(L, as). Inr (False, L, as))
          | Some u \<Rightarrow>
              case new_user conn sid u L of (i, L) \<Rightarrow>
              case on_session (SetPublisher i) sid L of (L, as) \<Rightarrow> Inr (True, L, as))"

definition Puller_OnRecv :: "int \<Rightarrow> nat \<Rightarrow> nat \<Rightarrow> 'e Packet \<Rightarrow> 'e Live \<Rightarrow> ('e Live \<times> live_act list) result" where
  "Puller_OnRecv now sid conn p L =
     (case lv_ctx L conn of None \<Rightarrow> Inr (L, []) | Some _ \<Rightarrow> stream_recv now sid p L)"

definition Puller_OnClose :: "int \<Rightarrow> nat \<Rightarrow> 'e Live \<Rightarrow> ('e Live \<times> live_act list) result" where
  "Puller_OnClose now sid L = on_relay OnPullClose now sid L"

end
