(* ===== verification/StreamInv.thy ===== *)
theory StreamInv
  imports Stream
begin

text \<open>
  What \<open>Stream\<close> promises, in terms of the log of all packets added so far: the ring holds the
  last 1000 of them, the groups of pictures are the key frames it still holds, and a player is
  given consecutive packets of the log from its position on.
\<close>

section \<open>The invariant\<close>

definition gop_item :: "'e Packet \<Rightarrow> GopItemInfo" where
  "gop_item p = \<lparr>gi_index = pk_index p, gi_timestamp = sint (pk_timestamp p)\<rparr>"

text \<open>
  How many packets have lost their group of pictures. The first one is kept one packet too
  long, as \<open>AddPacket\<close> clears only for \<open>min_idx > 0\<close>.
\<close>

definition expired :: "nat \<Rightarrow> nat" where
  "expired n = (if n \<le> packet_buffer_size + 1 then 0 else n - packet_buffer_size)"

definition ring_inv :: "'e Packet list \<Rightarrow> 'e Packet option list \<Rightarrow> bool" where
  "ring_inv L buf \<longleftrightarrow>
     length buf = packet_buffer_size \<and>
     (\<forall>i < length L. length L \<le> i + packet_buffer_size \<longrightarrow> buf ! (i mod packet_buffer_size) = Some (L ! i)) \<and>
     (\<forall>j < packet_buffer_size. length L \<le> j \<longrightarrow> buf ! j = None)"

definition headers_inv :: "'e Packet list \<Rightarrow> 'e Stream \<Rightarrow> bool" where
  "headers_inv L s \<longleftrightarrow>
     codec_inv (int (length L) - 1) (st_codec_headers s) \<and>
     set (ch_video_header_packets (st_codec_headers s)) \<subseteq> set L \<and>
     set (ch_audio_header_packets (st_codec_headers s)) \<subseteq> set L \<and>
     set (ch_meta_packets (st_codec_headers s)) \<subseteq> set L \<and>
     (st_has_video s \<longleftrightarrow> ch_video_header_packets (st_codec_headers s) \<noteq> []) \<and>
     (st_has_audio s \<longleftrightarrow> ch_audio_header_packets (st_codec_headers s) \<noteq> []) \<and>
     (st_has_meta s \<longleftrightarrow> ch_meta_packets (st_codec_headers s) \<noteq> [])"

definition stream_inv :: "'e Packet list \<Rightarrow> 'e Stream \<Rightarrow> bool" where
  "stream_inv L s \<longleftrightarrow>
     st_frame_index s = int (length L) - 1 \<and> length L < 2 ^ 31 \<and>
     (\<forall>i < length L. pk_index (L ! i) = int i) \<and>
     ring_inv L (st_packet_buffer s) \<and>
     gops (st_gop_mgr s) = map gop_item (filter IsKeyFrame (drop (expired (length L)) L)) \<and>
     latest_timestamp (st_gop_mgr s) = (if L = [] then 0 else sint (pk_timestamp (last L))) \<and>
     headers_inv L s"

lemma stream_inv_new: "stream_inv [] (Stream_new name now)"
  by (simp add: stream_inv_def Stream_new_def ring_inv_def headers_inv_def GopMgr_new_def expired_def
      codec_inv_def CodecHeader_new_def newest_of_def)

section \<open>Adding a packet\<close>

lemma mod_window:
  fixes i n :: nat
  assumes "i mod m = n mod m" and "i < n" and "n < i + m"
  shows False
proof -
  have "(n - i) mod m = 0" using assms(1,2) by (metis less_imp_le mod_eq_dvd_iff_nat mod_0_imp_dvd dvd_imp_mod_0)
  with assms(2,3) show False by simp
qed

lemma ring_inv_snoc:
  assumes "ring_inv L buf"
  shows "ring_inv (L @ [p]) (buf[length L mod packet_buffer_size := Some p])"
proof -
  have size: "0 < packet_buffer_size" by (simp add: packet_buffer_size_def)
  have len: "length buf = packet_buffer_size" using assms by (simp add: ring_inv_def)
  have "(buf[length L mod packet_buffer_size := Some p]) ! (i mod packet_buffer_size) = Some ((L @ [p]) ! i)"
    if "i < length (L @ [p])" and "length (L @ [p]) \<le> i + packet_buffer_size" for i
  proof (cases "i = length L")
    case True
    then show ?thesis using size len by simp
  next
    case False
    then have "i < length L" using that(1) by simp
    moreover have "i mod packet_buffer_size \<noteq> length L mod packet_buffer_size"
      using mod_window [of i packet_buffer_size "length L"] \<open>i < length L\<close> that(2) by fastforce
    ultimately show ?thesis
      using assms that(2) by (simp add: ring_inv_def nth_append)
  qed
  moreover have "(buf[length L mod packet_buffer_size := Some p]) ! j = None"
    if "j < packet_buffer_size" and "length (L @ [p]) \<le> j" for j
    using assms that by (simp add: ring_inv_def)
  ultimately show ?thesis using len by (simp add: ring_inv_def)
qed

text \<open>What \<open>AddPacket\<close> changes in a packet: its timestamp, its index and a key frame's type.\<close>

definition same_media :: "'e Packet \<Rightarrow> 'e Packet \<Rightarrow> bool" where
  "same_media p q \<longleftrightarrow> pk_data q = pk_data p \<and> pk_size q = pk_size p \<and> pk_capacity q = pk_capacity p \<and>
     pk_ext q = pk_ext p \<and> IsVideo q = IsVideo p \<and> IsAudio q = IsAudio p \<and> IsMeta q = IsMeta p"

lemma keyframe_type:
  assumes "IsVideo p"
  defines "q \<equiv> p\<lparr>pk_type := kPacketTypeVideo OR kFrameTypeKeyFrame\<rparr>"
  shows "IsVideo q" "\<not> IsAudio q" "\<not> IsMeta q" "\<not> IsAudio p" "\<not> IsMeta p" "IsKeyFrame q"
  using assms by (auto simp: IsVideo_def IsAudio_def IsMeta_def IsKeyFrame_def packet_type_defs)

lemma stamp_packet_props:
  assumes "stamp_packet n p c = Inr (q, key, c')"
  shows "pk_index q = int32 n" and "same_media p q" and "key \<Longrightarrow> IsVideo q \<and> IsKeyFrame q"
  using assms keyframe_type [of "p\<lparr>pk_timestamp := t, pk_index := i\<rparr>" for t i]
  by (auto simp: stamp_packet_def Let_def result_simps same_media_def split: if_splits)
    (auto simp: IsVideo_def IsAudio_def IsMeta_def)

lemma stamp_packet_ok:
  assumes "packet_inv p"
  shows "\<exists>q key c'. stamp_packet n p c = Inr (q, key, c')"
proof -
  obtain b where "IsCodecHeader p = Inr b"
    using codec_utils_ok(1) [OF assms] by blast
  then have "\<exists>r. CorrectTimestamp p c = Inr r"
    by (simp add: CorrectTimestamp_def)
  then obtain t c' where 1: "CorrectTimestamp p c = Inr (t, c')" by auto
  have "packet_inv (p\<lparr>pk_timestamp := word_of_int t, pk_index := int32 n\<rparr>)"
    using assms by (simp add: packet_inv_def)
  from codec_utils_ok(2) [OF this] 1 show ?thesis
    by (auto simp: stamp_packet_def Let_def)
qed

lemma keep_header_cases:
  assumes "keep_header p s = Inr s'"
  obtains "s' = s"
  | h where "ParseCodecHeader p (st_codec_headers s) = Inr h" and "s' = mark_media p (s\<lparr>st_codec_headers := h\<rparr>)"
  using assms unfolding keep_header_def by (auto simp: result_simps split: if_splits)

lemma mark_media_frame [simp]:
  "st_frame_index (mark_media p s) = st_frame_index s" "st_packet_buffer (mark_media p s) = st_packet_buffer s"
  "st_gop_mgr (mark_media p s) = st_gop_mgr s" "st_time_corrector (mark_media p s) = st_time_corrector s"
  "st_ready (mark_media p s) = st_ready s" "st_muxer (mark_media p s) = st_muxer s"
  "st_codec_headers (mark_media p s) = st_codec_headers s"
  by (simp_all add: mark_media_def)

lemma keep_header_frame:
  assumes "keep_header p s = Inr s'"
  shows "st_frame_index s' = st_frame_index s" "st_packet_buffer s' = st_packet_buffer s"
    "st_gop_mgr s' = st_gop_mgr s" "st_time_corrector s' = st_time_corrector s"
    "st_ready s' = st_ready s" "st_muxer s' = st_muxer s"
  by (rule keep_header_cases [OF assms]; simp)+

lemma headers_inv_cong:
  assumes "headers_inv L s" and "st_codec_headers s' = st_codec_headers s" and "st_has_video s' = st_has_video s"
    and "st_has_audio s' = st_has_audio s" and "st_has_meta s' = st_has_meta s"
  shows "headers_inv L s'"
  using assms by (simp add: headers_inv_def)

lemma headers_inv_snoc: "headers_inv L s \<Longrightarrow> headers_inv (L @ [p]) s"
  unfolding headers_inv_def using codec_inv_mono [of "int (length L) - 1" _ "int (length (L @ [p])) - 1"]
  by auto

lemma media_disjoint:
  "IsVideo p \<Longrightarrow> \<not> IsAudio p \<and> \<not> IsMeta p" "IsAudio p \<Longrightarrow> \<not> IsMeta p"
  by (auto simp: IsVideo_def IsAudio_def IsMeta_def packet_type_defs)

lemma keep_header_inv:
  assumes "keep_header p s = Inr s'" and "headers_inv L s" and "pk_index p = int (length L)"
  shows "headers_inv (L @ [p]) s'"
proof (cases "s' = s")
  case True
  then show ?thesis using assms(2) by (simp add: headers_inv_snoc)
next
  case False
  with assms(1) obtain h where h: "ParseCodecHeader p (st_codec_headers s) = Inr h"
    and s': "s' = mark_media p (s\<lparr>st_codec_headers := h\<rparr>)"
    by (blast elim: keep_header_cases)
  have "codec_inv (int (length (L @ [p])) - 1) h"
    using ParseCodecHeader_inv [OF _ _ _ h] assms(2,3) codec_inv_mono by (fastforce simp: headers_inv_def)
  moreover from h have "h = (if IsMeta p then SaveMeta p (st_codec_headers s)
      else if IsAudio p then SaveAudioHeader p (st_codec_headers s)
      else if IsVideo p then SaveVideoHeader p (st_codec_headers s) else st_codec_headers s)"
    by (auto simp: ParseCodecHeader_def result_simps split: if_splits)
  ultimately show ?thesis
    using assms(2) media_disjoint [of p] unfolding s' headers_inv_def
    by (auto simp: mark_media_def SaveMeta_def SaveAudioHeader_def SaveVideoHeader_def)
qed

lemma expired_Suc:
  "expired (Suc n) = (if int n - int packet_buffer_size > 0 then Suc n - packet_buffer_size else 0)"
  by (auto simp: expired_def)

text \<open>Dropping the expired groups from those of the log before.\<close>

lemma gops_expire:
  assumes "\<forall>i < length L. pk_index (L ! i) = int i"
  shows "filter (\<lambda>g. \<not> gi_index g \<le> int k) (map gop_item (filter P (drop m L))) =
         map gop_item (filter P (drop (max m (Suc k)) L))"
proof -
  have "filter (\<lambda>p. \<not> pk_index p \<le> int k) (drop m L) = drop (max m (Suc k)) L"
    using assms
  proof (induction L rule: rev_induct)
    case (snoc p L)
    have "pk_index p = int (length L)"
      using snoc.prems by (auto dest: spec [of _ "length L"])
    moreover have "pk_index (L ! i) = int i" if "i < length L" for i
      using snoc.prems [THEN spec, of i] that by (simp add: nth_append)
    ultimately have "pk_index p = int (length L)" and "\<forall>i < length L. pk_index (L ! i) = int i" by auto
    with snoc.IH show ?case by (cases "m \<le> length L") (auto simp: max_def)
  qed simp
  moreover have "filter (\<lambda>g. \<not> gi_index g \<le> int k) (map gop_item (filter P xs)) =
      map gop_item (filter P (filter (\<lambda>p. \<not> pk_index p \<le> int k) xs))" for xs
    by (simp add: filter_map comp_def gop_item_def conj_commute)
  ultimately show ?thesis by (simp only:)
qed

lemma store_packet_fields [simp]:
  "st_frame_index (store_packet n p s) = st_frame_index s"
  "st_packet_buffer (store_packet n p s) = (st_packet_buffer s)[nat (n mod int packet_buffer_size) := Some p]"
  "st_codec_headers (store_packet n p s) = st_codec_headers s" "st_has_video (store_packet n p s) = st_has_video s"
  "st_has_audio (store_packet n p s) = st_has_audio s" "st_has_meta (store_packet n p s) = st_has_meta s"
  by (simp_all add: store_packet_def Let_def)

lemma store_packet_gops:
  "st_gop_mgr (store_packet n p s) =
     (if st_frame_index s - int packet_buffer_size > 0
      then ClearExpriedGop (int32 (st_frame_index s - int packet_buffer_size)) (st_gop_mgr s) else st_gop_mgr s)"
  by (simp add: store_packet_def Let_def)

text \<open>The groups after one packet more.\<close>

lemma gops_step:
  assumes "stream_inv L s" and "length L + 1 < 2 ^ 31" and "pk_index p = int (length L)"
    and "st_gop_mgr s1 = AddFrame p (st_gop_mgr s)" and "st_frame_index s1 = int (length L)"
  shows "gops (st_gop_mgr (store_packet n q s1)) =
           map gop_item (filter IsKeyFrame (drop (expired (length (L @ [p]))) (L @ [p])))"
    and "latest_timestamp (st_gop_mgr (store_packet n q s1)) = sint (pk_timestamp p)"
proof -
  have idx: "\<forall>i < length (L @ [p]). pk_index ((L @ [p]) ! i) = int i"
    using assms(1,3) by (auto simp: stream_inv_def nth_append)
  have old: "gops (st_gop_mgr s) = map gop_item (filter IsKeyFrame (drop (expired (length L)) L))"
    using assms(1) by (simp add: stream_inv_def)
  have "expired (length L) \<le> length L" by (simp add: expired_def)
  then have new: "gops (st_gop_mgr s1) = map gop_item (filter IsKeyFrame (drop (expired (length L)) (L @ [p])))"
    by (simp add: assms(4) AddFrame_gops old gop_item_def)
  show "gops (st_gop_mgr (store_packet n q s1)) =
          map gop_item (filter IsKeyFrame (drop (expired (length (L @ [p]))) (L @ [p])))"
  proof (cases "length L > packet_buffer_size")
    case True
    then have "int32 (int (length L) - int packet_buffer_size) = int (length L - packet_buffer_size)"
      using assms(2) by (simp add: int32_id of_nat_diff)
    moreover have "max (expired (length L)) (Suc (length L - packet_buffer_size)) = expired (length (L @ [p]))"
      using True by (auto simp: expired_def)
    ultimately show ?thesis
      using True gops_expire [OF idx, of "length L - packet_buffer_size" IsKeyFrame "expired (length L)"] new
      by (simp only: store_packet_gops assms(5) ClearExpriedGop_def) simp
  next
    case False
    then have "expired (length L) = 0" "expired (length (L @ [p])) = 0" by (simp_all add: expired_def)
    then show ?thesis using False new by (simp add: store_packet_gops assms(5))
  qed
  show "latest_timestamp (st_gop_mgr (store_packet n q s1)) = sint (pk_timestamp p)"
    by (simp add: store_packet_gops assms(4) ClearExpriedGop_def)
qed

lemma AddPacket_inv:
  assumes "stream_inv L s" and "length L + 1 < 2 ^ 31" and "AddPacket app now p s = Inr (s', act)"
  shows "\<exists>q. stream_inv (L @ [q]) s' \<and> same_media p q \<and> pk_index q = int (length L)"
proof -
  have n: "st_frame_index s + 1 = int (length L)" using assms(1) by (simp add: stream_inv_def)
  obtain q key c where q: "stamp_packet (int (length L)) p (st_time_corrector s) = Inr (q, key, c)"
    using assms(3) by (cases "stamp_packet (int (length L)) p (st_time_corrector s)") (auto simp: AddPacket_def n)
  define t where "t = s\<lparr>st_time_corrector := c, st_frame_index := int (length L)\<rparr>"
  define s0 where "s0 = (if key then SetReady now t else t)"
  have step: "AddPacket app now p s = rbind (keep_header q s0) (\<lambda>s1.
      let s2 = store_packet (int (length L)) q (ProcessHls app q (s1\<lparr>st_gop_mgr := AddFrame q (st_gop_mgr s1)\<rparr>));
          s3 = (if st_data_coming_time s2 = 0 then s2\<lparr>st_data_coming_time := now\<rparr> else s2);
          s4 = s3\<lparr>st_stream_time := now\<rparr>
      in Inr (s4, st_frame_index s4 < 300 \<or> st_frame_index s4 mod 5 = 0))"
    by (simp only: AddPacket_def Let_def n q rbind_simps prod.case s0_def t_def)
  obtain s1 where s1: "keep_header q s0 = Inr s1"
    using assms(3) unfolding step by (cases "keep_header q s0") auto
  define s2 where "s2 = ProcessHls app q (s1\<lparr>st_gop_mgr := AddFrame q (st_gop_mgr s1)\<rparr>)"
  let ?s3 = "store_packet (int (length L)) q s2"
  have "s' = (if st_data_coming_time ?s3 = 0 then ?s3\<lparr>st_data_coming_time := now\<rparr> else ?s3)\<lparr>st_stream_time := now\<rparr>"
    using assms(3) unfolding step s1 rbind_simps s2_def [symmetric] Let_def by simp
  then have s': "st_frame_index s' = st_frame_index ?s3" "st_packet_buffer s' = st_packet_buffer ?s3"
    "st_gop_mgr s' = st_gop_mgr ?s3" "st_codec_headers s' = st_codec_headers ?s3"
    "st_has_video s' = st_has_video ?s3" "st_has_audio s' = st_has_audio ?s3" "st_has_meta s' = st_has_meta ?s3"
    by simp_all
  have s0: "st_frame_index s0 = int (length L)" "st_packet_buffer s0 = st_packet_buffer s"
    "st_gop_mgr s0 = st_gop_mgr s" "headers_inv L s0"
    using assms(1) by (auto simp: s0_def t_def SetReady_def stream_inv_def headers_inv_def)
  have s2: "st_frame_index s2 = int (length L)" "st_packet_buffer s2 = st_packet_buffer s"
    "st_gop_mgr s2 = AddFrame q (st_gop_mgr s)"
    by (simp_all add: s2_def ProcessHls_def keep_header_frame [OF s1] s0)
  have idx: "pk_index q = int (length L)"
    using stamp_packet_props(1) [OF q] assms(2) by (simp add: int32_id)
  have "headers_inv (L @ [q]) s2"
    by (rule headers_inv_cong [OF keep_header_inv [OF s1 s0(4) idx]]) (simp_all add: s2_def ProcessHls_def)
  then have "headers_inv (L @ [q]) s'"
    by (rule headers_inv_cong) (simp_all add: s')
  moreover have "ring_inv (L @ [q]) (st_packet_buffer s')"
    using ring_inv_snoc [of L "st_packet_buffer s" q] assms(1)
    by (simp add: s' s2 stream_inv_def nat_mod_distrib)
  moreover have "\<forall>i < length (L @ [q]). pk_index ((L @ [q]) ! i) = int i"
    using assms(1) idx by (auto simp: stream_inv_def nth_append)
  moreover note gops_step [OF assms(1,2) idx s2(3,1), of "int (length L)" q]
  ultimately have "stream_inv (L @ [q]) s'"
    using assms(2) unfolding stream_inv_def by (simp add: s' s2)
  then show ?thesis using idx stamp_packet_props(2) [OF q] by blast
qed


text \<open>No fault, unless metadata makes the AMF decoder read past its packet.\<close>

lemma AddPacket_ok:
  assumes "packet_inv p" and "IsMeta p \<Longrightarrow> is_ok (amf_Decode (pk_data p) (int (pk_size p)))"
  shows "\<exists>s' act. AddPacket app now p s = Inr (s', act)"
proof -
  obtain q key c where q: "stamp_packet (st_frame_index s + 1) p (st_time_corrector s) = Inr (q, key, c)"
    using stamp_packet_ok [OF assms(1)] by blast
  have media: "same_media p q" by (rule stamp_packet_props(2) [OF q])
  then have "packet_inv q" using assms(1) by (simp add: same_media_def packet_inv_def)
  then obtain hdr where hdr: "IsCodecHeader q = Inr hdr" using codec_utils_ok(1) by blast
  have "\<exists>h'. ParseCodecHeader q h = Inr h'" for h
  proof (cases "IsMeta q")
    case True
    with assms(2) media obtain r where "amf_Decode (pk_data q) (int (pk_size q)) = Inr r"
      by (auto simp: same_media_def is_ok_iff)
    then show ?thesis using True by (simp add: ParseCodecHeader_def ParseMeta_def)
  qed (simp add: ParseCodecHeader_def)
  then have keep: "\<exists>s1. keep_header q t = Inr s1" for t
    by (cases hdr) (simp_all add: keep_header_def hdr, metis rbind_simps(2))
  obtain s1 where s1: "keep_header q (if key then SetReady now (s\<lparr>st_time_corrector := c, st_frame_index := st_frame_index s + 1\<rparr>)
      else s\<lparr>st_time_corrector := c, st_frame_index := st_frame_index s + 1\<rparr>) = Inr s1"
    using keep by blast
  show ?thesis
    unfolding AddPacket_def Let_def q rbind_simps prod.case s1 by (intro exI) (rule refl)
qed

section \<open>Frames in order\<close>

text \<open>The log index of the packet that occupies the slot of frame \<open>i\<close> when \<open>n\<close> were added.\<close>

definition ring_index :: "nat \<Rightarrow> nat \<Rightarrow> nat" where
  "ring_index n i = i + packet_buffer_size * ((n - 1 - i) div packet_buffer_size)"

lemma ring_index_bounds:
  assumes "i < n"
  shows "i \<le> ring_index n i" "ring_index n i < n" "n \<le> ring_index n i + packet_buffer_size"
    "ring_index n i mod packet_buffer_size = i mod packet_buffer_size"
proof -
  define k where "k = packet_buffer_size * ((n - 1 - i) div packet_buffer_size)"
  have "(n - 1 - i) mod packet_buffer_size < packet_buffer_size" by (simp add: packet_buffer_size_def)
  moreover have "k + (n - 1 - i) mod packet_buffer_size = n - 1 - i" by (simp only: k_def mult_div_mod_eq)
  ultimately have "i + k < n" "n \<le> i + k + packet_buffer_size" using assms by linarith+
  then show "ring_index n i < n" "n \<le> ring_index n i + packet_buffer_size"
    by (simp_all only: ring_index_def k_def [symmetric])
qed (simp_all add: ring_index_def)

lemma ring_index_window [simp]:
  assumes "n \<le> i + packet_buffer_size"
  shows "ring_index n i = i"
proof -
  have "n - 1 - i < packet_buffer_size" using assms by (simp add: packet_buffer_size_def)
  then show ?thesis by (simp add: ring_index_def)
qed

lemma ring_index_beyond: "n \<le> i \<Longrightarrow> ring_index n i = i"
  by (simp add: ring_index_def)

lemma buffer_at:
  assumes "stream_inv L s" and "i < length L"
  shows "st_packet_buffer s ! nat (uint32 (int i) mod int packet_buffer_size) = Some (L ! ring_index (length L) i)"
proof -
  have "uint32 (int i) = int i"
    using assms by (intro uint32_id) (auto simp: stream_inv_def)
  then have "nat (uint32 (int i) mod int packet_buffer_size) = ring_index (length L) i mod packet_buffer_size"
    using ring_index_bounds(4) [OF assms(2)] by (simp add: nat_mod_distrib)
  moreover have "ring_inv L (st_packet_buffer s)" using assms(1) by (simp add: stream_inv_def)
  ultimately show ?thesis
    using ring_index_bounds(2,3) [OF assms(2)] by (simp only: ring_inv_def)
qed

definition deliver :: "'e Packet list \<Rightarrow> 'e PlayerUser \<Rightarrow> 'e PlayerUser" where
  "deliver fs u =
     (if fs = [] then u
      else u\<lparr>pl_out_frames := pl_out_frames u @ fs, pl_out_index := pk_index (last fs),
             pl_out_frame_timestamp := int32 (sint (pk_timestamp (last fs)))\<rparr>)"

lemma deliver_Nil [simp]: "deliver [] u = u"
  by (simp add: deliver_def)

lemma deliver_Cons: "deliver fs (deliver [f] u) = deliver (f # fs) u"
  by (simp add: deliver_def)

lemma next_frames_window:
  assumes "stream_inv L s" and "length L \<le> i + packet_buffer_size"
  shows "next_frames n s (int i) u = deliver (take n (drop i L)) u"
  using assms(2)
proof (induction n arbitrary: i u)
  case (Suc n)
  show ?case
  proof (cases "i < length L")
    case True
    let ?u = "deliver [L ! i] u"
    have "next_frames (Suc n) s (int i) u = next_frames n s (int (Suc i)) ?u"
      using True assms(1) buffer_at [OF assms(1) True] Suc.prems
      by (simp add: stream_inv_def deliver_def add.commute)
    also have "\<dots> = deliver (take n (drop (Suc i) L)) ?u"
      using Suc.prems by (intro Suc.IH) simp
    also have "\<dots> = deliver (take (Suc n) (drop i L)) u"
      using True by (simp add: deliver_Cons Cons_nth_drop_Suc [symmetric])
    finally show ?thesis .
  next
    case False
    then show ?thesis using assms(1) by (simp add: stream_inv_def)
  qed
qed simp

text \<open>
  The next ten packets from the player's position on; from the oldest one the ring has in its
  slot when the player is more than 1000 behind.
\<close>

lemma GetNextFrame_log:
  assumes "stream_inv L s" and "-1 \<le> pl_out_index u"
  defines "i \<equiv> nat (pl_out_index u + 1)"
  shows "GetNextFrame s u = deliver (take 10 (drop (ring_index (length L) i) L)) u"
proof (cases "i < length L")
  case True
  let ?r = "ring_index (length L) i"
  note b = ring_index_bounds [OF True]
  have i: "pl_out_index u + 1 = int i" using assms(2) by (simp add: i_def)
  have step: "next_frames (Suc n) s (int i) u = next_frames n s (int (Suc ?r)) (deliver [L ! ?r] u)" for n
    using True assms(1) buffer_at [OF assms(1) True] b(2)
    by (simp add: stream_inv_def deliver_def add.commute)
  have "GetNextFrame s u = next_frames 9 s (int (Suc ?r)) (deliver [L ! ?r] u)"
    using step [of 9] by (simp only: GetNextFrame_def i) (simp add: eval_nat_numeral)
  also have "\<dots> = deliver (take 9 (drop (Suc ?r) L)) (deliver [L ! ?r] u)"
    using b by (intro next_frames_window [OF assms(1)]) simp
  also have "\<dots> = deliver (take 10 (drop ?r L)) u"
    using b(2) by (simp add: deliver_Cons Cons_nth_drop_Suc [symmetric] eval_nat_numeral)
  finally show ?thesis .
next
  case False
  then have "pl_out_index u + 1 > st_frame_index s" using assms(1,2) by (simp add: stream_inv_def i_def)
  moreover have "drop (ring_index (length L) i) L = []" using False by (simp add: ring_index_beyond)
  ultimately show ?thesis by (simp add: GetNextFrame_def eval_nat_numeral)
qed

end
