(* ===== verification/Player.thy ===== *)
theory Player
  imports StreamInv RtmpSend
begin

text \<open>
  \<open>live/user/RtmpPlayerUser.cc\<close> and the control flow it shares with \<open>FlvPlayerUser.cc\<close>: what
  \<open>PostFrames\<close> takes from the stream and hands to the connection's protocol context. The two
  ways to push are parameters of \<open>PostFrames\<close>; the RTMP ones follow. A context is absent
  before the connection has set it. What was pushed is part of the result.
\<close>

section \<open>PostFrames\<close>

type_synonym ('e, 'c) push_frame = "'e Packet \<Rightarrow> 'c \<Rightarrow> (bool \<times> 'c) result"
type_synonym ('e, 'c) push_frames = "'e Packet list \<Rightarrow> TimeCorrector \<Rightarrow> 'c \<Rightarrow> (bool \<times> TimeCorrector \<times> 'c) result"

text \<open>A header or a frame that was handed to the context.\<close>

datatype 'e posted = PostedHeader "'e Packet" | PostedFrame "'e Packet"

fun posted_packet :: "'e posted \<Rightarrow> 'e Packet" where
  "posted_packet (PostedHeader p) = p"
| "posted_packet (PostedFrame p) = p"

fun posted_frame :: "'e posted \<Rightarrow> 'e Packet option" where
  "posted_frame (PostedHeader p) = None"
| "posted_frame (PostedFrame p) = Some p"

definition post_header ::
    "('e, 'c) push_frame \<Rightarrow> 'e Packet \<Rightarrow> ('e PlayerUser \<Rightarrow> 'e PlayerUser) \<Rightarrow> 'e PlayerUser \<Rightarrow> 'c \<Rightarrow>
     ('e PlayerUser \<times> 'c \<times> 'e posted list) result" where
  "post_header push p clear u c =
     rbind (push p c) (\<lambda>(ok, c'). Inr (if ok then (clear u, c', [PostedHeader p]) else (u, c', [])))"

definition post_pending ::
    "('e, 'c) push_frame \<Rightarrow> ('e, 'c) push_frames \<Rightarrow> 'e PlayerUser \<Rightarrow> 'c \<Rightarrow>
     ('e PlayerUser \<times> 'c \<times> 'e posted list \<times> conn_call list) result" where
  "post_pending push pushs u c =
     (case pl_meta u of Some p \<Rightarrow>
        rbind (post_header push p (\<lambda>u. u\<lparr>pl_meta := None\<rparr>) u c) (\<lambda>(u, c, ps). Inr (u, c, ps, []))
      | None \<Rightarrow>
      case pl_audio_header u of Some p \<Rightarrow>
        rbind (post_header push p (\<lambda>u. u\<lparr>pl_audio_header := None\<rparr>) u c) (\<lambda>(u, c, ps). Inr (u, c, ps, []))
      | None \<Rightarrow>
      case pl_video_header u of Some p \<Rightarrow>
        rbind (post_header push p (\<lambda>u. u\<lparr>pl_video_header := None\<rparr>) u c) (\<lambda>(u, c, ps). Inr (u, c, ps, []))
      | None \<Rightarrow>
        if pl_out_frames u \<noteq> []
        then rbind (pushs (pl_out_frames u) (pl_time_corrector u) c) (\<lambda>(ok, tc, c).
               let u' = u\<lparr>pl_time_corrector := tc\<rparr>
               in Inr (if ok then (u'\<lparr>pl_out_frames := []\<rparr>, c, map PostedFrame (pl_out_frames u), []) else (u', c, [], [])))
        else Inr (u, c, [], User_Deactive u))"

text \<open>The return value is false when the stream has nothing to play yet.\<close>

definition PostFrames ::
    "('e, 'c) push_frame \<Rightarrow> ('e, 'c) push_frames \<Rightarrow> int \<Rightarrow> 'e Stream \<Rightarrow> 'e PlayerUser \<Rightarrow> 'c \<Rightarrow>
     (bool \<times> 'e PlayerUser \<times> 'c \<times> 'e posted list \<times> conn_call list) result" where
  "PostFrames push pushs now s u c =
     (if \<not> st_ready s \<or> \<not> HasMedia s then Inr (False, u, c, [], User_Deactive u)
      else rbind (post_pending push pushs (GetFrames now s u) c) (\<lambda>(u, c, ps, calls). Inr (True, u, c, ps, calls)))"

section \<open>The RTMP player\<close>

text \<open>What the RTMP context sends is kept with it.\<close>

type_synonym rtmp_conn = "(RtmpOut \<times> bytes list) option"

definition rtmp_send :: "RtmpOut \<Rightarrow> bytes list \<Rightarrow> rtmp_conn result" where
  "rtmp_send o' sent = rbind (Send o') (\<lambda>(o', w). Inr (Some (o', sent @ (case w of None \<Rightarrow> [] | Some b \<Rightarrow> [concat b]))))"

definition RtmpPlayerUser_PushFrame :: "(RtmpMsgHeader, rtmp_conn) push_frame" where
  "RtmpPlayerUser_PushFrame p cx =
     (case cx of None \<Rightarrow> Inr (False, cx) | Some (r, sent) \<Rightarrow>
        if \<not> Ready r then Inr (False, cx)
        else rbind (BuildChunk p 0 True r) (\<lambda>(_, r). rbind (rtmp_send r sent) (\<lambda>cx. Inr (True, cx))))"

fun rtmp_build_frames :: "RtmpPacket list \<Rightarrow> TimeCorrector \<Rightarrow> RtmpOut \<Rightarrow> (TimeCorrector \<times> RtmpOut) result" where
  "rtmp_build_frames [] tc r = Inr (tc, r)"
| "rtmp_build_frames (p # ps) tc r =
     rbind (CorrectTimestamp p tc) (\<lambda>(ts, tc). rbind (BuildChunk p (word_of_int ts) False r) (\<lambda>(_, r).
       rtmp_build_frames ps tc r))"

definition RtmpPlayerUser_PushFrames :: "(RtmpMsgHeader, rtmp_conn) push_frames" where
  "RtmpPlayerUser_PushFrames ps tc cx =
     (case cx of None \<Rightarrow> Inr (False, tc, cx) | Some (r, sent) \<Rightarrow>
        if \<not> Ready r then Inr (False, tc, cx)
        else rbind (rtmp_build_frames ps tc r) (\<lambda>(tc, r). rbind (rtmp_send r sent) (\<lambda>cx. Inr (True, tc, cx))))"

definition RtmpPlayerUser_PostFrames ::
    "int \<Rightarrow> RtmpMsgHeader Stream \<Rightarrow> RtmpMsgHeader PlayerUser \<Rightarrow> rtmp_conn \<Rightarrow>
     (bool \<times> RtmpMsgHeader PlayerUser \<times> rtmp_conn \<times> RtmpMsgHeader posted list \<times> conn_call list) result" where
  "RtmpPlayerUser_PostFrames = PostFrames RtmpPlayerUser_PushFrame RtmpPlayerUser_PushFrames"

section \<open>Where a player is in the log\<close>

lemma header_taken:
  assumes "codec_inv n h"
  shows "ch_meta_packets h \<noteq> [] \<Longrightarrow> \<exists>p \<in> set (ch_meta_packets h). CodecHeader_Meta i h = Some p"
    and "ch_audio_header_packets h \<noteq> [] \<Longrightarrow>
           \<exists>p \<in> set (ch_audio_header_packets h). CodecHeader_AudioHeader i h = Some p"
    and "ch_video_header_packets h \<noteq> [] \<Longrightarrow>
           \<exists>p \<in> set (ch_video_header_packets h). CodecHeader_VideoHeader i h = Some p"
proof -
  have 1: "ch_video_header h = newest_of (ch_video_header_packets h)"
    "ch_audio_header h = newest_of (ch_audio_header_packets h)" "ch_meta h = newest_of (ch_meta_packets h)"
    using assms by (simp_all add: codec_inv_def)
  have 2: "\<exists>p \<in> set ps. header_before i ps (newest_of ps) = Some p" if "ps \<noteq> []" for ps :: "'a Packet list"
    using header_before_some [OF that, of i] header_before_mem [of i ps] by auto
  show "ch_meta_packets h \<noteq> [] \<Longrightarrow> \<exists>p \<in> set (ch_meta_packets h). CodecHeader_Meta i h = Some p"
    and "ch_audio_header_packets h \<noteq> [] \<Longrightarrow>
           \<exists>p \<in> set (ch_audio_header_packets h). CodecHeader_AudioHeader i h = Some p"
    and "ch_video_header_packets h \<noteq> [] \<Longrightarrow>
           \<exists>p \<in> set (ch_video_header_packets h). CodecHeader_VideoHeader i h = Some p"
    using 2 by (simp_all add: CodecHeader_Meta_def CodecHeader_AudioHeader_def CodecHeader_VideoHeader_def 1)
qed

text \<open>No header is waited for once a group of pictures is found.\<close>

lemma take_meta_done:
  assumes "headers_inv L s"
  shows "\<not> pl_wait_meta (take_meta i s u)"
    "pl_meta (take_meta i s u) = Some p \<Longrightarrow> p \<in> set L \<or> pl_meta u = Some p"
  using assms header_taken(1) [of "int (length L) - 1" "st_codec_headers s" i]
  by (auto simp: headers_inv_def take_meta_def Let_def split: option.splits if_splits)

lemma take_audio_done:
  assumes "headers_inv L s"
  shows "\<not> pl_wait_audio (take_audio i s u)"
    "pl_audio_header (take_audio i s u) = Some p \<Longrightarrow> p \<in> set L \<or> pl_audio_header u = Some p"
  using assms header_taken(2) [of "int (length L) - 1" "st_codec_headers s" i]
  by (auto simp: headers_inv_def take_audio_def Let_def split: option.splits if_splits)

lemma take_video_done:
  assumes "headers_inv L s"
  shows "\<not> pl_wait_video (take_video i s u)"
    "pl_video_header (take_video i s u) = Some p \<Longrightarrow> p \<in> set L \<or> pl_video_header u = Some p"
  using assms header_taken(3) [of "int (length L) - 1" "st_codec_headers s" i]
  by (auto simp: headers_inv_def take_video_def Let_def split: option.splits if_splits)

lemma take_frames:
  "pl_out_index (take_meta i s u) = pl_out_index u" "pl_out_index (take_audio i s u) = pl_out_index u"
  "pl_out_index (take_video i s u) = pl_out_index u"
  "pl_out_frames (take_meta i s u) = pl_out_frames u" "pl_out_frames (take_audio i s u) = pl_out_frames u"
  "pl_out_frames (take_video i s u) = pl_out_frames u"
  "pl_wait_meta (take_audio i s u) = pl_wait_meta u" "pl_wait_meta (take_video i s u) = pl_wait_meta u"
  "pl_wait_audio (take_video i s u) = pl_wait_audio u"
  by (simp_all add: take_meta_def take_audio_def take_video_def Let_def split: option.splits)

lemma take_headers_done:
  assumes "headers_inv L s"
  shows "\<not> pl_wait_meta (take_headers i s u)" "\<not> pl_wait_audio (take_headers i s u)"
    "\<not> pl_wait_video (take_headers i s u)" "pl_out_index (take_headers i s u) = pl_out_index u"
    "pl_out_frames (take_headers i s u) = pl_out_frames u"
  using take_meta_done(1) [OF assms] take_audio_done(1) [OF assms] take_video_done(1) [OF assms]
  by (simp_all add: take_headers_def take_frames)

text \<open>The packet index of a group that is found: a key frame of the log.\<close>

lemma found_gop:
  assumes "stream_inv L s" and "GetGopByLatency c (st_gop_mgr s) = (idx, l)" and "idx \<noteq> -1"
  shows "\<exists>i. idx = int i \<and> i < length L \<and> IsKeyFrame (L ! i) \<and> expired (length L) \<le> i"
proof -
  have "idx \<in> gi_index ` set (gops (st_gop_mgr s))" by (rule GetGop_index [OF assms(2,3)])
  then obtain p where p: "p \<in> set (drop (expired (length L)) L)" "IsKeyFrame p" "idx = pk_index p"
    using assms(1) by (auto simp: stream_inv_def gop_item_def)
  then obtain j where j: "j < length L - expired (length L)" "p = L ! (expired (length L) + j)"
    by (auto simp: in_set_conv_nth)
  with p assms(1) show ?thesis
    by (intro exI [of _ "expired (length L) + j"]) (auto simp: stream_inv_def)
qed

lemma LocateGop_found:
  assumes "stream_inv L s" and "LocateGop now s u = (True, u')"
  shows "\<exists>i. pl_out_index u' = int i - 1 \<and> i < length L \<and> IsKeyFrame (L ! i) \<and>
           expired (length L) \<le> i \<and> pl_out_frames u' = pl_out_frames u"
proof -
  obtain idx l where g: "GetGopByLatency (content_latency u) (st_gop_mgr s) = (idx, l)" by fastforce
  with assms(2) have "idx \<noteq> -1" by (auto simp: LocateGop_def)
  with found_gop [OF assms(1) g] assms(2) show ?thesis
    using take_headers_done [of L s] assms(1)
    by (auto simp: LocateGop_def g Let_def stream_inv_def split: if_splits)
qed

lemma LocateGop_not_found:
  assumes "stream_inv L s" and "LocateGop now s u = (False, u')"
  shows "pl_out_index u' = pl_out_index u \<and> pl_out_frames u' = pl_out_frames u \<and>
         pl_meta u' = pl_meta u \<and> pl_audio_header u' = pl_audio_header u \<and> pl_video_header u' = pl_video_header u"
proof -
  obtain idx l where g: "GetGopByLatency (content_latency u) (st_gop_mgr s) = (idx, l)" by fastforce
  have "headers_inv L s" using assms(1) by (simp add: stream_inv_def)
  with assms(2) take_headers_done(1-3) have "idx = -1"
    by (fastforce simp: LocateGop_def g Let_def split: if_splits)
  with assms(2) show ?thesis by (auto simp: LocateGop_def g wait_timed_out_def split: if_splits)
qed

lemma SkipFrame_forward:
  assumes "stream_inv L s" and "pl_out_index u < int (length L)"
  shows "pl_out_index u \<le> pl_out_index (SkipFrame s u)" "pl_out_index (SkipFrame s u) < int (length L)"
    "pl_out_frames (SkipFrame s u) = pl_out_frames u"
proof -
  obtain idx l where g: "GetGopByLatency (content_latency u) (st_gop_mgr s) = (idx, l)" by fastforce
  show "pl_out_index u \<le> pl_out_index (SkipFrame s u)"
    by (simp add: SkipFrame_def g Let_def split: option.splits)
  show "pl_out_index (SkipFrame s u) < int (length L)"
    using assms found_gop [OF assms(1) g] by (auto simp: SkipFrame_def g Let_def split: option.splits)
  show "pl_out_frames (SkipFrame s u) = pl_out_frames u"
    by (simp add: SkipFrame_def g Let_def split: option.splits)
qed


text \<open>The frames a player gets are the next ones of the log from some later position on.\<close>

definition at_log :: "'e Packet list \<Rightarrow> 'e PlayerUser \<Rightarrow> bool" where
  "at_log L u \<longleftrightarrow> -1 \<le> pl_out_index u \<and> pl_out_index u < int (length L)"

definition continues :: "'e Packet list \<Rightarrow> 'e PlayerUser \<Rightarrow> 'e PlayerUser \<Rightarrow> bool" where
  "continues L u u' \<longleftrightarrow>
     at_log L u' \<and> pl_out_index u \<le> pl_out_index u' \<and>
     (pl_out_frames u' = pl_out_frames u \<or>
      pl_out_frames u = [] \<and>
      (\<exists>r. pl_out_index u < int r \<and> r < length L \<and> pl_out_frames u' = take 10 (drop r L) \<and>
           pl_out_index u' = int (r + length (pl_out_frames u')) - 1))"

lemma GetNextFrame_continues:
  assumes "stream_inv L s" and "at_log L u"
  shows "continues L u (GetNextFrame s u) \<or> pl_out_frames u \<noteq> []"
proof -
  let ?i = "nat (pl_out_index u + 1)" and ?r = "ring_index (length L) (nat (pl_out_index u + 1))"
  have eq: "GetNextFrame s u = deliver (take 10 (drop ?r L)) u"
    using GetNextFrame_log [OF assms(1)] assms(2) by (simp add: at_log_def)
  show ?thesis
  proof (cases "?i < length L")
    case True
    define r fs where "r = ?r" and "fs = take 10 (drop r L)"
    have r: "pl_out_index u < int r" "r < length L"
      using ring_index_bounds(1,2) [OF True] by (simp_all add: r_def)
    have len: "length fs = min 10 (length L - r)" by (simp add: fs_def)
    have "0 < length fs" using r(2) by (simp add: len)
    then have n: "1 \<le> length fs" "r + length fs \<le> length L" "fs \<noteq> []" using r(2) len by (auto simp: Suc_le_eq)
    have "last fs = L ! (r + length fs - 1)"
      using n by (simp add: last_conv_nth) (simp add: fs_def add.commute)
    moreover have "r + length fs - 1 < length L" using n by linarith
    ultimately have "pk_index (last fs) = int (r + length fs - 1)"
      using assms(1) by (auto simp: stream_inv_def)
    then have "pk_index (last fs) = int (r + length fs) - 1" using n by (simp add: of_nat_diff)
    then show ?thesis
      using n r unfolding eq r_def [symmetric] fs_def [symmetric] continues_def at_log_def deliver_def
      by (cases "pl_out_frames u = []") (auto simp: fs_def [symmetric])
  next
    case False
    then have "take 10 (drop ?r L) = []" by (simp add: ring_index_beyond)
    then show ?thesis using assms(2) by (simp add: eq continues_def)
  qed
qed

lemma continues_trans:
  assumes "pl_out_frames u1 = pl_out_frames u" and "pl_out_index u \<le> pl_out_index u1" and "continues L u1 u2"
  shows "continues L u u2"
  using assms by (auto simp: continues_def)

lemma GetFrames_continues:
  assumes "stream_inv L s" and "at_log L u"
  shows "continues L u (GetFrames now s u)"
proof -
  have same: "continues L u u" using assms(2) by (simp add: continues_def)
  show ?thesis
  proof (cases "HasMedia s \<and> pl_meta u = None \<and> pl_audio_header u = None \<and> pl_video_header u = None \<and> pl_out_frames u = []")
    case False
    then show ?thesis using same by (auto simp: GetFrames_def)
  next
    case True
    show ?thesis
    proof (cases "pl_out_index u \<ge> 0")
      case ge: True
      define v where "v = (if need_skip s u then SkipFrame s u else u)"
      have v: "pl_out_index u \<le> pl_out_index v" "pl_out_index v < int (length L)" "pl_out_frames v = pl_out_frames u"
        using SkipFrame_forward [OF assms(1), of u] assms(2) by (auto simp: at_log_def v_def)
      have "at_log L v" using v(1,2) ge by (auto simp: at_log_def)
      then have "continues L v (GetNextFrame s v)"
        using GetNextFrame_continues [OF assms(1)] v(3) True by metis
      with v(1,3) have "continues L u (GetNextFrame s v)" by (metis continues_trans)
      then show ?thesis using True ge by (simp add: GetFrames_def v_def)
    next
      case lt: False
      obtain found v where v: "LocateGop now s u = (found, v)" by fastforce
      show ?thesis
      proof (cases found)
        case found: True
        from LocateGop_found [OF assms(1)] v found obtain i where
          i: "pl_out_index v = int i - 1" "i < length L" "pl_out_frames v = pl_out_frames u" by metis
        then have "at_log L v" by (simp add: at_log_def)
        then have "continues L v (GetNextFrame s v)"
          using GetNextFrame_continues [OF assms(1)] i(3) True by metis
        moreover have "pl_out_index u \<le> pl_out_index v" using lt i(1) by simp
        ultimately have "continues L u (GetNextFrame s v)" using i(3) by (metis continues_trans)
        then show ?thesis using True lt v found by (simp add: GetFrames_def)
      next
        case False
        with v LocateGop_not_found [OF assms(1)] have "continues L u v"
          using same by (auto simp: continues_def at_log_def)
        then show ?thesis using True lt v False by (simp add: GetFrames_def)
      qed
    qed
  qed
qed

text \<open>The headers a player holds are packets of the log.\<close>

definition headers_in :: "'e Packet list \<Rightarrow> 'e PlayerUser \<Rightarrow> bool" where
  "headers_in L u \<longleftrightarrow> set_option (pl_meta u) \<union> set_option (pl_audio_header u) \<union> set_option (pl_video_header u) \<subseteq> set L"

lemma headers_in_next [simp]: "headers_in L (next_frames n s i u) = headers_in L u"
  by (induction n s i u rule: next_frames.induct) (auto simp: headers_in_def split: option.splits)


lemma SkipFrame_headers:
  assumes "headers_inv L s" and "headers_in L u"
  shows "headers_in L (SkipFrame s u)"
proof -
  have mem: "p \<in> set L" if "CodecHeader_Meta i (st_codec_headers s) = Some p \<or>
      CodecHeader_AudioHeader i (st_codec_headers s) = Some p \<or>
      CodecHeader_VideoHeader i (st_codec_headers s) = Some p" for i p
    using that assms(1) header_before_mem [of i _ p]
    by (auto simp: headers_inv_def codec_inv_def CodecHeader_Meta_def CodecHeader_AudioHeader_def
        CodecHeader_VideoHeader_def)
  obtain idx l where g: "GetGopByLatency (content_latency u) (st_gop_mgr s) = (idx, l)" by fastforce
  show ?thesis
    using assms(2) mem by (auto simp: SkipFrame_def g Let_def headers_in_def split: option.splits)
qed

lemma take_headers_in:
  assumes "headers_inv L s" and "headers_in L u"
  shows "headers_in L (take_headers i s u)"
proof -
  have keep: "pl_meta (take_audio i s v) = pl_meta v" "pl_meta (take_video i s v) = pl_meta v"
    "pl_audio_header (take_meta i s v) = pl_audio_header v" "pl_audio_header (take_video i s v) = pl_audio_header v"
    "pl_video_header (take_meta i s v) = pl_video_header v" "pl_video_header (take_audio i s v) = pl_video_header v" for v
    by (simp_all add: take_meta_def take_audio_def take_video_def Let_def split: option.splits)
  have "headers_in L (take_meta i s v)" if "headers_in L v" for v
    using that take_meta_done(2) [OF assms(1), of i v] by (auto simp: headers_in_def keep)
  moreover have "headers_in L (take_audio i s v)" if "headers_in L v" for v
    using that take_audio_done(2) [OF assms(1), of i v] by (auto simp: headers_in_def keep)
  moreover have "headers_in L (take_video i s v)" if "headers_in L v" for v
    using that take_video_done(2) [OF assms(1), of i v] by (auto simp: headers_in_def keep)
  ultimately show ?thesis using assms(2) by (simp add: take_headers_def)
qed

lemma GetFrames_headers:
  assumes "stream_inv L s" and "headers_in L u"
  shows "headers_in L (GetFrames now s u)"
proof -
  have h: "headers_inv L s" using assms(1) by (simp add: stream_inv_def)
  obtain found v where v: "LocateGop now s u = (found, v)" by fastforce
  obtain idx l where g: "GetGopByLatency (content_latency u) (st_gop_mgr s) = (idx, l)" by fastforce
  have "headers_in L (take_headers idx s (u\<lparr>pl_out_index := idx - 1\<rparr>))"
    using take_headers_in [OF h] assms(2) by (simp add: headers_in_def)
  then have "headers_in L v"
    using v assms(2) by (auto simp: LocateGop_def g Let_def wait_timed_out_def headers_in_def split: if_splits)
  then show ?thesis
    using SkipFrame_headers [OF h assms(2)] assms(2)
    by (simp add: GetFrames_def GetNextFrame_def v)
qed

section \<open>A stream, a player, its context and what it was handed\<close>

type_synonym ('e, 'c) live_state = "'e Stream \<times> 'e PlayerUser \<times> 'c \<times> 'e posted list"

abbreviation frames_of :: "'e posted list \<Rightarrow> 'e Packet list" where
  "frames_of ps \<equiv> List.map_filter posted_frame ps"

definition live_inv :: "'e Packet list \<Rightarrow> ('e, 'c) live_state \<Rightarrow> bool" where
  "live_inv L st \<longleftrightarrow> (case st of (s, u, c, ps) \<Rightarrow>
     stream_inv L s \<and> at_log L u \<and> headers_in L u \<and> (\<forall>p \<in> set ps. posted_packet p \<in> set L) \<and>
     (\<exists>is. sorted_wrt (<) is \<and> (\<forall>i \<in> set is. int i \<le> pl_out_index u) \<and>
           frames_of ps @ pl_out_frames u = map ((!) L) is))"


lemma map_filter_append [simp]: "List.map_filter f (xs @ ys) = List.map_filter f xs @ List.map_filter f ys"
  by (induction xs) (auto simp: List.map_filter_simps split: option.splits)

lemma frames_of_map [simp]: "frames_of (map PostedFrame ps) = ps"
  by (induction ps) (simp_all add: List.map_filter_simps)

lemma post_header_cases:
  assumes "post_header push p clear u c = Inr (u', c', qs)"
  obtains "u' = u" "qs = []" | "u' = clear u" "qs = [PostedHeader p]"
  using assms by (auto simp: post_header_def result_simps split: if_splits)

lemma post_pending_props:
  assumes "post_pending push pushs u c = Inr (u', c', qs, calls)"
  shows "pl_out_index u' = pl_out_index u \<and> frames_of qs @ pl_out_frames u' = pl_out_frames u \<and>
         (headers_in L u \<longrightarrow> headers_in L u') \<and>
         (headers_in L u \<and> set (pl_out_frames u) \<subseteq> set L \<longrightarrow> (\<forall>q \<in> set qs. posted_packet q \<in> set L))"
proof (cases "pl_meta u = None \<and> pl_audio_header u = None \<and> pl_video_header u = None")
  case True
  then show ?thesis
    using assms by (auto simp: post_pending_def result_simps headers_in_def List.map_filter_simps Let_def subset_iff split: if_splits)
next
  case False
  then obtain p clear where p: "post_header push p clear u c = Inr (u', c', qs)" "headers_in L u \<longrightarrow> p \<in> set L"
    and clear: "pl_out_index (clear u) = pl_out_index u" "pl_out_frames (clear u) = pl_out_frames u"
      "headers_in L u \<longrightarrow> headers_in L (clear u)"
    using assms
  proof (cases "pl_meta u")
    case (Some p)
    with assms show ?thesis
      by (intro that [of p "\<lambda>u. u\<lparr>pl_meta := None\<rparr>"]) (auto simp: post_pending_def result_simps headers_in_def)
  next
    case m: None
    show ?thesis
    proof (cases "pl_audio_header u")
      case (Some p)
      with m assms show ?thesis
        by (intro that [of p "\<lambda>u. u\<lparr>pl_audio_header := None\<rparr>"]) (auto simp: post_pending_def result_simps headers_in_def)
    next
      case a: None
      with m False obtain p where "pl_video_header u = Some p" by auto
      with m a assms show ?thesis
        by (intro that [of p "\<lambda>u. u\<lparr>pl_video_header := None\<rparr>"]) (auto simp: post_pending_def result_simps headers_in_def)
    qed
  qed
  from p(1) show ?thesis
    by (rule post_header_cases) (use p(2) clear in \<open>auto simp: List.map_filter_simps\<close>)
qed

lemma activate_inv:
  assumes "live_inv L (s, u, c, ps)" and "PostFrames push pushs now s u c = Inr (r, u', c', qs, calls)"
  shows "live_inv L (s, u', c', ps @ qs)"
proof (cases "st_ready s \<and> HasMedia s")
  case False
  then show ?thesis using assms by (auto simp: PostFrames_def)
next
  case True
  let ?v = "GetFrames now s u"
  have post: "post_pending push pushs ?v c = Inr (u', c', qs, calls)"
    using assms(2) True by (auto simp: PostFrames_def result_simps)
  have s: "stream_inv L s" "at_log L u" "headers_in L u" "\<forall>p \<in> set ps. posted_packet p \<in> set L"
    using assms(1) by (simp_all add: live_inv_def)
  from assms(1) obtain "is" where i: "sorted_wrt (<) is" "\<forall>i \<in> set is. int i \<le> pl_out_index u"
    "frames_of ps @ pl_out_frames u = map ((!) L) is" by (auto simp: live_inv_def)
  have cont: "continues L u ?v" by (rule GetFrames_continues [OF s(1,2)])
  have hdr: "headers_in L ?v" by (rule GetFrames_headers [OF s(1,3)])
  obtain js where js: "sorted_wrt (<) js" "\<forall>i \<in> set js. int i \<le> pl_out_index ?v"
    "frames_of ps @ pl_out_frames ?v = map ((!) L) js"
  proof (cases "pl_out_frames ?v = pl_out_frames u")
    case True
    then show ?thesis using i cont by (intro that [of "is"]) (auto simp: continues_def)
  next
    case False
    with cont obtain r where r: "pl_out_frames u = []" "pl_out_index u < int r" "r < length L"
      "pl_out_frames ?v = take 10 (drop r L)" "pl_out_index ?v = int (r + length (pl_out_frames ?v)) - 1"
      by (auto simp: continues_def)
    let ?n = "length (pl_out_frames ?v)"
    have "pl_out_frames ?v = map ((!) L) [r ..< r + ?n]"
      using r(3,4) by (auto intro!: nth_equalityI)
    moreover have "sorted_wrt (<) (is @ [r ..< r + ?n])"
      using i(1,2) r(2) by (fastforce simp: sorted_wrt_append)
    ultimately show ?thesis
      using i r by (intro that [of "is @ [r ..< r + ?n]"]) force+
  qed
  have "set (pl_out_frames ?v) \<subseteq> set L"
  proof -
    have "set (map ((!) L) js) \<subseteq> set L"
      using js(2) cont by (fastforce simp: continues_def at_log_def)
    then show ?thesis using js(3) by (metis Un_subset_iff set_append)
  qed
  note post_pending_props [OF post, of L]
  then show ?thesis
    using s js cont hdr \<open>set (pl_out_frames ?v) \<subseteq> set L\<close>
    by (auto simp: live_inv_def continues_def at_log_def)
qed

lemma live_inv_snoc:
  assumes "live_inv L (s, u, c, ps)" and "stream_inv (L @ [q]) s'"
  shows "live_inv (L @ [q]) (s', u, c, ps)"
proof -
  from assms(1) obtain "is" where i: "sorted_wrt (<) is" "\<forall>i \<in> set is. int i \<le> pl_out_index u"
    "frames_of ps @ pl_out_frames u = map ((!) L) is" and u: "at_log L u" by (auto simp: live_inv_def)
  have "map ((!) (L @ [q])) is = map ((!) L) is"
    using i(2) u by (auto simp: at_log_def nth_append)
  with i have "\<exists>is. sorted_wrt (<) is \<and> (\<forall>i \<in> set is. int i \<le> pl_out_index u) \<and>
      frames_of ps @ pl_out_frames u = map ((!) (L @ [q])) is" by metis
  moreover have "at_log (L @ [q]) u \<and> headers_in (L @ [q]) u \<and> (\<forall>p \<in> set ps. posted_packet p \<in> set (L @ [q]))"
    using assms(1) by (auto simp: live_inv_def at_log_def headers_in_def)
  ultimately show ?thesis using assms(2) unfolding live_inv_def prod.case by blast
qed

end
