(* ===== verification/LiveInv.thy ===== *)
theory LiveInv
  imports LiveService Player
begin

text \<open>
  What every operation of the service keeps: the players of a session are exactly the player
  users created in it that have not been closed, a session that is no longer registered has
  none, and a session's publisher is open unless a puller provided it.
\<close>

section \<open>Closing users\<close>

lemma set_destroyed_id [simp]: "destroyed u \<Longrightarrow> set_destroyed u = u"
  by (cases u) (simp_all add: User.truncate_def)

definition marked :: "nat set \<Rightarrow> 'e user_heap \<Rightarrow> 'e user_heap" where
  "marked A U = (\<lambda>i. if i \<in> A then set_destroyed (U i) else U i)"

lemma marked_simps [simp]:
  "marked {} U = U"
  "user_type (marked A U i) = user_type (U i)" "user_conn (marked A U i) = user_conn (U i)"
  "is_player (marked A U i) = is_player (U i)"
  "destroyed (marked A U i) \<longleftrightarrow> destroyed (U i) \<or> i \<in> A"
  "i \<notin> A \<Longrightarrow> marked A U i = U i"
  "marked A (marked B U) = marked (A \<union> B) U"
  by (auto simp: marked_def fun_eq_iff)

lemma marked_single: "U(i := set_destroyed (U i)) = marked {i} U"
  by (auto simp: marked_def)

lemma obj_Close_marked [simp]: "obj_Close (marked A U i) = obj_Close (U i)"
  by (auto simp: marked_def obj_Close_def User_Close_def)

definition live_player :: "'e user_obj \<Rightarrow> bool" where
  "live_player u \<longleftrightarrow> is_player u \<and> \<not> destroyed u"

lemma close_players_open:
  assumes "distinct is" and "\<forall>i \<in> set is. \<not> destroyed (U i) \<and> \<not> is_publish_type (user_type (U i))"
  shows "close_players now is (s, U) =
           ((s\<lparr>ss_player_live_time := (if is = [] then ss_player_live_time s else now)\<rparr>, marked (set is) U),
            concat (map (\<lambda>i. obj_Close (U i)) is))"
  using assms
proof (induction "is" arbitrary: s U)
  case Nil
  then show ?case by simp
next
  case (Cons i "is")
  have "\<forall>j \<in> set is. \<not> destroyed (marked {i} U j) \<and> \<not> is_publish_type (user_type (marked {i} U j))"
    using Cons.prems by auto
  with Cons.prems Cons.IH [of "marked {i} U" "s\<lparr>ss_player_live_time := now\<rparr>"] show ?case
    by (auto simp: CloseUserNoLock_def Let_def marked_single)
qed

text \<open>The users a cleared session closes: its publisher, if it is open, then its players.\<close>

definition open_publisher :: "'e Session \<Rightarrow> 'e user_heap \<Rightarrow> nat list" where
  "open_publisher s U = (case ss_publisher s of Some p \<Rightarrow> if destroyed (U p) then [] else [p] | None \<Rightarrow> [])"

definition cleared_publisher :: "'e Session \<Rightarrow> 'e user_heap \<Rightarrow> nat option" where
  "cleared_publisher s U =
     (case ss_publisher s of
        Some p \<Rightarrow> if \<not> destroyed (U p) \<and> is_publish_type (user_type (U p)) then None else Some p
      | None \<Rightarrow> None)"

definition players_open :: "'e Session \<Rightarrow> 'e user_heap \<Rightarrow> bool" where
  "players_open s U \<longleftrightarrow>
     distinct (ss_players s) \<and> (\<forall>i \<in> set (ss_players s). \<not> destroyed (U i) \<and> \<not> is_publish_type (user_type (U i))) \<and>
     (\<forall>p. ss_publisher s = Some p \<longrightarrow> p \<notin> set (ss_players s))"

lemma Session_Clear_open:
  assumes "players_open s U"
  obtains s' where "Session_Clear now (s, U) =
      ((s', marked (set (open_publisher s U) \<union> set (ss_players s)) U),
       concat (map (\<lambda>i. obj_Close (U i)) (open_publisher s U @ ss_players s)))"
    "ss_players s' = []" "ss_publisher s' = cleared_publisher s U" "ss_name s' = ss_name s" "ss_pull s' = ss_pull s"
    "ss_stream s' = ss_stream s" "ss_app_info s' = ss_app_info s"
proof (cases "open_publisher s U")
  case Nil
  then have "Session_Clear now (s, U) =
      (case close_players now (ss_players s) (s, U) of ((s, U), ds) \<Rightarrow> ((s\<lparr>ss_players := []\<rparr>, U), ds))"
    by (auto simp: Session_Clear_def open_publisher_def CloseUserNoLock_def split: option.splits if_splits)
  moreover have "cleared_publisher s U = ss_publisher s"
    using Nil by (auto simp: open_publisher_def cleared_publisher_def split: option.splits if_splits)
  ultimately show ?thesis
    using assms that by (simp add: close_players_open players_open_def Nil)
next
  case (Cons p ps)
  then have p: "ss_publisher s = Some p" "\<not> destroyed (U p)" "open_publisher s U = [p]"
    by (auto simp: open_publisher_def split: option.splits if_splits)
  let ?s = "if is_publish_type (user_type (U p)) then s\<lparr>ss_publisher := None\<rparr> else s\<lparr>ss_player_live_time := now\<rparr>"
  have "CloseUserNoLock now p (s, U) = ((?s, marked {p} U), obj_Close (U p))"
    using p by (simp add: CloseUserNoLock_def Let_def marked_single IsPublishing_def)
  moreover have "ss_players ?s = ss_players s" by simp
  moreover have "\<forall>i \<in> set (ss_players s). \<not> destroyed (marked {p} U i) \<and> \<not> is_publish_type (user_type (marked {p} U i))"
    using assms p(1) by (auto simp: players_open_def)
  ultimately have "Session_Clear now (s, U) =
      ((?s\<lparr>ss_player_live_time := (if ss_players s = [] then ss_player_live_time ?s else now), ss_players := []\<rparr>,
        marked (insert p (set (ss_players s))) U), concat (map (\<lambda>i. obj_Close (U i)) (p # ss_players s)))"
    using assms p(1) by (simp add: Session_Clear_def close_players_open players_open_def insert_commute Un_commute
        flip: insert_is_Un)
  then show ?thesis
    using that [of "?s\<lparr>ss_player_live_time := (if ss_players s = [] then ss_player_live_time ?s else now), ss_players := []\<rparr>"] p
    by (auto simp: cleared_publisher_def)
qed

section \<open>The invariant\<close>

definition session_ok :: "(nat \<Rightarrow> nat) \<Rightarrow> nat \<Rightarrow> 'e user_heap \<Rightarrow> nat \<Rightarrow> 'e Session \<Rightarrow> bool" where
  "session_ok own nu U sid s \<longleftrightarrow>
     distinct (ss_players s) \<and> set (ss_players s) = {i. i < nu \<and> own i = sid \<and> live_player (U i)} \<and>
     (\<forall>p. ss_publisher s = Some p \<longrightarrow>
        p < nu \<and> own p = sid \<and> \<not> is_player (U p) \<and> (destroyed (U p) \<longrightarrow> \<not> is_publish_type (user_type (U p))))"

definition users_ok :: "'e Live \<Rightarrow> bool" where
  "users_ok L \<longleftrightarrow>
     (\<forall>i < lv_next_user L. lv_owner L i < lv_next_session L \<and>
        (is_player (lv_users L i) \<longrightarrow> \<not> is_publish_type (user_type (lv_users L i)))) \<and>
     (\<forall>c i. lv_ctx L c = Some i \<longrightarrow> i < lv_next_user L \<and> user_conn (lv_users L i) = Some c)"

definition registry_ok :: "'e Live \<Rightarrow> bool" where
  "registry_ok L \<longleftrightarrow>
     distinct (map fst (lv_sessions L)) \<and>
     (\<forall>(name, sid) \<in> set (lv_sessions L).
        sid < lv_next_session L \<and> ss_name (lv_objs L sid) = name \<and> length (SplitString name ''/'') = 3) \<and>
     (\<forall>sid < lv_next_session L. sid \<notin> snd ` set (lv_sessions L) \<longrightarrow> ss_players (lv_objs L sid) = [])"

definition service_inv :: "'e Live \<Rightarrow> bool" where
  "service_inv L \<longleftrightarrow>
     registry_ok L \<and> users_ok L \<and>
     (\<forall>sid < lv_next_session L. session_ok (lv_owner L) (lv_next_user L) (lv_users L) sid (lv_objs L sid))"

lemma service_inv_new: "service_inv (Live_new cfg)"
  by (simp add: service_inv_def registry_ok_def users_ok_def Live_new_def)

lemma session_ok_cong:
  assumes "\<And>i. own i = sid \<Longrightarrow> U' i = U i"
  shows "session_ok own nu U' sid s \<longleftrightarrow> session_ok own nu U sid s"
proof -
  have players: "{i. i < nu \<and> own i = sid \<and> live_player (U' i)} = {i. i < nu \<and> own i = sid \<and> live_player (U i)}"
    using assms by (intro Collect_cong) metis
  show ?thesis
  proof (cases "ss_publisher s")
    case None
    then show ?thesis by (simp add: session_ok_def players)
  next
    case (Some p)
    show ?thesis by (cases "own p = sid") (simp_all add: session_ok_def players Some assms [of p])
  qed
qed

lemma session_ok_marked:
  assumes "A \<subseteq> {i. own i = sid}" and "sid' \<noteq> sid"
  shows "session_ok own nu (marked A U) sid' s \<longleftrightarrow> session_ok own nu U sid' s"
  using assms by (intro session_ok_cong marked_simps(6)) auto

lemma session_ok_open:
  assumes "session_ok own nu U sid s" and "\<forall>i < nu. is_player (U i) \<longrightarrow> \<not> is_publish_type (user_type (U i))"
  shows "players_open s U"
  using assms by (auto simp: session_ok_def players_open_def live_player_def)

text \<open>A session operation that closes users of its own session, and may unregister it.\<close>

lemma service_on_session:
  assumes inv: "service_inv L" and sid: "sid < lv_next_session L"
    and f: "f (lv_objs L sid, lv_users L) = ((s', marked A (lv_users L)), cs)"
    and A: "A \<subseteq> {i. lv_owner L i = sid}" and name: "ss_name s' = ss_name (lv_objs L sid)"
    and ok: "session_ok (lv_owner L) (lv_next_user L) (marked A (lv_users L)) sid s'"
    and reg: "lv_sessions L' = lv_sessions L \<or>
                ss_players s' = [] \<and> (ss_name (lv_objs L sid), sid) \<in> set (lv_sessions L) \<and> lv_sessions L' = filter (\<lambda>(n, _). n \<noteq> ss_name (lv_objs L sid)) (lv_sessions L)"
    and L': "lv_objs L' = lv_objs L" "lv_users L' = lv_users L" "lv_owner L' = lv_owner L" "lv_ctx L' = lv_ctx L"
      "lv_next_user L' = lv_next_user L" "lv_next_session L' = lv_next_session L"
    and empty: "sid \<notin> snd ` set (lv_sessions L) \<Longrightarrow> ss_players s' = []"
  shows "service_inv (fst (on_session f sid L'))"
proof -
  let ?L = "fst (on_session f sid L')"
  have fields: "lv_objs ?L = (lv_objs L)(sid := s')" "lv_users ?L = marked A (lv_users L)" "lv_sessions ?L = lv_sessions L'"
    "lv_owner ?L = lv_owner L" "lv_ctx ?L = lv_ctx L" "lv_next_user ?L = lv_next_user L"
    "lv_next_session ?L = lv_next_session L"
    by (simp_all add: on_session_def L' f)
  have "users_ok ?L" using inv by (simp add: service_inv_def users_ok_def fields)
  moreover have "registry_ok ?L"
  proof -
    have r: "registry_ok L" using inv by (simp add: service_inv_def)
    have sub: "set (lv_sessions L') \<subseteq> set (lv_sessions L)" using reg by auto
    have "distinct (map fst (lv_sessions L'))" using reg r by (auto simp: registry_ok_def distinct_map_filter)
    moreover have "ss_players (lv_objs ?L sid') = []"
      if "sid' < lv_next_session L" "sid' \<notin> snd ` set (lv_sessions L')" for sid'
    proof (cases "sid' = sid")
      case True
      then show ?thesis using reg that(2) empty by (auto simp: fields)
    next
      case False
      have "sid' \<notin> snd ` set (lv_sessions L)"
      proof
        assume "sid' \<in> snd ` set (lv_sessions L)"
        then obtain n where n: "(n, sid') \<in> set (lv_sessions L)" by auto
        with reg that(2) have "n = ss_name (lv_objs L sid)" "(n, sid) \<in> set (lv_sessions L)" by (force simp: image_iff)+
        with n r False show False by (auto simp: registry_ok_def dest: eq_key_imp_eq_value)
      qed
      then show ?thesis using that(1) False r by (simp add: fields registry_ok_def)
    qed
    ultimately show ?thesis
      using r sub name by (fastforce simp: registry_ok_def fields)
  qed
  moreover have "session_ok (lv_owner ?L) (lv_next_user ?L) (lv_users ?L) sid' (lv_objs ?L sid')"
    if "sid' < lv_next_session L" for sid'
  proof (cases "sid' = sid")
    case True
    then show ?thesis using ok by (simp add: fields)
  next
    case False
    with that inv show ?thesis by (simp add: fields service_inv_def session_ok_marked [OF A])
  qed
  ultimately show ?thesis by (simp add: service_inv_def fields)
qed

section \<open>The operations\<close>

lemma service_inv_session:
  "service_inv L \<Longrightarrow> sid < lv_next_session L \<Longrightarrow>
     session_ok (lv_owner L) (lv_next_user L) (lv_users L) sid (lv_objs L sid)"
  by (simp add: service_inv_def)

lemma service_inv_registered:
  "service_inv L \<Longrightarrow> (name, sid) \<in> set (lv_sessions L) \<Longrightarrow>
     sid < lv_next_session L \<and> ss_name (lv_objs L sid) = name \<and> length (SplitString name ''/'') = 3"
  by (auto simp: service_inv_def registry_ok_def)

lemma service_inv_open: "service_inv L \<Longrightarrow> sid < lv_next_session L \<Longrightarrow> players_open (lv_objs L sid) (lv_users L)"
  by (rule session_ok_open [OF service_inv_session]) (auto simp: service_inv_def users_ok_def)

lemma session_ok_clear:
  assumes "session_ok own nu U sid s" and "ss_players s' = []" and "ss_publisher s' = cleared_publisher s U"
  shows "session_ok own nu (marked (set (open_publisher s U) \<union> set (ss_players s)) U) sid s'"
  using assms
  by (auto simp: session_ok_def live_player_def cleared_publisher_def split: option.splits if_splits)

lemma open_publisher_own: "session_ok own nu U sid s \<Longrightarrow> set (open_publisher s U) \<union> set (ss_players s) \<subseteq> {i. own i = sid}"
  by (auto simp: session_ok_def open_publisher_def split: option.splits if_splits)

lemma Clear_keeps:
  assumes "service_inv L" and "(name, sid) \<in> set (lv_sessions L)"
  shows "service_inv (fst (on_session (Session_Clear now) sid (L\<lparr>lv_sessions := filter (\<lambda>(n, _). n \<noteq> name) (lv_sessions L)\<rparr>)))"
proof -
  note reg = service_inv_registered [OF assms]
  then have ok: "session_ok (lv_owner L) (lv_next_user L) (lv_users L) sid (lv_objs L sid)"
    using service_inv_session [OF assms(1)] by simp
  from Session_Clear_open [OF service_inv_open [OF assms(1)]] reg obtain s' where
    s': "Session_Clear now (lv_objs L sid, lv_users L) =
      ((s', marked (set (open_publisher (lv_objs L sid) (lv_users L)) \<union> set (ss_players (lv_objs L sid))) (lv_users L)),
       concat (map (\<lambda>i. obj_Close (lv_users L i)) (open_publisher (lv_objs L sid) (lv_users L) @ ss_players (lv_objs L sid))))"
    "ss_players s' = []" "ss_publisher s' = cleared_publisher (lv_objs L sid) (lv_users L)"
    "ss_name s' = ss_name (lv_objs L sid)" by metis
  show ?thesis
    by (rule service_on_session [where f = "Session_Clear now", OF assms(1) _ s'(1)])
      (use reg assms s' session_ok_clear [OF ok s'(2,3)] open_publisher_own [OF ok] in auto)
qed

lemma CloseSession_keeps: "service_inv L \<Longrightarrow> service_inv (fst (CloseSession now name L))"
  by (auto simp: CloseSession_def split: option.split dest: map_of_SomeD intro: Clear_keeps)

lemma clear_sessions_keeps:
  assumes "service_inv L" and "set ns \<subseteq> set (lv_sessions L)" and "distinct (map fst ns)"
  shows "service_inv (fst (clear_sessions now ns L))"
  using assms
proof (induction now ns L rule: clear_sessions.induct)
  case (2 now name sid ns L)
  show ?case
  proof (cases "IsTimeout now (lv_objs L sid)")
    case True
    let ?L = "L\<lparr>lv_sessions := filter (\<lambda>(n, _). n \<noteq> name) (lv_sessions L)\<rparr>"
    obtain L1 as where L1: "on_session (Session_Clear now) sid ?L = (L1, as)" by fastforce
    have "service_inv L1" using Clear_keeps [of L name sid now] 2(3,4) L1 by simp
    moreover have "lv_sessions L1 = filter (\<lambda>(n, _). n \<noteq> name) (lv_sessions L)"
      using L1 by (auto simp: on_session_def split: prod.splits)
    ultimately have "service_inv (fst (clear_sessions now ns L1))"
      using 2(3-5) by (intro 2(1) [OF True L1 [symmetric]]) (auto simp: rev_image_eqI)
    then show ?thesis using True L1 by (cases "clear_sessions now ns L1") simp
  next
    case False
    then show ?thesis using 2 by simp
  qed
qed simp

lemma OnTimer_keeps: "service_inv L \<Longrightarrow> service_inv (fst (OnTimer now L))"
  unfolding OnTimer_def
  by (rule clear_sessions_keeps) (auto simp: service_inv_def registry_ok_def)

lemma CreateSession_keeps:
  assumes "service_inv L" and "CreateSession now name L = (r, L')"
  shows "service_inv L'" "\<And>sid. r = Some sid \<Longrightarrow> (name, sid) \<in> set (lv_sessions L')"
    "lv_users L' = lv_users L" "lv_owner L' = lv_owner L" "lv_ctx L' = lv_ctx L" "lv_next_user L' = lv_next_user L"
proof -
  have new: "service_inv (L\<lparr>lv_objs := (lv_objs L)(lv_next_session L := Session_new name app now),
      lv_next_session := lv_next_session L + 1, lv_sessions := lv_sessions L @ [(name, lv_next_session L)]\<rparr>)"
    if "map_of (lv_sessions L) name = None" "length (SplitString name ''/'') = 3" for app
  proof -
    let ?n = "lv_next_session L"
    have own: "lv_owner L i \<noteq> ?n" if "i < lv_next_user L" for i
      using assms(1) that by (fastforce simp: service_inv_def users_ok_def)
    have "session_ok (lv_owner L) (lv_next_user L) (lv_users L) ?n (Session_new name app now)"
      using own by (auto simp: session_ok_def Session_new_def)
    moreover have "sid \<noteq> ?n" if "(n, sid) \<in> set (lv_sessions L)" for n sid
      using assms(1) that by (auto simp: service_inv_def registry_ok_def)
    moreover have "name \<notin> fst ` set (lv_sessions L)" using that(1) by (simp add: map_of_eq_None_iff)
    ultimately show ?thesis
      using assms(1) that(2)
      by (auto simp: service_inv_def registry_ok_def users_ok_def less_Suc_eq Session_new_def)
  qed
  show "service_inv L'" using assms new by (auto simp: CreateSession_def Let_def split: option.splits if_splits)
  show "lv_users L' = lv_users L" "lv_owner L' = lv_owner L" "lv_ctx L' = lv_ctx L" "lv_next_user L' = lv_next_user L"
    using assms(2) by (auto simp: CreateSession_def Let_def split: option.splits if_splits)
  fix sid assume "r = Some sid"
  then show "(name, sid) \<in> set (lv_sessions L')"
    using assms(2) by (auto simp: CreateSession_def Let_def dest: map_of_SomeD split: option.splits if_splits)
qed

lemma CloseUser_keeps:
  assumes "service_inv L" and "i < lv_next_user L"
  shows "service_inv (fst (on_session (CloseUser now i) (lv_owner L i) L))"
proof -
  let ?sid = "lv_owner L i" let ?s = "lv_objs L ?sid" let ?U = "lv_users L"
  have sid: "?sid < lv_next_session L" using assms by (simp add: service_inv_def users_ok_def)
  note ok = service_inv_session [OF assms(1) sid]
  have pub: "is_player (?U i) \<longrightarrow> \<not> is_publish_type (user_type (?U i))"
    using assms by (simp add: service_inv_def users_ok_def)
  have empty: "ss_players ?s = []" if "?sid \<notin> snd ` set (lv_sessions L)"
    using assms(1) sid that by (simp add: service_inv_def registry_ok_def)
  obtain s' cs where c: "CloseUser now i (?s, ?U) = ((s', marked {i} ?U), cs)" "ss_name s' = ss_name ?s"
    "session_ok (lv_owner L) (lv_next_user L) (marked {i} ?U) ?sid s'" "ss_players ?s = [] \<Longrightarrow> ss_players s' = []"
  proof (cases "destroyed (?U i)")
    case True
    then have "marked {i} ?U = ?U" by (auto simp: marked_def)
    then show ?thesis using True ok by (intro that [of ?s "[]"]) (simp_all add: CloseUser_def)
  next
    case False
    let ?s' = "if is_publish_type (user_type (?U i)) then ?s\<lparr>ss_publisher := None\<rparr>
               else ?s\<lparr>ss_players := (if is_player (?U i) then removeAll i (ss_players ?s) else ss_players ?s),
                       ss_player_live_time := now\<rparr>"
    have "session_ok (lv_owner L) (lv_next_user L) (marked {i} ?U) ?sid ?s'"
      using ok pub by (auto simp: session_ok_def live_player_def distinct_removeAll)
    then show ?thesis
      using False that [of ?s' "obj_Close (?U i)"] by (auto simp: CloseUser_def Let_def marked_single)
  qed
  show ?thesis
    by (rule service_on_session [where f = "CloseUser now i", OF assms(1) sid c(1)]) (use c empty in auto)
qed

lemma SetPublisher_keeps:
  assumes "service_inv L" and "i < lv_next_user L" and "lv_owner L i = sid" "\<not> is_player (lv_users L i)"
    and "destroyed (lv_users L i) \<longrightarrow> \<not> is_publish_type (user_type (lv_users L i))"
  shows "service_inv (fst (on_session (SetPublisher i) sid L))"
proof -
  let ?s = "lv_objs L sid" let ?U = "lv_users L"
  have sid: "sid < lv_next_session L" using assms by (auto simp: service_inv_def users_ok_def)
  note ok = service_inv_session [OF assms(1) sid]
  define A where "A = (case ss_publisher ?s of Some j \<Rightarrow> if j = i \<or> destroyed (?U j) then {} else {j} | None \<Rightarrow> {})"
  let ?s' = "?s\<lparr>ss_publisher := Some i\<rparr>"
  have same: "?s' = ?s" if "ss_publisher ?s = Some i" using that by (cases ?s) simp
  obtain cs where c: "SetPublisher i (?s, ?U) = ((?s', marked A ?U), cs)"
  proof (cases "ss_publisher ?s")
    case None
    then show ?thesis by (intro that [of "[]"]) (simp add: SetPublisher_def A_def)
  next
    case (Some j)
    then show ?thesis
      using same by (intro that [of "if j = i \<or> destroyed (?U j) then [] else obj_Close (?U j)"])
        (simp add: SetPublisher_def A_def marked_single)
  qed
  have "A \<subseteq> {i. lv_owner L i = sid}" "i \<notin> A" "\<forall>j \<in> A. \<not> is_player (?U j)"
    using ok by (auto simp: A_def session_ok_def split: option.splits if_splits)
  moreover from this have "session_ok (lv_owner L) (lv_next_user L) (marked A ?U) sid ?s'"
    using ok assms(2-5) by (auto simp: session_ok_def live_player_def)
  moreover have "ss_players ?s = []" if "sid \<notin> snd ` set (lv_sessions L)"
    using assms(1) sid that by (simp add: service_inv_def registry_ok_def)
  ultimately show ?thesis
    by (intro service_on_session [where f = "SetPublisher i", OF assms(1) sid c]) simp_all
qed

lemma session_update_keeps:
  assumes "service_inv L" and "ss_players s' = ss_players (lv_objs L sid)"
    and "ss_publisher s' = ss_publisher (lv_objs L sid)" and "ss_name s' = ss_name (lv_objs L sid)"
  shows "service_inv (L\<lparr>lv_objs := (lv_objs L)(sid := s')\<rparr>)"
    "service_inv (L\<lparr>lv_objs := (lv_objs L)(sid := s'), lv_pulls := P\<rparr>)"
proof -
  have "session_ok own nu U sid s' \<longleftrightarrow> session_ok own nu U sid (lv_objs L sid)" for own nu U
    using assms(2,3) by (simp add: session_ok_def)
  moreover have "ss_players (((lv_objs L)(sid := s')) x) = ss_players (lv_objs L x)"
    "ss_name (((lv_objs L)(sid := s')) x) = ss_name (lv_objs L x)" for x
    using assms(2,4) by simp_all
  ultimately show "service_inv (L\<lparr>lv_objs := (lv_objs L)(sid := s')\<rparr>)"
    "service_inv (L\<lparr>lv_objs := (lv_objs L)(sid := s'), lv_pulls := P\<rparr>)"
    using assms(1) by (auto simp: service_inv_def registry_ok_def users_ok_def simp del: fun_upd_apply split: prod.splits)
      (auto simp: fun_upd_apply)
qed

lemma relay_acts_keeps: "service_inv L \<Longrightarrow> service_inv (fst (relay_acts now sid acts L))"
proof (induction now sid acts L rule: relay_acts.induct)
  case (2 now sid a as L)
  let ?step = "case a of CloseThisSession \<Rightarrow> CloseSession now (ss_name (lv_objs L sid)) L | _ \<Rightarrow> (L, [RelayAct sid a])"
  obtain L1 bs where L1: "?step = (L1, bs)" by fastforce
  have "service_inv L1"
    using 2(2) L1 CloseSession_keeps [of L now "ss_name (lv_objs L sid)"] by (auto split: relay_act.splits)
  with 2(1) [OF L1 [symmetric]] L1 show ?case by (simp split: prod.split) (metis fst_conv)
qed simp

lemma on_relay_keeps:
  assumes "service_inv L" and "on_relay f now sid L = Inr (L', as)"
  shows "service_inv L'"
proof -
  from assms(2) obtain ts r acts where
    "relay_acts now sid acts (L\<lparr>lv_objs := (lv_objs L)(sid := (lv_objs L sid)\<lparr>ss_pull := Some r\<rparr>),
       lv_pulls := (lv_pulls L)(app_key (ss_name (lv_objs L sid)) := ts)\<rparr>) = (L', as)"
    by (auto simp: on_relay_def Let_def result_simps)
  moreover have "service_inv (L\<lparr>lv_objs := (lv_objs L)(sid := (lv_objs L sid)\<lparr>ss_pull := Some r\<rparr>),
       lv_pulls := (lv_pulls L)(app_key (ss_name (lv_objs L sid)) := ts)\<rparr>)"
    by (rule session_update_keeps(2) [OF assms(1)]) simp_all
  ultimately show ?thesis using relay_acts_keeps by (metis fst_conv)
qed

lemma new_user_fields [simp]:
  "fst (new_user conn sid u L) = lv_next_user L" "lv_sessions (snd (new_user conn sid u L)) = lv_sessions L"
  "lv_objs (snd (new_user conn sid u L)) = lv_objs L"
  "lv_next_session (snd (new_user conn sid u L)) = lv_next_session L"
  "lv_users (snd (new_user conn sid u L)) = (lv_users L)(lv_next_user L := u)"
  "lv_owner (snd (new_user conn sid u L)) = (lv_owner L)(lv_next_user L := sid)"
  "lv_next_user (snd (new_user conn sid u L)) = Suc (lv_next_user L)"
  "lv_ctx (snd (new_user conn sid u L)) = (lv_ctx L)(conn \<mapsto> lv_next_user L)"
  by (simp_all add: new_user_def Let_def)

lemma session_ok_new:
  assumes "session_ok own nu U sid' s" and "sid' = sid \<Longrightarrow> \<not> live_player u"
  shows "session_ok (own(nu := sid)) (Suc nu) (U(nu := u)) sid' s"
  using assms by (auto simp: session_ok_def less_Suc_eq)

lemma session_ok_insert:
  assumes "session_ok own nu U sid s" and "live_player u"
  shows "session_ok (own(nu := sid)) (Suc nu) (U(nu := u)) sid (insert_player nu s)"
  using assms by (auto simp: session_ok_def less_Suc_eq insert_player_def)

lemma users_ok_new:
  assumes "users_ok L" and "sid < lv_next_session L" and "user_conn u = Some conn"
    and "is_player u \<longrightarrow> \<not> is_publish_type (user_type u)"
  shows "users_ok (snd (new_user conn sid u L))"
  using assms by (auto simp: users_ok_def less_Suc_eq)

lemma publisher_keeps:
  assumes "service_inv L" and "sid < lv_next_session L" and "user_conn u = Some conn" and "\<not> is_player u"
  shows "service_inv (snd (new_user conn sid u L))"
  using assms users_ok_new [of L sid u conn]
  by (auto simp: service_inv_def registry_ok_def live_player_def intro!: session_ok_new)

lemma player_keeps:
  assumes "service_inv L" and "(name, sid) \<in> set (lv_sessions L)" and "user_conn u = Some conn"
    and "live_player u" and "\<not> is_publish_type (user_type u)"
  defines "L1 \<equiv> snd (new_user conn sid u L)"
  shows "service_inv (L1\<lparr>lv_objs := (lv_objs L1)(sid := insert_player (lv_next_user L) (lv_objs L1 sid))\<rparr>)"
proof -
  define L2 where "L2 = L1\<lparr>lv_objs := (lv_objs L1)(sid := insert_player (lv_next_user L) (lv_objs L1 sid))\<rparr>"
  have sid: "sid < lv_next_session L" using service_inv_registered [OF assms(1,2)] by simp
  have "users_ok L1" unfolding L1_def
    by (rule users_ok_new) (use assms sid in \<open>auto simp: service_inv_def\<close>)
  then have "users_ok L2" by (simp add: users_ok_def L2_def)
  moreover have "registry_ok L2"
  proof -
    have r: "registry_ok L" using assms(1) by (simp add: service_inv_def)
    have names: "ss_name (lv_objs L2 x) = ss_name (lv_objs L x)" for x by (simp add: L2_def L1_def insert_player_def)
    have others: "ss_players (lv_objs L2 x) = ss_players (lv_objs L x)" if "x \<noteq> sid" for x using that by (simp add: L2_def L1_def)
    have same: "lv_sessions L2 = lv_sessions L" "lv_next_session L2 = lv_next_session L" by (simp_all add: L2_def L1_def)
    have "x \<noteq> sid" if "x \<notin> snd ` set (lv_sessions L)" for x using that assms(2) by force
    then show ?thesis using r by (auto simp: registry_ok_def names others same)
  qed
  moreover have "session_ok (lv_owner L2) (lv_next_user L2) (lv_users L2) sid' (lv_objs L2 sid')"
    if "sid' < lv_next_session L" for sid'
    using service_inv_session [OF assms(1) that] assms(4) session_ok_insert
    by (cases "sid' = sid") (simp_all add: L2_def L1_def session_ok_new session_ok_insert)
  ultimately have "service_inv L2" by (simp add: service_inv_def L2_def L1_def)
  then show ?thesis by (simp add: L2_def)
qed

lemma created_users:
  "CreatePlayerUser conn peer name param type now s = Some u \<Longrightarrow>
     user_conn u = Some conn \<and> live_player u \<and> user_type u = type \<and> name = ss_name s"
  "CreatePublishUser conn peer name param type now s = Some u \<Longrightarrow>
     user_conn u = Some conn \<and> \<not> is_player u \<and> \<not> destroyed u \<and> user_type u = type"
  by (auto simp: CreatePlayerUser_def CreatePublishUser_def named_user_def User_new_def PlayerUser_init_def
      User.defs PlayerUser.defs live_player_def Let_def split: if_splits)

lemma AddPlayer_keeps:
  assumes "service_inv (L\<lparr>lv_objs := (lv_objs L)(sid := insert_player i (lv_objs L sid))\<rparr>)"
    and "AddPlayer now sid i L = Inr (L', as)"
  shows "service_inv L'"
  using assms by (auto simp: AddPlayer_def Let_def result_simps split: if_splits dest: on_relay_keeps)

lemma OnPlay_keeps:
  assumes "service_inv L" and "OnPlay now conn peer name param L = Inr (ok, L', as)"
  shows "service_inv L'"
proof -
  obtain r L1 where c: "CreateSession now name L = (r, L1)" by fastforce
  note c1 = CreateSession_keeps [OF assms(1) c]
  show ?thesis
  proof (cases r)
    case None
    then show ?thesis using assms(2) c c1 by (auto simp: OnPlay_def)
  next
    case (Some sid)
    show ?thesis
    proof (cases "CreatePlayerUser conn peer name param kUserTypePlayerRtmp now (lv_objs L1 sid)")
      case None
      then show ?thesis using assms(2) c c1 Some by (auto simp: OnPlay_def)
    next
      case u: (Some u)
      then have "service_inv (snd (new_user conn sid u L1)\<lparr>lv_objs := (lv_objs (snd (new_user conn sid u L1)))
          (sid := insert_player (lv_next_user L1) (lv_objs (snd (new_user conn sid u L1)) sid))\<rparr>)"
        using created_users(1) [OF u] by (intro player_keeps [OF c1(1) c1(2) [OF Some]])
          (auto simp: is_publish_type_def less_eq_UserType_def)
      moreover have "AddPlayer now sid (lv_next_user L1) (snd (new_user conn sid u L1)) = Inr (L', as)"
        using assms(2) c Some u by (auto simp: OnPlay_def result_simps new_user_def Let_def)
      ultimately show ?thesis by (rule AddPlayer_keeps)
    qed
  qed
qed

lemma publish_new_keeps:
  assumes "service_inv L" and "sid < lv_next_session L"
    and "CreatePublishUser conn peer name param type now (lv_objs L sid) = Some u"
  shows "service_inv (fst (on_session (SetPublisher (lv_next_user L)) sid (snd (new_user conn sid u L))))"
  using created_users(2) [OF assms(3)]
  by (intro SetPublisher_keeps publisher_keeps [OF assms(1,2)]) auto

lemma OnPublish_keeps:
  assumes "service_inv L"
  shows "service_inv (fst (snd (OnPublish now conn peer name param L)))"
proof -
  obtain r L1 where c: "CreateSession now name L = (r, L1)" by fastforce
  note c1 = CreateSession_keeps [OF assms(1) c]
  show ?thesis
  proof (cases r)
    case None
    then show ?thesis using c c1 by (simp add: OnPublish_def)
  next
    case (Some sid)
    with c1 service_inv_registered have sid: "sid < lv_next_session L1" by metis
    show ?thesis
      using c c1(1) Some publish_new_keeps [OF c1(1) sid, of conn peer name param kUserTypePublishRtmp now]
      by (cases "CreatePublishUser conn peer name param kUserTypePublishRtmp now (lv_objs L1 sid)")
        (auto simp: OnPublish_def new_user_def Let_def split: prod.split)
  qed
qed

lemma service_inv_ctx:
  "service_inv L \<Longrightarrow> lv_ctx L c = Some i \<Longrightarrow> i < lv_next_user L \<and> user_conn (lv_users L i) = Some c"
  by (simp add: service_inv_def users_ok_def)

lemma OnConnectionDestroy_keeps: "service_inv L \<Longrightarrow> service_inv (fst (OnConnectionDestroy now conn L))"
  by (simp add: OnConnectionDestroy_def CloseUser_keeps service_inv_ctx split: option.split)

lemma stream_recv_keeps: "service_inv L \<Longrightarrow> stream_recv now sid p L = Inr (L', as) \<Longrightarrow> service_inv L'"
  by (auto simp: stream_recv_def Let_def result_simps intro!: session_update_keeps(1))

text \<open>Posting frames changes the state a player adds to a user, and nothing else.\<close>

lemma truncate_updates [simp]:
  "User.truncate (u\<lparr>pl_meta := v_meta\<rparr>) = User.truncate u"
  "User.truncate (u\<lparr>pl_audio_header := v_audio_header\<rparr>) = User.truncate u"
  "User.truncate (u\<lparr>pl_video_header := v_video_header\<rparr>) = User.truncate u"
  "User.truncate (u\<lparr>pl_wait_meta := v_wait_meta\<rparr>) = User.truncate u"
  "User.truncate (u\<lparr>pl_wait_audio := v_wait_audio\<rparr>) = User.truncate u"
  "User.truncate (u\<lparr>pl_wait_video := v_wait_video\<rparr>) = User.truncate u"
  "User.truncate (u\<lparr>pl_video_header_index := v_video_header_index\<rparr>) = User.truncate u"
  "User.truncate (u\<lparr>pl_audio_header_index := v_audio_header_index\<rparr>) = User.truncate u"
  "User.truncate (u\<lparr>pl_meta_index := v_meta_index\<rparr>) = User.truncate u"
  "User.truncate (u\<lparr>pl_time_corrector := v_time_corrector\<rparr>) = User.truncate u"
  "User.truncate (u\<lparr>pl_wait_timeout := v_wait_timeout\<rparr>) = User.truncate u"
  "User.truncate (u\<lparr>pl_out_version := v_out_version\<rparr>) = User.truncate u"
  "User.truncate (u\<lparr>pl_out_frame_timestamp := v_out_frame_timestamp\<rparr>) = User.truncate u"
  "User.truncate (u\<lparr>pl_out_frames := v_out_frames\<rparr>) = User.truncate u"
  "User.truncate (u\<lparr>pl_out_index := v_out_index\<rparr>) = User.truncate u"
  by (simp_all add: User.truncate_def)

lemma next_frames_base [simp]: "User.truncate (next_frames n s i u) = User.truncate u"
  by (induction n s i u rule: next_frames.induct) (auto split: option.splits)

lemma take_headers_base [simp]: "User.truncate (take_headers i s u) = User.truncate u"
  by (simp add: take_headers_def take_meta_def take_audio_def take_video_def Let_def split: option.splits)

lemma SkipFrame_base [simp]: "User.truncate (SkipFrame s u) = User.truncate u"
  by (simp add: SkipFrame_def Let_def split: option.splits prod.splits)

lemma wait_timed_out_base [simp]: "User.truncate (wait_timed_out now u) = User.truncate u"
  by (simp add: wait_timed_out_def)

lemma LocateGop_base: "LocateGop now s u = (found, u') \<Longrightarrow> User.truncate u' = User.truncate u"
  by (auto simp: LocateGop_def Let_def split: prod.splits if_splits)

lemma GetFrames_base [simp]: "User.truncate (GetFrames now s u) = User.truncate u"
  by (auto simp: GetFrames_def GetNextFrame_def split: prod.split dest: LocateGop_base)

lemma post_header_base:
  assumes "post_header push p clear u c = Inr (u', c', qs)" and "User.truncate (clear u) = User.truncate u"
  shows "User.truncate u' = User.truncate u"
  using assms by (auto simp: post_header_def result_simps split: if_splits)

lemma post_pending_base: "post_pending push pushs u c = Inr (u', c', qs, calls) \<Longrightarrow> User.truncate u' = User.truncate u"
  by (auto simp: post_pending_def result_simps Let_def split: option.splits if_splits
      dest!: post_header_base)

lemma PostFrames_base: "PostFrames push pushs now s u c = Inr (r, u', c', qs, calls) \<Longrightarrow> User.truncate u' = User.truncate u"
  by (auto simp: PostFrames_def result_simps split: if_splits dest!: post_pending_base)

text \<open>
  \<open>OnTimer\<close>: of the registered sessions those stay that have not timed out, untouched; each
  of the others closes its publisher, if that is open, and its players, every one once.
\<close>

definition closing :: "'e Session \<Rightarrow> 'e user_heap \<Rightarrow> nat list" where
  "closing s U = open_publisher s U @ ss_players s"

lemma closing_own: "session_ok own nu U sid s \<Longrightarrow> set (closing s U) \<subseteq> {i. own i = sid}"
  using open_publisher_own [of own nu U sid s] by (simp add: closing_def)

lemma closing_marked:
  assumes "session_ok own nu U sid' s" and "A \<subseteq> {i. own i = sid}" and "sid' \<noteq> sid"
  shows "closing s (marked A U) = closing s U"
  using assms by (fastforce simp: closing_def open_publisher_def session_ok_def split: option.split)

lemma Clear_registered:
  assumes "service_inv L" and "(name, sid) \<in> set (lv_sessions L)"
    and "on_session (Session_Clear now) sid (L\<lparr>lv_sessions := filter (\<lambda>(n, _). n \<noteq> name) (lv_sessions L)\<rparr>) = (L', as)"
  shows "as = map ConnCall (concat (map (\<lambda>i. obj_Close (lv_users L i)) (closing (lv_objs L sid) (lv_users L))))"
    "lv_users L' = marked (set (closing (lv_objs L sid) (lv_users L))) (lv_users L)"
    "lv_sessions L' = filter (\<lambda>(n, _). n \<noteq> name) (lv_sessions L)"
    "\<And>sid'. sid' \<noteq> sid \<Longrightarrow> lv_objs L' sid' = lv_objs L sid'" "ss_players (lv_objs L' sid) = []"
    "lv_owner L' = lv_owner L" "lv_next_user L' = lv_next_user L" "lv_next_session L' = lv_next_session L"
proof -
  have "sid < lv_next_session L" using service_inv_registered [OF assms(1,2)] by simp
  from Session_Clear_open [OF service_inv_open [OF assms(1) this]] obtain s' where
    "Session_Clear now (lv_objs L sid, lv_users L) =
      ((s', marked (set (open_publisher (lv_objs L sid) (lv_users L)) \<union> set (ss_players (lv_objs L sid))) (lv_users L)),
       concat (map (\<lambda>i. obj_Close (lv_users L i)) (open_publisher (lv_objs L sid) (lv_users L) @ ss_players (lv_objs L sid))))"
    "ss_players s' = []" by metis
  with assms(3) show "as = map ConnCall (concat (map (\<lambda>i. obj_Close (lv_users L i)) (closing (lv_objs L sid) (lv_users L))))"
    "lv_users L' = marked (set (closing (lv_objs L sid) (lv_users L))) (lv_users L)"
    "lv_sessions L' = filter (\<lambda>(n, _). n \<noteq> name) (lv_sessions L)"
    "\<And>sid'. sid' \<noteq> sid \<Longrightarrow> lv_objs L' sid' = lv_objs L sid'" "ss_players (lv_objs L' sid) = []"
    "lv_owner L' = lv_owner L" "lv_next_user L' = lv_next_user L" "lv_next_session L' = lv_next_session L"
    by (auto simp: on_session_def closing_def)
qed

definition timed_out :: "int \<Rightarrow> 'e Live \<Rightarrow> string \<times> nat \<Rightarrow> bool" where
  "timed_out now L = (\<lambda>(_, sid). IsTimeout now (lv_objs L sid))"

definition closing_all :: "'e Live \<Rightarrow> (string \<times> nat) list \<Rightarrow> nat list" where
  "closing_all L ns = concat (map (\<lambda>(_, sid). closing (lv_objs L sid) (lv_users L)) ns)"

lemma clear_sessions_effect:
  assumes "service_inv L" and "set ns \<subseteq> set (lv_sessions L)" and "distinct (map fst ns)"
    and "clear_sessions now ns L = (L', as)"
  defines "out \<equiv> filter (timed_out now L) ns"
  shows "lv_sessions L' = filter (\<lambda>e. e \<notin> set out) (lv_sessions L) \<and>
     lv_users L' = marked (set (closing_all L out)) (lv_users L) \<and>
     as = map ConnCall (concat (map (\<lambda>i. obj_Close (lv_users L i)) (closing_all L out))) \<and>
     (\<forall>sid. sid \<notin> snd ` set out \<longrightarrow> lv_objs L' sid = lv_objs L sid)"
  using assms(1-4) unfolding out_def
proof (induction ns arbitrary: L as)
  case Nil
  then show ?case by (simp add: closing_all_def)
next
  case (Cons e ns)
  obtain name sid where e: "e = (name, sid)" by fastforce
  show ?case
  proof (cases "IsTimeout now (lv_objs L sid)")
    case False
    then show ?thesis using Cons by (simp add: e timed_out_def)
  next
    case True
    have reg: "(name, sid) \<in> set (lv_sessions L)" using Cons.prems(2) by (simp add: e)
    let ?L = "L\<lparr>lv_sessions := filter (\<lambda>(n, _). n \<noteq> name) (lv_sessions L)\<rparr>"
    obtain L1 as1 where 1: "on_session (Session_Clear now) sid ?L = (L1, as1)" by fastforce
    obtain as2 where 2: "clear_sessions now ns L1 = (L', as2)" "as = as1 @ as2"
      using Cons.prems(4) True by (cases "clear_sessions now ns L1") (simp add: e 1)
    note c = Clear_registered [OF Cons.prems(1) reg 1]
    have inv1: "service_inv L1" using Clear_keeps [OF Cons.prems(1) reg, of now] 1 by simp
    have other: "sid' \<noteq> sid \<and> sid' < lv_next_session L" if "(n', sid') \<in> set ns" for n' sid'
    proof -
      have "(n', sid') \<in> set (lv_sessions L)" using that Cons.prems(2) by auto
      from service_inv_registered [OF Cons.prems(1) this] service_inv_registered [OF Cons.prems(1) reg]
      show ?thesis using Cons.prems(3) that by (auto simp: e rev_image_eqI)
    qed
    have own: "set (closing (lv_objs L sid) (lv_users L)) \<subseteq> {i. lv_owner L i = sid}"
      using closing_own service_inv_session [OF Cons.prems(1)] service_inv_registered [OF Cons.prems(1) reg] by blast
    have same: "closing (lv_objs L1 sid') (lv_users L1) = closing (lv_objs L sid') (lv_users L)"
      if "(n', sid') \<in> set ns" for n' sid'
      using other [OF that] closing_marked [OF service_inv_session [OF Cons.prems(1)] own] by (simp add: c)
    have "timed_out now L1 x = timed_out now L x" if "x \<in> set ns" for x
      using that other c(4) by (auto simp: timed_out_def)
    then have out: "filter (timed_out now L1) ns = filter (timed_out now L) ns" by (simp cong: filter_cong)
    have cl: "closing_all L1 (filter (timed_out now L) ns) = closing_all L (filter (timed_out now L) ns)"
      using same by (auto simp: closing_all_def intro!: arg_cong [where f = concat] map_cong)
    have "set ns \<subseteq> set (lv_sessions L1)"
      using Cons.prems(2,3) by (auto simp: c(3) e rev_image_eqI)
    from Cons.IH [OF inv1 this _ 2(1)] Cons.prems(3) have IH:
      "lv_sessions L' = filter (\<lambda>e. e \<notin> set (filter (timed_out now L) ns)) (lv_sessions L1)"
      "lv_users L' = marked (set (closing_all L (filter (timed_out now L) ns))) (lv_users L1)"
      "as2 = map ConnCall (concat (map (\<lambda>i. obj_Close (lv_users L1 i)) (closing_all L (filter (timed_out now L) ns))))"
      "\<forall>sid. sid \<notin> snd ` set (filter (timed_out now L) ns) \<longrightarrow> lv_objs L' sid = lv_objs L1 sid"
      unfolding out cl by simp_all
    have head: "filter (timed_out now L) (e # ns) = (name, sid) # filter (timed_out now L) ns"
      using True by (simp add: e timed_out_def)
    have "lv_sessions L' = filter (\<lambda>x. x \<notin> set ((name, sid) # filter (timed_out now L) ns)) (lv_sessions L)"
    proof -
      have "distinct (map fst (lv_sessions L))" using Cons.prems(1) by (simp add: service_inv_def registry_ok_def)
      then have "(fst x \<noteq> name) = (x \<noteq> (name, sid))" if "x \<in> set (lv_sessions L)" for x
        using that reg eq_key_imp_eq_value by (cases x) fastforce
      then show ?thesis unfolding IH(1) c(3) filter_filter
        by (intro filter_cong) (auto simp: case_prod_beta)
    qed
    moreover have "lv_users L' = marked (set (closing_all L ((name, sid) # filter (timed_out now L) ns))) (lv_users L)"
      by (simp add: IH(2) c(2) closing_all_def Un_commute)
    moreover have "as = map ConnCall (concat (map (\<lambda>i. obj_Close (lv_users L i)) (closing_all L ((name, sid) # filter (timed_out now L) ns))))"
      by (simp add: 2(2) IH(3) c(1,2) closing_all_def)
    moreover have "\<forall>s. s \<notin> snd ` set ((name, sid) # filter (timed_out now L) ns) \<longrightarrow> lv_objs L' s = lv_objs L s"
      using IH(4) c(4) by auto
    ultimately show ?thesis unfolding head by blast
  qed
qed

lemma OnTimer_effect:
  assumes "service_inv L" and "OnTimer now L = (L', as)"
  defines "out \<equiv> filter (timed_out now L) (lv_sessions L)"
  shows "lv_sessions L' = filter (\<lambda>e. \<not> timed_out now L e) (lv_sessions L) \<and>
     lv_users L' = marked (set (closing_all L out)) (lv_users L) \<and>
     as = map ConnCall (concat (map (\<lambda>i. obj_Close (lv_users L i)) (closing_all L out))) \<and>
     (\<forall>sid. sid \<notin> snd ` set out \<longrightarrow> lv_objs L' sid = lv_objs L sid)"
proof -
  have "distinct (map fst (lv_sessions L))" using assms(1) by (simp add: service_inv_def registry_ok_def)
  from clear_sessions_effect [OF assms(1) order_refl this, of now L' as] assms(2)
  have *: "lv_sessions L' = filter (\<lambda>e. e \<notin> set out) (lv_sessions L) \<and>
     lv_users L' = marked (set (closing_all L out)) (lv_users L) \<and>
     as = map ConnCall (concat (map (\<lambda>i. obj_Close (lv_users L i)) (closing_all L out))) \<and>
     (\<forall>sid. sid \<notin> snd ` set out \<longrightarrow> lv_objs L' sid = lv_objs L sid)"
    by (simp add: OnTimer_def out_def)
  moreover have "filter (\<lambda>e. e \<notin> set out) (lv_sessions L) = filter (\<lambda>e. \<not> timed_out now L e) (lv_sessions L)"
    by (rule filter_cong) (auto simp: out_def)
  ultimately show ?thesis by simp
qed

text \<open>
  The end of a connection, for any user behind it. What a session is after a user has left it:
  without a publisher, if the user was of a publishing type; else without the player, and its
  idle time starts.
\<close>

definition left_by :: "int \<Rightarrow> nat \<Rightarrow> 'e user_obj \<Rightarrow> 'e Session \<Rightarrow> 'e Session" where
  "left_by now i u s =
     (if is_publish_type (user_type u) then s\<lparr>ss_publisher := None\<rparr>
      else s\<lparr>ss_players := removeAll i (ss_players s), ss_player_live_time := now\<rparr>)"

lemma OnConnectionDestroy_effect:
  assumes "service_inv L" and "lv_ctx L conn = Some i" and "OnConnectionDestroy now conn L = (L', as)"
  shows "lv_users L' = (lv_users L)(i := set_destroyed (lv_users L i)) \<and>
     as = (if destroyed (lv_users L i) then [] else [ConnCall (ForceClose conn)]) \<and>
     (\<forall>sid < lv_next_session L. ss_players (lv_objs L' sid) = removeAll i (ss_players (lv_objs L sid))) \<and>
     (\<forall>sid. sid \<noteq> lv_owner L i \<longrightarrow> lv_objs L' sid = lv_objs L sid) \<and>
     L' = (if destroyed (lv_users L i) then L
           else L\<lparr>lv_users := lv_users L', lv_objs := (lv_objs L)(lv_owner L i := left_by now i (lv_users L i) (lv_objs L (lv_owner L i)))\<rparr>) \<and>
     OnConnectionDestroy later conn L' = (L', [])"
proof -
  let ?sid = "lv_owner L i"
  have i: "i < lv_next_user L" "user_conn (lv_users L i) = Some conn" "?sid < lv_next_session L"
    using service_inv_ctx [OF assms(1,2)] assms(1) by (auto simp: service_inv_def users_ok_def)
  have player: "i \<in> set (ss_players (lv_objs L sid)) \<longleftrightarrow> sid = ?sid \<and> live_player (lv_users L i)"
    if "sid < lv_next_session L" for sid
    using service_inv_session [OF assms(1) that] i(1) by (auto simp: session_ok_def)
  have keep: "removeAll i (ss_players (lv_objs L sid)) = ss_players (lv_objs L sid)"
    if "sid < lv_next_session L" "sid \<noteq> ?sid \<or> \<not> live_player (lv_users L i)" for sid
    using player [OF that(1)] that(2) by (auto intro: removeAll_id)
  have pub: "is_player (lv_users L i) \<longrightarrow> \<not> is_publish_type (user_type (lv_users L i))"
    using assms(1) i(1) by (simp add: service_inv_def users_ok_def)
  have d: "on_session (CloseUser now i) ?sid L = (L', as)" using assms(2,3) by (simp add: OnConnectionDestroy_def)
  show ?thesis
  proof (cases "destroyed (lv_users L i)")
    case True
    then have "L' = L" "as = []" using d by (cases L; simp add: on_session_def CloseUser_def)+
    then show ?thesis
      using True keep by (auto simp: OnConnectionDestroy_def on_session_def CloseUser_def live_player_def assms(2) d
          intro!: ext)
  next
    case False
    then obtain s' where L': "L' = L\<lparr>lv_objs := (lv_objs L)(?sid := s'), lv_users := (lv_users L)(i := set_destroyed (lv_users L i))\<rparr>"
      and as: "as = [ConnCall (ForceClose conn)]"
      and s': "s' = (if is_publish_type (user_type (lv_users L i)) then (lv_objs L ?sid)\<lparr>ss_publisher := None\<rparr>
                     else (lv_objs L ?sid)\<lparr>ss_players := (if is_player (lv_users L i) then removeAll i (ss_players (lv_objs L ?sid))
                            else ss_players (lv_objs L ?sid)), ss_player_live_time := now\<rparr>)"
      using d i(2) by (auto simp: on_session_def CloseUser_def obj_Close_def User_Close_def Let_def split: if_splits)
    have s'_left: "s' = left_by now i (lv_users L i) (lv_objs L ?sid)"
      using keep [OF i(3)] by (simp add: s' left_by_def live_player_def)
    have "\<forall>sid < lv_next_session L. ss_players (lv_objs L' sid) = removeAll i (ss_players (lv_objs L sid))"
      using keep pub by (auto simp: L' s' live_player_def)
    moreover have "lv_users L' = (lv_users L)(i := set_destroyed (lv_users L i))"
      "\<forall>sid. sid \<noteq> ?sid \<longrightarrow> lv_objs L' sid = lv_objs L sid" by (simp_all add: L')
    moreover have "OnConnectionDestroy later conn L' = (L', [])"
      using assms(2) by (simp add: L' OnConnectionDestroy_def on_session_def CloseUser_def)
    moreover have "L' = L\<lparr>lv_users := lv_users L', lv_objs := (lv_objs L)(?sid := left_by now i (lv_users L i) (lv_objs L ?sid))\<rparr>"
      by (simp add: L' s'_left)
    ultimately show ?thesis unfolding if_not_P [OF False] using as by (intro conjI)
  qed
qed

end
