(* ===== verification/TsTool.thy ===== *)
theory TsTool
  imports Packet
begin

text \<open>
  \<open>mmedia/mpegts/TsTool.cc\<close>: the checksum of the MPEG-TS tables, computed with a table of 256
  entries in a 64-bit register, and the time stamps of a PES packet. Proved equal to the
  checksum taken bit by bit, and read back as the standard reads them.
\<close>

section \<open>The code\<close>

primrec reflect_loop :: "nat \<Rightarrow> u64 \<Rightarrow> u64 \<Rightarrow> u64" where
  "reflect_loop 0 data res = res"
| "reflect_loop (Suc n) data res =
     (let data = drop_bit 1 data in reflect_loop n data (push_bit 1 res OR (data AND 1)))"

definition crc32_reflect :: "u64 \<Rightarrow> nat \<Rightarrow> u64" where
  "crc32_reflect data width = reflect_loop (width - 1) data (data AND 1)"

definition crc_shift :: "u32 \<Rightarrow> u64 \<Rightarrow> u64" where
  "crc_shift poly reg =
     (if reg AND 0x80000000 \<noteq> 0 then push_bit 1 reg XOR ucast poly else push_bit 1 reg)"

definition crc32_table_entry :: "u32 \<Rightarrow> bool \<Rightarrow> nat \<Rightarrow> u32" where
  "crc32_table_entry poly reflect_in i =
     (let reg = of_nat i;
          reg = (if reflect_in then crc32_reflect reg 8 else reg);
          reg = push_bit 24 reg;
          reg = (crc_shift poly ^^ 8) reg;
          reg = (if reflect_in then crc32_reflect reg 32 else reg)
      in ucast (reg AND 0xffffffff))"

definition crc32_make_table :: "u32 \<Rightarrow> bool \<Rightarrow> u32 list" where
  "crc32_make_table poly reflect_in = map (crc32_table_entry poly reflect_in) [0..<256]"

definition crc_step :: "u32 list \<Rightarrow> u64 \<Rightarrow> u8 \<Rightarrow> u64" where
  "crc_step t reg b =
     ucast (t ! unat (ucast (drop_bit 24 reg XOR ucast b) :: u8)) XOR push_bit 8 reg"

definition crc_step_reflected :: "u32 list \<Rightarrow> u64 \<Rightarrow> u8 \<Rightarrow> u64" where
  "crc_step_reflected t reg b =
     ucast (t ! unat (ucast (reg XOR ucast b) :: u8)) XOR drop_bit 8 reg"

definition crc32_table_driven :: "u32 list \<Rightarrow> bytes \<Rightarrow> u32 \<Rightarrow> bool \<Rightarrow> u32 \<Rightarrow> bool \<Rightarrow> u32 \<Rightarrow> u32" where
  "crc32_table_driven t buf previous reflect_in xor_in reflect_out xor_out =
     (let reg = (if \<not> reflect_in then foldl (crc_step t) (ucast xor_in) buf
                 else crc32_reflect (foldl (crc_step_reflected t)
                        (ucast previous XOR crc32_reflect (ucast xor_in) 32) buf) 32);
          reg = (if reflect_out then crc32_reflect reg 32 else reg)
      in ucast ((reg XOR ucast xor_out) AND 0xffffffff))"

text \<open>
  \<open>__crc32_MPEG_table\<close> and its flag are one static object for both functions: \<open>None\<close> until the
  first call, whichever it is.
\<close>

definition crc_poly :: u32 where "crc_poly = 0x04C11DB7"

definition CRC32 :: "bytes \<Rightarrow> u32 list option \<Rightarrow> u32 \<times> u32 list option" where
  "CRC32 buf table =
     (let t = (case table of None \<Rightarrow> crc32_make_table crc_poly False | Some t \<Rightarrow> t)
      in (crc32_table_driven t buf 0 False 0xffffffff False 0, Some t))"

definition CRC32Ieee :: "bytes \<Rightarrow> u32 list option \<Rightarrow> u32 \<times> u32 list option" where
  "CRC32Ieee buf table =
     (let t = (case table of None \<Rightarrow> crc32_make_table crc_poly True | Some t \<Rightarrow> t)
      in (crc32_table_driven t buf 0 True 0xffffffff True 0xffffffff, Some t))"

text \<open>The five bytes of a time stamp of 33 bits, behind the four bits that say which it is.\<close>

definition WritePts :: "u64 \<Rightarrow> u64 \<Rightarrow> bytes" where
  "WritePts fourbits pts =
     (let v1 = push_bit 4 fourbits OR push_bit 1 (drop_bit 30 pts AND 0x07) OR 1;
          v2 = push_bit 1 (drop_bit 15 pts AND 0x7fff) OR 1;
          v3 = push_bit 1 (pts AND 0x7fff) OR 1
      in [ucast v1, ucast (drop_bit 8 v2), ucast v2, ucast (drop_bit 8 v3), ucast v3])"

definition TsTool_IsCodecHeader :: "'e Packet \<Rightarrow> bool result" where
  "TsTool_IsCodecHeader p = (if pk_size p > 1 then rbind (nth_checked (pk_data p) 1) (\<lambda>b. Inr (b = 0)) else Inr False)"

section \<open>The checksum bit by bit\<close>

lemma low32: "ucast (w AND 0xffffffff) = (ucast (w :: u64) :: u32)"
proof -
  have "w AND 0xffffffff = take_bit 32 w" by (simp add: take_bit_eq_mask mask_eq_exp_minus_1)
  then show ?thesis by (intro bit_word_eqI) (simp add: bit_simps)
qed

text \<open>One bit of the division by the polynomial, and a byte: eight bits after it came in on top.\<close>

definition crc_bit :: "u32 \<Rightarrow> u32" where
  "crc_bit r = (if bit r 31 then push_bit 1 r XOR crc_poly else push_bit 1 r)"

definition crc_byte :: "u32 \<Rightarrow> u8 \<Rightarrow> u32" where
  "crc_byte r b = (crc_bit ^^ 8) (r XOR push_bit 24 (ucast b))"

definition crc_ref :: "u32 \<Rightarrow> bytes \<Rightarrow> u32" where
  "crc_ref r d = foldl crc_byte r d"

lemma crc_bit_xor: "crc_bit (a XOR b) = crc_bit a XOR crc_bit b"
proof (rule bit_word_eqI)
  fix n assume "n < LENGTH(32)"
  then show "bit (crc_bit (a XOR b)) n = bit (crc_bit a XOR crc_bit b) n"
    by (auto simp: crc_bit_def bit_simps)
qed

lemma crc_bits_xor: "(crc_bit ^^ n) (a XOR b) = (crc_bit ^^ n) a XOR (crc_bit ^^ n) b"
  by (induction n) (simp_all add: crc_bit_xor)

lemma crc_bits_shift: "(\<And>i. 24 \<le> i \<Longrightarrow> \<not> bit a i) \<Longrightarrow> k \<le> 8 \<Longrightarrow> (crc_bit ^^ k) a = push_bit k a"
proof (induction k)
  case 0
  then show ?case by simp
next
  case (Suc k)
  then have "(crc_bit ^^ k) a = push_bit k a" by simp
  moreover have "\<not> bit (push_bit k a) 31" using Suc.prems by (simp add: bit_simps)
  ultimately show ?case by (simp add: crc_bit_def [of "push_bit k a"] push_bit_push_bit del: push_bit_Suc)
qed

lemma crc_shift_low: "ucast (crc_shift crc_poly reg) = crc_bit (ucast reg)"
proof (rule bit_word_eqI)
  have b: "reg AND 0x80000000 = 0 \<longleftrightarrow> \<not> bit reg 31"
    using and_exp_eq_0_iff_not_bit [of reg 31] by simp
  fix n assume "n < LENGTH(32)"
  then show "bit (ucast (crc_shift crc_poly reg) :: u32) n = bit (crc_bit (ucast reg)) n"
    unfolding crc_shift_def crc_bit_def b by (auto simp: bit_simps crc_poly_def simp del: One_nat_def)
qed

lemma crc_shifts_low: "ucast ((crc_shift crc_poly ^^ k) reg) = (crc_bit ^^ k) (ucast reg)"
  by (induction k) (simp_all add: crc_shift_low)

lemma crc32_table_entry_bits:
  "crc32_table_entry crc_poly False (unat (i :: u8)) = (crc_bit ^^ 8) (push_bit 24 (ucast i))"
proof -
  have "(of_nat (unat i) :: u64) = ucast i" by simp
  moreover have "ucast (push_bit 24 (ucast i :: u64)) = (push_bit 24 (ucast i) :: u32)"
    by (rule bit_word_eqI) (auto simp: bit_simps)
  ultimately show ?thesis
    by (simp only: crc32_table_entry_def Let_def if_False low32 crc_shifts_low)
qed

lemma crc_step_low: "ucast (crc_step (crc32_make_table crc_poly False) reg b) = crc_byte (ucast reg) b"
proof -
  define i where "i = (ucast (drop_bit 24 reg XOR ucast b) :: u8)"
  define r where "r = (ucast reg :: u32)"
  have i: "unat i < 256" using unsigned_less [where ?'a = nat, of i] by simp
  have "(ucast (crc_step (crc32_make_table crc_poly False) reg b) :: u32) =
      crc32_table_entry crc_poly False (unat i) XOR push_bit 8 r"
  proof -
    have "crc_step (crc32_make_table crc_poly False) reg b =
        ucast (crc32_table_entry crc_poly False (unat i)) XOR push_bit 8 reg"
      using i by (simp add: crc_step_def crc32_make_table_def flip: i_def)
    moreover have "(ucast (ucast v XOR push_bit 8 reg :: u64) :: u32) = v XOR push_bit 8 r" for v :: u32
      by (rule bit_word_eqI) (auto simp: r_def bit_simps)
    ultimately show ?thesis by simp
  qed
  also have "\<dots> = (crc_bit ^^ 8) (push_bit 24 (ucast i)) XOR (crc_bit ^^ 8) (take_bit 24 r)"
  proof -
    have "(crc_bit ^^ 8) (take_bit 24 r) = push_bit 8 (take_bit 24 r)"
      by (rule crc_bits_shift) (simp_all add: bit_simps)
    also have "\<dots> = push_bit 8 r" by (rule bit_word_eqI) (auto simp: bit_simps)
    finally show ?thesis using i by (simp add: crc32_table_entry_bits)
  qed
  also have "\<dots> = (crc_bit ^^ 8) (push_bit 24 (ucast i) XOR take_bit 24 r)"
    by (simp only: crc_bits_xor)
  also have "push_bit 24 (ucast i) XOR take_bit 24 r = r XOR push_bit 24 (ucast b)"
    by (rule bit_word_eqI) (auto simp: i_def r_def bit_simps)
  finally show ?thesis by (simp add: crc_byte_def r_def)
qed

lemma crc_steps_low: "ucast (foldl (crc_step (crc32_make_table crc_poly False)) reg d) = crc_ref (ucast reg) d"
  by (induction d arbitrary: reg) (simp_all add: crc_ref_def crc_step_low)

definition crc_of :: "bytes \<Rightarrow> u32" where
  "crc_of d = crc_ref 0xffffffff d"

lemma CRC32_new: "CRC32 d None = (crc_of d, Some (crc32_make_table crc_poly False))"
  "CRC32 d (Some (crc32_make_table crc_poly False)) = (crc_of d, Some (crc32_make_table crc_poly False))"
proof -
  have "crc32_table_driven (crc32_make_table crc_poly False) d 0 False 0xffffffff False 0 = crc_of d"
    by (simp add: crc32_table_driven_def crc_steps_low crc_of_def low32)
  then show "CRC32 d None = (crc_of d, Some (crc32_make_table crc_poly False))"
    "CRC32 d (Some (crc32_make_table crc_poly False)) = (crc_of d, Some (crc32_make_table crc_poly False))"
    by (simp_all add: CRC32_def)
qed

text \<open>A receiver's check: the checksum of data with its checksum behind it is zero.\<close>

lemma crc_byte_top: "crc_byte r (ucast (drop_bit 24 r)) = push_bit 8 r"
proof -
  have "r XOR push_bit 24 (ucast (ucast (drop_bit 24 r) :: u8)) = take_bit 24 r"
    by (rule bit_word_eqI) (auto simp: bit_simps)
  moreover have "(crc_bit ^^ 8) (take_bit 24 r) = push_bit 8 (take_bit 24 r)"
    by (rule crc_bits_shift) (simp_all add: bit_simps)
  moreover have "push_bit 8 (take_bit 24 r) = push_bit 8 r" by (rule bit_word_eqI) (auto simp: bit_simps)
  ultimately show ?thesis by (simp add: crc_byte_def)
qed

lemma crc_residue: "crc_ref r (WriteUint32T r) = 0"
proof -
  have s: "crc_byte (push_bit k r) (ucast (drop_bit (24 - k) r)) = push_bit (k + 8) r" if "k \<le> 24" for k
  proof -
    have "(ucast (drop_bit 24 (push_bit k r)) :: u8) = ucast (drop_bit (24 - k) r)"
      using that by (intro bit_word_eqI) (auto simp: bit_simps)
    then show ?thesis using crc_byte_top [of "push_bit k r"] by (simp add: push_bit_push_bit add.commute)
  qed
  have "push_bit 32 r = 0" by (rule bit_word_eqI) (simp add: bit_simps)
  then show ?thesis
    using s [of 0] s [of 8] s [of 16] s [of 24] by (simp add: crc_ref_def WriteUint32T_def)
qed

lemma crc_check: "crc_of (d @ WriteUint32T (crc_of d)) = 0"
proof -
  have "crc_of (d @ e) = crc_ref (crc_of d) e" for e by (simp add: crc_of_def crc_ref_def)
  then show ?thesis by (simp add: crc_residue)
qed

text \<open>
  The table is filled by the first call of either function. When that is \<open>CRC32Ieee\<close>, which the
  WebRTC half of the program calls on each STUN message, every table of the transport stream
  written afterwards carries a wrong checksum.
\<close>

lemma ucast_xor_up: "ucast (ucast v XOR w :: u64) = (v XOR ucast w :: u32)"
  by (rule bit_word_eqI) (auto simp: bit_simps)

lemma crc_entries_255:
  "crc32_table_entry crc_poly True 255 = 0x2D02EF8D"
  "crc32_table_entry crc_poly False 255 = 0xB1F740B4"
  by code_simp+

lemma crc_table_shared:
  "fst (CRC32 [0] (snd (CRC32Ieee [] None))) \<noteq> fst (CRC32 [0] None)"
proof -
  have "fst (CRC32 [0] (Some (crc32_make_table crc_poly b))) =
      crc32_table_entry crc_poly b 255 XOR 0xffffffff00" for b
    by (simp add: CRC32_def crc32_table_driven_def crc_step_def crc32_make_table_def low32 ucast_xor_up)
  from this [of True] this [of False]
  have "fst (CRC32 [0] (Some (crc32_make_table crc_poly True))) \<noteq> fst (CRC32 [0] (Some (crc32_make_table crc_poly False)))"
    by (simp add: crc_entries_255)
  then show ?thesis by (simp add: CRC32Ieee_def CRC32_new Let_def)
qed

section \<open>Time stamps\<close>

text \<open>The standard's reading of the five bytes: the four bits and the 33 of the time, with the markers checked.\<close>

fun read_pts :: "bytes \<Rightarrow> (u8 \<times> u64) option" where
  "read_pts [a, b, c, d, e] =
     (if bit a 0 \<and> bit c 0 \<and> bit e 0
      then Some (drop_bit 4 a, push_bit 30 (take_bit 3 (drop_bit 1 (ucast a))) OR push_bit 22 (ucast b) OR
                   push_bit 15 (drop_bit 1 (ucast c)) OR push_bit 7 (ucast d) OR drop_bit 1 (ucast e))
      else None)"
| "read_pts _ = None"

lemma length_WritePts [simp]: "length (WritePts f t) = 5"
  by (simp add: WritePts_def Let_def)

lemma read_WritePts:
  assumes "f < 16"
  shows "read_pts (WritePts f t) = Some (ucast f, take_bit 33 t)"
proof -
  have f: "n < 4" if "bit f n" for n
  proof -
    have "f = take_bit 4 f" using assms
      by (intro unsigned_word_eqI [where ?'a = nat]) (simp add: unsigned_take_bit_eq take_bit_nat_eq_self word_less_nat_alt)
    then show ?thesis using that by (metis bit_take_bit_iff)
  qed
  have m: "0x07 = (mask 3 :: u64)" "0x7fff = (mask 15 :: u64)" by (simp_all add: mask_eq_exp_minus_1)
  define a :: u8 where "a = ucast (push_bit 4 f OR push_bit 1 (take_bit 3 (drop_bit 30 t)) OR 1)"
  define v where "v = push_bit 1 (take_bit 15 (drop_bit 15 t)) OR 1"
  define w where "w = push_bit 1 (take_bit 15 t) OR 1"
  have "bit a 0 \<and> bit (ucast v :: u8) 0 \<and> bit (ucast w :: u8) 0"
    by (simp add: a_def v_def w_def bit_simps)
  moreover have "drop_bit 4 a = ucast f"
    by (rule bit_word_eqI) (auto simp: a_def bit_simps dest: f simp del: One_nat_def)
  moreover have "push_bit 30 (take_bit 3 (drop_bit 1 (ucast a))) OR push_bit 22 (ucast (ucast (drop_bit 8 v) :: u8)) OR
      push_bit 15 (drop_bit 1 (ucast (ucast v :: u8))) OR push_bit 7 (ucast (ucast (drop_bit 8 w) :: u8)) OR
      drop_bit 1 (ucast (ucast w :: u8)) = take_bit 33 t" (is "?l = _")
  proof (rule bit_word_eqI)
    fix n assume "n < LENGTH(64)"
    consider "n < 7" | "7 \<le> n" "n < 15" | "15 \<le> n" "n < 22" | "22 \<le> n" "n < 30" | "30 \<le> n" "n < 33" | "33 \<le> n"
      by linarith
    then show "bit ?l n = bit (take_bit 33 t) n"
      by cases (auto simp: a_def v_def w_def bit_simps dest: f simp del: One_nat_def)
  qed
  ultimately show ?thesis
    by (simp add: WritePts_def m a_def v_def w_def flip: take_bit_eq_mask del: One_nat_def)
qed

end
