(* ===== verification/TsPacket.thy ===== *)
theory TsPacket
  imports TsTool
begin

text \<open>
  The packets of a transport stream. \<open>mmedia/mpegts/StreamWriter.h\<close> is the interface they are
  written to: its accessors are the fields of a record that the writer's own record extends, its
  virtual \<open>Write\<close> is an argument of every definition that calls it, and the locale
  \<open>stream_writer\<close> states what the encoders rely on. The second half is the reader of the
  standard (ISO 13818-1), against which the encoders are proved.
\<close>

section \<open>The writer\<close>

record StreamWriter =
  sw_sps :: bytes
  sw_pps :: bytes
  sw_appended :: bool

text \<open>
  \<open>view\<close> is what has been written, \<open>keep\<close> the rest of the writer, and \<open>ok n\<close> says that the writer is
  well-formed and \<open>n\<close> more bytes fit.
\<close>

locale stream_writer =
  fixes wr :: "bytes \<Rightarrow> 'a StreamWriter_scheme \<Rightarrow> 'a StreamWriter_scheme result"
    and view :: "'a StreamWriter_scheme \<Rightarrow> bytes"
    and keep :: "'a StreamWriter_scheme \<Rightarrow> 'k"
    and ok :: "nat \<Rightarrow> 'a StreamWriter_scheme \<Rightarrow> bool"
  assumes wr_ok: "ok (length d + n) w \<Longrightarrow> \<exists>w'. wr d w = Inr w' \<and> view w' = view w @ d \<and> ok n w' \<and> keep w' = keep w"
    and wr_base: "wr d w = Inr w' \<Longrightarrow> sw_sps w' = sw_sps w \<and> sw_pps w' = sw_pps w \<and> sw_appended w' = sw_appended w"
    and ok_less: "ok n w \<Longrightarrow> m \<le> n \<Longrightarrow> ok m w"
    and set_base: "view (w\<lparr>sw_sps := a, sw_pps := b, sw_appended := c\<rparr>) = view w"
      "keep (w\<lparr>sw_sps := a, sw_pps := b, sw_appended := c\<rparr>) = keep w"
      "ok n (w\<lparr>sw_sps := a, sw_pps := b, sw_appended := c\<rparr>) = ok n w"
begin

text \<open>\<open>wrote n w b w'\<close>: the bytes \<open>b\<close> were written, and \<open>n\<close> more fit.\<close>

definition wrote :: "nat \<Rightarrow> 'a StreamWriter_scheme \<Rightarrow> bytes \<Rightarrow> 'a StreamWriter_scheme \<Rightarrow> bool" where
  "wrote n w b w' \<longleftrightarrow> view w' = view w @ b \<and> keep w' = keep w \<and> ok n w'"

lemma wrote_nothing: "ok n w \<Longrightarrow> wrote n w [] w"
  by (simp add: wrote_def)

lemma wrote_trans: "wrote m w b w1 \<Longrightarrow> wrote n w1 c w2 \<Longrightarrow> wrote n w (b @ c) w2"
  by (simp add: wrote_def)

lemma wrote_less: "wrote n w b w' \<Longrightarrow> m \<le> n \<Longrightarrow> wrote m w b w'"
  by (auto simp: wrote_def intro: ok_less)

lemma wrote_ok: "wrote n w b w' \<Longrightarrow> m \<le> n \<Longrightarrow> ok m w'"
  by (auto simp: wrote_def intro: ok_less)

lemma wrote_cong: "view w1 = view w \<Longrightarrow> keep w1 = keep w \<Longrightarrow> wrote n w1 b w2 \<Longrightarrow> wrote n w b w2"
  by (simp add: wrote_def)

lemma wr_packet: "ok (188 + n) w \<Longrightarrow> length d = 188 \<Longrightarrow> \<exists>w'. wr d w = Inr w' \<and> wrote n w d w'"
  using wr_ok [of d n w] by (simp add: wrote_def) blast

end

section \<open>The four bytes every packet begins with\<close>

definition next_cc :: "u8 \<Rightarrow> u8" where
  "next_cc cc = (cc + 1) AND 0xf"

definition ts_head :: "u16 \<Rightarrow> bool \<Rightarrow> u8 \<Rightarrow> bytes" where
  "ts_head pid start cc =
     [0x47, ucast (drop_bit 8 pid) OR (if start then 0x40 else 0), ucast pid, 0x10 OR cc]"

lemma length_ts_head [simp]: "length (ts_head pid start cc) = 4"
  by (simp add: ts_head_def)

section \<open>The standard's reader\<close>

record ts_packet =
  ts_pid :: u16
  ts_start :: bool
  ts_cc :: u8
  ts_pcr :: "u64 option"
  ts_payload :: bytes

text \<open>The 33 bits of the clock reference's base.\<close>

definition read_pcr :: "bytes \<Rightarrow> u64" where
  "read_pcr d = push_bit 25 (ucast (d ! 0)) OR push_bit 17 (ucast (d ! 1)) OR push_bit 9 (ucast (d ! 2)) OR
     push_bit 1 (ucast (d ! 3)) OR drop_bit 7 (ucast (d ! 4))"

definition ts_parse :: "bytes \<Rightarrow> ts_packet option" where
  "ts_parse p =
     (if length p \<noteq> 188 \<or> p ! 0 \<noteq> 0x47 \<or> bit (p ! 1) 7 \<or> \<not> bit (p ! 3) 4 then None
      else let af = (if bit (p ! 3) 5 then take (1 + unat (p ! 4)) (drop 4 p) else [])
           in if bit (p ! 3) 5 \<and> length af < 1 + unat (p ! 4) then None
              else Some \<lparr>ts_pid = push_bit 8 (ucast (p ! 1 AND 0x1f)) OR ucast (p ! 2), ts_start = bit (p ! 1) 6,
                         ts_cc = p ! 3 AND 0x0f,
                         ts_pcr = (if 8 \<le> length af \<and> bit (af ! 1) 4 then Some (read_pcr (drop 2 af)) else None),
                         ts_payload = drop (4 + length af) p\<rparr>)"

text \<open>The packets that continue a unit, and a whole unit: the clock reference and the bytes it carries.\<close>

fun ts_collect :: "u16 \<Rightarrow> u8 \<Rightarrow> bytes list \<Rightarrow> bytes option" where
  "ts_collect pid cc [] = Some []"
| "ts_collect pid cc (p # ps) =
     (case ts_parse p of None \<Rightarrow> None
      | Some t \<Rightarrow>
          if ts_pid t = pid \<and> ts_cc t = next_cc cc \<and> \<not> ts_start t \<and> ts_pcr t = None
          then map_option ((@) (ts_payload t)) (ts_collect pid (ts_cc t) ps) else None)"

fun ts_unit :: "u16 \<Rightarrow> u8 \<Rightarrow> bytes list \<Rightarrow> (u64 option \<times> bytes) option" where
  "ts_unit pid cc [] = None"
| "ts_unit pid cc (p # ps) =
     (case ts_parse p of None \<Rightarrow> None
      | Some t \<Rightarrow>
          if ts_pid t = pid \<and> ts_cc t = next_cc cc \<and> ts_start t
          then map_option (\<lambda>r. (ts_pcr t, ts_payload t @ r)) (ts_collect pid (ts_cc t) ps) else None)"

text \<open>The counter after a number of packets.\<close>

definition cc_after :: "u8 \<Rightarrow> nat \<Rightarrow> u8" where
  "cc_after cc n = (next_cc ^^ n) cc"

lemma cc_after_simps [simp]: "cc_after cc 0 = cc" "cc_after cc (Suc n) = cc_after (next_cc cc) n"
  by (simp_all add: cc_after_def funpow_swap1)

lemma next_cc_small: "next_cc cc < 16"
proof -
  have "next_cc cc \<le> 0xf" unfolding next_cc_def by (rule word_and_le1)
  then show ?thesis using order.strict_trans1 [of "next_cc cc" "0xf" 16] by simp
qed

section \<open>Reading what was written\<close>

lemma flag_bits:
  "bit (0x10 :: int) n \<longleftrightarrow> n = 4" "bit (0x20 :: int) n \<longleftrightarrow> n = 5" "bit (0x30 :: int) n \<longleftrightarrow> n = 4 \<or> n = 5"
  "bit (0x40 :: int) n \<longleftrightarrow> n = 6"
proof -
  have e: "bit (2 ^ m :: int) n \<longleftrightarrow> n = m" for m by (simp add: bit_exp_iff) 
  have "(0x30 :: int) = 2 ^ 4 OR 2 ^ 5" by simp
  then have "bit (0x30 :: int) n \<longleftrightarrow> bit (2 ^ 4 :: int) n \<or> bit (2 ^ 5 :: int) n" by (simp only: bit_or_iff)
  then show "bit (0x10 :: int) n \<longleftrightarrow> n = 4" "bit (0x20 :: int) n \<longleftrightarrow> n = 5" "bit (0x30 :: int) n \<longleftrightarrow> n = 4 \<or> n = 5"
    "bit (0x40 :: int) n \<longleftrightarrow> n = 6" using e [of 4] e [of 5] e [of 6] by simp_all
qed

lemma ts_head_bits:
  assumes "pid < 0x2000" and "cc < 16"
  shows "\<not> bit (ts_head pid start cc ! 1) 7" "bit (ts_head pid start cc ! 1) 6 = start"
    "bit (0x10 OR cc) 4" "\<not> bit (0x10 OR cc) 5" "(0x10 OR cc) AND 0x0f = cc" "(0x10 OR cc) OR 0x20 = 0x30 OR cc"
    "bit (0x30 OR cc) 4" "bit (0x30 OR cc) 5" "(0x30 OR cc) AND 0x0f = cc"
    "push_bit 8 (ucast ((ts_head pid start cc ! 1) AND 0x1f)) OR ucast (ts_head pid start cc ! 2) = pid"
proof -
  have p: "n < 13" if "bit pid n" for n
  proof -
    have "pid = take_bit 13 pid" using assms(1)
      by (intro unsigned_word_eqI [where ?'a = nat]) (simp add: unsigned_take_bit_eq take_bit_nat_eq_self word_less_nat_alt)
    then show ?thesis using that by (metis bit_take_bit_iff)
  qed
  have c: "n < 4" if "bit cc n" for n
  proof -
    have "cc = take_bit 4 cc" using assms(2)
      by (intro unsigned_word_eqI [where ?'a = nat]) (simp add: unsigned_take_bit_eq take_bit_nat_eq_self word_less_nat_alt)
    then show ?thesis using that by (metis bit_take_bit_iff)
  qed
  have m: "(0x1f :: u8) = mask 5" "(0x0f :: u8) = mask 4" by (simp_all add: mask_eq_exp_minus_1)
  note e = flag_bits
  show "\<not> bit (ts_head pid start cc ! 1) 7" "bit (ts_head pid start cc ! 1) 6 = start"
    "bit (0x10 OR cc) 4" "\<not> bit (0x10 OR cc) 5" "bit (0x30 OR cc) 4" "bit (0x30 OR cc) 5"
    by (auto simp: ts_head_def bit_simps e dest: p c)
  show "(0x10 OR cc) AND 0x0f = cc" "(0x30 OR cc) AND 0x0f = cc" "(0x10 OR cc) OR 0x20 = 0x30 OR cc"
    by (rule bit_word_eqI; auto simp: m bit_simps e dest: c)+
  show "push_bit 8 (ucast ((ts_head pid start cc ! 1) AND 0x1f)) OR ucast (ts_head pid start cc ! 2) = pid"
    by (rule bit_word_eqI; auto simp: ts_head_def m bit_simps e dest: p)
qed

lemma ts_parse_plain:
  assumes "pid < 0x2000" and "cc < 16" and "length body = 184"
  shows "ts_parse (ts_head pid start cc @ body) =
           Some \<lparr>ts_pid = pid, ts_start = start, ts_cc = cc, ts_pcr = None, ts_payload = body\<rparr>"
  using ts_head_bits [OF assms(1,2)] assms(3)
  by (simp add: ts_parse_def ts_head_def)

end
