(* ===== verification/TsPsi.thy ===== *)
theory TsPsi
  imports TsPacket
begin

text \<open>
  The tables of a transport stream: \<open>mmedia/mpegts/PSIWriter.cc\<close>, \<open>PatWriter.cc\<close> and
  \<open>PmtWriter.cc\<close>. \<open>wr\<close> is the \<open>Write\<close> of the writer \<open>w\<close>. The arrays the sections are composed in
  have 1020 and 1024 bytes; a write beyond them is the fault \<open>OutOfBounds\<close>. \<open>tab\<close> is the checksum
  table the whole process shares. \<open>cc_\<close> starts as -1, which is the byte 255.
\<close>

definition kSectionMaxSize :: nat where "kSectionMaxSize = 1020"

record PSIWriter =
  psi_cc :: u8
  psi_pid :: u16
  psi_table_id :: u8
  psi_version :: u8

definition SetVersion :: "u8 \<Rightarrow> PSIWriter \<Rightarrow> PSIWriter" where
  "SetVersion v x = x\<lparr>psi_version := v\<rparr>"

text \<open>One packet of a section: the header, in the first the pointer field, data and stuffing.\<close>

definition section_packet :: "u16 \<Rightarrow> bool \<Rightarrow> u8 \<Rightarrow> bytes \<Rightarrow> bytes" where
  "section_packet pid first cc d =
     (let q = ts_head pid first cc @ (if first then [0] else []) @ d in q @ replicate (188 - length q) 0xff)"

function push_section ::
    "(bytes \<Rightarrow> 'w \<Rightarrow> 'w result) \<Rightarrow> u16 \<Rightarrow> bool \<Rightarrow> u8 \<Rightarrow> bytes \<Rightarrow> 'w \<Rightarrow> (u8 \<times> 'w) result" where
  "push_section wr pid first cc p w =
     (if p = [] then Inr (cc, w)
      else let cc = next_cc cc; len1 = min (if first then 183 else 184) (length p)
           in rbind (wr (section_packet pid first cc (take len1 p)) w) (\<lambda>w.
                push_section wr pid False cc (drop len1 p) w))"
  by pat_completeness auto
termination by (relation "measure (\<lambda>(wr, pid, first, cc, p, w). length p)") auto

declare push_section.simps [simp del]

definition PushSection ::
    "(bytes \<Rightarrow> 'w \<Rightarrow> 'w result) \<Rightarrow> bytes \<Rightarrow> PSIWriter \<Rightarrow> 'w \<Rightarrow> (PSIWriter \<times> 'w) result" where
  "PushSection wr buf x w =
     rbind (push_section wr (psi_pid x) True (psi_cc x) buf w) (\<lambda>(cc, w). Inr (x\<lparr>psi_cc := cc\<rparr>, w))"

definition section_head :: "u8 \<Rightarrow> u16 \<Rightarrow> u8 \<Rightarrow> u8 \<Rightarrow> u8 \<Rightarrow> bytes \<Rightarrow> bytes" where
  "section_head table_id tid version sec_num last_sec_num buf =
     [table_id] @ WriteUint16T (of_nat (5 + 4 + length buf) OR 0xb000) @ WriteUint16T tid @
     [0xc1 OR push_bit 1 version, sec_num, last_sec_num] @ buf"

definition WriteSection ::
    "(bytes \<Rightarrow> 'w \<Rightarrow> 'w result) \<Rightarrow> u16 \<Rightarrow> u8 \<Rightarrow> u8 \<Rightarrow> bytes \<Rightarrow> PSIWriter \<Rightarrow> u32 list option \<Rightarrow> 'w \<Rightarrow>
     (PSIWriter \<times> u32 list option \<times> 'w) result" where
  "WriteSection wr tid sec_num last_sec_num buf x tab w =
     (if 1024 < length buf + 3 + 5 + 4 then Inl OutOfBounds
      else let s = section_head (psi_table_id x) tid (psi_version x) sec_num last_sec_num buf
           in case CRC32 s tab of (crc, tab) \<Rightarrow>
              rbind (PushSection wr (s @ WriteUint32T crc) x w) (\<lambda>(x, w). Inr (x, tab, w)))"

section \<open>The association table\<close>

record PatWriter = PSIWriter +
  pat_program_number :: u16
  pat_pmt_pid :: u16
  pat_transport_stream_id :: u16

definition PatWriter_new :: PatWriter where
  "PatWriter_new = \<lparr>psi_cc = 0xff, psi_pid = 0, psi_table_id = 0, psi_version = 0,
     pat_program_number = 1, pat_pmt_pid = 0x1001, pat_transport_stream_id = 1\<rparr>"

text \<open>A method of the base class, called on an object of a derived one.\<close>

definition on_psi :: "'s PSIWriter_scheme \<Rightarrow> (PSIWriter \<times> 'r) result \<Rightarrow> ('s PSIWriter_scheme \<times> 'r) result" where
  "on_psi x r = rbind r (\<lambda>(y, v). Inr (PSIWriter.extend y (PSIWriter.more x), v))"

definition pat_section :: "PatWriter \<Rightarrow> bytes" where
  "pat_section x = WriteUint16T (pat_program_number x) @ WriteUint16T (0xe000 OR pat_pmt_pid x)"

definition WritePat ::
    "(bytes \<Rightarrow> 'w \<Rightarrow> 'w result) \<Rightarrow> PatWriter \<Rightarrow> u32 list option \<Rightarrow> 'w \<Rightarrow> (PatWriter \<times> u32 list option \<times> 'w) result" where
  "WritePat wr x tab w =
     on_psi x (WriteSection wr (pat_transport_stream_id x) 0 0 (pat_section x) (PSIWriter.truncate x) tab w)"

section \<open>The program map\<close>

record ProgramInfo =
  pi_stream_type :: u8
  pi_elementary_pid :: u16

record PmtWriter = PSIWriter +
  pmt_pcr_pid :: u16
  pmt_programs :: "ProgramInfo list"

definition PmtWriter_new :: PmtWriter where
  "PmtWriter_new = \<lparr>psi_cc = 0xff, psi_pid = 0x1001, psi_table_id = 2, psi_version = 0,
     pmt_pcr_pid = 0xe000, pmt_programs = []\<rparr>"

definition program_bytes :: "ProgramInfo \<Rightarrow> bytes" where
  "program_bytes p = pi_stream_type p # WriteUint16T (0xe000 OR pi_elementary_pid p) @ WriteUint16T 0xf000"

definition pmt_section :: "PmtWriter \<Rightarrow> bytes" where
  "pmt_section x =
     WriteUint16T (0xe000 OR pmt_pcr_pid x) @ WriteUint16T 0xf000 @ concat (map program_bytes (pmt_programs x))"

definition WritePmt ::
    "(bytes \<Rightarrow> 'w \<Rightarrow> 'w result) \<Rightarrow> PmtWriter \<Rightarrow> u32 list option \<Rightarrow> 'w \<Rightarrow> (PmtWriter \<times> u32 list option \<times> 'w) result" where
  "WritePmt wr x tab w =
     (if kSectionMaxSize < length (pmt_section x) then Inl OutOfBounds
      else on_psi x (WriteSection wr 1 0 0 (pmt_section x) (PSIWriter.truncate x) tab w))"

definition AddProgramInfo :: "ProgramInfo \<Rightarrow> PmtWriter \<Rightarrow> PmtWriter" where
  "AddProgramInfo p x = x\<lparr>pmt_programs := pmt_programs x @ [p]\<rparr>"

definition SetPcrPid :: "u16 \<Rightarrow> PmtWriter \<Rightarrow> PmtWriter" where
  "SetPcrPid pid x = x\<lparr>pmt_pcr_pid := pid\<rparr>"

text \<open>Two states of a writer with the same parameter sets.\<close>

definition same_base :: "'a StreamWriter_scheme \<Rightarrow> 'a StreamWriter_scheme \<Rightarrow> bool" where
  "same_base w w' \<longleftrightarrow> sw_sps w' = sw_sps w \<and> sw_pps w' = sw_pps w \<and> sw_appended w' = sw_appended w"

section \<open>The standard's reader of sections\<close>

text \<open>The payload of a unit: pointer field, section, stuffing. Its table, its number and its data.\<close>

definition parse_section :: "bytes \<Rightarrow> (u8 \<times> u16 \<times> bytes) option" where
  "parse_section body =
     (case body of [] \<Rightarrow> None
      | ptr # r \<Rightarrow>
          let s = drop (unat ptr) r
          in case (ReadUint16T (drop 1 s), ReadUint16T (drop 3 s)) of
               (Inr l, Inr tid) \<Rightarrow>
                 let n = unat (take_bit 12 l)
                 in if n < 9 \<or> length s < 3 + n \<or> crc_of (take (3 + n) s) \<noteq> 0 then None
                    else Some (s ! 0, tid, take (n - 9) (drop 8 s))
             | _ \<Rightarrow> None)"

fun parse_pat :: "bytes \<Rightarrow> (u16 \<times> u16) list option" where
  "parse_pat [] = Some []"
| "parse_pat (a # b # c # d # r) =
     map_option ((#) (push_bit 8 (ucast a) OR ucast b, take_bit 13 (push_bit 8 (ucast c) OR ucast d))) (parse_pat r)"
| "parse_pat _ = None"

fun parse_programs :: "bytes \<Rightarrow> (u8 \<times> u16) list option" where
  "parse_programs [] = Some []"
| "parse_programs (t # a # b # c # d # r) =
     (if take_bit 12 (push_bit 8 (ucast c) OR ucast d :: u16) \<noteq> 0 then None
      else map_option ((#) (t, take_bit 13 (push_bit 8 (ucast a) OR ucast b))) (parse_programs r))"
| "parse_programs _ = None"

fun parse_pmt :: "bytes \<Rightarrow> (u16 \<times> (u8 \<times> u16) list) option" where
  "parse_pmt (a # b # c # d # r) =
     (if take_bit 12 (push_bit 8 (ucast c) OR ucast d :: u16) \<noteq> 0 then None
      else map_option (Pair (take_bit 13 (push_bit 8 (ucast a) OR ucast b))) (parse_programs r))"
| "parse_pmt _ = None"

section \<open>What is written is read\<close>

lemma length_section_packet: "length d \<le> (if first then 183 else 184) \<Longrightarrow> length (section_packet pid first cc d) = 188"
  by (auto simp: section_packet_def Let_def split: if_splits)

lemma section_packet_parse:
  assumes "pid < 0x2000" and "cc < 16" and "length d \<le> (if first then 183 else 184)"
  shows "\<exists>s. ts_parse (section_packet pid first cc d) =
           Some \<lparr>ts_pid = pid, ts_start = first, ts_cc = cc, ts_pcr = None,
                 ts_payload = (if first then [0] else []) @ d @ s\<rparr> \<and>
           (length d = (if first then 183 else 184) \<longrightarrow> s = [])"
proof -
  define s :: bytes where "s = replicate (188 - (4 + length ((if first then [0] else []) @ d))) 0xff"
  have "section_packet pid first cc d = ts_head pid first cc @ ((if first then [0] else []) @ d @ s)"
    by (simp add: section_packet_def Let_def s_def)
  moreover have "length ((if first then [0] else []) @ d @ s) = 184" using assms(3) by (auto simp: s_def split: if_splits)
  moreover have "length d = (if first then 183 else 184) \<longrightarrow> s = []" by (simp add: s_def)
  ultimately show ?thesis using ts_parse_plain [OF assms(1,2)] by metis
qed

context stream_writer begin

lemma push_section_collect:
  assumes "pid < 0x2000" and "ok (188 + (2 * length p + m)) w"
  shows "\<exists>w' pk s. push_section wr pid False cc p w = Inr (cc_after cc (length pk), w') \<and>
           wrote m w (concat pk) w' \<and> ts_collect pid cc pk = Some (p @ s)"
  using assms(2)
proof (induction "length p" arbitrary: p cc w rule: less_induct)
  case less
  show ?case
  proof (cases "p = []")
    case True
    then show ?thesis using wrote_nothing [OF ok_less [OF less.prems, of m]]
      by (intro exI [of _ w] exI [of _ "[]"]) (simp add: push_section.simps)
  next
    case False
    define n where "n = min 184 (length p)"
    define q where "q = section_packet pid False (next_cc cc) (take n p)"
    have l: "length q = 188" unfolding q_def by (rule length_section_packet) (simp add: n_def)
    obtain s where s: "ts_parse q = Some \<lparr>ts_pid = pid, ts_start = False, ts_cc = next_cc cc, ts_pcr = None,
          ts_payload = take n p @ s\<rparr>" "n = 184 \<longrightarrow> s = []"
      using section_packet_parse [OF assms(1) next_cc_small, of "take n p" False cc] unfolding q_def n_def by auto
    obtain w1 where w1: "wr q w = Inr w1" "wrote (2 * length p + m) w q w1"
      using wr_packet [OF less.prems l] by blast
    have e: "push_section wr pid False cc p w = push_section wr pid False (next_cc cc) (drop n p) w1"
      using False w1(1) by (subst push_section.simps) (simp add: Let_def n_def q_def)
    show ?thesis
    proof (cases "drop n p = []")
      case True
      moreover have "take n p = p" using True by simp
      ultimately show ?thesis
        using e s wrote_less [OF w1(2), of m]
        by (intro exI [of _ w1] exI [of _ "[q]"]) (simp add: push_section.simps)
    next
      case False
      then have n: "n = 184" "length (drop n p) < length p" by (auto simp: n_def min_def split: if_splits)
      have "ok (188 + (2 * length (drop n p) + m)) w1" using n False by (intro wrote_ok [OF w1(2)]) simp
      from less.hyps [OF n(2) this, of "next_cc cc"] obtain w' pk t where
        "push_section wr pid False (next_cc cc) (drop n p) w1 = Inr (cc_after (next_cc cc) (length pk), w')"
        "wrote m w1 (concat pk) w'" "ts_collect pid (next_cc cc) pk = Some (drop n p @ t)" by auto
      then show ?thesis
        using e s n(1) wrote_trans [OF w1(2)] by (intro exI [of _ w'] exI [of _ "q # pk"] exI [of _ t]) simp
    qed
  qed
qed

lemma push_section_unit:
  assumes "pid < 0x2000" and "ok (188 + (2 * length p + m)) w" and "p \<noteq> []"
  shows "\<exists>w' pk s. push_section wr pid True cc p w = Inr (cc_after cc (length pk), w') \<and>
           wrote m w (concat pk) w' \<and> ts_unit pid cc pk = Some (None, 0 # p @ s)"
proof -
  define n where "n = min 183 (length p)"
  define q where "q = section_packet pid True (next_cc cc) (take n p)"
  have l: "length q = 188" unfolding q_def by (rule length_section_packet) (simp add: n_def)
  obtain s where s: "ts_parse q = Some \<lparr>ts_pid = pid, ts_start = True, ts_cc = next_cc cc, ts_pcr = None,
        ts_payload = 0 # take n p @ s\<rparr>" "n = 183 \<longrightarrow> s = []"
    using section_packet_parse [OF assms(1) next_cc_small, of "take n p" True cc] unfolding q_def n_def by auto
  obtain w1 where w1: "wr q w = Inr w1" "wrote (2 * length p + m) w q w1"
    using wr_packet [OF assms(2) l] by blast
  have e: "push_section wr pid True cc p w = push_section wr pid False (next_cc cc) (drop n p) w1"
    using assms(3) w1(1) by (subst push_section.simps) (simp add: Let_def n_def q_def)
  show ?thesis
  proof (cases "drop n p = []")
    case True
    moreover have "take n p = p" using True by simp
    ultimately show ?thesis
      using e s wrote_less [OF w1(2), of m]
      by (intro exI [of _ w1] exI [of _ "[q]"]) (simp add: push_section.simps)
  next
    case False
    then have n: "n = 183" by (auto simp: n_def min_def split: if_splits)
    have "ok (188 + (2 * length (drop n p) + m)) w1" using n False by (intro wrote_ok [OF w1(2)]) simp
    from push_section_collect [OF assms(1) this, of "next_cc cc"] obtain w' pk t where
      "push_section wr pid False (next_cc cc) (drop n p) w1 = Inr (cc_after (next_cc cc) (length pk), w')"
      "wrote m w1 (concat pk) w'" "ts_collect pid (next_cc cc) pk = Some (drop n p @ t)" by auto
    then show ?thesis
      using e s n wrote_trans [OF w1(2)] by (intro exI [of _ w'] exI [of _ "q # pk"] exI [of _ t]) simp
  qed
qed

end

lemma take_bit_or_high: "take_bit n (0xb000 :: u16) = 0 \<Longrightarrow> take_bit n (v OR 0xb000 :: u16) = take_bit n v"
  by (simp add: take_bit_or)

lemma section_length: "n < 4096 \<Longrightarrow> unat (take_bit 12 (of_nat n OR 0xb000 :: u16)) = n"
  by (simp add: take_bit_or unsigned_take_bit_eq unat_of_nat take_bit_nat_eq_self)

lemma parse_section_head:
  assumes "length d \<le> 1012" and "s = section_head table_id tid version 0 0 d"
  shows "parse_section (0 # (s @ WriteUint32T (crc_of s)) @ rest) = Some (table_id, tid, d)"
proof -
  define e where "e = WriteUint32T (crc_of s) @ rest"
  let ?l = "of_nat (5 + 4 + length d) OR 0xb000 :: u16"
  have s: "s @ e = table_id # WriteUint16T ?l @ WriteUint16T tid @ (0xc1 OR push_bit 1 version) # 0 # 0 # d @ e"
    by (simp add: assms(2) section_head_def)
  have n: "unat (take_bit 12 ?l) = 9 + length d"
    using section_length [of "9 + length d"] assms(1) by simp
  have l: "length s = 8 + length d" by (simp add: assms(2) section_head_def)
  have "take (12 + length d) (s @ e) = s @ WriteUint32T (crc_of s)" using l by (simp add: e_def)
  then have c: "crc_of (take (12 + length d) (s @ e)) = 0" by (simp only: crc_check)
  have "drop 3 (s @ e) = drop 2 (drop 1 (s @ e))" "drop 8 (s @ e) = drop 5 (drop 2 (drop 1 (s @ e)))"
    by (simp_all only: drop_drop) simp_all
  moreover have "drop 2 (WriteUint16T v @ r) = r" for v r by (simp add: WriteUint16T_def)
  ultimately have d: "ReadUint16T (drop 1 (s @ e)) = Inr ?l" "ReadUint16T (drop 3 (s @ e)) = Inr tid"
    "take (length d) (drop 8 (s @ e)) = d" "(s @ e) ! 0 = table_id"
    unfolding s by simp_all
  have "parse_section (0 # s @ e) = Some (table_id, tid, d)"
    using n c l d by (simp add: parse_section_def Let_def e_def)
  then show ?thesis by (simp add: e_def)
qed

definition tab_ok :: "u32 list option \<Rightarrow> bool" where
  "tab_ok tab \<longleftrightarrow> tab = None \<or> tab = Some (crc32_make_table crc_poly False)"

lemma CRC32_tab: "tab_ok tab \<Longrightarrow> \<exists>tab'. CRC32 d tab = (crc_of d, tab') \<and> tab_ok tab'"
  by (auto simp: tab_ok_def CRC32_new)

lemma low13: "take_bit 13 (push_bit 8 (ucast (ucast (drop_bit 8 (0xe000 OR p)) :: u8)) OR ucast (ucast (0xe000 OR p :: u16) :: u8)) =
    (take_bit 13 p :: u16)"
  unfolding u16_split by (simp add: take_bit_or)

lemma low12: "take_bit 12 (push_bit 8 (ucast (ucast (drop_bit 8 (0xf000 :: u16)) :: u8)) OR ucast (ucast (0xf000 :: u16) :: u8)) =
    (0 :: u16)"
  unfolding u16_split by simp

lemma parse_pat_section: "parse_pat (pat_section PatWriter_new) = Some [(1, 0x1001)]"
  unfolding pat_section_def WriteUint16T_def
  by (simp only: append.simps parse_pat.simps low13 u16_split) (simp add: PatWriter_new_def)

lemma parse_pmt_section:
  "parse_pmt (pmt_section x) =
     Some (take_bit 13 (pmt_pcr_pid x), map (\<lambda>p. (pi_stream_type p, take_bit 13 (pi_elementary_pid p))) (pmt_programs x))"
proof -
  have "parse_programs (concat (map program_bytes ps)) = Some (map (\<lambda>p. (pi_stream_type p, take_bit 13 (pi_elementary_pid p))) ps)" for ps
  proof (induction ps)
    case (Cons p ps)
    then show ?case
      unfolding list.map concat.simps program_bytes_def WriteUint16T_def append.simps parse_programs.simps low12 low13 by simp
  qed simp
  then show ?thesis
    unfolding pmt_section_def WriteUint16T_def append.simps parse_pmt.simps low12 low13 by simp
qed

lemma length_pmt_section: "length (pmt_section x) = 4 + 5 * length (pmt_programs x)"
proof -
  have "length (concat (map program_bytes ps)) = 5 * length ps" for ps
    by (induction ps) (simp_all add: program_bytes_def)
  then show ?thesis by (simp add: pmt_section_def)
qed

text \<open>The array on the stack is overrun by the 202nd program; \<open>TsEncoder\<close> never removes one.\<close>

lemma WritePmt_overrun: "201 < length (pmt_programs x) \<Longrightarrow> WritePmt wr x tab w = Inl OutOfBounds"
  by (auto simp: WritePmt_def WriteSection_def length_pmt_section on_psi_def)

lemma truncate_simps [simp]:
  "psi_cc (PSIWriter.truncate x) = psi_cc x" "psi_pid (PSIWriter.truncate x) = psi_pid x"
  "psi_table_id (PSIWriter.truncate x) = psi_table_id x"
  by (simp_all add: PSIWriter.truncate_def)

lemma on_psi_ok: "on_psi x (Inr ((PSIWriter.truncate x)\<lparr>psi_cc := c\<rparr>, v)) = Inr (x\<lparr>psi_cc := c\<rparr>, v)"
  by (cases x) (simp add: on_psi_def PSIWriter.extend_def PSIWriter.truncate_def)

text \<open>What the constructors set and nothing changes; the number of programs that still fit.\<close>

definition pat_inv :: "PatWriter \<Rightarrow> bool" where
  "pat_inv x \<longleftrightarrow> x = PatWriter_new\<lparr>psi_cc := psi_cc x\<rparr>"

definition pmt_inv :: "PmtWriter \<Rightarrow> bool" where
  "pmt_inv x \<longleftrightarrow> psi_pid x = 0x1001 \<and> psi_table_id x = 2 \<and> length (pmt_programs x) \<le> 201"

definition program_map :: "PmtWriter \<Rightarrow> u16 \<times> (u8 \<times> u16) list" where
  "program_map x =
     (take_bit 13 (pmt_pcr_pid x), map (\<lambda>p. (pi_stream_type p, take_bit 13 (pi_elementary_pid p))) (pmt_programs x))"

context stream_writer begin

lemma WriteSection_ok:
  assumes "length d \<le> 1012" and "tab_ok tab" and "psi_pid x < 0x2000" and "ok (188 + (2 * (length d + 12) + m)) w"
  shows "\<exists>tab' w' pk body. WriteSection wr tid 0 0 d x tab w = Inr (x\<lparr>psi_cc := cc_after (psi_cc x) (length pk)\<rparr>, tab', w') \<and>
           tab_ok tab' \<and> wrote m w (concat pk) w' \<and> ts_unit (psi_pid x) (psi_cc x) pk = Some (None, body) \<and>
           parse_section body = Some (psi_table_id x, tid, d)"
proof -
  define s where "s = section_head (psi_table_id x) tid (psi_version x) 0 0 d"
  obtain tab' where t: "CRC32 s tab = (crc_of s, tab')" "tab_ok tab'" using CRC32_tab [OF assms(2)] by blast
  have l: "length (s @ WriteUint32T (crc_of s)) = length d + 12" by (simp add: s_def section_head_def)
  then have "s @ WriteUint32T (crc_of s) \<noteq> []" by auto
  then obtain w' pk r where
    "push_section wr (psi_pid x) True (psi_cc x) (s @ WriteUint32T (crc_of s)) w = Inr (cc_after (psi_cc x) (length pk), w')"
    "wrote m w (concat pk) w'"
    "ts_unit (psi_pid x) (psi_cc x) pk = Some (None, 0 # (s @ WriteUint32T (crc_of s)) @ r)"
    using push_section_unit [OF assms(3), of "s @ WriteUint32T (crc_of s)" m w "psi_cc x"] assms(4) unfolding l by blast
  moreover from this have "PushSection wr (s @ WriteUint32T (crc_of s)) x w = Inr (x\<lparr>psi_cc := cc_after (psi_cc x) (length pk)\<rparr>, w')"
    by (simp add: PushSection_def)
  ultimately show ?thesis
    using assms(1) t parse_section_head [OF assms(1) s_def]
    by (intro exI [of _ tab'] exI [of _ w'] exI [of _ pk]) (simp add: WriteSection_def Let_def flip: s_def)
qed

lemma WritePat_ok:
  assumes "pat_inv x" and "tab_ok tab" and "ok (188 + (32 + m)) w"
  shows "\<exists>tab' w' pk body. WritePat wr x tab w = Inr (x\<lparr>psi_cc := cc_after (psi_cc x) (length pk)\<rparr>, tab', w') \<and>
           tab_ok tab' \<and> wrote m w (concat pk) w' \<and> ts_unit 0 (psi_cc x) pk = Some (None, body) \<and>
           (\<exists>d. parse_section body = Some (0, 1, d) \<and> parse_pat d = Some [(1, 0x1001)])"
proof -
  let ?y = "PSIWriter.truncate x" and ?d = "pat_section PatWriter_new"
  have x: "pat_section x = ?d" "pat_transport_stream_id x = 1" "psi_pid x = 0" "psi_table_id x = 0"
    by (subst assms(1) [unfolded pat_inv_def], simp add: pat_section_def PatWriter_new_def)+
  have "length ?d = 4" by (simp add: pat_section_def)
  then obtain tab' w' pk body where "WriteSection wr 1 0 0 ?d ?y tab w =
      Inr (?y\<lparr>psi_cc := cc_after (psi_cc x) (length pk)\<rparr>, tab', w')"
    "tab_ok tab'" "wrote m w (concat pk) w'" "ts_unit 0 (psi_cc x) pk = Some (None, body)"
    "parse_section body = Some (0, 1, ?d)"
    using WriteSection_ok [of ?d tab ?y m w 1] assms(2,3) x by auto
  then show ?thesis
    using parse_pat_section
    by (intro exI [of _ tab'] exI [of _ w'] exI [of _ pk] exI [of _ body])
      (simp add: WritePat_def on_psi_ok x)
qed

lemma WritePmt_ok:
  assumes "pmt_inv x" and "tab_ok tab" and "ok (188 + (2232 + m)) w"
  shows "\<exists>tab' w' pk body. WritePmt wr x tab w = Inr (x\<lparr>psi_cc := cc_after (psi_cc x) (length pk)\<rparr>, tab', w') \<and>
           tab_ok tab' \<and> wrote m w (concat pk) w' \<and> ts_unit 0x1001 (psi_cc x) pk = Some (None, body) \<and>
           (\<exists>d. parse_section body = Some (2, 1, d) \<and> parse_pmt d = Some (program_map x))"
proof -
  let ?y = "PSIWriter.truncate x" and ?d = "pmt_section x"
  have l: "length ?d \<le> 1012" using assms(1) by (simp add: pmt_inv_def length_pmt_section)
  have "ok (188 + (2 * (length ?d + 12) + m)) w" using l by (intro ok_less [OF assms(3)]) simp
  then obtain tab' w' pk body where "WriteSection wr 1 0 0 ?d ?y tab w =
      Inr (?y\<lparr>psi_cc := cc_after (psi_cc x) (length pk)\<rparr>, tab', w')"
    "tab_ok tab'" "wrote m w (concat pk) w'" "ts_unit 0x1001 (psi_cc x) pk = Some (None, body)"
    "parse_section body = Some (2, 1, ?d)"
    using WriteSection_ok [of ?d tab ?y m w 1] assms(1,2) l by (auto simp: pmt_inv_def)
  then show ?thesis
    using parse_pmt_section l
    by (intro exI [of _ tab'] exI [of _ w'] exI [of _ pk] exI [of _ body])
      (simp add: WritePmt_def on_psi_ok kSectionMaxSize_def program_map_def)
qed

text \<open>Tables leave the parameter sets of the writer alone.\<close>

lemma push_section_base: "push_section wr pid first cc p w = Inr (cc', w') \<Longrightarrow> same_base w w'"
proof (induction "length p" arbitrary: first cc p w rule: less_induct)
  case less
  show ?case
  proof (cases "p = []")
    case True
    with less.prems show ?thesis by (simp add: push_section.simps same_base_def)
  next
    case False
    define n where "n = min (if first then 183 else 184) (length p)"
    from less.prems False obtain w1 where w1: "wr (section_packet pid first (next_cc cc) (take n p)) w = Inr w1"
      "push_section wr pid False (next_cc cc) (drop n p) w1 = Inr (cc', w')"
      by (subst (asm) push_section.simps) (auto simp: Let_def n_def result_simps)
    moreover have "length (drop n p) < length p" using False by (auto simp: n_def)
    ultimately have "same_base w1 w'" using less.hyps by blast
    with wr_base [OF w1(1)] show ?thesis by (simp add: same_base_def)
  qed
qed

lemma WriteSection_base: "WriteSection wr tid a b d x tab w = Inr (x', tab', w') \<Longrightarrow> same_base w w'"
  by (auto simp: WriteSection_def PushSection_def Let_def result_simps split: if_splits prod.splits dest!: push_section_base)

lemma WritePat_base: "WritePat wr x tab w = Inr (x', tab', w') \<Longrightarrow> same_base w w'"
  by (auto simp: WritePat_def on_psi_def result_simps dest!: WriteSection_base)

lemma WritePmt_base: "WritePmt wr x tab w = Inr (x', tab', w') \<Longrightarrow> same_base w w'"
  by (auto simp: WritePmt_def on_psi_def result_simps split: if_splits dest!: WriteSection_base)

end

end
