(* ===== verification/Demux.thy ===== *)
theory Demux
  imports Packet
begin

text \<open>
  \<open>mmedia/demux/AudioDemux.cc\<close> and \<open>VideoDemux.cc\<close>, with the bit reader \<open>NalBitStream.cc\<close>: the
  samples in the body of an FLV audio or video tag. A \<open>const char *\<close> is the list of the bytes from
  the pointer to the end of its object; a \<open>size_t\<close> is a 64-bit word, whose subtractions wrap.
  Members that are set before every use start as 0 here.
\<close>

record SampleBuf =
  sb_addr :: bytes
  sb_size :: u64

lemma rbind_cong [fundef_cong]:
  "r = r' \<Longrightarrow> (\<And>x. r' = Inr x \<Longrightarrow> f x = g x) \<Longrightarrow> rbind r f = rbind r' g"
  by (cases r') auto

section \<open>Bits\<close>

record NalBitStream =
  nb_data :: bytes
  nb_len :: nat
  nb_bits_count :: nat
  nb_byte_idx :: nat
  nb_byte :: u8

definition NalBitStream_new :: "bytes \<Rightarrow> nat \<Rightarrow> NalBitStream" where
  "NalBitStream_new data len = \<lparr>nb_data = data, nb_len = len, nb_bits_count = 0, nb_byte_idx = 0, nb_byte = 0\<rparr>"

text \<open>The byte 3 after two zero bytes is skipped: it only keeps start codes out of the data.\<close>

definition GetByte :: "NalBitStream \<Rightarrow> (u8 \<times> NalBitStream) result" where
  "GetByte s =
     (let i = nb_byte_idx s
      in if nb_len s \<le> i then Inr (0, s)
         else rbind (nth_checked (nb_data s) i) (\<lambda>b.
              let i = (if b = 3 \<and> 2 \<le> i \<and> nb_data s ! (i - 1) = 0 \<and> nb_data s ! (i - 2) = 0 then i + 1 else i)
              in rbind (nth_checked (nb_data s) i) (\<lambda>b. Inr (b, s\<lparr>nb_byte_idx := i + 1\<rparr>))))"

definition GetBit :: "NalBitStream \<Rightarrow> (u8 \<times> NalBitStream) result" where
  "GetBit s =
     rbind (if nb_bits_count s = 0 then rbind (GetByte s) (\<lambda>(b, s). Inr (s\<lparr>nb_byte := b, nb_bits_count := 8\<rparr>)) else Inr s)
       (\<lambda>s. let n = nb_bits_count s - 1 in Inr (drop_bit n (nb_byte s) AND 1, s\<lparr>nb_bits_count := n\<rparr>))"

primrec get_word :: "nat \<Rightarrow> u16 \<Rightarrow> NalBitStream \<Rightarrow> (u16 \<times> NalBitStream) result" where
  "get_word 0 u s = Inr (u, s)"
| "get_word (Suc n) u s = rbind (GetBit s) (\<lambda>(b, s). get_word n (push_bit 1 u OR ucast b) s)"

definition GetWord :: "nat \<Rightarrow> NalBitStream \<Rightarrow> (u16 \<times> NalBitStream) result" where
  "GetWord bits s = get_word bits 0 s"

text \<open>
  The wider reads, which nothing calls yet. A \<open>GetWord\<close> keeps sixteen bits. An exponential Golomb
  code is \<open>zeros\<close> zero bits, a one, and as many bits more; the shift of \<open>1\<close> is defined in C++ for
  fewer than 31 of them.
\<close>

definition GetBitLong :: "nat \<Rightarrow> NalBitStream \<Rightarrow> (u32 \<times> NalBitStream) result" where
  "GetBitLong n s =
     (if n = 0 then Inr (0, s)
      else if n \<le> 16 then rbind (GetWord n s) (\<lambda>(u, s). Inr (ucast u, s))
      else rbind (GetWord 16 s) (\<lambda>(u, s). rbind (GetWord (n - 16) s) (\<lambda>(v, s).
             Inr (push_bit (n - 16) (ucast u) OR ucast v, s))))"

definition GetBit64 :: "nat \<Rightarrow> NalBitStream \<Rightarrow> (u64 \<times> NalBitStream) result" where
  "GetBit64 n s =
     (if n \<le> 32 then rbind (GetBitLong n s) (\<lambda>(u, s). Inr (ucast u, s))
      else rbind (GetBitLong (n - 32) s) (\<lambda>(u, s). rbind (GetBitLong 32 s) (\<lambda>(v, s).
             Inr (push_bit 32 (ucast u) OR ucast v, s))))"

definition bits_left :: "NalBitStream \<Rightarrow> nat" where
  "bits_left s = 8 * (nb_len s - nb_byte_idx s) + nb_bits_count s"

lemma GetBit_less: "GetBit s = Inr (b, s') \<Longrightarrow> nb_byte_idx s < nb_len s \<Longrightarrow> bits_left s' < bits_left s"
  by (auto simp: GetBit_def GetByte_def Let_def bits_left_def result_simps split: if_splits)

function count_zeros :: "nat \<Rightarrow> NalBitStream \<Rightarrow> (nat \<times> NalBitStream) result" where
  "count_zeros zeros s =
     (if nb_byte_idx s < nb_len s
      then rbind (GetBit s) (\<lambda>(b, s). if b = 0 then count_zeros (zeros + 1) s else Inr (zeros, s))
      else Inr (zeros, s))"
  by pat_completeness auto
termination by (relation "measure (\<lambda>(zeros, s). bits_left s)") (auto dest: GetBit_less)

declare count_zeros.simps [simp del]

definition GetUE :: "NalBitStream \<Rightarrow> (u32 \<times> NalBitStream) result" where
  "GetUE s = rbind (count_zeros 0 s) (\<lambda>(zeros, s). rbind (GetWord zeros s) (\<lambda>(u, s).
     Inr (ucast u + (push_bit zeros 1 - 1), s)))"

definition GetSE :: "NalBitStream \<Rightarrow> (int \<times> NalBitStream) result" where
  "GetSE s = rbind (GetUE s) (\<lambda>(ue, s).
     let se = sint (drop_bit 1 (ue + 1)) in Inr (if bit ue 0 then se else - se, s))"

text \<open>The bits \<open>00101\<close> are the number 4; in the last byte of the data they are read as 1, for the count of zeros stops there.\<close>

lemma ue_in_last_byte:
  "map_sum (\<lambda>_. ()) fst (GetUE (NalBitStream_new [0x28, 0] 2)) = Inr 4"
  "map_sum (\<lambda>_. ()) fst (GetUE (NalBitStream_new [0x28] 1)) = Inr 1"
  by code_simp+

section \<open>Audio\<close>

definition kAudioCodecIDMP3 :: u8 where "kAudioCodecIDMP3 = 2"
definition kAudioCodecIDReserved :: u8 where "kAudioCodecIDReserved = 9"
definition kAudioCodecIDAAC :: u8 where "kAudioCodecIDAAC = 10"

record AudioDemux =
  ad_sound_format :: u8
  ad_sound_rate :: u8
  ad_sound_size :: u8
  ad_sound_type :: u8
  ad_aac_object :: u16
  ad_aac_sample_rate :: u16
  ad_aac_channel :: u8
  ad_aac_ok :: bool

definition AudioDemux_new :: AudioDemux where
  "AudioDemux_new = \<lparr>ad_sound_format = 0, ad_sound_rate = 0, ad_sound_size = 0, ad_sound_type = 0,
     ad_aac_object = 0, ad_aac_sample_rate = 0, ad_aac_channel = 0, ad_aac_ok = False\<rparr>"

definition DemuxAACSequenceHeader :: "bytes \<Rightarrow> int \<Rightarrow> AudioDemux \<Rightarrow> (int \<times> AudioDemux) result" where
  "DemuxAACSequenceHeader data sz a =
     (if sz < 2 then Inr (-1, a)
      else rbind (GetWord 4 (NalBitStream_new data (nat sz))) (\<lambda>(object, s).
           rbind (GetWord 5 s) (\<lambda>(rate, s).
           rbind (GetWord 4 s) (\<lambda>(channel, s).
             Inr (0, a\<lparr>ad_aac_object := object, ad_aac_sample_rate := rate, ad_aac_channel := ucast channel, ad_aac_ok := True\<rparr>)))))"

definition DemuxAAC :: "bytes \<Rightarrow> u64 \<Rightarrow> SampleBuf list \<Rightarrow> AudioDemux \<Rightarrow> (int \<times> SampleBuf list \<times> AudioDemux) result" where
  "DemuxAAC data sz list a =
     rbind (nth_checked data 1) (\<lambda>type.
       if type = 0 then
         if sz - 2 > 0
         then rbind (DemuxAACSequenceHeader (drop 2 data) (sint (ucast (sz - 2) :: u32)) a) (\<lambda>(ret, a). Inr (ret, list, a))
         else Inr (0, list, a)
       else if type = 1 then
         if \<not> ad_aac_ok a then Inr (-1, list, a)
         else Inr (0, list @ [\<lparr>sb_addr = drop 2 data, sb_size = sz - 2\<rparr>], a)
       else Inr (0, list, a))"

definition DemuxMP3 :: "bytes \<Rightarrow> u64 \<Rightarrow> SampleBuf list \<Rightarrow> SampleBuf list" where
  "DemuxMP3 data sz list = list @ [\<lparr>sb_addr = drop 1 data, sb_size = sz - 1\<rparr>]"

definition AudioDemux_OnDemux ::
    "bytes \<Rightarrow> u64 \<Rightarrow> SampleBuf list \<Rightarrow> AudioDemux \<Rightarrow> (int \<times> SampleBuf list \<times> AudioDemux) result" where
  "AudioDemux_OnDemux data sz list a =
     (if sz < 1 then Inr (-1, list, a)
      else rbind (nth_checked data 0) (\<lambda>b.
        let format = drop_bit 4 b;
            a = a\<lparr>ad_sound_format := format, ad_sound_rate := drop_bit 2 (b AND 0xc0),
                  ad_sound_size := drop_bit 1 (b AND 0x02), ad_sound_type := b AND 0x01\<rparr>
        in if format = kAudioCodecIDMP3 then Inr (0, DemuxMP3 data sz list, a)
           else if format = kAudioCodecIDAAC then DemuxAAC data sz list a
           else Inr (-1, list, a)))"

section \<open>Video\<close>

definition kVideoCodecIDReserved :: u8 where "kVideoCodecIDReserved = 0"
definition kVideoCodecIDAVC :: u8 where "kVideoCodecIDAVC = 7"
definition kNaluTypeIDR :: u8 where "kNaluTypeIDR = 5"
definition kNaluTypePPS :: u8 where "kNaluTypePPS = 8"
definition kNaluTypeAccessUnitDelimiter :: u8 where "kNaluTypeAccessUnitDelimiter = 9"
definition kNaluTypeSubsetSPS :: u8 where "kNaluTypeSubsetSPS = 15"

lemmas nalu_type_defs = kNaluTypeIDR_def kNaluTypePPS_def kNaluTypeAccessUnitDelimiter_def kNaluTypeSubsetSPS_def

datatype AVCPayloadFormat = kPayloadFormatUnknowed | kPayloadFormatAvcc | kPayloadFormatAnnexB

record VideoDemux =
  vd_codec_id :: u8
  vd_composition_time :: int
  vd_config_version :: u8
  vd_profile :: u8
  vd_profile_com :: u8
  vd_level :: u8
  vd_nalu_unit_length :: u8
  vd_sps :: bytes
  vd_pps :: bytes
  vd_payload_format :: AVCPayloadFormat
  vd_has_aud :: bool
  vd_has_idr :: bool
  vd_has_sps_pps :: bool

definition VideoDemux_new :: VideoDemux where
  "VideoDemux_new = \<lparr>vd_codec_id = 0, vd_composition_time = 0, vd_config_version = 0, vd_profile = 0, vd_profile_com = 0,
     vd_level = 0, vd_nalu_unit_length = 0, vd_sps = [], vd_pps = [], vd_payload_format = kPayloadFormatUnknowed,
     vd_has_aud = False, vd_has_idr = False, vd_has_sps_pps = False\<rparr>"

definition VideoDemux_Reset :: "VideoDemux \<Rightarrow> VideoDemux" where
  "VideoDemux_Reset v = v\<lparr>vd_has_aud := False, vd_has_idr := False, vd_has_sps_pps := False\<rparr>"

definition nalu_type :: "u8 \<Rightarrow> u8" where
  "nalu_type b = b AND 0x1f"

definition check_nalu :: "u8 \<Rightarrow> VideoDemux \<Rightarrow> VideoDemux" where
  "check_nalu b v =
     (if nalu_type b = kNaluTypeIDR then v\<lparr>vd_has_idr := True\<rparr>
      else if nalu_type b = kNaluTypeAccessUnitDelimiter then v\<lparr>vd_has_aud := True\<rparr>
      else if nalu_type b = kNaluTypeSubsetSPS \<or> nalu_type b = kNaluTypePPS then v\<lparr>vd_has_sps_pps := True\<rparr>
      else v)"

definition CheckNaluType :: "bytes \<Rightarrow> VideoDemux \<Rightarrow> VideoDemux result" where
  "CheckNaluType data v = rbind (nth_checked data 0) (\<lambda>b. Inr (check_nalu b v))"

text \<open>The length in front of a unit: of three bytes only the first is read, as a signed \<open>char\<close>.\<close>

definition nalu_length :: "u8 \<Rightarrow> bytes \<Rightarrow> u32 result" where
  "nalu_length unit data =
     (if unit = 3 then ReadUint32T data
      else if unit = 1 then rbind (ReadUint16T data) (\<lambda>n. Inr (ucast n))
      else rbind (nth_checked data 0) (\<lambda>b. Inr (scast b)))"

lemma nalu_length_nonempty: "nalu_length unit data = Inr n \<Longrightarrow> data \<noteq> []"
  by (cases data) (auto simp: nalu_length_def nth_checked_def split: if_splits)

function DecodeAVCNaluAvcc ::
    "bytes \<Rightarrow> u64 \<Rightarrow> SampleBuf list \<Rightarrow> VideoDemux \<Rightarrow> (int \<times> SampleBuf list \<times> VideoDemux) result" where
  "DecodeAVCNaluAvcc data sz outs v =
     (if \<not> 1 < sz then Inr (0, outs, v)
      else rbind (nalu_length (vd_nalu_unit_length v) data) (\<lambda>n.
        let k = unat (vd_nalu_unit_length v) + 1; rest = drop k data; left = sz - of_nat k
        in if ucast n > left \<or> left = 0 then Inr (-1, outs, v)
           else rbind (CheckNaluType rest v) (\<lambda>v.
             DecodeAVCNaluAvcc (drop (unat n) rest) (left - ucast n) (outs @ [\<lparr>sb_addr = rest, sb_size = ucast n\<rparr>]) v)))"
  by pat_completeness auto
termination
  by (relation "measure (\<lambda>(data, sz, outs, v). length data)") (auto dest: nalu_length_nonempty)

declare DecodeAVCNaluAvcc.simps [simp del]

text \<open>Positions count from \<open>data\<close>; the end is before it when the size has wrapped.\<close>

function find_annexb :: "bytes \<Rightarrow> int \<Rightarrow> int \<Rightarrow> int result" where
  "find_annexb data p e =
     (if \<not> p + 1 < e then Inr e
      else rbind (nth_checked data (nat p)) (\<lambda>c.
        if c = 1 \<and> data ! nat (p - 1) = 0 \<and> data ! nat (p - 2) = 0 then Inr (p + 1) else find_annexb data (p + 1) e))"
  by pat_completeness auto
termination by (relation "measure (\<lambda>(data, p, e). nat (e - p))") auto

declare find_annexb.simps [simp del]

definition FindAnnexbNalu :: "bytes \<Rightarrow> int \<Rightarrow> int \<Rightarrow> int result" where
  "FindAnnexbNalu data p e = find_annexb data (p + 2) e"

lemma find_annexb_later: "find_annexb data p e = Inr r \<Longrightarrow> p < r \<or> r = e"
proof (induction data p e rule: find_annexb.induct)
  case (1 data p e)
  from "1.prems" show ?case
    using "1.IH" by (subst (asm) find_annexb.simps) (fastforce simp: result_simps split: if_splits)
qed

function annexb_loop ::
    "bytes \<Rightarrow> int \<Rightarrow> int \<Rightarrow> u64 \<Rightarrow> int \<Rightarrow> int \<Rightarrow> SampleBuf list \<Rightarrow> VideoDemux \<Rightarrow> (int \<times> SampleBuf list \<times> VideoDemux) result" where
  "annexb_loop data e d sz start ret outs v =
     (if \<not> start < e then Inr (ret, outs, v)
      else rbind (FindAnnexbNalu data (start + 1) e) (\<lambda>next_start.
        let n = word_of_int (next_start - start)
        in if n > sz \<or> sz = 0 then Inr (-1, outs, v)
           else rbind (CheckNaluType (drop (nat d) data) v) (\<lambda>v.
             annexb_loop data e (d + (next_start - start)) (sz - n) next_start 0
               (outs @ [\<lparr>sb_addr = drop (nat d) data, sb_size = n\<rparr>]) v)))"
  by pat_completeness auto
termination
  by (relation "measure (\<lambda>(data, e, d, sz, start, ret, outs, v). nat (e - start))")
    (auto simp: FindAnnexbNalu_def dest!: find_annexb_later)

declare annexb_loop.simps [simp del]

definition DecodeAVCNaluAnnexb ::
    "bytes \<Rightarrow> u64 \<Rightarrow> SampleBuf list \<Rightarrow> VideoDemux \<Rightarrow> (int \<times> SampleBuf list \<times> VideoDemux) result" where
  "DecodeAVCNaluAnnexb data sz outs v =
     (if sz < 3 then Inr (-1, outs, v)
      else rbind (FindAnnexbNalu data 0 (sint sz)) (\<lambda>start. annexb_loop data (sint sz) 0 sz start (-1) outs v))"

text \<open>
  \<open>assign(p, n)\<close> of a \<open>std::string\<close>: a negative length becomes a huge \<open>size_t\<close>, which throws, shown
  as the fault of a failed allocation.
\<close>

definition assign_bytes :: "bytes \<Rightarrow> int \<Rightarrow> bytes result" where
  "assign_bytes data n = (if n < 0 then Inl BadAlloc else slice_checked data 0 (nat n))"

definition DecodeAVCSeqHeader :: "bytes \<Rightarrow> u64 \<Rightarrow> VideoDemux \<Rightarrow> (int \<times> VideoDemux) result" where
  "DecodeAVCSeqHeader data sz v =
     (if sz < 5 then Inr (-1, v)
      else rbind (slice_checked data 0 5) (\<lambda>h.
        let v = v\<lparr>vd_config_version := h ! 0, vd_profile := h ! 1, vd_profile_com := h ! 2, vd_level := h ! 3,
                  vd_nalu_unit_length := h ! 4 AND 0x03\<rparr>;
            data = drop 5 data; sz = sz - 5
        in if sz < 3 then Inr (-1, v)
           else rbind (nth_checked data 0) (\<lambda>_. rbind (ReadUint16T (drop 1 data)) (\<lambda>n.
             let sps_length = sint n
             in rbind (assign_bytes (drop 3 data) sps_length) (\<lambda>sps.
                let v = v\<lparr>vd_sps := sps\<rparr>;
                    data = drop (3 + nat sps_length) data; sz = sz - 3 - word_of_int sps_length
                in if sz < 3 then Inr (-1, v)
                   else rbind (nth_checked data 0) (\<lambda>_. rbind (ReadUint16T (drop 1 data)) (\<lambda>n.
                     rbind (assign_bytes (drop 3 data) (sint n)) (\<lambda>pps. Inr (0, v\<lparr>vd_pps := pps\<rparr>)))))))))"

definition DecodeAVCNalu ::
    "bytes \<Rightarrow> u64 \<Rightarrow> SampleBuf list \<Rightarrow> VideoDemux \<Rightarrow> (int \<times> SampleBuf list \<times> VideoDemux) result" where
  "DecodeAVCNalu data sz outs v =
     (case vd_payload_format v of
        kPayloadFormatUnknowed \<Rightarrow>
          rbind (DecodeAVCNaluAvcc data sz outs v) (\<lambda>(ret, outs, v).
            if ret = 0 then Inr (0, outs, v\<lparr>vd_payload_format := kPayloadFormatAvcc\<rparr>)
            else rbind (DecodeAVCNaluAnnexb data sz outs v) (\<lambda>(ret, outs, v).
              if ret = 0 then Inr (0, outs, v\<lparr>vd_payload_format := kPayloadFormatAnnexB\<rparr>) else Inr (-1, outs, v)))
      | kPayloadFormatAvcc \<Rightarrow> DecodeAVCNaluAvcc data sz outs v
      | kPayloadFormatAnnexB \<Rightarrow> DecodeAVCNaluAnnexb data sz outs v)"

definition DemuxAVC ::
    "bytes \<Rightarrow> u64 \<Rightarrow> SampleBuf list \<Rightarrow> VideoDemux \<Rightarrow> (int \<times> SampleBuf list \<times> VideoDemux) result" where
  "DemuxAVC data sz outs v =
     rbind (nth_checked data 0) (\<lambda>b.
       if drop_bit 4 b = 5 then Inr (0, outs, v)
       else rbind (nth_checked data 1) (\<lambda>type. rbind (ReadUint24T (drop 2 data)) (\<lambda>cst.
         let v = v\<lparr>vd_composition_time := uint cst\<rparr>
         in if type = 0 then rbind (DecodeAVCSeqHeader (drop 5 data) (sz - 5) v) (\<lambda>(ret, v). Inr (ret, outs, v))
            else if type = 1 then DecodeAVCNalu (drop 5 data) (sz - 5) outs v
            else Inr (0, outs, v))))"

definition VideoDemux_OnDemux ::
    "bytes \<Rightarrow> u64 \<Rightarrow> SampleBuf list \<Rightarrow> VideoDemux \<Rightarrow> (int \<times> SampleBuf list \<times> VideoDemux) result" where
  "VideoDemux_OnDemux data sz outs v =
     rbind (nth_checked data 0) (\<lambda>b.
       let v = v\<lparr>vd_codec_id := b AND 0x0f\<rparr>
       in if b AND 0x0f \<noteq> kVideoCodecIDAVC then Inr (-1, outs, v) else DemuxAVC data sz outs v)"

section \<open>The units of a frame\<close>

lemma unat64: "n < 2 ^ 64 \<Longrightarrow> unat (of_nat n :: u64) = n"
  by (simp add: unat_of_nat)

text \<open>A frame as a publisher sends it: every unit behind its length of \<open>unit + 1\<close> bytes.\<close>

definition unit_prefix :: "u8 \<Rightarrow> nat \<Rightarrow> bytes" where
  "unit_prefix unit n = (if unit = 3 then WriteUint32T (of_nat n) else if unit = 1 then WriteUint16T (of_nat n) else [of_nat n])"

definition avcc_encode :: "u8 \<Rightarrow> bytes list \<Rightarrow> bytes" where
  "avcc_encode unit nals = concat (map (\<lambda>x. unit_prefix unit (length x) @ x) nals)"

definition nal_fits :: "u8 \<Rightarrow> bytes \<Rightarrow> bool" where
  "nal_fits unit x \<longleftrightarrow> x \<noteq> [] \<and>
     (unit = 3 \<and> length x < 2 ^ 32 \<or> unit = 1 \<and> length x < 2 ^ 16 \<or> unit = 0 \<and> length x < 2 ^ 7)"

definition sample_is :: "SampleBuf \<Rightarrow> bytes \<Rightarrow> bool" where
  "sample_is s x \<longleftrightarrow> length x < 2 ^ 63 \<and> sb_size s = of_nat (length x) \<and> (\<exists>r. sb_addr s = x @ r)"

lemma length_unit_prefix: "nal_fits unit x \<Longrightarrow> length (unit_prefix unit n) = unat unit + 1"
  by (auto simp: nal_fits_def unit_prefix_def)

lemma nalu_length_prefix:
  assumes "nal_fits unit x"
  shows "nalu_length unit (unit_prefix unit (length x) @ r) = Inr (of_nat (length x))"
proof -
  consider "unit = 3" | "unit = 1" "length x < 2 ^ 16" | "unit = 0" "length x < 2 ^ 7"
    using assms by (auto simp: nal_fits_def)
  then show ?thesis
  proof cases
    case 2
    then have "(ucast (of_nat (length x) :: u16) :: u32) = of_nat (length x)"
      by (simp add: unsigned_of_nat take_bit_nat_eq_self)
    with 2 show ?thesis by (simp add: nalu_length_def unit_prefix_def)
  next
    case 3
    then have "sint (of_nat (length x) :: u8) = int (length x)"
      by (simp add: signed_of_nat signed_take_bit_int_eq_self)
    then have "(scast (of_nat (length x) :: u8) :: u32) = of_nat (length x)"
      by (metis of_int_of_nat_eq of_int_sint)
    with 3 show ?thesis by (simp add: nalu_length_def unit_prefix_def nth_checked_def)
  qed (simp add: nalu_length_def unit_prefix_def)
qed

lemma check_nalu_fields [simp]:
  "vd_nalu_unit_length (check_nalu b v) = vd_nalu_unit_length v" "vd_sps (check_nalu b v) = vd_sps v"
  "vd_pps (check_nalu b v) = vd_pps v" "vd_composition_time (check_nalu b v) = vd_composition_time v"
  "vd_codec_id (check_nalu b v) = vd_codec_id v" "vd_payload_format (check_nalu b v) = vd_payload_format v"
  by (simp_all add: check_nalu_def)

definition check_nalus :: "bytes list \<Rightarrow> VideoDemux \<Rightarrow> VideoDemux" where
  "check_nalus nals v = foldl (\<lambda>v x. check_nalu (hd x) v) v nals"

lemma check_nalus_fields [simp]:
  "vd_nalu_unit_length (check_nalus xs v) = vd_nalu_unit_length v" "vd_sps (check_nalus xs v) = vd_sps v"
  "vd_pps (check_nalus xs v) = vd_pps v" "vd_composition_time (check_nalus xs v) = vd_composition_time v"
  "vd_codec_id (check_nalus xs v) = vd_codec_id v" "vd_payload_format (check_nalus xs v) = vd_payload_format v"
  by (induction xs arbitrary: v) (simp_all add: check_nalus_def)

lemma CheckNaluType_unit: "x \<noteq> [] \<Longrightarrow> CheckNaluType (x @ r) v = Inr (check_nalu (hd x) v)"
  by (cases x) (simp_all add: CheckNaluType_def nth_checked_def)

lemma DecodeAVCNaluAvcc_units:
  assumes "\<forall>x \<in> set nals. nal_fits (vd_nalu_unit_length v) x"
    and "length (avcc_encode (vd_nalu_unit_length v) nals) < 2 ^ 63"
  shows "\<exists>ss. DecodeAVCNaluAvcc (avcc_encode (vd_nalu_unit_length v) nals @ rest)
             (of_nat (length (avcc_encode (vd_nalu_unit_length v) nals))) outs v =
           Inr (0, outs @ ss, check_nalus nals v) \<and> list_all2 sample_is ss nals"
  using assms
proof (induction nals arbitrary: outs v)
  case Nil
  then show ?case by (simp add: avcc_encode_def DecodeAVCNaluAvcc.simps check_nalus_def)
next
  case (Cons x nals)
  let ?u = "vd_nalu_unit_length v" and ?r = "avcc_encode (vd_nalu_unit_length v) nals"
  have f: "nal_fits ?u x" "x \<noteq> []" using Cons.prems(1) by (auto simp: nal_fits_def)
  have e: "avcc_encode ?u (x # nals) = unit_prefix ?u (length x) @ x @ ?r" by (simp add: avcc_encode_def)
  note p = length_unit_prefix [OF f(1), of "length x"]
  define k where "k = unat ?u + 1"
  define left :: u64 where "left = of_nat (length x + length ?r)"
  have l: "k + length x + length ?r < 2 ^ 63" "0 < length x" using Cons.prems(2) f(2) p by (simp_all add: e k_def)
  have "unat (of_nat (k + length x + length ?r) :: u64) = k + length x + length ?r" "unat left = length x + length ?r"
    "unat (of_nat (length x) :: u64) = length x"
    using l unfolding left_def by (intro unat64; simp)+
  then have w: "(1 :: u64) < of_nat (k + length x + length ?r)" "\<not> of_nat (length x) > left" "left \<noteq> 0"
    using l by (simp_all add: word_less_nat_alt k_def unat_eq_zero flip: unat_gt_0)
  have x32: "length x < 2 ^ 32" using f(1) by (auto simp: nal_fits_def)
  then have u: "(ucast (of_nat (length x) :: u32) :: u64) = of_nat (length x)" "unat (of_nat (length x) :: u32) = length x"
    by (simp_all add: unsigned_of_nat take_bit_nat_eq_self unat_of_nat)
  have sz: "(of_nat (k + length x + length ?r) :: u64) - of_nat k = left" "left - of_nat (length x) = of_nat (length ?r)"
    by (simp_all add: left_def)
  have "(of_nat k :: u64) = 1 + ucast ?u" by (simp add: k_def)
  moreover have "(of_nat (k + length x + length ?r) :: u64) = of_nat k + left" by (simp add: left_def)
  ultimately have "1 < 1 + (ucast ?u + left)" using w(1) by (simp only: add.assoc)
  then have "DecodeAVCNaluAvcc (avcc_encode ?u (x # nals) @ rest) (of_nat (length (avcc_encode ?u (x # nals)))) outs v =
      DecodeAVCNaluAvcc (?r @ rest) (of_nat (length ?r))
        (outs @ [\<lparr>sb_addr = x @ ?r @ rest, sb_size = of_nat (length x)\<rparr>]) (check_nalu (hd x) v)"
    using w sz u nalu_length_prefix [OF f(1), of "x @ ?r @ rest"] p CheckNaluType_unit [OF f(2)]
    by (subst DecodeAVCNaluAvcc.simps) (simp add: e Let_def add.assoc flip: k_def)
  moreover have "\<forall>a \<in> set nals. nal_fits ?u a" "length ?r < 2 ^ 63" using Cons.prems(1) l(1) by simp_all
  note Cons.IH [of "check_nalu (hd x) v" "outs @ [\<lparr>sb_addr = x @ ?r @ rest, sb_size = of_nat (length x)\<rparr>]",
      unfolded check_nalu_fields, OF this]
  ultimately obtain ss where
    "DecodeAVCNaluAvcc (avcc_encode ?u (x # nals) @ rest) (of_nat (length (avcc_encode ?u (x # nals)))) outs v =
       Inr (0, (outs @ [\<lparr>sb_addr = x @ ?r @ rest, sb_size = of_nat (length x)\<rparr>]) @ ss, check_nalus nals (check_nalu (hd x) v))"
    "list_all2 sample_is ss nals" by (elim exE) simp
  then show ?case
    using l(1) by (intro exI [of _ "\<lparr>sb_addr = x @ ?r @ rest, sb_size = of_nat (length x)\<rparr> # ss"])
      (simp add: check_nalus_def sample_is_def [of _ x])
qed

section \<open>Whole tags\<close>

definition video_frame :: "u8 \<Rightarrow> u32 \<Rightarrow> u8 \<Rightarrow> bytes list \<Rightarrow> bytes" where
  "video_frame b cts unit nals = b # 1 # WriteUint24T cts @ avcc_encode unit nals"

definition after_frame :: "u32 \<Rightarrow> bytes list \<Rightarrow> VideoDemux \<Rightarrow> VideoDemux" where
  "after_frame cts nals v =
     (check_nalus nals (v\<lparr>vd_codec_id := kVideoCodecIDAVC, vd_composition_time := uint (take_bit 24 cts)\<rparr>))
       \<lparr>vd_payload_format := kPayloadFormatAvcc\<rparr>"

lemma nth_checked_simps [simp]: "nth_checked (x # xs) 0 = Inr x" "nth_checked (x # y # xs) (Suc 0) = Inr y"
  by (simp_all add: nth_checked_def)

lemma payload_format_same: "vd_payload_format v = f \<Longrightarrow> v\<lparr>vd_payload_format := f\<rparr> = v"
  by simp

lemma OnDemux_frame:
  assumes "b AND 0x0f = kVideoCodecIDAVC" and "drop_bit 4 b \<noteq> 5"
    and "\<forall>x \<in> set nals. nal_fits (vd_nalu_unit_length v) x"
    and "length (video_frame b cts (vd_nalu_unit_length v) nals) < 2 ^ 63"
    and "vd_payload_format v \<noteq> kPayloadFormatAnnexB"
  shows "\<exists>ss. VideoDemux_OnDemux (video_frame b cts (vd_nalu_unit_length v) nals @ rest)
             (of_nat (length (video_frame b cts (vd_nalu_unit_length v) nals))) [] v =
           Inr (0, ss, after_frame cts nals v) \<and> list_all2 sample_is ss nals"
proof -
  let ?u = "vd_nalu_unit_length v" and ?e = "avcc_encode (vd_nalu_unit_length v) nals"
  let ?v = "v\<lparr>vd_codec_id := b AND 0x0f, vd_composition_time := uint (take_bit 24 cts)\<rparr>"
  have l: "length ?e < 2 ^ 63" using assms(4) by (simp add: video_frame_def)
  obtain ss where ss: "DecodeAVCNaluAvcc (?e @ rest) (of_nat (length ?e)) [] ?v = Inr (0, [] @ ss, check_nalus nals ?v)"
    "list_all2 sample_is ss nals"
    using DecodeAVCNaluAvcc_units [of nals ?v rest "[]"] assms(3) l by auto
  have "DecodeAVCNalu (?e @ rest) (of_nat (length ?e)) [] ?v = Inr (0, ss, (check_nalus nals ?v)\<lparr>vd_payload_format := kPayloadFormatAvcc\<rparr>)"
    using assms(5) ss(1) by (cases "vd_payload_format v") (simp_all add: DecodeAVCNalu_def)
  moreover have "drop 5 (video_frame b cts ?u nals @ rest) = ?e @ rest" "drop 2 (video_frame b cts ?u nals @ rest) = WriteUint24T cts @ ?e @ rest"
    by (simp_all add: video_frame_def)
  moreover have "of_nat (length (video_frame b cts ?u nals)) - (5 :: u64) = of_nat (length ?e)" by (simp add: video_frame_def)
  moreover have "nth_checked (video_frame b cts ?u nals @ rest) 0 = Inr b" "nth_checked (video_frame b cts ?u nals @ rest) 1 = Inr 1"
    by (simp_all add: video_frame_def)
  ultimately show ?thesis
    using assms(1,2) ss(2) by (simp add: VideoDemux_OnDemux_def DemuxAVC_def Let_def after_frame_def)
qed

text \<open>The sequence header, as the comment of \<open>VideoDemux.h\<close> lays it out.\<close>

definition avc_config :: "bytes \<Rightarrow> u8 \<Rightarrow> bytes \<Rightarrow> bytes \<Rightarrow> bytes" where
  "avc_config h unit sps pps =
     h @ [0xfc OR unit, 0xe1] @ WriteUint16T (of_nat (length sps)) @ sps @ [1] @ WriteUint16T (of_nat (length pps)) @ pps"

definition with_config :: "bytes \<Rightarrow> u8 \<Rightarrow> bytes \<Rightarrow> bytes \<Rightarrow> VideoDemux \<Rightarrow> VideoDemux" where
  "with_config h unit sps pps v =
     v\<lparr>vd_config_version := h ! 0, vd_profile := h ! 1, vd_profile_com := h ! 2, vd_level := h ! 3,
       vd_nalu_unit_length := unit, vd_sps := sps, vd_pps := pps\<rparr>"

lemma assign_bytes_ok:
  "length x < 2 ^ 15 \<Longrightarrow> assign_bytes (x @ r) (sint (of_nat (length x) :: u16)) = Inr x"
  by (simp add: assign_bytes_def signed_of_nat signed_take_bit_int_eq_self)

lemma DecodeAVCSeqHeader_config:
  assumes "length h = 4" and "unit < 4" and "length sps < 2 ^ 15" and "length pps < 2 ^ 15"
  shows "DecodeAVCSeqHeader (avc_config h unit sps pps @ rest) (of_nat (length (avc_config h unit sps pps))) v =
           Inr (0, with_config h unit sps pps v)"
proof -
  let ?s = "of_nat (length sps) :: u16" and ?p = "of_nat (length pps) :: u16"
  define q where "q = 1 # WriteUint16T ?p @ pps @ rest"
  define p where "p = 0xe1 # WriteUint16T ?s @ sps @ q"
  define r where "r = avc_config h unit sps pps @ rest"
  have r: "r = h @ (0xfc OR unit) # p" by (simp add: r_def avc_config_def p_def q_def)
  have n: "length (avc_config h unit sps pps) = 11 + length sps + length pps" using assms(1) by (simp add: avc_config_def)
  have d: "take 5 r = h @ [0xfc OR unit]" "drop 5 r = p" "5 \<le> length r" using assms(1) by (simp_all add: r)
  have u: "(0xfc OR unit) AND 0x03 = unit"
  proof -
    have "unit = 0 \<or> unit = 1 \<or> unit = 2 \<or> unit = 3"
      using assms(2) by (auto simp: word_less_nat_alt word_unat_eq_iff)
    then show ?thesis by auto
  qed
  have pq: "drop 1 p = WriteUint16T ?s @ sps @ q" "drop 3 p = sps @ q" "nth_checked p 0 = Inr 0xe1"
    "drop 1 q = WriteUint16T ?p @ pps @ rest" "drop 3 q = pps @ rest" "nth_checked q 0 = Inr 1"
    by (simp_all add: p_def q_def WriteUint16T_def)
  have i: "sint ?s = int (length sps)" using assms(3) by (simp add: signed_of_nat signed_take_bit_int_eq_self)
  then have sc: "(scast ?s :: u64) = of_nat (length sps)" by (metis of_int_of_nat_eq of_int_sint)
  have q: "drop (3 + length sps) p = q"
  proof -
    have "drop (3 + length sps) p = drop (length sps) (drop 3 p)" by (simp only: drop_drop add.commute)
    then show ?thesis by (simp only: pq(2)) simp
  qed
  have b: "unat (of_nat (11 + length sps + length pps) :: u64) = 11 + length sps + length pps"
    "unat (of_nat (6 + length sps + length pps) :: u64) = 6 + length sps + length pps"
    "unat (of_nat (3 + length pps) :: u64) = 3 + length pps"
    using assms(3,4) by (intro unat64; simp)+
  then have c: "\<not> (of_nat (11 + length sps + length pps) :: u64) < 5" "\<not> (of_nat (6 + length sps + length pps) :: u64) < 3"
    "\<not> (of_nat (3 + length pps) :: u64) < 3"
    unfolding word_less_nat_alt by simp_all
  have z: "of_nat (11 + length sps + length pps) - (5 :: u64) = of_nat (6 + length sps + length pps)"
    "of_nat (6 + length sps + length pps) - 3 - of_nat (length sps) = (of_nat (3 + length pps) :: u64)" by simp_all
  have h: "(h @ [x]) ! 0 = h ! 0" "(h @ [x]) ! 1 = h ! 1" "(h @ [x]) ! 2 = h ! 2" "(h @ [x]) ! 3 = h ! 3" "(h @ [x]) ! 4 = x" for x
    using assms(1) by (simp_all add: nth_append)
  show ?thesis
    unfolding DecodeAVCSeqHeader_def n r_def [symmetric] Let_def
    using d c z u pq i sc q h assign_bytes_ok [OF assms(3), of q] assign_bytes_ok [OF assms(4), of rest]
    by (simp add: with_config_def del: of_nat_add of_nat_numeral)
qed

text \<open>Reading inside one byte, and on into the next.\<close>

lemma get_word_in:
  "n \<le> nb_bits_count s \<Longrightarrow> nb_bits_count s \<le> 8 \<Longrightarrow>
     get_word n u s = Inr (push_bit n u OR ucast (take_bit n (drop_bit (nb_bits_count s - n) (nb_byte s))),
                           s\<lparr>nb_bits_count := nb_bits_count s - n\<rparr>)"
proof (induction n arbitrary: u s)
  case (Suc n)
  define k where "k = nb_bits_count s - Suc n"
  have k: "nb_bits_count s = k + Suc n" "k + Suc n \<le> 8" using Suc.prems by (simp_all add: k_def)
  let ?s = "s\<lparr>nb_bits_count := k + n\<rparr>" and ?u = "push_bit 1 u OR ucast (drop_bit (k + n) (nb_byte s) AND 1)"
  have "get_word (Suc n) u s = get_word n ?u ?s" using k by (simp add: GetBit_def Let_def)
  also have "\<dots> = Inr (push_bit n ?u OR ucast (take_bit n (drop_bit k (nb_byte s))), s\<lparr>nb_bits_count := k\<rparr>)"
    using Suc.IH [of ?s ?u] k by simp
  also have "push_bit n ?u OR ucast (take_bit n (drop_bit k (nb_byte s))) =
      push_bit (Suc n) u OR ucast (take_bit (Suc n) (drop_bit k (nb_byte s)))"
  proof (rule bit_word_eqI)
    fix i assume "i < LENGTH(16)"
    then show "bit (push_bit n ?u OR ucast (take_bit n (drop_bit k (nb_byte s)))) i =
        bit (push_bit (Suc n) u OR ucast (take_bit (Suc n) (drop_bit k (nb_byte s)))) i"
      using k by (cases "i < n"; cases "i = n") (auto simp: bit_simps simp del: push_bit_Suc)
  qed
  finally show ?case by (simp add: k_def)
qed simp

lemma get_word_load:
  "nb_bits_count s = 0 \<Longrightarrow> GetByte s = Inr (b, s') \<Longrightarrow>
     get_word (Suc n) u s = get_word (Suc n) u (s'\<lparr>nb_byte := b, nb_bits_count := 8\<rparr>)"
  by (simp add: GetBit_def)

lemma get_word_add: "get_word (m + n) u s = rbind (get_word m u s) (\<lambda>(u, s). get_word n u s)"
  by (induction m arbitrary: u s) (auto simp: rbind_def split: sum.splits)

text \<open>
  The header begins with five bits of the object type and four of the sample rate. The code takes
  four and five: the object type it keeps is half of what was sent.
\<close>

lemma aac_config_read:
  assumes "2 \<le> n"
  shows "DemuxAACSequenceHeader (c0 # c1 # r) n a =
     Inr (0, a\<lparr>ad_aac_object := ucast (drop_bit 4 c0), ad_aac_sample_rate := push_bit 1 (ucast (take_bit 4 c0)) OR ucast (drop_bit 7 c1),
               ad_aac_channel := take_bit 4 (drop_bit 3 c1), ad_aac_ok := True\<rparr>)"
proof -
  define s0 where "s0 = NalBitStream_new (c0 # c1 # r) (nat n)"
  define s1 where "s1 = s0\<lparr>nb_byte_idx := 1, nb_byte := c0, nb_bits_count := 8\<rparr>"
  define s2 where "s2 = s1\<lparr>nb_byte_idx := 2, nb_byte := c1, nb_bits_count := 8\<rparr>"
  have b: "GetByte s0 = Inr (c0, s0\<lparr>nb_byte_idx := 1\<rparr>)" "nb_bits_count s0 = 0"
    using assms by (auto simp: GetByte_def s0_def NalBitStream_new_def nat_le_iff)
  have "GetWord 4 s0 = get_word (Suc 3) 0 s1"
    using get_word_load [OF b(2,1), of 3 0] by (simp add: GetWord_def s1_def eval_nat_numeral)
  also have "\<dots> = Inr (ucast (take_bit 4 (drop_bit 4 c0)), s1\<lparr>nb_bits_count := 4\<rparr>)"
    by (subst get_word_in) (simp_all add: s1_def)
  finally have w1: "GetWord 4 s0 = Inr (ucast (take_bit 4 (drop_bit 4 c0)), s1\<lparr>nb_bits_count := 4\<rparr>)" .
  have c: "GetByte (s1\<lparr>nb_bits_count := 0\<rparr>) = Inr (c1, s1\<lparr>nb_bits_count := 0, nb_byte_idx := 2\<rparr>)"
    using assms by (auto simp: GetByte_def s0_def s1_def NalBitStream_new_def nat_le_iff numeral_2_eq_2)
  have "GetWord 5 (s1\<lparr>nb_bits_count := 4\<rparr>) =
      rbind (get_word 4 0 (s1\<lparr>nb_bits_count := 4\<rparr>)) (\<lambda>(u, s). get_word (Suc 0) u s)"
    using get_word_add [of 4 1 0] by (simp add: GetWord_def)
  also have "\<dots> = get_word (Suc 0) (ucast (take_bit 4 c0)) (s1\<lparr>nb_bits_count := 0\<rparr>)"
    by (subst get_word_in) (simp_all add: s1_def)
  also have "\<dots> = get_word (Suc 0) (ucast (take_bit 4 c0)) s2"
    by (subst get_word_load [OF _ c]) (simp_all add: s2_def del: get_word.simps)
  also have "\<dots> = Inr (push_bit 1 (ucast (take_bit 4 c0)) OR ucast (take_bit 1 (drop_bit 7 c1)), s2\<lparr>nb_bits_count := 7\<rparr>)"
    by (subst get_word_in) (simp_all add: s2_def)
  finally have w2: "GetWord 5 (s1\<lparr>nb_bits_count := 4\<rparr>) =
      Inr (push_bit 1 (ucast (take_bit 4 c0)) OR ucast (take_bit 1 (drop_bit 7 c1)), s2\<lparr>nb_bits_count := 7\<rparr>)" .
  have w3: "GetWord 4 (s2\<lparr>nb_bits_count := 7\<rparr>) = Inr (ucast (take_bit 4 (drop_bit 3 c1)), s2\<lparr>nb_bits_count := 3\<rparr>)"
    unfolding GetWord_def by (subst get_word_in) (simp_all add: s2_def)
  have t: "take_bit 4 (drop_bit 4 c) = drop_bit 4 c" "take_bit 1 (drop_bit 7 c) = drop_bit 7 c"
    "ucast (ucast c :: u16) = c" for c :: u8
    by (rule bit_word_eqI; auto simp: bit_simps simp del: take_bit_Suc One_nat_def dest: bit_imp_le_length)+
  show ?thesis
    using assms w1 w2 [unfolded t(2)] w3 by (simp add: DemuxAACSequenceHeader_def t flip: s0_def)
qed

section \<open>Where it goes wrong\<close>

text \<open>
  A frame in Annex B form: each sample begins with the start code, so that no unit's type is
  seen (the IDR unit here is not), and the last one lacks as many bytes as its start code has.
\<close>

lemma annexb_last_unit_cut:
  "map_sum id (\<lambda>(ret, ss, v). (ret, map (\<lambda>s. take (unat (sb_size s)) (sb_addr s)) ss, vd_has_idr v))
     (DecodeAVCNaluAnnexb [0, 0, 1, 0x41, 0xaa, 0xbb, 0, 0, 1, 0x65, 0xcc, 0xdd, 0xee] 13 [] VideoDemux_new) =
   Inr (0, [[0, 0, 1, 0x41, 0xaa, 0xbb], [0, 0, 1, 0x65]], False)"
  by code_simp

text \<open>A tag that is too short for its header, or for the lengths of its units, is read past its end.\<close>

lemma short_video_tag_overruns:
  "VideoDemux_OnDemux [0x17, 1] 2 [] VideoDemux_new = Inl OutOfBounds"
  "VideoDemux_OnDemux [0x17, 0, 0, 0, 0] 5 [] VideoDemux_new = Inr (-1, [], VideoDemux_new\<lparr>vd_codec_id := 7\<rparr>)"
  "VideoDemux_OnDemux [0x17, 1, 0, 0] 4 [] VideoDemux_new = Inl OutOfBounds"
  by code_simp+

end
