(* ===== verification/TsPes.thy ===== *)
theory TsPes
  imports TsPacket Demux
begin

text \<open>
  Packetised elementary streams: \<open>WriteAudioPes\<close> of \<open>mmedia/mpegts/AudioEncoder.cc\<close> and
  \<open>WriteVideoPes\<close> of \<open>VideoEncoder.cc\<close>. Their loops are the same text but for the header of the
  first packet, and are one definition here. A packet is composed in an array of 188 bytes; the
  samples are copied from where the demuxer found them, with every read checked.
\<close>

section \<open>One packet\<close>

text \<open>The room the payload leaves is filled by widening the adaptation field, or by making one.\<close>

definition ts_stuff :: "nat \<Rightarrow> nat \<Rightarrow> bytes \<Rightarrow> bytes" where
  "ts_stuff header_len stuffing buf =
     (if stuffing = 0 then buf
      else if bit (buf ! 3) 5 then
        let af_len = unat (buf ! 4) + 1;
            buf = blit buf (4 + af_len + stuffing) (take (header_len - (4 + af_len)) (drop (4 + af_len) buf));
            buf = buf[4 := buf ! 4 + of_nat stuffing]
        in blit buf (4 + af_len) (replicate stuffing 0xff)
      else
        let buf = blit buf (4 + stuffing) (take (header_len - 4) (drop 4 buf));
            buf = buf[3 := buf ! 3 OR 0x20, 4 := of_nat (stuffing - 1)]
        in if stuffing > 2 then blit (buf[5 := 0]) 6 (replicate (stuffing - 2) 0xff) else buf)"

fun fill_payload :: "nat \<Rightarrow> SampleBuf list \<Rightarrow> bytes \<Rightarrow> (bytes \<times> SampleBuf list) result" where
  "fill_payload slen [] buf = Inr (buf, [])"
| "fill_payload slen (s # ss) buf =
     (if slen = 0 then Inr (buf, s # ss)
      else if sb_size s \<le> of_nat slen then
        rbind (slice_checked (sb_addr s) 0 (unat (sb_size s))) (\<lambda>d.
          fill_payload (slen - unat (sb_size s)) ss (blit buf (188 - slen) d))
      else rbind (slice_checked (sb_addr s) 0 slen) (\<lambda>d.
             Inr (blit buf (188 - slen) d,
                  \<lparr>sb_addr = drop slen (sb_addr s), sb_size = sb_size s - of_nat slen\<rparr> # ss)))"

definition ts_fill :: "bytes \<Rightarrow> SampleBuf list \<Rightarrow> int \<Rightarrow> (bytes \<times> SampleBuf list \<times> int) result" where
  "ts_fill head samples n =
     (let header_len = length head; len = min (188 - header_len) (nat n);
          buf = ts_stuff header_len (188 - header_len - len) (blit (replicate 188 0) 0 head)
      in rbind (fill_payload len samples buf) (\<lambda>(buf, samples). Inr (buf, samples, int len)))"

text \<open>
  The header of a packet: in the first, for a key frame, an adaptation field \<open>af\<close>, and the header
  \<open>pes\<close> of the whole.
\<close>

definition pes_packet_head :: "u16 \<Rightarrow> bool \<Rightarrow> u8 \<Rightarrow> bytes \<Rightarrow> bytes \<Rightarrow> bytes" where
  "pes_packet_head pid start cc af pes =
     (let head = ts_head pid start cc
      in if \<not> start then head else (if af = [] then head else head[3 := head ! 3 OR 0x20]) @ af @ pes)"

function write_pes ::
    "(bytes \<Rightarrow> 'w \<Rightarrow> 'w result) \<Rightarrow> u16 \<Rightarrow> bytes \<Rightarrow> bytes \<Rightarrow> bool \<Rightarrow> u8 \<Rightarrow> SampleBuf list \<Rightarrow> int \<Rightarrow> 'w \<Rightarrow> (u8 \<times> 'w) result" where
  "write_pes wr pid af pes start cc samples n w =
     (if \<not> (0 < n \<and> samples \<noteq> []) then Inr (cc, w)
      else let cc = next_cc cc
           in rbind (ts_fill (pes_packet_head pid start cc af pes) samples n) (\<lambda>(buf, samples, len).
              rbind (wr buf w) (\<lambda>w.
                if len \<le> 0 then Inl OutOfFuel else write_pes wr pid af pes False cc samples (n - len) w)))"
  by pat_completeness auto
termination by (relation "measure (\<lambda>(wr, pid, af, pes, start, cc, samples, n, w). nat n)") auto

declare write_pes.simps [simp del]

section \<open>The two encoders' headers\<close>

definition pes_length :: "int \<Rightarrow> int \<Rightarrow> bytes" where
  "pes_length n header_len =
     (let len = n + header_len + 3; len = (if len > 0xffff then 0 else len) in WriteUint16T (word_of_int len))"

definition WriteAudioPes ::
    "(bytes \<Rightarrow> 'w \<Rightarrow> 'w result) \<Rightarrow> u16 \<Rightarrow> u8 \<Rightarrow> SampleBuf list \<Rightarrow> int \<Rightarrow> u64 \<Rightarrow> 'w \<Rightarrow> (u8 \<times> 'w) result" where
  "WriteAudioPes wr pid cc samples n dts w =
     write_pes wr pid [] ([0, 0, 1, 0xc0] @ pes_length n 5 @ [0x80, push_bit 6 2, 5] @ WritePts 2 dts) True cc samples n w"

definition WritePcr :: "u64 \<Rightarrow> bytes" where
  "WritePcr pcr =
     (let v = (0 AND 0x1ff) OR (push_bit 9 0x3f AND 0x7E00) OR (push_bit 15 pcr AND 0xFFFFFFFF8000)
      in [ucast (drop_bit 40 v), ucast (drop_bit 32 v), ucast (drop_bit 24 v), ucast (drop_bit 16 v), ucast (drop_bit 8 v), ucast v])"

definition WriteVideoPes ::
    "(bytes \<Rightarrow> 'w \<Rightarrow> 'w result) \<Rightarrow> u16 \<Rightarrow> u8 \<Rightarrow> SampleBuf list \<Rightarrow> int \<Rightarrow> u64 \<Rightarrow> u64 \<Rightarrow> bool \<Rightarrow> 'w \<Rightarrow> (u8 \<times> 'w) result" where
  "WriteVideoPes wr pid cc samples n pts dts key w =
     (let af = (if key then [7, 0x10] @ WritePcr pts else []);
          both = (pts \<noteq> dts);
          header_len = (if both then 10 else 5);
          flags = (if both then 3 else 2);
          times = (if both then WritePts 3 pts @ WritePts 1 dts else WritePts 2 pts)
      in write_pes wr pid af
           ([0, 0, 1, 0xe0] @ pes_length n (int header_len) @ [0x80, push_bit 6 flags, of_nat header_len] @ times)
           True cc samples n w)"

section \<open>The standard's reader\<close>

record pes =
  pes_stream :: u8
  pes_pts :: u64
  pes_dts :: "u64 option"
  pes_data :: bytes

text \<open>The length field counts what follows it, or is 0.\<close>

fun parse_pes :: "bytes \<Rightarrow> pes option" where
  "parse_pes (a # b # c # sid # l1 # l0 # f1 # f2 # n # r) =
     (let len = push_bit 8 (ucast l1) OR ucast l0 :: u16
      in if a \<noteq> 0 \<or> b \<noteq> 0 \<or> c \<noteq> 1 \<or> f1 \<noteq> 0x80 \<or> len \<noteq> 0 \<and> unat len \<noteq> 3 + length r then None
         else if f2 = 0x80 \<and> n = 5 then
           (case read_pts (take 5 r) of
              Some (two, pts) \<Rightarrow> if two = 2 then Some \<lparr>pes_stream = sid, pes_pts = pts, pes_dts = None, pes_data = drop 5 r\<rparr> else None
            | None \<Rightarrow> None)
         else if f2 = 0xc0 \<and> n = 10 then
           (case (read_pts (take 5 r), read_pts (take 5 (drop 5 r))) of
              (Some (three, pts), Some (one, dts)) \<Rightarrow>
                if three = 3 \<and> one = 1 then Some \<lparr>pes_stream = sid, pes_pts = pts, pes_dts = Some dts, pes_data = drop 10 r\<rparr> else None
            | _ \<Rightarrow> None)
         else None)"
| "parse_pes _ = None"

section \<open>Filling a packet\<close>

lemma blit_take_end:
  "i + length d \<le> length a \<Longrightarrow> take (i + length d) (blit a i d) = take i a @ d"
  by (simp add: blit_def)

lemma fill_payload_ok:
  assumes "list_all2 sample_is ss xs" and "n \<le> length (concat xs)" and "length buf = 188" and "n \<le> 188"
  shows "\<exists>ss' xs'. fill_payload n ss buf = Inr (take (188 - n) buf @ take n (concat xs), ss') \<and>
           list_all2 sample_is ss' xs' \<and> concat xs' = drop n (concat xs)"
  using assms
proof (induction n ss buf arbitrary: xs rule: fill_payload.induct)
  case (1 n buf)
  then show ?case by (intro exI [of _ "[]"]) simp
next
  case (2 n s ss buf)
  obtain x ys where xs: "xs = x # ys" and s: "sample_is s x" and ss: "list_all2 sample_is ss ys"
    using "2.prems"(1) by (cases xs) auto
  obtain r where r: "sb_addr s = x @ r" and sz: "sb_size s = of_nat (length x)" and lx: "length x < 2 ^ 63"
    using s by (auto simp: sample_is_def)
  have u: "unat (sb_size s) = length x" using lx by (simp add: sz unat64)
  have n64: "unat (of_nat n :: u64) = n" using "2.prems"(4) by (intro unat64) simp
  consider "n = 0" | "0 < n" "length x \<le> n" | "0 < n" "n < length x" by linarith
  then show ?case
  proof cases
    case 1
    then show ?thesis using "2.prems" by (intro exI [of _ "s # ss"] exI [of _ xs]) simp
  next
    case 2
    let ?b = "blit buf (188 - n) x"
    have c: "sb_size s \<le> of_nat n" using 2 u n64 by (simp add: word_le_nat_alt)
    have "length ?b = 188" using 2 "2.prems"(3,4) by simp
    then obtain ss' xs' where h: "fill_payload (n - length x) ss ?b =
        Inr (take (188 - (n - length x)) ?b @ take (n - length x) (concat ys), ss')"
      "list_all2 sample_is ss' xs'" "concat xs' = drop (n - length x) (concat ys)"
      using "2.IH" [of x ys] 2 c r u ss "2.prems"(2,4) xs by fastforce
    have "188 - (n - length x) = 188 - n + length x" using 2 "2.prems"(4) by simp
    then have "take (188 - (n - length x)) ?b = take (188 - n) buf @ x"
      using blit_take_end [of "188 - n" x buf] 2 "2.prems"(3,4) by simp
    then show ?thesis using h 2 c r u xs by (intro exI [of _ ss'] exI [of _ xs']) simp
  next
    case 3
    have c: "\<not> sb_size s \<le> of_nat n" using 3 u n64 by (simp add: word_le_nat_alt)
    let ?s = "\<lparr>sb_addr = drop n (sb_addr s), sb_size = sb_size s - of_nat n\<rparr>"
    have "sb_size s - of_nat n = of_nat (length x - n)" using 3 by (simp add: sz)
    then have "sample_is ?s (drop n x)" using 3 lx by (simp add: sample_is_def r)
    moreover have "blit buf (188 - n) (take n x) = take (188 - n) buf @ take n x"
      using blit_take_end [of "188 - n" "take n x" buf] 3 "2.prems"(3,4) by simp
    ultimately show ?thesis
      using 3 c r ss xs by (intro exI [of _ "?s # ss"] exI [of _ "drop n x # ys"]) simp
  qed
qed

lemma blit_zeros: "length h \<le> k \<Longrightarrow> blit (replicate k 0) 0 h = h @ replicate (k - length h) 0"
  by (simp add: blit_def)

lemma blit_append: "length p = m \<Longrightarrow> blit (p @ q) (m + k) d = p @ blit q k d"
  by (auto simp: blit_def)

lemma blit_mid: "length p = m \<Longrightarrow> length q = length d \<Longrightarrow> blit (p @ q @ r) m d = p @ d @ r"
  by (auto simp: blit_def)

lemma ts_stuff_plain:
  assumes "h = [h0, h1, h2, h3]" and "\<not> bit h3 5" and "4 + length t + st + len = 188" and "0 < st"
    and "t = [] \<or> 2 \<le> length t \<and> t ! 1 = 0"
  shows "\<exists>af r. ts_stuff (4 + length t) st (blit (replicate 188 0) 0 (h @ t)) =
             [h0, h1, h2, h3 OR 0x20] @ of_nat (st - 1) # af @ t @ r \<and>
           length af = st - 1 \<and> (af \<noteq> [] \<longrightarrow> hd af = 0) \<and> length r = len"
proof -
  define z :: bytes where "z = replicate (st + len) 0"
  define y where "y = take st (t @ z)"
  define r where "r = drop (st + length t) (t @ z)"
  have buf: "blit (replicate 188 0) 0 (h @ t) = h @ t @ z"
    using assms(1,3) by (subst blit_zeros) (auto simp: z_def)
  have y: "length y = st" "length r = len" by (simp_all add: y_def r_def z_def)
  have m: "blit (h @ t @ z) (4 + st) t = h @ y @ t @ r"
    using blit_append [of h 4 "t @ z" st t] assms(1) by (simp add: blit_def [of "t @ z"] y_def r_def)
  obtain y0 y' where y0: "y = y0 # y'" using y(1) assms(4) by (cases y) auto
  have e: "(h @ y @ t @ r)[3 := h3 OR 0x20, 4 := of_nat (st - 1)] = [h0, h1, h2, h3 OR 0x20] @ of_nat (st - 1) # y' @ t @ r"
    by (simp add: assms(1) y0 eval_nat_numeral)
  define b where "b = [h0, h1, h2, h3 OR 0x20] @ of_nat (st - 1) # y' @ t @ r"
  have s: "ts_stuff (4 + length t) st (h @ t @ z) = (if st > 2 then blit (b[5 := 0]) 6 (replicate (st - 2) 0xff) else b)"
    using assms(2,4) m e by (simp add: ts_stuff_def Let_def b_def assms(1))
  show ?thesis
  proof (cases "2 < st")
    case True
    then obtain y1 y'' where y1: "y' = y1 # y''" "length y'' = st - 2" using y(1) y0 by (cases y') auto
    have "b[5 := 0] = ([h0, h1, h2, h3 OR 0x20, of_nat (st - 1), 0]) @ y'' @ t @ r"
      by (simp add: b_def y1 eval_nat_numeral)
    then have "blit (b[5 := 0]) 6 (replicate (st - 2) 0xff) =
        [h0, h1, h2, h3 OR 0x20] @ of_nat (st - 1) # (0 # replicate (st - 2) 0xff) @ t @ r"
      using y1(2) by (subst \<open>b[5 := 0] = _\<close>, subst blit_mid) simp_all
    with True show ?thesis unfolding buf s
      by (intro exI [of _ "0 # replicate (st - 2) 0xff"] exI [of _ r]) (simp add: y)
  next
    case False
    have "y' \<noteq> [] \<longrightarrow> hd y' = 0"
    proof
      assume ne: "y' \<noteq> []"
      then have st: "st = 2" using False y(1) y0 by (cases y') auto
      then have "hd y' = y ! 1" using y0 ne by (simp add: hd_conv_nth)
      also have "\<dots> = (t @ z) ! 1" unfolding y_def st by (rule nth_take) simp
      also have "\<dots> = 0" using assms(5) st by (auto simp: nth_append z_def)
      finally show "hd y' = 0" .
    qed
    with False show ?thesis unfolding buf s
      using y y0 by (intro exI [of _ y'] exI [of _ r]) (simp add: b_def)
  qed
qed

lemma ts_stuff_wide:
  assumes "h = [h0, h1, h2, h3]" and "bit h3 5" and "length a = 7" and "5 + length a + length t + st + len = 188" and "0 < st"
  shows "\<exists>r. ts_stuff (5 + length a + length t) st (blit (replicate 188 0) 0 (h @ (7 # a) @ t)) =
             h @ of_nat (7 + st) # a @ replicate st 0xff @ t @ r \<and> length r = len"
proof -
  define z :: bytes where "z = replicate (st + len) 0"
  define y where "y = take st (t @ z)"
  define r where "r = drop (st + length t) (t @ z)"
  have buf: "blit (replicate 188 0) 0 (h @ (7 # a) @ t) = h @ 7 # a @ t @ z"
    using assms(1,4) by (subst blit_zeros) (auto simp: z_def)
  have y: "length y = st" "length r = len" by (simp_all add: y_def r_def z_def)
  have m: "blit (h @ 7 # a @ t @ z) (12 + st) t = h @ 7 # a @ y @ t @ r"
    using blit_append [of "h @ 7 # a" 12 "t @ z" st t] assms(1,3) by (simp add: blit_def [of "t @ z"] y_def r_def)
  have "ts_stuff (5 + length a + length t) st (h @ 7 # a @ t @ z) =
      blit ((h @ 7 # a @ y @ t @ r)[4 := 7 + of_nat st]) 12 (replicate st 0xff)"
    using assms(1-3,5) m by (simp add: ts_stuff_def Let_def)
  also have "\<dots> = h @ of_nat (7 + st) # a @ replicate st 0xff @ t @ r"
    using assms(1,3) y by (simp add: blit_def eval_nat_numeral)
  finally show ?thesis unfolding buf using y(2) by blast
qed

section \<open>Reading a filled packet\<close>

lemma nat_min_room: "0 < n \<Longrightarrow> k < 188 \<Longrightarrow> 0 < min (188 - k) (nat n)"
  by simp

lemma ts_head_list: "ts_head pid start cc = [ts_head pid start cc ! 0, ts_head pid start cc ! 1, ts_head pid start cc ! 2, 0x10 OR cc]"
  by (simp add: ts_head_def)

lemma ts_parse_stuffed:
  assumes "pid < 0x2000" and "cc < 16" and "length af = st - 1" and "0 < st" and "af \<noteq> [] \<longrightarrow> hd af = 0"
    and "st + length body = 184"
  shows "ts_parse ([ts_head pid start cc ! 0, ts_head pid start cc ! 1, ts_head pid start cc ! 2, (0x10 OR cc) OR 0x20] @
            of_nat (st - 1) # af @ body) =
         Some \<lparr>ts_pid = pid, ts_start = start, ts_cc = cc, ts_pcr = None, ts_payload = body\<rparr>"
proof -
  have u: "unat (of_nat (st - 1) :: u8) = st - 1" using assms(6) by (simp add: unat_of_nat)
  have st: "st = Suc (length af)" using assms(3,4) by simp
  have a: "8 \<le> st \<Longrightarrow> \<not> bit ((af @ body) ! 0) 4" using assms(5) st by (cases af) auto
  have d: "drop (4 + st) (a # b # c # d # e # af @ body) = body" for a b c d e by (simp add: st numeral_eq_Suc)
  show ?thesis
    using ts_head_bits [OF assms(1,2)] assms(3,4,6) u a
    by (simp add: ts_parse_def ts_head_def Let_def d)
qed

lemma ts_fill_steps:
  assumes "list_all2 sample_is ss xs" and "int (length (concat xs)) = n" and "length head < 188"
    and "len = min (188 - length head) (length (concat xs))"
    and "ts_stuff (length head) (188 - length head - len) (blit (replicate 188 0) 0 head) = b @ r" and "length r = len"
    and "length b = 188 - len"
  shows "\<exists>ss' xs'. ts_fill head ss n = Inr (b @ take len (concat xs), ss', int len) \<and>
           list_all2 sample_is ss' xs' \<and> concat xs' = drop len (concat xs)"
proof -
  have l: "len = min (188 - length head) (nat n)" using assms(2,4) by auto
  have "length (b @ r) = 188" "len \<le> 188" "len \<le> length (concat xs)" using assms(4,6,7) by auto
  moreover from this have "take (188 - len) (b @ r) = b" using assms(7) by simp
  ultimately show ?thesis
    using fill_payload_ok [OF assms(1), of len "b @ r"] assms(5) unfolding ts_fill_def Let_def l [symmetric] by auto
qed

lemma ts_fill_plain:
  assumes "pid < 0x2000" and "cc < 16" and "t = [] \<or> 2 \<le> length t \<and> t ! 1 = 0" and "length t \<le> 40"
    and "list_all2 sample_is ss xs" and "int (length (concat xs)) = n" and "0 < n"
  shows "\<exists>buf ss' xs' len. ts_fill (ts_head pid start cc @ t) ss n = Inr (buf, ss', int len) \<and> length buf = 188 \<and> 0 < len \<and>
           len \<le> length (concat xs) \<and> (len = length (concat xs) \<or> 94 \<le> len) \<and>
           ts_parse buf = Some \<lparr>ts_pid = pid, ts_start = start, ts_cc = cc, ts_pcr = None, ts_payload = t @ take len (concat xs)\<rparr> \<and>
           list_all2 sample_is ss' xs' \<and> concat xs' = drop len (concat xs)"
proof -
  let ?h = "ts_head pid start cc"
  define len where "len = min (184 - length t) (length (concat xs))"
  define st where "st = 184 - length t - len"
  have n: "0 < len" "len \<le> length (concat xs)" "len + st + length t = 184" "int len \<le> n" "len = length (concat xs) \<or> 94 \<le> len"
    using assms(4,6,7) by (auto simp: len_def st_def)
  have head: "188 - length (?h @ t) = 184 - length t" "188 - length (?h @ t) - len = st" by (simp_all add: st_def)
  obtain b r where b: "ts_stuff (length (?h @ t)) st (blit (replicate 188 0) 0 (?h @ t)) = b @ r" "length r = len" "length b = 188 - len"
    and parse: "\<And>c. length c = len \<Longrightarrow> ts_parse (b @ c) =
        Some \<lparr>ts_pid = pid, ts_start = start, ts_cc = cc, ts_pcr = None, ts_payload = t @ c\<rparr>"
  proof (cases "st = 0")
    case True
    show ?thesis
      by (rule that [of "?h @ t" "replicate len 0"])
        (use True n assms in \<open>simp_all add: ts_stuff_def blit_zeros ts_parse_plain\<close>)
  next
    case False
    have "\<not> bit (0x10 OR cc) 5" by (rule ts_head_bits(4) [OF assms(1,2)])
    moreover have "4 + length t + st + len = 188" "0 < st" using n False by simp_all
    ultimately obtain af r where f: "ts_stuff (4 + length t) st (blit (replicate 188 0) 0 (?h @ t)) =
        [?h ! 0, ?h ! 1, ?h ! 2, (0x10 OR cc) OR 0x20] @ of_nat (st - 1) # af @ t @ r"
      "length af = st - 1" "af \<noteq> [] \<longrightarrow> hd af = 0" "length r = len"
      using ts_stuff_plain [OF ts_head_list, of cc t st len pid start] assms(3) by blast
    show ?thesis
    proof (rule that [of "[?h ! 0, ?h ! 1, ?h ! 2, (0x10 OR cc) OR 0x20] @ of_nat (st - 1) # af @ t" r])
      fix c :: bytes assume "length c = len"
      then show "ts_parse (([?h ! 0, ?h ! 1, ?h ! 2, (0x10 OR cc) OR 0x20] @ of_nat (st - 1) # af @ t) @ c) =
          Some \<lparr>ts_pid = pid, ts_start = start, ts_cc = cc, ts_pcr = None, ts_payload = t @ c\<rparr>"
        using ts_parse_stuffed [OF assms(1,2) f(2) _ f(3), of "t @ c" start] n False by simp
    qed (use f n False in auto)
  qed
  from ts_fill_steps [OF assms(5,6) _ _ b(1) [folded head(2)] b(2,3)] obtain ss' xs' where
    "ts_fill (?h @ t) ss n = Inr (b @ take len (concat xs), ss', int len)" "list_all2 sample_is ss' xs'"
    "concat xs' = drop len (concat xs)"
    using assms(4) by (auto simp: len_def)
  moreover have "length (take len (concat xs)) = len" using n(2) by simp
  moreover have "length (b @ take len (concat xs)) = 188" using b(3) n by simp
  ultimately show ?thesis using parse n by blast
qed

lemma read_WritePcr: "read_pcr (WritePcr v @ r) = take_bit 33 v"
proof -
  have m: "(0x1ff :: u64) = mask 9" "(0xFFFFFFFF8000 :: u64) = push_bit 15 (mask 33)" "(0x7E00 :: u64) = push_bit 9 (mask 6)"
    "(0x3f :: u64) = mask 6" by (simp_all add: mask_eq_exp_minus_1)
  define w where "w = (push_bit 9 (mask 6) AND push_bit 9 (mask 6)) OR (push_bit 15 v AND push_bit 15 (mask 33) :: u64)"
  have w: "WritePcr v = [ucast (drop_bit 40 w), ucast (drop_bit 32 w), ucast (drop_bit 24 w), ucast (drop_bit 16 w), ucast (drop_bit 8 w), ucast w]"
    unfolding WritePcr_def Let_def m w_def by simp
  have "push_bit 25 (ucast (ucast (drop_bit 40 w) :: u8)) OR push_bit 17 (ucast (ucast (drop_bit 32 w) :: u8)) OR
      push_bit 9 (ucast (ucast (drop_bit 24 w) :: u8)) OR push_bit 1 (ucast (ucast (drop_bit 16 w) :: u8)) OR
      drop_bit 7 (ucast (ucast (drop_bit 8 w) :: u8)) = take_bit 33 v" (is "?l = _")
  proof (rule bit_word_eqI)
    fix n assume "n < LENGTH(64)"
    consider "n = 0" | "1 \<le> n" "n < 9" | "9 \<le> n" "n < 17" | "17 \<le> n" "n < 25" | "25 \<le> n" "n < 33" | "33 \<le> n"
      by linarith
    then show "bit ?l n = bit (take_bit 33 v) n"
      by cases (auto simp: w_def bit_simps simp del: One_nat_def)
  qed
  then show ?thesis by (simp add: read_pcr_def w numeral_eq_Suc)
qed

lemma length_WritePcr [simp]: "length (WritePcr v) = 6"
  by (simp add: WritePcr_def Let_def)

lemma ts_parse_wide:
  assumes "pid < 0x2000" and "cc < 16" and "8 + st + length body = 184"
  shows "ts_parse ((ts_head pid start cc)[3 := (0x10 OR cc) OR 0x20] @ of_nat (7 + st) # (0x10 # WritePcr pcr) @ replicate st 0xff @ body) =
         Some \<lparr>ts_pid = pid, ts_start = start, ts_cc = cc, ts_pcr = Some (take_bit 33 pcr), ts_payload = body\<rparr>"
proof -
  have u: "unat (of_nat (7 + st) :: u8) = 7 + st" by (subst unat_of_nat) (use assms(3) in simp)
  let ?af = "of_nat (7 + st) # (0x10 # WritePcr pcr) @ replicate st 0xff :: bytes"
  let ?h = "(ts_head pid start cc)[3 := (0x10 OR cc) OR 0x20]"
  define p where "p = ?h @ ?af @ body"
  have af: "take (8 + st) (drop 4 p) = ?af" "drop (4 + (8 + st)) p = body" "length ?af = 8 + st" "length p = 188"
  proof -
    have "drop 4 p = ?af @ body" by (simp add: p_def)
    moreover show l: "length ?af = 8 + st" by simp
    ultimately show "take (8 + st) (drop 4 p) = ?af" by (metis append_eq_conv_conj)
    have "drop (4 + (8 + st)) p = drop (8 + st) (drop 4 p)" by (simp only: drop_drop add.commute)
    then show "drop (4 + (8 + st)) p = body" using l \<open>drop 4 p = ?af @ body\<close> by (metis append_eq_conv_conj)
    show "length p = 188" using assms(3) by (simp add: p_def)
  qed
  have "bit (0x10 :: u8) 4" by (simp add: flag_bits)
  moreover have "read_pcr (drop 2 ?af) = take_bit 33 pcr" using read_WritePcr [of pcr "replicate st 0xff"] by simp
  moreover have "p ! 0 = 0x47" "p ! 1 = ts_head pid start cc ! 1" "p ! 2 = ts_head pid start cc ! 2"
    "p ! 3 = (0x10 OR cc) OR 0x20" "p ! 4 = of_nat (7 + st)"
    by (simp_all add: p_def ts_head_def)
  ultimately have "ts_parse p = Some \<lparr>ts_pid = pid, ts_start = start, ts_cc = cc, ts_pcr = Some (take_bit 33 pcr), ts_payload = body\<rparr>"
    using ts_head_bits [OF assms(1,2)] u af by (simp add: ts_parse_def Let_def)
  then show ?thesis by (simp add: p_def)
qed

lemma ts_fill_key:
  assumes "pid < 0x2000" and "cc < 16" and "length t \<le> 40"
    and "list_all2 sample_is ss xs" and "int (length (concat xs)) = n" and "0 < n"
  shows "\<exists>buf ss' xs' len. ts_fill ((ts_head pid start cc)[3 := (0x10 OR cc) OR 0x20] @ (7 # 0x10 # WritePcr pcr) @ t) ss n = Inr (buf, ss', int len) \<and>
           length buf = 188 \<and> 0 < len \<and> len \<le> length (concat xs) \<and> (len = length (concat xs) \<or> 94 \<le> len) \<and>
           ts_parse buf = Some \<lparr>ts_pid = pid, ts_start = start, ts_cc = cc, ts_pcr = Some (take_bit 33 pcr), ts_payload = t @ take len (concat xs)\<rparr> \<and>
           list_all2 sample_is ss' xs' \<and> concat xs' = drop len (concat xs)"
proof -
  let ?h = "(ts_head pid start cc)[3 := (0x10 OR cc) OR 0x20]"
  let ?head = "?h @ (7 # 0x10 # WritePcr pcr) @ t"
  define len where "len = min (176 - length t) (length (concat xs))"
  define st where "st = 176 - length t - len"
  have n: "0 < len" "len \<le> length (concat xs)" "len + st + length t = 176" "int len \<le> n" "len = length (concat xs) \<or> 94 \<le> len"
    using assms(3,5,6) by (auto simp: len_def st_def)
  have head: "length ?head = 12 + length t" "188 - length ?head = 176 - length t" "188 - length ?head - len = st"
    by (simp_all add: st_def)
  obtain r where r: "ts_stuff (length ?head) st (blit (replicate 188 0) 0 ?head) =
      (?h @ of_nat (7 + st) # (0x10 # WritePcr pcr) @ replicate st 0xff @ t) @ r" "length r = len"
  proof (cases "st = 0")
    case True
    show ?thesis
      by (rule that [of "replicate len 0"]) (use True n in \<open>simp_all add: ts_stuff_def blit_zeros\<close>)
  next
    case False
    have h: "?h = [ts_head pid start cc ! 0, ts_head pid start cc ! 1, ts_head pid start cc ! 2, (0x10 OR cc) OR 0x20]"
      by (simp add: ts_head_def numeral_eq_Suc)
    have "bit ((0x10 OR cc) OR 0x20) 5" by (simp add: bit_simps flag_bits)
    then obtain r where "ts_stuff (5 + length (0x10 # WritePcr pcr) + length t) st (blit (replicate 188 0) 0 (?h @ (7 # 0x10 # WritePcr pcr) @ t)) =
        ?h @ of_nat (7 + st) # (0x10 # WritePcr pcr) @ replicate st 0xff @ t @ r" "length r = len"
      using ts_stuff_wide [OF h, of "0x10 # WritePcr pcr" t st len] n False by auto
    then show ?thesis using head(1) by (intro that [of r]) simp_all
  qed
  have h: "length ?head < 188" "len = min (188 - length ?head) (length (concat xs))"
    "length (?h @ of_nat (7 + st) # (0x10 # WritePcr pcr) @ replicate st 0xff @ t) = 188 - len"
    using assms(3) n by (simp_all add: len_def [symmetric] head(2))
  have r3: "ts_stuff (length ?head) (188 - length ?head - len) (blit (replicate 188 0) 0 ?head) =
      (?h @ of_nat (7 + st) # (0x10 # WritePcr pcr) @ replicate st 0xff @ t) @ r" unfolding head(3) by (rule r(1))
  from ts_fill_steps [OF assms(4,5) h(1,2) r3 r(2) h(3)] obtain ss' xs' where
    "ts_fill ?head ss n = Inr ((?h @ of_nat (7 + st) # (0x10 # WritePcr pcr) @ replicate st 0xff @ t) @ take len (concat xs), ss', int len)"
    "list_all2 sample_is ss' xs'" "concat xs' = drop len (concat xs)"
    by blast
  moreover have "length (take len (concat xs)) = len" using n(2) by simp
  ultimately show ?thesis
    using ts_parse_wide [OF assms(1,2), of st "t @ take len (concat xs)" start pcr] n
    by (intro exI [of _ "(?h @ of_nat (7 + st) # (0x10 # WritePcr pcr) @ replicate st 0xff @ t) @ take len (concat xs)"]
        exI [of _ ss'] exI [of _ xs'] exI [of _ len]) simp
qed

section \<open>A whole stream packet\<close>

lemma pes_length_field:
  assumes "int (length p) = n" and "0 \<le> h"
  shows "\<exists>a b. pes_length n h = [a, b] \<and>
           (push_bit 8 (ucast a) OR ucast b :: u16) = (if n + h + 3 > 0xffff then 0 else word_of_int (n + h + 3))"
  using u16_split by (simp add: pes_length_def WriteUint16T_def Let_def)

lemma unat_pes_length: "0 \<le> h \<Longrightarrow> int k = n \<Longrightarrow> n + h + 3 \<le> 0xffff \<Longrightarrow> unat (word_of_int (n + h + 3) :: u16) = k + nat h + 3"
proof -
  assume a: "0 \<le> h" "int k = n" "n + h + 3 \<le> 0xffff"
  define j where "j = k + nat h + 3"
  have j: "n + h + 3 = int j" "j < 65536" using a by (simp_all add: j_def)
  then have "unat (word_of_int (n + h + 3) :: u16) = j" by (simp add: unat_of_nat)
  then show ?thesis by (simp add: j_def)
qed

lemma parse_one_time:
  assumes "int (length p) = n"
  shows "parse_pes (([0, 0, 1, sid] @ pes_length n 5 @ [0x80, push_bit 6 2, 5] @ WritePts 2 pts) @ p) =
           Some \<lparr>pes_stream = sid, pes_pts = take_bit 33 pts, pes_dts = None, pes_data = p\<rparr>"
proof -
  obtain a b where ab: "pes_length n 5 = [a, b]"
    "(push_bit 8 (ucast a) OR ucast b :: u16) = (if n + 5 + 3 > 0xffff then 0 else word_of_int (n + 5 + 3))"
    using pes_length_field [OF assms, of 5] by auto
  have l: "n + 5 + 3 \<le> 0xffff \<Longrightarrow> unat (word_of_int (n + 5 + 3) :: u16) = length p + 8"
    using unat_pes_length [of 5 "length p" n] assms by simp
  have t: "read_pts (WritePts 2 pts) = Some (2, take_bit 33 pts)" using read_WritePts [of 2 pts] by simp
  show ?thesis
    using l t unfolding ab(1) by (simp add: Let_def ab(2))
qed

lemma parse_two_times:
  assumes "int (length p) = n"
  shows "parse_pes (([0, 0, 1, sid] @ pes_length n 10 @ [0x80, push_bit 6 3, 10] @ WritePts 3 pts @ WritePts 1 dts) @ p) =
           Some \<lparr>pes_stream = sid, pes_pts = take_bit 33 pts, pes_dts = Some (take_bit 33 dts), pes_data = p\<rparr>"
proof -
  obtain a b where ab: "pes_length n 10 = [a, b]"
    "(push_bit 8 (ucast a) OR ucast b :: u16) = (if n + 10 + 3 > 0xffff then 0 else word_of_int (n + 10 + 3))"
    using pes_length_field [OF assms, of 10] by auto
  have l: "n + 10 + 3 \<le> 0xffff \<Longrightarrow> unat (word_of_int (n + 10 + 3) :: u16) = length p + 13"
    using unat_pes_length [of 10 "length p" n] assms by simp
  have t: "read_pts (WritePts 3 pts) = Some (3, take_bit 33 pts)" "read_pts (WritePts 1 dts) = Some (1, take_bit 33 dts)"
    using read_WritePts [of 3 pts] read_WritePts [of 1 dts] by simp_all
  show ?thesis
    using l t unfolding ab(1) by (simp add: Let_def ab(2))
qed

context stream_writer begin

lemma write_pes_rest:
  assumes "pid < 0x2000" and "list_all2 sample_is ss xs" and "int (length (concat xs)) = n"
    and "ok (188 + (2 * length (concat xs) + m)) w"
  shows "\<exists>w' pk. write_pes wr pid af pes False cc ss n w = Inr (cc_after cc (length pk), w') \<and>
           wrote m w (concat pk) w' \<and> ts_collect pid cc pk = Some (concat xs)"
  using assms(2-)
proof (induction "length (concat xs)" arbitrary: xs ss n cc w rule: less_induct)
  case less
  show ?case
  proof (cases "concat xs = []")
    case True
    then have "n = 0" using less.prems(2) unfolding True by simp
    then show ?thesis using wrote_nothing [OF ok_less [OF less.prems(3), of m]] True
      by (intro exI [of _ w] exI [of _ "[]"]) (simp add: write_pes.simps)
  next
    case False
    have n: "0 < n" "ss \<noteq> []" using False less.prems(1,2) by auto
    have h: "pes_packet_head pid False (next_cc cc) af pes = ts_head pid False (next_cc cc) @ []" by (simp add: pes_packet_head_def)
    obtain buf ss' xs' len where f: "ts_fill (ts_head pid False (next_cc cc) @ []) ss n = Inr (buf, ss', int len)"
      "length buf = 188" "0 < len" "len \<le> length (concat xs)" "len = length (concat xs) \<or> 94 \<le> len"
      "ts_parse buf = Some \<lparr>ts_pid = pid, ts_start = False, ts_cc = next_cc cc, ts_pcr = None, ts_payload = [] @ take len (concat xs)\<rparr>"
      "list_all2 sample_is ss' xs'" "concat xs' = drop len (concat xs)"
      using ts_fill_plain [where cc = "next_cc cc" and t = "[]" and start = False, OF assms(1) next_cc_small _ _ less.prems(1,2) n(1)]
      by auto
    obtain w1 where w1: "wr buf w = Inr w1" "wrote (2 * length (concat xs) + m) w buf w1"
      using wr_packet [OF less.prems(3) f(2)] by blast
    have e: "write_pes wr pid af pes False cc ss n w = write_pes wr pid af pes False (next_cc cc) ss' (n - int len) w1"
      using n f(1,3) w1(1) by (subst write_pes.simps) (simp add: h Let_def)
    have l: "length (concat xs') < length (concat xs)" "int (length (concat xs')) = n - int len"
      using f(3,4,8) less.prems(2) False by simp_all
    show ?thesis
    proof (cases "concat xs' = []")
      case True
      then have "n - int len = 0" "take len (concat xs) = concat xs" using l(2) f(8) by simp_all
      then show ?thesis
        using e f(6) wrote_less [OF w1(2), of m]
        by (intro exI [of _ w1] exI [of _ "[buf]"]) (simp add: write_pes.simps)
    next
      case False
      then have "94 \<le> len" using f(5,8) by auto
      then have "ok (188 + (2 * length (concat xs') + m)) w1" using f(4,8) by (intro wrote_ok [OF w1(2)]) simp
      from less.hyps [OF l(1) f(7) l(2) this, of "next_cc cc"] obtain w' pk where
        "write_pes wr pid af pes False (next_cc cc) ss' (n - int len) w1 = Inr (cc_after (next_cc cc) (length pk), w')"
        "wrote m w1 (concat pk) w'" "ts_collect pid (next_cc cc) pk = Some (concat xs')" by auto
      then show ?thesis
        using e f(6,8) wrote_trans [OF w1(2)] by (intro exI [of _ w'] exI [of _ "buf # pk"]) simp
    qed
  qed
qed

lemma write_pes_unit:
  assumes "pid < 0x2000" and "list_all2 sample_is ss xs" and "int (length (concat xs)) = n" and "0 < n"
    and "ok (188 + (2 * length (concat xs) + m)) w"
    and "length pes \<le> 40" and "2 \<le> length pes" and "pes ! 1 = 0"
    and "af = (if key then 7 # 0x10 # WritePcr pcr else [])"
  shows "\<exists>w' pk. write_pes wr pid af pes True cc ss n w = Inr (cc_after cc (length pk), w') \<and>
           wrote m w (concat pk) w' \<and>
           ts_unit pid cc pk = Some (if key then Some (take_bit 33 pcr) else None, pes @ concat xs)"
proof -
  let ?head = "pes_packet_head pid True (next_cc cc) af pes"
  have ss: "ss \<noteq> []" using assms(2-4) by auto
  have h: "?head = (if key then (ts_head pid True (next_cc cc))[3 := (0x10 OR next_cc cc) OR 0x20] @ (7 # 0x10 # WritePcr pcr) @ pes
      else ts_head pid True (next_cc cc) @ pes)"
    using assms(9) by (simp add: pes_packet_head_def ts_head_def Let_def)
  have t: "pes = [] \<or> 2 \<le> length pes \<and> pes ! 1 = 0" using assms(7,8) by simp
  obtain buf ss' xs' len where f: "ts_fill ?head ss n = Inr (buf, ss', int len)"
    "length buf = 188" "0 < len" "len \<le> length (concat xs)" "len = length (concat xs) \<or> 94 \<le> len"
    "ts_parse buf = Some \<lparr>ts_pid = pid, ts_start = True, ts_cc = next_cc cc, ts_pcr = (if key then Some (take_bit 33 pcr) else None),
       ts_payload = pes @ take len (concat xs)\<rparr>"
    "list_all2 sample_is ss' xs'" "concat xs' = drop len (concat xs)"
    using ts_fill_plain [OF assms(1) next_cc_small [of cc] t assms(6) assms(2-4), of True]
      ts_fill_key [OF assms(1) next_cc_small [of cc] assms(6) assms(2-4), of True pcr]
    unfolding h by (cases key) auto
  obtain w1 where w1: "wr buf w = Inr w1" "wrote (2 * length (concat xs) + m) w buf w1"
    using wr_packet [OF assms(5) f(2)] by blast
  have e: "write_pes wr pid af pes True cc ss n w = write_pes wr pid af pes False (next_cc cc) ss' (n - int len) w1"
    using assms(4) ss f(1,3) w1(1) by (subst write_pes.simps) (simp add: Let_def)
  have l: "int (length (concat xs')) = n - int len" using f(4,8) assms(3) by simp
  show ?thesis
  proof (cases "concat xs' = []")
    case True
    then have "n - int len = 0" "take len (concat xs) = concat xs" using l f(8) by simp_all
    then show ?thesis
      using e f(6) wrote_less [OF w1(2), of m]
      by (intro exI [of _ w1] exI [of _ "[buf]"]) (simp add: write_pes.simps)
  next
    case False
    then have "94 \<le> len" using f(5,8) by auto
    then have "ok (188 + (2 * length (concat xs') + m)) w1" using f(4,8) by (intro wrote_ok [OF w1(2)]) simp
    from write_pes_rest [OF assms(1) f(7) l this, of af pes "next_cc cc"] obtain w' pk where
      "write_pes wr pid af pes False (next_cc cc) ss' (n - int len) w1 = Inr (cc_after (next_cc cc) (length pk), w')"
      "wrote m w1 (concat pk) w'" "ts_collect pid (next_cc cc) pk = Some (concat xs')" by auto
    then show ?thesis
      using e f(6,8) wrote_trans [OF w1(2)] by (intro exI [of _ w'] exI [of _ "buf # pk"]) simp
  qed
qed

lemma WriteAudioPes_ok:
  assumes "pid < 0x2000" and "list_all2 sample_is ss xs" and "int (length (concat xs)) = n" and "0 < n"
    and "ok (188 + (2 * length (concat xs) + m)) w"
  shows "\<exists>w' pk body. WriteAudioPes wr pid cc ss n dts w = Inr (cc_after cc (length pk), w') \<and> wrote m w (concat pk) w' \<and>
           ts_unit pid cc pk = Some (None, body) \<and>
           parse_pes body = Some \<lparr>pes_stream = 0xc0, pes_pts = take_bit 33 dts, pes_dts = None, pes_data = concat xs\<rparr>"
proof -
  let ?pes = "[0, 0, 1, 0xc0] @ pes_length n 5 @ [0x80, push_bit 6 2, 5] @ WritePts 2 dts"
  have "length ?pes = 14" by (simp add: pes_length_def Let_def)
  then show ?thesis
    using write_pes_unit [OF assms, where pes = ?pes and af = "[]" and key = False and cc = cc] parse_one_time [OF assms(3), where sid = "0xc0" and pts = dts]
    by (fastforce simp: WriteAudioPes_def)
qed

lemma WriteVideoPes_ok:
  assumes "pid < 0x2000" and "list_all2 sample_is ss xs" and "int (length (concat xs)) = n" and "0 < n"
    and "ok (188 + (2 * length (concat xs) + m)) w"
  shows "\<exists>w' pk body. WriteVideoPes wr pid cc ss n pts dts key w = Inr (cc_after cc (length pk), w') \<and> wrote m w (concat pk) w' \<and>
           ts_unit pid cc pk = Some (if key then Some (take_bit 33 pts) else None, body) \<and>
           parse_pes body = Some \<lparr>pes_stream = 0xe0, pes_pts = take_bit 33 pts,
             pes_dts = (if pts = dts then None else Some (take_bit 33 dts)), pes_data = concat xs\<rparr>"
proof (cases "pts = dts")
  case True
  let ?pes = "[0, 0, 1, 0xe0] @ pes_length n 5 @ [0x80, push_bit 6 2, 5] @ WritePts 2 pts"
  have "length ?pes = 14" by (simp add: pes_length_def Let_def)
  then show ?thesis
    using True write_pes_unit [OF assms, where pes = ?pes and af = "if key then 7 # 0x10 # WritePcr pts else []" and key = key and pcr = pts and cc = cc]
      parse_one_time [OF assms(3), where sid = "0xe0" and pts = pts]
    by (fastforce simp: WriteVideoPes_def Let_def)
next
  case False
  let ?pes = "[0, 0, 1, 0xe0] @ pes_length n 10 @ [0x80, push_bit 6 3, 10] @ WritePts 3 pts @ WritePts 1 dts"
  have "length ?pes = 19" by (simp add: pes_length_def Let_def)
  then show ?thesis
    using False write_pes_unit [OF assms, where pes = ?pes and af = "if key then 7 # 0x10 # WritePcr pts else []" and key = key and pcr = pts and cc = cc]
      parse_two_times [OF assms(3), where sid = "0xe0" and pts = pts and dts = dts]
    by (fastforce simp: WriteVideoPes_def Let_def)
qed

end

end
