(* ===== verification/TsEncoder.thy ===== *)
theory TsEncoder
  imports TsPsi TsPes
begin

text \<open>
  \<open>mmedia/mpegts/TsEncoder.cc\<close> with the rest of \<open>AudioEncoder.cc\<close> and \<open>VideoEncoder.cc\<close>: the
  packets of a live stream become stream packets of a transport stream, in front of which the
  tables say what is in it. \<open>wr\<close> and \<open>ats\<close> are the writer's \<open>Write\<close> and \<open>AppendTimeStamp\<close>. An enum
  of the sources is its number; a size that is added up in an \<open>int32_t\<close> is a 32-bit word.
\<close>

definition kTsStreamReserved :: u8 where "kTsStreamReserved = 0x00"
definition kTsStreamAudioMp3 :: u8 where "kTsStreamAudioMp3 = 0x04"
definition kTsStreamAudioAAC :: u8 where "kTsStreamAudioAAC = 0x0f"
definition kTsStreamVideoH264 :: u8 where "kTsStreamVideoH264 = 0x1b"

lemmas ts_stream_defs = kTsStreamReserved_def kTsStreamAudioMp3_def kTsStreamAudioAAC_def kTsStreamVideoH264_def

text \<open>A sample that is a whole object, such as a start code.\<close>

definition sample_of :: "bytes \<Rightarrow> SampleBuf" where
  "sample_of d = \<lparr>sb_addr = d, sb_size = of_nat (length d)\<rparr>"

section \<open>Audio\<close>

record AudioEncoder =
  ae_pid :: u16
  ae_type :: u8
  ae_cc :: u8
  ae_demux :: AudioDemux

definition AudioEncoder_new :: AudioEncoder where
  "AudioEncoder_new = \<lparr>ae_pid = 0xe000, ae_type = kTsStreamReserved, ae_cc = 0xff, ae_demux = AudioDemux_new\<rparr>"

definition AACObjectTypeToAacProfile :: "u16 \<Rightarrow> u8" where
  "AACObjectTypeToAacProfile type =
     (if type = 1 then 0 else if type = 5 \<or> type = 29 \<or> type = 2 then 1 else if type = 3 then 2 else 3)"

definition adts_header :: "AudioDemux \<Rightarrow> u32 \<Rightarrow> bytes" where
  "adts_header a frame_length =
     [0xff, 0xf9,
      (push_bit 6 (AACObjectTypeToAacProfile (ad_aac_object a)) AND 0xc0) OR
        ucast (push_bit 2 (ad_aac_sample_rate a) AND 0x3c) OR (drop_bit 2 (ad_aac_channel a) AND 0x01),
      (push_bit 6 (ad_aac_channel a) AND 0xc0) OR ucast (drop_bit 11 frame_length AND 0x03),
      ucast (drop_bit 3 frame_length AND 0xff),
      ucast (push_bit 5 frame_length AND 0xe0) OR 0x1f,
      0xfc]"

definition EncodeAAC ::
    "(bytes \<Rightarrow> 'w \<Rightarrow> 'w result) \<Rightarrow> SampleBuf list \<Rightarrow> u64 \<Rightarrow> AudioEncoder \<Rightarrow> 'w \<Rightarrow> (int \<times> AudioEncoder \<times> 'w) result" where
  "EncodeAAC wr samples pts e w =
     (case samples of [] \<Rightarrow> Inr (0, e, w)
      | l # _ \<Rightarrow>
          if sb_size l = 0 \<or> sb_size l > 0x1fff then Inr (-1, e, w)
          else let frame_length = 7 + ucast (sb_size l)
               in rbind (WriteAudioPes wr (ae_pid e) (ae_cc e) [sample_of (adts_header (ae_demux e) frame_length), l]
                          (sint frame_length) pts w) (\<lambda>(cc, w). Inr (0, e\<lparr>ae_cc := cc\<rparr>, w)))"

definition sizes :: "SampleBuf list \<Rightarrow> u32" where
  "sizes samples = sum_list (map (\<lambda>s. ucast (sb_size s)) samples)"

definition EncodeMP3 ::
    "(bytes \<Rightarrow> 'w \<Rightarrow> 'w result) \<Rightarrow> SampleBuf list \<Rightarrow> u64 \<Rightarrow> AudioEncoder \<Rightarrow> 'w \<Rightarrow> (int \<times> AudioEncoder \<times> 'w) result" where
  "EncodeMP3 wr samples pts e w =
     rbind (WriteAudioPes wr (ae_pid e) (ae_cc e) samples (sint (sizes samples)) pts w)
       (\<lambda>(cc, w). Inr (0, e\<lparr>ae_cc := cc\<rparr>, w))"

definition EncodeAudio ::
    "(bytes \<Rightarrow> 'w \<Rightarrow> 'w result) \<Rightarrow> (int \<Rightarrow> 'w \<Rightarrow> 'w) \<Rightarrow> 'e Packet \<Rightarrow> u64 \<Rightarrow> AudioEncoder \<Rightarrow> 'w \<Rightarrow>
     (int \<times> AudioEncoder \<times> 'w) result" where
  "EncodeAudio wr ats p dts e w =
     rbind (AudioDemux_OnDemux (pk_data p) (of_nat (pk_size p)) [] (ae_demux e)) (\<lambda>(ret, samples, a).
       let e = e\<lparr>ae_demux := a\<rparr>
       in if ret = -1 then Inr (-1, e, w)
          else rbind (TsTool_IsCodecHeader p) (\<lambda>header.
            if header then Inr (0, e, w)
            else let w = ats (sint dts) w; dts = dts * 90
                 in if ad_sound_format a = kAudioCodecIDAAC then EncodeAAC wr samples dts e w
                    else if ad_sound_format a = kAudioCodecIDMP3 then EncodeMP3 wr samples dts e w
                    else Inr (0, e, w)))"

section \<open>Video\<close>

record VideoEncoder =
  ve_pid :: u16
  ve_type :: u8
  ve_cc :: u8
  ve_demux :: VideoDemux

definition VideoEncoder_new :: VideoEncoder where
  "VideoEncoder_new = \<lparr>ve_pid = 0xe000, ve_type = kTsStreamReserved, ve_cc = 0xff, ve_demux = VideoDemux_new\<rparr>"

definition AvcInsertStartCode :: "bool \<Rightarrow> SampleBuf list \<Rightarrow> u32 \<times> SampleBuf list \<times> bool" where
  "AvcInsertStartCode inserted samples =
     (if inserted then (3, samples @ [sample_of [0, 0, 1]], inserted)
      else (4, samples @ [sample_of [0, 0, 0, 1]], True))"

text \<open>A unit with its start code behind what has been composed: the samples, their size, the flag.\<close>

type_synonym avc_out = "SampleBuf list \<times> u32 \<times> bool"

definition put_unit :: "SampleBuf \<Rightarrow> avc_out \<Rightarrow> avc_out" where
  "put_unit s = (\<lambda>(samples, tot, inserted).
     case AvcInsertStartCode inserted samples of (n, samples, inserted) \<Rightarrow>
       (samples @ [s], tot + n + ucast (sb_size s), inserted))"

definition put_params ::
    "VideoDemux \<Rightarrow> 'a StreamWriter_scheme \<Rightarrow> avc_out \<Rightarrow> 'a StreamWriter_scheme \<times> avc_out" where
  "put_params v w out =
     (let (w, out) = (if vd_sps v \<noteq> [] then (w\<lparr>sw_sps := vd_sps v\<rparr>, put_unit (sample_of (vd_sps v)) out) else (w, out));
          (w, out) = (if vd_pps v \<noteq> [] then (w\<lparr>sw_pps := vd_pps v\<rparr>, put_unit (sample_of (vd_pps v)) out) else (w, out))
      in (w\<lparr>sw_appended := True\<rparr>, out))"

definition needs_params :: "VideoDemux \<Rightarrow> 'a StreamWriter_scheme \<Rightarrow> bool" where
  "needs_params v w \<longleftrightarrow>
     \<not> vd_has_sps_pps v \<and> (sw_sps w \<noteq> vd_sps v \<or> sw_pps w \<noteq> vd_pps v \<or> \<not> sw_appended w)"

fun put_units ::
    "VideoDemux \<Rightarrow> SampleBuf list \<Rightarrow> 'a StreamWriter_scheme \<Rightarrow> avc_out \<Rightarrow> ('a StreamWriter_scheme \<times> avc_out) result" where
  "put_units v [] w out = Inr (w, out)"
| "put_units v (l # ls) w out =
     (if sb_size l = 0 then put_units v ls w out
      else rbind (nth_checked (sb_addr l) 0) (\<lambda>b.
        case (if nalu_type b = kNaluTypeIDR \<and> needs_params v w then put_params v w out else (w, out)) of
          (w, out) \<Rightarrow> put_units v ls w (put_unit l out)))"

definition EncodeAvc ::
    "(bytes \<Rightarrow> 'a StreamWriter_scheme \<Rightarrow> 'a StreamWriter_scheme result) \<Rightarrow> SampleBuf list \<Rightarrow> bool \<Rightarrow> u64 \<Rightarrow> VideoEncoder \<Rightarrow>
     'a StreamWriter_scheme \<Rightarrow> (int \<times> VideoEncoder \<times> 'a StreamWriter_scheme) result" where
  "EncodeAvc wr samples key dts e w =
     (let v = ve_demux e;
          out = (if \<not> vd_has_aud v then put_unit (sample_of [0x09, 0xf0]) ([], 0, True) else ([], 0, True))
      in rbind (put_units v samples w out) (\<lambda>(w, units, tot, _).
         let pts = (if vd_composition_time v > 0 then dts + word_of_int (vd_composition_time v * 90) else dts)
         in rbind (WriteVideoPes wr (ve_pid e) (ve_cc e) units (sint tot) pts dts key w)
              (\<lambda>(cc, w). Inr (0, e\<lparr>ve_cc := cc\<rparr>, w))))"

definition EncodeVideo ::
    "(bytes \<Rightarrow> 'a StreamWriter_scheme \<Rightarrow> 'a StreamWriter_scheme result) \<Rightarrow>
     (int \<Rightarrow> 'a StreamWriter_scheme \<Rightarrow> 'a StreamWriter_scheme) \<Rightarrow> bool \<Rightarrow> 'e Packet \<Rightarrow> u64 \<Rightarrow> VideoEncoder \<Rightarrow>
     'a StreamWriter_scheme \<Rightarrow> (int \<times> VideoEncoder \<times> 'a StreamWriter_scheme) result" where
  "EncodeVideo wr ats key p dts e w =
     rbind (VideoDemux_OnDemux (pk_data p) (of_nat (pk_size p)) [] (ve_demux e)) (\<lambda>(ret, samples, v).
       let e = e\<lparr>ve_demux := v\<rparr>
       in if ret = -1 then Inr (-1, e, w)
          else rbind (TsTool_IsCodecHeader p) (\<lambda>header.
            if header then Inr (0, e, w)
            else let w = ats (sint dts) w; dts = dts * 90
                 in if vd_codec_id v = kVideoCodecIDAVC then EncodeAvc wr samples key dts e w else Inr (0, e, w)))"

section \<open>The encoder\<close>

record TsEncoder =
  te_pat :: PatWriter
  te_pmt :: PmtWriter
  te_audio :: AudioEncoder
  te_video :: VideoEncoder
  te_video_type :: u8
  te_audio_type :: u8
  te_video_pid :: u16
  te_audio_pid :: u16

definition TsEncoder_new :: TsEncoder where
  "TsEncoder_new = \<lparr>te_pat = PatWriter_new, te_pmt = PmtWriter_new, te_audio = AudioEncoder_new, te_video = VideoEncoder_new,
     te_video_type = kTsStreamReserved, te_audio_type = kTsStreamReserved, te_video_pid = 0xe000, te_audio_pid = 0xe000\<rparr>"

definition Encode ::
    "(bytes \<Rightarrow> 'a StreamWriter_scheme \<Rightarrow> 'a StreamWriter_scheme result) \<Rightarrow>
     (int \<Rightarrow> 'a StreamWriter_scheme \<Rightarrow> 'a StreamWriter_scheme) \<Rightarrow> 'e Packet \<Rightarrow> u64 \<Rightarrow> TsEncoder \<Rightarrow>
     'a StreamWriter_scheme \<Rightarrow> (int \<times> TsEncoder \<times> 'a StreamWriter_scheme) result" where
  "Encode wr ats p dts t w =
     (if IsAudio p then
        rbind (EncodeAudio wr ats p dts (te_audio t) w) (\<lambda>(ret, e, w). Inr (ret, t\<lparr>te_audio := e\<rparr>, w))
      else if IsVideo p then
        rbind (EncodeVideo wr ats (IsKeyFrame p) p dts (te_video t) w) (\<lambda>(ret, e, w). Inr (ret, t\<lparr>te_video := e\<rparr>, w))
      else Inr (0, t, w))"

definition WritePatPmt ::
    "(bytes \<Rightarrow> 'w \<Rightarrow> 'w result) \<Rightarrow> TsEncoder \<Rightarrow> u32 list option \<Rightarrow> 'w \<Rightarrow> (TsEncoder \<times> u32 list option \<times> 'w) result" where
  "WritePatPmt wr t tab w =
     (if te_audio_pid t \<noteq> 0xe000 \<and> te_video_pid t \<noteq> 0xe000 then
        rbind (WritePat wr (te_pat t) tab w) (\<lambda>(x, tab, w).
        rbind (WritePmt wr (te_pmt t) tab w) (\<lambda>(y, tab, w). Inr (t\<lparr>te_pat := x, te_pmt := y\<rparr>, tab, w)))
      else Inr (t, tab, w))"

text \<open>The halves of \<open>SetStreamType\<close>: whether the tables have to be written again is their result.\<close>

definition set_audio_type :: "u8 \<Rightarrow> TsEncoder \<Rightarrow> TsEncoder \<times> bool" where
  "set_audio_type atype t =
     (if atype \<noteq> kTsStreamReserved \<and> atype \<noteq> te_audio_type t then
        (t\<lparr>te_pmt := AddProgramInfo \<lparr>pi_stream_type = atype, pi_elementary_pid = te_audio_pid t\<rparr> (te_pmt t),
           te_audio := (te_audio t)\<lparr>ae_pid := te_audio_pid t, ae_type := atype\<rparr>, te_audio_type := atype\<rparr>, True)
      else (t, False))"

definition set_video_type :: "u8 \<Rightarrow> TsEncoder \<Rightarrow> TsEncoder \<times> bool" where
  "set_video_type vtype t =
     (if vtype \<noteq> kTsStreamReserved \<and> vtype \<noteq> te_video_type t then
        (t\<lparr>te_pmt := SetPcrPid (te_video_pid t) (AddProgramInfo \<lparr>pi_stream_type = vtype, pi_elementary_pid = te_video_pid t\<rparr> (te_pmt t)),
           te_video := (te_video t)\<lparr>ve_pid := te_video_pid t, ve_type := vtype\<rparr>, te_video_type := vtype\<rparr>, True)
      else (t, False))"

definition SetStreamType ::
    "(bytes \<Rightarrow> 'w \<Rightarrow> 'w result) \<Rightarrow> u8 \<Rightarrow> u8 \<Rightarrow> TsEncoder \<Rightarrow> u32 list option \<Rightarrow> 'w \<Rightarrow> (TsEncoder \<times> u32 list option \<times> 'w) result" where
  "SetStreamType wr vc ac t tab w =
     (let (atype, t) = (if ac = kAudioCodecIDAAC then (kTsStreamAudioAAC, t\<lparr>te_audio_pid := 0x101\<rparr>)
                        else if ac = kAudioCodecIDMP3 then (kTsStreamAudioMp3, t\<lparr>te_audio_pid := 0x102\<rparr>)
                        else (kTsStreamReserved, t));
          (vtype, t) = (if vc = kVideoCodecIDAVC then (kTsStreamVideoH264, t\<lparr>te_video_pid := 0x100\<rparr>) else (kTsStreamReserved, t));
          (t, a) = set_audio_type atype t;
          (t, v) = set_video_type vtype t
      in if a \<or> v then WritePatPmt wr t tab w else Inr (t, tab, w))"

end
