(* ===== verification/TsFrames.thy ===== *)
theory TsFrames
  imports TsEncoder
begin

text \<open>
  What the encoders of \<open>TsEncoder\<close> make of a whole packet, for any writer that keeps its contract: a
  frame of video becomes one stream packet with its units in Annex B form, a frame of AAC one with
  an ADTS header in front.
\<close>

locale timed_writer = stream_writer wr view keep ok
  for wr :: "bytes \<Rightarrow> 'a StreamWriter_scheme \<Rightarrow> 'a StreamWriter_scheme result"
    and view :: "'a StreamWriter_scheme \<Rightarrow> bytes" and keep :: "'a StreamWriter_scheme \<Rightarrow> 'k"
    and ok :: "nat \<Rightarrow> 'a StreamWriter_scheme \<Rightarrow> bool" +
  fixes ats :: "int \<Rightarrow> 'a StreamWriter_scheme \<Rightarrow> 'a StreamWriter_scheme" and stamp :: "int \<Rightarrow> 'k \<Rightarrow> 'k"
  assumes ats: "view (ats t w) = view w" "keep (ats t w) = stamp t (keep w)" "ok n (ats t w) = ok n w"
    "sw_sps (ats t w) = sw_sps w" "sw_pps (ats t w) = sw_pps w" "sw_appended (ats t w) = sw_appended w"

section \<open>Units with start codes\<close>

definition unit_pieces :: "bytes list \<Rightarrow> bytes list" where
  "unit_pieces us = concat (map (\<lambda>u. [[0, 0, 1], u]) us)"

text \<open>The byte stream of Annex B: each unit behind a start code.\<close>

definition annexb :: "bytes list \<Rightarrow> bytes" where
  "annexb us = concat (map (\<lambda>u. [0, 0, 1] @ u) us)"

lemma concat_unit_pieces: "concat (unit_pieces us) = annexb us"
  by (induction us) (simp_all add: unit_pieces_def annexb_def)

lemma unit_pieces_append [simp]: "unit_pieces (us @ vs) = unit_pieces us @ unit_pieces vs"
  by (simp add: unit_pieces_def)

definition is_idr :: "bytes \<Rightarrow> bool" where
  "is_idr x \<longleftrightarrow> nalu_type (hd x) = kNaluTypeIDR"

text \<open>The units of a frame with the parameter sets in front of the first IDR unit, where they are wanted.\<close>

fun param_units :: "bool \<Rightarrow> bytes \<Rightarrow> bytes \<Rightarrow> bytes list \<Rightarrow> bytes list" where
  "param_units need sps pps [] = []"
| "param_units need sps pps (x # xs) =
     (if need \<and> is_idr x then [sps, pps, x] @ param_units False sps pps xs else x # param_units need sps pps xs)"

definition out_is :: "avc_out \<Rightarrow> bytes list \<Rightarrow> bool" where
  "out_is out us \<longleftrightarrow> (case out of (ss, tot, inserted) \<Rightarrow>
     inserted \<and> list_all2 sample_is ss (unit_pieces us) \<and> tot = of_nat (length (annexb us)))"

lemma sample_of_is: "length d < 2 ^ 63 \<Longrightarrow> sample_is (sample_of d) d"
  by (simp add: sample_is_def sample_of_def)

lemma ucast_len: "(ucast (of_nat n :: u64) :: u32) = of_nat n"
proof -
  have "(ucast (of_nat n :: u64) :: u32) = of_nat (unat (of_nat n :: u64))" by simp
  also have "\<dots> = of_nat (n mod 2 ^ 64)" by (simp only: unat_of_nat) simp
  also have "\<dots> = of_nat n"
  proof (rule unsigned_word_eqI [where ?'a = nat])
    have "n mod 2 ^ 64 mod 2 ^ 32 = n mod (2 :: nat) ^ 32" by (rule mod_mod_cancel) (simp add: le_imp_power_dvd)
    then show "unat (of_nat (n mod 2 ^ 64) :: u32) = unat (of_nat n :: u32)" by (simp add: unat_of_nat)
  qed
  finally show ?thesis .
qed

lemma put_unit_is:
  assumes "out_is out us" and "sample_is s x"
  shows "out_is (put_unit s out) (us @ [x])"
proof -
  have "sample_is (sample_of [0, 0, 1]) [0, 0, 1]" by (rule sample_of_is) simp
  then show ?thesis
    using assms
    by (auto simp: out_is_def put_unit_def AvcInsertStartCode_def unit_pieces_def annexb_def sample_is_def [of s] ucast_len
        intro!: list_all2_appendI)
qed

definition with_params :: "VideoDemux \<Rightarrow> 'a StreamWriter_scheme \<Rightarrow> 'a StreamWriter_scheme" where
  "with_params v w = w\<lparr>sw_sps := vd_sps v, sw_pps := vd_pps v, sw_appended := True\<rparr>"

lemma put_params_is:
  assumes "out_is out us" and "vd_sps v \<noteq> []" and "vd_pps v \<noteq> []" and "length (vd_sps v) < 2 ^ 63" and "length (vd_pps v) < 2 ^ 63"
  shows "\<exists>out'. put_params v w out = (with_params v w, out') \<and> out_is out' (us @ [vd_sps v, vd_pps v])"
  using assms(2,3) put_unit_is [OF put_unit_is [OF assms(1) sample_of_is [OF assms(4)]] sample_of_is [OF assms(5)]]
  by (simp add: put_params_def with_params_def)

lemma needs_params_after: "\<not> needs_params v (with_params v w)"
  by (simp add: needs_params_def with_params_def)

definition params_ok :: "VideoDemux \<Rightarrow> bool" where
  "params_ok v \<longleftrightarrow> vd_sps v \<noteq> [] \<and> vd_pps v \<noteq> [] \<and> length (vd_sps v) < 2 ^ 63 \<and> length (vd_pps v) < 2 ^ 63"

lemma put_units_is:
  assumes "list_all2 sample_is ss nals" and "\<forall>x \<in> set nals. x \<noteq> []" and "params_ok v" and "out_is out us"
  shows "\<exists>w' out'. put_units v ss w out = Inr (w', out') \<and> w' \<in> {w, with_params v w} \<and>
           out_is out' (us @ param_units (needs_params v w) (vd_sps v) (vd_pps v) nals)"
  using assms
proof (induction ss arbitrary: nals us w out)
  case Nil
  then show ?case by auto
next
  case (Cons s ss)
  obtain x xs where nals: "nals = x # xs" and s: "sample_is s x" and ss: "list_all2 sample_is ss xs"
    using Cons.prems(1) by (cases nals) auto
  obtain r where r: "sb_addr s = x @ r" "sb_size s = of_nat (length x)" "length x < 2 ^ 63" using s by (auto simp: sample_is_def)
  have x: "x \<noteq> []" using Cons.prems(2) nals by simp
  have "unat (sb_size s) = length x" unfolding r(2) using r(3) by (intro unat64) simp
  then have "sb_size s \<noteq> 0" using x by auto
  moreover have "nth_checked (sb_addr s) 0 = Inr (hd x)" using x r by (cases x) auto
  ultimately have e: "put_units v (s # ss) w out =
      (case (if is_idr x \<and> needs_params v w then put_params v w out else (w, out)) of (w, out) \<Rightarrow> put_units v ss w (put_unit s out))"
    by (simp add: is_idr_def)
  show ?case
  proof (cases "is_idr x \<and> needs_params v w")
    case True
    obtain out1 where o1: "put_params v w out = (with_params v w, out1)" "out_is out1 (us @ [vd_sps v, vd_pps v])"
      using put_params_is [OF Cons.prems(4), of v w] Cons.prems(3) by (auto simp: params_ok_def)
    have "out_is (put_unit s out1) (us @ [vd_sps v, vd_pps v, x])" using put_unit_is [OF o1(2) s] by simp
    from Cons.IH [OF ss _ Cons.prems(3) this, of "with_params v w"] Cons.prems(2) nals
    show ?thesis using True e o1(1) needs_params_after [of v w] by (auto simp: with_params_def)
  next
    case False
    from Cons.IH [OF ss _ Cons.prems(3) put_unit_is [OF Cons.prems(4) s], of w] Cons.prems(2) nals
    show ?thesis using False e by (auto split: if_splits)
  qed
qed

section \<open>A video frame\<close>

definition frame_units :: "VideoDemux \<Rightarrow> 'a StreamWriter_scheme \<Rightarrow> bytes list \<Rightarrow> bytes list" where
  "frame_units v w nals =
     (if vd_has_aud v then [] else [[0x09, 0xf0]]) @ param_units (needs_params v w) (vd_sps v) (vd_pps v) nals"

definition pts_of :: "VideoDemux \<Rightarrow> u64 \<Rightarrow> u64" where
  "pts_of v dts = dts + word_of_int (vd_composition_time v * 90)"

lemma annexb_param_units: "nals \<noteq> [] \<Longrightarrow> 0 < length (annexb (param_units need sps pps nals))"
  by (cases nals) (auto simp: annexb_def)

lemma annexb_append: "annexb (us @ vs) = annexb us @ annexb vs"
  by (simp add: annexb_def)

context timed_writer begin

lemma wrote_with_params: "w1 \<in> {w, with_params v w} \<Longrightarrow> wrote m w1 b w2 \<longleftrightarrow> wrote m w b w2"
  using set_base [where w = w] by (auto simp: wrote_def with_params_def)

lemma ok_with_params: "w1 \<in> {w, with_params v w} \<Longrightarrow> ok n w1 = ok n w"
  using set_base [where w = w] by (auto simp: with_params_def)

lemma EncodeAvc_ok:
  assumes "ve_pid e < 0x2000" and "list_all2 sample_is ss nals" and "\<forall>x \<in> set nals. x \<noteq> []" and "nals \<noteq> []"
    and "v = ve_demux e" and "params_ok v" and "0 \<le> vd_composition_time v" and "us = frame_units v w nals"
    and "length (annexb us) < 2 ^ 31" and "ok (188 + (2 * length (annexb us) + m)) w"
  shows "\<exists>w' pk body. EncodeAvc wr ss key dts e w = Inr (0, e\<lparr>ve_cc := cc_after (ve_cc e) (length pk)\<rparr>, w') \<and>
           wrote m w (concat pk) w' \<and>
           ts_unit (ve_pid e) (ve_cc e) pk = Some (if key then Some (take_bit 33 (pts_of v dts)) else None, body) \<and>
           parse_pes body = Some \<lparr>pes_stream = 0xe0, pes_pts = take_bit 33 (pts_of v dts),
             pes_dts = (if pts_of v dts = dts then None else Some (take_bit 33 dts)), pes_data = annexb us\<rparr>"
proof -
  define out where "out = (if \<not> vd_has_aud v then put_unit (sample_of [0x09, 0xf0]) ([], 0, True) else ([], 0, True))"
  have o0: "out_is ([], 0, True) []" by (simp add: out_is_def unit_pieces_def annexb_def)
  have "out_is out (if vd_has_aud v then [] else [[0x09, 0xf0]])"
    using o0 put_unit_is [OF o0 sample_of_is, of "[0x09, 0xf0]"] by (auto simp: out_def)
  from put_units_is [OF assms(2,3,6) this, of w] obtain w1 units tot i where
    u: "put_units v ss w out = Inr (w1, units, tot, i)" "w1 \<in> {w, with_params v w}" "out_is (units, tot, i) us"
    unfolding assms(8) frame_units_def by (metis prod_cases3)
  have l: "list_all2 sample_is units (unit_pieces us)" "tot = of_nat (length (annexb us))" "concat (unit_pieces us) = annexb us"
    using u(3) by (simp_all add: out_is_def concat_unit_pieces)
  have n: "int (length (concat (unit_pieces us))) = sint tot"
    using assms(9) by (simp add: l(2,3) signed_of_nat signed_take_bit_int_eq_self)
  have pos: "0 < length (annexb us)" using annexb_param_units [OF assms(4)] by (simp add: assms(8) frame_units_def annexb_append)
  have "0 < sint tot" using pos n unfolding l(3) by linarith
  moreover have "ok (188 + (2 * length (concat (unit_pieces us)) + m)) w1"
    using assms(10) by (simp only: l(3) ok_with_params [OF u(2)])
  ultimately obtain w' pk body where
    "WriteVideoPes wr (ve_pid e) (ve_cc e) units (sint tot) (pts_of v dts) dts key w1 = Inr (cc_after (ve_cc e) (length pk), w')"
    "wrote m w1 (concat pk) w'"
    "ts_unit (ve_pid e) (ve_cc e) pk = Some (if key then Some (take_bit 33 (pts_of v dts)) else None, body)"
    "parse_pes body = Some \<lparr>pes_stream = 0xe0, pes_pts = take_bit 33 (pts_of v dts),
       pes_dts = (if pts_of v dts = dts then None else Some (take_bit 33 dts)), pes_data = annexb us\<rparr>"
    using WriteVideoPes_ok [OF assms(1) l(1) n, of m w1 "ve_cc e" "pts_of v dts" dts key] unfolding l(3) by blast
  moreover have "(if vd_composition_time v > 0 then dts + word_of_int (vd_composition_time v * 90) else dts) = pts_of v dts"
    using assms(7) by (simp add: pts_of_def)
  ultimately show ?thesis
    using u(1) wrote_with_params [OF u(2)]
    by (intro exI [of _ w'] exI [of _ pk] exI [of _ body])
      (simp add: EncodeAvc_def Let_def assms(5) [symmetric] out_def [symmetric])
qed

lemma needs_params_ats: "needs_params v (ats t w) = needs_params v w"
  by (simp add: needs_params_def ats)

lemma EncodeVideo_ok:
  assumes "ve_pid e < 0x2000" and "packet_inv p" and "payload p = video_frame b cts (vd_nalu_unit_length (ve_demux e)) nals"
    and "b AND 0x0f = kVideoCodecIDAVC" and "drop_bit 4 b \<noteq> 5"
    and "nals \<noteq> []" and "\<forall>x \<in> set nals. nal_fits (vd_nalu_unit_length (ve_demux e)) x"
    and "pk_size p < 2 ^ 63" and "vd_payload_format (ve_demux e) \<noteq> kPayloadFormatAnnexB" and "params_ok (ve_demux e)"
    and "v = after_frame cts nals (ve_demux e)" and "us = frame_units v w nals"
    and "length (annexb us) < 2 ^ 31" and "ok (188 + (2 * length (annexb us) + m)) w"
  shows "\<exists>w' pk body. EncodeVideo wr ats key p dts e w =
             Inr (0, e\<lparr>ve_demux := v, ve_cc := cc_after (ve_cc e) (length pk)\<rparr>, w') \<and>
           wrote m (ats (sint dts) w) (concat pk) w' \<and>
           ts_unit (ve_pid e) (ve_cc e) pk = Some (if key then Some (take_bit 33 (pts_of v (dts * 90))) else None, body) \<and>
           parse_pes body = Some \<lparr>pes_stream = 0xe0, pes_pts = take_bit 33 (pts_of v (dts * 90)),
             pes_dts = (if pts_of v (dts * 90) = dts * 90 then None else Some (take_bit 33 (dts * 90))), pes_data = annexb us\<rparr>"
proof -
  let ?f = "video_frame b cts (vd_nalu_unit_length (ve_demux e)) nals"
  have d: "pk_data p = ?f @ drop (pk_size p) (pk_data p)" "pk_size p = length ?f"
  proof -
    show "pk_data p = ?f @ drop (pk_size p) (pk_data p)" by (simp add: assms(3) [symmetric] payload_def)
    show "pk_size p = length ?f" using assms(2) by (simp add: assms(3) [symmetric] payload_def packet_inv_def)
  qed
  obtain ss where ss: "VideoDemux_OnDemux (pk_data p) (of_nat (pk_size p)) [] (ve_demux e) = Inr (0, ss, v)" "list_all2 sample_is ss nals"
    using OnDemux_frame [OF assms(4,5,7) _ assms(9), of cts "drop (pk_size p) (pk_data p)"] assms(8,11) d by metis
  have "TsTool_IsCodecHeader p = Inr False"
    by (subst TsTool_IsCodecHeader_def, subst d(1)) (simp add: video_frame_def)
  moreover have "vd_codec_id v = kVideoCodecIDAVC" by (simp add: assms(11) after_frame_def)
  moreover have "params_ok v" "0 \<le> vd_composition_time v" "\<forall>x \<in> set nals. x \<noteq> []"
    using assms(7,10) by (auto simp: assms(11) after_frame_def params_ok_def nal_fits_def)
  moreover have "us = frame_units v (ats (sint dts) w) nals" by (simp add: assms(12) frame_units_def needs_params_ats)
  ultimately show ?thesis
    using EncodeAvc_ok [of "e\<lparr>ve_demux := v\<rparr>" ss nals v us "ats (sint dts) w" m key "dts * 90"] assms(1,6,13,14) ss
    by (auto simp: EncodeVideo_def Let_def ats)
qed

end

section \<open>A frame of AAC\<close>

text \<open>The fields of an ADTS header: profile, sample rate index, channels and length.\<close>

definition adts_fields :: "bytes \<Rightarrow> u8 \<times> u8 \<times> u8 \<times> u16" where
  "adts_fields h =
     (drop_bit 6 (h ! 2), take_bit 4 (drop_bit 2 (h ! 2)), push_bit 2 (take_bit 1 (h ! 2)) OR drop_bit 6 (h ! 3),
      push_bit 11 (take_bit 2 (ucast (h ! 3))) OR push_bit 3 (ucast (h ! 4)) OR drop_bit 5 (ucast (h ! 5)))"

lemma length_adts_header [simp]: "length (adts_header a n) = 7"
  by (simp add: adts_header_def)

lemma adts_fields_header:
  "adts_fields (adts_header a n) =
     (take_bit 2 (AACObjectTypeToAacProfile (ad_aac_object a)), ucast (take_bit 4 (ad_aac_sample_rate a)),
      take_bit 3 (ad_aac_channel a), ucast (take_bit 13 n))"
proof -
  define pr where "pr = AACObjectTypeToAacProfile (ad_aac_object a)"
  define r where "r = ad_aac_sample_rate a"
  define c where "c = ad_aac_channel a"
  have m: "(0xc0 :: u8) = push_bit 6 (mask 2)" "(0x3c :: u16) = push_bit 2 (mask 4)" "(0x01 :: u8) = mask 1"
    "(0x03 :: u32) = mask 2" "(0xff :: u32) = mask 8" "(0xe0 :: u32) = push_bit 5 (mask 3)" "(0x1f :: u8) = mask 5"
    by (simp_all add: mask_eq_exp_minus_1)
  define h2 :: u8 where "h2 = (push_bit 6 pr AND push_bit 6 (mask 2)) OR ucast (push_bit 2 r AND push_bit 2 (mask 4)) OR (drop_bit 2 c AND mask 1)"
  define h3 :: u8 where "h3 = (push_bit 6 c AND push_bit 6 (mask 2)) OR ucast (drop_bit 11 n AND mask 2)"
  define h4 :: u8 where "h4 = ucast (drop_bit 3 n AND mask 8)"
  define h5 :: u8 where "h5 = ucast (push_bit 5 n AND push_bit 5 (mask 3)) OR mask 5"
  have "adts_header a n = [0xff, 0xf9, h2, h3, h4, h5, 0xfc]"
    unfolding adts_header_def m h2_def h3_def h4_def h5_def pr_def r_def c_def by (rule refl)
  then have "adts_fields (adts_header a n) =
      (drop_bit 6 h2, take_bit 4 (drop_bit 2 h2), push_bit 2 (take_bit 1 h2) OR drop_bit 6 h3,
       push_bit 11 (take_bit 2 (ucast h3)) OR push_bit 3 (ucast h4) OR drop_bit 5 (ucast h5))"
    by (simp add: adts_fields_def)
  moreover have "drop_bit 6 h2 = take_bit 2 pr" "take_bit 4 (drop_bit 2 h2) = ucast (take_bit 4 r)"
    by (rule bit_word_eqI; auto simp: h2_def bit_simps)+
  moreover have "push_bit 2 (take_bit 1 h2) OR drop_bit 6 h3 = take_bit 3 c"
  proof (rule bit_word_eqI)
    fix k assume "k < LENGTH(8)"
    consider "k = 0" | "k = 1" | "k = 2" | "3 \<le> k" by linarith
    then show "bit (push_bit 2 (take_bit 1 h2) OR drop_bit 6 h3) k = bit (take_bit 3 c) k"
      by cases (simp_all add: h2_def h3_def bit_simps del: take_bit_Suc_0)
  qed
  moreover have "push_bit 11 (take_bit 2 (ucast h3)) OR push_bit 3 (ucast h4) OR drop_bit 5 (ucast h5) = (ucast (take_bit 13 n) :: u16)"
    (is "?l = _")
  proof (rule bit_word_eqI)
    fix k assume "k < LENGTH(16)"
    consider "k < 3" | "3 \<le> k" "k < 11" | "11 \<le> k" "k < 13" | "13 \<le> k" by linarith
    then show "bit ?l k = bit (ucast (take_bit 13 n) :: u16) k"
      by cases (auto simp: h3_def h4_def h5_def bit_simps)
  qed
  ultimately show ?thesis by (simp add: pr_def r_def c_def)
qed

context timed_writer begin

lemma EncodeAudio_aac:
  assumes "ae_pid e < 0x2000" and "packet_inv p" and "payload p = b # 1 # raw" and "drop_bit 4 b = kAudioCodecIDAAC"
    and "ad_aac_ok (ae_demux e)" and "raw \<noteq> []" and "length raw \<le> 0x1fff" and "ok (188 + (2 * (7 + length raw) + m)) w"
  shows "\<exists>a w' pk body. EncodeAudio wr ats p dts e w = Inr (0, e\<lparr>ae_demux := a, ae_cc := cc_after (ae_cc e) (length pk)\<rparr>, w') \<and>
           wrote m (ats (sint dts) w) (concat pk) w' \<and> ts_unit (ae_pid e) (ae_cc e) pk = Some (None, body) \<and>
           ad_aac_object a = ad_aac_object (ae_demux e) \<and> ad_aac_sample_rate a = ad_aac_sample_rate (ae_demux e) \<and>
           ad_aac_channel a = ad_aac_channel (ae_demux e) \<and> ad_aac_ok a \<and>
           parse_pes body = Some \<lparr>pes_stream = 0xc0, pes_pts = take_bit 33 (dts * 90), pes_dts = None,
             pes_data = adts_header a (of_nat (7 + length raw)) @ raw\<rparr>"
proof -
  define d where "d = drop (pk_size p) (pk_data p)"
  have data: "pk_data p = b # 1 # raw @ d" "pk_size p = 2 + length raw"
  proof -
    have "pk_data p = payload p @ d" by (simp add: d_def payload_def)
    then show "pk_data p = b # 1 # raw @ d" by (simp add: assms(3))
    have "pk_size p = length (payload p)" using assms(2) by (simp add: payload_def packet_inv_def)
    then show "pk_size p = 2 + length raw" by (simp add: assms(3))
  qed
  define a where "a = (ae_demux e)\<lparr>ad_sound_format := kAudioCodecIDAAC, ad_sound_rate := drop_bit 2 (b AND 0xc0),
    ad_sound_size := drop_bit 1 (b AND 0x02), ad_sound_type := b AND 0x01\<rparr>"
  let ?s = "\<lparr>sb_addr = raw @ d, sb_size = of_nat (length raw)\<rparr>"
  have u: "unat (of_nat (2 + length raw) :: u64) = 2 + length raw" "unat (of_nat (length raw) :: u64) = length raw"
    using assms(7) by (intro unat64; simp)+
  then have c: "\<not> (of_nat (2 + length raw) :: u64) < 1" "(of_nat (length raw) :: u64) \<noteq> 0" "\<not> (of_nat (length raw) :: u64) > 0x1fff"
    using assms(6,7) by (auto simp: word_less_nat_alt unat_eq_zero simp flip: length_greater_0_conv)
  have z: "of_nat (2 + length raw) - (2 :: u64) = of_nat (length raw)" by simp
  have demux: "AudioDemux_OnDemux (pk_data p) (of_nat (pk_size p)) [] (ae_demux e) = Inr (0, [?s], a)"
    using c(1) z assms(4,5)
    by (simp add: AudioDemux_OnDemux_def DemuxAAC_def data Let_def a_def kAudioCodecIDAAC_def kAudioCodecIDMP3_def del: of_nat_add)
  have "TsTool_IsCodecHeader p = Inr False" by (simp add: TsTool_IsCodecHeader_def data)
  moreover have f: "7 + ucast (of_nat (length raw) :: u64) = (of_nat (7 + length raw) :: u32)" by (simp add: ucast_len)
  let ?h = "adts_header a (of_nat (7 + length raw))"
  have l: "list_all2 sample_is [sample_of ?h, ?s] [?h, raw]"
    using assms(7) by (auto simp: sample_is_def sample_of_def)
  have n: "int (length (concat [?h, raw])) = sint (of_nat (7 + length raw) :: u32)"
    using assms(7) by (simp add: signed_of_nat signed_take_bit_int_eq_self del: of_nat_add)
  then have pos: "0 < sint (of_nat (7 + length raw) :: u32)" by simp
  have "ok (188 + (2 * length (concat [?h, raw]) + m)) (ats (sint dts) w)" using assms(8) by (simp add: ats)
  from WriteAudioPes_ok [OF assms(1) l n pos this, of "ae_cc e" "dts * 90"] obtain w' pk body where
    "WriteAudioPes wr (ae_pid e) (ae_cc e) [sample_of ?h, ?s] (sint (of_nat (7 + length raw) :: u32)) (dts * 90) (ats (sint dts) w) =
       Inr (cc_after (ae_cc e) (length pk), w')" "wrote m (ats (sint dts) w) (concat pk) w'"
    "ts_unit (ae_pid e) (ae_cc e) pk = Some (None, body)"
    "parse_pes body = Some \<lparr>pes_stream = 0xc0, pes_pts = take_bit 33 (dts * 90), pes_dts = None, pes_data = ?h @ raw\<rparr>"
    by auto
  moreover have "ad_sound_format a = kAudioCodecIDAAC" "ad_aac_object a = ad_aac_object (ae_demux e)"
    "ad_aac_sample_rate a = ad_aac_sample_rate (ae_demux e)" "ad_aac_channel a = ad_aac_channel (ae_demux e)" "ad_aac_ok a"
    using assms(5) by (simp_all add: a_def)
  ultimately show ?thesis
    using c(2,3) f
    by (intro exI [of _ a] exI [of _ w'] exI [of _ pk] exI [of _ body]) (simp add: EncodeAudio_def demux EncodeAAC_def Let_def del: of_nat_add)
qed

end

end
