(* ===== verification/HttpUtils.thy ===== *)
theory HttpUtils
  imports StringUtils
begin

text \<open>
  \<open>mmedia/http/HttpUtils.*\<close> and \<open>HttpTypes.h\<close>: methods, versions and status messages, trimming
  and the encoding of urls, with the C functions on characters in the C locale. \<open>char\<close> values
  above 127 are negative in the code; they are the upper half of \<open>char\<close> here.
\<close>

abbreviation crlf :: string where "crlf \<equiv> [CHR 0x0D, CHR 0x0A]"

datatype HttpMethod = kGet | kPost | kHead | kPut | kDelete | kOptions | kPatch | kInvalid

datatype Version = kUnknown | kHttp10 | kHttp11

section \<open>Characters\<close>

definition is_space :: "char \<Rightarrow> bool" where
  "is_space c \<longleftrightarrow> c = CHR 0x20 \<or> c = CHR 0x09 \<or> c = CHR 0x0A \<or> c = CHR 0x0B \<or> c = CHR 0x0C \<or> c = CHR 0x0D"

definition to_lower :: "char \<Rightarrow> char" where
  "to_lower c = (let n = of_char c :: nat in if 65 \<le> n \<and> n \<le> 90 then char_of (n + 32) else c)"

abbreviation lower_case :: "string \<Rightarrow> string" where "lower_case s \<equiv> map to_lower s"

text \<open>The value of a digit, up to base 16.\<close>

definition digit_value :: "char \<Rightarrow> nat option" where
  "digit_value c =
     (let n = of_char c :: nat in
      if 48 \<le> n \<and> n \<le> 57 then Some (n - 48)
      else if 97 \<le> n \<and> n \<le> 102 then Some (n - 97 + 10)
      else if 65 \<le> n \<and> n \<le> 70 then Some (n - 65 + 10)
      else None)"

definition ltrim :: "string \<Rightarrow> string" where
  "ltrim s = dropWhile is_space s"

definition rtrim :: "string \<Rightarrow> string" where
  "rtrim s = rev (dropWhile is_space (rev s))"

definition Trim :: "string \<Rightarrow> string" where
  "Trim s = ltrim (rtrim s)"

section \<open>Numbers\<close>

text \<open>The digits of a number in a base at the front of a string: their value, if there are any.\<close>

fun digits :: "nat \<Rightarrow> nat option \<Rightarrow> string \<Rightarrow> nat option" where
  "digits base acc [] = acc"
| "digits base acc (c # s) =
     (case digit_value c of
        Some d \<Rightarrow> if d < base then digits base (Some ((case acc of None \<Rightarrow> 0 | Some a \<Rightarrow> a) * base + d)) s else acc
      | None \<Rightarrow> acc)"

definition sign_of :: "string \<Rightarrow> bool \<times> string" where
  "sign_of s = (case s of c # r \<Rightarrow> if c = CHR ''-'' then (True, r) else if c = CHR ''+'' then (False, r) else (False, s)
                | [] \<Rightarrow> (False, s))"

text \<open>A prefix \<open>0x\<close> counts when a digit follows it.\<close>

definition skip_0x :: "string \<Rightarrow> string" where
  "skip_0x s =
     (case s of z # x # d # r \<Rightarrow>
        if z = CHR ''0'' \<and> (x = CHR ''x'' \<or> x = CHR ''X'') \<and> digit_value d \<noteq> None then d # r else s
      | _ \<Rightarrow> s)"

text \<open>\<open>strtol\<close> with base 10 or 16, which saturates, and gives 0 when there is no number.\<close>

definition strtol :: "string \<Rightarrow> nat \<Rightarrow> int" where
  "strtol s base =
     (case sign_of (ltrim s) of (neg, r) \<Rightarrow>
        let r = (if base = 16 then skip_0x r else r);
            v = (case digits base None r of None \<Rightarrow> 0 | Some n \<Rightarrow> int n)
        in max (- (2 ^ 63)) (min (2 ^ 63 - 1) (if neg then - v else v)))"

definition atoi :: "string \<Rightarrow> int" where
  "atoi s = int32 (strtol s 10)"

text \<open>\<open>stoull\<close> throws when there is no number or it has more than 64 bits; a minus sign negates modulo \<open>2 ^ 64\<close>.\<close>

definition stoull :: "string \<Rightarrow> int option" where
  "stoull s =
     (case sign_of (ltrim s) of (neg, r) \<Rightarrow>
        case digits 10 None r of
          None \<Rightarrow> None
        | Some n \<Rightarrow> if 2 ^ 64 \<le> n then None else Some ((if neg then - int n else int n) mod 2 ^ 64))"

section \<open>Tables\<close>

definition method_table :: "(string \<times> HttpMethod) list" where
  "method_table = [(''GET'', kGet), (''PUT'', kPut), (''POST'', kPost), (''HEAD'', kHead), (''DELETE'', kDelete),
                   (''OPTIONS'', kOptions)]"

definition ParseMethod :: "string \<Rightarrow> HttpMethod" where
  "ParseMethod m = (case map_of method_table m of Some x \<Rightarrow> x | None \<Rightarrow> kInvalid)"

definition status_table :: "(int \<times> string) list" where
  "status_table =
     [(0, ''unknown''), (100, ''Continue''), (101, ''Switching Protocols''), (200, ''OK''), (201, ''Created''),
      (202, ''Accepted''), (203, ''Non Authoritative Information''), (204, ''No Content''), (205, ''Reset Content''),
      (206, ''Partial Content''), (300, ''Multiple Choices''), (301, ''Moved Permanently''), (302, ''Found''),
      (303, ''See Other''), (304, ''Not Modified''), (305, ''Use Proxy''), (307, ''Temporary Redirect''),
      (308, ''Permanent Redirect''), (400, ''Bad Request''), (401, ''Unauthorized''), (402, ''Payment Required''),
      (403, ''Forbidden''), (404, ''Not Found''), (405, ''Method Not Allowed''), (406, ''Not Acceptable''),
      (407, ''Proxy Authentication Required''), (408, ''Request Timeout''), (409, ''Conflict''), (410, ''Gone''),
      (411, ''Length Required''), (412, ''Precondition Failed''), (413, ''Request Entity Too Large''),
      (414, ''Request URI Too Large''), (415, ''Unsupported Media Type''), (416, ''Requested Range Not Satisfiable''),
      (417, ''Expectation Failed''), (418, ''Im A Teapot''), (421, ''Misdirected Request''), (425, ''Too Early''),
      (426, ''Upgrade Required''), (428, ''Precondition Required''), (429, ''Too Many Requests''),
      (431, ''Request Header Fields Too Large''), (451, ''Unavailable For Legal Reasons''),
      (500, ''Internal Server Error''), (501, ''Not Implemented''), (502, ''Bad Gateway''), (503, ''Service Unavailable''),
      (504, ''Gateway Timeout''), (505, ''HTTP Version Not Supported''), (510, ''Not Extended'')]"

definition ParseStatusMessage :: "int \<Rightarrow> string" where
  "ParseStatusMessage code = (case map_of status_table code of Some m \<Rightarrow> m | None \<Rightarrow> ''unknown'')"

text \<open>The two tables of the code have the same keys; an \<open>HttpStatusCode\<close> is its number.\<close>

definition ParseStatusCode :: "int \<Rightarrow> int" where
  "ParseStatusCode code = (case map_of status_table code of Some _ \<Rightarrow> code | None \<Rightarrow> 0)"

section \<open>Urls\<close>

definition hex_digit :: "nat \<Rightarrow> char" where
  "hex_digit n = char_of (n + (if n > 9 then 65 - 10 else 48))"

definition CharToHex :: "char \<Rightarrow> string" where
  "CharToHex c = (let n = of_char c :: nat in [hex_digit (n div 16), hex_digit (n mod 16)])"

definition url_plain :: "char \<Rightarrow> bool" where
  "url_plain c \<longleftrightarrow>
     (let n = of_char c :: nat in 65 \<le> n \<and> n \<le> 90 \<or> 97 \<le> n \<and> n \<le> 122 \<or> 48 \<le> n \<and> n \<le> 57) \<or>
     c \<in> set (''-_.!~*()&=/?'' @ [CHR 0x27, CHR 0x5C])"

definition url_encode_char :: "char \<Rightarrow> string" where
  "url_encode_char c = (if c = CHR '' '' then ''+'' else if url_plain c then [c] else CHR ''%'' # CharToHex c)"

definition UrlEncode :: "string \<Rightarrow> string" where
  "UrlEncode s = concat (map url_encode_char s)"

definition NeedUrlDecoding :: "string \<Rightarrow> bool" where
  "NeedUrlDecoding url \<longleftrightarrow> CHR ''+'' \<in> set url \<or> CHR ''%'' \<in> set url"

fun UrlDecode :: "string \<Rightarrow> string" where
  "UrlDecode [] = []"
| "UrlDecode (c # s) =
     (if c = CHR ''+'' then CHR '' '' # UrlDecode s
      else if c = CHR ''%''
      then (case s of a # b # r \<Rightarrow>
              (case (digit_value a, digit_value b) of
                 (Some x, Some y) \<Rightarrow> char_of (x * 16 + y) # UrlDecode r
               | _ \<Rightarrow> CHR ''%'' # UrlDecode s)
            | _ \<Rightarrow> CHR ''%'' # UrlDecode s)
      else c # UrlDecode s)"

text \<open>Decoding undoes encoding, for every string.\<close>

lemma half_bytes: "(of_char c :: nat) div 16 < 16" "(of_char c :: nat) mod 16 < 16"
proof -
  have "(of_char c :: nat) < 16 * 16" using of_char_nat_less [of c] by simp
  then show "(of_char c :: nat) div 16 < 16" by (rule less_mult_imp_div_less)
qed simp

lemma hex_digit_value: "n < 16 \<Longrightarrow> digit_value (hex_digit n) = Some n"
  by (auto simp: digit_value_def hex_digit_def Let_def)

lemma UrlDecode_encoded_char: "UrlDecode (url_encode_char c @ r) = c # UrlDecode r"
proof (cases "c = CHR '' '' \<or> url_plain c")
  case True
  then show ?thesis by (auto simp: url_encode_char_def url_plain_def)
next
  case False
  let ?n = "of_char c :: nat"
  have "digit_value (hex_digit (?n div 16)) = Some (?n div 16)" "digit_value (hex_digit (?n mod 16)) = Some (?n mod 16)"
    by (simp_all only: hex_digit_value half_bytes)
  moreover have "char_of (?n div 16 * 16 + ?n mod 16) = c" by simp
  ultimately show ?thesis using False by (simp add: url_encode_char_def CharToHex_def Let_def)
qed

lemma UrlDecode_UrlEncode: "UrlDecode (UrlEncode s) = s"
  by (induction s) (simp_all add: UrlEncode_def UrlDecode_encoded_char)

lemma UrlDecode_plain: "\<not> NeedUrlDecoding s \<Longrightarrow> UrlDecode s = s"
  by (induction s) (auto simp: NeedUrlDecoding_def)

text \<open>What is encoded holds no separator of a request line.\<close>

lemma hex_digit_range: "n < 16 \<Longrightarrow> hex_digit n \<in> set ''0123456789ABCDEF''"
proof -
  have "\<forall>n \<in> set [0 ..< 16]. hex_digit n \<in> set ''0123456789ABCDEF''" by code_simp
  then show "n < 16 \<Longrightarrow> hex_digit n \<in> set ''0123456789ABCDEF''" by simp
qed

lemma UrlEncode_clean:
  assumes "c \<in> set (UrlEncode s)"
  shows "c \<noteq> CHR '' '' \<and> c \<noteq> CHR 0x0D \<and> c \<noteq> CHR 0x0A \<and> c \<noteq> CHR '':''"
proof -
  from assms obtain d where "c \<in> set (url_encode_char d)" by (auto simp: UrlEncode_def)
  moreover have "hex_digit (of_char d div 16) \<in> set ''0123456789ABCDEF''" "hex_digit (of_char d mod 16) \<in> set ''0123456789ABCDEF''"
    by (simp_all only: hex_digit_range half_bytes)
  ultimately have "url_plain c \<or> c = CHR ''+'' \<or> c = CHR ''%'' \<or> c \<in> set ''0123456789ABCDEF''"
    by (auto simp: url_encode_char_def CharToHex_def Let_def split: if_splits)
  then show ?thesis by (auto simp: url_plain_def Let_def)
qed

section \<open>Trimming\<close>

lemma Trim_id:
  assumes "s \<noteq> []" "\<not> is_space (hd s)" "\<not> is_space (last s)"
  shows "Trim s = s"
proof -
  have "rtrim s = s" using assms by (simp add: rtrim_def dropWhile_eq_self_iff [THEN iffD2] hd_rev)
  then show ?thesis using assms by (simp add: Trim_def ltrim_def dropWhile_eq_self_iff)
qed

lemma Trim_leading: "Trim (CHR '' '' # s) = Trim s"
proof (cases "dropWhile is_space (rev s) = []")
  case True
  then have "dropWhile is_space (rev s @ '' '') = []" by (simp add: dropWhile_eq_Nil_conv is_space_def [of "CHR '' ''"])
  then show ?thesis using True by (simp only: Trim_def rtrim_def ltrim_def rev.simps(2))
next
  case False
  then have "dropWhile is_space (rev s @ '' '') = dropWhile is_space (rev s) @ '' ''"
    by (metis dropWhile_append1 dropWhile_eq_Nil_conv)
  then show ?thesis by (simp add: Trim_def ltrim_def rtrim_def is_space_def)
qed

end
