(* ===== verification/Fragment.thy ===== *)
theory Fragment
  imports TsFrames HttpUtils
begin

text \<open>
  \<open>mmedia/hls/Fragment.cc\<close>: one segment of a playlist, the writer the encoders write to. Its bytes
  are the payload of a packet that is replaced by a bigger one when it is full. A capacity that
  passes the range of \<open>int32_t\<close> becomes negative, and the allocation throws.
\<close>

definition kFragmentStepSize :: nat where "kFragmentStepSize = 128 * 1024"

record 'e Fragment = StreamWriter +
  fr_duration :: int
  fr_filename :: string
  fr_start_dts :: int
  fr_data :: "'e Packet option"
  fr_buf_size :: nat
  fr_data_size :: nat
  fr_sequence_no :: int

definition Fragment_new :: "'e Fragment" where
  "Fragment_new = \<lparr>sw_sps = [], sw_pps = [], sw_appended = False, fr_duration = 0, fr_filename = [], fr_start_dts = -1,
     fr_data = None, fr_buf_size = 512 * 1024, fr_data_size = 0, fr_sequence_no = 0\<rparr>"

definition AppendTimeStamp :: "int \<Rightarrow> 'e Fragment \<Rightarrow> 'e Fragment" where
  "AppendTimeStamp dts f =
     (let start = min (if fr_start_dts f = -1 then dts else fr_start_dts f) dts
      in f\<lparr>fr_start_dts := start, fr_duration := dts - start\<rparr>)"

function grow_buffer :: "nat \<Rightarrow> nat \<Rightarrow> nat" where
  "grow_buffer need n = (if need > n then grow_buffer need (n + kFragmentStepSize) else n)"
  by pat_completeness auto
termination by (relation "measure (\<lambda>(need, n). need - n)") (auto simp: kFragmentStepSize_def)

declare grow_buffer.simps [simp del]

definition grow_packet :: "nat \<Rightarrow> 'e Packet \<Rightarrow> 'e Packet result" where
  "grow_packet n p =
     (if 2 ^ 31 \<le> n then Inl BadAlloc
      else rbind (NewPacket (int n)) (\<lambda>q. packet_append (payload p) q))"

definition Fragment_Write :: "bytes \<Rightarrow> 'e Fragment \<Rightarrow> 'e Fragment result" where
  "Fragment_Write d f =
     rbind (case fr_data f of None \<Rightarrow> NewPacket (int (fr_buf_size f)) | Some p \<Rightarrow> Inr p) (\<lambda>p.
     rbind (if Space p < int (length d)
            then let n = grow_buffer (fr_data_size f + length d) (fr_buf_size f + kFragmentStepSize)
                 in rbind (grow_packet n p) (\<lambda>q. Inr (q, n))
            else Inr (p, fr_buf_size f)) (\<lambda>(p, n).
     rbind (packet_append d p) (\<lambda>p.
       Inr (f\<lparr>fr_data := Some p, fr_buf_size := n, fr_data_size := fr_data_size f + length d\<rparr>))))"

definition Fragment_Size :: "'e Fragment \<Rightarrow> nat result" where
  "Fragment_Size f = (case fr_data f of None \<Rightarrow> Inl NullDeref | Some p \<Rightarrow> Inr (pk_size p))"

definition signed_text :: "int \<Rightarrow> string" where
  "signed_text i = (if i < 0 then ''-'' @ decimal (nat (- i)) else decimal (nat i))"

text \<open>\<open>now\<close> is the reading of \<open>TTime::NowMs\<close>.\<close>

definition SetBaseFileName :: "int \<Rightarrow> string \<Rightarrow> 'e Fragment \<Rightarrow> 'e Fragment" where
  "SetBaseFileName now v f = f\<lparr>fr_filename := v @ ''_'' @ signed_text now @ ''.ts''\<rparr>"

definition SetSequenceNo :: "int \<Rightarrow> 'e Fragment \<Rightarrow> 'e Fragment" where
  "SetSequenceNo no f = f\<lparr>fr_sequence_no := int32 no\<rparr>"

definition Fragment_Reset :: "'e Fragment \<Rightarrow> 'e Fragment" where
  "Fragment_Reset f =
     f\<lparr>fr_duration := 0, fr_sequence_no := 0, fr_data_size := 0, fr_start_dts := -1, sw_appended := False,
       fr_data := map_option (\<lambda>p. p\<lparr>pk_size := 0\<rparr>) (fr_data f)\<rparr>"

section \<open>The contract of a writer\<close>

definition fr_contents :: "'e Fragment \<Rightarrow> bytes" where
  "fr_contents f = (case fr_data f of None \<Rightarrow> [] | Some p \<Rightarrow> payload p)"

definition fr_keep :: "'e Fragment \<Rightarrow> int \<times> int \<times> string \<times> int" where
  "fr_keep f = (fr_start_dts f, fr_duration f, fr_filename f, fr_sequence_no f)"

definition fragment_inv :: "'e Fragment \<Rightarrow> bool" where
  "fragment_inv f \<longleftrightarrow>
     (case fr_data f of None \<Rightarrow> fr_data_size f = 0
      | Some p \<Rightarrow> packet_inv p \<and> pk_size p = fr_data_size f \<and> pk_capacity p = fr_buf_size f)"

text \<open>There is room while neither what was written nor the capacity comes near 2 GB.\<close>

definition fr_ok :: "nat \<Rightarrow> 'e Fragment \<Rightarrow> bool" where
  "fr_ok n f \<longleftrightarrow> fragment_inv f \<and> fr_data_size f + n + 4 * kFragmentStepSize < 2 ^ 31 \<and>
     fr_buf_size f + 2 * kFragmentStepSize < 2 ^ 31"

definition fr_stamp :: "int \<Rightarrow> int \<times> int \<times> 'n \<times> 'q \<Rightarrow> int \<times> int \<times> 'n \<times> 'q" where
  "fr_stamp dts = (\<lambda>(start, _, r). let s = min (if start = -1 then dts else start) dts in (s, dts - s, r))"

lemma grow_buffer_bounds:
  "need \<le> grow_buffer need n \<and> n \<le> grow_buffer need n \<and> grow_buffer need n \<le> max n (need + kFragmentStepSize)"
proof (induction need n rule: grow_buffer.induct)
  case (1 need n)
  then show ?case by (subst (1 2 3) grow_buffer.simps) (auto simp: kFragmentStepSize_def split: if_splits)
qed

lemma grow_packet_ok:
  assumes "packet_inv p" and "pk_size p \<le> n" and "n < 2 ^ 31"
  shows "\<exists>q. grow_packet n p = Inr q \<and> packet_inv q \<and> payload q = payload p \<and> pk_size q = pk_size p \<and> pk_capacity q = n"
proof -
  obtain q :: "'a Packet" where q: "NewPacket (int n) = Inr q" "packet_inv q" "pk_size q = 0" "pk_capacity q = n"
    using NewPacket_ok [of "int n"] by auto
  have l: "length (payload p) = pk_size p" using assms(1) by (simp add: payload_def packet_inv_def)
  obtain r where r: "packet_append (payload p) q = Inr r" "packet_inv r" "payload r = payload q @ payload p"
    "pk_capacity r = pk_capacity q"
    using packet_append_ok [OF q(2), of "payload p"] q(3,4) l assms(2) by (auto simp: Space_def)
  have e: "payload q = []" using q(3) by (simp add: payload_def)
  have "pk_size r = pk_size p" using r(1) q(3) l by (auto simp: packet_append_def split: if_splits)
  then show ?thesis using assms(3) q(1,4) r e by (simp add: grow_packet_def)
qed

lemma append_size: "packet_append d p = Inr q \<Longrightarrow> pk_size q = pk_size p + length d"
  by (auto simp: packet_append_def split: if_splits)

lemma Fragment_Write_ok:
  assumes "fr_ok (length d + n) f"
  shows "\<exists>f'. Fragment_Write d f = Inr f' \<and> fr_contents f' = fr_contents f @ d \<and> fr_ok n f' \<and> fr_keep f' = fr_keep f"
proof -
  note ok = assms [unfolded fr_ok_def]
  obtain p where p: "(case fr_data f of None \<Rightarrow> NewPacket (int (fr_buf_size f)) | Some p \<Rightarrow> Inr p) = Inr p"
    "packet_inv p" "pk_size p = fr_data_size f" "pk_capacity p = fr_buf_size f" "payload p = fr_contents f"
  proof (cases "fr_data f")
    case None
    then show ?thesis
      using ok NewPacket_ok [of "int (fr_buf_size f)"] by (fastforce simp: fragment_inv_def fr_contents_def payload_def intro: that)
  next
    case (Some q)
    then show ?thesis using ok by (intro that [of q]) (simp_all add: fragment_inv_def fr_contents_def)
  qed
  let ?need = "fr_data_size f + length d"
  define m where "m = (if Space p < int (length d) then grow_buffer ?need (fr_buf_size f + kFragmentStepSize) else fr_buf_size f)"
  have m: "?need \<le> m" "m + 2 * kFragmentStepSize < 2 ^ 31" "fr_data_size f \<le> m"
    using grow_buffer_bounds [of ?need "fr_buf_size f + kFragmentStepSize"] p(2-4) ok
    by (auto simp: m_def Space_def packet_inv_def)
  obtain q where q: "(if Space p < int (length d) then
       let n = grow_buffer ?need (fr_buf_size f + kFragmentStepSize) in rbind (grow_packet n p) (\<lambda>q. Inr (q, n))
       else Inr (p, fr_buf_size f)) = Inr (q, m)"
    "packet_inv q" "payload q = payload p" "pk_size q = pk_size p" "pk_capacity q = m"
  proof (cases "Space p < int (length d)")
    case True
    obtain q where "grow_packet m p = Inr q" "packet_inv q" "payload q = payload p" "pk_size q = pk_size p" "pk_capacity q = m"
      using grow_packet_ok [OF p(2), of m] m p(3) by auto
    then show ?thesis using True by (intro that [of q]) (simp_all add: m_def Let_def)
  next
    case False
    then show ?thesis using p by (intro that [of p]) (simp_all add: m_def)
  qed
  obtain r where r: "packet_append d q = Inr r" "packet_inv r" "payload r = payload q @ d" "pk_capacity r = m"
    using packet_append_ok [OF q(2), of d] q(4,5) m(1) p(3) by (auto simp: Space_def)
  have "pk_size r = ?need" using append_size [OF r(1)] q(4) p(3) by simp
  then show ?thesis
    using p q r ok m by (simp add: Fragment_Write_def fr_contents_def fr_ok_def fragment_inv_def fr_keep_def)
qed

lemma Fragment_Write_base:
  "Fragment_Write d f = Inr f' \<Longrightarrow> sw_sps f' = sw_sps f \<and> sw_pps f' = sw_pps f \<and> sw_appended f' = sw_appended f"
  by (auto simp: Fragment_Write_def result_simps)

lemma fr_ok_less: "fr_ok n f \<Longrightarrow> m \<le> n \<Longrightarrow> fr_ok m f"
  by (simp add: fr_ok_def)

lemma fr_base:
  "fr_contents (f\<lparr>sw_sps := a, sw_pps := b, sw_appended := c\<rparr>) = fr_contents f"
  "fr_keep (f\<lparr>sw_sps := a, sw_pps := b, sw_appended := c\<rparr>) = fr_keep f"
  "fr_ok n (f\<lparr>sw_sps := a, sw_pps := b, sw_appended := c\<rparr>) = fr_ok n f"
  by (auto simp: fr_contents_def fr_keep_def fr_ok_def fragment_inv_def split: option.splits)

lemma fr_stamped:
  "fr_contents (AppendTimeStamp t f) = fr_contents f" "fr_keep (AppendTimeStamp t f) = fr_stamp t (fr_keep f)"
  "fr_ok n (AppendTimeStamp t f) = fr_ok n f" "sw_sps (AppendTimeStamp t f) = sw_sps f"
  "sw_pps (AppendTimeStamp t f) = sw_pps f" "sw_appended (AppendTimeStamp t f) = sw_appended f"
  by (auto simp: AppendTimeStamp_def Let_def fr_contents_def fr_keep_def fr_stamp_def fr_ok_def fragment_inv_def split: option.splits)

interpretation frag: timed_writer Fragment_Write fr_contents fr_keep fr_ok AppendTimeStamp fr_stamp
  by unfold_locales (rule Fragment_Write_ok Fragment_Write_base fr_ok_less fr_base fr_stamped; assumption?)+

end
