(* ===== verification/Hls.thy ===== *)
theory Hls
  imports Fragment
begin

text \<open>
  \<open>mmedia/hls/FragmentWindow.cc\<close> and \<open>HLSMuxer.cc\<close>: the segments of a stream and the playlist that
  names the last of them. A \<open>shared_ptr\<close> to a segment is its value: nothing writes to one that has
  left the muxer. \<open>tab\<close> is the checksum table of the process, \<open>now\<close> a reading of the clock.
\<close>

section \<open>The window\<close>

record 'e FragmentWindow =
  fw_size :: int
  fw_fragments :: "'e Fragment list"
  fw_free :: "'e Fragment list"
  fw_playlist :: string

definition FragmentWindow_new :: "'e FragmentWindow" where
  "FragmentWindow_new = \<lparr>fw_size = 5, fw_fragments = [], fw_free = [], fw_playlist = []\<rparr>"

primrec shrink_loop :: "nat \<Rightarrow> 'e FragmentWindow \<Rightarrow> 'e FragmentWindow" where
  "shrink_loop 0 w = w"
| "shrink_loop (Suc n) w =
     (case fw_fragments w of [] \<Rightarrow> w
      | p # ps \<Rightarrow> shrink_loop n (w\<lparr>fw_fragments := ps, fw_free := fw_free w @ [Fragment_Reset p]\<rparr>))"

definition Shrink :: "'e FragmentWindow \<Rightarrow> 'e FragmentWindow" where
  "Shrink w =
     (if int (length (fw_fragments w)) > fw_size w then w
      else shrink_loop (nat (int (length (fw_fragments w)) - fw_size w)) w)"

text \<open>
  Durations are milliseconds and are printed in seconds with three decimals. The divisions by
  1000.0 are exact to that for any duration below \<open>2 ^ 43\<close>, far more than the 32 bits of a time
  stamp can give.
\<close>

definition seconds_text :: "int \<Rightarrow> string" where
  "seconds_text d =
     (let n = nat \<bar>d\<bar> in (if d < 0 then ''-'' else []) @ decimal (n div 1000) @ ''.'' @
        [''0123456789'' ! (n div 100 mod 10), ''0123456789'' ! (n div 10 mod 10), ''0123456789'' ! (n mod 10)])"

definition newline :: string where "newline = [CHR 0x0A]"

definition playlist_entry :: "'e Fragment \<Rightarrow> string" where
  "playlist_entry f = ''#EXTINF:'' @ seconds_text (fr_duration f) @ '','' @ newline @ fr_filename f @ newline"

text \<open>
  The longest segment in whole seconds. The conversion to \<open>int32_t\<close> is left out: a duration is a
  difference of 32-bit time stamps, for which it changes nothing (\<open>target_duration_int32\<close> of
  \<open>HlsProps\<close>).
\<close>

definition target_duration :: "'e Fragment list \<Rightarrow> int" where
  "target_duration fs = - ((- foldl max 0 (map fr_duration fs)) div 1000)"

definition playlist_text :: "'e Fragment list \<Rightarrow> string" where
  "playlist_text fs =
     ''#EXTM3U'' @ newline @ ''#EXT-X-VERSION:3'' @ newline @
     ''#EXT-X-TARGETDURATION:'' @ signed_text (target_duration fs) @ newline @
     ''#EXT-X-MEDIA-SEQUENCE:'' @ signed_text (fr_sequence_no (hd fs)) @ newline @
     concat (map playlist_entry fs)"

definition UpdatePlayList :: "'e FragmentWindow \<Rightarrow> 'e FragmentWindow" where
  "UpdatePlayList w =
     (let n = length (fw_fragments w)
      in if n < 3 then w
         else w\<lparr>fw_playlist := playlist_text (drop (if n > 5 then n - 5 else 0) (fw_fragments w))\<rparr>)"

definition AppendFragment :: "'e Fragment \<Rightarrow> 'e FragmentWindow \<Rightarrow> 'e FragmentWindow" where
  "AppendFragment f w = UpdatePlayList (Shrink (w\<lparr>fw_fragments := fw_fragments w @ [f]\<rparr>))"

definition GetIdleFragment :: "'e FragmentWindow \<Rightarrow> 'e Fragment \<times> 'e FragmentWindow" where
  "GetIdleFragment w =
     (case fw_free w of [] \<Rightarrow> (Fragment_new, w) | p # ps \<Rightarrow> (p, w\<lparr>fw_free := ps\<rparr>))"

definition GetFragmentByName :: "string \<Rightarrow> 'e FragmentWindow \<Rightarrow> 'e Fragment option" where
  "GetFragmentByName name w = find (\<lambda>f. fr_filename f = name) (fw_fragments w)"

section \<open>The muxer\<close>

record 'e HLSMuxer =
  hm_window :: "'e FragmentWindow"
  hm_encoder :: TsEncoder
  hm_current :: "'e Fragment option"
  hm_stream_name :: string
  hm_seq_no :: int

definition min_fragment_size :: int where "min_fragment_size = 3000"
definition max_fragment_size :: int where "max_fragment_size = 12000"

definition HLSMuxer_new :: "string \<Rightarrow> 'e HLSMuxer" where
  "HLSMuxer_new session_name =
     (let list = SplitString session_name ''/''
      in \<lparr>hm_window = FragmentWindow_new, hm_encoder = TsEncoder_new, hm_current = None,
          hm_stream_name = (if length list = 3 then list ! 2 else session_name), hm_seq_no = 0\<rparr>)"

text \<open>\<open>IsCodecHeader\<close> is the same text as \<open>TsTool::IsCodecHeader\<close>.\<close>

definition HLSMuxer_IsCodecHeader :: "'e Packet \<Rightarrow> bool result" where
  "HLSMuxer_IsCodecHeader p = TsTool_IsCodecHeader p"

definition ParseCodec ::
    "'e Fragment \<Rightarrow> 'p Packet \<Rightarrow> TsEncoder \<Rightarrow> u32 list option \<Rightarrow> (TsEncoder \<times> u32 list option \<times> 'e Fragment) result" where
  "ParseCodec f p t tab =
     (if IsAudio p then
        rbind (nth_checked (pk_data p) 0) (\<lambda>b. SetStreamType Fragment_Write kVideoCodecIDReserved (drop_bit 4 (b AND 0xf0)) t tab f)
      else if IsVideo p then
        rbind (nth_checked (pk_data p) 0) (\<lambda>b. SetStreamType Fragment_Write (b AND 0x0f) kAudioCodecIDReserved t tab f)
      else Inr (t, tab, f))"

definition cut_fragment :: "'p Packet \<Rightarrow> 'e HLSMuxer \<Rightarrow> 'e HLSMuxer" where
  "cut_fragment p m =
     (case hm_current m of None \<Rightarrow> m
      | Some f \<Rightarrow>
          if IsKeyFrame p \<and> fr_duration f \<ge> min_fragment_size \<or> fr_duration f > max_fragment_size
          then m\<lparr>hm_window := AppendFragment f (hm_window m), hm_current := None\<rparr> else m)"

text \<open>The segment that is written to; a new one begins with the tables.\<close>

definition open_fragment ::
    "int \<Rightarrow> 'e HLSMuxer \<Rightarrow> u32 list option \<Rightarrow> ('e HLSMuxer \<times> u32 list option \<times> 'e Fragment) result" where
  "open_fragment now m tab =
     (case hm_current m of Some f \<Rightarrow> Inr (m, tab, f)
      | None \<Rightarrow>
          case GetIdleFragment (hm_window m) of (f, w) \<Rightarrow>
          let f = SetSequenceNo (hm_seq_no m) (SetBaseFileName now (hm_stream_name m) (Fragment_Reset f))
          in rbind (WritePatPmt Fragment_Write (hm_encoder m) tab f) (\<lambda>(t, tab, f).
               Inr (m\<lparr>hm_window := w, hm_encoder := t, hm_seq_no := hm_seq_no m + 1\<rparr>, tab, f)))"

definition HLSMuxer_OnPacket ::
    "int \<Rightarrow> 'p Packet \<Rightarrow> 'e HLSMuxer \<Rightarrow> u32 list option \<Rightarrow> ('e HLSMuxer \<times> u32 list option) result" where
  "HLSMuxer_OnPacket now p m tab =
     rbind (open_fragment now (cut_fragment p m) tab) (\<lambda>(m, tab, f).
     rbind (HLSMuxer_IsCodecHeader p) (\<lambda>header.
     rbind (if header then ParseCodec f p (hm_encoder m) tab else Inr (hm_encoder m, tab, f)) (\<lambda>(t, tab, f).
     rbind (Encode Fragment_Write AppendTimeStamp p (pk_timestamp p) t f) (\<lambda>(_, t, f).
       Inr (m\<lparr>hm_encoder := t, hm_current := Some f\<rparr>, tab)))))"

definition PlayList :: "'e HLSMuxer \<Rightarrow> string" where
  "PlayList m = fw_playlist (hm_window m)"

definition GetFragment :: "string \<Rightarrow> 'e HLSMuxer \<Rightarrow> 'e Fragment option" where
  "GetFragment name m = GetFragmentByName name (hm_window m)"

section \<open>Nothing leaves the window\<close>

text \<open>
  \<open>Shrink\<close> returns when there are too many segments and finds nothing to remove when there are
  not: the test is the wrong way round. Every segment ever finished stays in memory.
\<close>

lemma Shrink_nothing: "Shrink w = w"
  by (simp add: Shrink_def)

lemma AppendFragment_fields:
  "fw_fragments (AppendFragment f w) = fw_fragments w @ [f]" "fw_free (AppendFragment f w) = fw_free w"
  by (simp_all add: AppendFragment_def Shrink_nothing UpdatePlayList_def Let_def)

lemma AppendFragment_playlist:
  "fw_playlist (AppendFragment f w) =
     (let fs = fw_fragments w @ [f] in if length fs < 3 then fw_playlist w else playlist_text (drop (length fs - 5) fs))"
  by (auto simp: AppendFragment_def Shrink_nothing UpdatePlayList_def Let_def)

end
