(* ===== verification/HttpRequest.thy ===== *)
theory HttpRequest
  imports HttpUtils
begin

text \<open>
  \<open>mmedia/http/HttpRequest.cc\<close>: a message, request or response. The order in which the code
  goes through an \<open>unordered_map\<close> is not specified: a text is made with the entries in any
  order, which is a parameter (\<open>lists_map\<close> says that a list has the entries of a map).
\<close>

record HttpRequest =
  rq_method :: HttpMethod
  rq_version :: Version
  rq_path :: string
  rq_query :: string
  rq_headers :: "string \<rightharpoonup> string"
  rq_parameters :: "string \<rightharpoonup> string"
  rq_body :: string
  rq_code :: nat
  rq_is_request :: bool
  rq_is_stream :: bool
  rq_is_chunked :: bool

definition HttpRequest_new :: "bool \<Rightarrow> HttpRequest" where
  "HttpRequest_new is_request =
     \<lparr>rq_method = kInvalid, rq_version = kUnknown, rq_path = [], rq_query = [], rq_headers = Map.empty,
      rq_parameters = Map.empty, rq_body = [], rq_code = 0, rq_is_request = is_request, rq_is_stream = False,
      rq_is_chunked = False\<rparr>"

definition lists_map :: "('a \<times> 'b) list \<Rightarrow> ('a \<rightharpoonup> 'b) \<Rightarrow> bool" where
  "lists_map es m \<longleftrightarrow> distinct (map fst es) \<and> map_of es = m"

section \<open>Headers, parameters, path and version\<close>

definition AddHeader :: "string \<Rightarrow> string \<Rightarrow> HttpRequest \<Rightarrow> HttpRequest" where
  "AddHeader key value r = r\<lparr>rq_headers := (rq_headers r)(lower_case key \<mapsto> value)\<rparr>"

definition RemoveHeader :: "string \<Rightarrow> HttpRequest \<Rightarrow> HttpRequest" where
  "RemoveHeader key r = r\<lparr>rq_headers := (rq_headers r)(lower_case key := None)\<rparr>"

definition GetHeader :: "string \<Rightarrow> HttpRequest \<Rightarrow> string" where
  "GetHeader key r = (case rq_headers r (lower_case key) of Some v \<Rightarrow> v | None \<Rightarrow> [])"

definition setParameter :: "string \<Rightarrow> string \<Rightarrow> HttpRequest \<Rightarrow> HttpRequest" where
  "setParameter key value r = r\<lparr>rq_parameters := (rq_parameters r)(key \<mapsto> value)\<rparr>"

definition GetParameter :: "string \<Rightarrow> HttpRequest \<Rightarrow> string" where
  "GetParameter key r = (case rq_parameters r key of Some v \<Rightarrow> v | None \<Rightarrow> [])"

definition parse_parameter :: "string \<Rightarrow> HttpRequest \<Rightarrow> HttpRequest" where
  "parse_parameter l r =
     (case string_find ''='' l of
        Some pos \<Rightarrow> setParameter (Trim (take pos l)) (Trim (drop (pos + 1) l)) r
      | None \<Rightarrow> r)"

definition ParseParameters :: "HttpRequest \<Rightarrow> HttpRequest" where
  "ParseParameters r = fold parse_parameter (SplitString (rq_query r) ''&'') r"

definition SetQuery :: "string \<Rightarrow> HttpRequest \<Rightarrow> HttpRequest" where
  "SetQuery q r = ParseParameters (r\<lparr>rq_query := q\<rparr>)"

definition SetMethod :: "string \<Rightarrow> HttpRequest \<Rightarrow> HttpRequest" where
  "SetMethod m r = r\<lparr>rq_method := ParseMethod m\<rparr>"

text \<open>\<open>compare\<close> is not zero when the strings differ: six characters are compared with seven.\<close>

definition SetVersion :: "string \<Rightarrow> HttpRequest \<Rightarrow> HttpRequest" where
  "SetVersion v r =
     r\<lparr>rq_version :=
         (if length v = 8 \<and> take 6 v \<noteq> ''HTTP/1.''
          then if v ! 7 = CHR ''1'' then kHttp11 else if v ! 7 = CHR ''0'' then kHttp10 else kUnknown
          else kUnknown)\<rparr>"

definition SetPath :: "string \<Rightarrow> HttpRequest \<Rightarrow> HttpRequest" where
  "SetPath path r = r\<lparr>rq_path := (if NeedUrlDecoding path then UrlDecode path else path)\<rparr>"

definition SetStatusCode :: "int \<Rightarrow> HttpRequest \<Rightarrow> HttpRequest" where
  "SetStatusCode code r = r\<lparr>rq_code := nat (uint32 code)\<rparr>"

definition SetBody :: "string \<Rightarrow> HttpRequest \<Rightarrow> HttpRequest" where
  "SetBody body r = r\<lparr>rq_body := body\<rparr>"

section \<open>Making a text\<close>

fun method_text :: "HttpMethod \<Rightarrow> string" where
  "method_text kGet = ''GET ''"
| "method_text kPost = ''POST ''"
| "method_text kHead = ''HEAD ''"
| "method_text kPut = ''PUT ''"
| "method_text kDelete = ''DELETE ''"
| "method_text kOptions = ''OPTIONS ''"
| "method_text kPatch = ''PATCH ''"
| "method_text kInvalid = ''INVALID ''"

definition version_text :: "Version \<Rightarrow> string" where
  "version_text v = (if v = kHttp10 then ''HTTP/1.0 '' else ''HTTP/1.1 '')"

definition url_text :: "(string \<times> string) list \<Rightarrow> HttpRequest \<Rightarrow> string" where
  "url_text ps r =
     (if rq_path r \<noteq> [] then rq_path r else ''/'') @
     (if ps \<noteq> [] then ''?'' @ join ''&'' (map (\<lambda>(k, v). k @ ''='' @ v) ps) else [])"

definition AppendRequestFirstLine :: "(string \<times> string) list \<Rightarrow> HttpRequest \<Rightarrow> string" where
  "AppendRequestFirstLine ps r =
     method_text (rq_method r) @ UrlEncode (url_text ps r) @ '' '' @ version_text (rq_version r) @ crlf"

definition AppendResponseFirstLine :: "HttpRequest \<Rightarrow> string" where
  "AppendResponseFirstLine r =
     version_text (rq_version r) @ decimal (rq_code r) @ '' '' @ ParseStatusMessage (int32 (int (rq_code r))) @ crlf"

definition MakeHeaders :: "(string \<times> string) list \<Rightarrow> (string \<times> string) list \<Rightarrow> HttpRequest \<Rightarrow> string" where
  "MakeHeaders hs ps r =
     (if rq_is_request r then AppendRequestFirstLine ps r else AppendResponseFirstLine r) @
     concat (map (\<lambda>(k, v). k @ '': '' @ v @ crlf) hs) @ crlf"

definition AppendToBuffer :: "(string \<times> string) list \<Rightarrow> (string \<times> string) list \<Rightarrow> HttpRequest \<Rightarrow> string" where
  "AppendToBuffer hs ps r = MakeHeaders hs ps r @ rq_body r"

section \<open>Responses\<close>

definition NewHttp400Response :: HttpRequest where
  "NewHttp400Response = AddHeader ''User-Agent'' ''tmms'' (SetStatusCode 400 (HttpRequest_new False))"

definition NewHttp404Response :: HttpRequest where
  "NewHttp404Response = AddHeader ''User-Agent'' ''tmms'' (SetStatusCode 404 (HttpRequest_new False))"

definition NewHttpOptionsResponse :: HttpRequest where
  "NewHttpOptionsResponse =
     fold (\<lambda>(k, v). AddHeader k v)
       [(''server'', ''tmms''), (''content-length'', ''0''), (''content-type'', ''text/plain''),
        (''Access-Control-Allow-Origin'', ''*''), (''Access-Control-Allow-Methods'', ''POST,GET,OPTIONS''),
        (''Allow'', ''POST,GET,OPTIONS''), (''Access-Control-Allow-Headers'', ''content-type'')]
       (SetStatusCode 200 (HttpRequest_new False))"

section \<open>Lines\<close>

text \<open>A separator is first found behind a text that does not hold its first character.\<close>

lemma string_find_skip:
  assumes "c \<notin> set l"
  shows "string_find (c # d) (l @ s) = map_option ((+) (length l)) (string_find (c # d) s)"
  using assms
proof (induction l)
  case Nil
  show ?case by (cases "string_find (c # d) s") simp_all
next
  case (Cons a l)
  then show ?case by (cases "string_find (c # d) s") (auto simp: prefix_def)
qed

lemma string_find_here: "string_find d (d @ s) = Some 0"
  by (cases d; cases s) (auto simp: prefix_def)

lemma split_rest_line:
  assumes "c \<notin> set l"
  shows "split_rest (c # d) (l @ (c # d) @ s) = l # split_rest (c # d) s"
proof -
  have "string_find (c # d) (l @ (c # d) @ s) = Some (length l)"
    using string_find_skip [OF assms, of d "(c # d) @ s"] string_find_here [of "c # d" s] by simp
  then show ?thesis by (subst split_rest.simps) simp
qed

lemma split_rest_last:
  assumes "c \<notin> set l" and "l \<noteq> []"
  shows "split_rest (c # d) l = [l]"
  using string_find_skip [OF assms(1), of d "[]"] assms(2) by (simp add: split_rest.simps [of "c # d" l])

lemma split_lines:
  assumes "\<forall>l \<in> set ls. c \<notin> set l" and "ls \<noteq> []" and "last ls \<noteq> []"
  shows "split_rest (c # d) (join (c # d) ls) = ls"
  using assms
proof (induction "c # d" ls rule: join.induct)
  case (2 p)
  then show ?case by (simp add: split_rest_last)
next
  case (3 p q ps)
  then have "split_rest (c # d) (join (c # d) (q # ps)) = q # ps" by simp
  with 3 split_rest_line [of c p d "join (c # d) (q # ps)"] show ?case by simp
qed simp

text \<open>The end of the headers is the first empty line.\<close>

abbreviation crlfcrlf :: string where "crlfcrlf \<equiv> [CHR 0x0D, CHR 0x0A, CHR 0x0D, CHR 0x0A]"

definition line_ok :: "string \<Rightarrow> bool" where
  "line_ok l \<longleftrightarrow> l \<noteq> [] \<and> CHR 0x0D \<notin> set l \<and> CHR 0x0A \<notin> set l"

lemma find_header_end:
  assumes "\<forall>l \<in> set ls. line_ok l" and "ls \<noteq> []"
  shows "string_find crlfcrlf (concat (map (\<lambda>l. l @ crlf) ls) @ crlf @ s) = Some (length (join crlf ls))"
  using assms
proof (induction ls)
  case (Cons l ls)
  let ?r = "concat (map (\<lambda>l. l @ crlf) ls) @ crlf @ s"
  have l: "CHR 0x0D \<notin> set l" using Cons.prems(1) by (simp add: line_ok_def)
  have f: "string_find crlfcrlf (concat (map (\<lambda>l. l @ crlf) (l # ls)) @ crlf @ s) =
      map_option ((+) (length l)) (string_find crlfcrlf (crlf @ ?r))"
    using string_find_skip [OF l, of "[CHR 0x0A, CHR 0x0D, CHR 0x0A]" "crlf @ ?r"] by simp
  show ?case
  proof (cases ls)
    case Nil
    then have "crlf @ ?r = crlfcrlf @ s" by simp
    then have "string_find crlfcrlf (crlf @ ?r) = Some 0" by (simp only: string_find_here)
    with f Nil show ?thesis by simp
  next
    case (Cons m ms)
    then obtain a m' where m: "m = a # m'" "a \<noteq> CHR 0x0D"
      using Cons.prems(1) by (cases m) (auto simp: line_ok_def)
    have "string_find crlfcrlf ?r = Some (length (join crlf ls))"
      using Cons Cons.IH Cons.prems(1) by simp
    then have "string_find crlfcrlf (crlf @ ?r) = Some (2 + length (join crlf ls))"
      using Cons m by (simp add: prefix_def)
    with f Cons show ?thesis by (simp add: join_Cons)
  qed
qed simp

end
