(* ===== verification/HttpParser.thy ===== *)
theory HttpParser
  imports HttpRequest Packet MsgBuffer
begin

text \<open>
  \<open>mmedia/http/HttpParser.cc\<close>: the parser of requests and responses, a state machine over
  the socket buffer. A packet of a negative size cannot be represented; making one is the fault
  \<open>OutOfBounds\<close>. Buffers are below 2 GiB.
\<close>

section \<open>State\<close>

datatype HttpParserState =
  kExpectHeaders | kExpectNormalBody | kExpectStreamBody | kExpectHttpComplete | kExpectChunkLen | kExpectChunkBody |
  kExpectChunkComplete | kExpectLastEmptyChunk | kExpectContinue | kExpectError

record HttpParser =
  hp_state :: HttpParserState
  hp_chunk_length :: int
  hp_content_length :: int
  hp_is_stream :: bool
  hp_is_chunked :: bool
  hp_is_request :: bool
  hp_reason :: nat
  hp_header :: string
  hp_chunk :: "unit Packet option"
  hp_req :: "HttpRequest option"

definition HttpParser_new :: HttpParser where
  "HttpParser_new =
     \<lparr>hp_state = kExpectHeaders, hp_chunk_length = 0, hp_content_length = 0, hp_is_stream = False, hp_is_chunked = False,
      hp_is_request = True, hp_reason = 0, hp_header = [], hp_chunk = None, hp_req = None\<rparr>"

definition kHttpMaxBodySize :: nat where "kHttpMaxBodySize = 64 * 1024"

definition bad_request :: "HttpParser \<Rightarrow> HttpParser" where
  "bad_request p = p\<lparr>hp_reason := 400, hp_state := kExpectError\<rparr>"

definition ClearForNextHttp :: "HttpParser \<Rightarrow> HttpParser" where
  "ClearForNextHttp p =
     p\<lparr>hp_state := kExpectHeaders, hp_header := [], hp_req := None, hp_content_length := -1, hp_chunk := None\<rparr>"

definition ClearForNextChunk :: "HttpParser \<Rightarrow> HttpParser" where
  "ClearForNextChunk p =
     (if hp_is_chunked p then p\<lparr>hp_state := kExpectChunkLen, hp_chunk_length := -1\<rparr>
      else if hp_is_stream p then p\<lparr>hp_state := kExpectStreamBody\<rparr>
      else p\<lparr>hp_state := kExpectHeaders, hp_chunk_length := -1\<rparr>)\<lparr>hp_chunk := None\<rparr>"

section \<open>Headers\<close>

text \<open>\<open>list[1]\<close> and \<open>list[2]\<close> are read unchecked, \<open>list[0]\<close> of an empty line too.\<close>

definition request_line :: "string list \<Rightarrow> HttpRequest \<Rightarrow> HttpRequest result" where
  "request_line list r =
     rbind (nth_checked list 0) (\<lambda>method. rbind (nth_checked list 1) (\<lambda>path.
       let r = SetMethod method r;
           r = (case find_first_of {CHR ''?''} path of
                  Some pos \<Rightarrow> SetQuery (drop (pos + 1) path) (SetPath (take pos path) r)
                | None \<Rightarrow> SetPath path r)
       in rbind (nth_checked list 2) (\<lambda>v. Inr (SetVersion v r))))"

definition status_line :: "string list \<Rightarrow> HttpRequest \<Rightarrow> HttpRequest result" where
  "status_line list r =
     rbind (nth_checked list 0) (\<lambda>v. rbind (nth_checked list 1) (\<lambda>code.
       Inr (SetStatusCode (atoi code) (SetVersion v r))))"

definition ProcessMethodLine :: "string \<Rightarrow> HttpParser \<Rightarrow> HttpParser result" where
  "ProcessMethodLine line p =
     (let list = SplitString line '' '' in
      rbind (nth_checked list 0) (\<lambda>str.
        let p = p\<lparr>hp_is_request := \<not> prefix ''http'' (lower_case str)\<rparr>;
            r = HttpRequest_new (hp_is_request p)
        in rbind (if hp_is_request p then request_line list r else status_line list r) (\<lambda>r.
             Inr (p\<lparr>hp_req := Some r\<rparr>))))"

text \<open>A line with a colon is a header, the first line included.\<close>

definition parse_header_line :: "string \<Rightarrow> HttpRequest \<Rightarrow> HttpRequest" where
  "parse_header_line l r =
     (case find_first_of {CHR '':''} l of
        Some pos \<Rightarrow> AddHeader (Trim (take pos l)) (Trim (drop (pos + 1) l)) r
      | None \<Rightarrow> r)"

text \<open>What follows the headers; the length is converted to \<open>int32_t\<close>.\<close>

definition message_kind :: "HttpRequest \<Rightarrow> HttpParser \<Rightarrow> HttpParser" where
  "message_kind r p =
     (let len = GetHeader ''content-length'' r; p = p\<lparr>hp_req := Some r\<rparr> in
      if len \<noteq> []
      then (case stoull len of
              None \<Rightarrow> bad_request p
            | Some n \<Rightarrow> p\<lparr>hp_content_length := int32 n,
                         hp_state := (if int32 n = 0 then kExpectHttpComplete else kExpectNormalBody)\<rparr>)
      else if GetHeader ''transfer-encoding'' r = ''chunked''
      then p\<lparr>hp_is_chunked := True, hp_req := Some (r\<lparr>rq_is_chunked := True\<rparr>), hp_state := kExpectChunkLen\<rparr>
      else if \<not> hp_is_request p \<and> rq_code r \<noteq> 200 \<or> hp_is_request p \<and> rq_method r \<in> {kGet, kHead, kOptions}
      then p\<lparr>hp_content_length := 0, hp_state := kExpectHttpComplete\<rparr>
      else p\<lparr>hp_content_length := -1, hp_is_stream := True, hp_req := Some (r\<lparr>rq_is_stream := True\<rparr>),
             hp_state := kExpectStreamBody\<rparr>)"

definition ParseHeaders :: "HttpParser \<Rightarrow> HttpParser result" where
  "ParseHeaders p =
     (let list = SplitString (hp_header p) crlf in
      case list of
        [] \<Rightarrow> Inr (bad_request p)
      | line # _ \<Rightarrow> rbind (ProcessMethodLine line p) (\<lambda>p.
          case hp_req p of
            None \<Rightarrow> Inl NullDeref
          | Some r \<Rightarrow> Inr (message_kind (fold parse_header_line list r) p)))"

section \<open>Bodies\<close>

text \<open>As many bytes of the buffer as the packet has room for; the number copied is returned.\<close>

definition fill_chunk :: "int \<Rightarrow> HttpParser \<Rightarrow> MsgBuffer \<Rightarrow> (unit Packet \<times> nat \<times> MsgBuffer) result" where
  "fill_chunk capacity p buf =
     rbind (case hp_chunk p of Some c \<Rightarrow> Inr c | None \<Rightarrow> NewPacket capacity) (\<lambda>c.
       let size = min (int (ReadableBytes buf)) (Space c)
       in if size < 0 then Inl OutOfBounds
          else rbind (packet_append (take (nat size) (buf_contents buf)) c) (\<lambda>c.
                 Inr (c, nat size, Retrieve (nat size) buf)))"

definition ParseStream :: "HttpParser \<Rightarrow> MsgBuffer \<Rightarrow> (HttpParser \<times> MsgBuffer) result" where
  "ParseStream p buf =
     rbind (fill_chunk (int kHttpMaxBodySize) p buf) (\<lambda>(c, size, buf).
       Inr (p\<lparr>hp_chunk := Some c, hp_state := (if Space c = 0 then kExpectChunkComplete else hp_state p)\<rparr>, buf))"

definition ParseNormalBody :: "HttpParser \<Rightarrow> MsgBuffer \<Rightarrow> (HttpParser \<times> MsgBuffer) result" where
  "ParseNormalBody p buf =
     rbind (fill_chunk (hp_content_length p) p buf) (\<lambda>(c, size, buf).
       let len = hp_content_length p - int size
       in Inr (p\<lparr>hp_chunk := Some c, hp_content_length := len,
                 hp_state := (if len = 0 then kExpectHttpComplete else hp_state p)\<rparr>, buf))"

definition ParseChunk :: "HttpParser \<Rightarrow> MsgBuffer \<Rightarrow> (HttpParser \<times> MsgBuffer) result" where
  "ParseChunk p buf =
     rbind (fill_chunk (hp_chunk_length p) p buf) (\<lambda>(c, size, buf).
       let p = p\<lparr>hp_chunk := Some c, hp_chunk_length := hp_chunk_length p - int size\<rparr>
       in if hp_chunk_length p = 0 \<or> Space c = 0
          then (if pk_size c < 2 then Inl OutOfBounds
                else Inr (p\<lparr>hp_chunk := Some (c\<lparr>pk_size := pk_size c - 2\<rparr>), hp_state := kExpectChunkComplete\<rparr>, buf))
          else Inr (p, buf))"

text \<open>The error state of a wrong length is overwritten by what follows.\<close>

definition ParseChunkLen :: "HttpParser \<Rightarrow> MsgBuffer \<Rightarrow> (HttpParser \<times> MsgBuffer) result" where
  "ParseChunkLen p buf =
     (case FindCRLF buf of
        Some pos \<Rightarrow>
          let len = int32 (strtol (string_of_bytes (take pos (buf_contents buf))) 16);
              p = p\<lparr>hp_chunk_length := len\<rparr>;
              p = (if len < 2 \<or> len > 1024 * 1024 then bad_request p else p)
          in rbind (RetrieveUntil (pos + 2) buf) (\<lambda>buf.
               Inr (if len = 0 then p\<lparr>hp_state := kExpectLastEmptyChunk\<rparr>
                    else p\<lparr>hp_chunk_length := int32 (len + 2), hp_state := kExpectChunkBody\<rparr>, buf))
      | None \<Rightarrow>
          if ReadableBytes buf > 32 then Inr (bad_request p, RetrieveAll buf) else Inr (p, buf))"

definition ParseLastEmptyChunk :: "HttpParser \<Rightarrow> MsgBuffer \<Rightarrow> (HttpParser \<times> MsgBuffer) result" where
  "ParseLastEmptyChunk p buf =
     (case FindCRLF buf of
        Some pos \<Rightarrow> rbind (RetrieveUntil (pos + 2) buf) (\<lambda>buf.
          Inr (p\<lparr>hp_chunk := None, hp_state := kExpectChunkComplete\<rparr>, buf))
      | None \<Rightarrow> Inr (p, buf))"

section \<open>Parse\<close>

text \<open>The state returned is \<open>kExpectContinue\<close> while the headers are not complete.\<close>

definition ParseHead :: "HttpParser \<Rightarrow> MsgBuffer \<Rightarrow> (HttpParserState \<times> HttpParser \<times> MsgBuffer) result" where
  "ParseHead p buf =
     (if ReadableBytes buf > 4
      then case string_find crlfcrlf (string_of_bytes (buf_contents buf)) of
             Some n \<Rightarrow>
               rbind (ParseHeaders (p\<lparr>hp_header := take n (string_of_bytes (buf_contents buf))\<rparr>)) (\<lambda>p.
                 Inr (hp_state p, p, Retrieve (n + 4) buf))
           | None \<Rightarrow>
               if ReadableBytes buf > kHttpMaxBodySize then Inr (kExpectError, bad_request p, buf)
               else Inr (kExpectContinue, p, buf)
      else Inr (kExpectContinue, p, buf))"

definition parse_clear :: "HttpParser \<Rightarrow> HttpParser" where
  "parse_clear p =
     (if hp_state p = kExpectHttpComplete then ClearForNextHttp p
      else if hp_state p = kExpectChunkComplete then ClearForNextChunk p else p)"

definition HttpParser_Parse :: "HttpParser \<Rightarrow> MsgBuffer \<Rightarrow> (HttpParserState \<times> HttpParser \<times> MsgBuffer) result" where
  "HttpParser_Parse p buf =
     (if ReadableBytes buf = 0 then Inr (hp_state p, p, buf)
      else
        let p = parse_clear p; body = (\<lambda>r. rbind r (\<lambda>(p, buf). Inr (hp_state p, p, buf)))
        in case hp_state p of
             kExpectHeaders \<Rightarrow> ParseHead p buf
           | kExpectNormalBody \<Rightarrow> body (ParseNormalBody p buf)
           | kExpectStreamBody \<Rightarrow> body (ParseStream p buf)
           | kExpectChunkLen \<Rightarrow> body (ParseChunkLen p buf)
           | kExpectChunkBody \<Rightarrow> body (ParseChunk p buf)
           | kExpectLastEmptyChunk \<Rightarrow> body (ParseLastEmptyChunk p buf)
           | _ \<Rightarrow> Inr (hp_state p, p, buf))"

end
