(* ===== verification/HttpContext.thy ===== *)
theory HttpContext
  imports HttpParser "HOL-Library.Monad_Syntax"
begin

text \<open>
  \<open>mmedia/http/HttpContext.cc\<close>: the loop over the buffer and the states of posting. What the
  handler and the connection are asked to do is a list of events, in order; the handler is
  there (the servers always pass one).
\<close>

section \<open>Parsing\<close>

datatype http_event =
  OnRequestEv "HttpRequest option" "unit Packet option" | CloseEv | SendEv bytes | OnSentEv | OnSentNextChunkEv

text \<open>One round: what a state makes the context do.\<close>

definition parse_events :: "HttpParserState \<Rightarrow> HttpParser \<Rightarrow> http_event list" where
  "parse_events st p =
     (if st = kExpectHttpComplete \<or> st = kExpectChunkComplete then [OnRequestEv (hp_req p) (hp_chunk p)]
      else if st = kExpectError then [CloseEv] else [])"

text \<open>
  The loop ends when at most one byte is left or a read faults; it may not end, so the outer
  option is \<open>None\<close> for a loop without end.
\<close>

partial_function (option) HttpContext_Parse ::
    "HttpParser \<Rightarrow> MsgBuffer \<Rightarrow> http_event list \<Rightarrow> (HttpParser \<times> MsgBuffer \<times> http_event list) result option" where
  "HttpContext_Parse p buf evs =
     (if ReadableBytes buf > 1
      then case HttpParser_Parse p buf of
             Inl e \<Rightarrow> Some (Inl e)
           | Inr (st, p, buf) \<Rightarrow> HttpContext_Parse p buf (evs @ parse_events st p)
      else Some (Inr (p, buf, evs)))"

text \<open>A state in which a round changes nothing is one the loop never leaves.\<close>

definition stuck :: "HttpParser \<Rightarrow> MsgBuffer \<Rightarrow> bool" where
  "stuck p buf \<longleftrightarrow> ReadableBytes buf > 1 \<and> (\<exists>st. HttpParser_Parse p buf = Inr (st, p, buf))"

lemma returns_not_stuck:
  assumes "HttpContext_Parse p buf evs = Some r"
  shows "\<not> stuck p buf"
proof (rule HttpContext_Parse.raw_induct [where P = "\<lambda>p buf evs r. \<not> stuck p buf", OF _ assms])
  fix f p buf evs r
  assume IH: "\<And>p buf evs r. f p buf evs = Some r \<Longrightarrow> \<not> stuck p buf"
    and f: "(if ReadableBytes buf > 1
      then case HttpParser_Parse p buf of Inl e \<Rightarrow> Some (Inl e)
           | Inr (st, p, buf) \<Rightarrow> f p buf (evs @ parse_events st p)
      else Some (Inr (p, buf, evs))) = Some r"
  show "\<not> stuck p buf"
  proof
    assume s: "stuck p buf"
    then obtain st where "HttpParser_Parse p buf = Inr (st, p, buf)" "1 < ReadableBytes buf"
      by (auto simp: stuck_def)
    with f have "f p buf (evs @ parse_events st p) = Some r" by simp
    with IH s show False by blast
  qed
qed

lemma stuck_forever: "stuck p buf \<Longrightarrow> HttpContext_Parse p buf evs = None"
  using returns_not_stuck by (metis option.exhaust)

section \<open>Posting\<close>

datatype HttpContextPostState =
  kHttpContextPostInit | kHttpContextPostHttp | kHttpContextPostHttpHeader | kHttpContextPostHttpBody |
  kHttpContextPostHttpStreamHeader | kHttpContextPostHttpStreamChunk | kHttpContextPostChunkHeader |
  kHttpContextPostChunkLen | kHttpContextPostChunkBody | kHttpContextPostChunkEOF

record HttpPost =
  hx_header :: string
  hx_out_packet :: "unit Packet option"
  hx_post_state :: HttpContextPostState
  hx_header_sent :: bool

definition HttpPost_new :: HttpPost where
  "HttpPost_new = \<lparr>hx_header = [], hx_out_packet = None, hx_post_state = kHttpContextPostInit, hx_header_sent = False\<rparr>"

abbreviation send_text :: "string \<Rightarrow> http_event" where "send_text s \<equiv> SendEv (bytes_of_string s)"

definition send_packet :: "HttpPost \<Rightarrow> http_event result" where
  "send_packet c =
     (case hx_out_packet c of None \<Rightarrow> Inl NullDeref
      | Some p \<Rightarrow> rbind (slice_checked (pk_data p) 0 (pk_size p)) (\<lambda>d. Inr (SendEv d)))"

definition PostRequest_text :: "string \<Rightarrow> HttpPost \<Rightarrow> bool \<times> HttpPost \<times> http_event list" where
  "PostRequest_text header_and_body c =
     (if hx_post_state c \<noteq> kHttpContextPostInit then (False, c, [])
      else (True, c\<lparr>hx_header := header_and_body, hx_post_state := kHttpContextPostHttp\<rparr>, [send_text header_and_body]))"

definition PostRequest_packet :: "string \<Rightarrow> unit Packet \<Rightarrow> HttpPost \<Rightarrow> bool \<times> HttpPost \<times> http_event list" where
  "PostRequest_packet header packet c =
     (if hx_post_state c \<noteq> kHttpContextPostInit then (False, c, [])
      else (True, c\<lparr>hx_header := header, hx_out_packet := Some packet, hx_post_state := kHttpContextPostHttpHeader\<rparr>,
            [send_text header]))"

text \<open>The two ways to post a header only leave the state as it is.\<close>

definition PostChunkHeader :: "string \<Rightarrow> HttpPost \<Rightarrow> bool \<times> HttpPost \<times> http_event list" where
  "PostChunkHeader header c =
     (if hx_post_state c \<noteq> kHttpContextPostInit then (False, c, [])
      else (True, c\<lparr>hx_header := header, hx_post_state := kHttpContextPostInit, hx_header_sent := True\<rparr>, [send_text header]))"

definition PostStreamHeader :: "string \<Rightarrow> HttpPost \<Rightarrow> bool \<times> HttpPost \<times> http_event list" where
  "PostStreamHeader header c =
     (if hx_post_state c \<noteq> kHttpContextPostInit then (False, c, [])
      else (True, c\<lparr>hx_header := header, hx_post_state := kHttpContextPostInit, hx_header_sent := True\<rparr>, [send_text header]))"

definition PostRequest ::
    "(string \<times> string) list \<Rightarrow> (string \<times> string) list \<Rightarrow> HttpRequest \<Rightarrow> HttpPost \<Rightarrow> bool \<times> HttpPost \<times> http_event list" where
  "PostRequest hs ps r c =
     (case (if rq_is_chunked r then PostChunkHeader (MakeHeaders hs ps r) c
            else if rq_is_stream r then PostStreamHeader (MakeHeaders hs ps r) c
            else PostRequest_text (AppendToBuffer hs ps r) c) of (_, c, evs) \<Rightarrow> (True, c, evs))"

text \<open>\<open>%x\<close> prints the size in hexadecimal.\<close>

fun hex_text :: "nat \<Rightarrow> string" where
  "hex_text n = (if n < 16 then [''0123456789abcdef'' ! n] else hex_text (n div 16) @ [''0123456789abcdef'' ! (n mod 16)])"

declare hex_text.simps [simp del]

definition PostChunk :: "unit Packet \<Rightarrow> HttpPost \<Rightarrow> HttpPost \<times> http_event list" where
  "PostChunk chunk c =
     (let c = c\<lparr>hx_out_packet := Some chunk\<rparr> in
      if \<not> hx_header_sent c
      then (c\<lparr>hx_post_state := kHttpContextPostChunkHeader, hx_header_sent := True\<rparr>, [send_text (hx_header c)])
      else let h = hex_text (pk_size chunk) @ crlf
           in (c\<lparr>hx_post_state := kHttpContextPostChunkLen, hx_header := h\<rparr>, [send_text h]))"

definition PostEofChunk :: "HttpPost \<Rightarrow> HttpPost \<times> http_event list" where
  "PostEofChunk c = (c\<lparr>hx_post_state := kHttpContextPostChunkEOF\<rparr>, [send_text (''0'' @ crlfcrlf)])"

definition PostStreamChunk :: "unit Packet \<Rightarrow> HttpPost \<Rightarrow> (bool \<times> HttpPost \<times> http_event list) result" where
  "PostStreamChunk packet c =
     (if hx_post_state c = kHttpContextPostInit
      then let c = c\<lparr>hx_out_packet := Some packet\<rparr> in
           if \<not> hx_header_sent c
           then Inr (True, c\<lparr>hx_post_state := kHttpContextPostHttpStreamHeader, hx_header_sent := True\<rparr>,
                     [send_text (hx_header c)])
           else rbind (send_packet c) (\<lambda>e. Inr (True, c\<lparr>hx_post_state := kHttpContextPostHttpStreamChunk\<rparr>, [e]))
      else Inr (False, c, []))"

definition HttpContext_WriteComplete :: "HttpPost \<Rightarrow> (HttpPost \<times> http_event list) result" where
  "HttpContext_WriteComplete c =
     (case hx_post_state c of
        kHttpContextPostInit \<Rightarrow> Inr (c, [])
      | kHttpContextPostHttp \<Rightarrow> Inr (c\<lparr>hx_post_state := kHttpContextPostInit\<rparr>, [OnSentEv])
      | kHttpContextPostHttpHeader \<Rightarrow>
          rbind (send_packet c) (\<lambda>e. Inr (c\<lparr>hx_post_state := kHttpContextPostHttpBody\<rparr>, [e]))
      | kHttpContextPostHttpBody \<Rightarrow> Inr (c\<lparr>hx_post_state := kHttpContextPostInit\<rparr>, [OnSentEv])
      | kHttpContextPostChunkHeader \<Rightarrow> Inr (c\<lparr>hx_post_state := kHttpContextPostChunkLen\<rparr>, [OnSentNextChunkEv])
      | kHttpContextPostChunkLen \<Rightarrow>
          rbind (send_packet c) (\<lambda>e. Inr (c\<lparr>hx_post_state := kHttpContextPostChunkBody\<rparr>, [e]))
      | kHttpContextPostChunkBody \<Rightarrow> Inr (c\<lparr>hx_post_state := kHttpContextPostInit\<rparr>, [OnSentNextChunkEv])
      | kHttpContextPostChunkEOF \<Rightarrow> Inr (c\<lparr>hx_post_state := kHttpContextPostInit\<rparr>, [OnSentEv])
      | kHttpContextPostHttpStreamHeader \<Rightarrow> Inr (c\<lparr>hx_post_state := kHttpContextPostInit\<rparr>, [OnSentNextChunkEv])
      | kHttpContextPostHttpStreamChunk \<Rightarrow> Inr (c\<lparr>hx_post_state := kHttpContextPostInit\<rparr>, [OnSentNextChunkEv]))"

section \<open>What posting achieves\<close>

text \<open>
  What is still to follow what has been written, and how often the handler has still to be
  told: a body behind its header or its length. A chunk whose header is being written is told
  of twice, for the state behind it is the one of a chunk whose length is being written.
\<close>

definition to_send :: "HttpPost \<Rightarrow> bytes" where
  "to_send c =
     (if hx_post_state c \<in> {kHttpContextPostHttpHeader, kHttpContextPostChunkHeader, kHttpContextPostChunkLen}
      then case hx_out_packet c of Some p \<Rightarrow> payload p | None \<Rightarrow> [] else [])"

definition to_report :: "HttpPost \<Rightarrow> nat" where
  "to_report c =
     (if hx_post_state c = kHttpContextPostInit then 0 else if hx_post_state c = kHttpContextPostChunkHeader then 2 else 1)"

text \<open>
  A context that is posted to in every way it has and whose writes complete, in any order: its
  state, the events so far, the bytes it has to deliver and the number of reports it owes for
  them. A post that asks for the initial state adds its bytes when it is accepted; what a stream
  chunk adds before a header was sent is not the chunk, but the header field. A chunk and the
  end of the chunks are taken in any state: what was still to follow is dropped, with its
  report. \<open>PostRequest\<close> is one of the text and header steps.
\<close>

definition accepted :: "bool \<Rightarrow> bytes \<Rightarrow> bytes" where
  "accepted ok d = (if ok then d else [])"

definition dropped :: "HttpPost \<Rightarrow> bytes \<Rightarrow> bytes" where
  "dropped c acc = take (length acc - length (to_send c)) acc"

definition chunk_text :: "HttpPost \<Rightarrow> unit Packet \<Rightarrow> bytes" where
  "chunk_text c p =
     bytes_of_string (if hx_header_sent c then hex_text (pk_size p) @ crlf else hx_header c) @ payload p"

inductive posting :: "HttpPost \<Rightarrow> http_event list \<Rightarrow> bytes \<Rightarrow> nat \<Rightarrow> bool" where
  posting_new: "posting HttpPost_new [] [] 0"
| posting_text: "posting c evs acc n \<Longrightarrow> PostRequest_text h c = (ok, c', es) \<Longrightarrow>
    posting c' (evs @ es) (acc @ accepted ok (bytes_of_string h)) (n + of_bool ok)"
| posting_packet: "posting c evs acc n \<Longrightarrow> packet_inv p \<Longrightarrow> PostRequest_packet h p c = (ok, c', es) \<Longrightarrow>
    posting c' (evs @ es) (acc @ accepted ok (bytes_of_string h @ payload p)) (n + of_bool ok)"
| posting_header: "posting c evs acc n \<Longrightarrow> PostStreamHeader h c = (ok, c', es) \<Longrightarrow>
    posting c' (evs @ es) (acc @ accepted ok (bytes_of_string h)) n"
| posting_chunk_header: "posting c evs acc n \<Longrightarrow> PostChunkHeader h c = (ok, c', es) \<Longrightarrow>
    posting c' (evs @ es) (acc @ accepted ok (bytes_of_string h)) n"
| posting_stream_chunk: "posting c evs acc n \<Longrightarrow> packet_inv p \<Longrightarrow> PostStreamChunk p c = Inr (ok, c', es) \<Longrightarrow>
    posting c' (evs @ es)
      (acc @ accepted ok (if hx_header_sent c then payload p else bytes_of_string (hx_header c))) (n + of_bool ok)"
| posting_chunk: "posting c evs acc n \<Longrightarrow> packet_inv p \<Longrightarrow> PostChunk p c = (c', es) \<Longrightarrow>
    posting c' (evs @ es) (dropped c acc @ chunk_text c p) (n - to_report c + (if hx_header_sent c then 1 else 2))"
| posting_eof: "posting c evs acc n \<Longrightarrow> PostEofChunk c = (c', es) \<Longrightarrow>
    posting c' (evs @ es) (dropped c acc @ bytes_of_string (''0'' @ crlfcrlf)) (n - to_report c + 1)"
| posting_complete: "posting c evs acc n \<Longrightarrow> HttpContext_WriteComplete c = Inr (c', es) \<Longrightarrow>
    posting c' (evs @ es) acc n"

fun event_bytes :: "http_event \<Rightarrow> bytes" where
  "event_bytes (SendEv d) = d"
| "event_bytes _ = []"

abbreviation sent_bytes :: "http_event list \<Rightarrow> bytes" where "sent_bytes evs \<equiv> concat (map event_bytes evs)"

abbreviation reports :: "http_event list \<Rightarrow> nat" where
  "reports evs \<equiv> length (filter (\<lambda>e. e = OnSentEv \<or> e = OnSentNextChunkEv) evs)"

definition has_packet :: "HttpPost \<Rightarrow> bool" where
  "has_packet c \<longleftrightarrow> (\<exists>p. hx_out_packet c = Some p \<and> packet_inv p)"

definition posting_inv :: "HttpPost \<Rightarrow> http_event list \<Rightarrow> bytes \<Rightarrow> nat \<Rightarrow> bool" where
  "posting_inv c evs acc n \<longleftrightarrow>
     sent_bytes evs @ to_send c = acc \<and> reports evs + to_report c = n \<and>
     (hx_post_state c \<in> {kHttpContextPostHttpHeader, kHttpContextPostChunkHeader, kHttpContextPostChunkLen} \<longrightarrow> has_packet c)"

lemma send_packet_ok: "hx_out_packet c = Some p \<Longrightarrow> packet_inv p \<Longrightarrow> send_packet c = Inr (SendEv (payload p))"
  by (simp add: send_packet_def packet_inv_def payload_def)

lemma posting_inv_dropped: "posting_inv c evs acc n \<Longrightarrow> dropped c acc = sent_bytes evs \<and> n - to_report c = reports evs"
  by (auto simp: posting_inv_def dropped_def)

lemmas posting_simps = posting_inv_def to_send_def to_report_def accepted_def has_packet_def

lemma posting_keeps: "posting c evs acc n \<Longrightarrow> posting_inv c evs acc n"
proof (induction rule: posting.induct)
  case posting_new
  then show ?case by (simp add: posting_simps HttpPost_new_def)
next
  case (posting_text c evs acc n h ok c' es)
  then show ?case by (auto simp: posting_simps PostRequest_text_def split: if_splits)
next
  case (posting_packet c evs acc n p h ok c' es)
  then show ?case by (auto simp: posting_simps PostRequest_packet_def split: if_splits)
next
  case (posting_header c evs acc n h ok c' es)
  then show ?case by (auto simp: posting_simps PostStreamHeader_def split: if_splits)
next
  case (posting_chunk_header c evs acc n h ok c' es)
  then show ?case by (auto simp: posting_simps PostChunkHeader_def split: if_splits)
next
  case (posting_stream_chunk c evs acc n p ok c' es)
  have "send_packet (c\<lparr>hx_out_packet := Some p\<rparr>) = Inr (SendEv (payload p))"
    using posting_stream_chunk.hyps(2) by (intro send_packet_ok) simp_all
  with posting_stream_chunk show ?case
    by (auto simp: posting_simps PostStreamChunk_def Let_def split: if_splits)
next
  case (posting_chunk c evs acc n p c' es)
  from posting_inv_dropped [OF posting_chunk.IH] posting_chunk.hyps(2,3) show ?case
    by (auto simp: posting_simps PostChunk_def chunk_text_def Let_def split: if_splits)
next
  case (posting_eof c evs acc n c' es)
  from posting_inv_dropped [OF posting_eof.IH] posting_eof.hyps(2) show ?case
    by (auto simp: posting_simps PostEofChunk_def)
next
  case (posting_complete c evs acc n c' es)
  have "send_packet c = Inr (SendEv (payload p))" if "hx_out_packet c = Some p" "packet_inv p" for p
    using that by (rule send_packet_ok)
  with posting_complete show ?case
    by (cases "hx_post_state c") (auto simp: posting_simps HttpContext_WriteComplete_def)
qed

lemma posting_complete_ok:
  assumes "posting c evs acc n"
  shows "\<exists>c' es. HttpContext_WriteComplete c = Inr (c', es)"
  using posting_keeps [OF assms] send_packet_ok [of c]
  by (cases "hx_post_state c") (auto simp: posting_inv_def has_packet_def HttpContext_WriteComplete_def)

text \<open>A stream chunk does not fault either, whenever it is posted.\<close>

lemma PostStreamChunk_ok: "packet_inv p \<Longrightarrow> \<exists>r. PostStreamChunk p c = Inr r"
  using send_packet_ok [of "c\<lparr>hx_out_packet := Some p\<rparr>" p] unfolding PostStreamChunk_def Let_def by simp blast

end
