(* ===== verification/Flv.thy ===== *)
theory Flv
  imports Interfaces RtmpSend HttpUtils
begin

text \<open>
  \<open>mmedia/flv/FlvContext.cc\<close>: FLV over HTTP. The headers the context writes go to
  \<open>out_buffer_\<close>, an array of 512 bytes that \<open>WriteComplete\<close> starts over; a write beyond it is the
  fault \<open>OutOfBounds\<close>. A buffer node is the list of its bytes, for nothing changes them before
  they are sent. What \<open>Send\<close> hands to the connection is its result.
\<close>

definition flv_out_size :: nat where "flv_out_size = 512"

record 'e FlvContext =
  fl_bufs :: "bytes list"
  fl_out_packets :: "'e Packet list"
  fl_previous_size :: u32
  fl_http_header :: string
  fl_current :: nat
  fl_sending :: bool

definition FlvContext_new :: "'e FlvContext" where
  "FlvContext_new = \<lparr>fl_bufs = [], fl_out_packets = [], fl_previous_size = 0, fl_http_header = [],
                     fl_current = 0, fl_sending = False\<rparr>"

definition flv_audio_only_header :: bytes where "flv_audio_only_header = [0x46, 0x4c, 0x56, 1, 4, 0, 0, 0, 9]"
definition flv_video_only_header :: bytes where "flv_video_only_header = [0x46, 0x4c, 0x56, 1, 1, 0, 0, 0, 9]"
definition flv_header :: bytes where "flv_header = [0x46, 0x4c, 0x56, 1, 5, 0, 0, 0, 9]"

text \<open>Bytes written at \<open>current_\<close> and queued as a node.\<close>

definition flv_put :: "bytes \<Rightarrow> 'e FlvContext \<Rightarrow> 'e FlvContext result" where
  "flv_put d c =
     (if fl_current c + length d \<le> flv_out_size
      then Inr (c\<lparr>fl_current := fl_current c + length d, fl_bufs := fl_bufs c @ [d]\<rparr>)
      else Inl OutOfBounds)"

definition GetRtmpPacketType :: "'e Packet \<Rightarrow> u8" where
  "GetRtmpPacketType p =
     (if IsAudio p then kRtmpMsgTypeAudio else if IsVideo p then kRtmpMsgTypeVideo
      else if IsMeta p then kRtmpMsgTypeAMFMeta else 0)"

definition FlvContext_Ready :: "'e FlvContext \<Rightarrow> bool" where
  "FlvContext_Ready c \<longleftrightarrow> \<not> fl_sending c"

definition FlvContext_Send :: "'e FlvContext \<Rightarrow> 'e FlvContext \<times> bytes list" where
  "FlvContext_Send c = (if fl_sending c then (c, []) else (c\<lparr>fl_sending := True\<rparr>, fl_bufs c))"

text \<open>\<open>OnActive\<close> follows; see \<open>FlvPlayer\<close>.\<close>

definition FlvContext_WriteComplete :: "'e FlvContext \<Rightarrow> 'e FlvContext" where
  "FlvContext_WriteComplete c = c\<lparr>fl_sending := False, fl_current := 0, fl_bufs := [], fl_out_packets := []\<rparr>"

definition flv_file_header :: "bool \<Rightarrow> bool \<Rightarrow> bytes" where
  "flv_file_header has_video has_audio =
     (if \<not> has_audio then flv_video_only_header else if \<not> has_video then flv_audio_only_header else flv_header)"

definition WriteFlvHeader :: "bool \<Rightarrow> bool \<Rightarrow> 'e FlvContext \<Rightarrow> 'e FlvContext result" where
  "WriteFlvHeader has_video has_audio c = flv_put (flv_file_header has_video has_audio) c"

definition flv_http_header :: string where
  "flv_http_header =
     ''HTTP/1.1 200 OK'' @ crlf @ ''Access-Control-Allow-Origin: *'' @ crlf @
     ''Content-Type: video/x-flv'' @ crlf @ ''Connection: keep-alive'' @ crlf @ crlf"

definition SendFlvHttpHeader :: "bool \<Rightarrow> bool \<Rightarrow> 'e FlvContext \<Rightarrow> ('e FlvContext \<times> bytes list) result" where
  "SendFlvHttpHeader has_video has_audio c =
     rbind (WriteFlvHeader has_video has_audio
              (c\<lparr>fl_http_header := flv_http_header, fl_bufs := fl_bufs c @ [bytes_of_string flv_http_header]\<rparr>))
       (\<lambda>c. Inr (FlvContext_Send c))"

text \<open>
  The four bytes of the previous tag's size, then the tag header. The \<open>p[3]\<close>, \<open>p[2]\<close>, \<dots> of a
  number on the little-endian hosts are its bytes from the most significant on.
\<close>

definition flv_tag_header :: "u32 \<Rightarrow> u8 \<Rightarrow> u32 \<Rightarrow> u32 \<Rightarrow> bytes" where
  "flv_tag_header prev type mlen timestamp =
     WriteUint32T prev @ [type] @ WriteUint24T mlen @ WriteUint24T timestamp @ [0] @ [0, 0, 0]"

definition BuildFlvFrame :: "'e Packet \<Rightarrow> u32 \<Rightarrow> 'e FlvContext \<Rightarrow> 'e FlvContext result" where
  "BuildFlvFrame p timestamp c =
     (let mlen = of_nat (pk_size p) in
      rbind (flv_put (flv_tag_header (fl_previous_size c) (GetRtmpPacketType p) mlen timestamp)
               (c\<lparr>fl_out_packets := fl_out_packets c @ [p]\<rparr>)) (\<lambda>c.
      rbind (slice_checked (pk_data p) 0 (pk_size p)) (\<lambda>d.
        Inr (c\<lparr>fl_previous_size := mlen + 11, fl_bufs := fl_bufs c @ [d]\<rparr>))))"

section \<open>The format\<close>

text \<open>
  A tag of an FLV file with the size field in front of it, written and read as the format
  defines it: the time has 24 bits and, behind them, its upper 8.
\<close>

record flv_tag =
  tag_prev :: u32
  tag_type :: u8
  tag_time :: u32
  tag_data :: bytes

definition flv_encode :: "flv_tag \<Rightarrow> bytes" where
  "flv_encode t = WriteUint32T (tag_prev t) @ [tag_type t] @ WriteUint24T (of_nat (length (tag_data t))) @
     WriteUint24T (tag_time t) @ [ucast (drop_bit 24 (tag_time t))] @ [0, 0, 0] @ tag_data t"

definition flv_decode :: "bytes \<Rightarrow> (flv_tag \<times> bytes) option" where
  "flv_decode d =
     (case (ReadUint32T d, ReadUint8T (drop 4 d), ReadUint24T (drop 5 d), ReadUint24T (drop 8 d), ReadUint8T (drop 11 d)) of
        (Inr prev, Inr type, Inr len, Inr time, Inr ext) \<Rightarrow>
          if length d < 15 + unat len then None
          else Some (\<lparr>tag_prev = prev, tag_type = type, tag_time = time OR push_bit 24 (ucast ext),
                      tag_data = take (unat len) (drop 15 d)\<rparr>, drop (15 + unat len) d)
      | _ \<Rightarrow> None)"

definition flv_tag_ok :: "flv_tag \<Rightarrow> bool" where
  "flv_tag_ok t \<longleftrightarrow> length (tag_data t) < 2 ^ 24"

lemma time_split: "take_bit 24 v OR push_bit 24 (ucast (ucast (drop_bit 24 v) :: u8)) = (v :: u32)"
proof (rule bit_word_eqI)
  fix n assume "n < LENGTH(32)"
  then show "bit (take_bit 24 v OR push_bit 24 (ucast (ucast (drop_bit 24 v) :: u8))) n = bit v n"
    by (cases "n < 24") (auto simp: bit_simps)
qed

lemma unat_len24: "n < 2 ^ 24 \<Longrightarrow> unat (take_bit 24 (of_nat n :: u32)) = n"
  by (simp add: unsigned_take_bit_eq unat_of_nat take_bit_nat_eq_self)

lemma drop_Write:
  "drop 4 (WriteUint32T v @ r) = r" "drop 3 (WriteUint24T v @ r) = r"
  by (simp_all add: drop_append)

lemma flv_decode_encode:
  assumes "flv_tag_ok t"
  shows "flv_decode (flv_encode t @ rest) = Some (t, rest)"
proof -
  let ?n = "length (tag_data t)" and ?d = "flv_encode t @ rest"
  have n: "unat (take_bit 24 (of_nat ?n :: u32)) = ?n"
    using assms by (intro unat_len24) (simp add: flv_tag_ok_def)
  have d4: "drop 4 ?d = tag_type t # WriteUint24T (of_nat ?n) @ WriteUint24T (tag_time t) @
      ucast (drop_bit 24 (tag_time t)) # 0 # 0 # 0 # tag_data t @ rest"
    by (simp add: flv_encode_def)
  have d: "drop 5 ?d = drop 1 (drop 4 ?d)" "drop 8 ?d = drop 3 (drop 1 (drop 4 ?d))"
    "drop 11 ?d = drop 3 (drop 3 (drop 1 (drop 4 ?d)))" "drop 15 ?d = drop 4 (drop 3 (drop 3 (drop 1 (drop 4 ?d))))"
    by (simp_all only: drop_drop) simp_all
  have r: "ReadUint32T ?d = Inr (tag_prev t)" by (simp add: flv_encode_def)
  have l: "length ?d = 15 + ?n + length rest" by (simp add: flv_encode_def)
  have "drop (15 + ?n) ?d = drop ?n (drop 15 ?d)" by (simp only: drop_drop add.commute)
  then have e: "drop (15 + ?n) ?d = rest" "take ?n (drop 15 ?d) = tag_data t"
    unfolding d d4 by simp_all
  show ?thesis
    unfolding flv_decode_def r
    by (simp only: d(1-3) d4 drop_Suc_Cons drop0 One_nat_def drop_Write Read_Write24 ReadUint8T.simps
        prod.case sum.case n l e) (simp add: time_split)
qed

interpretation flv_format: wire_format flv_encode flv_decode flv_tag_ok
  by unfold_locales (rule flv_decode_encode)

section \<open>What is built decodes\<close>

text \<open>The tag that \<open>BuildFlvFrame\<close> writes: the upper byte of the time is always 0.\<close>

definition built_tag :: "u32 \<Rightarrow> 'e Packet \<Rightarrow> u32 \<Rightarrow> flv_tag" where
  "built_tag prev p timestamp =
     \<lparr>tag_prev = prev, tag_type = GetRtmpPacketType p, tag_time = take_bit 24 timestamp, tag_data = payload p\<rparr>"

lemma Write24_take: "WriteUint24T (take_bit 24 v) = WriteUint24T v"
proof -
  have "ucast (drop_bit 16 (take_bit 24 v)) = (ucast (drop_bit 16 v) :: u8)"
    "ucast (drop_bit 8 (take_bit 24 v)) = (ucast (drop_bit 8 v) :: u8)" "ucast (take_bit 24 v) = (ucast v :: u8)"
    by (rule bit_word_eqI; auto simp: bit_simps)+
  then show ?thesis by (simp add: WriteUint24T_def WriteUint32T_def)
qed

lemma built_tag_bytes:
  assumes "packet_inv p"
  shows "flv_tag_header prev (GetRtmpPacketType p) (of_nat (pk_size p)) timestamp @ payload p =
           flv_encode (built_tag prev p timestamp)"
proof -
  have "drop_bit 24 (take_bit 24 timestamp) = 0"
    by (rule bit_word_eqI) (auto simp: bit_simps)
  moreover have "length (payload p) = pk_size p" using assms by (simp add: payload_def packet_inv_def)
  ultimately show ?thesis
    by (simp add: flv_tag_header_def flv_encode_def built_tag_def Write24_take)
qed

lemma BuildFlvFrame_ok:
  assumes "packet_inv p" and "fl_current c + 15 \<le> flv_out_size"
  shows "\<exists>c'. BuildFlvFrame p timestamp c = Inr c' \<and>
           concat (fl_bufs c') = concat (fl_bufs c) @ flv_encode (built_tag (fl_previous_size c) p timestamp) \<and>
           fl_current c' = fl_current c + 15 \<and> fl_sending c' = fl_sending c \<and>
           fl_previous_size c' = of_nat (pk_size p) + 11"
proof -
  have "length (flv_tag_header prev ty m timestamp) = 15" for prev ty m by (simp add: flv_tag_header_def)
  moreover have "pk_size p \<le> length (pk_data p)" using assms(1) by (simp add: packet_inv_def)
  ultimately show ?thesis
    using assms(2) built_tag_bytes [OF assms(1), of "fl_previous_size c" timestamp]
    by (simp add: BuildFlvFrame_def flv_put_def Let_def payload_def)
qed

lemma BuildFlvFrame_out_of_bounds:
  assumes "flv_out_size < fl_current c + 15"
  shows "BuildFlvFrame p timestamp c = Inl OutOfBounds"
  using assms by (simp add: BuildFlvFrame_def flv_put_def flv_tag_header_def Let_def)

text \<open>A sequence of tags in which each gives the size of the one before it, \<open>v\<close> for the first.\<close>

fun tags_from :: "u32 \<Rightarrow> flv_tag list \<Rightarrow> bool" where
  "tags_from v [] = True"
| "tags_from v (t # ts) \<longleftrightarrow> tag_prev t = v \<and> tags_from (of_nat (length (tag_data t)) + 11) ts"

definition size_after :: "u32 \<Rightarrow> flv_tag list \<Rightarrow> u32" where
  "size_after v ts = (if ts = [] then v else of_nat (length (tag_data (last ts))) + 11)"

lemma size_after_simps [simp]:
  "size_after v [] = v" "size_after v (ts @ [t]) = of_nat (length (tag_data t)) + 11"
  "size_after v (t # ts) = size_after (of_nat (length (tag_data t)) + 11) ts"
  by (simp_all add: size_after_def)

lemma tags_from_append [simp]:
  "tags_from v (ts @ us) \<longleftrightarrow> tags_from v ts \<and> tags_from (size_after v ts) us"
  by (induction ts arbitrary: v) simp_all

text \<open>A tag that carries a packet, and can be decoded.\<close>

definition tag_carries :: "flv_tag \<Rightarrow> 'e Packet \<Rightarrow> bool" where
  "tag_carries t p \<longleftrightarrow> flv_tag_ok t \<and> tag_type t = GetRtmpPacketType p \<and> tag_data t = payload p"

definition flv_fits :: "'e Packet \<Rightarrow> bool" where
  "flv_fits p \<longleftrightarrow> packet_inv p \<and> pk_size p < 2 ^ 24"

lemma built_tag_carries: "flv_fits p \<Longrightarrow> tag_carries (built_tag prev p ts) p"
  by (simp add: tag_carries_def built_tag_def flv_fits_def flv_tag_ok_def payload_def packet_inv_def)

lemma carried_tags_decode:
  assumes "list_all2 tag_carries tags ps"
  shows "decode_items flv_decode (length tags) (concat (map flv_encode tags) @ rest) = Some tags"
  using assms by (intro flv_format.decode_items_enc) (auto simp: list_all2_conv_all_nth in_set_conv_nth tag_carries_def)

text \<open>The whole response: the HTTP header, the file header and the tags.\<close>

definition flv_response :: "bool \<Rightarrow> bool \<Rightarrow> flv_tag list \<Rightarrow> bytes" where
  "flv_response has_video has_audio tags =
     bytes_of_string flv_http_header @ flv_file_header has_video has_audio @ concat (map flv_encode tags)"

lemma SendFlvHttpHeader_ok:
  assumes "fl_current c = 0" and "fl_bufs c = []" and "\<not> fl_sending c"
  shows "\<exists>c' bs. SendFlvHttpHeader has_video has_audio c = Inr (c', bs) \<and> concat bs = flv_response has_video has_audio [] \<and>
           fl_sending c' \<and> fl_previous_size c' = fl_previous_size c"
  using assms
  by (simp add: SendFlvHttpHeader_def WriteFlvHeader_def flv_put_def flv_out_size_def FlvContext_Send_def
      flv_response_def flv_file_header_def flv_header_def flv_audio_only_header_def flv_video_only_header_def)

end
