(* ===== verification/LiveRequest.thy ===== *)
theory LiveRequest
  imports LiveService Hls HttpContext Flv
begin

text \<open>
  \<open>LiveService::OnRequest\<close>: a request that came over HTTP for a live stream, its playlist or one
  of its segments. \<open>ord\<close> is the order in which a map of headers is iterated, \<open>mux\<close> gives the muxer that
  the stream of a session has (\<open>HLSMuxer\<close> of \<open>Hls\<close>; in \<open>Stream\<close> it stands as the packets it was
  given). \<open>hx\<close> is the posting state of the HTTP context of the connection, which is
  there, as \<open>HttpServer\<close> puts it before it calls this.
\<close>

text \<open>A packet as the connection gets it, which does not look at its extension.\<close>

definition plain_packet :: "'e Packet \<Rightarrow> unit Packet" where
  "plain_packet p = \<lparr>pk_type = pk_type p, pk_size = pk_size p, pk_index = pk_index p, pk_timestamp = pk_timestamp p,
     pk_capacity = pk_capacity p, pk_ext = map_option (\<lambda>_. ()) (pk_ext p), pk_data = pk_data p\<rparr>"

section \<open>What a path asks for\<close>

text \<open>
  \<open>/domain/app/stream.flv\<close> or \<open>/domain/app/stream/filename.flv\<close>: the session's name and the file.
\<close>

definition request_target :: "string \<Rightarrow> (string \<times> string) option" where
  "request_target path =
     (let list = SplitString path ''/''
      in if length list < 4 then None
         else let filename = (if length list > 4 then list ! 4 else list ! 3);
                  stream_name = (if length list > 4 then list ! 3 else FileName (list ! 3))
              in Some (list ! 1 @ ''/'' @ list ! 2 @ ''/'' @ stream_name, filename))"

section \<open>Answers\<close>

type_synonym header_order = "(string \<rightharpoonup> string) \<Rightarrow> (string \<times> string) list"

definition post_response :: "header_order \<Rightarrow> HttpRequest \<Rightarrow> HttpPost \<Rightarrow> HttpPost \<times> http_event list" where
  "post_response ord r hx = snd (PostRequest (ord (rq_headers r)) (ord (rq_parameters r)) r hx)"

definition file_response :: "int \<Rightarrow> string \<Rightarrow> HttpRequest" where
  "file_response n type =
     SetStatusCode 200 (AddHeader ''content-type'' type (AddHeader ''content-length'' (signed_text n)
       (AddHeader ''server'' ''tmms'' (HttpRequest_new False))))"

definition request_playlist :: "header_order \<Rightarrow> 'e HLSMuxer \<Rightarrow> HttpPost \<Rightarrow> HttpPost \<times> http_event list" where
  "request_playlist ord m hx =
     (let playlist = PlayList m
      in if playlist \<noteq> []
         then post_response ord (SetBody playlist (file_response (int (length playlist)) ''application/vnd.apple.mpegurl'')) hx
         else post_response ord NewHttp404Response hx)"

definition request_segment :: "header_order \<Rightarrow> string \<Rightarrow> 'e HLSMuxer \<Rightarrow> HttpPost \<Rightarrow> (HttpPost \<times> http_event list) result" where
  "request_segment ord filename m hx =
     (case GetFragment filename m of
        None \<Rightarrow> Inr (hx, [])
      | Some frag \<Rightarrow>
          rbind (Fragment_Size frag) (\<lambda>n.
            case fr_data frag of
              None \<Rightarrow> Inl NullDeref
            | Some p \<Rightarrow>
                let r = file_response (int n) ''video/MP2T''
                in Inr (snd (PostRequest_packet (MakeHeaders (ord (rq_headers r)) (ord (rq_parameters r)) r) (plain_packet p) hx))))"

text \<open>A player of the session that is sent FLV; the connection gets a context for it.\<close>

definition request_flv ::
    "int \<Rightarrow> nat \<Rightarrow> string \<Rightarrow> nat \<Rightarrow> string \<Rightarrow> 'e Live \<Rightarrow> ('e FlvContext option \<times> 'e Live \<times> live_act list) result" where
  "request_flv now conn peer sid name L =
     (case CreatePlayerUser conn peer name [] kUserTypePlayerFlv now (lv_objs L sid) of
        None \<Rightarrow> Inr (None, L, [])
      | Some u \<Rightarrow> case new_user conn sid u L of (i, L) \<Rightarrow>
          rbind (AddPlayer now sid i L) (\<lambda>(L, as). Inr (Some FlvContext_new, L, as)))"

section \<open>The handler\<close>

record 'e http_answer =
  ha_live :: "'e Live"
  ha_post :: HttpPost
  ha_flv :: "'e FlvContext option"
  ha_acts :: "live_act list"
  ha_events :: "http_event list"

definition answer :: "'e Live \<Rightarrow> HttpPost \<times> http_event list \<Rightarrow> 'e http_answer" where
  "answer L = (\<lambda>(hx, es). \<lparr>ha_live = L, ha_post = hx, ha_flv = None, ha_acts = [], ha_events = es\<rparr>)"

lemma answer_fields [simp]:
  "ha_live (answer L r) = L" "ha_acts (answer L r) = []" "ha_flv (answer L r) = None"
  "ha_post (answer L r) = fst r" "ha_events (answer L r) = snd r"
  by (simp_all add: answer_def split: prod.split)

definition OnRequest ::
    "header_order \<Rightarrow> (nat \<Rightarrow> 'e HLSMuxer) \<Rightarrow> int \<Rightarrow> nat \<Rightarrow> string \<Rightarrow> HttpRequest \<Rightarrow> HttpPost \<Rightarrow> 'e Live \<Rightarrow> 'e http_answer result" where
  "OnRequest ord mux now conn peer req hx L =
     (if \<not> rq_is_request req then Inr (answer L (hx, []))
      else case request_target (rq_path req) of
             None \<Rightarrow> Inr (answer L (post_response ord NewHttp400Response hx))
           | Some (name, filename) \<Rightarrow>
               case CreateSession now name L of
                 (None, L) \<Rightarrow> Inr (answer L (post_response ord NewHttp404Response hx))
               | (Some sid, L) \<Rightarrow>
                   let ext = Extension filename
                   in if ext = ''flv'' then
                        rbind (request_flv now conn peer sid name L) (\<lambda>(flv, L, as).
                          case flv of
                            None \<Rightarrow> Inr (answer L (post_response ord NewHttp404Response hx))
                          | Some _ \<Rightarrow> Inr ((answer L (hx, []))\<lparr>ha_flv := flv, ha_acts := as\<rparr>))
                      else if ext = ''m3u8'' then Inr (answer L (request_playlist ord (mux sid) hx))
                      else if ext = ''ts'' then rbind (request_segment ord filename (mux sid) hx) (\<lambda>r. Inr (answer L r))
                      else Inr (answer L (hx, [])))"

end
