(* ===== verification/LiveRun.thy ===== *)
theory LiveRun
  imports LiveInv LiveRequest
begin

text \<open>
  The service as a step relation over everything that calls it, and the composition of the
  service with its streams and players: what a player is handed during a run.
\<close>

section \<open>The service at work\<close>

text \<open>
  What the servers, the pullers and the timer call, one operation at a time. A player is
  activated with the state its protocol context is in; what it hands over is part of the
  result, with the number of its user.
\<close>

datatype ('e, 'c) service_op =
    PlayOp nat string string string
  | PublishOp nat string string string
  | RecvOp nat "'e Packet"
  | ActiveOp nat 'c
  | DestroyOp nat
  | TimerOp
  | PulledPlayOp nat nat string string
  | PulledRecvOp nat nat "'e Packet"
  | PulledCloseOp nat
  | RequestOp header_order "nat \<Rightarrow> 'e HLSMuxer" nat string HttpRequest HttpPost

definition post_user ::
    "('e, 'c) push_frame \<Rightarrow> ('e, 'c) push_frames \<Rightarrow> int \<Rightarrow> 'e Stream \<Rightarrow> 'e PlayerUser \<Rightarrow> 'c \<times> 'e posted list \<Rightarrow>
     ('e PlayerUser \<times> ('c \<times> 'e posted list) \<times> conn_call list) result" where
  "post_user push pushs now s u c =
     rbind (PostFrames push pushs now s u (fst c)) (\<lambda>(r, u, c', qs, cs). Inr (u, (c', snd c @ qs), cs))"

fun service_step ::
    "('e, 'c) push_frame \<Rightarrow> ('e, 'c) push_frames \<Rightarrow> int \<Rightarrow> ('e, 'c) service_op \<Rightarrow> 'e Live \<Rightarrow>
     ('e Live \<times> live_act list \<times> 'e posted list) result" where
  "service_step push pushs now (PlayOp conn peer name param) L =
     rbind (OnPlay now conn peer name param L) (\<lambda>(_, L, as). Inr (L, as, []))"
| "service_step push pushs now (PublishOp conn peer name param) L =
     (case OnPublish now conn peer name param L of (_, L, as) \<Rightarrow> Inr (L, as, []))"
| "service_step push pushs now (RecvOp conn p) L = rbind (OnRecv now conn p L) (\<lambda>(L, as). Inr (L, as, []))"
| "service_step push pushs now (ActiveOp conn c) L =
     rbind (OnActive (post_user push pushs now) conn (c, []) L) (\<lambda>(L, c, as). Inr (L, as, snd c))"
| "service_step push pushs now (DestroyOp conn) L = (case OnConnectionDestroy now conn L of (L, as) \<Rightarrow> Inr (L, as, []))"
| "service_step push pushs now TimerOp L = (case OnTimer now L of (L, as) \<Rightarrow> Inr (L, as, []))"
| "service_step push pushs now (PulledPlayOp sid conn peer name) L =
     rbind (Puller_OnPlay now sid conn peer name L) (\<lambda>(_, L, as). Inr (L, as, []))"
| "service_step push pushs now (PulledRecvOp sid conn p) L =
     rbind (Puller_OnRecv now sid conn p L) (\<lambda>(L, as). Inr (L, as, []))"
| "service_step push pushs now (PulledCloseOp sid) L =
     rbind (Puller_OnClose now sid L) (\<lambda>(L, as). Inr (L, as, []))"
| "service_step push pushs now (RequestOp ord mux conn peer req hx) L =
     rbind (OnRequest ord mux now conn peer req hx L) (\<lambda>a. Inr (ha_live a, ha_acts a, []))"

text \<open>A puller belongs to a session, and its connection serves nothing else.\<close>

fun service_op_ok :: "('e, 'c) service_op \<Rightarrow> 'e Live \<Rightarrow> bool" where
  "service_op_ok (PulledPlayOp sid conn peer name) L \<longleftrightarrow>
     sid < lv_next_session L \<and>
     (case lv_ctx L conn of None \<Rightarrow> True
      | Some i \<Rightarrow> lv_owner L i = sid \<and> \<not> is_player (lv_users L i) \<and> \<not> is_publish_type (user_type (lv_users L i)))"
| "service_op_ok (PulledRecvOp sid conn p) L \<longleftrightarrow> sid < lv_next_session L"
| "service_op_ok (PulledCloseOp sid) L \<longleftrightarrow> sid < lv_next_session L"
| "service_op_ok _ L \<longleftrightarrow> True"

lemma OnActive_keeps:
  assumes "service_inv L" and "OnActive (post_user push pushs now) conn c L = Inr (L', c', as)"
  shows "service_inv L'"
proof (cases "L' = L")
  case False
  then obtain i u u' where i: "lv_ctx L conn = Some i" "lv_users L i = PlayingUser u"
    "User.truncate u' = User.truncate u" "L' = L\<lparr>lv_users := (lv_users L)(i := PlayingUser u')\<rparr>"
    using assms(2) by (auto simp: OnActive_def post_user_def result_simps split: option.splits if_splits user_obj.splits
        dest!: PostFrames_base)
  have base: "user_base (((lv_users L)(i := PlayingUser u')) j) = user_base (lv_users L j)"
    "is_player (((lv_users L)(i := PlayingUser u')) j) = is_player (lv_users L j)" for j
    using i by auto
  show ?thesis
    using assms(1) unfolding i(4) service_inv_def users_ok_def registry_ok_def session_ok_def live_player_def
    by (simp add: base del: fun_upd_apply)
qed (use assms in simp)

lemma Puller_OnPlay_keeps:
  assumes "service_inv L" and "service_op_ok (PulledPlayOp sid conn peer name) L"
    and "Puller_OnPlay now sid conn peer name L = Inr (ok, L', as)"
  shows "service_inv L'"
proof (cases "lv_ctx L conn")
  case None
  have sid: "sid < lv_next_session L" using assms(2) by simp
  show ?thesis
  proof (cases "CreatePublishUser conn peer name [] kUserTypePlayerRtmp now (lv_objs L sid)")
    case nouser: None
    then show ?thesis using assms(1,3) None on_relay_keeps by (auto simp: Puller_OnPlay_def result_simps)
  next
    case (Some u)
    with None assms(3) publish_new_keeps [OF assms(1) sid Some] show ?thesis
      by (auto simp: Puller_OnPlay_def new_user_def Let_def split: prod.splits)
  qed
next
  case (Some i)
  then have "service_inv (fst (on_session (SetPublisher i) sid L))"
    using assms(2) service_inv_ctx [OF assms(1) Some] by (intro SetPublisher_keeps [OF assms(1)]) auto
  with Some assms(3) show ?thesis by (auto simp: Puller_OnPlay_def split: prod.splits)
qed

text \<open>Of a request only the one for FLV does more to the service than make sure there is a session.\<close>

lemma OnRequest_cases:
  assumes "OnRequest ord mux now conn peer req hx L = Inr a"
  obtains (none) "ha_live a = L" "ha_acts a = []"
  | (session) name r where "CreateSession now name L = (r, ha_live a)" "ha_acts a = []"
  | (flv) name sid L1 u where "CreateSession now name L = (Some sid, L1)"
      "CreatePlayerUser conn peer name [] kUserTypePlayerFlv now (lv_objs L1 sid) = Some u"
      "AddPlayer now sid (lv_next_user L1) (snd (new_user conn sid u L1)) = Inr (ha_live a, ha_acts a)"
proof (cases "rq_is_request req \<and> request_target (rq_path req) \<noteq> None")
  case False
  then show ?thesis using assms none by (cases "request_target (rq_path req)") (auto simp: OnRequest_def split: if_splits)
next
  case True
  then obtain name filename where t: "request_target (rq_path req) = Some (name, filename)" by auto
  obtain r L1 where c: "CreateSession now name L = (r, L1)" by fastforce
  show ?thesis
  proof (cases "r \<noteq> None \<and> Extension filename = ''flv'' \<and>
      CreatePlayerUser conn peer name [] kUserTypePlayerFlv now (lv_objs L1 (the r)) \<noteq> None")
    case True
    then show ?thesis
      using assms t c \<open>rq_is_request req \<and> _\<close> flv [of name "the r" L1]
      by (auto simp: OnRequest_def request_flv_def result_simps new_user_def Let_def)
  next
    case False
    then have "ha_live a = L1 \<and> ha_acts a = []"
      using assms t c \<open>rq_is_request req \<and> _\<close>
      by (auto simp: OnRequest_def request_flv_def result_simps Let_def split: option.splits if_splits prod.splits)
    then show ?thesis using session c by simp
  qed
qed

lemma OnRequest_keeps:
  assumes "service_inv L" and "OnRequest ord mux now conn peer req hx L = Inr a"
  shows "service_inv (ha_live a)"
  using assms(2)
proof (cases rule: OnRequest_cases)
  case (session name r)
  then show ?thesis using CreateSession_keeps [OF assms(1)] by simp
next
  case (flv name sid L1 u)
  note c1 = CreateSession_keeps [OF assms(1) flv(1)]
  have "service_inv (snd (new_user conn sid u L1)\<lparr>lv_objs := (lv_objs (snd (new_user conn sid u L1)))
      (sid := insert_player (lv_next_user L1) (lv_objs (snd (new_user conn sid u L1)) sid))\<rparr>)"
    using created_users(1) [OF flv(2)] by (intro player_keeps [OF c1(1) c1(2) [OF refl]])
      (auto simp: is_publish_type_def less_eq_UserType_def)
  then show ?thesis using flv(3) by (rule AddPlayer_keeps)
qed (use assms in simp)

lemma service_step_keeps:
  assumes "service_inv L" and "service_op_ok op L" and "service_step push pushs now op L = Inr (L', as, qs)"
  shows "service_inv L'"
proof (cases op)
  case (PlayOp conn peer name param)
  then show ?thesis using assms by (auto simp: result_simps dest: OnPlay_keeps)
next
  case (PublishOp conn peer name param)
  then show ?thesis using assms OnPublish_keeps [OF assms(1), of now conn peer name param] by (auto split: prod.splits)
next
  case (RecvOp conn p)
  then show ?thesis using assms by (auto simp: result_simps OnRecv_def split: option.splits dest: stream_recv_keeps)
next
  case (ActiveOp conn c)
  then show ?thesis using assms by (auto simp: result_simps dest: OnActive_keeps)
next
  case (DestroyOp conn)
  then show ?thesis using assms OnConnectionDestroy_keeps [OF assms(1), of now conn] by (auto split: prod.splits)
next
  case TimerOp
  then show ?thesis using assms OnTimer_keeps [OF assms(1), of now] by (auto split: prod.splits)
next
  case (PulledPlayOp sid conn peer name)
  then show ?thesis using assms by (auto simp: result_simps simp del: service_op_ok.simps dest: Puller_OnPlay_keeps)
next
  case (PulledRecvOp sid conn p)
  then show ?thesis using assms by (auto simp: result_simps Puller_OnRecv_def split: option.splits dest: stream_recv_keeps)
next
  case (PulledCloseOp sid)
  then show ?thesis using assms by (auto simp: result_simps Puller_OnClose_def dest: on_relay_keeps)
next
  case (RequestOp ord mux conn peer req hx)
  then show ?thesis using assms by (auto simp: result_simps dest: OnRequest_keeps)
qed

text \<open>
  A run of the service, with what it leaves behind: the number of operations, the packets
  each session was given, and what each user was handed.
\<close>

fun received :: "('e, 'c) service_op \<Rightarrow> 'e Live \<Rightarrow> (nat \<times> 'e Packet) option" where
  "received (RecvOp conn p) L = map_option (\<lambda>i. (lv_owner L i, p)) (lv_ctx L conn)"
| "received (PulledRecvOp sid conn p) L = (if lv_ctx L conn = None then None else Some (sid, p))"
| "received _ L = None"

definition log_packet :: "(nat \<times> 'e Packet) option \<Rightarrow> (nat \<Rightarrow> 'e Packet list) \<Rightarrow> nat \<Rightarrow> 'e Packet list" where
  "log_packet r pub = (case r of None \<Rightarrow> pub | Some (sid, p) \<Rightarrow> pub(sid := pub sid @ [p]))"

definition log_posted :: "nat option \<Rightarrow> 'e posted list \<Rightarrow> (nat \<Rightarrow> 'e posted list) \<Rightarrow> nat \<Rightarrow> 'e posted list" where
  "log_posted user qs post = (case user of None \<Rightarrow> post | Some i \<Rightarrow> post(i := post i @ qs))"

fun active_user :: "('e, 'c) service_op \<Rightarrow> 'e Live \<Rightarrow> nat option" where
  "active_user (ActiveOp conn c) L = lv_ctx L conn"
| "active_user _ L = None"

inductive service_run ::
    "('e, 'c) push_frame \<Rightarrow> ('e, 'c) push_frames \<Rightarrow> Config \<Rightarrow> nat \<Rightarrow> 'e Live \<Rightarrow> (nat \<Rightarrow> 'e Packet list) \<Rightarrow>
     (nat \<Rightarrow> 'e posted list) \<Rightarrow> bool"
  for push pushs cfg where
  run_new: "service_run push pushs cfg 0 (Live_new cfg) (\<lambda>_. []) (\<lambda>_. [])"
| run_step: "service_run push pushs cfg n L pub post \<Longrightarrow> service_op_ok op L \<Longrightarrow>
     service_step push pushs now op L = Inr (L', as, qs) \<Longrightarrow>
     service_run push pushs cfg (Suc n) L' (log_packet (received op L) pub) (log_posted (active_user op L) qs post)"

lemma service_run_inv: "service_run push pushs cfg n L pub post \<Longrightarrow> service_inv L"
  by (induction rule: service_run.induct) (auto simp: service_inv_new intro: service_step_keeps)

lemma service_run_players:
  assumes "service_run push pushs cfg n L pub post" and "sid < lv_next_session L"
  shows "distinct (ss_players (lv_objs L sid)) \<and>
     set (ss_players (lv_objs L sid)) = {i. i < lv_next_user L \<and> lv_owner L i = sid \<and> live_player (lv_users L i)} \<and>
     (ss_players (lv_objs L sid) = [] \<or> FindSession (ss_name (lv_objs L sid)) L = Some sid) \<and>
     (case ss_publisher (lv_objs L sid) of None \<Rightarrow> True
      | Some p \<Rightarrow> lv_owner L p = sid \<and> \<not> is_player (lv_users L p) \<and>
                 (\<not> destroyed (lv_users L p) \<or> user_type (lv_users L p) \<notin>
                    {kUserTypePublishRtmp, kUserTypePublishMpegts, kUserTypePublishPav, kUserTypePublishWebRtc}))"
proof -
  have inv: "service_inv L" using service_run_inv [OF assms(1)] .
  have "FindSession (ss_name (lv_objs L sid)) L = Some sid" if "ss_players (lv_objs L sid) \<noteq> []"
  proof -
    from inv assms(2) that have "sid \<in> snd ` set (lv_sessions L)" by (auto simp: service_inv_def registry_ok_def)
    then obtain name where n: "(name, sid) \<in> set (lv_sessions L)" by auto
    with service_inv_registered [OF inv] have "ss_name (lv_objs L sid) = name" by blast
    then show ?thesis using n inv by (simp add: FindSession_def service_inv_def registry_ok_def)
  qed
  with service_inv_session [OF inv assms(2)] show ?thesis
    by (auto simp: session_ok_def is_publish_type_iff split: option.split)
qed

section \<open>What reaches the players\<close>

text \<open>
  Each session's stream keeps a log of the packets it was given, and each of its players,
  open or not, stands at some position of that log.
\<close>

definition session_log ::
    "(nat \<Rightarrow> nat) \<Rightarrow> nat \<Rightarrow> 'e user_heap \<Rightarrow> (nat \<Rightarrow> 'e posted list) \<Rightarrow> 'e Packet list \<Rightarrow> nat \<Rightarrow> 'e Stream \<Rightarrow> bool" where
  "session_log own nu U post ps sid s \<longleftrightarrow>
     (\<exists>L. list_all2 same_media ps L \<and> stream_inv L s \<and>
        (\<forall>i u. i < nu \<and> own i = sid \<and> U i = PlayingUser u \<longrightarrow> live_inv L (s, u, (), post i)))"

definition delivery_inv :: "nat \<Rightarrow> 'e Live \<Rightarrow> (nat \<Rightarrow> 'e Packet list) \<Rightarrow> (nat \<Rightarrow> 'e posted list) \<Rightarrow> bool" where
  "delivery_inv n L pub post \<longleftrightarrow>
     (\<forall>sid. length (pub sid) \<le> n \<and>
        (sid < lv_next_session L \<longrightarrow>
           session_log (lv_owner L) (lv_next_user L) (lv_users L) post (pub sid) sid (ss_stream (lv_objs L sid)))) \<and>
     (\<forall>sid \<ge> lv_next_session L. pub sid = []) \<and> (\<forall>i \<ge> lv_next_user L. post i = [])"

text \<open>Most operations leave the streams and what the players have taken as they are.\<close>

definition same_play :: "'e user_obj \<Rightarrow> 'e user_obj \<Rightarrow> bool" where
  "same_play u v \<longleftrightarrow> v = u \<or> v = set_destroyed u"

definition new_player :: "'e PlayerUser \<Rightarrow> bool" where
  "new_player u \<longleftrightarrow> (\<exists>v. same_play (PlayingUser (PlayerUser_init v)) (PlayingUser u))"

definition streams_kept :: "'e Live \<Rightarrow> 'e Live \<Rightarrow> bool" where
  "streams_kept L L' \<longleftrightarrow>
     lv_next_session L \<le> lv_next_session L' \<and> lv_next_user L \<le> lv_next_user L' \<and>
     (\<forall>sid < lv_next_session L. ss_stream (lv_objs L' sid) = ss_stream (lv_objs L sid)) \<and>
     (\<forall>sid. lv_next_session L \<le> sid \<and> sid < lv_next_session L' \<longrightarrow> (\<exists>name now. ss_stream (lv_objs L' sid) = Stream_new name now)) \<and>
     (\<forall>i < lv_next_user L. lv_owner L' i = lv_owner L i \<and> same_play (lv_users L i) (lv_users L' i)) \<and>
     (\<forall>i u. lv_next_user L \<le> i \<and> i < lv_next_user L' \<and> lv_users L' i = PlayingUser u \<longrightarrow> new_player u)"

lemma live_inv_destroyed [simp]: "live_inv L (s, u\<lparr>us_destroyed := b\<rparr>, c, ps) = live_inv L (s, u, c, ps)"
  by (simp add: live_inv_def at_log_def headers_in_def)

lemma live_inv_player: "stream_inv L s \<Longrightarrow> live_inv L (s, PlayerUser_init v, (), [])"
  by (simp add: live_inv_def at_log_def headers_in_def PlayerUser_init_def User.defs PlayerUser.defs)

lemma live_inv_same:
  assumes "same_play (PlayingUser u) (PlayingUser v)"
  shows "live_inv L (s, v, c, ps) = live_inv L (s, u, c, ps)"
  using assms by (auto simp: same_play_def)

lemma live_inv_new_player: "stream_inv L s \<Longrightarrow> new_player u \<Longrightarrow> live_inv L (s, u, (), [])"
  by (auto simp: new_player_def live_inv_same live_inv_player)

lemma session_log_kept:
  assumes "session_log own nu U post ps sid s"
    and "\<forall>i < nu. own' i = own i \<and> same_play (U i) (U' i)"
    and "\<forall>i u. nu \<le> i \<and> i < nu' \<and> U' i = PlayingUser u \<longrightarrow> new_player u" and "\<forall>i \<ge> nu. post i = []"
  shows "session_log own' nu' U' post ps sid s"
proof -
  from assms(1) obtain L where L: "list_all2 same_media ps L" "stream_inv L s"
    "\<And>i u. i < nu \<Longrightarrow> own i = sid \<Longrightarrow> U i = PlayingUser u \<Longrightarrow> live_inv L (s, u, (), post i)"
    by (auto simp: session_log_def)
  have "live_inv L (s, u, (), post i)" if "i < nu'" "own' i = sid" "U' i = PlayingUser u" for i u
  proof (cases "i < nu")
    case True
    with assms(2) have "same_play (U i) (PlayingUser u)" using that(3) by metis
    then obtain v where "U i = PlayingUser v" "same_play (PlayingUser v) (PlayingUser u)"
      by (cases "U i") (auto simp: same_play_def)
    with L(3) [of i v] True assms(2) that(2) show ?thesis by (simp add: live_inv_same)
  next
    case False
    then have "nu \<le> i" by simp
    with assms(3,4) that(1,3) have "new_player u" "post i = []" by blast+
    with live_inv_new_player [OF L(2)] show ?thesis by simp
  qed
  with L show ?thesis by (auto simp: session_log_def)
qed

lemma delivery_kept:
  assumes "delivery_inv n L pub post" and "streams_kept L L'" and "service_inv L"
  shows "delivery_inv (Suc n) L' pub post"
proof -
  have players: "\<forall>i < lv_next_user L. lv_owner L' i = lv_owner L i \<and> same_play (lv_users L i) (lv_users L' i)"
    "\<forall>i u. lv_next_user L \<le> i \<and> i < lv_next_user L' \<and> lv_users L' i = PlayingUser u \<longrightarrow> new_player u"
    using assms(2) by (simp_all add: streams_kept_def)
  have none: "\<forall>i \<ge> lv_next_user L. post i = []" "\<And>sid. \<not> sid < lv_next_session L \<Longrightarrow> pub sid = []"
    using assms(1) by (simp_all add: delivery_inv_def)
  have "session_log (lv_owner L') (lv_next_user L') (lv_users L') post (pub sid) sid (ss_stream (lv_objs L' sid))"
    if "sid < lv_next_session L'" for sid
  proof (cases "sid < lv_next_session L")
    case True
    then have "session_log (lv_owner L) (lv_next_user L) (lv_users L) post (pub sid) sid (ss_stream (lv_objs L sid))"
      using assms(1) by (simp add: delivery_inv_def)
    then have "session_log (lv_owner L') (lv_next_user L') (lv_users L') post (pub sid) sid (ss_stream (lv_objs L sid))"
      by (rule session_log_kept) (use players none(1) in auto)
    then show ?thesis using True assms(2) by (simp add: streams_kept_def)
  next
    case False
    have "\<exists>name now. ss_stream (lv_objs L' sid) = Stream_new name now"
      using assms(2) False that by (simp add: streams_kept_def)
    then obtain name now where s: "ss_stream (lv_objs L' sid) = Stream_new name now" by blast
    have later: "lv_next_user L \<le> i" if "lv_owner L' i = sid" for i
    proof (rule ccontr)
      assume "\<not> lv_next_user L \<le> i"
      then have "i < lv_next_user L" by simp
      then have "lv_owner L i = sid \<and> lv_owner L i < lv_next_session L"
        using that players(1) assms(3) by (auto simp: service_inv_def users_ok_def)
      with False show False by simp
    qed
    have "live_inv [] (Stream_new name now, u, (), post i)"
      if "i < lv_next_user L'" "lv_owner L' i = sid" "lv_users L' i = PlayingUser u" for i u
    proof -
      have "new_player u" "post i = []" using players(2) none(1) later [OF that(2)] that by blast+
      then show ?thesis using live_inv_new_player [OF stream_inv_new] by simp
    qed
    then show ?thesis
      using none(2) [OF False] by (auto simp: session_log_def s intro!: exI [of _ "[]"] stream_inv_new)
  qed
  moreover have "lv_next_session L \<le> lv_next_session L'" "lv_next_user L \<le> lv_next_user L'"
    using assms(2) by (simp_all add: streams_kept_def)
  ultimately show ?thesis using assms(1) by (simp add: delivery_inv_def le_SucI)
qed

lemma same_play_refl [simp]: "same_play u u" "same_play u (set_destroyed u)"
  by (simp_all add: same_play_def)

lemma same_play_trans: "same_play u v \<Longrightarrow> same_play v w \<Longrightarrow> same_play u w"
  by (auto simp: same_play_def)

lemma same_play_marked [simp]: "same_play (U i) (marked A U i)"
  by (simp add: marked_def)

lemma streams_kept_refl [simp]: "streams_kept L L"
  by (auto simp: streams_kept_def)

lemma new_player_same: "new_player u \<Longrightarrow> same_play (PlayingUser u) (PlayingUser v) \<Longrightarrow> new_player v"
  using same_play_trans by (auto simp: new_player_def)

lemma streams_kept_trans:
  assumes "streams_kept L1 L2" and "streams_kept L2 L3"
  shows "streams_kept L1 L3"
proof -
  have "new_player u" if "lv_next_user L1 \<le> i" "i < lv_next_user L3" "lv_users L3 i = PlayingUser u" for i u
  proof (cases "i < lv_next_user L2")
    case True
    then have "same_play (lv_users L2 i) (PlayingUser u)" using assms(2) that by (metis streams_kept_def)
    then obtain v where "lv_users L2 i = PlayingUser v" "same_play (PlayingUser v) (PlayingUser u)"
      by (cases "lv_users L2 i") (auto simp: same_play_def)
    moreover from this have "new_player v" using True that assms(1) by (auto simp: streams_kept_def)
    ultimately show ?thesis using new_player_same by blast
  next
    case False
    then have "lv_next_user L2 \<le> i" by simp
    then show ?thesis using assms(2) that(2,3) unfolding streams_kept_def by blast
  qed
  moreover have "same_play (lv_users L1 i) (lv_users L3 i) \<and> lv_owner L3 i = lv_owner L1 i" if "i < lv_next_user L1" for i
    using assms that same_play_trans unfolding streams_kept_def by (metis order_less_le_trans)
  moreover have "\<exists>name now. ss_stream (lv_objs L3 sid) = Stream_new name now"
    if "lv_next_session L1 \<le> sid" "sid < lv_next_session L3" for sid
    using assms that unfolding streams_kept_def by (metis not_le)
  ultimately show ?thesis
    using assms by (auto simp: streams_kept_def)
qed

text \<open>The operations of a session only close users.\<close>

definition only_closes :: "('e Session \<times> 'e user_heap \<Rightarrow> ('e Session \<times> 'e user_heap) \<times> conn_call list) \<Rightarrow> bool" where
  "only_closes f \<longleftrightarrow>
     (\<forall>s U s' U' cs. f (s, U) = ((s', U'), cs) \<longrightarrow> ss_stream s' = ss_stream s \<and> ss_app_info s' = ss_app_info s \<and> (\<exists>A. U' = marked A U))"

lemma marked_none [simp]: "\<exists>A. U = marked A U"
  by (rule exI [of _ "{}"]) simp

lemma only_closes_intros:
  "only_closes (CloseUser now i)" "only_closes (CloseUserNoLock now i)" "only_closes (SetPublisher i)"
  using marked_single by (auto simp: only_closes_def CloseUser_def CloseUserNoLock_def SetPublisher_def Let_def
      split: if_splits option.splits)

lemma close_players_closes: "only_closes (close_players now is :: 'e Session \<times> 'e user_heap \<Rightarrow> _)"
proof (induction "is")
  case Nil
  then show ?case by (simp add: only_closes_def)
next
  case (Cons i "is")
  show ?case
    unfolding only_closes_def
  proof (intro allI impI)
    fix s s' :: "'e Session" and U U' :: "'e user_heap" and cs
    assume c: "close_players now (i # is) (s, U) = ((s', U'), cs)"
    obtain s1 U1 cs1 where 1: "CloseUserNoLock now i (s, U) = ((s1, U1), cs1)" by (metis prod.collapse)
    obtain s2 U2 cs2 where 2: "close_players now is (s1, U1) = ((s2, U2), cs2)" by (metis prod.collapse)
    from 1 only_closes_intros(2) obtain A where "ss_stream s1 = ss_stream s \<and> ss_app_info s1 = ss_app_info s" "U1 = marked A U"
      unfolding only_closes_def by blast
    moreover from 2 Cons obtain B where "ss_stream s2 = ss_stream s1 \<and> ss_app_info s2 = ss_app_info s1" "U2 = marked B U1"
      unfolding only_closes_def by blast
    moreover have "s' = s2" "U' = U2" using c by (simp_all add: 1 2)
    ultimately show "ss_stream s' = ss_stream s \<and> ss_app_info s' = ss_app_info s \<and> (\<exists>A. U' = marked A U)" by auto
  qed
qed

lemma Session_Clear_closes: "only_closes (Session_Clear now :: 'e Session \<times> 'e user_heap \<Rightarrow> _)"
  unfolding only_closes_def
proof (intro allI impI)
  fix s s' :: "'e Session" and U U' :: "'e user_heap" and cs
  assume c: "Session_Clear now (s, U) = ((s', U'), cs)"
  obtain s1 U1 cs1 where 1: "(case ss_publisher s of None \<Rightarrow> ((s, U), []) | Some i \<Rightarrow> CloseUserNoLock now i (s, U)) = ((s1, U1), cs1)"
    by (metis prod.collapse)
  obtain s2 U2 cs2 where 2: "close_players now (ss_players s1) (s1, U1) = ((s2, U2), cs2)" by (metis prod.collapse)
  have "ss_stream s1 = ss_stream s \<and> ss_app_info s1 = ss_app_info s \<and> (\<exists>A. U1 = marked A U)"
  proof (cases "ss_publisher s")
    case None
    then show ?thesis using 1 by simp
  next
    case (Some i)
    then show ?thesis using 1 only_closes_intros(2) [of now i] unfolding only_closes_def by simp blast
  qed
  then obtain A where A: "ss_stream s1 = ss_stream s \<and> ss_app_info s1 = ss_app_info s" "U1 = marked A U" by blast
  from 2 close_players_closes [of now "ss_players s1"] obtain B where
    B: "ss_stream s2 = ss_stream s1 \<and> ss_app_info s2 = ss_app_info s1" "U2 = marked B U1" unfolding only_closes_def by blast
  have "s' = s2\<lparr>ss_players := []\<rparr>" "U' = U2" using c by (simp_all add: Session_Clear_def 1 2)
  with A B show "ss_stream s' = ss_stream s \<and> ss_app_info s' = ss_app_info s \<and> (\<exists>A. U' = marked A U)" by auto
qed

lemma on_session_streams:
  assumes "only_closes f"
  shows "streams_kept L (fst (on_session f sid L))"
proof -
  obtain s' U' cs where f: "f (lv_objs L sid, lv_users L) = ((s', U'), cs)" by (metis prod.collapse)
  with assms obtain A where "ss_stream s' = ss_stream (lv_objs L sid)" "U' = marked A (lv_users L)"
    unfolding only_closes_def by blast
  then show ?thesis by (auto simp: on_session_def f streams_kept_def)
qed

lemma CloseSession_streams: "streams_kept L (fst (CloseSession now name L))"
proof (cases "map_of (lv_sessions L) name")
  case (Some sid)
  have "streams_kept L (L\<lparr>lv_sessions := ss\<rparr>)" for ss by (auto simp: streams_kept_def)
  with Some show ?thesis
    using streams_kept_trans on_session_streams [OF Session_Clear_closes] by (fastforce simp: CloseSession_def)
qed (simp add: CloseSession_def)

lemma clear_sessions_streams: "streams_kept L (fst (clear_sessions now ns L))"
proof (induction now ns L rule: clear_sessions.induct)
  case (2 now name sid ns L)
  show ?case
  proof (cases "IsTimeout now (lv_objs L sid)")
    case True
    let ?L = "L\<lparr>lv_sessions := filter (\<lambda>(n, _). n \<noteq> name) (lv_sessions L)\<rparr>"
    obtain L1 as where L1: "on_session (Session_Clear now) sid ?L = (L1, as)" by fastforce
    have "streams_kept L ?L" by (auto simp: streams_kept_def)
    moreover have "streams_kept ?L L1" using on_session_streams [OF Session_Clear_closes, of ?L now sid] L1 by simp
    ultimately have "streams_kept L L1" by (rule streams_kept_trans)
    with 2(1) [OF True L1 [symmetric]] have "streams_kept L (fst (clear_sessions now ns L1))"
      using streams_kept_trans by blast
    then show ?thesis using True L1 by (cases "clear_sessions now ns L1") simp
  next
    case False
    then show ?thesis using 2 by simp
  qed
qed simp

lemma relay_acts_streams: "streams_kept L (fst (relay_acts now sid acts L))"
proof (induction now sid acts L rule: relay_acts.induct)
  case (2 now sid a as L)
  let ?step = "case a of CloseThisSession \<Rightarrow> CloseSession now (ss_name (lv_objs L sid)) L | _ \<Rightarrow> (L, [RelayAct sid a])"
  obtain L1 bs where L1: "?step = (L1, bs)" by fastforce
  have "streams_kept L L1"
    using L1 CloseSession_streams [of L now "ss_name (lv_objs L sid)"] by (auto split: relay_act.splits)
  with 2(1) [OF L1 [symmetric]] have "streams_kept L (fst (relay_acts now sid as L1))" using streams_kept_trans by blast
  with L1 show ?case by (cases "relay_acts now sid as L1") simp
qed simp

lemma session_update_streams:
  assumes "ss_stream s' = ss_stream (lv_objs L sid)"
  shows "streams_kept L (L\<lparr>lv_objs := (lv_objs L)(sid := s')\<rparr>)"
    "streams_kept L (L\<lparr>lv_objs := (lv_objs L)(sid := s'), lv_pulls := P\<rparr>)"
  using assms by (auto simp: streams_kept_def)

lemma on_relay_streams:
  assumes "on_relay f now sid L = Inr (L', as)"
  shows "streams_kept L L'"
proof -
  from assms obtain ts r acts where
    "relay_acts now sid acts (L\<lparr>lv_objs := (lv_objs L)(sid := (lv_objs L sid)\<lparr>ss_pull := Some r\<rparr>),
       lv_pulls := (lv_pulls L)(app_key (ss_name (lv_objs L sid)) := ts)\<rparr>) = (L', as)"
    by (auto simp: on_relay_def Let_def result_simps)
  moreover have "streams_kept L (L\<lparr>lv_objs := (lv_objs L)(sid := (lv_objs L sid)\<lparr>ss_pull := Some r\<rparr>),
       lv_pulls := (lv_pulls L)(app_key (ss_name (lv_objs L sid)) := ts)\<rparr>)"
    by (rule session_update_streams(2)) simp
  ultimately show ?thesis
    using streams_kept_trans [OF _ relay_acts_streams, of L _ now sid acts] by (metis fst_conv)
qed

lemma CreateSession_streams: "CreateSession now name L = (r, L') \<Longrightarrow> streams_kept L L'"
  by (auto simp: CreateSession_def Let_def streams_kept_def Session_new_def less_Suc_eq split: option.splits if_splits) blast

lemma new_user_streams:
  assumes "\<And>v. u = PlayingUser v \<Longrightarrow> new_player v"
  shows "streams_kept L (snd (new_user conn sid u L))"
  using assms by (auto simp: streams_kept_def less_Suc_eq)

lemma created_player_new:
  "CreatePlayerUser conn peer name param type now s = Some (PlayingUser v) \<Longrightarrow> new_player v"
  "CreatePublishUser conn peer name param type now s \<noteq> Some (PlayingUser v)"
  by (auto simp: CreatePlayerUser_def CreatePublishUser_def Let_def new_player_def intro: same_play_refl split: if_splits)

lemma AddPlayer_streams: "AddPlayer now sid i L = Inr (L', as) \<Longrightarrow> streams_kept L L'"
proof -
  assume a: "AddPlayer now sid i L = Inr (L', as)"
  let ?L = "L\<lparr>lv_objs := (lv_objs L)(sid := insert_player i (lv_objs L sid))\<rparr>"
  have "streams_kept L ?L" by (rule session_update_streams(1)) (simp add: insert_player_def)
  moreover have "streams_kept ?L L'"
    using a by (auto simp: AddPlayer_def Let_def result_simps split: if_splits dest: on_relay_streams)
  ultimately show ?thesis by (rule streams_kept_trans)
qed

lemma OnPlay_streams:
  assumes "OnPlay now conn peer name param L = Inr (ok, L', as)"
  shows "streams_kept L L'"
proof -
  obtain r L1 where c: "CreateSession now name L = (r, L1)" by fastforce
  note c1 = CreateSession_streams [OF c]
  show ?thesis
  proof (cases r)
    case (Some sid)
    show ?thesis
    proof (cases "CreatePlayerUser conn peer name param kUserTypePlayerRtmp now (lv_objs L1 sid)")
      case None
      then show ?thesis using assms c c1 Some by (auto simp: OnPlay_def)
    next
      case u: (Some u)
      have "streams_kept L1 (snd (new_user conn sid u L1))"
        using created_player_new(1) u by (intro new_user_streams) auto
      moreover have "AddPlayer now sid (lv_next_user L1) (snd (new_user conn sid u L1)) = Inr (L', as)"
        using assms c Some u by (auto simp: OnPlay_def result_simps new_user_def Let_def)
      ultimately show ?thesis using c1 AddPlayer_streams streams_kept_trans by blast
    qed
  qed (use assms c c1 in \<open>auto simp: OnPlay_def\<close>)
qed

lemma OnRequest_streams:
  assumes "OnRequest ord mux now conn peer req hx L = Inr a"
  shows "streams_kept L (ha_live a)"
  using assms
proof (cases rule: OnRequest_cases)
  case none
  then show ?thesis by (simp add: streams_kept_refl)
next
  case (session name r)
  then show ?thesis by (auto intro: CreateSession_streams)
next
  case (flv name sid L1 u)
  have "streams_kept L1 (snd (new_user conn sid u L1))"
    using created_player_new(1) flv(2) by (intro new_user_streams) auto
  then show ?thesis
    using CreateSession_streams [OF flv(1)] AddPlayer_streams [OF flv(3)] streams_kept_trans by blast
qed

lemma publish_new_streams:
  assumes "CreatePublishUser conn peer name param type now s = Some u"
  shows "streams_kept L (fst (on_session (SetPublisher (lv_next_user L)) sid (snd (new_user conn sid u L))))"
  using assms created_player_new(2)
  by (intro streams_kept_trans [OF new_user_streams on_session_streams [OF only_closes_intros(3)]]) blast

lemma OnPublish_streams: "streams_kept L (fst (snd (OnPublish now conn peer name param L)))"
proof -
  obtain r L1 where c: "CreateSession now name L = (r, L1)" by fastforce
  note c1 = CreateSession_streams [OF c]
  show ?thesis
  proof (cases r)
    case (Some sid)
    show ?thesis
    proof (cases "CreatePublishUser conn peer name param kUserTypePublishRtmp now (lv_objs L1 sid)")
      case None
      then show ?thesis using c c1 Some by (auto simp: OnPublish_def)
    next
      case u: (Some u)
      then show ?thesis using c Some streams_kept_trans [OF c1 publish_new_streams [OF u]]
        by (auto simp: OnPublish_def new_user_def Let_def split: prod.split)
    qed
  qed (use c c1 in \<open>auto simp: OnPublish_def\<close>)
qed

lemma Puller_OnPlay_streams:
  assumes "Puller_OnPlay now sid conn peer name L = Inr (ok, L', as)"
  shows "streams_kept L L'"
proof (cases "lv_ctx L conn")
  case None
  show ?thesis
  proof (cases "CreatePublishUser conn peer name [] kUserTypePlayerRtmp now (lv_objs L sid)")
    case nouser: None
    then show ?thesis using assms None on_relay_streams by (auto simp: Puller_OnPlay_def result_simps)
  next
    case (Some u)
    with None assms publish_new_streams [OF Some, of L sid] show ?thesis
      by (auto simp: Puller_OnPlay_def new_user_def Let_def split: prod.splits)
  qed
next
  case (Some i)
  with assms on_session_streams [OF only_closes_intros(3), of L i sid] show ?thesis
    by (auto simp: Puller_OnPlay_def split: prod.splits)
qed

lemma service_step_streams:
  assumes "service_step push pushs now op L = Inr (L', as, qs)" and "received op L = None" and "active_user op L = None"
  shows "streams_kept L L'"
proof (cases op)
  case (PublishOp conn peer name param)
  then show ?thesis using assms OnPublish_streams [of L now conn peer name param] by (auto split: prod.splits)
next
  case (DestroyOp conn)
  then show ?thesis
    using assms on_session_streams [OF only_closes_intros(1), of L now "the (lv_ctx L conn)" "lv_owner L (the (lv_ctx L conn))"]
    by (auto simp: OnConnectionDestroy_def split: option.splits prod.splits)
next
  case TimerOp
  then show ?thesis using assms clear_sessions_streams [of L now "lv_sessions L"] by (auto simp: OnTimer_def split: prod.splits)
qed (use assms in \<open>auto simp: result_simps OnRecv_def Puller_OnRecv_def OnActive_def Puller_OnClose_def
    split: option.splits if_splits dest: OnPlay_streams Puller_OnPlay_streams on_relay_streams OnRequest_streams\<close>)

lemma session_log_recv:
  assumes "session_log own nu U post ps sid s" and "AddPacket app now p s = Inr (s', act)" and "length ps + 1 < 2 ^ 31"
  shows "session_log own nu U post (ps @ [p]) sid s'"
proof -
  from assms(1) obtain L where L: "list_all2 same_media ps L" "stream_inv L s"
    "\<And>i u. i < nu \<Longrightarrow> own i = sid \<Longrightarrow> U i = PlayingUser u \<Longrightarrow> live_inv L (s, u, (), post i)"
    by (auto simp: session_log_def)
  with assms(3) have "length L + 1 < 2 ^ 31" by (simp add: list_all2_lengthD [OF L(1)])
  from AddPacket_inv [OF L(2) this assms(2)] obtain q where q: "stream_inv (L @ [q]) s'" "same_media p q" by auto
  then have "list_all2 same_media (ps @ [p]) (L @ [q])" using L(1) by (simp add: list_all2_appendI)
  moreover have "live_inv (L @ [q]) (s', u, (), post i)" if "i < nu" "own i = sid" "U i = PlayingUser u" for i u
    using live_inv_snoc [OF L(3) [OF that] q(1)] .
  ultimately show ?thesis using q(1) unfolding session_log_def by blast
qed

lemma delivery_recv:
  assumes "delivery_inv n L pub post" and "sid < lv_next_session L" and "Suc n < 2 ^ 31"
    and "stream_recv now sid p L = Inr (L', as)"
  shows "delivery_inv (Suc n) L' (pub(sid := pub sid @ [p])) post"
proof -
  from assms(4) obtain st act where a: "AddPacket (ss_app_info (lv_objs L sid)) now p (ss_stream (lv_objs L sid)) = Inr (st, act)"
    and L': "L' = L\<lparr>lv_objs := (lv_objs L)(sid := (lv_objs L sid)\<lparr>ss_stream := st\<rparr>)\<rparr>"
    by (auto simp: stream_recv_def Let_def result_simps)
  have len: "length (pub sid') \<le> n" for sid' using assms(1) by (simp add: delivery_inv_def)
  have log: "session_log (lv_owner L) (lv_next_user L) (lv_users L) post (pub sid') sid' (ss_stream (lv_objs L sid'))"
    if "sid' < lv_next_session L" for sid'
    using assms(1) that by (simp add: delivery_inv_def)
  have "session_log (lv_owner L) (lv_next_user L) (lv_users L) post (pub sid @ [p]) sid st"
    by (rule session_log_recv [OF log [OF assms(2)] a]) (use assms(3) len [of sid] in simp)
  then show ?thesis
    using assms(1,2) log len by (auto simp: L' delivery_inv_def le_SucI)
qed

lemma session_log_active:
  assumes "session_log own nu U post ps sid s" and "U i = PlayingUser u" and "own i = sid \<Longrightarrow> i < nu"
    and "own i = sid \<Longrightarrow> PostFrames push pushs now s u c = Inr (r, u', c', qs, cs)"
  shows "session_log own nu (U(i := PlayingUser u')) (post(i := post i @ qs)) ps sid s"
proof -
  from assms(1) obtain M where M: "list_all2 same_media ps M" "stream_inv M s"
    "\<And>j v. j < nu \<Longrightarrow> own j = sid \<Longrightarrow> U j = PlayingUser v \<Longrightarrow> live_inv M (s, v, (), post j)"
    by (auto simp: session_log_def)
  have "live_inv M (s, v, (), (post(i := post i @ qs)) j)"
    if j: "j < nu" "own j = sid" "(U(i := PlayingUser u')) j = PlayingUser v" for j v
  proof (cases "j = i")
    case True
    with j(1,2) M(3) assms(2) have "live_inv M (s, u, (), post i)" by simp
    then have "live_inv M (s, u, c, post i)" by (simp add: live_inv_def)
    moreover have "PostFrames push pushs now s u c = Inr (r, u', c', qs, cs)" using assms(4) True j(2) by simp
    ultimately have "live_inv M (s, u', c', post i @ qs)" by (rule activate_inv)
    then have "live_inv M (s, u', (), post i @ qs)" by (simp add: live_inv_def)
    then show ?thesis using True j(3) by simp
  next
    case False
    then show ?thesis using M(3) [of j v] j by simp
  qed
  with M(1,2) show ?thesis unfolding session_log_def by blast
qed

lemma active_step:
  assumes "service_step push pushs now (ActiveOp conn c) L = Inr (L', as, qs)" and "lv_ctx L conn = Some i"
  obtains "L' = L" "qs = []"
  | u u' r c' cs where "lv_users L i = PlayingUser u"
      "PostFrames push pushs now (ss_stream (lv_objs L (lv_owner L i))) u c = Inr (r, u', c', qs, cs)"
      "L' = L\<lparr>lv_users := (lv_users L)(i := PlayingUser u')\<rparr>"
proof (cases "user_type (lv_users L i) \<ge> kUserTypePlayerPav")
  case False
  then show ?thesis using assms that(1) by (auto simp: OnActive_def)
next
  case True
  show ?thesis
  proof (cases "lv_users L i")
    case (PlainUser u)
    then show ?thesis using assms True by (simp add: OnActive_def)
  next
    case (PlayingUser u)
    then show ?thesis
      using assms True that(2) by (auto simp: OnActive_def post_user_def result_simps)
  qed
qed

lemma delivery_active:
  assumes "delivery_inv n L pub post" and "service_inv L"
    and "service_step push pushs now (ActiveOp conn c) L = Inr (L', as, qs)" and "lv_ctx L conn = Some i"
  shows "delivery_inv (Suc n) L' pub (post(i := post i @ qs))"
  using assms(3,4)
proof (cases rule: active_step)
  case 1
  moreover have "post(i := post i) = post" by auto
  ultimately show ?thesis using assms(1) by (simp add: delivery_inv_def le_SucI)
next
  case (2 u u' r c' cs)
  have i: "i < lv_next_user L" using assms(2,4) service_inv_ctx by blast
  have "session_log (lv_owner L) (lv_next_user L) ((lv_users L)(i := PlayingUser u')) (post(i := post i @ qs))
      (pub sid) sid (ss_stream (lv_objs L sid))" if sid: "sid < lv_next_session L" for sid
    by (rule session_log_active [where push = push and pushs = pushs and now = now and u = u and c = c and r = r and c' = c' and cs = cs])
      (use assms(1) sid i 2(1,2) in \<open>auto simp: delivery_inv_def\<close>)
  then show ?thesis using assms(1) i by (simp add: 2(3) delivery_inv_def le_SucI)
qed

lemma service_run_delivery:
  assumes "service_run push pushs cfg n L pub post" and "n < 2 ^ 31"
  shows "delivery_inv n L pub post"
  using assms
proof (induction rule: service_run.induct)
  case run_new
  then show ?case by (simp add: delivery_inv_def Live_new_def)
next
  case (run_step n L pub post op now L' as qs)
  then have IH: "delivery_inv n L pub post" and n: "Suc n < 2 ^ 31" and inv: "service_inv L"
    using service_run_inv by auto
  show ?case
  proof (cases "received op L")
    case None
    show ?thesis
    proof (cases "active_user op L")
      case act: None
      with None show ?thesis
        using delivery_kept [OF IH service_step_streams [OF run_step.hyps(3) None act] inv]
        by (simp add: log_packet_def log_posted_def)
    next
      case (Some i)
      then obtain conn c where op: "op = ActiveOp conn c" "lv_ctx L conn = Some i" by (cases op) auto
      have "service_step push pushs now (ActiveOp conn c) L = Inr (L', as, qs)" using run_step.hyps(3) by (simp only: op(1))
      from delivery_active [OF IH inv this op(2)] show ?thesis by (simp add: op log_packet_def log_posted_def fun_upd_def)
    qed
  next
    case (Some r)
    then obtain sid p where r: "r = (sid, p)" "active_user op L = None" "stream_recv now sid p L = Inr (L', as)"
      "sid < lv_next_session L"
    proof (cases op)
      case (RecvOp conn p)
      then obtain i where i: "lv_ctx L conn = Some i" "r = (lv_owner L i, p)" using Some by auto
      then have "i < lv_next_user L" using service_inv_ctx [OF inv] by blast
      then have "lv_owner L i < lv_next_session L" using inv by (simp add: service_inv_def users_ok_def)
      then show ?thesis
        using RecvOp i run_step.hyps(3) by (intro that [of "lv_owner L i" p]) (auto simp: OnRecv_def result_simps)
    next
      case (PulledRecvOp sid conn p)
      then show ?thesis
        using Some run_step.hyps(2,3)
        by (intro that [of sid p]) (auto simp: Puller_OnRecv_def result_simps split: if_splits option.splits)
    qed simp_all
    with delivery_recv [OF IH r(4) n r(3)] Some show ?thesis by (simp add: log_packet_def log_posted_def fun_upd_def)
  qed
qed

text \<open>What the service hands to a player, in terms of what its session was given.\<close>

lemma service_run_log:
  assumes "service_run push pushs cfg n L pub post" and "n < 2 ^ 31"
    and "i < lv_next_user L" and "lv_users L i = PlayingUser u"
  shows "\<exists>M is. list_all2 same_media (pub (lv_owner L i)) M \<and> sorted_wrt (<) is \<and> (\<forall>k \<in> set is. k < length M) \<and>
           frames_of (post i) @ pl_out_frames u = map ((!) M) is \<and> (\<forall>q \<in> set (post i). posted_packet q \<in> set M)"
proof -
  have "lv_owner L i < lv_next_session L"
    using service_run_inv [OF assms(1)] assms(3) by (simp add: service_inv_def users_ok_def)
  then obtain M where "list_all2 same_media (pub (lv_owner L i)) M"
    "live_inv M (ss_stream (lv_objs L (lv_owner L i)), u, (), post i)"
    using service_run_delivery [OF assms(1,2)] assms(3,4) by (auto simp: delivery_inv_def session_log_def)
  then show ?thesis by (force simp: live_inv_def at_log_def)
qed

end
