(* ===== verification/PlayerSink.thy ===== *)
theory PlayerSink
  imports Player
begin

text \<open>
  The interface between a player and its protocol context: a context takes every packet it
  accepts, in order. It is stated once and holds for the RTMP context; the frames a player
  gets first and next are stated here too.
\<close>

section \<open>Where playing starts and goes on\<close>

lemma first_frame_key:
  assumes "stream_inv L s" and "pl_out_index u = -1" and "pl_out_frames u = []"
    and "pl_out_frames (GetFrames now s u) \<noteq> []" and "length L \<noteq> packet_buffer_size + 1"
  shows "IsKeyFrame (hd (pl_out_frames (GetFrames now s u)))"
proof -
  obtain found v where v: "LocateGop now s u = (found, v)" by fastforce
  have "GetFrames now s u \<noteq> u" using assms(3,4) by auto
  then have "HasMedia s" "pl_meta u = None" "pl_audio_header u = None" "pl_video_header u = None"
    by (simp_all add: GetFrames_def split: if_splits)
  then have gf: "GetFrames now s u = (if found then GetNextFrame s v else v)"
    using v assms(2,3) by (simp add: GetFrames_def)
  have found
  proof (rule ccontr)
    assume "\<not> found"
    with LocateGop_not_found [OF assms(1), of now u v] v gf assms(3,4) show False by simp
  qed
  with LocateGop_found [OF assms(1), of now u v] v obtain i where i: "pl_out_index v = int i - 1" "i < length L"
    "IsKeyFrame (L ! i)" "expired (length L) \<le> i" "pl_out_frames v = []" using assms(3) by auto
  have "length L \<le> i + packet_buffer_size"
    using i(4) assms(5) by (auto simp: expired_def split: if_splits)
  then have "GetNextFrame s v = deliver (take 10 (drop i L)) v"
    using GetNextFrame_log [OF assms(1), of v] i(1) by simp
  then show ?thesis
    using i(2,3,5) gf \<open>found\<close> by (simp add: deliver_def hd_drop_conv_nth)
qed

lemma next_frames_contiguous:
  assumes "stream_inv L s" and "HasMedia s" and "0 \<le> pl_out_index u" and "\<not> need_skip s u"
    and "pl_meta u = None" and "pl_audio_header u = None" and "pl_video_header u = None" and "pl_out_frames u = []"
  shows "pl_out_frames (GetFrames now s u) = take 10 (drop (nat (pl_out_index u) + 1) L)"
proof -
  have "int32 (st_frame_index s - int packet_buffer_size) = st_frame_index s - int packet_buffer_size"
    using assms(1) by (simp add: stream_inv_def int32_id packet_buffer_size_def)
  then have "length L \<le> nat (pl_out_index u + 1) + packet_buffer_size"
    using assms(1,3,4) by (auto simp: need_skip_def stream_inv_def)
  then have "GetNextFrame s u = deliver (take 10 (drop (nat (pl_out_index u + 1)) L)) u"
    using GetNextFrame_log [OF assms(1), of u] assms(3) by simp
  then show ?thesis using assms by (simp add: GetFrames_def deliver_def nat_add_distrib)
qed

section \<open>The interface of a protocol context\<close>

locale frame_sink =
  fixes push :: "('e, 'c) push_frame" and pushs :: "('e, 'c) push_frames"
    and pending :: "'c \<Rightarrow> 'e Packet list" and usable :: "'c \<Rightarrow> bool" and fits :: "'e Packet \<Rightarrow> bool"
  assumes push_takes:
      "usable c \<Longrightarrow> fits p \<Longrightarrow> push p c = Inr (ok, c') \<Longrightarrow>
         usable c' \<and> pending c' = pending c @ (if ok then [p] else [])"
    and pushs_takes:
      "usable c \<Longrightarrow> list_all fits ps \<Longrightarrow> pushs ps tc c = Inr (ok, tc', c') \<Longrightarrow>
         usable c' \<and> pending c' = pending c @ (if ok then ps else [])"
begin

definition all_fit :: "'e PlayerUser \<Rightarrow> bool" where
  "all_fit u \<longleftrightarrow> (\<forall>p \<in> set_option (pl_meta u) \<union> set_option (pl_audio_header u) \<union> set_option (pl_video_header u).
     fits p) \<and> list_all fits (pl_out_frames u)"

lemma post_header_takes:
  assumes "usable c" and "fits p" and "post_header push p clear u c = Inr (u', c', qs)"
  shows "usable c' \<and> pending c' = pending c @ map posted_packet qs"
proof -
  from assms(3) obtain ok c1 where "push p c = Inr (ok, c1)" "c' = c1" "qs = (if ok then [PostedHeader p] else [])"
    by (auto simp: post_header_def result_simps split: if_splits)
  with push_takes [OF assms(1,2)] show ?thesis by auto
qed

lemma post_pending_takes:
  assumes "usable c" and "all_fit u" and "post_pending push pushs u c = Inr (u', c', qs, calls)"
  shows "usable c' \<and> pending c' = pending c @ map posted_packet qs"
proof (cases "pl_meta u = None \<and> pl_audio_header u = None \<and> pl_video_header u = None")
  case True
  show ?thesis
  proof (cases "pl_out_frames u = []")
    case empty: True
    then show ?thesis using True assms by (auto simp: post_pending_def)
  next
    case False
    with True assms(3) obtain ok tc where "pushs (pl_out_frames u) (pl_time_corrector u) c = Inr (ok, tc, c')"
      "qs = (if ok then map PostedFrame (pl_out_frames u) else [])"
      by (auto simp: post_pending_def result_simps Let_def split: if_splits)
    with pushs_takes [OF assms(1)] assms(2) show ?thesis by (auto simp: all_fit_def comp_def)
  qed
next
  case False
  then obtain p clear where "fits p" "post_header push p clear u c = Inr (u', c', qs)"
    using assms(2,3) by (auto simp: post_pending_def all_fit_def result_simps split: option.splits)
  with post_header_takes assms(1) show ?thesis by blast
qed

text \<open>What \<open>PostFrames\<close> reports as posted is what the context has taken.\<close>

lemma PostFrames_takes:
  assumes "usable c" and "all_fit (GetFrames now s u)" and "PostFrames push pushs now s u c = Inr (r, u', c', qs, calls)"
  shows "pending c' = pending c @ map posted_packet qs"
  using assms post_pending_takes [of c "GetFrames now s u"]
  by (auto simp: PostFrames_def result_simps split: if_splits)

end

section \<open>RTMP\<close>

lemma build_chunks_keeps:
  assumes "build_chunks p h d t s = Inr s'"
  shows "ro_packets s' = ro_packets s \<and> ro_waiting s' = ro_waiting s \<and> ro_sending s' = ro_sending s"
  using assms by (auto simp: build_chunks_def Let_def result_simps split: prod.splits if_splits)

lemma BuildChunk_keeps:
  assumes "BuildChunk p t f s = Inr (ok, s')" and "pk_ext p \<noteq> None"
  shows "ro_packets s' = ro_packets s @ [p] \<and> ro_waiting s' = ro_waiting s \<and> ro_sending s' = ro_sending s"
proof -
  obtain h where h: "pk_ext p = Some h" using assms(2) by auto
  with assms(1) have "build_chunks p h False t (s\<lparr>ro_packets := ro_packets s @ [p]\<rparr>) = Inr s'"
    by (auto simp: BuildChunk_def Let_def result_simps split: if_splits)
  from build_chunks_keeps [OF this] show ?thesis by simp
qed

lemma rtmp_build_frames_keeps:
  assumes "rtmp_build_frames ps tc s = Inr (tc', s')" and "list_all (\<lambda>p. pk_ext p \<noteq> None) ps"
  shows "ro_packets s' = ro_packets s @ ps \<and> ro_waiting s' = ro_waiting s \<and> ro_sending s' = ro_sending s"
  using assms
proof (induction ps arbitrary: tc s)
  case (Cons p ps)
  then obtain ts tc1 ok s1 where "BuildChunk p (word_of_int ts) False s = Inr (ok, s1)"
    "rtmp_build_frames ps tc1 s1 = Inr (tc', s')" by (auto simp: result_simps)
  with BuildChunk_keeps [OF this(1)] Cons.IH [OF this(2)] Cons.prems(2) show ?case by simp
qed simp

text \<open>With no command waiting, sending adds nothing.\<close>

definition rtmp_usable :: "rtmp_conn \<Rightarrow> bool" where
  "rtmp_usable cx \<longleftrightarrow> (case cx of None \<Rightarrow> True | Some (r, _) \<Rightarrow> ro_waiting r = [])"

definition rtmp_pending :: "rtmp_conn \<Rightarrow> RtmpPacket list" where
  "rtmp_pending cx = (case cx of None \<Rightarrow> [] | Some (r, _) \<Rightarrow> ro_packets r)"

definition has_rtmp_header :: "RtmpPacket \<Rightarrow> bool" where
  "has_rtmp_header p \<longleftrightarrow> pk_ext p \<noteq> None"

lemma rtmp_send_keeps:
  assumes "rtmp_send r sent = Inr cx" and "ro_waiting r = []"
  shows "rtmp_usable cx \<and> rtmp_pending cx = ro_packets r"
proof -
  have "build_waiting (Suc n) (r\<lparr>ro_sending := True\<rparr>) = Inr (r\<lparr>ro_sending := True\<rparr>)" for n
    using assms(2) by simp
  then have "build_waiting 10 (r\<lparr>ro_sending := True\<rparr>) = Inr (r\<lparr>ro_sending := True\<rparr>)"
    by (simp only: eval_nat_numeral)
  then show ?thesis
    using assms by (auto simp: rtmp_send_def Send_def rtmp_usable_def rtmp_pending_def split: if_splits)
qed

interpretation rtmp_player: frame_sink RtmpPlayerUser_PushFrame RtmpPlayerUser_PushFrames
  rtmp_pending rtmp_usable has_rtmp_header
proof unfold_locales
  fix c p ok c'
  assume c: "rtmp_usable c" "has_rtmp_header p" "RtmpPlayerUser_PushFrame p c = Inr (ok, c')"
  show "rtmp_usable c' \<and> rtmp_pending c' = rtmp_pending c @ (if ok then [p] else [])"
  proof (cases ok)
    case False
    then show ?thesis using c by (auto simp: RtmpPlayerUser_PushFrame_def result_simps split: option.splits if_splits)
  next
    case True
    with c(3) obtain r sent b r' where r: "c = Some (r, sent)" "BuildChunk p 0 True r = Inr (b, r')"
      "rtmp_send r' sent = Inr c'"
      by (auto simp: RtmpPlayerUser_PushFrame_def result_simps split: option.splits if_splits)
    with c(1,2) BuildChunk_keeps [OF r(2)] rtmp_send_keeps [OF r(3)] show ?thesis
      using True by (simp add: has_rtmp_header_def rtmp_usable_def rtmp_pending_def)
  qed
next
  fix c ps tc ok tc' c'
  assume c: "rtmp_usable c" "list_all has_rtmp_header ps" "RtmpPlayerUser_PushFrames ps tc c = Inr (ok, tc', c')"
  show "rtmp_usable c' \<and> rtmp_pending c' = rtmp_pending c @ (if ok then ps else [])"
  proof (cases ok)
    case False
    then show ?thesis using c by (auto simp: RtmpPlayerUser_PushFrames_def result_simps split: option.splits if_splits)
  next
    case True
    with c(3) obtain r sent r' where r: "c = Some (r, sent)" "rtmp_build_frames ps tc r = Inr (tc', r')"
      "rtmp_send r' sent = Inr c'"
      by (auto simp: RtmpPlayerUser_PushFrames_def result_simps split: option.splits if_splits)
    have "list_all (\<lambda>p. pk_ext p \<noteq> None) ps" using c(2) by (simp add: has_rtmp_header_def list_all_iff)
    with r c(1) rtmp_build_frames_keeps [OF r(2)] rtmp_send_keeps [OF r(3)] show ?thesis
      using True by (simp add: rtmp_usable_def rtmp_pending_def)
  qed
qed

text \<open>A frame on a chunk stream that has had no message yet: the previous header is dereferenced.\<close>

lemma frame_without_header:
  assumes "pk_ext p = Some h" and "ro_headers r (rh_cs_id h) = None" and "packet_inv p" and "Ready r"
  shows "RtmpPlayerUser_PushFrames (p # ps) tc (Some (r, sent)) = Inl NullDeref"
proof -
  obtain b where "IsCodecHeader p = Inr b" using codec_utils_ok(1) [OF assms(3)] by blast
  then have "\<exists>t tc'. CorrectTimestamp p tc = Inr (t, tc')" by (simp add: CorrectTimestamp_def)
  then show ?thesis using assms by (auto simp: RtmpPlayerUser_PushFrames_def BuildChunk_def Let_def)
qed

end
