(* ===== verification/LiveProps.thy ===== *)
theory LiveProps
  imports PlayerSink
begin

text \<open>
  The properties of live streams and their players: what the ring buffer, the groups of
  pictures, the codec headers, the time corrector and the player's control flow achieve
  together. The lemmas are in \<open>GopMgr\<close>, \<open>TimeCorrector\<close>, \<open>StreamInv\<close>, \<open>Player\<close> and
  \<open>PlayerSink\<close>; here is each property with an instance.
\<close>

section \<open>A stream for the instances\<close>

text \<open>A video packet: a key frame's first bytes, or those of a frame between.\<close>

definition video_frame :: "bool \<Rightarrow> unit Packet" where
  "video_frame key =
     \<lparr>pk_type = kPacketTypeVideo, pk_size = 3, pk_index = -1, pk_timestamp = 0, pk_capacity = 3,
      pk_ext = None, pk_data = (if key then [0x17, 1, 0] else [0x27, 1, 0])\<rparr>"

lemma video_frame_ok: "packet_inv (video_frame key)" "\<not> IsMeta (video_frame key)" "IsVideo (video_frame key)"
  by (simp_all add: video_frame_def packet_inv_def IsMeta_def IsVideo_def packet_type_defs)

text \<open>A context that takes everything.\<close>

definition take_one :: "(unit, unit) push_frame" where
  "take_one p c = Inr (True, c)"

definition take_many :: "(unit, unit) push_frames" where
  "take_many ps tc c = Inr (True, tc, c)"

lemma PostFrames_takes_all: "\<exists>r u' c' qs calls. PostFrames take_one take_many now s u c = Inr (r, u', c', qs, calls)"
  by (simp add: PostFrames_def post_pending_def post_header_def take_one_def take_many_def Let_def split: option.split) blast

section \<open>Properties\<close>

text \<open>
  C5. \<open>Stream::AddPacket\<close> accepts every packet whose payload is there (metadata must decode)
  and keeps the stream well formed: the log grows by the packet with its number; the ring
  holds the newest thousand packets of the log, the list of groups of pictures exactly the key
  frames that have not expired, the newest timestamp and the codec headers those of the log.
\<close>

theorem stream_add_packet:
  assumes "stream_inv L s" and "length L + 1 < 2 ^ 31"
    and "packet_inv p" and "IsMeta p \<Longrightarrow> is_ok (amf_Decode (pk_data p) (int (pk_size p)))"
  shows "\<exists>s' act q. AddPacket app now p s = Inr (s', act) \<and> stream_inv (L @ [q]) s' \<and>
           same_media p q \<and> pk_index q = int (length L)"
  using AddPacket_ok [OF assms(3,4)] AddPacket_inv [OF assms(1,2)] by blast

theorem stream_add_packet_witness:
  "\<exists>s' act q. AddPacket (AppInfo_new ''d'') 0 (video_frame True) (Stream_new ''s'' 0) = Inr (s', act) \<and>
     stream_inv ([] @ [q]) s' \<and> same_media (video_frame True) q \<and> pk_index q = int (length ([] :: unit Packet list))"
  by (rule stream_add_packet [OF stream_inv_new]) (simp_all add: video_frame_ok)

text \<open>
  The stream after one packet, a video sequence header, whose first byte makes it count as a
  key frame.
\<close>

definition header_frame :: "unit Packet" where
  "header_frame = (video_frame True)\<lparr>pk_data := [0x17, 0, 0]\<rparr>"

definition stamped :: "unit Packet" where
  "stamped = header_frame\<lparr>pk_index := 0, pk_type := kPacketTypeVideo OR kFrameTypeKeyFrame\<rparr>"

definition one_frame :: "unit Stream" where
  "one_frame = (case AddPacket (AppInfo_new ''d'') 0 header_frame (Stream_new ''s'' 0) of
     Inr (s, _) \<Rightarrow> s | Inl _ \<Rightarrow> Stream_new ''s'' 0)"

lemma stamp_header: "stamp_packet 0 header_frame TimeCorrector_new = Inr (stamped, True, TimeCorrector_new)"
  by (simp add: stamp_packet_def Let_def header_frame_def video_frame_def CodecUtils_IsKeyFrame_def
      IsCodecHeader_def CorrectTimestamp_def IsVideo_def IsAudio_def IsMeta_def packet_type_defs
      nth_checked_def int32_id stamped_def)

lemma keep_stamped:
  "keep_header stamped s =
     Inr (s\<lparr>st_codec_headers := SaveVideoHeader stamped (st_codec_headers s), st_has_video := True,
            st_stream_version := st_stream_version s + 1\<rparr>)"
  by (simp add: keep_header_def stamped_def header_frame_def video_frame_def IsCodecHeader_def nth_checked_def
      ParseCodecHeader_def mark_media_def IsVideo_def IsAudio_def IsMeta_def packet_type_defs)

lemma one_frame_fields:
  "AddPacket (AppInfo_new ''d'') 0 header_frame (Stream_new ''s'' 0) = Inr (one_frame, True)"
  "st_has_video one_frame" "\<not> st_has_audio one_frame" "\<not> st_has_meta one_frame" "st_ready one_frame"
  "st_gop_mgr one_frame = AddFrame stamped GopMgr_new" "st_frame_index one_frame = 0"
  "st_codec_headers one_frame = SaveVideoHeader stamped (CodecHeader_new 0)"
  "st_packet_buffer one_frame = (replicate packet_buffer_size None)[0 := Some stamped]"
  unfolding one_frame_def
  by (simp_all add: AddPacket_def Let_def Stream_new_def stamp_header keep_stamped SetReady_def ProcessHls_def
      AppInfo_new_def store_packet_def packet_buffer_size_def)

lemma one_frame_gop:
  "GetGopByLatency l (AddFrame stamped GopMgr_new) = (if 0 \<le> l then (0, 0) else (-1, 0))"
  by (simp add: IsKeyFrame_def stamped_def packet_type_defs GetGopByLatency_def AddFrame_def GopMgr_new_def
      Let_def header_frame_def video_frame_def int32_id)

lemma one_frame_inv: "stream_inv [stamped] one_frame"
proof -
  have "length ([] :: unit Packet list) + 1 < 2 ^ 31" by simp
  from AddPacket_inv [OF stream_inv_new this one_frame_fields(1)] obtain q where q: "stream_inv [q] one_frame" by auto
  then have "st_packet_buffer one_frame ! 0 = Some q"
    by (simp add: stream_inv_def ring_inv_def packet_buffer_size_def)
  with q show ?thesis by (simp add: one_frame_fields packet_buffer_size_def)
qed

lemma one_frame_next: "pl_out_index u = -1 \<Longrightarrow> GetNextFrame one_frame u = deliver [stamped] u"
  using GetNextFrame_log [OF one_frame_inv, of u] by (simp add: ring_index_def packet_buffer_size_def)

abbreviation new_player :: "unit PlayerUser" where
  "new_player \<equiv> PlayerUser_init (User_new 7 ''peer'' 0)"

lemma new_player_fields [simp]:
  "pl_out_index new_player = -1" "pl_out_frames new_player = []" "pl_meta new_player = None"
  "pl_audio_header new_player = None" "pl_video_header new_player = None" "content_latency new_player = 3000"
  by (simp_all add: PlayerUser_init_def User_new_def User.defs PlayerUser.defs content_latency_def AppInfo_new_def)

lemma one_frame_played: "pl_out_frames (GetFrames 50 one_frame new_player) = [stamped]"
  by (simp add: GetFrames_def HasMedia_def one_frame_fields LocateGop_def one_frame_gop content_latency_def
      take_headers_def take_meta_def take_audio_def take_video_def Let_def CodecHeader_VideoHeader_def
      SaveVideoHeader_def header_before_def CodecHeader_new_def one_frame_next deliver_def)
    (simp_all add: PlayerUser_init_def User_new_def User.defs PlayerUser.defs AppInfo_new_def one_frame_next deliver_def)

text \<open>
  C14. The first frame a player gets is a key frame, wherever in the ring and in the list of
  groups it starts. One length of the log is excepted: at 1001 frames the group of frame 0
  has left the ring but not the list, because \<open>AddPacket\<close> clears expired groups only from
  index 1 on.
\<close>

theorem player_starts_at_key_frame:
  assumes "stream_inv L s" and "pl_out_index u = -1" and "pl_out_frames u = []"
    and "pl_out_frames (GetFrames now s u) \<noteq> []" and "length L \<noteq> packet_buffer_size + 1"
  shows "IsKeyFrame (hd (pl_out_frames (GetFrames now s u)))"
  by (rule first_frame_key [OF assms])

theorem player_starts_at_key_frame_witness:
  "pl_out_frames (GetFrames 50 one_frame new_player) \<noteq> [] \<and>
   IsKeyFrame (hd (pl_out_frames (GetFrames 50 one_frame new_player)))"
proof
  show "pl_out_frames (GetFrames 50 one_frame new_player) \<noteq> []" by (simp add: one_frame_played)
  then show "IsKeyFrame (hd (pl_out_frames (GetFrames 50 one_frame new_player)))"
    by (intro player_starts_at_key_frame [OF one_frame_inv]) (simp_all add: packet_buffer_size_def)
qed

text \<open>
  A player that keeps up misses nothing: when it need not skip and has handed over what
  it had, the next frames it gets are the next ten of the log after its last one.
\<close>

theorem player_reads_on:
  assumes "stream_inv L s" and "HasMedia s" and "0 \<le> pl_out_index u" and "\<not> need_skip s u"
    and "pl_meta u = None" and "pl_audio_header u = None" and "pl_video_header u = None" and "pl_out_frames u = []"
  shows "pl_out_frames (GetFrames now s u) = take 10 (drop (nat (pl_out_index u) + 1) L)"
  by (rule next_frames_contiguous [OF assms])

theorem player_reads_on_witness:
  "pl_out_frames (GetFrames 60 one_frame (new_player\<lparr>pl_out_index := 0\<rparr>)) =
     take 10 (drop (nat (pl_out_index (new_player\<lparr>pl_out_index := 0\<rparr>)) + 1) [stamped])"
proof (rule player_reads_on [OF one_frame_inv])
  show "\<not> need_skip one_frame (new_player\<lparr>pl_out_index := 0\<rparr>)"
    by (simp add: need_skip_def one_frame_fields AddFrame_def GopMgr_new_def stamped_def header_frame_def
        video_frame_def content_latency_def Let_def packet_buffer_size_def int32_id)
      (simp add: PlayerUser_init_def User_new_def User.defs PlayerUser.defs AppInfo_new_def)
qed (simp_all add: HasMedia_def one_frame_fields)

text \<open>
  Where playing starts: \<open>GetGopByLatency\<close> goes back from the newest group of pictures as
  long as the groups are within the latency, and takes the oldest of that run.
\<close>

theorem gop_by_latency:
  assumes "gops g = older @ newer" and "newer \<noteq> []"
    and "\<forall>i \<in> set newer. gop_in_latency content g i"
    and "older \<noteq> [] \<Longrightarrow> \<not> gop_in_latency content g (last older)"
  shows "GetGopByLatency content g = (gi_index (hd newer), int32 (latest_timestamp g - gi_timestamp (hd newer)))"
  by (rule GetGop_found [OF assms])

definition three_gops :: GopMgr where
  "three_gops = GopMgr_new\<lparr>gops := map (\<lambda>t. \<lparr>gi_index = t div 40, gi_timestamp = t\<rparr>) [0, 2000, 4000],
     latest_timestamp := 5000\<rparr>"

theorem gop_by_latency_witness:
  "GetGopByLatency 3000 three_gops =
     (gi_index (hd [\<lparr>gi_index = 50, gi_timestamp = 2000\<rparr>, \<lparr>gi_index = 100, gi_timestamp = 4000\<rparr>]),
      int32 (latest_timestamp three_gops - gi_timestamp (hd [\<lparr>gi_index = 50, gi_timestamp = 2000\<rparr>, \<lparr>gi_index = 100, gi_timestamp = 4000\<rparr>])))"
  by (rule gop_by_latency [where older = "[\<lparr>gi_index = 0, gi_timestamp = 0\<rparr>]"])
    (simp_all add: three_gops_def GopMgr_new_def gop_in_latency_def int32_id)

text \<open>
  C31. Corrected video times are smooth whatever the publisher sends: two neighbours differ by
  less than 100 ms, as long as the times fit 32 bits. (Minus one is the corrector's mark for no
  time yet.)
\<close>

theorem corrected_times_smooth:
  assumes "video_original_timestamp c \<noteq> -1" and "0 \<le> video_corrected_timestamp c"
    and "\<forall>t \<in> set ts. t \<noteq> -1"
    and "video_corrected_timestamp c + int (length ts) * kMaxVideoDeltaTime < 2 ^ 32"
  shows "smooth (video_corrected_timestamp c) (correct_videos ts c)"
  by (rule correct_videos_bounded [OF assms])

theorem corrected_times_smooth_witness:
  "smooth 0 (correct_videos [40, 80, 100000, 60, 90]
     (TimeCorrector_new\<lparr>video_original_timestamp := 0, video_corrected_timestamp := 0\<rparr>))"
  using corrected_times_smooth [of "TimeCorrector_new\<lparr>video_original_timestamp := 0, video_corrected_timestamp := 0\<rparr>"
      "[40, 80, 100000, 60, 90]"] by (simp add: kMaxVideoDeltaTime_def)

text \<open>
  What \<open>PostFrames\<close> counts as posted is exactly what the RTMP context has taken into its
  queue of packets, in the same order: a header or frame is cleared from the player if and
  only if the context accepted it.
\<close>

theorem rtmp_player_takes:
  assumes "rtmp_usable c" and "rtmp_player.all_fit (GetFrames now s u)"
    and "PostFrames RtmpPlayerUser_PushFrame RtmpPlayerUser_PushFrames now s u c = Inr (r, u', c', qs, calls)"
  shows "rtmp_pending c' = rtmp_pending c @ map posted_packet qs"
  by (rule rtmp_player.PostFrames_takes [OF assms])

definition rtmp_player_new :: "RtmpMsgHeader PlayerUser" where
  "rtmp_player_new = PlayerUser_init (User_new 7 ''peer'' 0)"

theorem rtmp_player_takes_witness:
  "\<exists>r u' c' qs calls.
     PostFrames RtmpPlayerUser_PushFrame RtmpPlayerUser_PushFrames 50 (Stream_new ''s'' 0) rtmp_player_new
       (Some (RtmpOut_new, [])) = Inr (r, u', c', qs, calls) \<and>
     rtmp_pending c' = rtmp_pending (Some (RtmpOut_new, [])) @ map posted_packet qs"
proof -
  let ?c = "Some (RtmpOut_new, []) :: rtmp_conn"
  have p: "PostFrames RtmpPlayerUser_PushFrame RtmpPlayerUser_PushFrames 50 (Stream_new ''s'' 0) rtmp_player_new ?c
      = Inr (False, rtmp_player_new, ?c, [], User_Deactive rtmp_player_new)"
    by (simp add: PostFrames_def Stream_new_def)
  have f: "GetFrames 50 (Stream_new ''s'' 0) rtmp_player_new = rtmp_player_new"
    by (simp add: GetFrames_def HasMedia_def Stream_new_def)
  have "rtmp_player.all_fit rtmp_player_new"
    by (simp add: rtmp_player.all_fit_def rtmp_player_new_def PlayerUser_init_def User_new_def User.defs PlayerUser.defs)
  then have "rtmp_player.all_fit (GetFrames 50 (Stream_new ''s'' 0) rtmp_player_new)" by (simp only: f)
  moreover have "rtmp_usable ?c" by (simp add: rtmp_usable_def RtmpOut_new_def)
  ultimately have "rtmp_pending ?c = rtmp_pending ?c @ map posted_packet []" using rtmp_player_takes p by blast
  with p show ?thesis by blast
qed

text \<open>
  A media packet whose chunk stream has had no message before makes the sender follow an
  empty pointer: \<open>PushFrames\<close> asks \<open>BuildChunk\<close> for a compressed header, and that one reads
  the previous header unchecked.
\<close>

theorem rtmp_frame_needs_header:
  assumes "pk_ext p = Some h" and "ro_headers r (rh_cs_id h) = None" and "packet_inv p" and "Ready r"
  shows "RtmpPlayerUser_PushFrames (p # ps) tc (Some (r, sent)) = Inl NullDeref"
  by (rule frame_without_header [OF assms])

definition audio_frame :: RtmpPacket where
  "audio_frame =
     \<lparr>pk_type = 8, pk_size = 2, pk_index = 0, pk_timestamp = 0, pk_capacity = 2,
      pk_ext = Some \<lparr>rh_cs_id = 4, rh_timestamp = 0, rh_msg_len = 2, rh_msg_type = 8, rh_msg_sid = 1\<rparr>,
      pk_data = [0xAF, 1]\<rparr>"

theorem rtmp_frame_needs_header_witness:
  "RtmpPlayerUser_PushFrames [audio_frame] TimeCorrector_new (Some (RtmpOut_new, [])) = Inl NullDeref"
  by (rule rtmp_frame_needs_header [where h = "the (pk_ext audio_frame)"])
    (simp_all add: audio_frame_def RtmpOut_new_def packet_inv_def Ready_def)

end
