(* ===== verification/ServiceProps.thy ===== *)
theory ServiceProps
  imports LiveRun LiveProps
begin

text \<open>
  The properties of the live service: what its players are handed, who its players are, what
  the timer and the end of a connection close, and how a session without a publisher is pulled.
\<close>

section \<open>A service to run\<close>

definition sample_app :: AppInfo where
  "sample_app = AppInfo_new ''d''"

definition sample_config :: Config where
  "sample_config = Config_new\<lparr>cf_domaininfos :=
     [''d'' \<mapsto> \<lparr>di_name = ''d'', di_type = [], di_appinfos = [''a'' \<mapsto> sample_app]\<rparr>]\<rparr>"

lemma sample_session:
  "SplitString ''d/a/s'' ''/'' = [''d'', ''a'', ''s'']"
  "Config_GetAppInfo ''d'' ''a'' sample_config = Some sample_app"
  by (simp_all add: SplitString_def split_rest.simps Config_GetAppInfo_def DomainInfo_GetAppInfo_def sample_config_def sample_app_def
      numeral_2_eq_2)

definition published_service :: "unit Live" where
  "published_service = fst (snd (OnPublish 0 7 ''p'' ''d/a/s'' [] (Live_new sample_config)))"

lemma published_fields:
  "lv_sessions published_service = [(''d/a/s'', 0)]" "lv_next_session published_service = 1"
  "lv_next_user published_service = 1" "lv_ctx published_service = [7 \<mapsto> 0]" "lv_owner published_service = (\<lambda>_. 0)"
  "ss_publisher (lv_objs published_service 0) = Some 0" "ss_name (lv_objs published_service 0) = ''d/a/s''"
  "ss_stream (lv_objs published_service 0) = Stream_new ''d/a/s'' 0" "ss_players (lv_objs published_service 0) = []"
  "ss_app_info (lv_objs published_service 0) = sample_app"
  by (simp_all add: published_service_def OnPublish_def CreateSession_def CreatePublishUser_def sample_session Live_new_def
      new_user_def on_session_def SetPublisher_def Session_new_def fun_eq_iff)

text \<open>A frame is published, a player joins and is activated.\<close>

lemma sample_run:
  obtains L post u qs where "service_run take_one take_many sample_config 4 L (\<lambda>sid. if sid = 0 then [video_frame True] else []) post"
    "lv_next_user L = 2" "lv_owner L 1 = 0" "lv_users L 1 = PlayingUser u" "post 1 = qs"
proof -
  let ?run = "service_run take_one take_many sample_config"
  have s1: "service_step take_one take_many 0 (PublishOp 7 ''p'' ''d/a/s'' []) (Live_new sample_config) =
      Inr (published_service, snd (snd (OnPublish 0 7 ''p'' ''d/a/s'' [] (Live_new sample_config :: unit Live))), [])"
    by (simp add: published_service_def split: prod.split)
  have r1: "?run (Suc 0) published_service (\<lambda>_. []) (\<lambda>_. [])"
    using run_step [OF run_new _ s1] by (simp add: log_packet_def log_posted_def)
  let ?p = "video_frame True"
  obtain st act where a: "AddPacket sample_app 0 ?p (Stream_new ''d/a/s'' 0) = Inr (st, act)"
    using AddPacket_ok video_frame_ok by blast
  define L2 where "L2 = published_service\<lparr>lv_objs := (lv_objs published_service)(0 := (lv_objs published_service 0)\<lparr>ss_stream := st\<rparr>)\<rparr>"
  obtain as2 where s2: "service_step take_one take_many 0 (RecvOp 7 ?p) published_service = Inr (L2, as2, [])"
    by (simp add: OnRecv_def stream_recv_def published_fields a L2_def Let_def)
  have r2: "?run (Suc (Suc 0)) L2 (\<lambda>sid. if sid = 0 then [?p] else []) (\<lambda>_. [])"
    using run_step [OF r1 _ s2] by (simp add: log_packet_def log_posted_def published_fields fun_upd_def)
  obtain L3 as3 u where s3: "service_step take_one take_many 0 (PlayOp 8 ''q'' ''d/a/s'' []) L2 = Inr (L3, as3, [])"
    and L3: "lv_users L3 1 = PlayingUser u" "lv_owner L3 1 = 0" "lv_next_user L3 = 2" "lv_ctx L3 8 = Some 1" "user_type (lv_users L3 1) = kUserTypePlayerRtmp"
    by (simp add: OnPlay_def CreateSession_def CreatePlayerUser_def L2_def published_fields sample_session AddPlayer_def
        IsPublishing_def insert_player_def new_user_def PlayerUser_init_def User.defs PlayerUser.defs named_user_def User_new_def)
  have r3: "?run (Suc (Suc (Suc 0))) L3 (\<lambda>sid. if sid = 0 then [?p] else []) (\<lambda>_. [])"
    using run_step [OF r2 _ s3] by (simp add: log_packet_def log_posted_def)
  obtain r u' c qs cs where p: "PostFrames take_one take_many 50 (ss_stream (lv_objs L3 0)) u () = Inr (r, u', c, qs, cs)"
    using PostFrames_takes_all by blast
  define L4 where "L4 = L3\<lparr>lv_users := (lv_users L3)(1 := PlayingUser u')\<rparr>"
  obtain as4 where s4: "service_step take_one take_many 50 (ActiveOp 8 ()) L3 = Inr (L4, as4, qs)"
    using L3 p by (simp add: OnActive_def post_user_def L4_def less_eq_UserType_def)
  have "?run (Suc (Suc (Suc (Suc 0)))) L4 (\<lambda>sid. if sid = 0 then [?p] else []) ((\<lambda>_. [])(1 := qs))"
    using run_step [OF r3 _ s4] by (simp add: log_packet_def log_posted_def L3(4))
  then show ?thesis using that [of L4 "(\<lambda>_. [])(1 := qs)" u' qs] L3 by (simp add: L4_def numeral_eq_Suc)
qed

section \<open>What goes wrong\<close>

text \<open>
  A connection that asks to play twice gets two users; its end closes the second one only,
  and the first stays a player of the session, which is not idle any more.
\<close>

lemma play_twice_leaks:
  "\<exists>L1 L2 as1 as2. OnPlay 0 8 ''q'' ''d/a/s'' [] published_service = Inr (True, L1, as1) \<and>
     OnPlay 0 8 ''q'' ''d/a/s'' [] L1 = Inr (True, L2, as2) \<and>
     ss_players (lv_objs (fst (OnConnectionDestroy 5 8 L2)) 0) = [1] \<and>
     OnConnectionDestroy 6 8 (fst (OnConnectionDestroy 5 8 L2)) = (fst (OnConnectionDestroy 5 8 L2), [])"
  by (simp add: OnPlay_def CreateSession_def CreatePlayerUser_def published_fields sample_session AddPlayer_def
      IsPublishing_def insert_player_def new_user_def PlayerUser_init_def User.defs PlayerUser.defs named_user_def
      User_new_def OnConnectionDestroy_def on_session_def CloseUser_def is_publish_type_def less_eq_UserType_def)

text \<open>The first player of a session that nobody publishes or can be pulled is closed with the session.\<close>

lemma play_without_source_closes:
  "\<exists>L as. OnPlay 0 8 ''q'' ''d/a/s'' [] (Live_new sample_config :: unit Live) = Inr (True, L, as) \<and>
     as = [ConnCall (ForceClose 8), ConnCall (ActiveConn 8)] \<and> lv_sessions L = []"
  by (simp add: OnPlay_def CreateSession_def CreatePlayerUser_def sample_session AddPlayer_def Live_new_def config_pulls_def
      IsPublishing_def insert_player_def new_user_def PlayerUser_init_def User.defs PlayerUser.defs named_user_def
      User_new_def on_relay_def StartPullStream_def GetTargets_def app_key_def Session_new_def sample_app_def AppInfo_new_def
      CloseSession_def on_session_def Session_Clear_def CloseUserNoLock_def is_publish_type_def less_eq_UserType_def
      obj_Close_def User_Close_def obj_Active_def User_Active_def Relay_new_def)

text \<open>
  When a pulled stream ends, the session still has its publisher: nothing clears it, and the
  relay does not pull again.
\<close>

lemma pulled_stream_stays_dead:
  assumes "ss_publisher (lv_objs L sid) = Some p"
  shows "\<exists>L'. Puller_OnClose now sid L = Inr (L', []) \<and> ss_publisher (lv_objs L' sid) = Some p \<and> lv_sessions L' = lv_sessions L"
  using assms by (simp add: Puller_OnClose_def on_relay_def OnPullClose_def Pull_def IsPublishing_def Let_def)

section \<open>Properties\<close>

text \<open>
  C2. Delivery through the service. Servers, pullers and the timer call the service in any
  order and interleaving: publishers and players come and go, packets arrive, players are
  activated with whatever state their connection is in, sessions time out. Whatever a player
  has been handed are packets its own session was given, in the order they came, each frame
  at most once; packets of no other session reach it.
\<close>

theorem service_delivery:
  assumes "service_run push pushs cfg n L pub post" and "n < 2 ^ 31"
    and "i < lv_next_user L" and "lv_users L i = PlayingUser u"
  shows "\<exists>M is. list_all2 same_media (pub (lv_owner L i)) M \<and> sorted_wrt (<) is \<and> (\<forall>k \<in> set is. k < length M) \<and>
           frames_of (post i) @ pl_out_frames u = map ((!) M) is \<and> (\<forall>q \<in> set (post i). posted_packet q \<in> set M)"
  by (rule service_run_log [OF assms])

theorem service_delivery_witness:
  "\<exists>post u M is. list_all2 same_media [video_frame True] M \<and> sorted_wrt (<) is \<and>
     frames_of post @ pl_out_frames (u :: unit PlayerUser) = map ((!) M) is \<and> list_all (\<lambda>q. posted_packet q \<in> set M) post"
proof (rule sample_run)
  fix L post u qs
  assume run: "service_run take_one take_many sample_config 4 L (\<lambda>sid. if sid = 0 then [video_frame True] else []) post"
    and L: "lv_next_user L = 2" "lv_owner L 1 = 0" "lv_users L 1 = PlayingUser u"
  from service_delivery [OF run _ _ L(3)] L(1,2) show ?thesis unfolding list_all_iff by force
qed

text \<open>
  C3. The players of a session. However the service got there, the players a session activates
  are exactly the player users created in it that have not been closed, each once; a session
  that has players is registered under its name; and a publisher that has been closed is still
  the session's publisher only if a puller provided it, with the type of a player.
\<close>

theorem service_players_exact:
  assumes "service_run push pushs cfg n L pub post" and "sid < lv_next_session L"
  shows "distinct (ss_players (lv_objs L sid)) \<and>
     set (ss_players (lv_objs L sid)) = {i. i < lv_next_user L \<and> lv_owner L i = sid \<and> live_player (lv_users L i)} \<and>
     (ss_players (lv_objs L sid) = [] \<or> FindSession (ss_name (lv_objs L sid)) L = Some sid) \<and>
     (case ss_publisher (lv_objs L sid) of None \<Rightarrow> True
      | Some p \<Rightarrow> lv_owner L p = sid \<and> \<not> is_player (lv_users L p) \<and>
                 (\<not> destroyed (lv_users L p) \<or> user_type (lv_users L p) \<notin>
                    {kUserTypePublishRtmp, kUserTypePublishMpegts, kUserTypePublishPav, kUserTypePublishWebRtc}))"
  by (rule service_run_players [OF assms])

theorem service_players_exact_witness:
  "\<exists>L. set (ss_players (lv_objs L 0)) = {i. i < lv_next_user L \<and> lv_owner L i = 0 \<and> live_player (lv_users (L :: unit Live) i)} \<and>
       lv_next_session L > 0"
proof (rule sample_run)
  fix L post u qs
  assume run: "service_run take_one take_many sample_config 4 L (\<lambda>sid. if sid = 0 then [video_frame True] else []) post"
    and L: "lv_next_user L = 2" "lv_owner L 1 = 0" "lv_users L 1 = PlayingUser u"
  have "lv_owner L 1 < lv_next_session L" using service_run_inv [OF run] L(1) by (simp add: service_inv_def users_ok_def)
  then have "0 < lv_next_session L" by simp
  with service_players_exact [OF run this] show ?thesis by blast
qed

text \<open>
  C11. The timer. Of the registered sessions those stay that have neither been without data for
  twenty seconds nor without players for the idle time of their application, and they are
  not touched. Each of the others closes the connection of its publisher, if that was open,
  and of its players, every one once; those users are marked closed and no other is.
\<close>

theorem service_timer:
  assumes "service_run push pushs cfg n L pub post" and "OnTimer now L = (L', as)"
  defines "out \<equiv> filter (timed_out now L) (lv_sessions L)"
  shows "lv_sessions L' = filter (\<lambda>e. \<not> timed_out now L e) (lv_sessions L) \<and>
     lv_users L' = marked (set (closing_all L out)) (lv_users L) \<and>
     as = map ConnCall (concat (map (\<lambda>i. obj_Close (lv_users L i)) (closing_all L out))) \<and>
     (\<forall>sid. sid \<notin> snd ` set out \<longrightarrow> lv_objs L' sid = lv_objs L sid)"
  unfolding out_def by (rule OnTimer_effect [OF service_run_inv [OF assms(1)] assms(2)])

theorem service_timer_witness:
  "\<exists>L'. OnTimer 20001 published_service = (L', [ConnCall (ForceClose 7)]) \<and> lv_sessions L' = []"
proof -
  have s: "service_step take_one take_many 0 (PublishOp 7 ''p'' ''d/a/s'' []) (Live_new sample_config) =
      Inr (published_service, snd (snd (OnPublish 0 7 ''p'' ''d/a/s'' [] (Live_new sample_config :: unit Live))), [])"
    by (simp add: published_service_def split: prod.split)
  have run: "service_run take_one take_many sample_config (Suc 0) published_service (\<lambda>_. []) (\<lambda>_. [])"
    using run_step [OF run_new _ s] by (simp add: log_packet_def log_posted_def)
  obtain L' as where t: "OnTimer 20001 published_service = (L', as)" by fastforce
  have user: "\<not> destroyed (lv_users published_service 0)" "user_conn (lv_users published_service 0) = Some 7"
    by (simp_all add: published_service_def OnPublish_def CreateSession_def CreatePublishUser_def sample_session Live_new_def
        new_user_def on_session_def SetPublisher_def Session_new_def named_user_def User_new_def)
  show ?thesis
    using service_timer [OF run t] t
    by (simp add: published_fields timed_out_def IsTimeout_def Stream_Timeout_def Stream_new_def closing_all_def closing_def
        open_publisher_def user obj_Close_def User_Close_def)
qed

text \<open>
  C12. A connection ends. Its user is closed, once and for all: a user that was open is marked
  destroyed and its connection closed, and it leaves its session. That session loses its
  publisher, if the user was of a publishing type, and otherwise the player, whose leaving
  starts its idle time; nothing else of it, no other session, no other user, no connection's
  user and no registration changes. A user that was closed before changes nothing at all, and
  neither does reporting the end again. Afterwards the user plays in no session.
\<close>

theorem service_connection_ends:
  assumes "service_run push pushs cfg n L pub post" and "lv_ctx L conn = Some i"
    and "OnConnectionDestroy now conn L = (L', as)"
  shows "lv_users L' = (lv_users L)(i := set_destroyed (lv_users L i)) \<and>
     as = (if destroyed (lv_users L i) then [] else [ConnCall (ForceClose conn)]) \<and>
     (\<forall>sid < lv_next_session L. ss_players (lv_objs L' sid) = removeAll i (ss_players (lv_objs L sid))) \<and>
     (\<forall>sid. sid \<noteq> lv_owner L i \<longrightarrow> lv_objs L' sid = lv_objs L sid) \<and>
     L' = (if destroyed (lv_users L i) then L
           else L\<lparr>lv_users := lv_users L', lv_objs := (lv_objs L)(lv_owner L i := left_by now i (lv_users L i) (lv_objs L (lv_owner L i)))\<rparr>) \<and>
     OnConnectionDestroy later conn L' = (L', [])"
  by (rule OnConnectionDestroy_effect [OF service_run_inv [OF assms(1)] assms(2,3)])

theorem service_connection_ends_witness:
  "\<exists>L'. OnConnectionDestroy 5 7 published_service = (L', [ConnCall (ForceClose 7)]) \<and>
        OnConnectionDestroy 6 7 L' = (L', [])"
proof -
  have s: "service_step take_one take_many 0 (PublishOp 7 ''p'' ''d/a/s'' []) (Live_new sample_config) =
      Inr (published_service, snd (snd (OnPublish 0 7 ''p'' ''d/a/s'' [] (Live_new sample_config :: unit Live))), [])"
    by (simp add: published_service_def split: prod.split)
  have run: "service_run take_one take_many sample_config (Suc 0) published_service (\<lambda>_. []) (\<lambda>_. [])"
    using run_step [OF run_new _ s] by (simp add: log_packet_def log_posted_def)
  obtain L' as where t: "OnConnectionDestroy 5 7 published_service = (L', as)" by fastforce
  have user: "\<not> destroyed (lv_users published_service 0)"
    by (simp add: published_service_def OnPublish_def CreateSession_def CreatePublishUser_def sample_session Live_new_def
        new_user_def on_session_def SetPublisher_def Session_new_def named_user_def User_new_def)
  show ?thesis
    using service_connection_ends [OF run _ t, of 0 6] t by (simp add: published_fields user)
qed

text \<open>
  C13. Pulling. While nobody publishes, every event, a player that joins or a pull that ends,
  makes one try, and the tries are those of the plan: the targets of the application in their
  order, each once and then as often as it may be retried. All that is done to pullers, the
  timer and the session is observed: a try pulls the target's url with the target's puller at
  once, when its counter or its interval is zero, and sets the timer with that puller
  otherwise; the first try of a target deletes the puller of the one before. After the last try
  every further event closes the session, and still pulls the last target once more
  (\<open>PullerRelay.cc:98\<close>, a finding).
\<close>

theorem relay_tries_targets_in_order:
  assumes "ts \<noteq> []" and "ports_known ts"
  shows "\<exists>ts' r'. relay_run name (PlayerJoins # es) ts Relay_new =
           Inr (follows_plan (past_plan name ts) (relay_plan name ts) (Suc (length es)), ts', r')"
  by (rule relay_new_run [OF assms])

theorem relay_tries_targets_in_order_witness:
  "\<exists>ts' r'. relay_run ''d/a/s'' (PlayerJoins # [PullEnds, PlayerJoins, PullEnds, PlayerJoins]) [slow_target, slow_target] Relay_new =
     Inr ([(Some 0, [PullFrom 0 ''rtmp://h:1935/d/a/s'']), (Some 0, [PullAfter 1000 (Some 0) 0]),
           (Some 1, [FreePuller 0, PullFrom 1 ''rtmp://h:1935/d/a/s'']), (Some 1, [PullAfter 1000 (Some 1) 1]),
           (Some 1, [CloseThisSession, PullAfter 1000 (Some 1) 1])], ts', r')"
proof -
  have url: "target_url ''d/a/s'' slow_target = ''rtmp://h:1935/d/a/s''"
    by (simp add: target_url_def slow_target_def Target_new_def name_stream_def SplitString_def split_rest.simps
        decimal.simps [of 1935] decimal.simps [of 193] decimal.simps [of 19] decimal.simps [of "Suc 0"])
  have f: "tg_retry slow_target = 0" "tg_interval slow_target = 1000" "retries_left slow_target = 1"
    "is_rtmp (tg_protocol slow_target)"
    by (simp_all add: slow_target_def Target_new_def retries_left_def is_rtmp_def)
  have "follows_plan (past_plan ''d/a/s'' [slow_target, slow_target]) (relay_plan ''d/a/s'' [slow_target, slow_target])
       (Suc (length [PullEnds, PlayerJoins, PullEnds, PlayerJoins])) =
     [(Some 0, [PullFrom 0 ''rtmp://h:1935/d/a/s'']), (Some 0, [PullAfter 1000 (Some 0) 0]),
      (Some 1, [FreePuller 0, PullFrom 1 ''rtmp://h:1935/d/a/s'']), (Some 1, [PullAfter 1000 (Some 1) 1]),
      (Some 1, [CloseThisSession, PullAfter 1000 (Some 1) 1])]"
    by (simp add: follows_plan_def relay_plan_def past_plan_def target_plan_def try_acts_def frees_def puller_of_def
        pullers_before_def f url numeral_2_eq_2)
  moreover have "[slow_target, slow_target] \<noteq> []" "ports_known [slow_target, slow_target]"
    by (simp_all add: ports_known_def slow_target_def)
  note relay_tries_targets_in_order [OF this, of "''d/a/s''" "[PullEnds, PlayerJoins, PullEnds, PlayerJoins]"]
  ultimately show ?thesis by simp
qed

end
