(* ===== verification/FlvPlayer.thy ===== *)
theory FlvPlayer
  imports PlayerSink Flv
begin

text \<open>
  \<open>live/user/FlvPlayerUser.cc\<close>: a player over FLV. It shares the control flow of \<open>Player\<close> and
  sends the headers of the response before the first frame. A context is absent before the
  connection has set it; what was handed to the connection is kept with it.
\<close>

section \<open>The FLV player\<close>

type_synonym 'e flv_conn = "('e FlvContext \<times> bytes list) option"

definition flv_send :: "'e FlvContext \<Rightarrow> bytes list \<Rightarrow> 'e flv_conn" where
  "flv_send c sent = (case FlvContext_Send c of (c, bs) \<Rightarrow> Some (c, sent @ bs))"

text \<open>The time is 64 bits wide in \<open>PushFrame\<close> and 32 where \<open>BuildFlvFrame\<close> takes it.\<close>

definition FlvPlayerUser_PushFrame ::
    "bool \<Rightarrow> 'e Packet \<Rightarrow> TimeCorrector \<Rightarrow> 'e flv_conn \<Rightarrow> (bool \<times> TimeCorrector \<times> 'e flv_conn) result" where
  "FlvPlayerUser_PushFrame is_header p tc cx =
     (case cx of None \<Rightarrow> Inr (False, tc, cx) | Some (c, sent) \<Rightarrow>
        if \<not> FlvContext_Ready c then Inr (False, tc, cx)
        else rbind (if is_header then Inr (0, tc) else CorrectTimestamp p tc) (\<lambda>(ts, tc).
             rbind (BuildFlvFrame p (word_of_int ts) c) (\<lambda>c. Inr (True, tc, flv_send c sent))))"

fun flv_build_frames :: "'e Packet list \<Rightarrow> TimeCorrector \<Rightarrow> 'e FlvContext \<Rightarrow> (TimeCorrector \<times> 'e FlvContext) result" where
  "flv_build_frames [] tc c = Inr (tc, c)"
| "flv_build_frames (p # ps) tc c =
     rbind (CorrectTimestamp p tc) (\<lambda>(ts, tc). rbind (BuildFlvFrame p (word_of_int ts) c) (\<lambda>c.
       flv_build_frames ps tc c))"

definition FlvPlayerUser_PushFrames :: "('e, 'e flv_conn) push_frames" where
  "FlvPlayerUser_PushFrames ps tc cx =
     (case cx of None \<Rightarrow> Inr (False, tc, cx) | Some (c, sent) \<Rightarrow>
        if \<not> FlvContext_Ready c then Inr (False, tc, cx)
        else rbind (flv_build_frames ps tc c) (\<lambda>(tc, c). Inr (True, tc, flv_send c sent)))"

text \<open>\<open>PostFrames\<close> pushes single packets as headers only.\<close>

definition flv_push_header :: "('e, 'e flv_conn) push_frame" where
  "flv_push_header p cx = rbind (FlvPlayerUser_PushFrame True p TimeCorrector_new cx) (\<lambda>(ok, _, cx). Inr (ok, cx))"

text \<open>\<open>http_header_sent_\<close> is kept beside the connection, and returned with it.\<close>

definition PushFlvHttpHeader :: "'e Stream \<Rightarrow> bool \<times> 'e flv_conn \<Rightarrow> (bool \<times> 'e flv_conn) result" where
  "PushFlvHttpHeader s hcx =
     (case hcx of (sent_header, cx) \<Rightarrow>
      case cx of None \<Rightarrow> Inr (sent_header, cx) | Some (c, sent) \<Rightarrow>
        rbind (SendFlvHttpHeader (st_has_video s) (st_has_audio s) c) (\<lambda>(c, bs). Inr (True, Some (c, sent @ bs))))"

definition FlvPlayerUser_PostFrames ::
    "int \<Rightarrow> 'e Stream \<Rightarrow> 'e PlayerUser \<Rightarrow> bool \<times> 'e flv_conn \<Rightarrow>
     (bool \<times> 'e PlayerUser \<times> (bool \<times> 'e flv_conn) \<times> 'e posted list \<times> conn_call list) result" where
  "FlvPlayerUser_PostFrames now s u hcx =
     (if \<not> st_ready s \<or> \<not> HasMedia s then Inr (False, u, hcx, [], User_Deactive u)
      else if \<not> fst hcx
      then rbind (PushFlvHttpHeader s hcx) (\<lambda>hcx. Inr (False, u, hcx, [], []))
      else rbind (post_pending flv_push_header FlvPlayerUser_PushFrames (GetFrames now s u) (snd hcx))
             (\<lambda>(u, cx, ps, calls). Inr (True, u, (True, cx), ps, calls)))"

section \<open>The context as a sink\<close>

definition flv_pending :: "'e flv_conn \<Rightarrow> 'e Packet list" where
  "flv_pending cx = (case cx of None \<Rightarrow> [] | Some (c, _) \<Rightarrow> fl_out_packets c)"

lemma BuildFlvFrame_keeps:
  assumes "BuildFlvFrame p ts c = Inr c'"
  shows "fl_out_packets c' = fl_out_packets c @ [p]"
  using assms by (auto simp: BuildFlvFrame_def flv_put_def slice_checked_def Let_def split: if_splits)

lemma flv_build_frames_keeps:
  "flv_build_frames ps tc c = Inr (tc', c') \<Longrightarrow> fl_out_packets c' = fl_out_packets c @ ps"
proof (induction ps arbitrary: tc c)
  case (Cons p ps)
  then obtain ts tc1 c1 where "BuildFlvFrame p (word_of_int ts) c = Inr c1" "flv_build_frames ps tc1 c1 = Inr (tc', c')"
    by (auto simp: result_simps)
  with BuildFlvFrame_keeps [OF this(1)] Cons.IH [OF this(2)] show ?case by simp
qed simp

lemma flv_send_pending [simp]: "flv_pending (flv_send c sent) = fl_out_packets c"
  by (simp add: flv_pending_def flv_send_def FlvContext_Send_def)

interpretation flv_player: frame_sink flv_push_header FlvPlayerUser_PushFrames flv_pending "\<lambda>_. True" "\<lambda>_. True"
proof unfold_locales
  fix c :: "'a flv_conn" and p ok c'
  assume "flv_push_header p c = Inr (ok, c')"
  then show "True \<and> flv_pending c' = flv_pending c @ (if ok then [p] else [])"
    by (auto simp: flv_push_header_def FlvPlayerUser_PushFrame_def result_simps flv_pending_def [of "Some _"] BuildFlvFrame_keeps
        split: option.splits if_splits)
next
  fix c :: "'a flv_conn" and ps tc ok tc' c'
  assume "FlvPlayerUser_PushFrames ps tc c = Inr (ok, tc', c')"
  then show "True \<and> flv_pending c' = flv_pending c @ (if ok then ps else [])"
    by (auto simp: FlvPlayerUser_PushFrames_def result_simps flv_pending_def [of "Some _"] flv_build_frames_keeps
        split: option.splits if_splits)
qed

lemma FlvPlayerUser_PostFrames_takes:
  assumes "FlvPlayerUser_PostFrames now s u (True, cx) = Inr (r, u', hcx', qs, calls)"
  shows "flv_pending (snd hcx') = flv_pending cx @ map posted_packet qs"
proof (cases "st_ready s \<and> HasMedia s")
  case True
  with assms obtain cx' where "post_pending flv_push_header FlvPlayerUser_PushFrames (GetFrames now s u) cx = Inr (u', cx', qs, calls)"
    "hcx' = (True, cx')" by (auto simp: FlvPlayerUser_PostFrames_def result_simps)
  with flv_player.post_pending_takes [OF TrueI _ this(1)] show ?thesis
    by (simp add: flv_player.all_fit_def list_all_iff)
qed (use assms in \<open>auto simp: FlvPlayerUser_PostFrames_def\<close>)

section \<open>What a player can hold\<close>

text \<open>The packets a stream keeps and the ones a player has taken from it.\<close>

definition kept_packets :: "'e Stream \<Rightarrow> 'e Packet set" where
  "kept_packets s =
     {p. Some p \<in> set (st_packet_buffer s)} \<union>
     (case st_codec_headers s of h \<Rightarrow>
        set (ch_meta_packets h) \<union> set (ch_audio_header_packets h) \<union> set (ch_video_header_packets h) \<union>
        set_option (ch_meta h) \<union> set_option (ch_audio_header h) \<union> set_option (ch_video_header h))"

definition held_packets :: "'e PlayerUser \<Rightarrow> 'e Packet set" where
  "held_packets u = set_option (pl_meta u) \<union> set_option (pl_audio_header u) \<union> set_option (pl_video_header u) \<union>
     set (pl_out_frames u)"

definition ring_ok :: "'e Stream \<Rightarrow> bool" where
  "ring_ok s \<longleftrightarrow> length (st_packet_buffer s) = packet_buffer_size"

lemma header_before_from: "header_before i ps n = Some p \<Longrightarrow> p \<in> set ps \<union> set_option n"
  by (auto simp: header_before_def find_Some_iff split: if_splits option.splits)
    (metis length_rev nth_mem set_rev)

lemma codec_lookup_kept:
  "CodecHeader_Meta i (st_codec_headers s) = Some p \<Longrightarrow> p \<in> kept_packets s"
  "CodecHeader_AudioHeader i (st_codec_headers s) = Some p \<Longrightarrow> p \<in> kept_packets s"
  "CodecHeader_VideoHeader i (st_codec_headers s) = Some p \<Longrightarrow> p \<in> kept_packets s"
  using header_before_from [of i _ _ p]
  by (fastforce simp: CodecHeader_Meta_def CodecHeader_AudioHeader_def CodecHeader_VideoHeader_def kept_packets_def)+

lemma next_frames_held:
  assumes "ring_ok s"
  shows "held_packets (next_frames n s i u) \<subseteq> held_packets u \<union> kept_packets s \<and>
         length (pl_out_frames (next_frames n s i u)) \<le> length (pl_out_frames u) + n"
  using assms
proof (induction n s i u rule: next_frames.induct)
  case (2 n s i u)
  have "nat (uint32 i mod int packet_buffer_size) < length (st_packet_buffer s)"
    using 2(2) by (simp add: ring_ok_def packet_buffer_size_def nat_less_iff)
  then have k: "st_packet_buffer s ! nat (uint32 i mod int packet_buffer_size) = Some p \<Longrightarrow> p \<in> kept_packets s" for p
    by (auto simp: kept_packets_def dest: nth_mem)
  show ?case
  proof (cases "i > st_frame_index s \<or> st_packet_buffer s ! nat (uint32 i mod int packet_buffer_size) = None")
    case True
    then show ?thesis by auto
  next
    case False
    then obtain p where p: "st_packet_buffer s ! nat (uint32 i mod int packet_buffer_size) = Some p" by auto
    have "held_packets (u\<lparr>pl_out_frames := pl_out_frames u @ [p], pl_out_index := pk_index p,
        pl_out_frame_timestamp := int32 (sint (pk_timestamp p))\<rparr>) = insert p (held_packets u)"
      by (auto simp: held_packets_def)
    with 2(1) [OF _ p 2(2)] k [OF p] False p show ?thesis by auto
  qed
qed simp

lemma take_held:
  "held_packets (take_meta i s u) \<subseteq> held_packets u \<union> kept_packets s"
  "held_packets (take_audio i s u) \<subseteq> held_packets u \<union> kept_packets s"
  "held_packets (take_video i s u) \<subseteq> held_packets u \<union> kept_packets s"
  using codec_lookup_kept [of i s]
  by (auto simp: take_meta_def take_audio_def take_video_def Let_def held_packets_def split: option.splits)

lemma take_headers_held: "held_packets (take_headers i s u) \<subseteq> held_packets u \<union> kept_packets s"
  unfolding take_headers_def
  using take_held(1) [of i s u] take_held(2) [of i s "take_meta i s u"]
    take_held(3) [of i s "take_audio i s (take_meta i s u)"] by blast

lemma take_headers_frames: "pl_out_frames (take_headers i s u) = pl_out_frames u"
  by (simp add: take_headers_def take_frames)

lemma LocateGop_held:
  assumes "LocateGop now s u = (found, u')"
  shows "held_packets u' \<subseteq> held_packets u \<union> kept_packets s \<and> pl_out_frames u' = pl_out_frames u"
proof -
  obtain idx l where g: "GetGopByLatency (content_latency u) (st_gop_mgr s) = (idx, l)" by fastforce
  let ?v = "u\<lparr>pl_out_index := idx - 1\<rparr>"
  have "held_packets ?v = held_packets u" by (simp add: held_packets_def)
  with take_headers_held [of idx s ?v] have t: "held_packets (take_headers idx s ?v) \<subseteq> held_packets u \<union> kept_packets s" by simp
  have w: "held_packets (wait_timed_out now v) = held_packets v" "pl_out_frames (wait_timed_out now v) = pl_out_frames v" for v :: "'a PlayerUser"
    by (simp_all add: wait_timed_out_def held_packets_def)
  have m: "held_packets (v\<lparr>pl_wait_meta := a, pl_wait_audio := b, pl_wait_video := c, pl_out_version := x\<rparr>) = held_packets v"
    for v :: "'a PlayerUser" and a b c x by (simp add: held_packets_def)
  show ?thesis
    using assms t by (auto simp: LocateGop_def g Let_def w m take_headers_frames split: if_splits)
qed

lemma SkipFrame_held:
  "held_packets (SkipFrame s u) \<subseteq> held_packets u \<union> kept_packets s \<and> pl_out_frames (SkipFrame s u) = pl_out_frames u"
proof -
  obtain idx l where g: "GetGopByLatency (content_latency u) (st_gop_mgr s) = (idx, l)" by fastforce
  show ?thesis
    using codec_lookup_kept [of idx s]
    by (auto simp: SkipFrame_def g Let_def held_packets_def split: option.splits)
qed

lemma GetFrames_held:
  assumes "ring_ok s"
  shows "held_packets (GetFrames now s u) \<subseteq> held_packets u \<union> kept_packets s \<and>
         length (pl_out_frames (GetFrames now s u)) \<le> max 10 (length (pl_out_frames u))"
proof -
  have nxt: "held_packets (GetNextFrame s v) \<subseteq> held_packets u \<union> kept_packets s \<and>
      length (pl_out_frames (GetNextFrame s v)) \<le> 10"
    if "held_packets v \<subseteq> held_packets u \<union> kept_packets s" "pl_out_frames v = []" for v
    using next_frames_held [OF assms, of 10 "pl_out_index v + 1" v] that by (auto simp: GetNextFrame_def)
  show ?thesis
  proof (cases "HasMedia s \<and> pl_meta u = None \<and> pl_audio_header u = None \<and> pl_video_header u = None \<and> pl_out_frames u = []")
    case False
    then show ?thesis by (auto simp: GetFrames_def)
  next
    case True
    obtain found v where v: "LocateGop now s u = (found, v)" by fastforce
    have l: "held_packets v \<subseteq> held_packets u \<union> kept_packets s" "pl_out_frames v = pl_out_frames u"
      using LocateGop_held [OF v] by simp_all
    have k: "held_packets (SkipFrame s u) \<subseteq> held_packets u \<union> kept_packets s" "pl_out_frames (SkipFrame s u) = pl_out_frames u"
      using SkipFrame_held [of s u] by simp_all
    have e: "GetFrames now s u = (if pl_out_index u \<ge> 0 then GetNextFrame s (if need_skip s u then SkipFrame s u else u)
        else if found then GetNextFrame s v else v)"
      using True v by (simp add: GetFrames_def)
    from True have f: "pl_out_frames u = []" by simp
    show ?thesis
    proof (cases "pl_out_index u \<ge> 0")
      case True
      have "held_packets (if need_skip s u then SkipFrame s u else u) \<subseteq> held_packets u \<union> kept_packets s"
        using k(1) by simp
      moreover have "pl_out_frames (if need_skip s u then SkipFrame s u else u) = []" using k(2) f by simp
      ultimately show ?thesis using nxt e True f by simp
    next
      case False
      then show ?thesis using nxt [OF l(1)] l f e by (cases found) simp_all
    qed
  qed
qed

section \<open>What the connection gets\<close>

lemma flv_build_frames_ok:
  assumes "\<forall>p \<in> set ps. flv_fits p" and "fl_current c + 15 * length ps \<le> flv_out_size"
  shows "\<exists>tc' c' tags. flv_build_frames ps tc c = Inr (tc', c') \<and>
           concat (fl_bufs c') = concat (fl_bufs c) @ concat (map flv_encode tags) \<and> fl_sending c' = fl_sending c \<and>
           tags_from (fl_previous_size c) tags \<and> fl_previous_size c' = size_after (fl_previous_size c) tags \<and>
           list_all2 tag_carries tags ps"
  using assms
proof (induction ps arbitrary: tc c)
  case Nil
  then show ?case by (intro exI [of _ tc] exI [of _ c] exI [of _ "[]"]) simp
next
  case (Cons p ps)
  have p: "packet_inv p" using Cons.prems(1) by (simp add: flv_fits_def)
  then obtain b where "IsCodecHeader p = Inr b" using codec_utils_ok(1) by blast
  then obtain ts tc1 where t: "CorrectTimestamp p tc = Inr (ts, tc1)"
    by (metis CorrectTimestamp_def rbind_simps(2) surj_pair)
  let ?t = "built_tag (fl_previous_size c) p (word_of_int ts)"
  obtain c1 where c1: "BuildFlvFrame p (word_of_int ts) c = Inr c1"
    "concat (fl_bufs c1) = concat (fl_bufs c) @ flv_encode ?t" "fl_current c1 = fl_current c + 15"
    "fl_sending c1 = fl_sending c" "fl_previous_size c1 = of_nat (pk_size p) + 11"
    using BuildFlvFrame_ok [OF p, of c "word_of_int ts"] Cons.prems(2) by auto
  have sz: "length (tag_data ?t) = pk_size p" using p by (simp add: built_tag_def payload_def packet_inv_def)
  obtain tc' c' tags where r: "flv_build_frames ps tc1 c1 = Inr (tc', c')"
    "concat (fl_bufs c') = concat (fl_bufs c1) @ concat (map flv_encode tags)" "fl_sending c' = fl_sending c1"
    "tags_from (fl_previous_size c1) tags" "fl_previous_size c' = size_after (fl_previous_size c1) tags"
    "list_all2 tag_carries tags ps"
    using Cons.IH [of c1 tc1] Cons.prems c1(3) by auto
  have "tags_from (fl_previous_size c) (?t # tags)"
    using r(4) c1(5) sz by (simp add: built_tag_def)
  moreover have "fl_previous_size c' = size_after (fl_previous_size c) (?t # tags)"
    using r(5) c1(5) sz by simp
  ultimately show ?case
    using t c1 r built_tag_carries [of p "fl_previous_size c" "word_of_int ts"] Cons.prems(1)
    by (intro exI [of _ tc'] exI [of _ c'] exI [of _ "?t # tags"]) simp
qed

text \<open>
  The state of the response: nothing is left unsent in a context that is ready, and what was
  sent so far are the headers and one tag for each packet posted.
\<close>

definition flv_conn_inv :: "bool \<times> 'e flv_conn \<Rightarrow> 'e posted list \<Rightarrow> bool" where
  "flv_conn_inv hcx ps \<longleftrightarrow>
     (case hcx of (_, None) \<Rightarrow> ps = []
      | (sent_header, Some (c, sent)) \<Rightarrow>
          (fl_sending c \<or> fl_current c = 0 \<and> fl_bufs c = []) \<and>
          (if sent_header
           then \<exists>hv ha tags. concat sent = flv_response hv ha tags \<and> tags_from 0 tags \<and>
                  fl_previous_size c = size_after 0 tags \<and> list_all2 tag_carries tags (map posted_packet ps)
           else sent = [] \<and> ps = [] \<and> fl_previous_size c = 0 \<and> \<not> fl_sending c))"

lemma response_grows:
  assumes "flv_conn_inv (True, Some (c, sent)) ps" and "FlvContext_Ready c"
    and "concat bs = concat (map flv_encode tags)" and "tags_from (fl_previous_size c) tags"
    and "fl_previous_size c' = size_after (fl_previous_size c) tags" and "list_all2 tag_carries tags (map posted_packet qs)"
    and "fl_sending c'"
  shows "flv_conn_inv (True, Some (c', sent @ bs)) (ps @ qs)"
proof -
  from assms(1) obtain hv ha old where o: "concat sent = flv_response hv ha old" "tags_from 0 old"
    "fl_previous_size c = size_after 0 old" "list_all2 tag_carries old (map posted_packet ps)"
    by (auto simp: flv_conn_inv_def)
  have "concat (sent @ bs) = flv_response hv ha (old @ tags)" using o(1) assms(3) by (simp add: flv_response_def)
  moreover have "tags_from 0 (old @ tags)" using o(2,3) assms(4) by simp
  moreover have "fl_previous_size c' = size_after 0 (old @ tags)"
    using o(3) assms(5) by (cases "tags = []") (simp_all add: size_after_def)
  moreover have "list_all2 tag_carries (old @ tags) (map posted_packet (ps @ qs))"
    using o(4) assms(6) by (simp add: list_all2_appendI)
  ultimately have "\<exists>hv ha tags. concat (sent @ bs) = flv_response hv ha tags \<and> tags_from 0 tags \<and>
      fl_previous_size c' = size_after 0 tags \<and> list_all2 tag_carries tags (map posted_packet (ps @ qs))"
    by blast
  then show ?thesis using assms(7) by (simp only: flv_conn_inv_def prod.case option.case if_True simp_thms)
qed

lemma flv_push_header_ok:
  assumes "flv_conn_inv (True, cx) ps" and "flv_fits p"
  shows "\<exists>ok cx'. flv_push_header p cx = Inr (ok, cx') \<and> flv_conn_inv (True, cx') (ps @ (if ok then [PostedHeader p] else []))"
proof (cases "\<exists>c sent. cx = Some (c, sent) \<and> FlvContext_Ready c")
  case True
  then obtain c sent where cx: "cx = Some (c, sent)" "FlvContext_Ready c" by auto
  then have c: "fl_current c = 0" "fl_bufs c = []" "\<not> fl_sending c"
    using assms(1) by (auto simp: flv_conn_inv_def FlvContext_Ready_def)
  have p: "packet_inv p" using assms(2) by (simp add: flv_fits_def)
  let ?t = "built_tag (fl_previous_size c) p 0"
  obtain c1 where c1: "BuildFlvFrame p 0 c = Inr c1" "concat (fl_bufs c1) = flv_encode ?t"
    "fl_sending c1 = fl_sending c" "fl_previous_size c1 = of_nat (pk_size p) + 11"
    using BuildFlvFrame_ok [OF p, of c 0] c by (auto simp: flv_out_size_def)
  have sz: "length (tag_data ?t) = pk_size p" using p by (simp add: built_tag_def payload_def packet_inv_def)
  have "flv_conn_inv (True, Some (c1\<lparr>fl_sending := True\<rparr>, sent @ fl_bufs c1)) (ps @ [PostedHeader p])"
    using assms cx c1 sz built_tag_carries [of p "fl_previous_size c" 0]
    by (intro response_grows [where c = c and tags = "[?t]"]) (simp_all add: built_tag_def)
  then show ?thesis
    using cx c1 c(3)
    by (intro exI [of _ True]) (simp add: flv_push_header_def FlvPlayerUser_PushFrame_def flv_send_def FlvContext_Send_def)
next
  case False
  then show ?thesis
    using assms(1) by (auto simp: flv_push_header_def FlvPlayerUser_PushFrame_def split: option.splits)
qed

lemma FlvPlayerUser_PushFrames_ok:
  assumes "flv_conn_inv (True, cx) ps" and "\<forall>p \<in> set fs. flv_fits p" and "length fs \<le> 34"
  shows "\<exists>ok tc' cx'. FlvPlayerUser_PushFrames fs tc cx = Inr (ok, tc', cx') \<and>
           flv_conn_inv (True, cx') (ps @ (if ok then map PostedFrame fs else []))"
proof (cases "\<exists>c sent. cx = Some (c, sent) \<and> FlvContext_Ready c")
  case True
  then obtain c sent where cx: "cx = Some (c, sent)" "FlvContext_Ready c" by auto
  then have c: "fl_current c = 0" "fl_bufs c = []" "\<not> fl_sending c"
    using assms(1) by (auto simp: flv_conn_inv_def FlvContext_Ready_def)
  have "fl_current c + 15 * length fs \<le> flv_out_size" using c(1) assms(3) by (simp add: flv_out_size_def)
  from flv_build_frames_ok [OF assms(2) this, of tc] obtain tc' c1 tags where
    c1: "flv_build_frames fs tc c = Inr (tc', c1)" "concat (fl_bufs c1) = concat (map flv_encode tags)"
      "fl_sending c1 = fl_sending c" "tags_from (fl_previous_size c) tags"
      "fl_previous_size c1 = size_after (fl_previous_size c) tags" "list_all2 tag_carries tags fs"
    using c(2) by auto
  have "flv_conn_inv (True, Some (c1\<lparr>fl_sending := True\<rparr>, sent @ fl_bufs c1)) (ps @ map PostedFrame fs)"
    using assms(1) cx c1 by (intro response_grows [where c = c and tags = tags]) (simp_all add: comp_def)
  then show ?thesis
    using cx c1 c(3)
    by (intro exI [of _ True]) (simp add: FlvPlayerUser_PushFrames_def flv_send_def FlvContext_Send_def)
next
  case False
  then show ?thesis using assms(1) by (auto simp: FlvPlayerUser_PushFrames_def split: option.splits)
qed

text \<open>What a stream keeps and a player holds fits a tag.\<close>

definition stream_fits :: "'e Stream \<Rightarrow> bool" where
  "stream_fits s \<longleftrightarrow> ring_ok s \<and> (\<forall>p \<in> kept_packets s. flv_fits p)"

definition player_fits :: "'e PlayerUser \<Rightarrow> bool" where
  "player_fits u \<longleftrightarrow> (\<forall>p \<in> held_packets u. flv_fits p) \<and> length (pl_out_frames u) \<le> 10"

lemma GetFrames_fits:
  assumes "stream_fits s" and "player_fits u"
  shows "player_fits (GetFrames now s u)"
  using GetFrames_held [of s now u] assms by (auto simp: stream_fits_def player_fits_def)

lemma player_fits_clear:
  assumes "player_fits u"
  shows "player_fits (u\<lparr>pl_meta := None\<rparr>)" "player_fits (u\<lparr>pl_audio_header := None\<rparr>)"
    "player_fits (u\<lparr>pl_video_header := None\<rparr>)" "player_fits (u\<lparr>pl_time_corrector := tc\<rparr>)"
    "player_fits (u\<lparr>pl_time_corrector := tc, pl_out_frames := []\<rparr>)"
  using assms by (auto simp: player_fits_def held_packets_def)

lemma post_header_flv:
  assumes "flv_conn_inv (True, cx) ps" and "flv_fits p" and "player_fits u" and "player_fits (clear u)"
  shows "\<exists>u' cx' qs. post_header flv_push_header p clear u cx = Inr (u', cx', qs) \<and>
           flv_conn_inv (True, cx') (ps @ qs) \<and> player_fits u'"
proof -
  from flv_push_header_ok [OF assms(1,2)] obtain ok cx' where
    "flv_push_header p cx = Inr (ok, cx')" "flv_conn_inv (True, cx') (ps @ (if ok then [PostedHeader p] else []))" by blast
  then show ?thesis using assms(3,4) by (cases ok) (simp_all add: post_header_def)
qed

lemma post_pending_flv:
  assumes "flv_conn_inv (True, cx) ps" and "player_fits u"
  shows "\<exists>u' cx' qs calls. post_pending flv_push_header FlvPlayerUser_PushFrames u cx = Inr (u', cx', qs, calls) \<and>
           flv_conn_inv (True, cx') (ps @ qs) \<and> player_fits u'"
proof -
  have held: "pl_meta u = Some p \<Longrightarrow> flv_fits p" "pl_audio_header u = Some p \<Longrightarrow> flv_fits p"
    "pl_video_header u = Some p \<Longrightarrow> flv_fits p" for p
    using assms(2) by (simp_all add: player_fits_def held_packets_def)
  note hdr = player_fits_clear [OF assms(2)] and header = post_header_flv [OF assms(1) _ assms(2)]
  show ?thesis
  proof (cases "pl_meta u")
    case (Some p)
    with header [of p "\<lambda>u. u\<lparr>pl_meta := None\<rparr>", OF held(1) [OF Some] hdr(1)] show ?thesis by (auto simp: post_pending_def)
  next
    case m: None
    show ?thesis
    proof (cases "pl_audio_header u")
      case (Some p)
      with m header [of p "\<lambda>u. u\<lparr>pl_audio_header := None\<rparr>", OF held(2) [OF Some] hdr(2)] show ?thesis by (auto simp: post_pending_def)
    next
      case a: None
      show ?thesis
      proof (cases "pl_video_header u")
        case (Some p)
        with m a header [of p "\<lambda>u. u\<lparr>pl_video_header := None\<rparr>", OF held(3) [OF Some] hdr(3)] show ?thesis by (auto simp: post_pending_def)
      next
        case v: None
        have "\<forall>p \<in> set (pl_out_frames u). flv_fits p" "length (pl_out_frames u) \<le> 34"
          using assms(2) by (auto simp: player_fits_def held_packets_def)
        from FlvPlayerUser_PushFrames_ok [OF assms(1) this, of "pl_time_corrector u"] obtain ok tc' cx' where
          "FlvPlayerUser_PushFrames (pl_out_frames u) (pl_time_corrector u) cx = Inr (ok, tc', cx')"
          "flv_conn_inv (True, cx') (ps @ (if ok then map PostedFrame (pl_out_frames u) else []))" by blast
        then show ?thesis
          using m a v assms hdr(4) [of tc'] hdr(5) [of tc'] by (cases ok) (auto simp: post_pending_def Let_def)
      qed
    qed
  qed
qed

lemma PushFlvHttpHeader_ok:
  assumes "flv_conn_inv (False, cx) ps"
  shows "\<exists>hcx. PushFlvHttpHeader s (False, cx) = Inr hcx \<and> flv_conn_inv hcx ps"
proof (cases cx)
  case None
  then show ?thesis using assms by (simp add: PushFlvHttpHeader_def flv_conn_inv_def)
next
  case (Some x)
  then obtain c sent where cx: "cx = Some (c, sent)" by (cases x) auto
  then have c: "fl_current c = 0" "fl_bufs c = []" "\<not> fl_sending c" "sent = []" "ps = []" "fl_previous_size c = 0"
    using assms by (auto simp: flv_conn_inv_def)
  obtain c' bs where s: "SendFlvHttpHeader (st_has_video s) (st_has_audio s) c = Inr (c', bs)"
    "concat bs = flv_response (st_has_video s) (st_has_audio s) []" "fl_sending c'" "fl_previous_size c' = fl_previous_size c"
    using SendFlvHttpHeader_ok [OF c(1-3)] by blast
  have "\<exists>hv ha tags. concat bs = flv_response hv ha tags \<and> tags_from 0 tags \<and> fl_previous_size c' = size_after 0 tags \<and>
      list_all2 tag_carries tags (map posted_packet ps)"
    using s c by (intro exI [of _ "st_has_video s"] exI [of _ "st_has_audio s"] exI [of _ "[]"]) simp
  then have "flv_conn_inv (True, Some (c', bs)) ps"
    using s(3) by (simp only: flv_conn_inv_def prod.case option.case if_True simp_thms)
  then show ?thesis using s(1) c(4) by (simp add: PushFlvHttpHeader_def cx)
qed

lemma FlvPlayerUser_PostFrames_ok:
  assumes "flv_conn_inv hcx ps" and "player_fits u" and "stream_fits s"
  shows "\<exists>r u' hcx' qs calls. FlvPlayerUser_PostFrames now s u hcx = Inr (r, u', hcx', qs, calls) \<and>
           flv_conn_inv hcx' (ps @ qs) \<and> player_fits u'"
proof (cases "st_ready s \<and> HasMedia s")
  case False
  then show ?thesis using assms by (auto simp: FlvPlayerUser_PostFrames_def)
next
  case media: True
  obtain h cx where hcx: "hcx = (h, cx)" by fastforce
  show ?thesis
  proof (cases h)
    case False
    with assms(1) hcx PushFlvHttpHeader_ok [of cx ps s] obtain hcx' where
      "PushFlvHttpHeader s (False, cx) = Inr hcx'" "flv_conn_inv hcx' ps" by auto
    with False hcx media assms(2) show ?thesis by (intro exI [of _ False]) (simp add: FlvPlayerUser_PostFrames_def)
  next
    case True
    with assms(1) hcx post_pending_flv [OF _ GetFrames_fits [OF assms(3,2)], of cx ps now] obtain u' cx' qs calls where
      "post_pending flv_push_header FlvPlayerUser_PushFrames (GetFrames now s u) cx = Inr (u', cx', qs, calls)"
      "flv_conn_inv (True, cx') (ps @ qs)" "player_fits u'" by auto
    with True hcx media show ?thesis by (intro exI [of _ True]) (simp add: FlvPlayerUser_PostFrames_def)
  qed
qed

section \<open>A player's life\<close>

text \<open>
  A player, its connection and what was posted: the connection becomes active with whatever the
  stream holds by then, or everything written so far has left it.
\<close>

inductive flv_play :: "'e PlayerUser \<Rightarrow> bool \<times> 'e flv_conn \<Rightarrow> 'e posted list \<Rightarrow> bool" where
  play_new: "flv_play (PlayerUser_init v) (False, Some (FlvContext_new, [])) []"
| play_post: "flv_play u hcx ps \<Longrightarrow> stream_fits s \<Longrightarrow>
    FlvPlayerUser_PostFrames now s u hcx = Inr (r, u', hcx', qs, calls) \<Longrightarrow> flv_play u' hcx' (ps @ qs)"
| play_written: "flv_play u (h, Some (c, sent)) ps \<Longrightarrow> flv_play u (h, Some (FlvContext_WriteComplete c, sent)) ps"

lemma flv_play_inv:
  "flv_play u hcx ps \<Longrightarrow> flv_conn_inv hcx ps \<and> player_fits u"
proof (induction rule: flv_play.induct)
  case (play_new v)
  show ?case
    by (simp add: flv_conn_inv_def FlvContext_new_def player_fits_def held_packets_def PlayerUser_init_def
        User.defs PlayerUser.defs)
next
  case (play_post u hcx ps s now r u' hcx' qs calls)
  with FlvPlayerUser_PostFrames_ok [of hcx ps u s now] show ?case by auto
next
  case (play_written u h c sent ps)
  then show ?case by (auto simp: flv_conn_inv_def FlvContext_WriteComplete_def split: if_splits)
qed

lemma flv_play_response:
  assumes "flv_play u (h, Some (c, sent)) ps"
  shows "sent = [] \<and> ps = [] \<or>
     (\<exists>hv ha tags. concat sent = flv_response hv ha tags \<and> tags_from 0 tags \<and>
        list_all2 tag_carries tags (map posted_packet ps))"
  using flv_play_inv [OF assms] by (auto simp: flv_conn_inv_def split: if_splits)

text \<open>A stream of packets below 16 MiB fits.\<close>

lemma stream_fits_log:
  assumes "stream_inv L s" and "\<forall>p \<in> set L. flv_fits p"
  shows "stream_fits s"
proof -
  have r: "ring_inv L (st_packet_buffer s)" and h: "headers_inv L s" using assms(1) by (simp_all add: stream_inv_def)
  have ring: "p \<in> set L" if "Some p \<in> set (st_packet_buffer s)" for p
  proof -
    from that obtain j where j: "j < packet_buffer_size" "st_packet_buffer s ! j = Some p"
      using r by (auto simp: in_set_conv_nth ring_inv_def)
    with r have "j < length L" by (auto simp: ring_inv_def not_le [symmetric])
    define i where "i = j + packet_buffer_size * ((length L - 1 - j) div packet_buffer_size)"
    have k: "packet_buffer_size * ((length L - 1 - j) div packet_buffer_size) \<le> length L - 1 - j"
      "length L - 1 - j < packet_buffer_size * ((length L - 1 - j) div packet_buffer_size) + packet_buffer_size"
      using div_mult_mod_eq [of "length L - 1 - j" packet_buffer_size]
        mod_less_divisor [of packet_buffer_size "length L - 1 - j"] by (simp_all add: packet_buffer_size_def)
    have "i < length L" "length L \<le> i + packet_buffer_size"
      using k \<open>j < length L\<close> unfolding i_def by linarith+
    moreover have "i mod packet_buffer_size = j" using j(1) by (simp add: i_def)
    ultimately have "st_packet_buffer s ! j = Some (L ! i)" using r by (auto simp: ring_inv_def)
    with j(2) nth_mem [OF \<open>i < length L\<close>] show ?thesis by simp
  qed
  have newest: "newest_of qs = Some p \<Longrightarrow> p \<in> set qs" for qs and p :: "'a Packet"
    by (auto simp: newest_of_def split: if_splits)
  have "kept_packets s \<subseteq> set L"
  proof -
    let ?h = "st_codec_headers s"
    have e: "ch_video_header ?h = newest_of (ch_video_header_packets ?h)"
      "ch_audio_header ?h = newest_of (ch_audio_header_packets ?h)" "ch_meta ?h = newest_of (ch_meta_packets ?h)"
      and m: "set (ch_video_header_packets ?h) \<subseteq> set L" "set (ch_audio_header_packets ?h) \<subseteq> set L"
      "set (ch_meta_packets ?h) \<subseteq> set L"
      using h by (simp_all add: headers_inv_def codec_inv_def)
    have n: "set_option (newest_of qs) \<subseteq> set qs" for qs :: "'a Packet list"
      using newest by (cases "newest_of qs") auto
    show ?thesis
      unfolding kept_packets_def e
      using ring n [of "ch_video_header_packets ?h"] n [of "ch_audio_header_packets ?h"] n [of "ch_meta_packets ?h"] m
      by blast
  qed
  then show ?thesis using assms(2) r by (auto simp: stream_fits_def ring_ok_def ring_inv_def)
qed

end
