(* ===== verification/FlvProps.thy ===== *)
theory FlvProps
  imports FlvPlayer LiveProps
begin

text \<open>
  The properties of playing over FLV: the context and the player of \<open>Flv\<close> and \<open>FlvPlayer\<close>.
\<close>

text \<open>
  A frame that \<open>BuildFlvFrame\<close> puts into the buffer is a tag of the FLV format: a decoder
  written after the format gets the packet's type and payload and the size of the tag before it.
  Of the time it gets the lower 24 bits only, for the extension byte is always 0: after four
  hours and forty minutes the times of a stream start over.
\<close>

theorem flv_frame_decodes:
  assumes "flv_fits p" and "fl_current c + 15 \<le> flv_out_size"
  shows "\<exists>c' d. BuildFlvFrame p timestamp c = Inr c' \<and> concat (fl_bufs c') = concat (fl_bufs c) @ d \<and>
           flv_decode (d @ rest) =
             Some (\<lparr>tag_prev = fl_previous_size c, tag_type = GetRtmpPacketType p,
                    tag_time = take_bit 24 timestamp, tag_data = payload p\<rparr>, rest)"
proof -
  have "packet_inv p" using assms(1) by (simp add: flv_fits_def)
  from BuildFlvFrame_ok [OF this assms(2), of timestamp] obtain c' where
    "BuildFlvFrame p timestamp c = Inr c'"
    "concat (fl_bufs c') = concat (fl_bufs c) @ flv_encode (built_tag (fl_previous_size c) p timestamp)" by blast
  moreover have "flv_tag_ok (built_tag (fl_previous_size c) p timestamp)"
    using built_tag_carries [OF assms(1)] by (simp add: tag_carries_def)
  ultimately show ?thesis
    using flv_decode_encode by (intro exI [of _ c'] exI [of _ "flv_encode (built_tag (fl_previous_size c) p timestamp)"])
      (simp add: built_tag_def)
qed

lemma sample_fits: "flv_fits (video_frame True)" "flv_fits stamped"
  by (simp_all add: flv_fits_def video_frame_ok) (simp_all add: stamped_def header_frame_def video_frame_def packet_inv_def)

theorem flv_frame_decodes_witness:
  "\<exists>c' d. BuildFlvFrame (video_frame True) 0x1000005 FlvContext_new = Inr c' \<and>
     concat (fl_bufs c') = concat (fl_bufs (FlvContext_new :: unit FlvContext)) @ d \<and>
     flv_decode (d @ [7]) =
       Some (\<lparr>tag_prev = fl_previous_size (FlvContext_new :: unit FlvContext), tag_type = GetRtmpPacketType (video_frame True),
              tag_time = take_bit 24 0x1000005, tag_data = payload (video_frame True)\<rparr>, [7])"
  by (rule flv_frame_decodes) (simp_all add: sample_fits FlvContext_new_def flv_out_size_def)

text \<open>
  C18. What an FLV player's connection was given, at any time, in any order of wake-ups and
  finished writes: nothing, or the HTTP header, the file header and one tag for each packet
  that was posted, in the order of posting. The tags can be read back one after the other, and
  each names the size of the one before it, the first 0.
\<close>

theorem flv_player_response:
  assumes "flv_play u (h, Some (c, sent)) ps"
  shows "sent = [] \<and> ps = [] \<or>
     (\<exists>hv ha tags. concat sent = flv_response hv ha tags \<and> tags_from 0 tags \<and>
        list_all2 tag_carries tags (map posted_packet ps) \<and>
        decode_items flv_decode (length ps) (concat (map flv_encode tags)) = Some tags)"
proof -
  have "decode_items flv_decode (length ps) (concat (map flv_encode tags)) = Some tags"
    if "list_all2 tag_carries tags (map posted_packet ps)" for tags
    using carried_tags_decode [OF that, of "[]"] list_all2_lengthD [OF that] by simp
  with flv_play_response [OF assms] show ?thesis by blast
qed

text \<open>The sample stream's player: the response's headers, then, once these are written, the video header.\<close>

lemma one_frame_fits: "stream_fits one_frame"
  by (rule stream_fits_log [OF one_frame_inv]) (simp add: sample_fits)

definition headers_sent :: "unit FlvContext" where
  "headers_sent = FlvContext_new\<lparr>fl_http_header := flv_http_header,
     fl_bufs := [bytes_of_string flv_http_header, flv_video_only_header], fl_current := 9, fl_sending := True\<rparr>"

lemma flv_sample_play:
  "flv_play new_player (True, Some (headers_sent, [bytes_of_string flv_http_header, flv_video_only_header])) []"
proof -
  have "FlvPlayerUser_PostFrames 50 one_frame new_player (False, Some (FlvContext_new, [])) =
      Inr (False, new_player, (True, Some (headers_sent, [bytes_of_string flv_http_header, flv_video_only_header])), [], [])"
    by (simp add: FlvPlayerUser_PostFrames_def one_frame_fields HasMedia_def PushFlvHttpHeader_def SendFlvHttpHeader_def
        WriteFlvHeader_def flv_put_def flv_out_size_def flv_file_header_def flv_video_only_header_def FlvContext_Send_def
        headers_sent_def FlvContext_new_def)
  from play_post [OF play_new one_frame_fits this] show ?thesis by simp
qed

text \<open>Once they are written, the next wake-up sends the sequence header.\<close>

lemma one_frame_header:
  "pl_meta (GetFrames 50 one_frame new_player) = None \<and> pl_audio_header (GetFrames 50 one_frame new_player) = None \<and>
   pl_video_header (GetFrames 50 one_frame new_player) = Some stamped"
  by (simp add: GetFrames_def HasMedia_def one_frame_fields LocateGop_def one_frame_gop content_latency_def
      take_headers_def take_meta_def take_audio_def take_video_def Let_def CodecHeader_VideoHeader_def
      SaveVideoHeader_def header_before_def CodecHeader_new_def one_frame_next deliver_def)
    (simp_all add: PlayerUser_init_def User_new_def User.defs PlayerUser.defs AppInfo_new_def one_frame_next deliver_def)

lemma flv_sample_header: "\<exists>u c sent. flv_play u (True, Some (c, sent)) [PostedHeader stamped]"
proof -
  let ?sent = "[bytes_of_string flv_http_header, flv_video_only_header]"
  define c where "c = FlvContext_WriteComplete headers_sent"
  have play: "flv_play new_player (True, Some (c, ?sent)) []"
    unfolding c_def by (rule play_written [OF flv_sample_play])
  have c: "FlvContext_Ready c" "fl_current c = 0" "\<not> fl_sending c"
    by (simp_all add: c_def FlvContext_WriteComplete_def FlvContext_Ready_def)
  obtain c1 where c1: "BuildFlvFrame stamped 0 c = Inr c1" "fl_sending c1 = fl_sending c"
    using BuildFlvFrame_ok [of stamped c 0] sample_fits(2) c(2) by (auto simp: flv_fits_def flv_out_size_def)
  have "\<exists>u'. FlvPlayerUser_PostFrames 50 one_frame new_player (True, Some (c, ?sent)) =
      Inr (True, u', (True, Some (c1\<lparr>fl_sending := True\<rparr>, ?sent @ fl_bufs c1)), [PostedHeader stamped], [])"
    using one_frame_header c c1
    by (simp add: FlvPlayerUser_PostFrames_def one_frame_fields(5) HasMedia_def one_frame_fields(2) post_pending_def
        post_header_def flv_push_header_def FlvPlayerUser_PushFrame_def flv_send_def FlvContext_Send_def)
  then show ?thesis using play_post [OF play one_frame_fits] by fastforce
qed

theorem flv_player_response_witness:
  "\<exists>sent hv ha tags. concat sent = flv_response hv ha tags \<and> tags_from 0 tags \<and>
     list_all2 tag_carries tags (map posted_packet [PostedHeader stamped]) \<and>
     decode_items flv_decode (length [PostedHeader stamped]) (concat (map flv_encode tags)) = Some tags"
proof -
  obtain u c sent where "flv_play u (True, Some (c, sent)) [PostedHeader stamped]" using flv_sample_header by blast
  from flv_player_response [OF this] show ?thesis by auto
qed

text \<open>
  C19. An FLV player never faults: wherever it is in its life, posting frames writes inside the
  context's 512 bytes and reads inside the packets, for a stream whose packets are below 16 MiB.
\<close>

theorem flv_player_safe:
  assumes "flv_play u hcx ps" and "stream_inv L s" and "\<forall>p \<in> set L. flv_fits p"
  shows "\<exists>r u' hcx' qs calls. FlvPlayerUser_PostFrames now s u hcx = Inr (r, u', hcx', qs, calls)"
  using FlvPlayerUser_PostFrames_ok flv_play_inv [OF assms(1)] stream_fits_log [OF assms(2,3)] by blast

theorem flv_player_safe_witness:
  "\<exists>r u' hcx' qs calls. FlvPlayerUser_PostFrames 60 one_frame new_player
     (True, Some (headers_sent, [bytes_of_string flv_http_header, flv_video_only_header])) = Inr (r, u', hcx', qs, calls)"
  by (rule flv_player_safe [OF flv_sample_play one_frame_inv]) (simp add: sample_fits)

end
