(* ===== verification/HttpMessage.thy ===== *)
theory HttpMessage
  imports HttpContext
begin

text \<open>
  A message made by \<open>HttpRequest.cc\<close> meets the parser of \<open>HttpParser.cc\<close>: numbers, lines,
  the first line and the headers are read back, whatever order the entries are written in.
\<close>

section \<open>Numbers\<close>

lemma digit_nth: "n < 10 \<Longrightarrow> digit_value (''0123456789'' ! n) = Some n"
proof -
  have "\<forall>n \<in> set [0 ..< 10]. digit_value (''0123456789'' ! n) = Some n" by code_simp
  then show "n < 10 \<Longrightarrow> digit_value (''0123456789'' ! n) = Some n" by simp
qed

lemma digits_decimal: "\<exists>m. \<forall>s acc. digits 10 acc (decimal n @ s) = digits 10 (Some ((case acc of None \<Rightarrow> 0 | Some a \<Rightarrow> a) * m + n)) s"
proof (induction n rule: decimal.induct)
  case (1 n)
  show ?case
  proof (cases "n < 10")
    case True
    then show ?thesis by (intro exI [of _ 10]) (simp add: decimal.simps [of n] digit_nth)
  next
    case False
    with 1 obtain m where m: "\<And>s acc. digits 10 acc (decimal (n div 10) @ s) =
        digits 10 (Some ((case acc of None \<Rightarrow> 0 | Some a \<Rightarrow> a) * m + n div 10)) s" by blast
    have "digits 10 acc (decimal n @ s) =
        digits 10 (Some ((case acc of None \<Rightarrow> 0 | Some a \<Rightarrow> a) * (m * 10) + n)) s" for s acc
      using False m by (simp add: decimal.simps [of n] digit_nth algebra_simps)
    then show ?thesis by blast
  qed
qed

lemma digits_of_decimal: "digits 10 None (decimal n) = Some n"
proof -
  obtain m where "\<And>s acc. digits 10 acc (decimal n @ s) =
      digits 10 (Some ((case acc of None \<Rightarrow> 0 | Some a \<Rightarrow> a) * m + n)) s" using digits_decimal [of n] by blast
  from this [of None "[]"] show ?thesis by simp
qed

lemma decimal_chars: "set (decimal n) \<subseteq> set ''0123456789''"
proof (induction n rule: decimal.induct)
  case (1 n)
  have "k < 10 \<Longrightarrow> ''0123456789'' ! k \<in> set ''0123456789''" for k by (rule nth_mem) simp
  with 1 show ?case by (subst decimal.simps) auto
qed

lemma decimal_unsigned: "ltrim (decimal n) = decimal n" "sign_of (decimal n) = (False, decimal n)"
proof -
  obtain c s where d: "decimal n = c # s" by (cases "decimal n") auto
  then have "c \<in> set ''0123456789''" using decimal_chars [of n] by auto
  then show "ltrim (decimal n) = decimal n" "sign_of (decimal n) = (False, decimal n)"
    unfolding d by (auto simp: ltrim_def is_space_def sign_of_def)
qed

lemma atoi_decimal: "n < 2 ^ 31 \<Longrightarrow> atoi (decimal n) = int n"
  by (simp add: atoi_def strtol_def decimal_unsigned digits_of_decimal int32_id)

lemma stoull_decimal: "n < 2 ^ 64 \<Longrightarrow> stoull (decimal n) = Some (int n)"
  by (simp add: stoull_def decimal_unsigned digits_of_decimal)

section \<open>Header lines\<close>

definition header_ok :: "string \<times> string \<Rightarrow> bool" where
  "header_ok h \<longleftrightarrow>
     (case h of (k, v) \<Rightarrow>
        k \<noteq> [] \<and> lower_case k = k \<and> Trim k = k \<and> Trim v = v \<and> CHR '':'' \<notin> set k \<and>
        set (k @ v) \<inter> {CHR 0x0D, CHR 0x0A} = {})"

abbreviation header_line :: "string \<times> string \<Rightarrow> string" where
  "header_line h \<equiv> fst h @ '': '' @ snd h"

lemma find_first_of_skip: "c \<notin> set l \<Longrightarrow> find_first_of {c} (l @ c # s) = Some (length l)"
  by (induction l) auto

lemma header_line_ok: "header_ok h \<Longrightarrow> line_ok (header_line h)"
  by (auto simp: header_ok_def line_ok_def split: prod.splits)

lemma parse_header_line_ok:
  assumes "header_ok h"
  shows "parse_header_line (header_line h) r = r\<lparr>rq_headers := (rq_headers r)(fst h \<mapsto> snd h)\<rparr>"
proof -
  obtain k v where h: "h = (k, v)" by fastforce
  have "find_first_of {CHR '':''} (k @ CHR '':'' # ('' '' @ v)) = Some (length k)"
    using assms by (intro find_first_of_skip) (simp add: header_ok_def h)
  then show ?thesis
    using assms by (simp add: parse_header_line_def h AddHeader_def header_ok_def Trim_leading)
qed

lemma map_of_first:
  assumes "distinct (map fst (x # xs))"
  shows "f(fst x \<mapsto> snd x) ++ map_of xs = f ++ map_of (x # xs)"
proof -
  have "map_of xs (fst x) = None" using assms by (simp add: map_of_eq_None_iff)
  then show ?thesis by (cases x) (auto simp: fun_eq_iff map_add_def split: option.splits)
qed

lemma parse_header_lines:
  assumes "\<forall>h \<in> set hs. header_ok h" and "distinct (map fst hs)"
  shows "fold parse_header_line (map header_line hs) r = r\<lparr>rq_headers := rq_headers r ++ map_of hs\<rparr>"
  using assms
proof (induction hs arbitrary: r)
  case (Cons h hs)
  let ?f = "(rq_headers r)(fst h \<mapsto> snd h)"
  have "parse_header_line (header_line h) r = r\<lparr>rq_headers := ?f\<rparr>"
    using Cons.prems(1) by (intro parse_header_line_ok) simp
  then have "fold parse_header_line (map header_line (h # hs)) r = r\<lparr>rq_headers := ?f ++ map_of hs\<rparr>"
    using Cons by simp
  then show ?case by (simp only: map_of_first [OF Cons.prems(2)])
qed simp

section \<open>The first line\<close>

text \<open>Parameters are not decoded, so their characters must be those that need no encoding.\<close>

definition param_ok :: "string \<times> string \<Rightarrow> bool" where
  "param_ok p \<longleftrightarrow>
     (case p of (k, v) \<Rightarrow> (\<forall>c \<in> set (k @ v). url_plain c) \<and> CHR ''='' \<notin> set k \<and> CHR ''&'' \<notin> set (k @ v))"

lemma UrlEncode_append [simp]: "UrlEncode (s @ t) = UrlEncode s @ UrlEncode t"
  by (simp add: UrlEncode_def)

lemma UrlEncode_plain: "\<forall>c \<in> set s. url_plain c \<Longrightarrow> UrlEncode s = s"
proof (induction s)
  case (Cons c s)
  have "url_plain c \<Longrightarrow> c \<noteq> CHR '' ''" by (auto simp: url_plain_def)
  with Cons show ?case by (auto simp: UrlEncode_def url_encode_char_def)
qed (simp add: UrlEncode_def)

lemma UrlEncode_question: "CHR ''?'' \<notin> set s \<Longrightarrow> CHR ''?'' \<notin> set (UrlEncode s)"
proof
  assume a: "CHR ''?'' \<notin> set s" "CHR ''?'' \<in> set (UrlEncode s)"
  then obtain d where d: "d \<in> set s" "CHR ''?'' \<in> set (url_encode_char d)" by (auto simp: UrlEncode_def)
  have "hex_digit (of_char d div 16) \<in> set ''0123456789ABCDEF''" "hex_digit (of_char d mod 16) \<in> set ''0123456789ABCDEF''"
    by (simp_all only: hex_digit_range half_bytes)
  with d a(1) show False by (auto simp: url_encode_char_def CharToHex_def Let_def split: if_splits)
qed

lemma Trim_plain:
  assumes "\<forall>c \<in> set s. url_plain c"
  shows "Trim s = s"
proof (cases "s = []")
  case True
  then show ?thesis by (simp add: Trim_def ltrim_def rtrim_def)
next
  case False
  have "\<not> is_space c" if "url_plain c" for c using that by (auto simp: url_plain_def is_space_def)
  with assms False show ?thesis by (intro Trim_id) simp_all
qed

lemma parse_parameter_ok:
  assumes "param_ok p"
  shows "parse_parameter (fst p @ ''='' @ snd p) r = r\<lparr>rq_parameters := (rq_parameters r)(fst p \<mapsto> snd p)\<rparr>"
proof -
  obtain k v where p: "p = (k, v)" by fastforce
  have "string_find ''='' (k @ ''='' @ v) = Some (length k)"
    using assms string_find_char(1) [of "CHR ''=''" k v] by (simp add: param_ok_def p)
  moreover have "Trim k = k" "Trim v = v" using assms by (auto simp: param_ok_def p intro: Trim_plain)
  ultimately show ?thesis by (simp add: parse_parameter_def p setParameter_def)
qed

lemma parse_parameters_ok:
  assumes "\<forall>p \<in> set ps. param_ok p" and "distinct (map fst ps)"
  shows "fold parse_parameter (map (\<lambda>(k, v). k @ ''='' @ v) ps) r = r\<lparr>rq_parameters := rq_parameters r ++ map_of ps\<rparr>"
  using assms
proof (induction ps arbitrary: r)
  case (Cons p ps)
  let ?f = "(rq_parameters r)(fst p \<mapsto> snd p)"
  have "parse_parameter (case p of (k, v) \<Rightarrow> k @ ''='' @ v) r = r\<lparr>rq_parameters := ?f\<rparr>"
    using parse_parameter_ok [of p r] Cons.prems(1) by (simp add: case_prod_beta)
  then have "fold parse_parameter (map (\<lambda>(k, v). k @ ''='' @ v) (p # ps)) r = r\<lparr>rq_parameters := ?f ++ map_of ps\<rparr>"
    using Cons by simp
  then show ?case by (simp only: map_of_first [OF Cons.prems(2)])
qed simp

lemma SetQuery_ok:
  assumes "\<forall>p \<in> set ps. param_ok p" and "distinct (map fst ps)" and "ps \<noteq> []"
  shows "SetQuery (join ''&'' (map (\<lambda>(k, v). k @ ''='' @ v) ps)) r =
           r\<lparr>rq_query := join ''&'' (map (\<lambda>(k, v). k @ ''='' @ v) ps), rq_parameters := rq_parameters r ++ map_of ps\<rparr>"
proof -
  let ?ls = "map (\<lambda>(k, v). k @ ''='' @ v) ps"
  have "\<forall>l \<in> set ?ls. CHR ''&'' \<notin> set l" using assms(1) by (auto simp: param_ok_def)
  moreover have "last ?ls \<noteq> []" using assms(3) by (simp add: last_map split: prod.split)
  ultimately have "split_rest ''&'' (join ''&'' ?ls) = ?ls" using assms(3) by (intro split_lines) simp_all
  then show ?thesis
    using parse_parameters_ok [OF assms(1,2)] by (simp add: SetQuery_def ParseParameters_def SplitString_def)
qed

definition version_word :: "Version \<Rightarrow> string" where
  "version_word v = (if v = kHttp10 then ''HTTP/1.0'' else ''HTTP/1.1'')"

lemma version_text_word: "version_text v = version_word v @ '' ''"
  by (simp add: version_text_def version_word_def)

lemma SetVersion_word: "SetVersion (version_word v) r = r\<lparr>rq_version := (if v = kHttp10 then kHttp10 else kHttp11)\<rparr>"
  by (simp add: SetVersion_def version_word_def)

fun method_word :: "HttpMethod \<Rightarrow> string" where
  "method_word kGet = ''GET''"
| "method_word kPost = ''POST''"
| "method_word kHead = ''HEAD''"
| "method_word kPut = ''PUT''"
| "method_word kDelete = ''DELETE''"
| "method_word kOptions = ''OPTIONS''"
| "method_word kPatch = ''PATCH''"
| "method_word kInvalid = ''INVALID''"

lemma method_text_word: "method_text m = method_word m @ '' ''"
  by (cases m) simp_all

lemma method_word_ok:
  "m \<notin> {kPatch, kInvalid} \<Longrightarrow> ParseMethod (method_word m) = m" "CHR '' '' \<notin> set (method_word m)"
  "\<not> prefix ''http'' (lower_case (method_word m))" "line_ok (method_word m)" "CHR '':'' \<notin> set (method_word m)"
  by (cases m; simp add: ParseMethod_def method_table_def to_lower_def line_ok_def)+

lemma version_word_lower: "lower_case ''HTTP/1.0'' = ''http/1.0''" "lower_case ''HTTP/1.1'' = ''http/1.1''"
  by code_simp+

lemma version_word_ok:
  "CHR '' '' \<notin> set (version_word v)" "prefix ''http'' (lower_case (version_word v))" "CHR '':'' \<notin> set (version_word v)"
  "CHR 0x0D \<notin> set (version_word v)" "CHR 0x0A \<notin> set (version_word v)" "version_word v \<noteq> []"
  by (simp_all add: version_word_def version_word_lower del: list.map)

definition query_text :: "(string \<times> string) list \<Rightarrow> string" where
  "query_text ps = join ''&'' (map (\<lambda>(k, v). k @ ''='' @ v) ps)"

text \<open>What a request becomes at the other end.\<close>

definition request_received :: "(string \<times> string) list \<Rightarrow> HttpRequest \<Rightarrow> HttpRequest" where
  "request_received ps r =
     (HttpRequest_new True)
       \<lparr>rq_method := rq_method r, rq_version := (if rq_version r = kHttp10 then kHttp10 else kHttp11),
        rq_path := (if rq_path r = [] then ''/'' else rq_path r), rq_query := query_text ps, rq_parameters := map_of ps\<rparr>"

lemma query_text_plain:
  assumes "\<forall>p \<in> set ps. param_ok p"
  shows "\<forall>c \<in> set (query_text ps). url_plain c"
proof -
  have J: "\<forall>l \<in> set ls. \<forall>c \<in> set l. url_plain c \<Longrightarrow> \<forall>c \<in> set (join ''&'' ls). url_plain c" for ls
    by (induction "''&''" ls rule: join.induct) (auto simp: url_plain_def [of "CHR ''&''"])
  have e: "url_plain CHR ''=''" by (simp add: url_plain_def)
  have "\<forall>c \<in> set (case p of (k, v) \<Rightarrow> k @ ''='' @ v). url_plain c" if "p \<in> set ps" for p
    using assms that e by (auto simp: param_ok_def split: prod.splits)
  then show ?thesis unfolding query_text_def by (intro J) simp
qed

lemma SetPath_encoded: "SetPath (UrlEncode s) r = r\<lparr>rq_path := s\<rparr>"
proof (cases "NeedUrlDecoding (UrlEncode s)")
  case False
  from UrlDecode_plain [OF this] have "UrlEncode s = s" by (simp add: UrlDecode_UrlEncode)
  with False show ?thesis by (simp add: SetPath_def)
qed (simp add: SetPath_def UrlDecode_UrlEncode)

lemma request_line_ok:
  assumes "rq_method r \<notin> {kPatch, kInvalid}" and "CHR ''?'' \<notin> set (rq_path r)"
    and "\<forall>p \<in> set ps. param_ok p" and "distinct (map fst ps)"
  shows "request_line [method_word (rq_method r), UrlEncode (url_text ps r), version_word (rq_version r)] (HttpRequest_new True) =
           Inr (request_received ps r)"
proof -
  define path where "path = (if rq_path r = [] then ''/'' else rq_path r)"
  have q: "CHR ''?'' \<notin> set (UrlEncode path)" using assms(2) by (intro UrlEncode_question) (simp add: path_def)
  have u: "url_text ps r = path @ (if ps \<noteq> [] then ''?'' @ query_text ps else [])"
    by (simp add: url_text_def path_def query_text_def)
  have m: "SetMethod (method_word (rq_method r)) x = x\<lparr>rq_method := rq_method r\<rparr>" for x
    using method_word_ok(1) [OF assms(1)] by (simp add: SetMethod_def)
  show ?thesis
  proof (cases "ps = []")
    case True
    then have n: "url_text ps r = path" "query_text ps = []" "map_of ps = Map.empty"
      unfolding u by (simp_all add: query_text_def)
    have "find_first_of {CHR ''?''} (UrlEncode path) = None" using q by (simp add: find_first_of_None)
    then show ?thesis
      unfolding request_line_def request_received_def n path_def [symmetric]
      by (simp add: m SetPath_encoded SetVersion_word HttpRequest_new_def Let_def)
  next
    case False
    have e: "UrlEncode ''?'' = ''?''" by (simp add: UrlEncode_def url_encode_char_def url_plain_def)
    have "UrlEncode (url_text ps r) = UrlEncode path @ CHR ''?'' # query_text ps"
      using False UrlEncode_plain [OF query_text_plain [OF assms(3)]] by (simp add: u e flip: append_Cons)
    moreover have "find_first_of {CHR ''?''} (UrlEncode path @ CHR ''?'' # query_text ps) = Some (length (UrlEncode path))"
      by (rule find_first_of_skip [OF q])
    moreover have "SetQuery (query_text ps) x = x\<lparr>rq_query := query_text ps, rq_parameters := rq_parameters x ++ map_of ps\<rparr>" for x
      unfolding query_text_def by (rule SetQuery_ok [OF assms(3,4) False])
    ultimately show ?thesis
      unfolding request_line_def request_received_def path_def [symmetric]
      by (simp add: m SetPath_encoded SetVersion_word HttpRequest_new_def Let_def)
  qed
qed

lemma url_text_encoded: "UrlEncode (url_text ps r) \<noteq> []" "CHR '' '' \<notin> set (UrlEncode (url_text ps r))"
proof -
  have "url_text ps r \<noteq> []" by (simp add: url_text_def)
  then show "UrlEncode (url_text ps r) \<noteq> []" by (cases "url_text ps r") (simp_all add: UrlEncode_def url_encode_char_def)
  show "CHR '' '' \<notin> set (UrlEncode (url_text ps r))" using UrlEncode_clean by blast
qed

definition request_first :: "(string \<times> string) list \<Rightarrow> HttpRequest \<Rightarrow> string" where
  "request_first ps r = method_text (rq_method r) @ UrlEncode (url_text ps r) @ '' '' @ version_text (rq_version r)"

lemma split_request_first:
  "SplitString (request_first ps r) '' '' = [method_word (rq_method r), UrlEncode (url_text ps r), version_word (rq_version r)]"
proof -
  have "split_rest '' '' [] = []" by (simp add: split_rest.simps)
  with split_rest_line [of "CHR '' ''" "version_word (rq_version r)" "[]" "[]"]
  have "split_rest '' '' (version_word (rq_version r) @ '' '') = [version_word (rq_version r)]"
    using version_word_ok(1) by simp
  with split_rest_line [of "CHR '' ''" "UrlEncode (url_text ps r)" "[]" "version_word (rq_version r) @ '' ''"]
  have "split_rest '' '' (UrlEncode (url_text ps r) @ '' '' @ version_word (rq_version r) @ '' '') =
      [UrlEncode (url_text ps r), version_word (rq_version r)]"
    using url_text_encoded(2) by simp
  with split_rest_line [of "CHR '' ''" "method_word (rq_method r)" "[]" "UrlEncode (url_text ps r) @ '' '' @ version_word (rq_version r) @ '' ''"]
  show ?thesis
    using method_word_ok(2) by (simp add: SplitString_def request_first_def method_text_word version_text_word)
qed

lemma ProcessMethodLine_request:
  assumes "rq_method r \<notin> {kPatch, kInvalid}" and "CHR ''?'' \<notin> set (rq_path r)"
    and "\<forall>p \<in> set ps. param_ok p" and "distinct (map fst ps)"
  shows "ProcessMethodLine (request_first ps r) p = Inr (p\<lparr>hp_is_request := True, hp_req := Some (request_received ps r)\<rparr>)"
  using request_line_ok [OF assms] method_word_ok(3)
  by (simp add: ProcessMethodLine_def split_request_first Let_def)

text \<open>The same for a response.\<close>

definition response_received :: "HttpRequest \<Rightarrow> HttpRequest" where
  "response_received r =
     (HttpRequest_new False)\<lparr>rq_version := (if rq_version r = kHttp10 then kHttp10 else kHttp11), rq_code := rq_code r\<rparr>"

definition response_first :: "HttpRequest \<Rightarrow> string" where
  "response_first r =
     version_text (rq_version r) @ decimal (rq_code r) @ '' '' @ ParseStatusMessage (int32 (int (rq_code r)))"

lemma decimal_free: "c \<notin> set ''0123456789'' \<Longrightarrow> c \<notin> set (decimal n)"
  using decimal_chars [of n] by blast

lemma ProcessMethodLine_response:
  assumes "rq_code r < 2 ^ 31"
  shows "ProcessMethodLine (response_first r) p = Inr (p\<lparr>hp_is_request := False, hp_req := Some (response_received r)\<rparr>)"
proof -
  define m where "m = ParseStatusMessage (int32 (int (rq_code r)))"
  have d: "CHR '' '' \<notin> set (decimal (rq_code r))" by (rule decimal_free) simp
  have "split_rest '' '' (decimal (rq_code r) @ '' '' @ m) = decimal (rq_code r) # split_rest '' '' m"
    by (rule split_rest_line [OF d])
  with split_rest_line [of "CHR '' ''" "version_word (rq_version r)" "[]" "decimal (rq_code r) @ '' '' @ m"]
  have "SplitString (response_first r) '' '' = version_word (rq_version r) # decimal (rq_code r) # split_rest '' '' m"
    using version_word_ok(1) by (simp add: SplitString_def response_first_def version_text_word m_def)
  moreover have "atoi (decimal (rq_code r)) = int (rq_code r)" using assms by (rule atoi_decimal)
  moreover have "nat (uint32 (int (rq_code r))) = rq_code r" using assms by (simp add: uint32_id)
  ultimately show ?thesis
    using version_word_ok(2)
    by (simp add: ProcessMethodLine_def status_line_def SetVersion_word SetStatusCode_def response_received_def Let_def
        HttpRequest_new_def)
qed

section \<open>A message and its parsing\<close>

text \<open>A message with the order of its headers and of its parameters.\<close>

type_synonym http_message = "(string \<times> string) list \<times> (string \<times> string) list \<times> HttpRequest"

fun message_text :: "http_message \<Rightarrow> string" where
  "message_text (hs, ps, r) = AppendToBuffer hs ps r"

definition first_line :: "(string \<times> string) list \<Rightarrow> HttpRequest \<Rightarrow> string" where
  "first_line ps r = (if rq_is_request r then request_first ps r else response_first r)"

text \<open>The length of the body is announced, or there is none and the kind of the message says so.\<close>

definition framed :: "HttpRequest \<Rightarrow> bool" where
  "framed r \<longleftrightarrow>
     (case rq_headers r ''content-length'' of
        Some v \<Rightarrow> v = decimal (length (rq_body r)) \<and> length (rq_body r) < 2 ^ 31
      | None \<Rightarrow> rq_body r = [] \<and> rq_headers r ''transfer-encoding'' \<noteq> Some ''chunked'' \<and>
          (if rq_is_request r then rq_method r \<in> {kGet, kHead, kOptions} else rq_code r \<noteq> 200))"

fun message_ok :: "http_message \<Rightarrow> bool" where
  "message_ok (hs, ps, r) \<longleftrightarrow>
     lists_map hs (rq_headers r) \<and> (\<forall>h \<in> set hs. header_ok h) \<and> framed r \<and>
     (if rq_is_request r
      then lists_map ps (rq_parameters r) \<and> (\<forall>p \<in> set ps. param_ok p) \<and> rq_method r \<notin> {kPatch, kInvalid} \<and>
           CHR ''?'' \<notin> set (rq_path r)
      else rq_code r < 2 ^ 31)"

definition message_received :: "(string \<times> string) list \<Rightarrow> HttpRequest \<Rightarrow> HttpRequest" where
  "message_received ps r =
     (if rq_is_request r then request_received ps r else response_received r)\<lparr>rq_headers := rq_headers r\<rparr>"

lemma status_messages_clean:
  "ParseStatusMessage c \<in> snd ` set status_table"
  "m \<in> snd ` set status_table \<Longrightarrow> set m \<inter> {CHR '':'', CHR 0x0D, CHR 0x0A} = {}"
proof -
  have "(0, ''unknown'') \<in> set status_table" by (simp add: status_table_def)
  then have "''unknown'' \<in> snd ` set status_table" by force
  then show "ParseStatusMessage c \<in> snd ` set status_table"
    by (auto simp: ParseStatusMessage_def split: option.split dest: map_of_SomeD intro: rev_image_eqI)
  have "list_all (\<lambda>m. list_all (\<lambda>c. c \<noteq> CHR '':'' \<and> c \<noteq> CHR 0x0D \<and> c \<noteq> CHR 0x0A) (snd m)) status_table"
    by (simp add: status_table_def)
  then show "m \<in> snd ` set status_table \<Longrightarrow> set m \<inter> {CHR '':'', CHR 0x0D, CHR 0x0A} = {}"
    by (force simp: list_all_iff)
qed

lemma first_line_clean: "line_ok (first_line ps r)" "CHR '':'' \<notin> set (first_line ps r)"
proof -
  let ?bad = "{CHR '':'', CHR 0x0D, CHR 0x0A}"
  have v: "set (version_text v) \<inter> ?bad = {}" "version_text v \<noteq> []" for v by (simp_all add: version_text_def)
  have m: "set (method_text x) \<inter> ?bad = {}" "method_text x \<noteq> []" for x by (cases x; simp)+
  have e: "set (UrlEncode s) \<inter> ?bad = {}" for s using UrlEncode_clean by blast
  have d: "set (decimal n) \<inter> ?bad = {}" for n
  proof -
    have "set ''0123456789'' \<inter> ?bad = {}" by simp
    then show ?thesis using decimal_chars [of n] by blast
  qed
  have t: "set (ParseStatusMessage c) \<inter> ?bad = {}" for c
    using status_messages_clean(2) [OF status_messages_clean(1)] .
  have "set (request_first ps r) \<inter> ?bad = {}"
    using m(1) [of "rq_method r"] e [of "url_text ps r"] v(1) [of "rq_version r"] unfolding request_first_def by auto
  moreover have "set (response_first r) \<inter> ?bad = {}"
    using v(1) [of "rq_version r"] d [of "rq_code r"] t [of "int32 (int (rq_code r))"] unfolding response_first_def by auto
  moreover have "first_line ps r \<noteq> []" using m(2) v(2) by (simp add: first_line_def request_first_def response_first_def)
  ultimately show "line_ok (first_line ps r)" "CHR '':'' \<notin> set (first_line ps r)"
    unfolding line_ok_def by (auto simp: first_line_def split: if_splits)
qed

lemma message_lines:
  "message_text (hs, ps, r) = concat (map (\<lambda>l. l @ crlf) (first_line ps r # map header_line hs)) @ crlf @ rq_body r"
proof -
  have "concat (map (\<lambda>(k, v). k @ '': '' @ v @ crlf) hs) = concat (map (\<lambda>l. l @ crlf) (map header_line hs))"
    by (induction hs) auto
  then show ?thesis
    by (simp add: AppendToBuffer_def MakeHeaders_def AppendRequestFirstLine_def AppendResponseFirstLine_def
        first_line_def request_first_def response_first_def)
qed

lemma join_lines: "ls \<noteq> [] \<Longrightarrow> concat (map (\<lambda>l. l @ d) ls) = join d ls @ d"
proof (induction ls)
  case (Cons l ls)
  then show ?case by (cases ls) simp_all
qed simp

lemma ParseHeaders_message:
  assumes "message_ok (hs, ps, r)" and "hp_header p = join crlf (first_line ps r # map header_line hs)"
  shows "ParseHeaders p =
     Inr (message_kind (message_received ps r)
            (p\<lparr>hp_is_request := rq_is_request r, hp_req := Some (if rq_is_request r then request_received ps r else response_received r)\<rparr>))"
proof -
  let ?ls = "first_line ps r # map header_line hs"
  have l: "\<forall>l \<in> set ?ls. line_ok l" using assms(1) first_line_clean(1) header_line_ok by auto
  have "split_rest crlf (join crlf ?ls) = ?ls"
  proof (rule split_lines)
    show "\<forall>l \<in> set ?ls. CHR 0x0D \<notin> set l" "?ls \<noteq> []" using l by (auto simp: line_ok_def)
    show "last ?ls \<noteq> []" using l last_in_set [of ?ls] by (fastforce simp: line_ok_def)
  qed
  then have split: "SplitString (hp_header p) crlf = ?ls" using assms(2) by (simp add: SplitString_def)
  let ?r0 = "if rq_is_request r then request_received ps r else response_received r"
  have first: "ProcessMethodLine (first_line ps r) p = Inr (p\<lparr>hp_is_request := rq_is_request r, hp_req := Some ?r0\<rparr>)"
  proof (cases "rq_is_request r")
    case True
    then have "rq_method r \<notin> {kPatch, kInvalid}" "CHR ''?'' \<notin> set (rq_path r)" "\<forall>p \<in> set ps. param_ok p" "distinct (map fst ps)"
      using assms(1) by (simp_all add: lists_map_def)
    from ProcessMethodLine_request [OF this] show ?thesis using True by (simp add: first_line_def)
  next
    case False
    then have "rq_code r < 2 ^ 31" using assms(1) by simp
    from ProcessMethodLine_response [OF this] show ?thesis using False by (simp add: first_line_def)
  qed
  have "parse_header_line (first_line ps r) x = x" for x
    using first_line_clean(2) by (simp add: parse_header_line_def find_first_of_None [THEN iffD2])
  then have "fold parse_header_line ?ls ?r0 = ?r0\<lparr>rq_headers := rq_headers ?r0 ++ map_of hs\<rparr>"
    using assms(1) parse_header_lines [of hs ?r0] by (simp add: lists_map_def)
  moreover have "rq_headers ?r0 = Map.empty" by (simp add: request_received_def response_received_def HttpRequest_new_def)
  ultimately have "fold parse_header_line ?ls ?r0 = message_received ps r"
    using assms(1) by (simp add: message_received_def lists_map_def)
  with split first show ?thesis by (simp add: ParseHeaders_def Let_def del: fold_simps)
qed

text \<open>The kind of a framed message.\<close>

definition body_after :: "http_message \<Rightarrow> HttpParser \<Rightarrow> HttpParser \<Rightarrow> bool" where
  "body_after m p p' \<longleftrightarrow>
     (case m of (hs, ps, r) \<Rightarrow>
        hp_req p' = Some (message_received ps r) \<and> hp_chunk p' = hp_chunk p \<and>
        (if rq_body r = [] then hp_state p' = kExpectHttpComplete
         else hp_state p' = kExpectNormalBody \<and> hp_content_length p' = int (length (rq_body r))))"

lemma lower_keys: "lower_case ''content-length'' = ''content-length''" "lower_case ''transfer-encoding'' = ''transfer-encoding''"
  by code_simp+

lemma received_fields:
  "rq_headers (message_received ps r) = rq_headers r"
  "rq_code (response_received r) = rq_code r" "rq_method (request_received ps r) = rq_method r"
  by (simp_all add: message_received_def request_received_def response_received_def)

lemma message_kind_framed:
  assumes "framed r" and "hp_is_request p = rq_is_request r"
  shows "body_after (hs, ps, r) p (message_kind (message_received ps r) p)"
proof (cases "rq_headers r ''content-length''")
  case (Some v)
  then have v: "v = decimal (length (rq_body r))" "length (rq_body r) < 2 ^ 31" using assms(1) by (simp_all add: framed_def)
  have "GetHeader ''content-length'' (message_received ps r) = v"
    using Some by (simp only: GetHeader_def lower_keys received_fields option.case)
  moreover have "stoull v = Some (int (length (rq_body r)))" using v by (simp add: stoull_decimal)
  moreover have "int32 (int (length (rq_body r))) = int (length (rq_body r))" using v(2) by (simp add: int32_id)
  ultimately show ?thesis using v(1) by (simp add: message_kind_def Let_def body_after_def)
next
  case None
  then have "framed r \<longleftrightarrow> rq_body r = [] \<and> rq_headers r ''transfer-encoding'' \<noteq> Some ''chunked'' \<and>
      (if rq_is_request r then rq_method r \<in> {kGet, kHead, kOptions} else rq_code r \<noteq> 200)"
    by (simp only: framed_def option.case)
  with assms(1) have n: "rq_body r = []" "rq_headers r ''transfer-encoding'' \<noteq> Some ''chunked''"
    "if rq_is_request r then rq_method r \<in> {kGet, kHead, kOptions} else rq_code r \<noteq> 200"
    by blast+
  have "GetHeader ''content-length'' (message_received ps r) = []"
    using None by (simp only: GetHeader_def lower_keys received_fields option.case)
  moreover have "GetHeader ''transfer-encoding'' (message_received ps r) \<noteq> ''chunked''"
    using n(2) by (cases "rq_headers r ''transfer-encoding''") (simp_all only: GetHeader_def lower_keys received_fields option.case, simp_all)
  moreover have "rq_method (message_received ps r) = rq_method r" if "rq_is_request r"
    using that by (simp add: message_received_def request_received_def)
  moreover have "rq_code (message_received ps r) = rq_code r" if "\<not> rq_is_request r"
    using that by (simp add: message_received_def response_received_def)
  ultimately show ?thesis using n(1,3) assms(2) by (simp add: message_kind_def Let_def body_after_def split: if_splits)
qed

section \<open>The rounds of the loop\<close>

definition at_start :: "HttpParser \<Rightarrow> bool" where
  "at_start p \<longleftrightarrow> hp_state p = kExpectHttpComplete \<or> hp_state p = kExpectHeaders \<and> hp_chunk p = None"

lemma cleared: "at_start p \<Longrightarrow> hp_state (parse_clear p) = kExpectHeaders \<and> hp_chunk (parse_clear p) = None"
  by (auto simp: at_start_def parse_clear_def ClearForNextHttp_def)

lemma Parse_headers_round:
  assumes "message_ok (hs, ps, r)" and "at_start p" and "mb_inv buf"
    and "buf_contents buf = bytes_of_string (message_text (hs, ps, r)) @ rest"
  shows "\<exists>p' buf'. HttpParser_Parse p buf = Inr (hp_state p', p', buf') \<and> mb_inv buf' \<and>
           buf_contents buf' = bytes_of_string (rq_body r) @ rest \<and> body_after (hs, ps, r) (parse_clear p) p'"
proof -
  define ls where "ls = first_line ps r # map header_line hs"
  define J where "J = join crlf ls"
  define S where "S = string_of_bytes (buf_contents buf)"
  have l: "\<forall>l \<in> set ls. line_ok l" unfolding ls_def using assms(1) first_line_clean(1) header_line_ok by auto
  have ne: "ls \<noteq> []" by (simp add: ls_def)
  have t: "S = concat (map (\<lambda>l. l @ crlf) ls) @ crlf @ rq_body r @ string_of_bytes rest"
    unfolding S_def assms(4) message_lines ls_def [symmetric] by (simp only: map_append append_assoc string_of_bytes_of_string)
  then have t': "S = J @ crlf @ crlf @ rq_body r @ string_of_bytes rest"
    unfolding J_def join_lines [OF ne] by (simp only: append_assoc)
  have f: "string_find crlfcrlf S = Some (length J)"
    unfolding t J_def by (rule find_header_end [OF l ne])
  have "J \<noteq> []"
    using l by (cases "map header_line hs") (simp_all add: J_def ls_def line_ok_def)
  then have "0 < length J" by (rule length_greater_0_conv [THEN iffD2])
  then have "4 < length S" by (simp only: t' length_append) simp
  moreover have "length S = ReadableBytes buf" using assms(3) by (simp add: S_def)
  ultimately have rd: "ReadableBytes buf > 4" by simp
  define q where "q = (parse_clear p)\<lparr>hp_header := take (length J) S\<rparr>"
  define q' where "q' = q\<lparr>hp_is_request := rq_is_request r,
      hp_req := Some (if rq_is_request r then request_received ps r else response_received r)\<rparr>"
  define p' where "p' = message_kind (message_received ps r) q'"
  have "hp_header q = join crlf (first_line ps r # map header_line hs)"
    unfolding ls_def [symmetric] J_def [symmetric] by (simp add: q_def t')
  from ParseHeaders_message [OF assms(1) this] have ph: "ParseHeaders q = Inr p'" by (simp only: p'_def q'_def)
  have "framed r" using assms(1) by simp
  then have "body_after (hs, ps, r) q' p'" unfolding p'_def by (rule message_kind_framed) (simp add: q'_def)
  then have b: "body_after (hs, ps, r) (parse_clear p) p'" by (simp add: body_after_def q'_def q_def)
  have "buf_contents (Retrieve (length J + 4) buf) = bytes_of_string (rq_body r) @ rest"
  proof -
    have "drop (length J + 4) S = rq_body r @ string_of_bytes rest" unfolding t' by simp
    then have "string_of_bytes (drop (length J + 4) (buf_contents buf)) = rq_body r @ string_of_bytes rest"
      by (simp add: S_def drop_map)
    then have "bytes_of_string (string_of_bytes (drop (length J + 4) (buf_contents buf))) = bytes_of_string (rq_body r) @ rest"
      by (simp only: map_append bytes_of_string_of_bytes)
    then show ?thesis using assms(3) by (simp only: bytes_of_string_of_bytes Retrieve_contents)
  qed
  moreover have "HttpParser_Parse p buf = Inr (hp_state p', p', Retrieve (length J + 4) buf)"
  proof -
    have "ParseHead (parse_clear p) buf = Inr (hp_state p', p', Retrieve (length J + 4) buf)"
      unfolding ParseHead_def S_def [symmetric] f using rd ph by (simp add: q_def)
    moreover have "ReadableBytes buf \<noteq> 0" using rd by simp
    ultimately show ?thesis using cleared [OF assms(2)] by (simp add: HttpParser_Parse_def Let_def)
  qed
  ultimately show ?thesis using b Retrieve_inv [OF assms(3)] by blast
qed

text \<open>A body that is there is taken in one round.\<close>

lemma Parse_body_round:
  assumes "body_after (hs, ps, r) q p" and "hp_chunk q = None" and "rq_body r \<noteq> []" and "mb_inv buf"
    and "buf_contents buf = bytes_of_string (rq_body r) @ rest"
  shows "\<exists>c buf'. HttpParser_Parse p buf =
             Inr (kExpectHttpComplete, p\<lparr>hp_chunk := Some c, hp_content_length := 0, hp_state := kExpectHttpComplete\<rparr>, buf') \<and>
           mb_inv buf' \<and> buf_contents buf' = rest \<and> packet_inv c \<and> payload c = bytes_of_string (rq_body r)"
proof -
  let ?b = "bytes_of_string (rq_body r)" and ?n = "length (rq_body r)"
  have p: "hp_state p = kExpectNormalBody" "hp_content_length p = int ?n" "hp_chunk p = None"
    using assms(1-3) by (simp_all add: body_after_def)
  have rd: "ReadableBytes buf = ?n + length rest"
    using assms(4,5) length_buf_contents [OF assms(4)] by simp
  obtain c :: "unit Packet" where c: "NewPacket (int ?n) = Inr c" "packet_inv c" "pk_size c = 0" "pk_capacity c = ?n"
    using NewPacket_ok [of "int ?n"] by auto
  then have sp: "Space c = int ?n" by (simp add: Space_def)
  have "int (length ?b) \<le> Space c" by (simp add: sp)
  from packet_append_ok [OF c(2) this] obtain c' where c': "packet_append ?b c = Inr c'" "packet_inv c'"
    "payload c' = payload c @ ?b" by blast
  have "payload c = []" using c(3) by (simp add: payload_def)
  have size: "nat (min (int (ReadableBytes buf)) (Space c)) = ?n" "\<not> min (int (ReadableBytes buf)) (Space c) < 0"
    by (simp_all add: rd sp)
  have "take ?n (buf_contents buf) = ?b" by (simp add: assms(5))
  then have f: "fill_chunk (hp_content_length p) p buf = Inr (c', ?n, Retrieve ?n buf)"
    using p c c'(1) size by (simp add: fill_chunk_def Let_def)
  have "parse_clear p = p" using p(1) by (simp add: parse_clear_def)
  moreover have "ReadableBytes buf \<noteq> 0" using assms(3) by (simp add: rd)
  ultimately have "HttpParser_Parse p buf =
      Inr (kExpectHttpComplete, p\<lparr>hp_chunk := Some c', hp_content_length := 0, hp_state := kExpectHttpComplete\<rparr>, Retrieve ?n buf)"
    using p f by (simp add: HttpParser_Parse_def Let_def ParseNormalBody_def)
  moreover have "buf_contents (Retrieve ?n buf) = rest" using assms(4,5) by simp
  ultimately show ?thesis using c' \<open>payload c = []\<close> Retrieve_inv [OF assms(4)] by fastforce
qed

section \<open>Messages in a row\<close>

text \<open>The event of a message: what it became, and its body as the packet.\<close>

fun message_event :: "http_message \<Rightarrow> http_event \<Rightarrow> bool" where
  "message_event (hs, ps, r) e \<longleftrightarrow>
     (\<exists>chunk. e = OnRequestEv (Some (message_received ps r)) chunk \<and>
        (if rq_body r = [] then chunk = None
         else \<exists>c. chunk = Some c \<and> packet_inv c \<and> payload c = bytes_of_string (rq_body r)))"

text \<open>A body of one byte is not looked at while it is all that is left in the buffer.\<close>

fun body_seen :: "http_message \<Rightarrow> bool" where
  "body_seen (hs, ps, r) \<longleftrightarrow> length (rq_body r) \<noteq> 1"

lemma loop_round:
  assumes "ReadableBytes buf > 1" and "HttpParser_Parse p buf = Inr (st, p', buf')"
  shows "HttpContext_Parse p buf evs = HttpContext_Parse p' buf' (evs @ parse_events st p')"
  using assms by (subst HttpContext_Parse.simps) simp

lemma loop_message:
  assumes "message_ok m" and "body_seen m" and "at_start p" and "mb_inv buf"
    and "buf_contents buf = bytes_of_string (message_text m) @ rest"
  shows "\<exists>p' buf' e. HttpContext_Parse p buf evs = HttpContext_Parse p' buf' (evs @ [e]) \<and>
           hp_state p' = kExpectHttpComplete \<and> mb_inv buf' \<and> buf_contents buf' = rest \<and> message_event m e"
proof -
  obtain hs ps r where m: "m = (hs, ps, r)" by (cases m) auto
  from Parse_headers_round [OF assms(1) [unfolded m] assms(3,4) assms(5) [unfolded m]] obtain p1 buf1 where
    1: "HttpParser_Parse p buf = Inr (hp_state p1, p1, buf1)" "mb_inv buf1"
      "buf_contents buf1 = bytes_of_string (rq_body r) @ rest" "body_after (hs, ps, r) (parse_clear p) p1" by blast
  have "1 < length (message_text m)"
    unfolding m message_lines by simp
  then have "1 < ReadableBytes buf" using length_buf_contents [OF assms(4)] assms(5) by simp
  note r1 = loop_round [OF this 1(1)]
  have none: "hp_chunk (parse_clear p) = None" using cleared [OF assms(3)] by simp
  show ?thesis
  proof (cases "rq_body r = []")
    case True
    then have "hp_state p1 = kExpectHttpComplete" "hp_req p1 = Some (message_received ps r)" "hp_chunk p1 = None"
      using 1(4) none by (simp_all add: body_after_def)
    moreover from this have "parse_events (hp_state p1) p1 = [OnRequestEv (Some (message_received ps r)) None]"
      by (simp add: parse_events_def)
    ultimately show ?thesis
      using r1 1(2,3) True by (intro exI [of _ p1] exI [of _ buf1]) (auto simp: m)
  next
    case False
    then have st: "hp_state p1 = kExpectNormalBody" "hp_req p1 = Some (message_received ps r)"
      using 1(4) by (simp_all add: body_after_def)
    then have e1: "parse_events (hp_state p1) p1 = []" by (simp add: parse_events_def)
    obtain c buf2 where 2: "HttpParser_Parse p1 buf1 =
        Inr (kExpectHttpComplete, p1\<lparr>hp_chunk := Some c, hp_content_length := 0, hp_state := kExpectHttpComplete\<rparr>, buf2)"
      "mb_inv buf2" "buf_contents buf2 = rest" "packet_inv c" "payload c = bytes_of_string (rq_body r)"
      using Parse_body_round [OF 1(4) none False 1(2,3)] by blast
    have "1 < length (rq_body r)" using False assms(2) by (cases "rq_body r" rule: list.exhaust) (auto simp: m Suc_lessI)
    then have "1 < ReadableBytes buf1" using length_buf_contents [OF 1(2)] 1(3) by simp
    note loop_round [OF this 2(1)]
    with r1 e1 show ?thesis
      using 2(2-) False st
      by (intro exI [of _ "p1\<lparr>hp_chunk := Some c, hp_content_length := 0, hp_state := kExpectHttpComplete\<rparr>"]
          exI [of _ buf2]) (auto simp: m parse_events_def)
  qed
qed

lemma loop_messages:
  assumes "\<forall>m \<in> set ms. message_ok m \<and> body_seen m" and "at_start p" and "mb_inv buf"
    and "buf_contents buf = concat (map (\<lambda>m. bytes_of_string (message_text m)) ms) @ rest"
  shows "\<exists>p' buf' es. HttpContext_Parse p buf evs = HttpContext_Parse p' buf' (evs @ es) \<and>
           at_start p' \<and> mb_inv buf' \<and> buf_contents buf' = rest \<and> list_all2 message_event ms es"
  using assms
proof (induction ms arbitrary: p buf evs)
  case Nil
  then show ?case by (intro exI [of _ p] exI [of _ buf] exI [of _ "[]"]) simp
next
  case (Cons m ms)
  let ?texts = "concat (map (\<lambda>m. bytes_of_string (message_text m)) ms)"
  have m: "message_ok m" "body_seen m" using Cons.prems(1) by simp_all
  obtain p1 buf1 e where 1: "HttpContext_Parse p buf evs = HttpContext_Parse p1 buf1 (evs @ [e])"
    "hp_state p1 = kExpectHttpComplete" "mb_inv buf1" "buf_contents buf1 = ?texts @ rest" "message_event m e"
    using loop_message [OF m Cons.prems(2,3), of "?texts @ rest" evs] Cons.prems(4) by auto
  have "at_start p1" using 1(2) by (simp add: at_start_def)
  from Cons.IH [OF _ this 1(3,4), of "evs @ [e]"] Cons.prems(1) obtain p' buf' es where
    "HttpContext_Parse p1 buf1 (evs @ [e]) = HttpContext_Parse p' buf' ((evs @ [e]) @ es)"
    "at_start p'" "mb_inv buf'" "buf_contents buf' = rest" "list_all2 message_event ms es" by auto
  with 1(1,5) show ?case by (intro exI [of _ p'] exI [of _ buf'] exI [of _ "e # es"]) simp
qed

lemma loop_end:
  assumes "ReadableBytes buf \<le> 1"
  shows "HttpContext_Parse p buf evs = Some (Inr (p, buf, evs))"
  using assms by (subst HttpContext_Parse.simps) simp

section \<open>When the loop does not end\<close>

text \<open>Headers of which only a part has arrived: the parser waits, but the loop does not leave the buffer.\<close>

definition partial_head :: "bytes \<Rightarrow> bool" where
  "partial_head d \<longleftrightarrow> \<not> contains crlfcrlf (string_of_bytes d) \<and> length d \<le> kHttpMaxBodySize"

lemma partial_head_round:
  assumes "at_start p" and "mb_inv buf" and "partial_head (buf_contents buf)" and "ReadableBytes buf > 1"
  shows "HttpParser_Parse p buf = Inr (kExpectContinue, parse_clear p, buf)"
proof -
  have "string_find crlfcrlf (string_of_bytes (buf_contents buf)) = None"
    using assms(3) by (auto simp: partial_head_def contains_def)
  moreover have "\<not> ReadableBytes buf > kHttpMaxBodySize"
    using assms(3) length_buf_contents [OF assms(2)] by (simp add: partial_head_def)
  ultimately have "ParseHead (parse_clear p) buf = Inr (kExpectContinue, parse_clear p, buf)"
    by (simp add: ParseHead_def)
  then show ?thesis using cleared [OF assms(1)] assms(4) by (simp add: HttpParser_Parse_def Let_def)
qed

lemma partial_head_hangs:
  assumes "at_start p" and "mb_inv buf" and "partial_head (buf_contents buf)" and "ReadableBytes buf > 1"
  shows "HttpContext_Parse p buf evs = None"
proof -
  let ?q = "parse_clear p"
  have q: "at_start ?q" "parse_clear ?q = ?q" using cleared [OF assms(1)] by (simp_all add: at_start_def) (simp add: parse_clear_def)
  have "stuck ?q buf"
    using partial_head_round [OF q(1) assms(2-4)] assms(4) by (simp add: stuck_def q(2))
  then show ?thesis
    using loop_round [OF assms(4) partial_head_round [OF assms]] by (simp add: stuck_forever)
qed

text \<open>After an error, and while the line with a chunk's length is not complete, it is the same.\<close>

lemma error_hangs:
  assumes "hp_state p = kExpectError" and "ReadableBytes buf > 1"
  shows "HttpContext_Parse p buf evs = None"
proof -
  have "HttpParser_Parse p buf = Inr (kExpectError, p, buf)"
    using assms by (simp add: HttpParser_Parse_def Let_def parse_clear_def)
  then show ?thesis using assms(2) by (intro stuck_forever) (simp add: stuck_def)
qed

lemma chunk_length_hangs:
  assumes "hp_state p = kExpectChunkLen" and "FindCRLF buf = None" and "1 < ReadableBytes buf" "ReadableBytes buf \<le> 32"
  shows "HttpContext_Parse p buf evs = None"
proof -
  have "HttpParser_Parse p buf = Inr (kExpectChunkLen, p, buf)"
    using assms by (simp add: HttpParser_Parse_def Let_def parse_clear_def ParseChunkLen_def)
  then show ?thesis using assms(3) by (intro stuck_forever) (simp add: stuck_def)
qed

lemma messages_then_rest:
  assumes "\<forall>m \<in> set ms. message_ok m \<and> body_seen m" and "at_start p" and "mb_inv buf" and "partial_head rest"
    and "buf_contents buf = concat (map (\<lambda>m. bytes_of_string (message_text m)) ms) @ rest"
  shows "if length rest \<le> 1
         then \<exists>p' buf' es. HttpContext_Parse p buf evs = Some (Inr (p', buf', evs @ es)) \<and>
                at_start p' \<and> buf_contents buf' = rest \<and> list_all2 message_event ms es
         else HttpContext_Parse p buf evs = None"
proof -
  obtain p' buf' es where l: "HttpContext_Parse p buf evs = HttpContext_Parse p' buf' (evs @ es)"
    "at_start p'" "mb_inv buf'" "buf_contents buf' = rest" "list_all2 message_event ms es"
    using loop_messages [OF assms(1-3,5), of evs] by blast
  have r: "ReadableBytes buf' = length rest" using length_buf_contents [OF l(3)] l(4) by simp
  show ?thesis
  proof (cases "length rest \<le> 1")
    case True
    then show ?thesis using l r loop_end [of buf' p' "evs @ es"] by auto
  next
    case False
    then show ?thesis using partial_head_hangs [OF l(2,3)] l(1,4) assms(4) r by simp
  qed
qed

section \<open>Requests that crash\<close>

text \<open>A first line of one word has no \<open>list[1]\<close>.\<close>

lemma one_word_faults:
  assumes "line_ok w" and "CHR '' '' \<notin> set w" and "hp_header p = w"
  shows "ParseHeaders p = Inl OutOfBounds"
proof -
  have w: "w \<noteq> []" "CHR 0x0D \<notin> set w" using assms(1) by (simp_all add: line_ok_def)
  have "SplitString w crlf = [w]" using split_rest_last [OF w(2,1)] by (simp add: SplitString_def)
  moreover have "SplitString w '' '' = [w]" using split_rest_last [OF assms(2) w(1)] by (simp add: SplitString_def)
  ultimately show ?thesis
    by (simp add: ParseHeaders_def assms(3) ProcessMethodLine_def Let_def request_line_def status_line_def nth_checked_def)
qed

lemma one_word_request_faults:
  assumes "line_ok w" and "CHR '' '' \<notin> set w" and "at_start p" and "mb_inv buf"
    and "buf_contents buf = bytes_of_string (w @ crlfcrlf) @ rest"
  shows "HttpContext_Parse p buf evs = Some (Inl OutOfBounds)"
proof -
  define S where "S = string_of_bytes (buf_contents buf)"
  have S: "S = concat (map (\<lambda>l. l @ crlf) [w]) @ crlf @ string_of_bytes rest"
    unfolding S_def assms(5) by simp
  have f: "string_find crlfcrlf S = Some (length w)"
    unfolding S using find_header_end [of "[w]"] assms(1) by simp
  have "0 < length w" using assms(1) by (simp add: line_ok_def)
  then have "4 < length S" unfolding S by simp
  then have rd: "ReadableBytes buf > 4" using assms(4) by (simp add: S_def)
  have "take (length w) S = w" unfolding S by simp
  then have "ParseHeaders ((parse_clear p)\<lparr>hp_header := take (length w) S\<rparr>) = Inl OutOfBounds"
    using one_word_faults [OF assms(1,2)] by simp
  then have "ParseHead (parse_clear p) buf = Inl OutOfBounds"
    unfolding ParseHead_def S_def [symmetric] f using rd by simp
  then have "HttpParser_Parse p buf = Inl OutOfBounds"
    using rd cleared [OF assms(3)] by (simp add: HttpParser_Parse_def Let_def)
  then show ?thesis using rd by (subst HttpContext_Parse.simps) simp
qed

end
