(* ===== verification/HttpProps.thy ===== *)
theory HttpProps
  imports HttpMessage
begin

text \<open>
  The properties of HTTP: what the messages that \<open>HttpRequest.cc\<close> writes become at the other
  end, when the loop of \<open>HttpContext::Parse\<close> ends, and what posting sends.
\<close>

text \<open>
  C15. Messages written one after the other, requests and responses, are parsed as the same
  messages: for each, in order, the handler gets one request with the method or status code,
  version, decoded path, parameters and headers that were written, in whatever order the headers
  and parameters were written, and with the body as the packet. Headers and parameters are free
  of separators, a body is announced by its length and has not exactly one byte. What follows
  them decides whether the loop ends: it returns when at most one byte is left, and never does
  when a part of the next headers has arrived, for it goes on as long as bytes are in the buffer.
\<close>

theorem http_messages_parsed:
  assumes "\<forall>m \<in> set ms. message_ok m \<and> body_seen m" and "at_start p" and "mb_inv buf" and "partial_head rest"
    and "buf_contents buf = concat (map (\<lambda>m. bytes_of_string (message_text m)) ms) @ rest"
  shows "if length rest \<le> 1
         then \<exists>p' buf' es. HttpContext_Parse p buf evs = Some (Inr (p', buf', evs @ es)) \<and>
                at_start p' \<and> buf_contents buf' = rest \<and> list_all2 message_event ms es
         else HttpContext_Parse p buf evs = None"
  by (rule messages_then_rest [OF assms])

text \<open>A request with a parameter and a header, and a response with a body.\<close>

definition sample_request :: http_message where
  "sample_request =
     ([(''host'', ''a.cn'')], [(''id'', ''7'')],
      (HttpRequest_new True)\<lparr>rq_method := kGet, rq_version := kHttp11, rq_path := ''/live/my stream.flv'',
        rq_headers := [''host'' \<mapsto> ''a.cn''], rq_parameters := [''id'' \<mapsto> ''7'']\<rparr>)"

definition sample_response :: http_message where
  "sample_response =
     ([(''content-length'', ''2'')], [],
      (HttpRequest_new False)\<lparr>rq_version := kHttp11, rq_code := 200, rq_headers := [''content-length'' \<mapsto> ''2''],
        rq_body := ''ok''\<rparr>)"

lemma sample_messages_ok: "message_ok sample_request" "body_seen sample_request" "message_ok sample_response" "body_seen sample_response"
proof -
  have l: "lower_case ''host'' = ''host''" by code_simp
  have t: "Trim ''host'' = ''host''" "Trim ''a.cn'' = ''a.cn''" "Trim ''2'' = ''2''" "Trim ''content-length'' = ''content-length''"
    by (rule Trim_id; simp add: is_space_def)+
  have d: "decimal (length ''ok'') = ''2''" by (simp add: decimal.simps)
  have h: "header_ok (''host'', ''a.cn'')" "header_ok (''content-length'', ''2'')"
    unfolding header_ok_def prod.case l t lower_keys by simp_all
  have q: "param_ok (''id'', ''7'')" by (simp add: param_ok_def url_plain_def)
  show "message_ok sample_request" "body_seen sample_request"
    using h(1) q by (simp_all add: sample_request_def lists_map_def framed_def HttpRequest_new_def fun_eq_iff)
  show "message_ok sample_response" "body_seen sample_response"
    using h(2) d by (simp_all add: sample_response_def lists_map_def framed_def HttpRequest_new_def fun_eq_iff)
qed

definition sample_buffer :: "bytes \<Rightarrow> MsgBuffer" where
  "sample_buffer rest =
     (let d = bytes_of_string (message_text sample_request) @ bytes_of_string (message_text sample_response) @ rest
      in (MsgBuffer_new kBufferOffset)\<lparr>mb_buffer := replicate kBufferOffset 0 @ d, mb_tail := kBufferOffset + length d\<rparr>)"

lemma sample_buffer_ok: "mb_inv (sample_buffer rest)"
  "buf_contents (sample_buffer rest) =
     concat (map (\<lambda>m. bytes_of_string (message_text m)) [sample_request, sample_response]) @ rest"
  by (simp_all add: sample_buffer_def MsgBuffer_new_def mb_inv_def buf_contents_def Let_def kBufferOffset_def)

theorem http_messages_parsed_witness:
  "(\<exists>p' buf' es. HttpContext_Parse HttpParser_new (sample_buffer []) [] = Some (Inr (p', buf', es)) \<and>
      list_all2 message_event [sample_request, sample_response] es) \<and>
   HttpContext_Parse HttpParser_new (sample_buffer (bytes_of_string ''GET'')) [] = None"
proof -
  have s: "at_start HttpParser_new" by (simp add: at_start_def HttpParser_new_def)
  have m: "\<forall>m \<in> set [sample_request, sample_response]. message_ok m \<and> body_seen m"
    using sample_messages_ok by simp
  have g: "string_find crlfcrlf ''GET'' = None" by (simp add: prefix_def)
  have r: "partial_head []" "partial_head (bytes_of_string ''GET'')"
    unfolding partial_head_def contains_def string_of_bytes_of_string g by (simp_all add: kHttpMaxBodySize_def)
  note ok = http_messages_parsed [OF m s sample_buffer_ok(1) _ sample_buffer_ok(2), of _ "[]"]
  show ?thesis using ok [OF r(1)] ok [OF r(2)] by auto
qed

text \<open>
  C17. A request of one word, such as \<open>GET\<close> and an empty line, makes the parser read
  \<open>list[1]\<close> of a list with one element.
\<close>

theorem http_one_word_faults:
  assumes "line_ok w" and "CHR '' '' \<notin> set w" and "at_start p" and "mb_inv buf"
    and "buf_contents buf = bytes_of_string (w @ crlfcrlf) @ rest"
  shows "HttpContext_Parse p buf evs = Some (Inl OutOfBounds)"
  by (rule one_word_request_faults [OF assms])

definition one_word_buffer :: MsgBuffer where
  "one_word_buffer =
     (MsgBuffer_new kBufferOffset)\<lparr>mb_buffer := replicate kBufferOffset 0 @ bytes_of_string (''GET'' @ crlfcrlf),
        mb_tail := kBufferOffset + 7\<rparr>"

theorem http_one_word_faults_witness:
  "HttpContext_Parse HttpParser_new one_word_buffer [] = Some (Inl OutOfBounds)"
  by (rule http_one_word_faults [where w = "''GET''" and rest = "[]"])
    (simp_all add: line_ok_def at_start_def HttpParser_new_def mb_inv_def buf_contents_def one_word_buffer_def MsgBuffer_new_def kBufferOffset_def)

text \<open>
  What is encoded into a url is decoded again, whatever the characters: blanks, percent
  and plus signs, bytes above 127.
\<close>

theorem url_round_trip: "UrlDecode (UrlEncode s) = s"
  by (rule UrlDecode_UrlEncode)

text \<open>
  C16. What an \<open>HttpContext\<close> is asked to post is sent as it was accepted. It is posted to in all
  its ways, whenever writes complete: a text, a header with a packet, the header of a stream or
  of chunks, a stream chunk, a chunk, the end of the chunks. The bytes handed to the connection,
  with the body that is still to follow what is being written, are those it took, in order, and
  the handler is told once of each post that is not only a header when it is finished (and of a
  chunk that makes the header be written first, once more for the header). What it takes is what
  was posted, a chunk with its length in front, with two exceptions, both in the definition of
  \<open>posting\<close>: a stream chunk posted before any header makes it send the header field instead of
  the chunk, which is lost, though the call succeeds; and a chunk or the end of the chunks that
  is posted while a body is still to follow drops that body and its report. Neither a stream
  chunk nor a completion faults.
\<close>

theorem http_posts_delivered:
  assumes "posting c evs acc n"
  shows "sent_bytes evs @ to_send c = acc \<and>
         reports evs + to_report c = n \<and>
         (\<exists>c' es. HttpContext_WriteComplete c = Inr (c', es)) \<and>
         (\<forall>p. packet_inv p \<longrightarrow> (\<exists>r. PostStreamChunk p c = Inr r))"
  using posting_keeps [OF assms] posting_complete_ok [OF assms] PostStreamChunk_ok [of _ c]
  by (simp add: posting_inv_def)

text \<open>A fragment with its header, the header written and the body on its way.\<close>

definition sample_fragment :: "unit Packet" where
  "sample_fragment = \<lparr>pk_type = 0, pk_size = 2, pk_index = 0, pk_timestamp = 0, pk_capacity = 2, pk_ext = None, pk_data = [0x47, 1]\<rparr>"

theorem http_posts_delivered_witness:
  "\<exists>c evs. sent_bytes evs @ to_send c = bytes_of_string ''h'' @ [0x47, 1] \<and> to_send c = [] \<and>
     reports evs + to_report c = 1"
proof -
  have inv: "packet_inv sample_fragment" "payload sample_fragment = [0x47, 1]"
    by (simp_all add: sample_fragment_def packet_inv_def payload_def)
  obtain c1 es1 where 1: "PostRequest_packet ''h'' sample_fragment HttpPost_new = (True, c1, es1)"
    "hx_post_state c1 = kHttpContextPostHttpHeader" "hx_out_packet c1 = Some sample_fragment"
    by (simp add: PostRequest_packet_def HttpPost_new_def)
  from posting_packet [OF posting_new inv(1) 1(1)] have p1: "posting c1 es1 (bytes_of_string ''h'' @ [0x47, 1]) 1"
    by (simp add: accepted_def inv(2))
  obtain c2 es2 where 2: "HttpContext_WriteComplete c1 = Inr (c2, es2)" "hx_post_state c2 = kHttpContextPostHttpBody"
    using 1 send_packet_ok [OF 1(3) inv(1)] by (simp add: HttpContext_WriteComplete_def)
  from http_posts_delivered [OF posting_complete [OF p1 2(1)]] 2(2) show ?thesis
    by (intro exI [of _ c2] exI [of _ "es1 @ es2"]) (simp add: to_send_def)
qed

section \<open>Chunked bodies\<close>

text \<open>
  A negative length of a chunk sets the error state, which is overwritten at once, and a packet
  of negative size is made: the fault of \<open>NewPacket\<close>.
\<close>

lemma chunk_length_negative:
  assumes "hp_state p = kExpectChunkLen" and "mb_inv buf"
    and "buf_contents buf = bytes_of_string (''-5'' @ crlf) @ rest" and "length rest > 1" and "hp_chunk p = None"
  shows "HttpContext_Parse p buf evs = Some (Inl OutOfBounds)"
proof -
  have b: "bytes_of_string (''-5'' @ crlf) = [45, 53, 13, 10]" by (simp add: byte_of_char_def)
  have f: "FindCRLF buf = Some 2" unfolding FindCRLF_def assms(3) b by simp
  have "string_of_bytes (take 2 (buf_contents buf)) = ''-5''"
    unfolding assms(3) by simp
  moreover have "strtol ''-5'' 16 = -5" by (simp add: strtol_def ltrim_def is_space_def sign_of_def skip_0x_def digit_value_def)
  ultimately have len: "int32 (strtol (string_of_bytes (take 2 (buf_contents buf))) 16) = -5" by (simp add: int32_id)
  have rd: "ReadableBytes buf = 4 + length rest" using length_buf_contents [OF assms(2)] assms(3) by simp
  let ?p = "p\<lparr>hp_chunk_length := -3, hp_reason := 400, hp_state := kExpectChunkBody\<rparr>"
  have "ParseChunkLen p buf = Inr (?p, Retrieve 4 buf)"
    using rd by (simp add: ParseChunkLen_def f len Let_def RetrieveUntil_def bad_request_def int32_id)
  then have 1: "HttpParser_Parse p buf = Inr (kExpectChunkBody, ?p, Retrieve 4 buf)"
    using rd assms(1) by (simp add: HttpParser_Parse_def Let_def parse_clear_def)
  have "ReadableBytes (Retrieve 4 buf) = length rest"
    using length_buf_contents [OF Retrieve_inv [OF assms(2)], of 4] Retrieve_contents [OF assms(2), of 4] assms(3) b by simp
  then have r: "ReadableBytes (Retrieve 4 buf) > 1" using assms(4) by simp
  have "HttpParser_Parse ?p (Retrieve 4 buf) = Inl OutOfBounds"
    using r assms(5) by (simp add: HttpParser_Parse_def Let_def parse_clear_def ParseChunk_def fill_chunk_def NewPacket_def)
  then have "HttpContext_Parse ?p (Retrieve 4 buf) evs' = Some (Inl OutOfBounds)" for evs'
    using r by (subst HttpContext_Parse.simps) simp
  then show ?thesis using loop_round [of buf, OF _ 1] rd by simp
qed

text \<open>A chunk is sent without the line end that has to follow its bytes.\<close>

lemma chunk_unterminated:
  assumes "hx_header_sent c" and "packet_inv chunk"
  shows "\<exists>c1 es c2 fs. PostChunk chunk c = (c1, es) \<and> HttpContext_WriteComplete c1 = Inr (c2, fs) \<and>
           sent_bytes (es @ fs) = bytes_of_string (hex_text (pk_size chunk) @ crlf) @ payload chunk"
  using assms send_packet_ok [OF _ assms(2)]
  by (simp add: PostChunk_def Let_def HttpContext_WriteComplete_def)

end
