(* ===== verification/HlsInv.thy ===== *)
theory HlsInv
  imports Hls
begin

text \<open>
  The muxer on well-formed packets: the tables at the start of a segment, the frames behind them,
  and what the encoder keeps between packets.
\<close>

text \<open>The encoder's members agree: a type that is known has its identifier, and its encoder too.\<close>

definition te_inv :: "TsEncoder \<Rightarrow> bool" where
  "te_inv t \<longleftrightarrow> pat_inv (te_pat t) \<and> pmt_inv (te_pmt t) \<and>
     (te_audio_type t = kTsStreamReserved \<and> te_audio_pid t = 0xe000 \<or>
      te_audio_type t = kTsStreamAudioAAC \<and> te_audio_pid t = 0x101 \<and> ae_pid (te_audio t) = 0x101 \<or>
      te_audio_type t = kTsStreamAudioMp3 \<and> te_audio_pid t = 0x102 \<and> ae_pid (te_audio t) = 0x102) \<and>
     (te_video_type t = kTsStreamReserved \<and> te_video_pid t = 0xe000 \<or>
      te_video_type t = kTsStreamVideoH264 \<and> te_video_pid t = 0x100 \<and> ve_pid (te_video t) = 0x100)"

definition te_known :: "TsEncoder \<Rightarrow> bool" where
  "te_known t \<longleftrightarrow> te_audio_type t \<noteq> kTsStreamReserved \<and> te_video_type t \<noteq> kTsStreamReserved"

lemma TsEncoder_new_inv: "te_inv TsEncoder_new"
  by (simp add: te_inv_def TsEncoder_new_def pat_inv_def pmt_inv_def PmtWriter_new_def PatWriter_new_def)

lemma te_known_pids: "te_inv t \<Longrightarrow> te_known t \<Longrightarrow> te_audio_pid t \<noteq> 0xe000 \<and> te_video_pid t \<noteq> 0xe000"
  by (auto simp: te_inv_def te_known_def)

text \<open>The two tables, as a reader finds them.\<close>

definition tables_read :: "TsEncoder \<Rightarrow> bytes list \<Rightarrow> bytes list \<Rightarrow> bool" where
  "tables_read t pat pmt \<longleftrightarrow>
     (\<exists>b d. ts_unit 0 (psi_cc (te_pat t)) pat = Some (None, b) \<and> parse_section b = Some (0, 1, d) \<and> parse_pat d = Some [(1, 0x1001)]) \<and>
     (\<exists>b d. ts_unit 0x1001 (psi_cc (te_pmt t)) pmt = Some (None, b) \<and> parse_section b = Some (2, 1, d) \<and>
            parse_pmt d = Some (program_map (te_pmt t)))"

text \<open>The encoder after its tables: only the counters of the two tables have moved.\<close>

definition after_tables :: "bytes list \<Rightarrow> bytes list \<Rightarrow> TsEncoder \<Rightarrow> TsEncoder" where
  "after_tables pat pmt t =
     t\<lparr>te_pat := (te_pat t)\<lparr>psi_cc := cc_after (psi_cc (te_pat t)) (length pat)\<rparr>,
       te_pmt := (te_pmt t)\<lparr>psi_cc := cc_after (psi_cc (te_pmt t)) (length pmt)\<rparr>\<rparr>"

lemma after_tables_inv: "te_inv (after_tables pat pmt t) = te_inv t" "te_known (after_tables pat pmt t) = te_known t"
  "te_video (after_tables pat pmt t) = te_video t" "te_audio (after_tables pat pmt t) = te_audio t"
proof -
  have "pat_inv ((te_pat t)\<lparr>psi_cc := c\<rparr>) = pat_inv (te_pat t)" for c
    unfolding pat_inv_def PatWriter_new_def by (cases "te_pat t") simp
  then show "te_inv (after_tables pat pmt t) = te_inv t" "te_known (after_tables pat pmt t) = te_known t"
    "te_video (after_tables pat pmt t) = te_video t" "te_audio (after_tables pat pmt t) = te_audio t"
    by (simp_all add: after_tables_def te_inv_def te_known_def pmt_inv_def)
qed

context stream_writer begin

lemma WritePatPmt_ok:
  assumes "te_inv t" and "te_known t" and "tab_ok tab" and "ok (2640 + m) w"
  shows "\<exists>tab' w' pat pmt. WritePatPmt wr t tab w = Inr (after_tables pat pmt t, tab', w') \<and> tab_ok tab' \<and>
           wrote m w (concat pat @ concat pmt) w' \<and> tables_read t pat pmt"
proof -
  have "pat_inv (te_pat t)" "pmt_inv (te_pmt t)" using assms(1) by (simp_all add: te_inv_def)
  have "ok (188 + (32 + (2420 + m))) w" using assms(4) by simp
  from WritePat_ok [OF \<open>pat_inv _\<close> assms(3) this] obtain tab1 w1 pat b1 where
    p1: "WritePat wr (te_pat t) tab w = Inr ((te_pat t)\<lparr>psi_cc := cc_after (psi_cc (te_pat t)) (length pat)\<rparr>, tab1, w1)"
    "tab_ok tab1" "wrote (2420 + m) w (concat pat) w1" "ts_unit 0 (psi_cc (te_pat t)) pat = Some (None, b1)"
    "\<exists>d. parse_section b1 = Some (0, 1, d) \<and> parse_pat d = Some [(1, 0x1001)]" by blast
  have "ok (188 + (2232 + m)) w1" using wrote_ok [OF p1(3), of "188 + (2232 + m)"] by simp
  from WritePmt_ok [OF \<open>pmt_inv _\<close> p1(2) this] obtain tab2 w2 pmt b2 where
    p2: "WritePmt wr (te_pmt t) tab1 w1 = Inr ((te_pmt t)\<lparr>psi_cc := cc_after (psi_cc (te_pmt t)) (length pmt)\<rparr>, tab2, w2)"
    "tab_ok tab2" "wrote m w1 (concat pmt) w2" "ts_unit 0x1001 (psi_cc (te_pmt t)) pmt = Some (None, b2)"
    "\<exists>d. parse_section b2 = Some (2, 1, d) \<and> parse_pmt d = Some (program_map (te_pmt t))" by blast
  have "WritePatPmt wr t tab w = Inr (after_tables pat pmt t, tab2, w2)"
    using te_known_pids [OF assms(1,2)] p1(1) p2(1) by (simp add: WritePatPmt_def after_tables_def)
  then show ?thesis
    using p1 p2 wrote_trans [OF p1(3) p2(3)] unfolding tables_read_def by blast
qed

lemma WritePatPmt_base: "WritePatPmt wr t tab w = Inr (t', tab', w') \<Longrightarrow> same_base w w'"
  by (auto simp: WritePatPmt_def result_simps same_base_def split: if_splits
      dest!: WritePat_base [unfolded same_base_def] WritePmt_base [unfolded same_base_def])

end

section \<open>A key frame that begins a segment\<close>

lemma video_not_audio: "IsVideo p \<Longrightarrow> \<not> IsAudio p"
  by (auto simp: IsVideo_def IsAudio_def packet_type_defs)

lemma fr_ok_new: "n + 4 * kFragmentStepSize < 2 ^ 31 \<Longrightarrow>
    fr_ok n (SetSequenceNo q (SetBaseFileName now v (Fragment_Reset Fragment_new)))"
  by (simp add: fr_ok_def SetSequenceNo_def SetBaseFileName_def Fragment_Reset_def Fragment_new_def fragment_inv_def kFragmentStepSize_def)

definition new_fragment :: "int \<Rightarrow> string \<Rightarrow> int \<Rightarrow> 'e Fragment" where
  "new_fragment now name q = SetSequenceNo q (SetBaseFileName now name (Fragment_Reset Fragment_new))"

lemma new_fragment_fields:
  "fr_contents (new_fragment now name q) = []" "needs_params v (new_fragment now name q) = (\<not> vd_has_sps_pps v)"
  "fr_keep (new_fragment now name q) = (-1, 0, name @ ''_'' @ signed_text now @ ''.ts'', int32 q)"
  by (simp_all add: new_fragment_def SetSequenceNo_def SetBaseFileName_def Fragment_Reset_def Fragment_new_def fr_contents_def
      needs_params_def fr_keep_def)

text \<open>A frame of H.264 as the muxer gets it: the tag's first byte, the units, and their sizes.\<close>

definition avc_packet :: "'p Packet \<Rightarrow> VideoDemux \<Rightarrow> u32 \<Rightarrow> bytes list \<Rightarrow> bool" where
  "avc_packet p v cts nals \<longleftrightarrow> IsVideo p \<and> packet_inv p \<and> pk_size p < 2 ^ 26 \<and>
     (\<exists>b. payload p = video_frame b cts (vd_nalu_unit_length v) nals \<and> b AND 0x0f = kVideoCodecIDAVC \<and> drop_bit 4 b \<noteq> 5) \<and>
     nals \<noteq> [] \<and> (\<forall>x \<in> set nals. nal_fits (vd_nalu_unit_length v) x)"

definition demux_ok :: "VideoDemux \<Rightarrow> bool" where
  "demux_ok v \<longleftrightarrow> vd_sps v \<noteq> [] \<and> vd_pps v \<noteq> [] \<and> length (vd_sps v) < 2 ^ 15 \<and> length (vd_pps v) < 2 ^ 15 \<and>
     vd_payload_format v \<noteq> kPayloadFormatAnnexB"

lemma avc_packet_header: "avc_packet p v cts nals \<Longrightarrow> TsTool_IsCodecHeader p = Inr False"
proof -
  assume a: "avc_packet p v cts nals"
  then obtain b where b: "payload p = video_frame b cts (vd_nalu_unit_length v) nals" by (auto simp: avc_packet_def)
  have d: "pk_data p = payload p @ drop (pk_size p) (pk_data p)" by (simp add: payload_def)
  have "pk_data p = b # 1 # WriteUint24T cts @ avcc_encode (vd_nalu_unit_length v) nals @ drop (pk_size p) (pk_data p)"
    by (subst d) (simp add: b video_frame_def)
  then have "nth_checked (pk_data p) 1 = Inr 1" by (metis One_nat_def nth_checked_simps(2))
  then show ?thesis by (simp add: TsTool_IsCodecHeader_def)
qed

text \<open>A start code is no longer than four length bytes, so little is added to the packet's size.\<close>

lemma annexb_param_length:
  "length (annexb (param_units need sps pps nals)) \<le> length (annexb nals) + length sps + length pps + 6"
proof (induction nals arbitrary: need)
  case (Cons x xs)
  from Cons.IH [of need] Cons.IH [of False] show ?case
  proof -
    have "length (annexb (param_units False sps pps ys)) = length (annexb ys)" for ys
      by (induction ys) (simp_all add: annexb_def)
    with Cons.IH [of need] show ?thesis by (simp add: annexb_def)
  qed
qed (simp add: annexb_def)

lemma annexb_avcc: "(\<forall>x \<in> set nals. nal_fits unit x) \<Longrightarrow> length (annexb nals) \<le> 2 * length (avcc_encode unit nals)"
proof (induction nals)
  case (Cons x xs)
  then have x: "nal_fits unit x" "0 < length x" by (auto simp: nal_fits_def)
  have "length (annexb (x # xs)) = 3 + length x + length (annexb xs)" by (simp add: annexb_def)
  moreover have "length (avcc_encode unit (x # xs)) = unat unit + 1 + length x + length (avcc_encode unit xs)"
    using length_unit_prefix [OF x(1)] by (simp add: avcc_encode_def)
  moreover have "length (annexb xs) \<le> 2 * length (avcc_encode unit xs)" using Cons by simp
  ultimately show ?case using x(2) by linarith
qed (simp add: annexb_def)

lemma after_frame_fields [simp]:
  "vd_sps (after_frame cts nals v) = vd_sps v" "vd_pps (after_frame cts nals v) = vd_pps v"
  "vd_nalu_unit_length (after_frame cts nals v) = vd_nalu_unit_length v"
  "vd_composition_time (after_frame cts nals v) = uint (take_bit 24 cts)"
  "vd_payload_format (after_frame cts nals v) = kPayloadFormatAvcc"
  by (simp_all add: after_frame_def)

lemma annexb_length:
  assumes "avc_packet p v cts nals" and "demux_ok v"
  shows "length (annexb (frame_units (after_frame cts nals v) w nals)) < 2 ^ 28"
proof -
  let ?u = "vd_nalu_unit_length v"
  have l: "length (payload p) = pk_size p" "pk_size p < 2 ^ 26" using assms(1) by (simp_all add: avc_packet_def packet_inv_def payload_def)
  obtain b where "payload p = video_frame b cts ?u nals" using assms(1) by (auto simp: avc_packet_def)
  then have "length (avcc_encode ?u nals) < 2 ^ 26" using l by (simp add: video_frame_def)
  then have n: "length (annexb nals) < 2 ^ 27" using annexb_avcc [of nals ?u] assms(1) by (simp add: avc_packet_def)
  let ?p = "param_units (needs_params (after_frame cts nals v) w) (vd_sps v) (vd_pps v) nals"
  have "length (annexb ?p) \<le> length (annexb nals) + length (vd_sps v) + length (vd_pps v) + 6" by (rule annexb_param_length)
  then have "length (annexb ?p) < 2 ^ 27 + 2 ^ 15 + 2 ^ 15 + 6" using n assms(2) by (simp add: demux_ok_def)
  moreover have "length (annexb (frame_units (after_frame cts nals v) w nals)) \<le> length (annexb ?p) + 5"
    by (auto simp: frame_units_def annexb_append) (simp_all add: annexb_def)
  ultimately show ?thesis by simp
qed

context timed_writer begin

lemma Encode_frame:
  assumes "ve_pid (te_video t) < 0x2000" and "avc_packet p v cts nals" and "v = ve_demux (te_video t)" and "demux_ok v"
    and "v' = after_frame cts nals v" and "us = frame_units v' w nals" and "ok (188 + (2 ^ 29 + m)) w"
    and "dts = pk_timestamp p * 90"
  shows "\<exists>w' pk body. Encode wr ats p (pk_timestamp p) t w =
             Inr (0, t\<lparr>te_video := (te_video t)\<lparr>ve_demux := v', ve_cc := cc_after (ve_cc (te_video t)) (length pk)\<rparr>\<rparr>, w') \<and>
           wrote m (ats (sint (pk_timestamp p)) w) (concat pk) w' \<and>
           ts_unit (ve_pid (te_video t)) (ve_cc (te_video t)) pk =
             Some (if IsKeyFrame p then Some (take_bit 33 (pts_of v' dts)) else None, body) \<and>
           parse_pes body = Some \<lparr>pes_stream = 0xe0, pes_pts = take_bit 33 (pts_of v' dts),
             pes_dts = (if pts_of v' dts = dts then None else Some (take_bit 33 dts)), pes_data = annexb us\<rparr>"
proof -
  have l: "length (annexb us) < 2 ^ 28" unfolding assms(5,6) by (rule annexb_length [OF assms(2,4)])
  have "ok (188 + (2 * length (annexb us) + m)) w" using l by (intro ok_less [OF assms(7)]) simp
  moreover obtain b where "payload p = video_frame b cts (vd_nalu_unit_length v) nals" "b AND 0x0f = kVideoCodecIDAVC" "drop_bit 4 b \<noteq> 5"
    using assms(2) by (auto simp: avc_packet_def)
  moreover have "params_ok (ve_demux (te_video t))" "vd_payload_format (ve_demux (te_video t)) \<noteq> kPayloadFormatAnnexB"
    using assms(4) by (auto simp: demux_ok_def params_ok_def assms(3))
  ultimately show ?thesis
    using EncodeVideo_ok [where e = "te_video t" and p = p and b = b and cts = cts and nals = nals and v = v' and us = us and m = m
        and w = w and key = "IsKeyFrame p" and dts = "pk_timestamp p"] assms l video_not_audio [of p]
    by (fastforce simp: Encode_def avc_packet_def)
qed

end

section \<open>The muxer\<close>

definition frame_read :: "u16 \<Rightarrow> u8 \<Rightarrow> bytes list \<Rightarrow> u64 option \<Rightarrow> pes \<Rightarrow> bool" where
  "frame_read pid cc pk pcr f \<longleftrightarrow> (\<exists>body. ts_unit pid cc pk = Some (pcr, body) \<and> parse_pes body = Some f)"

text \<open>Both sequence headers have been seen, and frames have their lengths in front.\<close>

definition muxer_ready :: "'e HLSMuxer \<Rightarrow> u32 list option \<Rightarrow> bool" where
  "muxer_ready m tab \<longleftrightarrow> te_inv (hm_encoder m) \<and> te_known (hm_encoder m) \<and> tab_ok tab \<and> fw_free (hm_window m) = [] \<and>
     demux_ok (ve_demux (te_video (hm_encoder m)))"

lemma te_known_video: "te_inv t \<Longrightarrow> te_known t \<Longrightarrow> ve_pid (te_video t) = 0x100"
  by (auto simp: te_inv_def te_known_def)

lemma te_inv_video: "te_inv (t\<lparr>te_video := (te_video t)\<lparr>ve_demux := v, ve_cc := c\<rparr>\<rparr>) = te_inv t"
  "te_known (t\<lparr>te_video := (te_video t)\<lparr>ve_demux := v, ve_cc := c\<rparr>\<rparr>) = te_known t"
  by (simp_all add: te_inv_def te_known_def)

definition video_pes :: "VideoDemux \<Rightarrow> u64 \<Rightarrow> bytes list \<Rightarrow> pes" where
  "video_pes v dts us = \<lparr>pes_stream = 0xe0, pes_pts = take_bit 33 (pts_of v dts),
     pes_dts = (if pts_of v dts = dts then None else Some (take_bit 33 dts)), pes_data = annexb us\<rparr>"

lemma OnPacket_frame:
  assumes "open_fragment now (cut_fragment p m) tab = Inr (m1, tab1, f1)" and "muxer_ready m1 tab1"
    and "v = ve_demux (te_video (hm_encoder m1))" and "avc_packet p v cts nals"
    and "v' = after_frame cts nals v" and "fr_ok (188 + (2 ^ 29 + n)) f1" and "dts = pk_timestamp p * 90"
  shows "\<exists>m' g pk. HLSMuxer_OnPacket now p m tab = Inr (m', tab1) \<and> muxer_ready m' tab1 \<and>
           hm_current m' = Some g \<and> hm_window m' = hm_window m1 \<and> hm_seq_no m' = hm_seq_no m1 \<and> hm_stream_name m' = hm_stream_name m1 \<and>
           fr_contents g = fr_contents f1 @ concat pk \<and> fr_keep g = fr_stamp (sint (pk_timestamp p)) (fr_keep f1) \<and> fr_ok n g \<and>
           frame_read 0x100 (ve_cc (te_video (hm_encoder m1))) pk
             (if IsKeyFrame p then Some (take_bit 33 (pts_of v' dts)) else None) (video_pes v' dts (frame_units v' f1 nals))"
proof -
  let ?t = "hm_encoder m1"
  have t: "te_inv ?t" "te_known ?t" "demux_ok v" using assms(2) by (simp_all add: muxer_ready_def assms(3))
  have pid: "ve_pid (te_video ?t) = 0x100" by (rule te_known_video [OF t(1,2)])
  then have "ve_pid (te_video ?t) < 0x2000" by simp
  from frag.Encode_frame [OF this assms(4,3) t(3) assms(5) refl assms(6,7)] obtain g pk body where
    g: "Encode Fragment_Write AppendTimeStamp p (pk_timestamp p) ?t f1 =
          Inr (0, ?t\<lparr>te_video := (te_video ?t)\<lparr>ve_demux := v', ve_cc := cc_after (ve_cc (te_video ?t)) (length pk)\<rparr>\<rparr>, g)"
    "frag.wrote n (AppendTimeStamp (sint (pk_timestamp p)) f1) (concat pk) g"
    "ts_unit (ve_pid (te_video ?t)) (ve_cc (te_video ?t)) pk = Some (if IsKeyFrame p then Some (take_bit 33 (pts_of v' dts)) else None, body)"
    "parse_pes body = Some (video_pes v' dts (frame_units v' f1 nals))"
    unfolding video_pes_def by blast
  have h: "HLSMuxer_IsCodecHeader p = Inr False" using avc_packet_header [OF assms(4)] by (simp add: HLSMuxer_IsCodecHeader_def)
  define m' where "m' = m1\<lparr>hm_encoder := ?t\<lparr>te_video := (te_video ?t)\<lparr>ve_demux := v', ve_cc := cc_after (ve_cc (te_video ?t)) (length pk)\<rparr>\<rparr>,
    hm_current := Some g\<rparr>"
  have "HLSMuxer_OnPacket now p m tab = Inr (m', tab1)"
    using assms(1) h g(1) by (simp add: HLSMuxer_OnPacket_def m'_def)
  moreover have "muxer_ready m' tab1"
    using assms(2) t(3) te_inv_video [where t = ?t] by (simp add: muxer_ready_def m'_def demux_ok_def assms(3,5))
  moreover have "frame_read 0x100 (ve_cc (te_video ?t)) pk (if IsKeyFrame p then Some (take_bit 33 (pts_of v' dts)) else None)
      (video_pes v' dts (frame_units v' f1 nals))"
    using g(3,4) unfolding frame_read_def pid by blast
  ultimately show ?thesis
    using g(2) by (intro exI [of _ m'] exI [of _ g] exI [of _ pk]) (simp add: m'_def frag.wrote_def fr_stamped)
qed

text \<open>A frame for the segment that is open, and one that begins a segment.\<close>

lemma OnPacket_continues:
  assumes "muxer_ready m tab" and "hm_current m = Some f" and "cut_fragment p m = m"
  shows "open_fragment now (cut_fragment p m) tab = Inr (m, tab, f)"
  using assms by (simp add: open_fragment_def)

lemma open_new_fragment:
  fixes m :: "'e HLSMuxer"
  assumes "muxer_ready m tab" and "hm_current m = None" and "n + 2640 + 4 * kFragmentStepSize < 2 ^ 31"
  shows "\<exists>tab' f pat pmt. open_fragment now m tab =
             Inr (m\<lparr>hm_encoder := after_tables pat pmt (hm_encoder m), hm_seq_no := hm_seq_no m + 1\<rparr>, tab', f) \<and> tab_ok tab' \<and>
           fr_contents f = concat pat @ concat pmt \<and> tables_read (hm_encoder m) pat pmt \<and> fr_ok n f \<and>
           fr_keep f = fr_keep (new_fragment now (hm_stream_name m) (hm_seq_no m) :: 'e Fragment) \<and>
           (\<forall>v. needs_params v f = (\<not> vd_has_sps_pps v))"
proof -
  let ?f = "new_fragment now (hm_stream_name m) (hm_seq_no m) :: 'e Fragment"
  have "fr_ok (2640 + n) ?f" using assms(3) unfolding new_fragment_def by (intro fr_ok_new) simp
  moreover have "te_inv (hm_encoder m)" "te_known (hm_encoder m)" "tab_ok tab" using assms(1) by (simp_all add: muxer_ready_def)
  ultimately obtain tab' f pat pmt where f: "WritePatPmt Fragment_Write (hm_encoder m) tab ?f = Inr (after_tables pat pmt (hm_encoder m), tab', f)"
    "tab_ok tab'" "frag.wrote n ?f (concat pat @ concat pmt) f" "tables_read (hm_encoder m) pat pmt"
    using frag.WritePatPmt_ok by blast
  have "same_base ?f f" by (rule frag.WritePatPmt_base [OF f(1)])
  then have "needs_params v f = needs_params v ?f" for v by (simp add: needs_params_def same_base_def)
  moreover have "open_fragment now m tab =
      Inr (m\<lparr>hm_encoder := after_tables pat pmt (hm_encoder m), hm_seq_no := hm_seq_no m + 1\<rparr>, tab', f)"
    using assms(1,2) f(1) by (simp add: open_fragment_def GetIdleFragment_def muxer_ready_def new_fragment_def Let_def)
  ultimately show ?thesis
    using f by (intro exI [of _ tab'] exI [of _ f] exI [of _ pat] exI [of _ pmt]) (simp add: frag.wrote_def new_fragment_fields)
qed

lemma ready_after_tables:
  "muxer_ready m tab \<Longrightarrow> tab_ok tab' \<Longrightarrow>
     muxer_ready (m\<lparr>hm_encoder := after_tables pat pmt (hm_encoder m), hm_seq_no := n\<rparr>) tab'"
  by (simp add: muxer_ready_def after_tables_inv)

lemma ready_cut: "muxer_ready m tab \<Longrightarrow> muxer_ready (cut_fragment p m) tab"
  by (auto simp: muxer_ready_def cut_fragment_def AppendFragment_fields split: option.splits)

section \<open>Changing the audio type\<close>

text \<open>What happens when the audio codec alternates between AAC and MP3, \<open>n\<close> times.\<close>

primrec switch_audio ::
    "nat \<Rightarrow> bool \<Rightarrow> TsEncoder \<Rightarrow> u32 list option \<Rightarrow> 'e Fragment \<Rightarrow> (TsEncoder \<times> u32 list option \<times> 'e Fragment) result" where
  "switch_audio 0 mp3 t tab f = Inr (t, tab, f)"
| "switch_audio (Suc n) mp3 t tab f =
     rbind (SetStreamType Fragment_Write kVideoCodecIDReserved (if mp3 then kAudioCodecIDMP3 else kAudioCodecIDAAC) t tab f)
       (\<lambda>(t, tab, f). switch_audio n (\<not> mp3) t tab f)"

definition with_audio :: "bool \<Rightarrow> TsEncoder \<Rightarrow> TsEncoder" where
  "with_audio mp3 t =
     (let pid = (if mp3 then 0x102 else 0x101); type = (if mp3 then kTsStreamAudioMp3 else kTsStreamAudioAAC)
      in t\<lparr>te_audio_pid := pid, te_pmt := AddProgramInfo \<lparr>pi_stream_type = type, pi_elementary_pid = pid\<rparr> (te_pmt t),
           te_audio := (te_audio t)\<lparr>ae_pid := pid, ae_type := type\<rparr>, te_audio_type := type\<rparr>)"

lemma SetStreamType_audio:
  assumes "te_audio_type t \<noteq> (if mp3 then kTsStreamAudioMp3 else kTsStreamAudioAAC)"
  shows "SetStreamType wr kVideoCodecIDReserved (if mp3 then kAudioCodecIDMP3 else kAudioCodecIDAAC) t tab f =
           WritePatPmt wr (with_audio mp3 t) tab f"
  using assms
  by (auto simp: SetStreamType_def set_audio_type_def set_video_type_def with_audio_def kAudioCodecIDMP3_def kAudioCodecIDAAC_def
      kVideoCodecIDReserved_def kVideoCodecIDAVC_def ts_stream_defs)

lemma with_audio_inv:
  assumes "te_inv t" and "length (pmt_programs (te_pmt t)) < 201"
  shows "te_inv (with_audio mp3 t)"
  using assms by (auto simp: te_inv_def with_audio_def Let_def AddProgramInfo_def pmt_inv_def)

lemma with_audio_fields:
  "te_audio_type (with_audio mp3 t) = (if mp3 then kTsStreamAudioMp3 else kTsStreamAudioAAC)"
  "te_known t \<Longrightarrow> te_known (with_audio mp3 t)" "te_pat (with_audio mp3 t) = te_pat t"
  "length (pmt_programs (te_pmt (with_audio mp3 t))) = length (pmt_programs (te_pmt t)) + 1"
  by (auto simp: with_audio_def te_known_def AddProgramInfo_def Let_def ts_stream_defs)

lemma switch_audio_overruns:
  assumes "te_inv t" and "te_known t" and "tab_ok tab" and "te_audio_type t \<noteq> (if mp3 then kTsStreamAudioMp3 else kTsStreamAudioAAC)"
    and "length (pmt_programs (te_pmt t)) + n = 201" and "fr_ok (2640 * (n + 1)) f"
  shows "switch_audio (Suc n) mp3 t tab f = Inl OutOfBounds"
  using assms
proof (induction n arbitrary: mp3 t tab f)
  case 0
  let ?t = "with_audio mp3 t"
  have "fr_ok (188 + (32 + 2420)) f" using 0 by simp
  then obtain x' tab' f' where "WritePat Fragment_Write (te_pat t) tab f = Inr (x', tab', f')"
    using frag.WritePat_ok [of "te_pat t" tab 2420 f] 0 by (auto simp: te_inv_def)
  moreover have "te_audio_pid ?t \<noteq> 0xe000" "te_video_pid ?t \<noteq> 0xe000"
    using te_known_pids [OF 0(1,2)] by (simp_all add: with_audio_def Let_def)
  moreover have "WritePmt Fragment_Write (te_pmt ?t) tab' f' = Inl OutOfBounds"
    by (rule WritePmt_overrun) (use 0 in \<open>simp add: with_audio_fields\<close>)
  ultimately have "WritePatPmt Fragment_Write ?t tab f = Inl OutOfBounds"
    by (simp add: WritePatPmt_def with_audio_fields)
  then show ?case
    by (subst switch_audio.simps) (simp only: SetStreamType_audio [OF 0(4)] rbind_simps)
next
  case (Suc n)
  let ?t = "with_audio mp3 t"
  have i: "te_inv ?t" "te_known ?t" using with_audio_inv Suc.prems by (auto simp: with_audio_fields)
  have "fr_ok (2640 + 2640 * (n + 1)) f" using Suc.prems(6) by (simp add: algebra_simps)
  from frag.WritePatPmt_ok [OF i Suc.prems(3) this] obtain tab' f' pat pmt where
    w: "WritePatPmt Fragment_Write ?t tab f = Inr (after_tables pat pmt ?t, tab', f')" "tab_ok tab'"
    "frag.wrote (2640 * (n + 1)) f (concat pat @ concat pmt) f'" by blast
  have "switch_audio (Suc n) (\<not> mp3) (after_tables pat pmt ?t) tab' f' = Inl OutOfBounds"
  proof (rule Suc.IH)
    show "te_audio_type (after_tables pat pmt ?t) \<noteq> (if \<not> mp3 then kTsStreamAudioMp3 else kTsStreamAudioAAC)"
      by (simp add: after_tables_def with_audio_fields ts_stream_defs)
    show "length (pmt_programs (te_pmt (after_tables pat pmt ?t))) + n = 201"
      using Suc.prems(5) by (simp add: after_tables_def with_audio_fields)
  qed (use i w in \<open>simp_all add: after_tables_inv frag.wrote_def\<close>)
  then show ?case
    by (subst switch_audio.simps) (simp only: SetStreamType_audio [OF Suc.prems(4)] w(1) rbind_simps prod.case)
qed

end
