(* ===== verification/HlsHeaders.thy ===== *)
theory HlsHeaders
  imports HlsInv
begin

text \<open>
  What the muxer does with the sequence headers of a stream: an AAC header and an AVC header bring it into the state in
  which frames are muxed.
\<close>

section \<open>The sequence headers\<close>

definition aac_header :: "'p Packet \<Rightarrow> u8 \<Rightarrow> u8 \<Rightarrow> bool" where
  "aac_header p c0 c1 \<longleftrightarrow> IsAudio p \<and> packet_inv p \<and> pk_size p < 2 ^ 26 \<and>
     (\<exists>b r. payload p = b # 0 # c0 # c1 # r \<and> drop_bit 4 b = kAudioCodecIDAAC)"

definition avc_header :: "'p Packet \<Rightarrow> u8 \<Rightarrow> bytes \<Rightarrow> bytes \<Rightarrow> bool" where
  "avc_header p unit sps pps \<longleftrightarrow> IsVideo p \<and> packet_inv p \<and> unit < 4 \<and> 0 < length sps \<and> length sps < 2 ^ 15 \<and>
     0 < length pps \<and> length pps < 2 ^ 15 \<and>
     (\<exists>b cts h. payload p = b # 0 # WriteUint24T cts @ avc_config h unit sps pps \<and> length h = 4 \<and>
        b AND 0x0f = kVideoCodecIDAVC \<and> drop_bit 4 b \<noteq> 5)"

lemma audio_not_video: "IsAudio p \<Longrightarrow> \<not> IsVideo p"
  by (auto simp: IsVideo_def IsAudio_def packet_type_defs)

lemma packet_data:
  assumes "packet_inv p" and "payload p = d"
  obtains r where "pk_data p = d @ r" "pk_size p = length d"
proof
  show "pk_data p = d @ drop (pk_size p) (pk_data p)" using assms(2) by (simp add: payload_def flip: assms(2))
  show "pk_size p = length d" using assms by (auto simp: payload_def packet_inv_def)
qed

lemma short_len:
  assumes "n < 2 ^ 26"
  shows "\<not> (of_nat (4 + n) :: u64) < 1" "(0 :: u64) < of_nat (2 + n)"
    "sint (ucast (of_nat (2 + n) :: u64) :: u32) = int (2 + n)"
proof -
  have u: "unat (of_nat (4 + n) :: u64) = 4 + n" "unat (of_nat (2 + n) :: u64) = 2 + n"
    by (rule unat64; use assms in simp)+
  show "\<not> (of_nat (4 + n) :: u64) < 1" unfolding word_less_nat_alt u by simp
  show "(0 :: u64) < of_nat (2 + n)" unfolding word_less_nat_alt u by simp
  have "sint (of_nat (2 + n) :: u32) = signed_take_bit 31 (int (2 + n))" by (simp only: signed_of_nat) simp
  also have "\<dots> = int (2 + n)" by (rule signed_take_bit_int_eq_self) (use assms in simp_all)
  finally show "sint (ucast (of_nat (2 + n) :: u64) :: u32) = int (2 + n)" unfolding ucast_len .
qed

lemma high_nibble: "drop_bit 4 (b AND 0xf0) = drop_bit 4 (b :: u8)" "drop_bit 4 b AND 15 = drop_bit 4 (b :: u8)"
proof -
  have m: "drop_bit 4 b AND mask 4 = drop_bit 4 b"
    by (intro bit_word_eqI) (auto simp: bit_drop_bit_eq bit_and_iff bit_mask_iff dest: bit_imp_le_length simp del: mask_numeral)
  have "drop_bit 4 (b AND 0xf0) = drop_bit 4 b AND mask 4" by (simp only: drop_bit_and) (simp add: mask_eq_exp_minus_1)
  then show "drop_bit 4 (b AND 0xf0) = drop_bit 4 b" unfolding m .
  show "drop_bit 4 b AND 15 = drop_bit 4 b" using m by (simp add: mask_eq_exp_minus_1)
qed

definition aac_sequence :: "u8 \<Rightarrow> u8 \<Rightarrow> u8 \<Rightarrow> AudioDemux \<Rightarrow> AudioDemux" where
  "aac_sequence b c0 c1 a =
     a\<lparr>ad_sound_format := drop_bit 4 b, ad_sound_rate := drop_bit 2 (b AND 0xc0),
       ad_sound_size := drop_bit 1 (b AND 0x02), ad_sound_type := b AND 0x01, ad_aac_object := ucast (drop_bit 4 c0),
       ad_aac_sample_rate := push_bit 1 (ucast (take_bit 4 c0)) OR ucast (drop_bit 7 c1),
       ad_aac_channel := take_bit 4 (drop_bit 3 c1), ad_aac_ok := True\<rparr>"

lemma aac_header_demux:
  assumes "aac_header p c0 c1"
  obtains b where "AudioDemux_OnDemux (pk_data p) (of_nat (pk_size p)) [] a = Inr (0, [], aac_sequence b c0 c1 a)"
    "TsTool_IsCodecHeader p = Inr True" "nth_checked (pk_data p) 0 = Inr b" "drop_bit 4 b = kAudioCodecIDAAC"
proof -
  obtain b r where b: "payload p = b # 0 # c0 # c1 # r" "drop_bit 4 b = kAudioCodecIDAAC" "packet_inv p" "pk_size p < 2 ^ 26"
    using assms by (auto simp: aac_header_def)
  obtain x where "pk_data p = (b # 0 # c0 # c1 # r) @ x" and "pk_size p = length (b # 0 # c0 # c1 # r)"
    by (rule packet_data [OF b(3,1)])
  then have d: "pk_data p = b # 0 # c0 # c1 # r @ x" "pk_size p = 4 + length r" by simp_all
  have "length r < 2 ^ 26" using b(4) d(2) by simp
  note l = short_len [OF this]
  have sz: "(of_nat (4 + length r) :: u64) - 2 = of_nat (2 + length r)" by simp
  define a0 where "a0 = a\<lparr>ad_sound_format := drop_bit 4 b, ad_sound_rate := drop_bit 2 (b AND 0xc0),
    ad_sound_size := drop_bit 1 (b AND 0x02), ad_sound_type := b AND 0x01\<rparr>"
  have n: "nth_checked (pk_data p) 0 = Inr b" "nth_checked (pk_data p) 1 = Inr 0" "drop 2 (pk_data p) = c0 # c1 # r @ x"
    by (simp_all add: d)
  have "DemuxAACSequenceHeader (c0 # c1 # r @ x) (int (2 + length r)) a0 = Inr (0, aac_sequence b c0 c1 a)"
    by (subst aac_config_read) (simp_all add: a0_def aac_sequence_def)
  then have "DemuxAAC (pk_data p) (of_nat (4 + length r)) [] a0 = Inr (0, [], aac_sequence b c0 c1 a)"
    unfolding DemuxAAC_def n rbind_simps sz l(3) using l(2) by (simp only: simp_thms if_True rbind_simps prod.case)
  moreover have "drop_bit 4 b \<noteq> kAudioCodecIDMP3" using b(2) by (simp add: kAudioCodecIDAAC_def kAudioCodecIDMP3_def)
  ultimately have "AudioDemux_OnDemux (pk_data p) (of_nat (pk_size p)) [] a = Inr (0, [], aac_sequence b c0 c1 a)"
    unfolding AudioDemux_OnDemux_def n rbind_simps Let_def d(2) a0_def [symmetric] using b(2) l(1) by (simp only: if_False if_True refl)
  moreover have "TsTool_IsCodecHeader p = Inr True" unfolding TsTool_IsCodecHeader_def n by (simp add: d)
  ultimately show ?thesis using n(1) b(2) by (rule that)
qed

lemma avc_header_demux:
  assumes "avc_header p unit sps pps"
  shows "\<exists>v'. VideoDemux_OnDemux (pk_data p) (of_nat (pk_size p)) [] v = Inr (0, [], v') \<and> TsTool_IsCodecHeader p = Inr True \<and>
           (\<exists>b. nth_checked (pk_data p) 0 = Inr b \<and> b AND 0x0f = kVideoCodecIDAVC) \<and>
           vd_sps v' = sps \<and> vd_pps v' = pps \<and> vd_nalu_unit_length v' = unit \<and> vd_payload_format v' = vd_payload_format v"
proof -
  obtain b cts h where b: "payload p = b # 0 # WriteUint24T cts @ avc_config h unit sps pps" "length h = 4"
    "b AND 0x0f = kVideoCodecIDAVC" "drop_bit 4 b \<noteq> 5" "packet_inv p" "unit < 4" "length sps < 2 ^ 15" "length pps < 2 ^ 15"
    using assms by (auto simp: avc_header_def)
  obtain x where d: "pk_data p = b # 0 # WriteUint24T cts @ avc_config h unit sps pps @ x"
    "pk_size p = 5 + length (avc_config h unit sps pps)"
    using packet_data [OF b(5,1)] by auto
  have sz: "(of_nat (5 + length (avc_config h unit sps pps)) :: u64) - 5 = of_nat (length (avc_config h unit sps pps))" by simp
  have w: "drop 5 (pk_data p) = avc_config h unit sps pps @ x" "drop 2 (pk_data p) = WriteUint24T cts @ avc_config h unit sps pps @ x"
    "nth_checked (pk_data p) 0 = Inr b" "nth_checked (pk_data p) 1 = Inr 0" by (simp_all add: d)
  have one: "1 < pk_size p" by (simp add: d)
  show ?thesis
    using w b(3,4) one DecodeAVCSeqHeader_config [OF b(2,6-8), of x]
    by (simp add: VideoDemux_OnDemux_def DemuxAVC_def Let_def d(2) sz TsTool_IsCodecHeader_def with_config_def del: of_nat_add)
qed


section \<open>The muxer becomes ready\<close>

text \<open>The encoder after an AAC header, and after an AVC header.\<close>

definition te_audio_set :: "AudioDemux \<Rightarrow> TsEncoder" where
  "te_audio_set a = TsEncoder_new\<lparr>te_audio_pid := 0x101,
     te_pmt := AddProgramInfo \<lparr>pi_stream_type = kTsStreamAudioAAC, pi_elementary_pid = 0x101\<rparr> PmtWriter_new,
     te_audio := AudioEncoder_new\<lparr>ae_pid := 0x101, ae_type := kTsStreamAudioAAC, ae_demux := a\<rparr>, te_audio_type := kTsStreamAudioAAC\<rparr>"

definition te_both_set :: "AudioDemux \<Rightarrow> VideoDemux \<Rightarrow> TsEncoder" where
  "te_both_set a v = (te_audio_set a)\<lparr>te_video_pid := 0x100,
     te_pmt := SetPcrPid 0x100 (AddProgramInfo \<lparr>pi_stream_type = kTsStreamVideoH264, pi_elementary_pid = 0x100\<rparr> (te_pmt (te_audio_set a))),
     te_video := VideoEncoder_new\<lparr>ve_pid := 0x100, ve_type := kTsStreamVideoH264, ve_demux := v\<rparr>, te_video_type := kTsStreamVideoH264\<rparr>"

lemma te_both_set_ready: "te_inv (te_both_set a v)" "te_known (te_both_set a v)" "ve_demux (te_video (te_both_set a v)) = v"
  "program_map (te_pmt (te_both_set a v)) = (0x100, [(0x0f, 0x101), (0x1b, 0x100)])"
  by (simp_all add: te_both_set_def te_audio_set_def te_inv_def te_known_def TsEncoder_new_def pat_inv_def pmt_inv_def PmtWriter_new_def
      PatWriter_new_def AddProgramInfo_def SetPcrPid_def ts_stream_defs program_map_def)

lemma OnPacket_aac_header:
  assumes "aac_header p c0 c1"
  shows "\<exists>b. HLSMuxer_OnPacket now p (HLSMuxer_new name) tab =
           Inr ((HLSMuxer_new name)\<lparr>hm_seq_no := 1, hm_encoder := te_audio_set (aac_sequence b c0 c1 AudioDemux_new),
                 hm_current := Some (new_fragment now (hm_stream_name (HLSMuxer_new name :: 'e HLSMuxer)) 0)\<rparr> :: 'e HLSMuxer, tab)"
proof -
  let ?m = "HLSMuxer_new name :: 'e HLSMuxer"
  let ?f = "new_fragment now (hm_stream_name ?m) 0 :: 'e Fragment"
  have m: "hm_current ?m = None" "hm_encoder ?m = TsEncoder_new" "hm_window ?m = FragmentWindow_new" "hm_seq_no ?m = 0"
    by (simp_all add: HLSMuxer_new_def Let_def)
  obtain b where b: "AudioDemux_OnDemux (pk_data p) (of_nat (pk_size p)) [] AudioDemux_new = Inr (0, [], aac_sequence b c0 c1 AudioDemux_new)"
    "TsTool_IsCodecHeader p = Inr True" "nth_checked (pk_data p) 0 = Inr b" "drop_bit 4 b = kAudioCodecIDAAC"
    by (rule aac_header_demux [OF assms])
  have a: "IsAudio p" using assms by (simp add: aac_header_def)
  have o: "open_fragment now (cut_fragment p ?m) tab = Inr (?m\<lparr>hm_seq_no := 1\<rparr>, tab, ?f)"
    using m by (simp add: cut_fragment_def open_fragment_def GetIdleFragment_def FragmentWindow_new_def WritePatPmt_def TsEncoder_new_def
        new_fragment_def Let_def)
  have s: "SetStreamType Fragment_Write kVideoCodecIDReserved kAudioCodecIDAAC TsEncoder_new tab ?f =
      Inr (te_audio_set AudioDemux_new, tab, ?f)"
    by (simp add: SetStreamType_def set_audio_type_def set_video_type_def TsEncoder_new_def te_audio_set_def kVideoCodecIDReserved_def
        kVideoCodecIDAVC_def ts_stream_defs WritePatPmt_def AudioEncoder_new_def)
  have e: "Encode Fragment_Write AppendTimeStamp p (pk_timestamp p) (te_audio_set AudioDemux_new) ?f =
      Inr (0, te_audio_set (aac_sequence b c0 c1 AudioDemux_new), ?f)"
    using a b(1,2) by (simp add: Encode_def EncodeAudio_def te_audio_set_def AudioEncoder_new_def)
  show ?thesis
    using o s e b(2-4) a m by (intro exI [of _ b]) (simp add: HLSMuxer_OnPacket_def HLSMuxer_IsCodecHeader_def ParseCodec_def high_nibble)
qed

lemma OnPacket_avc_header:
  fixes m :: "'e HLSMuxer"
  assumes "avc_header p unit sps pps" and "hm_encoder m = te_audio_set a" and "hm_current m = Some f" and "fr_duration f = 0"
    and "tab_ok tab" and "fr_ok (2640 + n) f" and "fw_free (hm_window m) = []"
  shows "\<exists>v tab' g pat pmt. HLSMuxer_OnPacket now p m tab =
             Inr (m\<lparr>hm_encoder := after_tables pat pmt (te_both_set a v), hm_current := Some g\<rparr>, tab') \<and> tab_ok tab' \<and>
           vd_sps v = sps \<and> vd_pps v = pps \<and> vd_nalu_unit_length v = unit \<and> demux_ok v \<and> fr_ok n g \<and> fr_keep g = fr_keep f \<and>
           fr_contents g = fr_contents f @ concat pat @ concat pmt \<and> tables_read (te_both_set a v) pat pmt"
proof -
  obtain v b where v: "VideoDemux_OnDemux (pk_data p) (of_nat (pk_size p)) [] VideoDemux_new = Inr (0, [], v)"
    "TsTool_IsCodecHeader p = Inr True" "nth_checked (pk_data p) 0 = Inr b" "b AND 0x0f = kVideoCodecIDAVC" "vd_sps v = sps"
    "vd_pps v = pps" "vd_nalu_unit_length v = unit" "vd_payload_format v = vd_payload_format VideoDemux_new"
    using avc_header_demux [OF assms(1), of VideoDemux_new] by blast
  have p: "IsVideo p" "\<not> IsAudio p" "demux_ok v"
    using assms(1) v(5,6,8) video_not_audio [of p]
    by (auto simp: avc_header_def demux_ok_def VideoDemux_new_def)
  have o: "open_fragment now (cut_fragment p m) tab = Inr (m, tab, f)"
    using assms(3,4) by (simp add: cut_fragment_def open_fragment_def min_fragment_size_def max_fragment_size_def)
  have s: "SetStreamType Fragment_Write kVideoCodecIDAVC kAudioCodecIDReserved (te_audio_set a) tab f =
      WritePatPmt Fragment_Write (te_both_set a VideoDemux_new) tab f"
    by (simp add: SetStreamType_def set_audio_type_def set_video_type_def TsEncoder_new_def te_audio_set_def te_both_set_def
        kAudioCodecIDReserved_def kAudioCodecIDAAC_def kAudioCodecIDMP3_def ts_stream_defs VideoEncoder_new_def)
  obtain tab' g pat pmt where w: "WritePatPmt Fragment_Write (te_both_set a VideoDemux_new) tab f =
      Inr (after_tables pat pmt (te_both_set a VideoDemux_new), tab', g)" "tab_ok tab'" "frag.wrote n f (concat pat @ concat pmt) g"
    "tables_read (te_both_set a VideoDemux_new) pat pmt"
    using frag.WritePatPmt_ok [OF te_both_set_ready(1,2) assms(5,6)] by blast
  have t: "te_pat (te_both_set a v) = te_pat (te_both_set a VideoDemux_new)" "te_pmt (te_both_set a v) = te_pmt (te_both_set a VideoDemux_new)"
    by (simp_all add: te_both_set_def)
  have e: "Encode Fragment_Write AppendTimeStamp p (pk_timestamp p) (after_tables pat pmt (te_both_set a VideoDemux_new)) g =
      Inr (0, after_tables pat pmt (te_both_set a v), g)"
    using p v(1,2) by (simp add: Encode_def EncodeVideo_def te_both_set_def after_tables_def VideoEncoder_new_def)
  have "HLSMuxer_OnPacket now p m tab = Inr (m\<lparr>hm_encoder := after_tables pat pmt (te_both_set a v), hm_current := Some g\<rparr>, tab')"
    using o s w(1) e v(2-4) p(1,2) assms(2) by (simp add: HLSMuxer_OnPacket_def HLSMuxer_IsCodecHeader_def ParseCodec_def)
  moreover have "tables_read (te_both_set a v) pat pmt" using w(4) by (simp add: tables_read_def t)
  ultimately show ?thesis
    using w(2,3) v(5-7) p(3) by (intro exI [of _ v] exI [of _ tab'] exI [of _ g] exI [of _ pat] exI [of _ pmt]) (simp add: frag.wrote_def)
qed

end
