(* ===== verification/HlsProps.thy ===== *)
theory HlsProps
  imports HlsHeaders
begin

text \<open>
  What the MPEG-TS encoders and the HLS muxer guarantee: the theorems of this half of the
  development, each at a concrete input in its witness.
\<close>

section \<open>Samples\<close>

definition sample_demux :: VideoDemux where
  "sample_demux = VideoDemux_new\<lparr>vd_nalu_unit_length := 3, vd_sps := [0x67, 0x42], vd_pps := [0x68]\<rparr>"

definition sample_encoder :: TsEncoder where
  "sample_encoder = TsEncoder_new\<lparr>te_audio_type := kTsStreamAudioAAC, te_audio_pid := 0x101,
     te_audio := AudioEncoder_new\<lparr>ae_pid := 0x101, ae_demux := AudioDemux_new\<lparr>ad_aac_object := 2, ad_aac_sample_rate := 4,
       ad_aac_channel := 2, ad_aac_ok := True\<rparr>\<rparr>,
     te_video_type := kTsStreamVideoH264, te_video_pid := 0x100,
     te_video := VideoEncoder_new\<lparr>ve_pid := 0x100, ve_demux := sample_demux\<rparr>\<rparr>"

definition sample_fragment :: "unit Fragment" where
  "sample_fragment = Fragment_new\<lparr>fr_duration := 3000\<rparr>"

definition sample_muxer :: "unit HLSMuxer" where
  "sample_muxer = (HLSMuxer_new ''d/app/live'')\<lparr>hm_encoder := sample_encoder, hm_current := Some sample_fragment, hm_seq_no := 1\<rparr>"

definition packet_of :: "u32 \<Rightarrow> u64 \<Rightarrow> bytes \<Rightarrow> unit Packet" where
  "packet_of type time d = \<lparr>pk_type = type, pk_size = length d, pk_index = 0, pk_timestamp = time, pk_capacity = length d,
     pk_ext = None, pk_data = d\<rparr>"

definition key_packet :: "unit Packet" where
  "key_packet = packet_of (kPacketTypeVideo OR kFrameTypeKeyFrame) 3000 (video_frame 0x17 40 3 [[0x65, 0x88, 0x84]])"

lemma sample_ready: "muxer_ready sample_muxer None"
  by (simp add: muxer_ready_def sample_muxer_def HLSMuxer_new_def Let_def sample_encoder_def te_inv_def te_known_def ts_stream_defs
      TsEncoder_new_def pat_inv_def pmt_inv_def PmtWriter_new_def PatWriter_new_def tab_ok_def FragmentWindow_new_def
      sample_demux_def demux_ok_def VideoDemux_new_def VideoEncoder_new_def)

lemma key_packet_avc: "avc_packet key_packet sample_demux 40 [[0x65, 0x88, 0x84]]" "IsKeyFrame key_packet"
proof -
  have "length (video_frame 0x17 40 3 [[0x65, 0x88, 0x84]]) = 12"
    by (simp add: video_frame_def avcc_encode_def unit_prefix_def)
  then show "avc_packet key_packet sample_demux 40 [[0x65, 0x88, 0x84]]"
    by (auto simp: avc_packet_def key_packet_def packet_of_def IsVideo_def packet_type_defs packet_inv_def payload_def sample_demux_def
        nal_fits_def kVideoCodecIDAVC_def intro!: exI [of _ "0x17"])
  show "IsKeyFrame key_packet" by (simp add: IsKeyFrame_def key_packet_def packet_of_def packet_type_defs)
qed

section \<open>Segments\<close>

text \<open>The parameter sets go in front of the first IDR unit.\<close>

lemma param_units_none: "param_units False sps pps nals = nals"
  by (induction nals) simp_all

lemma param_units_first:
  assumes "\<forall>y \<in> set pre. \<not> is_idr y" and "is_idr idr"
  shows "param_units True sps pps (pre @ idr # post) = pre @ [sps, pps, idr] @ post"
  using assms by (induction pre) (simp_all add: param_units_none)

text \<open>C20. A key frame that arrives when the segment has lasted three seconds closes it and begins the next: the finished
  segment is the last of the window, and the new one, with the next number and the clock in its name, carries what a decoder
  needs to begin there. It begins with the association table and the map of the programs, both with a correct checksum, and
  then holds the frame as one stream packet with the clock reference, the time stamps of 90 kHz, and its units in Annex B form,
  where the two parameter sets that the demuxer has recorded stand right in front of the first IDR unit. That the frame has an
  IDR unit is assumed, and that the demuxer has not met parameter sets among the units of a frame: the flag for that is never
  cleared again and keeps the recorded ones out (\<open>VideoEncoder.cc:69\<close>, a finding).\<close>

lemma hls_segment_self_contained:
  fixes m :: "'e HLSMuxer"
  assumes "muxer_ready m tab" and "hm_current m = Some f" and "IsKeyFrame p" and "3000 \<le> fr_duration f"
    and "avc_packet p (ve_demux (te_video (hm_encoder m))) cts nals"
    and "v = after_frame cts nals (ve_demux (te_video (hm_encoder m)))" and "dts = pk_timestamp p * 90"
    and "\<not> vd_has_sps_pps v" and "nals = pre @ idr # post" and "\<forall>y \<in> set pre. \<not> is_idr y" and "is_idr idr"
  shows "\<exists>m' tab' g pat pmt pk. HLSMuxer_OnPacket now p m tab = Inr (m', tab') \<and> muxer_ready m' tab' \<and>
           fw_fragments (hm_window m') = fw_fragments (hm_window m) @ [f] \<and>
           hm_current m' = Some g \<and> hm_seq_no m' = hm_seq_no m + 1 \<and> fr_sequence_no g = int32 (hm_seq_no m) \<and>
           fr_filename g = hm_stream_name m @ ''_'' @ signed_text now @ ''.ts'' \<and>
           fr_contents g = concat pat @ concat pmt @ concat pk \<and> tables_read (hm_encoder m) pat pmt \<and>
           frame_read 0x100 (ve_cc (te_video (hm_encoder m))) pk (Some (take_bit 33 (pts_of v dts)))
             (video_pes v dts ((if vd_has_aud v then [] else [[0x09, 0xf0]]) @ pre @ [vd_sps v, vd_pps v, idr] @ post))"
proof -
  let ?c = "cut_fragment p m"
  have c: "?c = m\<lparr>hm_window := AppendFragment f (hm_window m), hm_current := None\<rparr>"
    using assms(2-4) by (simp add: cut_fragment_def min_fragment_size_def)
  have r: "muxer_ready ?c tab" by (rule ready_cut [OF assms(1)])
  have n: "188 + (2 ^ 29 + 0) + 2640 + 4 * kFragmentStepSize < 2 ^ 31" by (simp add: kFragmentStepSize_def)
  have "hm_current ?c = None" by (simp add: c)
  from open_new_fragment [OF r this n, of now] obtain tab' f1 pat pmt where o: "open_fragment now ?c tab =
      Inr (?c\<lparr>hm_encoder := after_tables pat pmt (hm_encoder ?c), hm_seq_no := hm_seq_no ?c + 1\<rparr>, tab', f1)"
    "tab_ok tab'" "fr_contents f1 = concat pat @ concat pmt" "tables_read (hm_encoder ?c) pat pmt" "fr_ok (188 + (2 ^ 29 + 0)) f1"
    "fr_keep f1 = fr_keep (new_fragment now (hm_stream_name ?c) (hm_seq_no ?c) :: 'e Fragment)" "\<forall>v. needs_params v f1 = (\<not> vd_has_sps_pps v)"
    by blast
  let ?m1 = "?c\<lparr>hm_encoder := after_tables pat pmt (hm_encoder ?c), hm_seq_no := hm_seq_no ?c + 1\<rparr>"
  have v: "ve_demux (te_video (hm_encoder ?m1)) = ve_demux (te_video (hm_encoder m))"
    "ve_cc (te_video (hm_encoder ?m1)) = ve_cc (te_video (hm_encoder m))" by (simp_all add: after_tables_inv c)
  from OnPacket_frame [OF o(1) ready_after_tables [OF r o(2)] v(1) [symmetric] assms(5,6) o(5) assms(7)]
  obtain m' g pk where p: "HLSMuxer_OnPacket now p m tab = Inr (m', tab')" "muxer_ready m' tab'" "hm_current m' = Some g"
    "hm_window m' = hm_window ?m1" "hm_seq_no m' = hm_seq_no ?m1" "fr_contents g = fr_contents f1 @ concat pk"
    "fr_keep g = fr_stamp (sint (pk_timestamp p)) (fr_keep f1)"
    "frame_read 0x100 (ve_cc (te_video (hm_encoder ?m1))) pk (Some (take_bit 33 (pts_of v dts))) (video_pes v dts (frame_units v f1 nals))"
    using assms(3) by auto
  have "frame_units v f1 nals = (if vd_has_aud v then [] else [[0x09, 0xf0]]) @ pre @ [vd_sps v, vd_pps v, idr] @ post"
    unfolding frame_units_def assms(9) using o(7) assms(8) param_units_first [OF assms(10,11)] by simp
  moreover have "fr_sequence_no g = int32 (hm_seq_no m)" "fr_filename g = hm_stream_name m @ ''_'' @ signed_text now @ ''.ts''"
    using p(7) by (simp_all add: o(6) new_fragment_fields fr_stamp_def Let_def c) (simp_all add: fr_keep_def)
  ultimately show ?thesis
    using p o(3,4) by (intro exI [of _ m'] exI [of _ tab'] exI [of _ g] exI [of _ pat] exI [of _ pmt] exI [of _ pk])
      (simp add: c AppendFragment_fields after_tables_inv)
qed

lemma hls_segment_self_contained_witness:
  "\<exists>m' tab' g pat pmt pk. HLSMuxer_OnPacket 7 key_packet sample_muxer None = Inr (m', tab') \<and> hm_current m' = Some g \<and>
     fr_contents g = concat pat @ concat pmt @ concat pk \<and>
     frame_read 0x100 0xff pk (Some 273600)
       \<lparr>pes_stream = 0xe0, pes_pts = 273600, pes_dts = Some 270000,
        pes_data = [0, 0, 1, 0x09, 0xf0, 0, 0, 1, 0x67, 0x42, 0, 0, 1, 0x68, 0, 0, 1, 0x65, 0x88, 0x84]\<rparr>"
proof -
  let ?n = "[[0x65, 0x88, 0x84]] :: bytes list"
  have d: "ve_demux (te_video (hm_encoder sample_muxer)) = sample_demux" "ve_cc (te_video (hm_encoder sample_muxer)) = 0xff"
    by (simp_all add: sample_muxer_def sample_encoder_def VideoEncoder_new_def)
  have a: "hm_current sample_muxer = Some sample_fragment" "3000 \<le> fr_duration sample_fragment"
    by (simp_all add: sample_muxer_def sample_fragment_def)
  define v where "v = after_frame 40 ?n sample_demux"
  have n: "nalu_type 0x65 = kNaluTypeIDR" by (simp add: nalu_type_def kNaluTypeIDR_def)
  have v: "v = sample_demux\<lparr>vd_codec_id := kVideoCodecIDAVC, vd_composition_time := 40, vd_payload_format := kPayloadFormatAvcc, vd_has_idr := True\<rparr>"
    by (simp add: v_def after_frame_def check_nalus_def check_nalu_def n)
  have t: "pk_timestamp key_packet * 90 = 270000" by (simp add: key_packet_def packet_of_def)
  have "pts_of v 270000 = 273600" by (simp add: v pts_of_def)
  then have "video_pes v 270000 ((if vd_has_aud v then [] else [[0x09, 0xf0]]) @ [] @ [vd_sps v, vd_pps v, [0x65, 0x88, 0x84]] @ []) =
      \<lparr>pes_stream = 0xe0, pes_pts = 273600, pes_dts = Some 270000,
        pes_data = [0, 0, 1, 0x09, 0xf0, 0, 0, 1, 0x67, 0x42, 0, 0, 1, 0x68, 0, 0, 1, 0x65, 0x88, 0x84]\<rparr>"
    by (simp add: video_pes_def annexb_def v sample_demux_def VideoDemux_new_def is_idr_def n)
  moreover have "\<not> vd_has_sps_pps v" "is_idr [0x65, 0x88, 0x84]"
    by (simp_all add: v sample_demux_def VideoDemux_new_def is_idr_def n)
  ultimately show ?thesis
    using hls_segment_self_contained [OF sample_ready a(1) key_packet_avc(2) a(2) _ _ refl, of 40 ?n v "[]" "[0x65, 0x88, 0x84]" "[]" 7] key_packet_avc(1)
      \<open>pts_of v 270000 = 273600\<close>
    by (auto simp: d v_def [symmetric] t) metis
qed

text \<open>C21. Any other frame, while the segment has not lasted longer than twelve seconds, is written behind what the segment
  holds already and nothing else changes: the window and the segment's name and number stay, and the segment lasts to the time
  of this frame. The frame reads as one stream packet with the next continuity counter; the parameter sets come with it only
  when its IDR unit is the first of the segment.\<close>

lemma hls_frame_appended:
  assumes "muxer_ready m tab" and "hm_current m = Some f" and "\<not> (IsKeyFrame p \<and> 3000 \<le> fr_duration f)" and "fr_duration f \<le> 12000"
    and "avc_packet p (ve_demux (te_video (hm_encoder m))) cts nals" and "fr_ok (2 ^ 29 + 188 + n) f"
    and "v = after_frame cts nals (ve_demux (te_video (hm_encoder m)))" and "dts = pk_timestamp p * 90"
  shows "\<exists>m' g pk. HLSMuxer_OnPacket now p m tab = Inr (m', tab) \<and> muxer_ready m' tab \<and> hm_current m' = Some g \<and>
           hm_window m' = hm_window m \<and> hm_seq_no m' = hm_seq_no m \<and> fr_ok n g \<and>
           fr_keep g = fr_stamp (sint (pk_timestamp p)) (fr_keep f) \<and> fr_contents g = fr_contents f @ concat pk \<and>
           frame_read 0x100 (ve_cc (te_video (hm_encoder m))) pk
             (if IsKeyFrame p then Some (take_bit 33 (pts_of v dts)) else None) (video_pes v dts (frame_units v f nals))"
proof -
  have "cut_fragment p m = m"
    using assms(2-4) by (auto simp: cut_fragment_def min_fragment_size_def max_fragment_size_def)
  from OnPacket_frame [OF OnPacket_continues [OF assms(1,2) this] assms(1) refl assms(5,7) _ assms(8)] show ?thesis
    using assms(6) by (force simp: add.assoc add.commute)
qed

definition inter_packet :: "unit Packet" where
  "inter_packet = packet_of kPacketTypeVideo 3040 (video_frame 0x27 0 3 [[0x41, 0x9a], [0x41, 0x9b]])"

lemma inter_packet_avc: "avc_packet inter_packet sample_demux 0 [[0x41, 0x9a], [0x41, 0x9b]]" "\<not> IsKeyFrame inter_packet"
proof -
  have "length (video_frame 0x27 0 3 [[0x41, 0x9a], [0x41, 0x9b]]) = 17"
    by (simp add: video_frame_def avcc_encode_def unit_prefix_def)
  then show "avc_packet inter_packet sample_demux 0 [[0x41, 0x9a], [0x41, 0x9b]]"
    by (auto simp: avc_packet_def inter_packet_def packet_of_def IsVideo_def packet_type_defs packet_inv_def payload_def sample_demux_def
        nal_fits_def kVideoCodecIDAVC_def intro!: exI [of _ "0x27"])
  show "\<not> IsKeyFrame inter_packet" by (simp add: IsKeyFrame_def inter_packet_def packet_of_def packet_type_defs)
qed

lemma hls_frame_appended_witness:
  "\<exists>m' g pk. HLSMuxer_OnPacket 7 inter_packet sample_muxer None = Inr (m', None) \<and> hm_current m' = Some g \<and>
     fr_duration g = 0 \<and> fr_contents g = concat pk \<and>
     frame_read 0x100 0xff pk None
       \<lparr>pes_stream = 0xe0, pes_pts = 273600, pes_dts = None,
        pes_data = [0, 0, 1, 0x09, 0xf0, 0, 0, 1, 0x41, 0x9a, 0, 0, 1, 0x41, 0x9b]\<rparr>"
proof -
  let ?n = "[[0x41, 0x9a], [0x41, 0x9b]] :: bytes list"
  have d: "ve_demux (te_video (hm_encoder sample_muxer)) = sample_demux" "ve_cc (te_video (hm_encoder sample_muxer)) = 0xff"
    by (simp_all add: sample_muxer_def sample_encoder_def VideoEncoder_new_def)
  have a: "hm_current sample_muxer = Some sample_fragment" "\<not> (IsKeyFrame inter_packet \<and> 3000 \<le> fr_duration sample_fragment)"
    "fr_duration sample_fragment \<le> 12000" "fr_ok (2 ^ 29 + 188 + 0) sample_fragment" "fr_contents sample_fragment = []"
    using inter_packet_avc(2)
    by (simp_all add: sample_muxer_def sample_fragment_def fr_ok_def fragment_inv_def Fragment_new_def kFragmentStepSize_def fr_contents_def)
  define v where "v = after_frame 0 ?n sample_demux"
  have n: "nalu_type 0x41 = 1" by (simp add: nalu_type_def)
  have v: "v = sample_demux\<lparr>vd_codec_id := kVideoCodecIDAVC, vd_composition_time := 0, vd_payload_format := kPayloadFormatAvcc\<rparr>"
    by (simp add: v_def after_frame_def check_nalus_def check_nalu_def n nalu_type_defs)
  have t: "pk_timestamp inter_packet = 3040" by (simp add: inter_packet_def packet_of_def)
  have "video_pes v 273600 (frame_units v sample_fragment ?n) =
      \<lparr>pes_stream = 0xe0, pes_pts = 273600, pes_dts = None,
        pes_data = [0, 0, 1, 0x09, 0xf0, 0, 0, 1, 0x41, 0x9a, 0, 0, 1, 0x41, 0x9b]\<rparr>"
    by (simp add: video_pes_def frame_units_def annexb_def v sample_demux_def VideoDemux_new_def is_idr_def n pts_of_def kNaluTypeIDR_def)
  moreover obtain m' g pk where "HLSMuxer_OnPacket 7 inter_packet sample_muxer None = Inr (m', None)" "hm_current m' = Some g"
    "fr_keep g = fr_stamp 3040 (fr_keep sample_fragment)" "fr_contents g = concat pk"
    "frame_read 0x100 0xff pk None (video_pes v 273600 (frame_units v sample_fragment ?n))"
    using hls_frame_appended [OF sample_ready a(1-3) _ a(4) _ refl, of 0 ?n v 7] inter_packet_avc a(5)
    by (auto simp: d v_def [symmetric] t)
  moreover from this(3) have "fr_duration g = 0"
    by (simp add: fr_keep_def fr_stamp_def sample_fragment_def Fragment_new_def Let_def)
  ultimately show ?thesis by metis
qed

section \<open>Audio\<close>

lemma ucast_take13: "k < 2 ^ 13 \<Longrightarrow> (ucast (take_bit 13 (of_nat k :: u32)) :: u16) = of_nat k"
proof -
  assume k: "k < 2 ^ 13"
  have "take_bit 13 (of_nat k :: u32) = of_nat (take_bit 13 k)" by (simp only: of_nat_take_bit)
  then show ?thesis using k by (simp add: take_bit_nat_eq_self unsigned_of_nat)
qed

text \<open>C24. A frame of AAC becomes one stream packet of its own, with the time stamp of 90 kHz and the frame behind an ADTS
  header. The header's fields are the profile of the object type, the index of the sample rate and the number of channels the
  sequence header gave, and the length of header and frame, correct for frames of up to 8184 bytes.\<close>

lemma ts_audio_frame:
  assumes "ae_pid e < 0x2000" and "packet_inv p" and "payload p = b # 1 # raw" and "drop_bit 4 b = kAudioCodecIDAAC"
    and "ad_aac_ok (ae_demux e)" and "0 < length raw" and "length raw \<le> 8184" and "fr_ok (188 + (2 * (7 + length raw) + n)) f"
  shows "\<exists>e' g pk h. EncodeAudio Fragment_Write AppendTimeStamp p dts e f = Inr (0, e', g) \<and> fr_ok n g \<and>
           ae_cc e' = cc_after (ae_cc e) (length pk) \<and> fr_contents g = fr_contents f @ concat pk \<and>
           frame_read (ae_pid e) (ae_cc e) pk None
             \<lparr>pes_stream = 0xc0, pes_pts = take_bit 33 (dts * 90), pes_dts = None, pes_data = h @ raw\<rparr> \<and>
           length h = 7 \<and>
           adts_fields h = (take_bit 2 (AACObjectTypeToAacProfile (ad_aac_object (ae_demux e))),
             ucast (take_bit 4 (ad_aac_sample_rate (ae_demux e))), take_bit 3 (ad_aac_channel (ae_demux e)), of_nat (7 + length raw))"
proof -
  have r: "raw \<noteq> []" "length raw \<le> 0x1fff" using assms(6,7) by auto
  have l: "(ucast (take_bit 13 (of_nat (7 + length raw) :: u32)) :: u16) = of_nat (7 + length raw)"
    by (rule ucast_take13) (use assms(7) in simp)
  obtain a g pk body where g: "EncodeAudio Fragment_Write AppendTimeStamp p dts e f =
      Inr (0, e\<lparr>ae_demux := a, ae_cc := cc_after (ae_cc e) (length pk)\<rparr>, g)"
    "frag.wrote n (AppendTimeStamp (sint dts) f) (concat pk) g" "ts_unit (ae_pid e) (ae_cc e) pk = Some (None, body)"
    "ad_aac_object a = ad_aac_object (ae_demux e)" "ad_aac_sample_rate a = ad_aac_sample_rate (ae_demux e)"
    "ad_aac_channel a = ad_aac_channel (ae_demux e)"
    "parse_pes body = Some \<lparr>pes_stream = 0xc0, pes_pts = take_bit 33 (dts * 90), pes_dts = None,
       pes_data = adts_header a (of_nat (7 + length raw)) @ raw\<rparr>"
    using frag.EncodeAudio_aac [OF assms(1-5) r assms(8)] by blast
  then show ?thesis
    using l by (intro exI [of _ "e\<lparr>ae_demux := a, ae_cc := cc_after (ae_cc e) (length pk)\<rparr>"] exI [of _ g] exI [of _ pk]
        exI [of _ "adts_header a (of_nat (7 + length raw))"])
      (auto simp: frame_read_def frag.wrote_def fr_stamped adts_fields_header)
qed

lemma ts_audio_frame_witness:
  "\<exists>e' g pk h. EncodeAudio Fragment_Write AppendTimeStamp (packet_of kPacketTypeAudio 100 [0xaf, 1, 0x21, 0x10]) 100
       (te_audio sample_encoder) (Fragment_new :: unit Fragment) = Inr (0, e', g) \<and> fr_contents g = concat pk \<and>
     frame_read 0x101 0xff pk None \<lparr>pes_stream = 0xc0, pes_pts = 9000, pes_dts = None, pes_data = h @ [0x21, 0x10]\<rparr> \<and>
     adts_fields h = (1, 4, 2, 9)"
proof -
  have "fr_ok (188 + (2 * (7 + length [0x21, 0x10 :: u8]) + 0)) (Fragment_new :: unit Fragment)"
    by (simp add: fr_ok_def fragment_inv_def Fragment_new_def kFragmentStepSize_def)
  from ts_audio_frame [OF _ _ _ _ _ _ _ this, of "te_audio sample_encoder" "packet_of kPacketTypeAudio 100 [0xaf, 1, 0x21, 0x10]" "0xaf" 100]
  show ?thesis
    by (simp add: sample_encoder_def AudioEncoder_new_def packet_of_def packet_inv_def payload_def kAudioCodecIDAAC_def
        AACObjectTypeToAacProfile_def fr_contents_def Fragment_new_def) metis
qed

section \<open>From the headers to the first segment\<close>

text \<open>C22. The sequence headers of AAC and H.264, given to a fresh muxer, make it ready: the first segment is open, named after
  the stream and the clock of its first packet, and begins with the association table and a map of the programs that lists the
  audio and the video stream with the video's identifier as clock. The decoder's parameter sets are those of the header, and no
  segment is finished yet.\<close>

lemma hls_headers_ready:
  assumes "aac_header p c0 c1" and "avc_header q unit sps pps" and "tab_ok tab"
  shows "\<exists>m1 m2 tab' t g pat pmt. HLSMuxer_OnPacket now p (HLSMuxer_new name) tab = Inr (m1, tab) \<and>
           HLSMuxer_OnPacket now' q m1 tab = Inr (m2 :: 'e HLSMuxer, tab') \<and> muxer_ready m2 tab' \<and>
           fw_fragments (hm_window m2) = [] \<and> hm_seq_no m2 = 1 \<and> hm_current m2 = Some g \<and>
           fr_filename g = hm_stream_name m2 @ ''_'' @ signed_text now @ ''.ts'' \<and>
           fr_contents g = concat pat @ concat pmt \<and> tables_read t pat pmt \<and>
           program_map (te_pmt t) = (0x100, [(0x0f, 0x101), (0x1b, 0x100)]) \<and>
           (let v = ve_demux (te_video (hm_encoder m2)) in vd_sps v = sps \<and> vd_pps v = pps \<and> vd_nalu_unit_length v = unit)"
proof -
  let ?m = "HLSMuxer_new name :: 'e HLSMuxer"
  let ?f = "new_fragment now (hm_stream_name ?m) 0 :: 'e Fragment"
  obtain b where m1: "HLSMuxer_OnPacket now p ?m tab =
      Inr (?m\<lparr>hm_seq_no := 1, hm_encoder := te_audio_set (aac_sequence b c0 c1 AudioDemux_new), hm_current := Some ?f\<rparr>, tab)"
    using OnPacket_aac_header [OF assms(1)] by blast
  define a where "a = aac_sequence b c0 c1 AudioDemux_new"
  define m where "m = ?m\<lparr>hm_seq_no := 1, hm_encoder := te_audio_set a, hm_current := Some ?f\<rparr>"
  have f: "fr_ok (2640 + 0) ?f"
    unfolding new_fragment_def by (rule fr_ok_new) (simp add: kFragmentStepSize_def)
  have "fr_duration ?f = 0" "fw_free (hm_window m) = []" "fw_fragments (hm_window m) = []"
    by (simp_all add: new_fragment_def SetSequenceNo_def SetBaseFileName_def Fragment_Reset_def m_def HLSMuxer_new_def Let_def FragmentWindow_new_def)
  from OnPacket_avc_header [OF assms(2) _ _ this(1) assms(3) f this(2), of a now'] obtain v tab' g pat pmt where
    m2: "HLSMuxer_OnPacket now' q m tab = Inr (m\<lparr>hm_encoder := after_tables pat pmt (te_both_set a v), hm_current := Some g\<rparr>, tab')"
    "tab_ok tab'" "vd_sps v = sps" "vd_pps v = pps" "vd_nalu_unit_length v = unit" "demux_ok v" "fr_keep g = fr_keep ?f"
    "fr_contents g = fr_contents ?f @ concat pat @ concat pmt" "tables_read (te_both_set a v) pat pmt"
    by (auto simp: m_def)
  have "fr_filename g = hm_stream_name ?m @ ''_'' @ signed_text now @ ''.ts''"
    using m2(7) by (simp add: new_fragment_fields) (simp add: fr_keep_def)
  then show ?thesis
    using m1 m2 \<open>fw_free (hm_window m) = []\<close> \<open>fw_fragments (hm_window m) = []\<close>
    by (intro exI [of _ m] exI [of _ "m\<lparr>hm_encoder := after_tables pat pmt (te_both_set a v), hm_current := Some g\<rparr>"] exI [of _ tab']
        exI [of _ "te_both_set a v"] exI [of _ g] exI [of _ pat] exI [of _ pmt])
      (simp add: muxer_ready_def te_both_set_ready after_tables_inv new_fragment_fields a_def [symmetric] m_def [symmetric] Let_def,
       simp add: m_def)
qed

definition aac_packet :: "unit Packet" where
  "aac_packet = packet_of kPacketTypeAudio 0 [0xaf, 0, 0x12, 0x10]"

definition avc_header_packet :: "unit Packet" where
  "avc_header_packet = packet_of (kPacketTypeVideo OR kFrameTypeKeyFrame) 0
     (0x17 # 0 # WriteUint24T 0 @ avc_config [1, 0x42, 0, 0x1e] 3 [0x67, 0x42] [0x68])"

lemma sample_headers: "aac_header aac_packet 0x12 0x10" "avc_header avc_header_packet 3 [0x67, 0x42] [0x68]"
proof -
  show "aac_header aac_packet 0x12 0x10"
    by (simp add: aac_header_def aac_packet_def packet_of_def IsAudio_def packet_type_defs packet_inv_def payload_def kAudioCodecIDAAC_def)
  have "length (avc_config [1, 0x42, 0, 0x1e] 3 [0x67, 0x42] [0x68]) = 14" by (simp add: avc_config_def)
  then show "avc_header avc_header_packet 3 [0x67, 0x42] [0x68]"
    by (auto simp: avc_header_def avc_header_packet_def packet_of_def IsVideo_def packet_type_defs packet_inv_def payload_def
        kVideoCodecIDAVC_def intro!: exI [of _ 0] exI [of _ "[1, 0x42, 0, 0x1e]"])
qed

lemma hls_headers_ready_witness:
  "\<exists>m1 m2 tab' t g pat pmt. HLSMuxer_OnPacket 5 aac_packet (HLSMuxer_new ''d/app/live'') None = Inr (m1, None) \<and>
     HLSMuxer_OnPacket 6 avc_header_packet m1 None = Inr (m2 :: unit HLSMuxer, tab') \<and> muxer_ready m2 tab' \<and>
     hm_current m2 = Some g \<and> fr_contents g = concat pat @ concat pmt \<and> tables_read t pat pmt \<and>
     program_map (te_pmt t) = (0x100, [(0x0f, 0x101), (0x1b, 0x100)])"
  using hls_headers_ready [OF sample_headers, of None 5 "''d/app/live''" 6] by (simp add: tab_ok_def) blast

section \<open>The window of segments\<close>

lemma find_distinct: "distinct (map g xs) \<Longrightarrow> x \<in> set xs \<Longrightarrow> find (\<lambda>y. g y = g x) xs = Some x"
  by (induction xs) (auto simp: image_iff)

lemma foldl_max_upper: "(x :: int) \<in> set xs \<Longrightarrow> x \<le> foldl max a xs"
proof (induction xs arbitrary: a)
  case (Cons y ys)
  have "b \<le> foldl max b ys" for b :: int by (induction ys arbitrary: b) (simp, metis foldl_Cons max.bounded_iff)
  from this [of "max a y"] Cons show ?case by auto
qed simp

lemma window_keeps:
  "fw_fragments (foldl (\<lambda>w f. AppendFragment f w) FragmentWindow_new fs) = fs \<and>
   fw_free (foldl (\<lambda>w f. AppendFragment f w) FragmentWindow_new fs) = [] \<and>
   fw_playlist (foldl (\<lambda>w f. AppendFragment f w) FragmentWindow_new fs) =
     (if length fs < 3 then [] else playlist_text (drop (length fs - 5) fs))"
proof (induction fs rule: rev_induct)
  case Nil
  then show ?case by (simp add: FragmentWindow_new_def)
next
  case (snoc f fs)
  then show ?case
    by (simp only: foldl_append foldl_Cons foldl_Nil AppendFragment_fields AppendFragment_playlist Let_def) simp
qed

lemma round_up: "(m :: int) \<le> 1000 * - (- m div 1000)"
proof -
  have "- m = 1000 * (- m div 1000) + - m mod 1000" by (rule mult_div_mod_eq [symmetric])
  moreover have "0 \<le> - m mod 1000" by (rule pos_mod_sign) simp
  ultimately show ?thesis by linarith
qed

lemma target_duration_upper:
  assumes "f \<in> set fs"
  shows "fr_duration f \<le> 1000 * target_duration fs"
proof -
  have "fr_duration f \<le> foldl max 0 (map fr_duration fs)" by (rule foldl_max_upper) (use assms in simp)
  also have "\<dots> \<le> 1000 * target_duration fs" unfolding target_duration_def by (rule round_up)
  finally show ?thesis .
qed

text \<open>The target duration fits \<open>int32_t\<close> for segments of less than 24 days.\<close>

lemma target_duration_int32:
  assumes "\<forall>f \<in> set fs. fr_duration f \<le> 2147483647000"
  shows "int32 (target_duration fs) = target_duration fs"
proof -
  have "0 \<le> a \<Longrightarrow> a \<le> b \<Longrightarrow> (\<forall>f \<in> set fs. fr_duration f \<le> b) \<Longrightarrow>
      0 \<le> foldl max a (map fr_duration fs) \<and> foldl max a (map fr_duration fs) \<le> b" for a b :: int
    by (induction fs arbitrary: a) auto
  from this [of 0 2147483647000] assms have m: "0 \<le> foldl max 0 (map fr_duration fs)" "foldl max 0 (map fr_duration fs) \<le> 2147483647000"
    by simp_all
  let ?q = "(- foldl max 0 (map fr_duration fs)) div 1000"
  have "-2147483647 \<le> ?q" using zdiv_mono1 [of "-2147483647000" "- foldl max 0 (map fr_duration fs)" 1000] m(2) by simp
  moreover have "?q \<le> 0" using zdiv_mono1 [of "- foldl max 0 (map fr_duration fs)" 0 1000] m(1) by simp
  ultimately have t: "0 \<le> target_duration fs" "target_duration fs < 2147483648" by (simp_all add: target_duration_def)
  then show ?thesis
    by (intro int32_id) simp_all
qed

text \<open>C23. The window keeps what it is given: after any segments it holds exactly these in order, none is ever removed, and the
  playlist, empty before the third, is that of the last five. Each segment the playlist names is found under its name when the
  names differ, and none lasts longer than the target duration.\<close>

lemma hls_window_lists_segments:
  fixes fs :: "'e Fragment list"
  assumes "w = foldl (\<lambda>w f. AppendFragment f w) FragmentWindow_new fs" and "ls = drop (length fs - 5) fs"
    and "distinct (map fr_filename fs)"
  shows "fw_fragments w = fs \<and> fw_free w = [] \<and>
           fw_playlist w = (if length fs < 3 then [] else playlist_text ls) \<and>
           (\<forall>f \<in> set ls. GetFragmentByName (fr_filename f) w = Some f \<and> fr_duration f \<le> 1000 * target_duration ls)"
proof -
  have l: "fw_fragments w = fs \<and> fw_free w = [] \<and> fw_playlist w = (if length fs < 3 then [] else playlist_text ls)"
    using window_keeps [of fs] unfolding assms(1,2) .
  have "GetFragmentByName (fr_filename f) w = Some f" if "f \<in> set ls" for f
  proof -
    have "f \<in> set fs" using that unfolding assms(2) by (rule in_set_dropD)
    then show ?thesis using l find_distinct [OF assms(3)] by (simp only: GetFragmentByName_def)
  qed
  with l target_duration_upper [of _ ls] show ?thesis by simp
qed

definition named_fragment :: "string \<Rightarrow> int \<Rightarrow> unit Fragment" where
  "named_fragment name n = Fragment_new\<lparr>fr_filename := name, fr_duration := 3000 + 40 * n, fr_sequence_no := n\<rparr>"

definition sample_segments :: "unit Fragment list" where
  "sample_segments = [named_fragment ''a.ts'' 0, named_fragment ''b.ts'' 1, named_fragment ''c.ts'' 2, named_fragment ''d.ts'' 3,
     named_fragment ''e.ts'' 4, named_fragment ''f.ts'' 5]"

definition sample_window :: "unit FragmentWindow" where
  "sample_window = foldl (\<lambda>w f. AppendFragment f w) FragmentWindow_new sample_segments"

lemma hls_window_lists_segments_witness:
  "length (fw_fragments sample_window) = 6 \<and>
   GetFragmentByName ''b.ts'' sample_window = Some (named_fragment ''b.ts'' 1) \<and>
   (\<exists>r. fw_playlist sample_window = ''#EXTM3U'' @ newline @ ''#EXT-X-VERSION:3'' @ newline @ ''#EXT-X-TARGETDURATION:4'' @ newline @
     ''#EXT-X-MEDIA-SEQUENCE:1'' @ newline @ ''#EXTINF:3.040,'' @ newline @ ''b.ts'' @ newline @ r)"
proof -
  have "distinct (map fr_filename sample_segments)" by (simp add: sample_segments_def named_fragment_def)
  note p = hls_window_lists_segments [OF sample_window_def refl this]
  define ls where "ls = drop (length sample_segments - 5) sample_segments"
  have ls: "ls = [named_fragment ''b.ts'' 1, named_fragment ''c.ts'' 2, named_fragment ''d.ts'' 3, named_fragment ''e.ts'' 4,
      named_fragment ''f.ts'' 5]" by (simp add: ls_def sample_segments_def)
  have "target_duration ls = 4" by (simp add: ls target_duration_def named_fragment_def)
  moreover have "signed_text 4 = ''4''" "signed_text 1 = ''1''" "seconds_text 3040 = ''3.040''"
    by (simp_all add: signed_text_def seconds_text_def decimal.simps [of 4] decimal.simps [of 3] decimal.simps [of "Suc 0"])
  ultimately have "\<exists>r. playlist_text ls = ''#EXTM3U'' @ newline @ ''#EXT-X-VERSION:3'' @ newline @ ''#EXT-X-TARGETDURATION:4'' @ newline @
     ''#EXT-X-MEDIA-SEQUENCE:1'' @ newline @ ''#EXTINF:3.040,'' @ newline @ ''b.ts'' @ newline @ r"
    by (simp add: playlist_text_def playlist_entry_def ls named_fragment_def)
  then show ?thesis using p by (simp add: ls_def [symmetric]) (simp add: ls sample_segments_def named_fragment_def)
qed

section \<open>The checksum, the tables and the tags\<close>

text \<open>C25. The checksum taken from the table of 256 entries, in its 64-bit register, is the division by the polynomial of the
  standard bit by bit, with a table made by this call or one it made before; and the check a receiver makes, the checksum over
  the data and the checksum behind it, gives 0 for every data.\<close>

lemma ts_checksum:
  "CRC32 d None = (crc_of d, Some (crc32_make_table crc_poly False)) \<and>
   CRC32 d (Some (crc32_make_table crc_poly False)) = (crc_of d, Some (crc32_make_table crc_poly False)) \<and>
   crc_of d = foldl (\<lambda>r b. (crc_bit ^^ 8) (r XOR push_bit 24 (ucast b))) 0xffffffff d \<and>
   fst (CRC32 (d @ WriteUint32T (fst (CRC32 d None))) None) = 0"
proof -
  have "crc_byte = (\<lambda>r b. (crc_bit ^^ 8) (r XOR push_bit 24 (ucast b)))" by (intro ext) (simp add: crc_byte_def)
  then show ?thesis by (simp only: CRC32_new fst_conv crc_check) (simp only: crc_of_def crc_ref_def simp_thms)
qed

text \<open>C27. Programs are only ever added to the map of the programs, so a stream whose audio alternates between AAC and MP3 makes
  it grow; the change that adds the 202nd writes past the end of the buffer of 1024 bytes on the stack.\<close>

lemma program_map_overrun:
  fixes f :: "'e Fragment"
  assumes "te_inv t" and "te_known t" and "tab_ok tab" and "te_audio_type t \<noteq> (if mp3 then kTsStreamAudioMp3 else kTsStreamAudioAAC)"
    and "length (pmt_programs (te_pmt t)) + n = 201" and "fr_ok (2640 * (n + 1)) f"
  shows "switch_audio (Suc n) mp3 t tab f = Inl OutOfBounds"
  using assms by (rule switch_audio_overruns)

lemma program_map_overrun_witness: "switch_audio 202 True sample_encoder None sample_fragment = Inl OutOfBounds"
proof -
  have "te_inv sample_encoder" "te_known sample_encoder" "tab_ok None" using sample_ready by (simp_all add: muxer_ready_def sample_muxer_def)
  moreover have "fr_ok (2640 * (201 + 1)) sample_fragment"
    by (simp add: sample_fragment_def fr_ok_def fragment_inv_def Fragment_new_def kFragmentStepSize_def)
  moreover have "te_audio_type sample_encoder \<noteq> (if True then kTsStreamAudioMp3 else kTsStreamAudioAAC)"
    "length (pmt_programs (te_pmt sample_encoder)) + 201 = 201"
    by (simp_all add: sample_encoder_def ts_stream_defs TsEncoder_new_def PmtWriter_new_def)
  ultimately have "switch_audio (Suc 201) True sample_encoder None sample_fragment = Inl OutOfBounds" by (intro program_map_overrun)
  then show ?thesis by simp
qed

text \<open>C26. The demuxer reads back what a publisher sent: the sequence header gives the parameter sets and the length of the
  lengths, and a frame gives its units one by one, each with its size, and its composition time.\<close>

lemma avc_tags_demuxed:
  assumes "b AND 0x0f = kVideoCodecIDAVC" and "drop_bit 4 b \<noteq> 5" and "length h = 4" and "unit < 4"
    and "length sps < 2 ^ 15" and "length pps < 2 ^ 15" and "\<forall>x \<in> set nals. nal_fits unit x"
    and "vd_payload_format v \<noteq> kPayloadFormatAnnexB" and "frame = video_frame b cts unit nals" and "length frame < 2 ^ 63"
    and "header = b # 0 # WriteUint24T c0 @ avc_config h unit sps pps"
  shows "\<exists>v1 ss v2. VideoDemux_OnDemux (header @ r) (of_nat (length header)) [] v = Inr (0, [], v1) \<and>
           VideoDemux_OnDemux (frame @ r) (of_nat (length frame)) [] v1 = Inr (0, ss, v2) \<and>
           list_all2 sample_is ss nals \<and> vd_sps v2 = sps \<and> vd_pps v2 = pps \<and> vd_composition_time v2 = uint (take_bit 24 cts)"
proof -
  define v1 where "v1 = with_config h unit sps pps (v\<lparr>vd_codec_id := b AND 0x0f, vd_composition_time := uint (take_bit 24 c0)\<rparr>)"
  have sz: "(of_nat (5 + length (avc_config h unit sps pps)) :: u64) - 5 = of_nat (length (avc_config h unit sps pps))" by simp
  have "VideoDemux_OnDemux (header @ r) (of_nat (5 + length (avc_config h unit sps pps))) [] v = Inr (0, [], v1)"
    using DecodeAVCSeqHeader_config [OF assms(3-6), of r] assms(1,2)
    by (simp add: VideoDemux_OnDemux_def DemuxAVC_def Let_def sz assms(11) v1_def del: of_nat_add)
  moreover have "length header = 5 + length (avc_config h unit sps pps)" by (simp add: assms(11))
  moreover have v1: "vd_nalu_unit_length v1 = unit" "vd_payload_format v1 = vd_payload_format v" "vd_sps v1 = sps" "vd_pps v1 = pps"
    by (simp_all add: v1_def with_config_def)
  moreover obtain ss where "VideoDemux_OnDemux (frame @ r) (of_nat (length frame)) [] v1 = Inr (0, ss, after_frame cts nals v1)"
    "list_all2 sample_is ss nals"
    using OnDemux_frame [OF assms(1,2), of nals v1 cts r] assms(7-10) v1 by auto
  ultimately show ?thesis by (intro exI [of _ v1] exI [of _ ss] exI [of _ "after_frame cts nals v1"]) simp
qed

lemma avc_tags_demuxed_witness:
  "\<exists>v1 ss v2. VideoDemux_OnDemux ((0x17 # 0 # WriteUint24T 0 @ avc_config [1, 0x42, 0, 0x1e] 3 [0x67, 0x42] [0x68]) @ [9]) 19 []
       VideoDemux_new = Inr (0, [], v1) \<and>
     VideoDemux_OnDemux (video_frame 0x17 40 3 [[0x65, 0x88], [0x41]] @ [9]) 16 [] v1 = Inr (0, ss, v2) \<and>
     list_all2 sample_is ss [[0x65, 0x88], [0x41]] \<and> vd_sps v2 = [0x67, 0x42] \<and> vd_composition_time v2 = 40"
proof -
  let ?h = "0x17 # 0 # WriteUint24T 0 @ avc_config [1, 0x42, 0, 0x1e] 3 [0x67, 0x42] [0x68] :: bytes"
  let ?n = "[[0x65, 0x88], [0x41]] :: bytes list"
  have l: "length ?h = 19" "length (video_frame 0x17 40 3 ?n) = 16"
    by (simp_all add: avc_config_def video_frame_def avcc_encode_def unit_prefix_def)
  have "(0x17 :: u8) AND 0x0f = kVideoCodecIDAVC" "drop_bit 4 (0x17 :: u8) \<noteq> 5" "\<forall>x \<in> set ?n. nal_fits 3 x"
    "vd_payload_format VideoDemux_new \<noteq> kPayloadFormatAnnexB"
    by (simp_all add: kVideoCodecIDAVC_def nal_fits_def VideoDemux_new_def)
  from avc_tags_demuxed [OF this(1,2) _ _ _ _ this(3,4) refl _ refl, of "[1, 0x42, 0, 0x1e]" "[0x67, 0x42]" "[0x68]" 40 0 "[9]"]
  show ?thesis unfolding l by simp metis
qed

end
