(* ===== verification/Hotjar.thy ===== *)
theory Hotjar
  imports StringUtils
begin

text \<open>
  The measuring script of the saved documentation pages,
  \<open>html/DeepWiki_files/hotjar-6382967.js\<close>: the site's settings (line 1), and on line 3,
  which holds the whole program, the batch that collects what is reported (class \<open>i\<close>), the
  counters and the time watcher of \<open>hj.metrics\<close> (\<open>p\<close>), the rules that mask a page's text
  (\<open>U\<close>), the choice of the script to load and \<open>hjBootstrap\<close>; line 4 notes the debug id of the
  file. The clock, random numbers and the sending of a request are arguments or entries of a log.
\<close>

section \<open>The batch\<close>

text \<open>
  \<open>bt_timer\<close> is \<open>flushTimer\<close>: set while a timeout is pending. Each call of \<open>send\<close> is an entry
  of \<open>bt_sent\<close>.
\<close>

record 'a Batcher =
  bt_size :: int
  bt_buffer :: "'a list"
  bt_timer :: bool
  bt_sent :: "'a list list"

definition Batcher_new :: "int \<Rightarrow> 'a Batcher" where
  "Batcher_new n = \<lparr>bt_size = n, bt_buffer = [], bt_timer = False, bt_sent = []\<rparr>"

definition bt_flush :: "'a Batcher \<Rightarrow> 'a Batcher" where
  "bt_flush b =
     (let b = (if 0 < length (bt_buffer b) then b\<lparr>bt_sent := bt_sent b @ [bt_buffer b], bt_buffer := []\<rparr> else b)
      in if bt_timer b then b\<lparr>bt_timer := False\<rparr> else b)"

definition bt_add :: "'a \<Rightarrow> 'a Batcher \<Rightarrow> 'a Batcher" where
  "bt_add x b =
     (let b = b\<lparr>bt_buffer := bt_buffer b @ [x]\<rparr>
      in if bt_size b \<le> int (length (bt_buffer b)) then bt_flush b
         else if bt_timer b then b else b\<lparr>bt_timer := True\<rparr>)"

text \<open>What happens to a batch: the program adds and flushes, and a pending timeout may run out.\<close>

datatype 'a batch_event = Add 'a | Flush | Timeout

fun bt_step :: "'a batch_event \<Rightarrow> 'a Batcher \<Rightarrow> 'a Batcher" where
  "bt_step (Add x) b = bt_add x b"
| "bt_step Flush b = bt_flush b"
| "bt_step Timeout b = (if bt_timer b then bt_flush b else b)"

definition bt_run :: "'a batch_event list \<Rightarrow> 'a Batcher \<Rightarrow> 'a Batcher" where
  "bt_run es b = fold bt_step es b"

fun added :: "'a batch_event list \<Rightarrow> 'a list" where
  "added [] = []"
| "added (Add x # es) = x # added es"
| "added (_ # es) = added es"

text \<open>
  What holds between two events: the buffer is below the batch size, a timeout is pending
  exactly when something waits, no call of \<open>send\<close> was empty or larger than a batch.
\<close>

definition batch_inv :: "'a Batcher \<Rightarrow> bool" where
  "batch_inv b \<longleftrightarrow> 0 < bt_size b \<and> int (length (bt_buffer b)) < bt_size b \<and>
     bt_timer b = (bt_buffer b \<noteq> []) \<and>
     list_all (\<lambda>xs. xs \<noteq> [] \<and> int (length xs) \<le> bt_size b) (bt_sent b)"

definition batch_log :: "'a Batcher \<Rightarrow> 'a list" where
  "batch_log b = concat (bt_sent b) @ bt_buffer b"

lemma batch_inv_new: "0 < n \<Longrightarrow> batch_inv (Batcher_new n)"
  by (simp add: batch_inv_def Batcher_new_def)

lemma batch_log_new [simp]: "batch_log (Batcher_new n) = []"
  by (simp add: batch_log_def Batcher_new_def)

lemma bt_flush_inv: "batch_inv b \<Longrightarrow> batch_inv (bt_flush b) \<and> bt_buffer (bt_flush b) = [] \<and> bt_size (bt_flush b) = bt_size b"
  by (simp add: batch_inv_def bt_flush_def Let_def)

lemma bt_flush_log [simp]: "batch_log (bt_flush b) = batch_log b"
  by (simp add: batch_log_def bt_flush_def Let_def)

lemma bt_add_inv: "batch_inv b \<Longrightarrow> batch_inv (bt_add x b) \<and> bt_size (bt_add x b) = bt_size b"
  by (simp add: batch_inv_def bt_add_def bt_flush_def Let_def)

lemma bt_add_log [simp]: "batch_log (bt_add x b) = batch_log b @ [x]"
  by (simp add: batch_log_def bt_add_def bt_flush_def Let_def)

lemma bt_step_inv: "batch_inv b \<Longrightarrow> batch_inv (bt_step e b) \<and> bt_size (bt_step e b) = bt_size b"
  by (cases e) (simp_all add: bt_add_inv bt_flush_inv)

lemma bt_step_log: "batch_log (bt_step e b) = batch_log b @ added [e]"
  by (cases e) simp_all

lemma added_append: "added (es @ fs) = added es @ added fs"
  by (induction es rule: added.induct) simp_all

lemma bt_run_inv: "batch_inv b \<Longrightarrow> batch_inv (bt_run es b) \<and> bt_size (bt_run es b) = bt_size b"
  by (induction es arbitrary: b) (simp_all add: bt_run_def bt_step_inv)

lemma bt_run_log: "batch_log (bt_run es b) = batch_log b @ added es"
proof (induction es arbitrary: b)
  case (Cons e es)
  then show ?case
    using added_append [of "[e]" es] by (simp add: bt_run_def bt_step_log)
qed (simp add: bt_run_def)

section \<open>Counters\<close>

text \<open>Tags are objects of strings; \<open>site_id\<close> is a number, written out.\<close>

type_synonym tags = "(string \<times> string) list"

fun put_tag :: "string \<Rightarrow> string \<Rightarrow> tags \<Rightarrow> tags" where
  "put_tag k v [] = [(k, v)]"
| "put_tag k v ((k', v') # t) = (if k = k' then (k, v) # t else (k', v') # put_tag k v t)"

text \<open>\<open>a(a({}, s), t)\<close>: the properties of \<open>t\<close> are written over those of \<open>s\<close>.\<close>

definition merge_tags :: "tags \<Rightarrow> tags \<Rightarrow> tags" where
  "merge_tags s t = fold (\<lambda>(k, v). put_tag k v) t s"

record metric =
  mt_name :: string
  mt_value :: int
  mt_tags :: "tags option"

text \<open>
  The state \<open>c\<close> with \<open>browser.inLab\<close>; \<open>ms_logged\<close> holds the counters of \<open>loggedMetrics\<close>, by
  metric and tag (the timers use other metric names). \<open>ms_batch\<close> is \<open>o\<close>, unset before \<open>start\<close>.
\<close>

record Metrics =
  ms_debug :: bool
  ms_enabled :: bool
  ms_field :: bool
  ms_in_lab :: bool
  ms_generic :: tags
  ms_logged :: "string \<rightharpoonup> string \<rightharpoonup> int"
  ms_batch :: "metric Batcher option"

datatype metric_type = Lab | Field | Other

record incr =
  in_value :: "int option"
  in_flush :: bool

text \<open>\<open>d\<close>: the value of the first tag, where it and its key are not empty.\<close>

fun tag_value :: "tags option \<Rightarrow> string" where
  "tag_value None = ''value''"
| "tag_value (Some []) = ''value''"
| "tag_value (Some ((k, v) # _)) = (if k \<noteq> [] \<and> v \<noteq> [] then v else ''value'')"

text \<open>\<open>g\<close>: the tags that are sent.\<close>

definition metric_tags :: "Metrics \<Rightarrow> tags option \<Rightarrow> tags \<Rightarrow> tags option" where
  "metric_tags s tag extra =
     (if ms_debug s then Some (merge_tags (merge_tags (case tag of None \<Rightarrow> [] | Some t \<Rightarrow> t) extra) (ms_generic s))
      else tag)"

text \<open>\<open>f\<close>: whether a metric is sent now.\<close>

definition sends :: "Metrics \<Rightarrow> metric_type \<Rightarrow> incr option \<Rightarrow> bool" where
  "sends s type incr =
     (if ms_batch s = None then False
      else let r = (case type of Lab \<Rightarrow> ms_in_lab s | Field \<Rightarrow> ms_field s | Other \<Rightarrow> ms_enabled s \<or> ms_debug s)
        in case incr of None \<Rightarrow> r | Some i \<Rightarrow> r \<and> in_flush i)"

definition logged_count :: "Metrics \<Rightarrow> string \<Rightarrow> string \<Rightarrow> int" where
  "logged_count s name l = (case ms_logged s name of None \<Rightarrow> 0 | Some h \<Rightarrow> (case h l of None \<Rightarrow> 0 | Some n \<Rightarrow> n))"

definition set_count :: "string \<Rightarrow> string \<Rightarrow> int \<Rightarrow> Metrics \<Rightarrow> Metrics" where
  "set_count name l n s =
     s\<lparr>ms_logged := (ms_logged s)(name \<mapsto> ((case ms_logged s name of None \<Rightarrow> (\<lambda>_. None) | Some h \<Rightarrow> h)(l \<mapsto> n)))\<rparr>"

definition send_metric :: "metric \<Rightarrow> Metrics \<Rightarrow> Metrics" where
  "send_metric m s = s\<lparr>ms_batch := map_option (bt_add m) (ms_batch s)\<rparr>"

text \<open>\<open>incr.value || 1\<close>: a value of zero counts one, too.\<close>

definition incr_value :: "incr \<Rightarrow> int" where
  "incr_value i = (case in_value i of None \<Rightarrow> 1 | Some v \<Rightarrow> if v = 0 then 1 else v)"

definition count :: "string \<Rightarrow> incr option \<Rightarrow> tags option \<Rightarrow> tags \<Rightarrow> metric_type \<Rightarrow> Metrics \<Rightarrow> Metrics" where
  "count name incr tag extra type s =
     (let l = tag_value tag;
          (p, s) = (case incr of
             None \<Rightarrow> (1, s)
           | Some i \<Rightarrow> (let p = logged_count s name l + incr_value i
                       in (p, set_count name l (if in_flush i then 0 else p) s)))
      in if sends s type incr
         then send_metric \<lparr>mt_name = name, mt_value = p, mt_tags = metric_tags s tag extra\<rparr> s
         else s)"

text \<open>Counting with increments that do not flush, and then one that does.\<close>

definition tick :: "string \<Rightarrow> tags option \<Rightarrow> int option \<Rightarrow> Metrics \<Rightarrow> Metrics" where
  "tick name tag v = count name (Some \<lparr>in_value = v, in_flush = False\<rparr>) tag [] Other"

definition tock :: "string \<Rightarrow> tags option \<Rightarrow> int option \<Rightarrow> Metrics \<Rightarrow> Metrics" where
  "tock name tag v = count name (Some \<lparr>in_value = v, in_flush = True\<rparr>) tag [] Other"

definition counted :: "int option \<Rightarrow> int" where
  "counted v = incr_value \<lparr>in_value = v, in_flush = False\<rparr>"

lemma incr_value_counted [simp]: "incr_value \<lparr>in_value = v, in_flush = b\<rparr> = counted v"
  by (simp add: incr_value_def counted_def)

lemma set_count_get [simp]: "logged_count (set_count name l n s) name l = n"
  by (simp add: logged_count_def set_count_def)

lemma set_count_fields [simp]:
  "ms_debug (set_count name l n s) = ms_debug s" "ms_enabled (set_count name l n s) = ms_enabled s"
  "ms_generic (set_count name l n s) = ms_generic s" "ms_batch (set_count name l n s) = ms_batch s"
  by (simp_all add: set_count_def)

lemma tick_eq: "tick name tag v s = set_count name (tag_value tag) (logged_count s name (tag_value tag) + counted v) s"
  by (simp add: tick_def count_def sends_def Let_def)

lemma ticks_count:
  "logged_count (fold (tick name tag) vs s) name (tag_value tag) =
     logged_count s name (tag_value tag) + sum_list (map counted vs)"
  by (induction vs arbitrary: s) (simp_all add: tick_eq)

lemma ticks_fields:
  "ms_debug (fold (tick name tag) vs s) = ms_debug s" "ms_enabled (fold (tick name tag) vs s) = ms_enabled s"
  "ms_batch (fold (tick name tag) vs s) = ms_batch s"
  by (induction vs arbitrary: s) (simp_all add: tick_eq)

lemma tock_eq:
  assumes "ms_enabled s \<or> ms_debug s" and "ms_batch s = Some b"
  shows "\<exists>m. ms_batch (tock name tag v s) = Some (bt_add m b) \<and> mt_name m = name \<and>
           mt_value m = logged_count s name (tag_value tag) + counted v \<and>
           logged_count (tock name tag v s) name (tag_value tag) = 0"
proof -
  have "logged_count (send_metric m (set_count name l 0 s)) name l = 0" for m l
    by (simp add: send_metric_def logged_count_def set_count_def)
  with assms show ?thesis
    by (simp add: tock_def count_def sends_def Let_def) (simp add: send_metric_def exI [of _ "\<lparr>mt_name = _, mt_value = _, mt_tags = _\<rparr>"])
qed

text \<open>
  The flushing increment reports the sum of all increments since the last one, and the
  counter starts over.
\<close>

lemma ticks_then_tock:
  assumes "ms_enabled s \<or> ms_debug s" and "ms_batch s = Some b"
  shows "\<exists>m. ms_batch (tock name tag v (fold (tick name tag) vs s)) = Some (bt_add m b) \<and> mt_name m = name \<and>
           mt_value m = logged_count s name (tag_value tag) + sum_list (map counted vs) + counted v \<and>
           logged_count (tock name tag v (fold (tick name tag) vs s)) name (tag_value tag) = 0"
proof -
  have "ms_enabled (fold (tick name tag) vs s) \<or> ms_debug (fold (tick name tag) vs s)"
    "ms_batch (fold (tick name tag) vs s) = Some b"
    using assms by (simp_all add: ticks_fields)
  from tock_eq [OF this, of name tag v] show ?thesis by (simp add: ticks_count)
qed

section \<open>The time watcher\<close>

text \<open>\<open>e\<close>, \<open>t\<close> and \<open>r\<close> of \<open>timeWatcher\<close>; a clock that cannot be read gives \<open>None\<close>.\<close>

record watcher =
  w_start :: "int option"
  w_total :: int
  w_started :: bool

definition watcher_new :: watcher where
  "watcher_new = \<lparr>w_start = None, w_total = 0, w_started = False\<rparr>"

definition watcher_begin :: "int option \<Rightarrow> watcher \<Rightarrow> watcher" where
  "watcher_begin now w = (if \<not> w_started w then w\<lparr>w_started := True, w_start := now\<rparr> else w)"

text \<open>\<open>e && n && n - e\<close>, with zero for anything that is no number: a time of 0 counts as none.\<close>

definition elapsed :: "int option \<Rightarrow> int option \<Rightarrow> int" where
  "elapsed start now =
     (case (start, now) of (Some e, Some n) \<Rightarrow> if e \<noteq> 0 \<and> n \<noteq> 0 then n - e else 0 | _ \<Rightarrow> 0)"

definition watcher_incr :: "int option \<Rightarrow> int option \<Rightarrow> watcher \<Rightarrow> int \<times> watcher" where
  "watcher_incr now now' w =
     (let w = w\<lparr>w_total := w_total w + elapsed (w_start w) now, w_start := now'\<rparr> in (w_total w, w))"

text \<open>\<open>end\<close> declares an \<open>r\<close> of its own: the flag that \<open>start\<close> looks at stays set.\<close>

definition watcher_end :: "int option \<Rightarrow> int option \<Rightarrow> watcher \<Rightarrow> int \<times> watcher" where
  "watcher_end now now' w =
     (let (r, w) = watcher_incr now now' w in (r, w\<lparr>w_total := 0, w_start := None\<rparr>))"

lemma watcher_run:
  assumes "0 < a" "0 < b"
  shows "fst (watcher_end (Some b) (Some b) (watcher_begin (Some a) watcher_new)) = b - a"
  using assms by (simp add: watcher_end_def watcher_incr_def watcher_begin_def watcher_new_def elapsed_def Let_def)

text \<open>A watcher that has ended cannot be started again: the time from the second start on is lost.\<close>

lemma watcher_restart:
  "fst (watcher_end (Some c) now'' (watcher_begin (Some b) (snd (watcher_end now now' (watcher_begin t watcher_new))))) = 0"
  by (simp add: watcher_end_def watcher_incr_def watcher_begin_def watcher_new_def elapsed_def Let_def)

section \<open>Masking\<close>

datatype match_operation = Contains | Regex | Simple | EndsWithOp | Exact | StartsWithOp | UnknownOp

record page_rule =
  pr_pattern :: string
  pr_operation :: match_operation
  pr_negate :: bool

text \<open>The settings that decide what is masked and which script is loaded.\<close>

record site_settings =
  st_site_id :: nat
  st_state_change :: string
  st_anonymize_digits :: bool
  st_suppress_all :: bool
  st_suppress_text :: bool
  st_specific_pages :: "page_rule list"
  st_features :: "string list"

definition hjSiteSettings :: "site_settings option \<Rightarrow> site_settings" where
  "hjSiteSettings existing = (case existing of Some s \<Rightarrow> s | None \<Rightarrow>
     \<lparr>st_site_id = 6382967, st_state_change = ''automatic'', st_anonymize_digits = True,
      st_suppress_all = False, st_suppress_text = False, st_specific_pages = [],
      st_features = [''ask.popover_redesign'', ''client_script.compression.pc'', ''csq_theme'', ''error_reporting'',
        ''feedback.embeddable_widget'', ''feedback.widgetV2'', ''settings.billing_v2'', ''survey.embeddable_widget'',
        ''survey.image_question'', ''survey.screenshots'', ''survey.type_button'', ''tcvs_v2'']\<rparr>)"

datatype operator = Contain | End | Start | ExactMatch

record mask_rule =
  mr_operator :: operator
  mr_value :: string
  mr_simple :: bool
  mr_not :: bool

text \<open>The table \<open>n\<close> of \<open>U\<close>: \<open>simple\<close> compares as \<open>contains\<close>, without case, query and fragment.\<close>

fun mask_operator :: "match_operation \<Rightarrow> operator option" where
  "mask_operator Contains = Some Contain"
| "mask_operator Regex = Some Contain"
| "mask_operator Simple = Some Contain"
| "mask_operator EndsWithOp = Some End"
| "mask_operator Exact = Some ExactMatch"
| "mask_operator StartsWithOp = Some Start"
| "mask_operator UnknownOp = None"

definition mask_rules :: "page_rule list \<Rightarrow> mask_rule list option" where
  "mask_rules pages =
     (let i = concat (map (\<lambda>e. case mask_operator (pr_operation e) of
                None \<Rightarrow> []
              | Some op \<Rightarrow> if pr_pattern e = [] then []
                  else [\<lparr>mr_operator = op, mr_value = pr_pattern e, mr_simple = (pr_operation e = Simple), mr_not = pr_negate e\<rparr>])
              pages)
      in if i = [] then None else Some i)"

datatype mask_method = MaskRegex | MaskRegexRules

record masking =
  mk_method :: "mask_method option"
  mk_regex :: "string option"
  mk_rules :: "mask_rule list option"

definition page_masking :: "site_settings \<Rightarrow> masking" where
  "page_masking e =
     (let o1 = \<lparr>mk_method = None, mk_regex = None, mk_rules = None\<rparr>;
          o2 = (if st_suppress_all e \<or> st_suppress_text e
                then o1\<lparr>mk_method := Some MaskRegex, mk_regex := Some ''.*''\<rparr> else o1)
      in if st_specific_pages e \<noteq> []
         then o2\<lparr>mk_method := Some MaskRegexRules, mk_rules := mask_rules (st_specific_pages e)\<rparr> else o2)"

text \<open>
  A list of specific pages takes over from \<open>suppress_all\<close>: the method becomes the rules, and
  when none of them is usable there are none, although everything was to be masked.
\<close>

lemma specific_pages_override:
  assumes "st_specific_pages e \<noteq> []" and "\<forall>p \<in> set (st_specific_pages e). pr_pattern p = [] \<or> pr_operation p = UnknownOp"
  shows "mk_method (page_masking e) = Some MaskRegexRules \<and> mk_rules (page_masking e) = None"
proof -
  have "concat (map (\<lambda>e. case mask_operator (pr_operation e) of None \<Rightarrow> []
       | Some op \<Rightarrow> if pr_pattern e = [] then []
           else [\<lparr>mr_operator = op, mr_value = pr_pattern e, mr_simple = (pr_operation e = Simple), mr_not = pr_negate e\<rparr>])
     (st_specific_pages e)) = []"
    using assms(2) by (auto split: option.splits)
  with assms(1) show ?thesis by (simp add: page_masking_def mask_rules_def Let_def)
qed

section \<open>Loading the script\<close>

datatype boot_mode = ContentSquare | Lite | Classic

text \<open>\<open>CS_CONF\<close> with its \<open>voc.enabled\<close>, and whether \<open>_hjSettings.csid\<close> is set.\<close>

definition boot_mode_of :: "bool option option \<Rightarrow> site_settings \<Rightarrow> bool \<Rightarrow> boot_mode" where
  "boot_mode_of cs_conf settings csid =
     (if cs_conf = Some (Some True) then ContentSquare
      else if cs_conf = None \<and> (''cs_lite'' \<in> set (st_features settings) \<or> csid) then Lite
      else Classic)"

lemma saved_site_boots_classic: "boot_mode_of None (hjSiteSettings None) False = Classic"
  by (simp add: boot_mode_of_def hjSiteSettings_def)

definition lower_char :: "char \<Rightarrow> char" where
  "lower_char c = (let n = of_char c :: nat in if 65 \<le> n \<and> n \<le> 90 then char_of (n + 32) else c)"

definition bot_words :: "string list" where
  "bot_words = [''bot'', ''google'', ''headless'', ''baidu'', ''bing'', ''msn'', ''duckduckbot'', ''teoma'', ''slurp'',
     ''yandex'', ''phantomjs'', ''pingdom'', ''ahrefsbot'', ''facebook'']"

definition is_bot :: "string \<Rightarrow> bool" where
  "is_bot ua = list_ex (\<lambda>w. contains w (map lower_char ua)) bot_words"

datatype rejection = Bot | NotHttps

text \<open>
  The page: whether \<open>window.hjBootstrap\<close> is still the loading function or the recording
  one (\<open>u\<close>) it is replaced by, the sites that asked (\<open>hjBootstrapCalled\<close>), the scripts
  inserted, and the rejections counted.
\<close>

record page =
  pg_user_agent :: string
  pg_http :: bool
  pg_preview :: bool
  pg_recording :: bool
  pg_called :: "string list"
  pg_scripts :: "string list"
  pg_rejected :: "rejection list"

definition hjBootstrap :: "string \<Rightarrow> string \<Rightarrow> string \<Rightarrow> page \<Rightarrow> page" where
  "hjBootstrap domain file site p =
     (if pg_recording p then p\<lparr>pg_called := pg_called p @ [site]\<rparr>
      else let ua = (if pg_user_agent p = [] then ''unknown'' else pg_user_agent p)
        in if is_bot ua then p\<lparr>pg_rejected := pg_rejected p @ [Bot]\<rparr>
           else if pg_http p \<and> \<not> pg_preview p then p\<lparr>pg_rejected := pg_rejected p @ [NotHttps]\<rparr>
           else p\<lparr>pg_called := pg_called p @ [site], pg_scripts := pg_scripts p @ [domain @ file], pg_recording := True\<rparr>)"

definition page_new :: "string \<Rightarrow> bool \<Rightarrow> bool \<Rightarrow> page" where
  "page_new ua http preview =
     \<lparr>pg_user_agent = ua, pg_http = http, pg_preview = preview, pg_recording = False, pg_called = [],
      pg_scripts = [], pg_rejected = []\<rparr>"

text \<open>The snippet included with these sites, one after the other.\<close>

definition include_all :: "string \<Rightarrow> string \<Rightarrow> string list \<Rightarrow> page \<Rightarrow> page" where
  "include_all domain file sites p = fold (hjBootstrap domain file) sites p"

definition page_accepts :: "page \<Rightarrow> bool" where
  "page_accepts p \<longleftrightarrow> \<not> is_bot (if pg_user_agent p = [] then ''unknown'' else pg_user_agent p) \<and>
     (pg_http p \<longrightarrow> pg_preview p)"

lemma bootstrap_recording:
  "pg_recording p \<Longrightarrow> include_all domain file sites p = p\<lparr>pg_called := pg_called p @ sites\<rparr>"
  by (induction sites arbitrary: p) (simp_all add: include_all_def hjBootstrap_def)

lemma bootstrap_rejected:
  assumes "\<not> pg_recording p" and "\<not> page_accepts p"
  shows "pg_scripts (include_all domain file sites p) = pg_scripts p \<and>
         pg_called (include_all domain file sites p) = pg_called p \<and>
         length (pg_rejected (include_all domain file sites p)) = length (pg_rejected p) + length sites"
  using assms
proof (induction sites arbitrary: p)
  case (Cons site sites)
  have "\<not> pg_recording (hjBootstrap domain file site p)" "\<not> page_accepts (hjBootstrap domain file site p)"
    "pg_scripts (hjBootstrap domain file site p) = pg_scripts p"
    "pg_called (hjBootstrap domain file site p) = pg_called p"
    "length (pg_rejected (hjBootstrap domain file site p)) = Suc (length (pg_rejected p))"
    using Cons.prems by (auto simp: hjBootstrap_def page_accepts_def Let_def)
  with Cons.IH [of "hjBootstrap domain file site p"] show ?case by (simp add: include_all_def)
qed (simp add: include_all_def)

lemma bootstrap_once:
  assumes "\<not> pg_recording p" and "page_accepts p" and "sites \<noteq> []"
  shows "pg_scripts (include_all domain file sites p) = pg_scripts p @ [domain @ file] \<and>
         pg_called (include_all domain file sites p) = pg_called p @ sites"
proof -
  from assms(3) obtain s ss where ss: "sites = s # ss" by (cases sites) auto
  have h: "hjBootstrap domain file s p =
      p\<lparr>pg_called := pg_called p @ [s], pg_scripts := pg_scripts p @ [domain @ file], pg_recording := True\<rparr>"
    using assms(1,2) by (auto simp: hjBootstrap_def page_accepts_def Let_def)
  have "include_all domain file sites p = include_all domain file ss (hjBootstrap domain file s p)"
    by (simp add: include_all_def ss)
  with bootstrap_recording [of "hjBootstrap domain file s p"] h ss show ?thesis by simp
qed

section \<open>The debug id\<close>

text \<open>Noted under the stack of a new \<open>Error\<close>, where the engine gives one.\<close>

definition note_debug_id :: "string option \<Rightarrow> (string \<rightharpoonup> string) \<Rightarrow> (string \<rightharpoonup> string)" where
  "note_debug_id stack ids =
     (case stack of None \<Rightarrow> ids
      | Some n \<Rightarrow> if n = [] then ids else ids(n \<mapsto> ''9a89f043-5a4c-50ad-848e-7ea4cb6ca0a3''))"

end
