(* ===== verification/Retryer.thy ===== *)
theory Retryer
  imports Main
begin

text \<open>
  The request machinery of the saved documentation pages, \<open>html/DeepWiki_files/3852-f786c46570f1c37a.js\<close>
  (one line): the retryer of module 6784 (\<open>l\<close>) with its delays (\<open>a\<close>), the notification
  queue of module 7165, the state of a mutation with its reducer (module 34560) and the
  bounded lists of module 52020 (\<open>S\<close>, \<open>C\<close>). The request itself, the timers and the state of
  the browser (focused, online) are the environment: they are events of the model.
\<close>

section \<open>The retryer\<close>

definition retry_delay :: "nat \<Rightarrow> nat" where
  "retry_delay t = min (1000 * 2 ^ t) 30000"

datatype network_mode = Online | Always | OfflineFirst

text \<open>\<open>u\<close> of module 6784; an unset mode is \<open>online\<close>.\<close>

definition can_fetch :: "network_mode option \<Rightarrow> bool \<Rightarrow> bool" where
  "can_fetch mode online = ((case mode of None \<Rightarrow> Online | Some m \<Rightarrow> m) \<noteq> Online \<or> online)"

text \<open>What the promise is rejected with: the last error, or the \<open>CancelledError\<close> \<open>h\<close>.\<close>

datatype 'e failure = Failed 'e | Cancelled bool bool

datatype 'e retry = RetryAlways bool | RetryTimes int | RetryIf "nat \<Rightarrow> 'e \<Rightarrow> bool"

datatype 'e delay = DelayTime nat | DelayFun "nat \<Rightarrow> 'e \<Rightarrow> nat"

record 'e retry_options =
  ro_retry :: "'e retry option"
  ro_delay :: "'e delay option"
  ro_mode :: "network_mode option"
  ro_initial :: bool
  ro_server :: bool

text \<open>What follows a pause: the first run, or the run after a failure with this error.\<close>

datatype 'e kont = FirstRun | NextRun 'e

text \<open>What has been started and has not come back: the request, a timer, a resolved pause.\<close>

datatype 'e task = Request | Sleep 'e | Resume "'e kont"

text \<open>The callbacks that were called.\<close>

datatype ('v, 'e) call = OnSuccess 'v | OnError "'e failure" | OnFail nat 'e | OnPause | OnContinue | Abort

text \<open>
  The variables of \<open>l\<close>: \<open>c\<close>, \<open>s\<close>, \<open>l\<close>, the promise \<open>d\<close>, and the resolver \<open>e\<close> of a pause with
  what is to follow and whether it was resolved. \<open>rt_runs\<close> and \<open>rt_delays\<close> count the calls of
  \<open>fn\<close> and of the timer for the statements.
\<close>

record ('v, 'e) retryer =
  rt_failures :: nat
  rt_stopped :: bool
  rt_resolved :: bool
  rt_result :: "('e failure + 'v) option"
  rt_pause :: "('e kont \<times> bool) option"
  rt_tasks :: "'e task list"
  rt_runs :: nat
  rt_delays :: "nat list"
  rt_calls :: "('v, 'e) call list"

definition retryer_new :: "('v, 'e) retryer" where
  "retryer_new = \<lparr>rt_failures = 0, rt_stopped = False, rt_resolved = False, rt_result = None, rt_pause = None,
     rt_tasks = [], rt_runs = 0, rt_delays = [], rt_calls = []\<rparr>"

definition rt_call :: "('v, 'e) call \<Rightarrow> ('v, 'e) retryer \<Rightarrow> ('v, 'e) retryer" where
  "rt_call k r = r\<lparr>rt_calls := rt_calls r @ [k]\<rparr>"

definition rt_spawn :: "'e task \<Rightarrow> ('v, 'e) retryer \<Rightarrow> ('v, 'e) retryer" where
  "rt_spawn k r = r\<lparr>rt_tasks := rt_tasks r @ [k]\<rparr>"

text \<open>\<open>e?.()\<close>: resolves the pause when the promise is settled or the browser is ready (\<open>p\<close>).\<close>

definition rt_wake :: "bool \<Rightarrow> ('v, 'e) retryer \<Rightarrow> ('v, 'e) retryer" where
  "rt_wake ready r = (case rt_pause r of
       None \<Rightarrow> r
     | Some (k, woken) \<Rightarrow>
         if (rt_resolved r \<or> ready) \<and> \<not> woken
         then rt_spawn (Resume k) (r\<lparr>rt_pause := Some (k, True)\<rparr>) else r)"

text \<open>\<open>y\<close> and \<open>v\<close>: the promise is settled, once.\<close>

definition rt_resolve :: "'v \<Rightarrow> ('v, 'e) retryer \<Rightarrow> ('v, 'e) retryer" where
  "rt_resolve x r =
     (if rt_resolved r then r
      else (rt_wake True (rt_call (OnSuccess x) (r\<lparr>rt_resolved := True\<rparr>)))\<lparr>rt_result := Some (Inr x)\<rparr>)"

definition rt_reject :: "'e failure \<Rightarrow> ('v, 'e) retryer \<Rightarrow> ('v, 'e) retryer" where
  "rt_reject x r =
     (if rt_resolved r then r
      else (rt_wake True (rt_call (OnError x) (r\<lparr>rt_resolved := True\<rparr>)))\<lparr>rt_result := Some (Inl x)\<rparr>)"

text \<open>\<open>m\<close>: pause until woken.\<close>

definition rt_wait :: "'e kont \<Rightarrow> ('v, 'e) retryer \<Rightarrow> ('v, 'e) retryer" where
  "rt_wait k r = rt_call OnPause (r\<lparr>rt_pause := Some (k, False)\<rparr>)"

text \<open>\<open>b\<close>: start the request, unless settled; the first time it may be given as a promise.\<close>

definition rt_run :: "'e retry_options \<Rightarrow> ('v, 'e) retryer \<Rightarrow> ('v, 'e) retryer" where
  "rt_run opts r =
     (if rt_resolved r then r
      else rt_spawn Request
        (if rt_failures r = 0 \<and> ro_initial opts then r else r\<lparr>rt_runs := Suc (rt_runs r)\<rparr>))"

definition rt_next :: "'e retry_options \<Rightarrow> 'e \<Rightarrow> ('v, 'e) retryer \<Rightarrow> ('v, 'e) retryer" where
  "rt_next opts err r = (if rt_stopped r then rt_reject (Failed err) r else rt_run opts r)"

definition retries :: "'e retry_options \<Rightarrow> nat \<Rightarrow> 'e \<Rightarrow> bool" where
  "retries opts c err =
     (case (case ro_retry opts of None \<Rightarrow> RetryTimes (if ro_server opts then 0 else 3) | Some i \<Rightarrow> i) of
        RetryAlways b \<Rightarrow> b
      | RetryTimes n \<Rightarrow> int c < n
      | RetryIf f \<Rightarrow> f c err)"

definition delay_of :: "'e retry_options \<Rightarrow> nat \<Rightarrow> 'e \<Rightarrow> nat" where
  "delay_of opts c err =
     (case ro_delay opts of None \<Rightarrow> retry_delay c | Some (DelayTime t) \<Rightarrow> t | Some (DelayFun f) \<Rightarrow> f c err)"

definition rt_failed :: "'e retry_options \<Rightarrow> 'e \<Rightarrow> ('v, 'e) retryer \<Rightarrow> ('v, 'e) retryer" where
  "rt_failed opts err r =
     (if rt_resolved r then r
      else let d = delay_of opts (rt_failures r) err
        in if rt_stopped r \<or> \<not> retries opts (rt_failures r) err then rt_reject (Failed err) r
           else rt_spawn (Sleep err)
             ((rt_call (OnFail (Suc (rt_failures r)) err) (r\<lparr>rt_failures := Suc (rt_failures r)\<rparr>))\<lparr>rt_delays := rt_delays r @ [d]\<rparr>))"

text \<open>
  The events: the calls of the object's methods with what they see of the browser
  (\<open>canStart\<close>, \<open>p\<close>), and the ends of what was started.
\<close>

datatype ('v, 'e) rt_event =
    Started bool | Succeeded 'v | Errored 'e | SleepOver 'e bool | Resumed "'e kont"
  | Continue bool | Cancel bool bool | CancelRetry | ContinueRetry

definition rt_take :: "'e task \<Rightarrow> ('v, 'e) retryer \<Rightarrow> ('v, 'e) retryer" where
  "rt_take k r = r\<lparr>rt_tasks := remove1 k (rt_tasks r)\<rparr>"

fun rt_enabled :: "('v, 'e) rt_event \<Rightarrow> ('v, 'e) retryer \<Rightarrow> bool" where
  "rt_enabled (Succeeded x) r = (Request \<in> set (rt_tasks r))"
| "rt_enabled (Errored err) r = (Request \<in> set (rt_tasks r))"
| "rt_enabled (SleepOver err ready) r = (Sleep err \<in> set (rt_tasks r))"
| "rt_enabled (Resumed k) r = (Resume k \<in> set (rt_tasks r))"
| "rt_enabled _ r = True"

fun rt_step :: "'e retry_options \<Rightarrow> ('v, 'e) rt_event \<Rightarrow> ('v, 'e) retryer \<Rightarrow> ('v, 'e) retryer" where
  "rt_step opts (Started ready) r = (if ready then rt_run opts r else rt_wait FirstRun r)"
| "rt_step opts (Succeeded x) r = rt_resolve x (rt_take Request r)"
| "rt_step opts (Errored err) r = rt_failed opts err (rt_take Request r)"
| "rt_step opts (SleepOver err ready) r =
     (let r = rt_take (Sleep err) r in if ready then rt_next opts err r else rt_wait (NextRun err) r)"
| "rt_step opts (Resumed k) r =
     (let r = (rt_take (Resume k) r)\<lparr>rt_pause := None\<rparr>;
          r = (if rt_resolved r then r else rt_call OnContinue r)
      in case k of FirstRun \<Rightarrow> rt_run opts r | NextRun err \<Rightarrow> rt_next opts err r)"
| "rt_step opts (Continue ready) r = rt_wake ready r"
| "rt_step opts (Cancel revert silent) r =
     (if rt_resolved r then r else rt_call Abort (rt_reject (Cancelled revert silent) r))"
| "rt_step opts CancelRetry r = r\<lparr>rt_stopped := True\<rparr>"
| "rt_step opts ContinueRetry r = r\<lparr>rt_stopped := False\<rparr>"

text \<open>What can happen to a retryer that is started once, as queries and mutations do.\<close>

inductive rt_reach :: "'e retry_options \<Rightarrow> ('v, 'e) retryer \<Rightarrow> bool" for opts where
  rt_start: "rt_reach opts (rt_step opts (Started ready) retryer_new)"
| rt_event: "rt_reach opts r \<Longrightarrow> rt_enabled ev r \<Longrightarrow> \<forall>ready. ev \<noteq> Started ready \<Longrightarrow> rt_reach opts (rt_step opts ev r)"

text \<open>
  What holds of a reached retryer. \<open>rt_core\<close>: the promise is settled exactly when
  \<open>isResolved\<close> is set, by one callback; a failure was slept on and stays within the limit;
  \<open>fn\<close> ran at most once more than it failed. \<open>rt_idle\<close>: nothing has been started. In
  between at most one thing has (\<open>rt_inv\<close>).
\<close>

fun settling :: "('v, 'e) call \<Rightarrow> bool" where
  "settling (OnSuccess _) = True"
| "settling (OnError _) = True"
| "settling _ = False"

definition rt_core :: "'e retry_options \<Rightarrow> ('v, 'e) retryer \<Rightarrow> bool" where
  "rt_core opts r \<longleftrightarrow> rt_resolved r = (rt_result r \<noteq> None) \<and>
     length (filter settling (rt_calls r)) = (if rt_resolved r then 1 else 0) \<and>
     rt_runs r \<le> Suc (rt_failures r) \<and>
     (\<forall>n. ro_retry opts = Some (RetryTimes n) \<longrightarrow> int (rt_failures r) \<le> max 0 n) \<and>
     (ro_delay opts = None \<longrightarrow> rt_delays r = map retry_delay [0..<rt_failures r])"

definition rt_idle :: "('v, 'e) retryer \<Rightarrow> bool" where
  "rt_idle r \<longleftrightarrow> rt_tasks r = [] \<and> (\<forall>k. rt_pause r \<noteq> Some (k, False))"

definition rt_fresh :: "('v, 'e) retryer \<Rightarrow> bool" where
  "rt_fresh r \<longleftrightarrow> (rt_resolved r \<or> rt_runs r \<le> rt_failures r)"

definition rt_one :: "('v, 'e) retryer \<Rightarrow> bool" where
  "rt_one r \<longleftrightarrow> (rt_tasks r = [] \<or> (\<exists>k. rt_tasks r = [k]) \<and> (\<forall>k. rt_pause r \<noteq> Some (k, False)))"

definition rt_inv :: "'e retry_options \<Rightarrow> ('v, 'e) retryer \<Rightarrow> bool" where
  "rt_inv opts r \<longleftrightarrow> rt_core opts r \<and> rt_one r \<and> (Request \<in> set (rt_tasks r) \<or> rt_fresh r)"

lemmas rt_defs = rt_core_def rt_idle_def rt_fresh_def rt_one_def rt_inv_def

lemma rt_inv_take:
  assumes "rt_inv opts r" and "k \<in> set (rt_tasks r)"
  shows "rt_core opts (rt_take k r) \<and> rt_idle (rt_take k r) \<and> (k \<noteq> Request \<longrightarrow> rt_fresh (rt_take k r))"
proof -
  from assms have "rt_tasks r = [k]" by (auto simp: rt_inv_def rt_one_def)
  with assms show ?thesis by (auto simp: rt_defs rt_take_def)
qed

lemma rt_idle_inv: "rt_core opts r \<Longrightarrow> rt_idle r \<Longrightarrow> rt_fresh r \<Longrightarrow> rt_inv opts r"
  by (simp add: rt_inv_def rt_idle_def rt_one_def)

lemma rt_wake_idle: "rt_idle r \<Longrightarrow> rt_wake ready r = r"
  by (auto simp: rt_wake_def rt_idle_def split: option.splits)

lemma rt_wake_fields [simp]:
  "rt_resolved (rt_wake ready r) = rt_resolved r" "rt_result (rt_wake ready r) = rt_result r"
  "rt_calls (rt_wake ready r) = rt_calls r" "rt_runs (rt_wake ready r) = rt_runs r"
  "rt_failures (rt_wake ready r) = rt_failures r" "rt_delays (rt_wake ready r) = rt_delays r"
  by (simp_all add: rt_wake_def rt_spawn_def split: option.splits prod.splits)

lemma rt_wake_one: "rt_one r \<Longrightarrow> rt_one (rt_wake ready r) \<and> (Request \<in> set (rt_tasks (rt_wake ready r))) = (Request \<in> set (rt_tasks r))"
  by (cases "rt_pause r") (auto simp: rt_wake_def rt_spawn_def rt_one_def split: if_splits)

lemma rt_wake_inv: "rt_inv opts r \<Longrightarrow> rt_inv opts (rt_wake ready r)"
  using rt_wake_one [of r ready] by (auto simp: rt_inv_def rt_core_def rt_fresh_def)

text \<open>Settling the promise, from any state that has at most one thing started.\<close>

lemma rt_settle_inv:
  assumes "rt_core opts r" "rt_one r" "\<not> rt_resolved r" "settling c" "x \<noteq> None"
  shows "rt_inv opts ((rt_wake True (rt_call c (r\<lparr>rt_resolved := True\<rparr>)))\<lparr>rt_result := x\<rparr>)"
proof -
  let ?w = "rt_wake True (rt_call c (r\<lparr>rt_resolved := True\<rparr>))"
  have "rt_one ?w"
    by (rule rt_wake_one [THEN conjunct1]) (use assms in \<open>simp add: rt_one_def rt_call_def\<close>)
  then show ?thesis
    using assms(1,3-5) by (simp add: rt_inv_def rt_core_def rt_fresh_def rt_one_def) (simp add: rt_call_def)
qed

lemma rt_idle_one: "rt_idle r \<Longrightarrow> rt_one r"
  by (simp add: rt_idle_def rt_one_def)

lemma rt_resolve_inv: "rt_core opts r \<Longrightarrow> rt_idle r \<Longrightarrow> rt_inv opts (rt_resolve x r)"
  by (simp add: rt_resolve_def rt_settle_inv rt_idle_one) (simp add: rt_idle_inv rt_fresh_def)

lemma rt_reject_one: "rt_core opts r \<Longrightarrow> rt_one r \<Longrightarrow> \<not> rt_resolved r \<Longrightarrow> rt_inv opts (rt_reject x r)"
  by (simp add: rt_reject_def rt_settle_inv)

lemma rt_reject_inv: "rt_core opts r \<Longrightarrow> rt_idle r \<Longrightarrow> rt_inv opts (rt_reject x r)"
  by (cases "rt_resolved r") (simp_all add: rt_reject_one rt_idle_one, simp add: rt_reject_def rt_idle_inv rt_fresh_def)

lemma rt_run_inv: "rt_core opts r \<Longrightarrow> rt_idle r \<Longrightarrow> rt_fresh r \<Longrightarrow> rt_inv opts (rt_run opts r)"
  by (cases "rt_resolved r") (auto simp: rt_run_def rt_idle_inv, auto simp: rt_defs rt_spawn_def)

lemma rt_next_inv: "rt_core opts r \<Longrightarrow> rt_idle r \<Longrightarrow> rt_fresh r \<Longrightarrow> rt_inv opts (rt_next opts err r)"
  by (simp add: rt_next_def rt_run_inv rt_reject_inv)

lemma rt_wait_inv: "rt_core opts r \<Longrightarrow> rt_idle r \<Longrightarrow> rt_fresh r \<Longrightarrow> rt_inv opts (rt_wait k r)"
  by (simp add: rt_wait_def rt_call_def rt_defs)

lemma retries_limit:
  assumes "ro_retry opts = Some (RetryTimes n)" and "retries opts c err"
  shows "int (Suc c) \<le> max 0 n"
  using assms by (simp add: retries_def)

lemma rt_failed_inv:
  assumes "rt_core opts r" "rt_idle r"
  shows "rt_inv opts (rt_failed opts err r)"
proof -
  consider "rt_resolved r" | "\<not> rt_resolved r" "rt_stopped r \<or> \<not> retries opts (rt_failures r) err"
    | "\<not> rt_resolved r" "\<not> rt_stopped r" "retries opts (rt_failures r) err" by blast
  then show ?thesis
  proof cases
    case 1
    with assms show ?thesis by (simp add: rt_failed_def rt_idle_inv rt_fresh_def)
  next
    case 2
    with assms show ?thesis by (simp add: rt_failed_def rt_reject_inv)
  next
    case 3
    have "delay_of opts (rt_failures r) err = retry_delay (rt_failures r)" if "ro_delay opts = None"
      by (simp add: delay_of_def that)
    with assms 3 retries_limit [of opts _ "rt_failures r" err] show ?thesis
      by (auto simp: rt_failed_def Let_def rt_spawn_def rt_call_def rt_defs)
  qed
qed

lemma rt_new_inv: "rt_core opts retryer_new" "rt_idle retryer_new" "rt_fresh retryer_new"
  by (auto simp: rt_defs retryer_new_def)

lemma rt_reach_inv: "rt_reach opts r \<Longrightarrow> rt_inv opts r"
proof (induction rule: rt_reach.induct)
  case (rt_start ready)
  then show ?case by (simp add: rt_run_inv rt_wait_inv rt_new_inv)
next
  case (rt_event r ev)
  show ?case
  proof (cases ev)
    case (Started ready)
    with rt_event(3) show ?thesis by blast
  next
    case (Succeeded x)
    with rt_event rt_inv_take [of opts r Request] show ?thesis by (simp add: rt_resolve_inv)
  next
    case (Errored err)
    with rt_event rt_inv_take [of opts r Request] show ?thesis by (simp add: rt_failed_inv)
  next
    case (SleepOver err ready)
    with rt_event rt_inv_take [of opts r "Sleep err"] show ?thesis by (simp add: rt_next_inv rt_wait_inv Let_def)
  next
    case (Resumed k)
    define q where "q = (rt_take (Resume k) r)\<lparr>rt_pause := None\<rparr>"
    define w where "w = (if rt_resolved q then q else rt_call OnContinue q)"
    have "rt_core opts (rt_take (Resume k) r)" "rt_idle (rt_take (Resume k) r)" "rt_fresh (rt_take (Resume k) r)"
      using rt_event Resumed rt_inv_take [of opts r "Resume k"] by simp_all
    then have q: "rt_core opts q" "rt_idle q" "rt_fresh q"
      by (simp_all add: q_def rt_core_def rt_idle_def rt_fresh_def)
    have "rt_core opts w" "rt_idle w" "rt_fresh w"
      by (cases "rt_resolved q"; use q in \<open>simp add: w_def rt_core_def rt_idle_def rt_fresh_def rt_call_def\<close>)+
    moreover have "rt_step opts ev r = (case k of FirstRun \<Rightarrow> rt_run opts w | NextRun err \<Rightarrow> rt_next opts err w)"
      by (cases k; cases "rt_resolved (rt_take (Resume k) r)"; simp add: Resumed w_def q_def Let_def)
    ultimately show ?thesis
      by (cases k) (simp_all add: rt_run_inv rt_next_inv)
  next
    case (Continue ready)
    with rt_event show ?thesis by (simp add: rt_wake_inv)
  next
    case (Cancel revert silent)
    have "rt_inv opts (rt_call Abort s)" if "rt_inv opts s" for s :: "('b, 'a) retryer"
      using that by (auto simp: rt_defs rt_call_def)
    with Cancel rt_event show ?thesis by (auto simp: rt_inv_def [of opts r] rt_reject_one)
  next
    case CancelRetry
    with rt_event show ?thesis by (auto simp: rt_defs)
  next
    case ContinueRetry
    with rt_event show ?thesis by (auto simp: rt_defs)
  qed
qed

text \<open>A settled promise keeps its value, whatever still comes back.\<close>

lemma rt_settled_stays:
  assumes "rt_inv opts r" and "rt_result r = Some x"
  shows "rt_result (rt_step opts ev r) = Some x"
proof -
  have r: "rt_resolved r" using assms by (simp add: rt_inv_def rt_core_def)
  show ?thesis
    by (cases ev; use r assms(2) in \<open>simp add: rt_take_def rt_run_def rt_wait_def rt_call_def rt_resolve_def
        rt_reject_def rt_failed_def rt_next_def Let_def split: kont.split\<close>)
qed

text \<open>
  The request answered again and again, in a browser that is focused and online: each
  answer is followed by the end of the timer, where one was started.
\<close>

datatype ('v, 'e) answer = Ok 'v | Fail 'e

fun answer_events :: "('v, 'e) answer \<Rightarrow> ('v, 'e) rt_event list" where
  "answer_events (Ok x) = [Succeeded x]"
| "answer_events (Fail err) = [Errored err, SleepOver err True]"

definition rt_try :: "'e retry_options \<Rightarrow> ('v, 'e) rt_event \<Rightarrow> ('v, 'e) retryer \<Rightarrow> ('v, 'e) retryer" where
  "rt_try opts ev r = (if rt_enabled ev r then rt_step opts ev r else r)"

definition rt_drive :: "'e retry_options \<Rightarrow> ('v, 'e) answer list \<Rightarrow> ('v, 'e) retryer \<Rightarrow> ('v, 'e) retryer" where
  "rt_drive opts os r = fold (rt_try opts) (concat (map answer_events os)) r"

text \<open>What the caller gets: the first success among the first \<open>n + 1\<close> answers, or the last of these errors.\<close>

fun first_outcome :: "nat \<Rightarrow> ('v, 'e) answer list \<Rightarrow> ('e failure + 'v) option" where
  "first_outcome n [] = None"
| "first_outcome n (Ok x # os) = Some (Inr x)"
| "first_outcome 0 (Fail err # os) = Some (Inl (Failed err))"
| "first_outcome (Suc n) (Fail err # os) = first_outcome n os"

definition rt_waiting :: "nat \<Rightarrow> ('v, 'e) retryer \<Rightarrow> bool" where
  "rt_waiting c r \<longleftrightarrow> rt_tasks r = [Request] \<and> rt_failures r = c \<and> \<not> rt_resolved r \<and> rt_result r = None \<and>
     \<not> rt_stopped r \<and> rt_pause r = None"

lemma rt_waiting_ok:
  assumes "rt_waiting c r"
  shows "rt_result (rt_try opts (Succeeded x) r) = Some (Inr x)"
    and "rt_tasks (rt_try opts (Succeeded x) r) = []"
  using assms by (simp_all add: rt_waiting_def rt_try_def rt_take_def rt_resolve_def rt_call_def rt_wake_def)

lemma rt_waiting_retry:
  assumes "rt_waiting c r" and "ro_retry opts = Some (RetryTimes (int n))" and "c < n"
  shows "rt_waiting (Suc c) (rt_try opts (SleepOver err True) (rt_try opts (Errored err) r))"
  using assms by (simp add: rt_waiting_def rt_try_def rt_take_def rt_failed_def retries_def rt_call_def rt_spawn_def
      rt_next_def rt_run_def Let_def)

lemma rt_waiting_fail:
  assumes "rt_waiting c r" and "ro_retry opts = Some (RetryTimes (int n))" and "\<not> c < n"
  shows "rt_result (rt_try opts (SleepOver err True) (rt_try opts (Errored err) r)) = Some (Inl (Failed err)) \<and>
         rt_tasks (rt_try opts (SleepOver err True) (rt_try opts (Errored err) r)) = []"
  using assms by (simp add: rt_waiting_def rt_try_def rt_take_def rt_failed_def retries_def rt_call_def
      rt_reject_def rt_wake_def)

lemma rt_drive_idle: "rt_tasks r = [] \<Longrightarrow> rt_drive opts os r = r"
proof (induction os)
  case (Cons a os)
  then show ?case by (cases a) (simp_all add: rt_drive_def rt_try_def)
qed (simp add: rt_drive_def)

lemma rt_drive_outcome:
  assumes "rt_waiting c r" and "ro_retry opts = Some (RetryTimes (int (c + n)))"
  shows "rt_result (rt_drive opts os r) = first_outcome n os"
  using assms
proof (induction n os arbitrary: r c rule: first_outcome.induct)
  case (1 n)
  then show ?case by (simp add: rt_drive_def rt_waiting_def)
next
  case (2 n x os)
  have "rt_drive opts (Ok x # os) r = rt_drive opts os (rt_try opts (Succeeded x) r)"
    by (simp add: rt_drive_def)
  with rt_waiting_ok [OF 2(1), of opts x] show ?case by (simp add: rt_drive_idle)
next
  case (3 err os)
  let ?r = "rt_try opts (SleepOver err True) (rt_try opts (Errored err) r)"
  have "rt_drive opts (Fail err # os) r = rt_drive opts os ?r"
    by (simp add: rt_drive_def)
  with rt_waiting_fail [OF 3, of err] show ?case by (simp add: rt_drive_idle)
next
  case (4 n err os)
  let ?r = "rt_try opts (SleepOver err True) (rt_try opts (Errored err) r)"
  have d: "rt_drive opts (Fail err # os) r = rt_drive opts os ?r"
    by (simp add: rt_drive_def)
  have "rt_waiting (Suc c) ?r" by (rule rt_waiting_retry [OF 4(2,3)]) simp
  from 4(1) [OF this] 4(3) d show ?case by simp
qed

lemma rt_start_waiting: "rt_waiting 0 (rt_step opts (Started True) retryer_new)"
  by (simp add: rt_waiting_def retryer_new_def rt_run_def rt_spawn_def)

section \<open>Notifications\<close>

text \<open>
  \<open>t\<close>, \<open>e\<close> and the macrotasks handed to the scheduler (\<open>setTimeout\<close> unless replaced), each a
  list of jobs. A program schedules jobs, nests batches, and may throw out of them.
\<close>

record 'j notifier =
  nm_queue :: "'j list"
  nm_depth :: nat
  nm_tasks :: "'j list list"

datatype 'j notify_call = Schedule 'j | Batch "'j notify_call list" | Raise

definition nm_schedule :: "'j \<Rightarrow> 'j notifier \<Rightarrow> 'j notifier" where
  "nm_schedule i s =
     (if nm_depth s \<noteq> 0 then s\<lparr>nm_queue := nm_queue s @ [i]\<rparr> else s\<lparr>nm_tasks := nm_tasks s @ [[i]]\<rparr>)"

definition nm_flush :: "'j notifier \<Rightarrow> 'j notifier" where
  "nm_flush s =
     (let e = nm_queue s; s = s\<lparr>nm_queue := []\<rparr>
      in if e \<noteq> [] then s\<lparr>nm_tasks := nm_tasks s @ [e]\<rparr> else s)"

text \<open>Leaving a batch, normally or by an exception.\<close>

definition nm_leave :: "'j notifier \<Rightarrow> 'j notifier" where
  "nm_leave s = (let s = s\<lparr>nm_depth := nm_depth s - 1\<rparr> in if nm_depth s = 0 then nm_flush s else s)"

fun nm_run :: "'j notify_call \<Rightarrow> 'j notifier \<Rightarrow> bool \<times> 'j notifier"
  and nm_runs :: "'j notify_call list \<Rightarrow> 'j notifier \<Rightarrow> bool \<times> 'j notifier" where
  "nm_run (Schedule i) s = (False, nm_schedule i s)"
| "nm_run (Batch cs) s =
     (let (threw, s) = nm_runs cs (s\<lparr>nm_depth := Suc (nm_depth s)\<rparr>) in (threw, nm_leave s))"
| "nm_run Raise s = (True, s)"
| "nm_runs [] s = (False, s)"
| "nm_runs (c # cs) s = (let (threw, s) = nm_run c s in if threw then (True, s) else nm_runs cs s)"

text \<open>The jobs a program schedules before it throws.\<close>

fun nm_jobs :: "'j notify_call \<Rightarrow> bool \<times> 'j list"
  and nm_jobss :: "'j notify_call list \<Rightarrow> bool \<times> 'j list" where
  "nm_jobs (Schedule i) = (False, [i])"
| "nm_jobs (Batch cs) = nm_jobss cs"
| "nm_jobs Raise = (True, [])"
| "nm_jobss [] = (False, [])"
| "nm_jobss (c # cs) =
     (let (threw, js) = nm_jobs c in if threw then (True, js) else let (threw, ks) = nm_jobss cs in (threw, js @ ks))"

definition nm_inv :: "'j notifier \<Rightarrow> bool" where
  "nm_inv s \<longleftrightarrow> (nm_depth s = 0 \<longrightarrow> nm_queue s = [])"

definition nm_log :: "'j notifier \<Rightarrow> 'j list" where
  "nm_log s = concat (nm_tasks s) @ nm_queue s"

lemma nm_run_log:
  "nm_inv s \<Longrightarrow> (case nm_run c s of (threw, s') \<Rightarrow> nm_inv s' \<and> nm_depth s' = nm_depth s \<and>
     nm_log s' = nm_log s @ snd (nm_jobs c) \<and> threw = fst (nm_jobs c) \<and>
     (0 < nm_depth s \<longrightarrow> nm_tasks s' = nm_tasks s))"
  "nm_inv s \<Longrightarrow> (case nm_runs cs s of (threw, s') \<Rightarrow> nm_inv s' \<and> nm_depth s' = nm_depth s \<and>
     nm_log s' = nm_log s @ snd (nm_jobss cs) \<and> threw = fst (nm_jobss cs) \<and>
     (0 < nm_depth s \<longrightarrow> nm_tasks s' = nm_tasks s))"
proof (induction c s and cs s rule: nm_run_nm_runs.induct)
  case (2 cs s)
  have i: "nm_inv (s\<lparr>nm_depth := Suc (nm_depth s)\<rparr>)" by (simp add: nm_inv_def)
  obtain threw s' where r: "nm_runs cs (s\<lparr>nm_depth := Suc (nm_depth s)\<rparr>) = (threw, s')" by (rule prod.exhaust)
  from 2(1) [OF i] r have s': "nm_inv s'" "nm_depth s' = Suc (nm_depth s)" "threw = fst (nm_jobss cs)"
    "nm_log s' = nm_log s @ snd (nm_jobss cs)" "nm_tasks s' = nm_tasks s"
    by (auto simp: nm_log_def)
  then show ?case
    by (simp add: r nm_leave_def nm_flush_def Let_def nm_inv_def nm_log_def)
next
  case (5 c cs s)
  obtain t1 s1 where r1: "nm_run c s = (t1, s1)" by (rule prod.exhaust)
  obtain t2 s2 where r2: "nm_runs cs s1 = (t2, s2)" by (rule prod.exhaust)
  obtain j1 js where j: "nm_jobs c = (j1, js)" by (rule prod.exhaust)
  obtain k1 ks where k: "nm_jobss cs = (k1, ks)" by (rule prod.exhaust)
  from 5(1) [OF 5(3)] r1 j have 1: "nm_inv s1" "nm_depth s1 = nm_depth s" "nm_log s1 = nm_log s @ js" "t1 = j1"
    "0 < nm_depth s \<longrightarrow> nm_tasks s1 = nm_tasks s" by simp_all
  show ?case
  proof (cases t1)
    case True
    with r1 j 1 show ?thesis by simp
  next
    case False
    from 5(2) [OF r1 [symmetric] refl False 1(1)] r2 k 1 have
      "nm_inv s2" "nm_depth s2 = nm_depth s" "nm_log s2 = nm_log s @ js @ ks" "t2 = k1"
      "0 < nm_depth s \<longrightarrow> nm_tasks s2 = nm_tasks s" by auto
    with r1 r2 j k False 1 show ?thesis by simp
  qed
qed (auto simp: nm_schedule_def nm_inv_def nm_log_def)

text \<open>
  An outermost batch hands over all its jobs, in order, as at most one macrotask, whether it
  returns or throws.
\<close>

lemma nm_batch_one_task:
  assumes "nm_depth s = 0" and "nm_queue s = []" and "nm_run (Batch cs) s = (threw, s')"
  shows "nm_depth s' = 0" "nm_queue s' = []" "threw = fst (nm_jobss cs)"
    "nm_tasks s' = nm_tasks s @ (if snd (nm_jobss cs) = [] then [] else [snd (nm_jobss cs)])"
proof -
  have i: "nm_inv (s\<lparr>nm_depth := 1\<rparr>)" by (simp add: nm_inv_def)
  obtain t r where r: "nm_runs cs (s\<lparr>nm_depth := 1\<rparr>) = (t, r)" by (rule prod.exhaust)
  from nm_run_log(2) [OF i, of cs] r assms(1,2) have
    "nm_depth r = 1" "nm_queue r = snd (nm_jobss cs)" "t = fst (nm_jobss cs)" "nm_tasks r = nm_tasks s"
    by (auto simp: nm_log_def)
  moreover have "threw = t" "s' = nm_leave r"
    using assms r by simp_all
  ultimately show "nm_depth s' = 0" "nm_queue s' = []" "threw = fst (nm_jobss cs)"
    "nm_tasks s' = nm_tasks s @ (if snd (nm_jobss cs) = [] then [] else [snd (nm_jobss cs)])"
    by (simp_all add: nm_leave_def nm_flush_def Let_def)
qed

section \<open>Bounded lists\<close>

text \<open>\<open>S\<close> and \<open>C\<close> of module 52020: a page at the end or the start, dropping one at the other side.\<close>

definition add_to_end :: "'a list \<Rightarrow> 'a \<Rightarrow> nat \<Rightarrow> 'a list" where
  "add_to_end xs x n = (let i = xs @ [x] in if n \<noteq> 0 \<and> n < length i then drop 1 i else i)"

definition add_to_start :: "'a list \<Rightarrow> 'a \<Rightarrow> nat \<Rightarrow> 'a list" where
  "add_to_start xs x n = (let i = x # xs in if n \<noteq> 0 \<and> n < length i then butlast i else i)"

lemma add_bounded:
  assumes "n = 0 \<or> length xs \<le> n"
  shows "length (add_to_end xs x n) = (if n = 0 then Suc (length xs) else min (Suc (length xs)) n)"
    and "length (add_to_start xs x n) = (if n = 0 then Suc (length xs) else min (Suc (length xs)) n)"
  using assms by (auto simp: add_to_end_def add_to_start_def Let_def min_def)

section \<open>The state of a mutation\<close>

datatype mutation_status = Idle | Pending | Success | Error

record ('c, 'd, 'e, 'v) mutation_state =
  mu_context :: "'c option"
  mu_data :: "'d option"
  mu_error :: "'e option"
  mu_failures :: nat
  mu_reason :: "'e option"
  mu_paused :: bool
  mu_status :: mutation_status
  mu_variables :: "'v option"
  mu_submitted :: nat

definition mutation_state_new :: "('c, 'd, 'e, 'v) mutation_state" where
  "mutation_state_new = \<lparr>mu_context = None, mu_data = None, mu_error = None, mu_failures = 0, mu_reason = None,
     mu_paused = False, mu_status = Idle, mu_variables = None, mu_submitted = 0\<rparr>"

datatype ('c, 'd, 'e, 'v) mutation_action =
    AFailed nat 'e | APause | AContinue | APending "'c option" 'v bool nat | ASuccess 'd | AError 'e

text \<open>The reducer in \<open>#o\<close>; the time comes with the action.\<close>

fun mutation_reduce :: "('c, 'd, 'e, 'v) mutation_action \<Rightarrow> ('c, 'd, 'e, 'v) mutation_state \<Rightarrow> ('c, 'd, 'e, 'v) mutation_state" where
  "mutation_reduce (AFailed n err) s = s\<lparr>mu_failures := n, mu_reason := Some err\<rparr>"
| "mutation_reduce APause s = s\<lparr>mu_paused := True\<rparr>"
| "mutation_reduce AContinue s = s\<lparr>mu_paused := False\<rparr>"
| "mutation_reduce (APending ctx vars paused now) s =
     s\<lparr>mu_context := ctx, mu_data := None, mu_failures := 0, mu_reason := None, mu_error := None, mu_paused := paused,
       mu_status := Pending, mu_variables := Some vars, mu_submitted := now\<rparr>"
| "mutation_reduce (ASuccess d) s =
     s\<lparr>mu_data := Some d, mu_failures := 0, mu_reason := None, mu_error := None, mu_status := Success, mu_paused := False\<rparr>"
| "mutation_reduce (AError err) s =
     s\<lparr>mu_data := None, mu_error := Some err, mu_failures := Suc (mu_failures s), mu_reason := Some err,
       mu_paused := False, mu_status := Error\<rparr>"

text \<open>
  What \<open>execute\<close> dispatches: the start, what the retryer reports, and the end. A mutation
  restored as pending goes on without the start.
\<close>

inductive mutation_run :: "('c, 'd, 'e, 'v) mutation_state \<Rightarrow> bool \<Rightarrow> bool" where
  mu_new: "mutation_run mutation_state_new False"
| mu_execute: "mutation_run s False \<Longrightarrow> mu_status s \<noteq> Pending \<Longrightarrow>
     mutation_run (mutation_reduce (APending ctx vars paused now) s) True"
| mu_context: "mutation_run s True \<Longrightarrow> mutation_run (mutation_reduce (APending ctx vars paused now) s) True"
| mu_failed: "mutation_run s True \<Longrightarrow> mutation_run (mutation_reduce (AFailed n err) s) True"
| mu_pause: "mutation_run s True \<Longrightarrow> mutation_run (mutation_reduce APause s) True"
| mu_continue: "mutation_run s True \<Longrightarrow> mutation_run (mutation_reduce AContinue s) True"
| mu_success: "mutation_run s True \<Longrightarrow> mutation_run (mutation_reduce (ASuccess d) s) False"
| mu_error: "mutation_run s True \<Longrightarrow> mutation_run (mutation_reduce (AError err) s) False"

lemma mutation_run_state:
  assumes "mutation_run s running"
  shows "running = (mu_status s = Pending) \<and> (mu_paused s \<longrightarrow> mu_status s = Pending) \<and>
    (mu_data s \<noteq> None) = (mu_status s = Success) \<and> (mu_error s \<noteq> None) = (mu_status s = Error) \<and>
    (mu_status s = Error \<longrightarrow> mu_reason s = mu_error s \<and> 0 < mu_failures s) \<and>
    (mu_status s \<in> {Idle, Success} \<longrightarrow> mu_reason s = None \<and> mu_failures s = 0)"
  using assms by (induction rule: mutation_run.induct) (simp_all add: mutation_state_new_def)

end
