(* ===== verification/QueryClient.thy ===== *)
theory QueryClient
  imports Retryer "HOL-Library.AList"
begin

text \<open>
  The caches of the saved documentation pages, \<open>html/DeepWiki_files/layout-069cb77866786652.js\<close>
  (one line, module 54276): the cache of queries (class \<open>d\<close>), the cache of mutations with its
  scopes (class \<open>f\<close>), the pages of an infinite query (\<open>b\<close>, \<open>v\<close>) and the client that subscribes
  to the browser while it is mounted (class \<open>_\<close>). Queries and mutations are objects: the
  caches hold their identities.
\<close>

section \<open>The cache of mutations\<close>

text \<open>What the cache reads of a mutation: \<open>options.scope?.id\<close> (function \<open>y\<close>) and its state.\<close>

record mutation =
  mo_scope :: "string option"
  mo_status :: mutation_status
  mo_paused :: bool

text \<open>The set \<open>#t\<close> in its order of insertion, the map \<open>#s\<close>, the counter \<open>#i\<close>, and the objects.\<close>

record MutationCache =
  mc_all :: "nat list"
  mc_scopes :: "string \<rightharpoonup> nat list"
  mc_next :: nat
  mc_objs :: "nat \<Rightarrow> mutation"

definition MutationCache_new :: MutationCache where
  "MutationCache_new = \<lparr>mc_all = [], mc_scopes = (\<lambda>_. None), mc_next = 0,
     mc_objs = (\<lambda>_. \<lparr>mo_scope = None, mo_status = Idle, mo_paused = False\<rparr>)\<rparr>"

definition mc_scope :: "MutationCache \<Rightarrow> nat \<Rightarrow> string option" where
  "mc_scope c m = mo_scope (mc_objs c m)"

definition mc_add :: "nat \<Rightarrow> MutationCache \<Rightarrow> MutationCache" where
  "mc_add m c =
     (let c = c\<lparr>mc_all := (if m \<in> set (mc_all c) then mc_all c else mc_all c @ [m])\<rparr>
      in case mc_scope c m of
           None \<Rightarrow> c
         | Some t \<Rightarrow> c\<lparr>mc_scopes := (mc_scopes c)(t \<mapsto> (case mc_scopes c t of None \<Rightarrow> [m] | Some s \<Rightarrow> s @ [m]))\<rparr>)"

definition mc_build :: "mutation \<Rightarrow> MutationCache \<Rightarrow> nat \<times> MutationCache" where
  "mc_build obj c =
     (let i = Suc (mc_next c) in (i, mc_add i (c\<lparr>mc_next := i, mc_objs := (mc_objs c)(i := obj)\<rparr>)))"

definition mc_remove :: "nat \<Rightarrow> MutationCache \<Rightarrow> MutationCache" where
  "mc_remove m c =
     (if m \<notin> set (mc_all c) then c
      else let c = c\<lparr>mc_all := remove1 m (mc_all c)\<rparr>
        in case mc_scope c m of
             None \<Rightarrow> c
           | Some t \<Rightarrow> (case mc_scopes c t of
               None \<Rightarrow> c
             | Some s \<Rightarrow>
                 if 1 < length s then c\<lparr>mc_scopes := (mc_scopes c)(t \<mapsto> remove1 m s)\<rparr>
                 else if s \<noteq> [] \<and> s ! 0 = m then c\<lparr>mc_scopes := (mc_scopes c)(t := None)\<rparr>
                 else c))"

definition mc_clear :: "MutationCache \<Rightarrow> MutationCache" where
  "mc_clear c = c\<lparr>mc_all := [], mc_scopes := (\<lambda>_. None)\<rparr>"

definition canRun :: "nat \<Rightarrow> MutationCache \<Rightarrow> bool" where
  "canRun m c = (case mc_scope c m of
       None \<Rightarrow> True
     | Some t \<Rightarrow> (case mc_scopes c t of
         None \<Rightarrow> True
       | Some s \<Rightarrow> (case find (\<lambda>i. mo_status (mc_objs c i) = Pending) s of None \<Rightarrow> True | Some i \<Rightarrow> i = m)))"

text \<open>The mutation \<open>runNext\<close> continues.\<close>

definition runNext :: "nat \<Rightarrow> MutationCache \<Rightarrow> nat option" where
  "runNext m c = (case mc_scope c m of
       None \<Rightarrow> None
     | Some t \<Rightarrow> (case mc_scopes c t of
         None \<Rightarrow> None
       | Some s \<Rightarrow> find (\<lambda>i. i \<noteq> m \<and> mo_paused (mc_objs c i)) s))"

text \<open>
  A mutation's own dispatch changes its state, never its scope; \<open>setOptions\<close>, which could give
  it another scope while the cache lists it under the old one, is not an event here.
\<close>

datatype cache_event = Build mutation | Remove nat | Clear | Dispatch nat mutation_status bool

fun mc_step :: "cache_event \<Rightarrow> MutationCache \<Rightarrow> MutationCache" where
  "mc_step (Build obj) c = snd (mc_build obj c)"
| "mc_step (Remove m) c = mc_remove m c"
| "mc_step Clear c = mc_clear c"
| "mc_step (Dispatch m st paused) c =
     c\<lparr>mc_objs := (mc_objs c)(m := (mc_objs c m)\<lparr>mo_status := st, mo_paused := paused\<rparr>)\<rparr>"

text \<open>
  The map of scopes is a view of the set: every scope lists its mutations in the order they
  were added, and no scope is kept empty.
\<close>

definition scope_list :: "(nat \<Rightarrow> string option) \<Rightarrow> nat list \<Rightarrow> string \<Rightarrow> nat list option" where
  "scope_list f ms t = (let l = filter (\<lambda>i. f i = Some t) ms in if l = [] then None else Some l)"

definition mc_inv :: "MutationCache \<Rightarrow> bool" where
  "mc_inv c \<longleftrightarrow> distinct (mc_all c) \<and> list_all (\<lambda>i. i \<le> mc_next c) (mc_all c) \<and>
     mc_scopes c = scope_list (mc_scope c) (mc_all c)"

lemma mc_new_inv: "mc_inv MutationCache_new"
  by (simp add: mc_inv_def MutationCache_new_def scope_list_def fun_eq_iff)

lemma scope_list_cong: "(\<And>i. i \<in> set ms \<Longrightarrow> f i = g i) \<Longrightarrow> scope_list f ms = scope_list g ms"
  by (auto simp: scope_list_def fun_eq_iff Let_def cong: filter_cong)

lemma scope_list_append:
  "scope_list f (ms @ [m]) =
     (case f m of None \<Rightarrow> scope_list f ms
      | Some t \<Rightarrow> (scope_list f ms)(t \<mapsto> (case scope_list f ms t of None \<Rightarrow> [m] | Some s \<Rightarrow> s @ [m])))"
  by (auto simp: scope_list_def fun_eq_iff Let_def split: option.split)

lemma scope_list_remove:
  assumes "distinct ms" "m \<in> set ms"
  shows "scope_list f (remove1 m ms) =
     (case f m of None \<Rightarrow> scope_list f ms
      | Some t \<Rightarrow> (case scope_list f ms t of None \<Rightarrow> scope_list f ms
         | Some s \<Rightarrow> if 1 < length s then (scope_list f ms)(t \<mapsto> remove1 m s) else (scope_list f ms)(t := None)))"
    (is "_ = ?r")
proof
  fix u
  have r: "filter (\<lambda>i. f i = Some u) (remove1 m ms) = remove1 m (filter (\<lambda>i. f i = Some u) ms)"
    by (simp add: filter_remove1)
  show "scope_list f (remove1 m ms) u = ?r u"
  proof (cases "f m = Some u")
    case False
    then have "m \<notin> set (filter (\<lambda>i. f i = Some u) ms)" by simp
    with r have "scope_list f (remove1 m ms) u = scope_list f ms u"
      by (simp add: scope_list_def remove1_idem)
    with False show ?thesis by (auto split: option.split)
  next
    case True
    define s where "s = filter (\<lambda>i. f i = Some u) ms"
    have m: "m \<in> set s" using True assms(2) by (simp add: s_def)
    then have "length (remove1 m s) = length s - 1" "s \<noteq> []" by (auto simp: length_remove1)
    moreover from this have "remove1 m s = [] \<longleftrightarrow> \<not> 1 < length s" by (cases "remove1 m s") auto
    ultimately show ?thesis using True r by (auto simp: scope_list_def Let_def s_def [symmetric])
  qed
qed

lemma mc_build_inv:
  assumes "mc_inv c"
  shows "mc_inv (snd (mc_build obj c))"
proof -
  let ?i = "Suc (mc_next c)"
  have new: "?i \<notin> set (mc_all c)" using assms by (auto simp: mc_inv_def list_all_iff)
  define f where "f = (\<lambda>m. mo_scope (((mc_objs c)(?i := obj)) m))"
  have "scope_list f (mc_all c) = mc_scopes c"
    using assms new by (auto simp: mc_inv_def f_def mc_scope_def intro!: scope_list_cong)
  note a = scope_list_append [of f "mc_all c" ?i, unfolded this]
  have b: "mc_all (snd (mc_build obj c)) = mc_all c @ [?i]" "mc_scope (snd (mc_build obj c)) = f"
    "mc_next (snd (mc_build obj c)) = ?i"
    using new by (simp_all add: mc_build_def mc_add_def mc_scope_def Let_def f_def fun_eq_iff split: option.split)
  have "mc_scopes (snd (mc_build obj c)) = scope_list f (mc_all c @ [?i])"
    using new unfolding a by (simp add: mc_build_def mc_add_def mc_scope_def Let_def f_def split: option.split)
  with assms new b show ?thesis by (auto simp: mc_inv_def list_all_iff)
qed

lemma mc_remove_inv:
  assumes "mc_inv c"
  shows "mc_inv (mc_remove m c)"
proof (cases "m \<in> set (mc_all c)")
  case True
  let ?s = "scope_list (mc_scope c) (mc_all c)"
  have d: "distinct (mc_all c)" "mc_scopes c = ?s" "list_all (\<lambda>i. i \<le> mc_next c) (mc_all c)"
    using assms by (auto simp: mc_inv_def)
  have b: "mc_all (mc_remove m c) = remove1 m (mc_all c)" "mc_scope (mc_remove m c) = mc_scope c"
    "mc_next (mc_remove m c) = mc_next c"
    using True by (simp_all add: mc_remove_def mc_scope_def Let_def fun_eq_iff split: option.split)
  have one: "s = [m]" if "mc_scope c m = Some t" "?s t = Some s" "\<not> 1 < length s" for t s
  proof -
    have "s = filter (\<lambda>i. mc_scope c i = Some t) (mc_all c)"
      using that(2) by (simp add: scope_list_def Let_def split: if_splits)
    then have "m \<in> set s" using that(1) True by simp
    with that(3) show ?thesis by (cases s) auto
  qed
  have "mc_scopes (mc_remove m c) = scope_list (mc_scope c) (remove1 m (mc_all c))"
    unfolding scope_list_remove [OF d(1) True]
  proof (cases "mc_scope c m")
    case None
    with True d(2) show "mc_scopes (mc_remove m c) = (case mc_scope c m of None \<Rightarrow> ?s | Some t \<Rightarrow> (case ?s t of
        None \<Rightarrow> ?s | Some s \<Rightarrow> if 1 < length s then ?s(t \<mapsto> remove1 m s) else ?s(t := None)))"
      by (simp add: mc_remove_def mc_scope_def)
  next
    case (Some t)
    show "mc_scopes (mc_remove m c) = (case mc_scope c m of None \<Rightarrow> ?s | Some t \<Rightarrow> (case ?s t of
        None \<Rightarrow> ?s | Some s \<Rightarrow> if 1 < length s then ?s(t \<mapsto> remove1 m s) else ?s(t := None)))"
    proof (cases "?s t")
      case None
      with Some True d(2) show ?thesis by (simp add: mc_remove_def mc_scope_def)
    next
      case (Some l)
      have f: "mo_scope (mc_objs c m) = Some t" using \<open>mc_scope c m = Some t\<close> by (simp add: mc_scope_def)
      show ?thesis
        using one [OF \<open>mc_scope c m = Some t\<close> Some] Some True d(2) f
        by (cases "1 < length l") (simp_all add: mc_remove_def mc_scope_def Let_def)
    qed
  qed
  with b d show ?thesis by (auto simp: mc_inv_def list_all_iff dest: notin_set_remove1)
qed (simp add: mc_remove_def assms)

lemma mc_step_inv: "mc_inv c \<Longrightarrow> mc_inv (mc_step ev c)"
proof (cases ev)
  case Clear
  then show "mc_inv c \<Longrightarrow> mc_inv (mc_step ev c)"
    by (simp add: mc_clear_def mc_inv_def scope_list_def fun_eq_iff)
next
  case (Dispatch m st paused)
  have "mc_scope (c\<lparr>mc_objs := (mc_objs c)(m := mc_objs c m\<lparr>mo_status := st, mo_paused := paused\<rparr>)\<rparr>) = mc_scope c"
    by (auto simp: mc_scope_def fun_eq_iff)
  with Dispatch show "mc_inv c \<Longrightarrow> mc_inv (mc_step ev c)" by (simp add: mc_inv_def)
qed (simp_all add: mc_build_inv mc_remove_inv)

definition mc_run :: "cache_event list \<Rightarrow> MutationCache" where
  "mc_run es = fold mc_step es MutationCache_new"

lemma mc_run_inv: "mc_inv (mc_run es)"
proof -
  have "mc_inv (fold mc_step es c)" if "mc_inv c" for c
    using that by (induction es arbitrary: c) (simp_all add: mc_step_inv)
  then show ?thesis by (simp add: mc_run_def mc_new_inv)
qed

text \<open>Mutations of one scope run one after the other.\<close>

lemma canRun_first:
  assumes "mc_inv c"
  shows "\<forall>t m. m \<in> set (mc_all c) \<longrightarrow> mc_scope c m = Some t \<longrightarrow> mo_status (mc_objs c m) = Pending \<longrightarrow>
     canRun m c = (find (\<lambda>i. mo_status (mc_objs c i) = Pending) (filter (\<lambda>i. mc_scope c i = Some t) (mc_all c)) = Some m)"
proof (intro allI impI)
  fix t m
  assume m: "m \<in> set (mc_all c)" "mc_scope c m = Some t" "mo_status (mc_objs c m) = Pending"
  let ?s = "filter (\<lambda>i. mc_scope c i = Some t) (mc_all c)"
  have in_s: "m \<in> set ?s" using m by simp
  then have "?s \<noteq> []" by (metis empty_iff empty_set)
  then have s: "mc_scopes c t = Some ?s"
    using assms by (simp add: mc_inv_def scope_list_def Let_def)
  obtain i where "find (\<lambda>i. mo_status (mc_objs c i) = Pending) ?s = Some i"
    using in_s m(3) by (cases "find (\<lambda>i. mo_status (mc_objs c i) = Pending) ?s") (auto simp: find_None_iff)
  with s m(2) show "canRun m c = (find (\<lambda>i. mo_status (mc_objs c i) = Pending) ?s = Some m)"
    by (simp add: canRun_def)
qed

lemma canRun_exclusive:
  assumes "mc_inv c"
  shows "\<forall>t m n. m \<in> set (mc_all c) \<longrightarrow> n \<in> set (mc_all c) \<longrightarrow> mc_scope c m = Some t \<longrightarrow> mc_scope c n = Some t \<longrightarrow>
     mo_status (mc_objs c m) = Pending \<longrightarrow> mo_status (mc_objs c n) = Pending \<longrightarrow> canRun m c \<longrightarrow> canRun n c \<longrightarrow> m = n"
proof (intro allI impI)
  fix t m n
  assume m: "m \<in> set (mc_all c)" "n \<in> set (mc_all c)" "mc_scope c m = Some t" "mc_scope c n = Some t"
    "mo_status (mc_objs c m) = Pending" "mo_status (mc_objs c n) = Pending" "canRun m c" "canRun n c"
  note first = canRun_first [OF assms, rule_format]
  from first [OF m(1,3,5)] first [OF m(2,4,6)] m(7,8) show "m = n" by simp
qed

section \<open>The cache of queries\<close>

text \<open>The map \<open>#e\<close> from hashes to queries, the hashes the objects carry, and the destroyed ones.\<close>

record QueryCache =
  qc_map :: "(string \<times> nat) list"
  qc_hash :: "nat \<Rightarrow> string"
  qc_next :: nat
  qc_destroyed :: "nat list"

definition QueryCache_new :: QueryCache where
  "QueryCache_new = \<lparr>qc_map = [], qc_hash = (\<lambda>_. []), qc_next = 0, qc_destroyed = []\<rparr>"

definition qc_get :: "string \<Rightarrow> QueryCache \<Rightarrow> nat option" where
  "qc_get h c = map_of (qc_map c) h"

definition qc_add :: "nat \<Rightarrow> QueryCache \<Rightarrow> QueryCache" where
  "qc_add q c = (if qc_get (qc_hash c q) c = None then c\<lparr>qc_map := qc_map c @ [(qc_hash c q, q)]\<rparr> else c)"

definition qc_build :: "string \<Rightarrow> QueryCache \<Rightarrow> nat \<times> QueryCache" where
  "qc_build h c = (case qc_get h c of
       Some q \<Rightarrow> (q, c)
     | None \<Rightarrow> (let q = qc_next c
               in (q, qc_add q (c\<lparr>qc_next := Suc q, qc_hash := (qc_hash c)(q := h)\<rparr>))))"

definition qc_remove :: "nat \<Rightarrow> QueryCache \<Rightarrow> QueryCache" where
  "qc_remove q c = (case qc_get (qc_hash c q) c of
       None \<Rightarrow> c
     | Some t \<Rightarrow>
         let c = c\<lparr>qc_destroyed := qc_destroyed c @ [q]\<rparr>
         in if t = q then c\<lparr>qc_map := AList.delete (qc_hash c q) (qc_map c)\<rparr> else c)"

definition qc_inv :: "QueryCache \<Rightarrow> bool" where
  "qc_inv c \<longleftrightarrow> distinct (map fst (qc_map c)) \<and>
     list_all (\<lambda>(h, q). qc_hash c q = h \<and> q < qc_next c) (qc_map c)"

lemma qc_build_inv: "qc_inv c \<Longrightarrow> qc_inv (snd (qc_build h c))"
  by (auto simp: qc_inv_def qc_build_def qc_add_def qc_get_def Let_def list_all_iff map_of_eq_None_iff
      split: option.split)

lemma qc_remove_fields [simp]:
  "qc_hash (qc_remove q c) = qc_hash c" "qc_next (qc_remove q c) = qc_next c"
  "qc_map (qc_remove q c) = (if qc_get (qc_hash c q) c = Some q then AList.delete (qc_hash c q) (qc_map c) else qc_map c)"
  by (simp_all add: qc_remove_def Let_def split: option.split)

lemma qc_remove_inv:
  assumes "qc_inv c"
  shows "qc_inv (qc_remove q c)"
proof -
  have "set (AList.delete (qc_hash c q) (qc_map c)) \<subseteq> set (qc_map c)"
    by (auto simp: AList.delete_eq)
  with assms show ?thesis
    by (auto simp: qc_inv_def list_all_iff distinct_delete)
qed

lemma qc_build_get:
  assumes "qc_inv c"
  shows "qc_get h (snd (qc_build h c)) = Some (fst (qc_build h c)) \<and>
    qc_build h (snd (qc_build h c)) = qc_build h c \<and>
    (h' \<noteq> h \<longrightarrow> qc_get h' (snd (qc_build h c)) = qc_get h' c)"
proof (cases "qc_get h c")
  case None
  then have g: "qc_get h (snd (qc_build h c)) = Some (fst (qc_build h c))"
    by (simp add: qc_build_def qc_add_def qc_get_def Let_def map_add_def)
  then have "qc_build h (snd (qc_build h c)) = qc_build h c"
    by (simp add: qc_build_def [of h "snd (qc_build h c)"])
  moreover have "h' \<noteq> h \<longrightarrow> qc_get h' (snd (qc_build h c)) = qc_get h' c"
    using None by (simp add: qc_build_def qc_add_def qc_get_def Let_def map_add_def split: option.split)
  ultimately show ?thesis using g by blast
qed (simp add: qc_build_def)

lemma qc_get_hash:
  assumes "qc_inv c" and "qc_get h c = Some q"
  shows "h = qc_hash c q"
proof -
  have "(h, q) \<in> set (qc_map c)" using assms(2) by (simp add: qc_get_def map_of_SomeD)
  then have "case (h, q) of (h, q) \<Rightarrow> qc_hash c q = h \<and> q < qc_next c"
    using assms(1) unfolding qc_inv_def list_all_iff by blast
  then show ?thesis by simp
qed

lemma qc_get_remove:
  "qc_get h (qc_remove q c) =
     (if qc_get (qc_hash c q) c = Some q \<and> h = qc_hash c q then None else qc_get h c)"
  by (simp add: qc_get_def [of _ "qc_remove q c"] AList.delete_conv') (simp add: qc_get_def)

lemma qc_remove_get:
  assumes "qc_inv c"
  shows "qc_get h (qc_remove q c) = (if qc_get h c = Some q then None else qc_get h c)"
  unfolding qc_get_remove using qc_get_hash [OF assms, of h q] by (cases "qc_get h c = Some q") auto

section \<open>The client\<close>

text \<open>\<open>#l\<close>, whether the unsubscribing functions \<open>#c\<close>, \<open>#h\<close> are set, and the live subscriptions.\<close>

record client =
  cl_mounts :: int
  cl_handle :: bool
  cl_subs :: nat

definition client_new :: client where
  "client_new = \<lparr>cl_mounts = 0, cl_handle = False, cl_subs = 0\<rparr>"

definition cl_mount :: "client \<Rightarrow> client" where
  "cl_mount c = (let c = c\<lparr>cl_mounts := cl_mounts c + 1\<rparr>
     in if cl_mounts c = 1 then c\<lparr>cl_handle := True, cl_subs := Suc (cl_subs c)\<rparr> else c)"

definition cl_unmount :: "client \<Rightarrow> client" where
  "cl_unmount c = (let c = c\<lparr>cl_mounts := cl_mounts c - 1\<rparr>
     in if cl_mounts c = 0
        then (if cl_handle c then c\<lparr>cl_handle := False, cl_subs := cl_subs c - 1\<rparr> else c) else c)"

definition cl_inv :: "client \<Rightarrow> bool" where
  "cl_inv c \<longleftrightarrow> 0 \<le> cl_mounts c \<and> cl_handle c = (0 < cl_mounts c) \<and> cl_subs c = (if 0 < cl_mounts c then 1 else 0)"

lemma client_inv:
  "cl_inv client_new"
  "cl_inv c \<Longrightarrow> cl_inv (cl_mount c)"
  "cl_inv c \<Longrightarrow> 0 < cl_mounts c \<Longrightarrow> cl_inv (cl_unmount c)"
  by (simp_all add: cl_inv_def client_new_def cl_mount_def cl_unmount_def Let_def)

section \<open>Pages of an infinite query\<close>

record ('p, 'a) pages =
  pages :: "'a list"
  page_params :: "'p option list"

text \<open>
  The options the fetch reads, with the request for a page: \<open>None\<close> is a rejected promise.
  \<open>aborted l\<close> tells whether the signal was aborted before request \<open>l\<close>.
\<close>

record ('p, 'a) infinite_options =
  io_next :: "'a \<Rightarrow> 'a list \<Rightarrow> 'p option \<Rightarrow> 'p option list \<Rightarrow> 'p option"
  io_previous :: "('a \<Rightarrow> 'a list \<Rightarrow> 'p option \<Rightarrow> 'p option list \<Rightarrow> 'p option) option"
  io_initial :: "'p option"
  io_max :: nat
  io_fetch :: "nat \<Rightarrow> 'p option \<Rightarrow> 'a option"
  io_aborted :: "nat \<Rightarrow> bool"

definition next_param :: "('p, 'a) infinite_options \<Rightarrow> ('p, 'a) pages \<Rightarrow> 'p option" where
  "next_param ops u =
     (if pages u \<noteq> [] then io_next ops (last (pages u)) (pages u) (page_params u ! (length (pages u) - 1)) (page_params u)
      else None)"

definition previous_param :: "('p, 'a) infinite_options \<Rightarrow> ('p, 'a) pages \<Rightarrow> 'p option" where
  "previous_param ops u =
     (if pages u \<noteq> []
      then (case io_previous ops of None \<Rightarrow> None | Some f \<Rightarrow> f (pages u ! 0) (pages u) (page_params u ! 0) (page_params u))
      else None)"

definition fetch_page :: "('p, 'a) infinite_options \<Rightarrow> nat \<Rightarrow> bool \<Rightarrow> ('p, 'a) pages \<Rightarrow> 'p option \<Rightarrow> ('p, 'a) pages option" where
  "fetch_page ops l backward u param =
     (if io_aborted ops l then None
      else if param = None \<and> pages u \<noteq> [] then Some u
      else case io_fetch ops l param of
          None \<Rightarrow> None
        | Some a \<Rightarrow>
            Some (if backward
              then \<lparr>pages = add_to_start (pages u) a (io_max ops), page_params = add_to_start (page_params u) param (io_max ops)\<rparr>
              else \<lparr>pages = add_to_end (pages u) a (io_max ops), page_params = add_to_end (page_params u) param (io_max ops)\<rparr>))"

text \<open>The \<open>do ... while\<close> loop with its rounds left; \<open>old\<close> holds the parameters fetched before.\<close>

fun refetch :: "('p, 'a) infinite_options \<Rightarrow> 'p option list \<Rightarrow> nat \<Rightarrow> nat \<Rightarrow> ('p, 'a) pages \<Rightarrow> ('p, 'a) pages option" where
  "refetch ops old 0 l u = Some u"
| "refetch ops old (Suc k) l u =
     (let param = (if l = 0 then (case old of p # _ \<Rightarrow> (if p = None then io_initial ops else p) | [] \<Rightarrow> io_initial ops)
                   else next_param ops u)
      in if 0 < l \<and> param = None then Some u
         else case fetch_page ops l False u param of None \<Rightarrow> None | Some u \<Rightarrow> refetch ops old k (Suc l) u)"

datatype direction = Forward | Backward

definition fetch_pages :: "('p, 'a) infinite_options \<Rightarrow> nat option \<Rightarrow> direction option \<Rightarrow> ('p, 'a) pages \<Rightarrow> ('p, 'a) pages option" where
  "fetch_pages ops count dir s =
     (case dir of
        Some r \<Rightarrow>
          if pages s \<noteq> []
          then fetch_page ops 0 (r = Backward) s (if r = Backward then previous_param ops s else next_param ops s)
          else refetch ops (page_params s) (max 1 (case count of None \<Rightarrow> length (pages s) | Some t \<Rightarrow> t)) 0 \<lparr>pages = [], page_params = []\<rparr>
      | None \<Rightarrow> refetch ops (page_params s) (max 1 (case count of None \<Rightarrow> length (pages s) | Some t \<Rightarrow> t)) 0 \<lparr>pages = [], page_params = []\<rparr>)"

text \<open>Every page has its parameter, and no more pages are kept than the limit.\<close>

definition pages_inv :: "('p, 'a) infinite_options \<Rightarrow> ('p, 'a) pages \<Rightarrow> bool" where
  "pages_inv ops u \<longleftrightarrow> length (page_params u) = length (pages u) \<and> (io_max ops = 0 \<or> length (pages u) \<le> io_max ops)"

lemma fetch_page_inv:
  assumes "pages_inv ops u" and "fetch_page ops l backward u param = Some v"
  shows "pages_inv ops v"
proof (cases "param = None \<and> pages u \<noteq> []")
  case True
  with assms show ?thesis by (simp add: fetch_page_def split: if_splits)
next
  case False
  with assms(2) obtain a where v: "v = (if backward
      then \<lparr>pages = add_to_start (pages u) a (io_max ops), page_params = add_to_start (page_params u) param (io_max ops)\<rparr>
      else \<lparr>pages = add_to_end (pages u) a (io_max ops), page_params = add_to_end (page_params u) param (io_max ops)\<rparr>)"
    by (auto simp: fetch_page_def split: if_splits option.splits)
  from assms(1) show ?thesis
    unfolding v by (cases backward) (simp_all add: pages_inv_def add_bounded)
qed

lemma refetch_inv: "pages_inv ops u \<Longrightarrow> refetch ops old k l u = Some v \<Longrightarrow> pages_inv ops v"
proof (induction ops old k l u rule: refetch.induct)
  case (2 ops old k l u)
  then show ?case
    by (auto simp: Let_def fetch_page_inv split: if_splits option.splits list.splits)
qed simp

lemma fetch_pages_inv:
  assumes "pages_inv ops s" and "fetch_pages ops count dir s = Some v"
  shows "pages_inv ops v"
proof -
  have "pages_inv ops \<lparr>pages = [], page_params = []\<rparr>" by (simp add: pages_inv_def)
  with assms show ?thesis
    by (auto simp: fetch_pages_def intro: fetch_page_inv refetch_inv split: option.splits if_splits)
qed

end
