(* ===== verification/Marked.thy ===== *)
theory Marked
  imports Prelude "HOL-Library.Sublist"
begin

text \<open>
  The Markdown renderer of the saved documentation pages, in the bundle
  \<open>html/DeepWiki_files/5938-755c17b2f8b25b9d.js\<close>: the classes \<open>Renderer\<close> (\<open>el\<close>) and
  \<open>Parser\<close> (\<open>ed\<close>) and the helpers \<open>escape\<close> (\<open>et\<close>), \<open>cleanUrl\<close> (\<open>en\<close>), \<open>splitCells\<close> (\<open>ea\<close>) and
  \<open>rtrim\<close> (\<open>er\<close>). The bundle is minified: its template literals break it into eleven lines, and
  a definition below is one function on the line it stands on. A string is a list of
  characters, JavaScript's code units up to 255; a thrown error is \<open>None\<close>.
\<close>

abbreviation nl :: string where "nl \<equiv> [CHR 0x0A]"
abbreviation dq :: string where "dq \<equiv> [CHR 0x22]"

section \<open>Escaping\<close>

definition is_word :: "char \<Rightarrow> bool" where
  "is_word c \<longleftrightarrow> (let n = (of_char c :: nat) in 48 \<le> n \<and> n \<le> 57 \<or> 65 \<le> n \<and> n \<le> 90 \<or> 97 \<le> n \<and> n \<le> 122 \<or> n = 95)"

definition is_dec :: "char \<Rightarrow> bool" where
  "is_dec c \<longleftrightarrow> (let n = (of_char c :: nat) in 48 \<le> n \<and> n \<le> 57)"

definition is_hex :: "char \<Rightarrow> bool" where
  "is_hex c \<longleftrightarrow> is_dec c \<or> (let n = (of_char c :: nat) in 65 \<le> n \<and> n \<le> 70 \<or> 97 \<le> n \<and> n \<le> 102)"

text \<open>The table \<open>J\<close>.\<close>

definition escape_replacement :: "char \<Rightarrow> string" where
  "escape_replacement c =
     (if c = CHR ''&'' then ''&amp;'' else if c = CHR ''<'' then ''&lt;'' else if c = CHR ''>'' then ''&gt;''
      else if c = CHR 0x22 then ''&quot;'' else if c = CHR 0x27 then ''&#39;'' else [c])"

definition markup_char :: "char \<Rightarrow> bool" where
  "markup_char c \<longleftrightarrow> c = CHR ''<'' \<or> c = CHR ''>'' \<or> c = CHR 0x22 \<or> c = CHR 0x27"

text \<open>The lookahead \<open>(#\d{1,7}|#[Xx][a-fA-F0-9]{1,6}|\w+);\<close> behind an ampersand.\<close>

definition run_then_semicolon :: "(char \<Rightarrow> bool) \<Rightarrow> nat \<Rightarrow> string \<Rightarrow> bool" where
  "run_then_semicolon P n s \<longleftrightarrow>
     (let k = length (takeWhile P s) in 1 \<le> k \<and> k \<le> n \<and> k < length s \<and> s ! k = CHR '';'')"

definition entity_follows :: "string \<Rightarrow> bool" where
  "entity_follows s \<longleftrightarrow>
     (case s of [] \<Rightarrow> False
      | c # r \<Rightarrow> if c = CHR ''#''
                 then run_then_semicolon is_dec 7 r \<or>
                      (case r of [] \<Rightarrow> False | x # h \<Rightarrow> (x = CHR ''X'' \<or> x = CHR ''x'') \<and> run_then_semicolon is_hex 6 h)
                 else run_then_semicolon is_word (length s) s)"

fun escape_no_encode :: "string \<Rightarrow> string" where
  "escape_no_encode [] = []"
| "escape_no_encode (c # s) =
     (if markup_char c \<or> c = CHR ''&'' \<and> \<not> entity_follows s then escape_replacement c else [c]) @ escape_no_encode s"

definition marked_escape :: "string \<Rightarrow> bool \<Rightarrow> string" where
  "marked_escape e encode =
     (if encode
      then if list_ex (\<lambda>c. markup_char c \<or> c = CHR ''&'') e then concat (map escape_replacement e) else e
      else escape_no_encode e)"

text \<open>\<open>encodeURI\<close>: the characters it keeps, and the UTF-8 bytes of the others in hexadecimal.\<close>

definition uri_kept :: "char \<Rightarrow> bool" where
  "uri_kept c \<longleftrightarrow> is_word c \<or> c \<in> set '';,/?:@&=+$-.!~*()#'' \<or> c = CHR 0x27"

definition hex_digit :: "nat \<Rightarrow> char" where
  "hex_digit n = ''0123456789ABCDEF'' ! (n mod 16)"

definition percent :: "nat \<Rightarrow> string" where
  "percent b = [CHR ''%'', hex_digit (b div 16), hex_digit b]"

definition encode_char :: "char \<Rightarrow> string" where
  "encode_char c =
     (if uri_kept c then [c]
      else let n = (of_char c :: nat) in if n < 128 then percent n else percent (192 + n div 64) @ percent (128 + n mod 64))"

text \<open>\<open>replace(/%25/g,"%")\<close>; code units up to 255 hold no surrogate, so \<open>encodeURI\<close> does not throw.\<close>

fun percent_decode :: "string \<Rightarrow> string" where
  "percent_decode (a # b # c # s) =
     (if a = CHR ''%'' \<and> b = CHR ''2'' \<and> c = CHR ''5'' then CHR ''%'' # percent_decode s else a # percent_decode (b # c # s))"
| "percent_decode s = s"

definition cleanUrl :: "string \<Rightarrow> string" where
  "cleanUrl e = percent_decode (concat (map encode_char e))"

definition rtrim :: "string \<Rightarrow> char \<Rightarrow> string" where
  "rtrim e t = rev (dropWhile (\<lambda>c. c = t) (rev e))"

section \<open>Tokens\<close>

text \<open>
  What the lexer produces, with the fields the renderer reads. The type string selects the
  constructor; \<open>TOther\<close> is any other type. A list item is its task, checked and loose flags
  and its tokens; a table cell its tokens, header flag and alignment.
\<close>

datatype token =
    TSpace | THr | THeading "token list" nat | TCode string "string option" bool
  | TTable "(token list \<times> bool \<times> string option) list" "(token list \<times> bool \<times> string option) list list"
  | TBlockquote "token list" | TList bool nat "(bool \<times> bool \<times> bool \<times> token list) list"
  | THtml string | TParagraph "token list" | TText string "token list option" bool
  | TEscape string | TLink string "string option" "token list" | TImage string "string option" string
  | TStrong "token list" | TEm "token list" | TCodespan string | TBr | TDel "token list" | TOther string

type_synonym cell = "token list \<times> bool \<times> string option"
type_synonym item = "bool \<times> bool \<times> bool \<times> token list"

section \<open>The renderer's leaves\<close>

definition elem :: "string \<Rightarrow> string \<Rightarrow> string \<Rightarrow> string" where
  "elem tag attrs s = ''<'' @ tag @ attrs @ ''>'' @ s @ ''</'' @ tag @ ''>''"

definition attr :: "string \<Rightarrow> string \<Rightarrow> string" where
  "attr name v = '' '' @ name @ ''='' @ dq @ v @ dq"

text \<open>\<open>/^\S*/\<close>, and one trailing line break removed.\<close>

definition is_space :: "char \<Rightarrow> bool" where
  "is_space c \<longleftrightarrow> (of_char c :: nat) \<in> {9 .. 13} \<union> {32, 160}"

definition strip_final_newline :: "string \<Rightarrow> string" where
  "strip_final_newline s = (if s \<noteq> [] \<and> last s = CHR 0x0A then butlast s else s)"

definition render_code :: "string \<Rightarrow> string option \<Rightarrow> bool \<Rightarrow> string" where
  "render_code text lang escaped =
     (let a = takeWhile (\<lambda>c. \<not> is_space c) (case lang of None \<Rightarrow> [] | Some l \<Rightarrow> l);
          r = strip_final_newline text @ nl;
          body = (if escaped then r else marked_escape r True)
      in elem ''pre'' [] (elem ''code'' (if a \<noteq> [] then attr ''class'' (''language-'' @ marked_escape a False) else []) body) @ nl)"

definition render_blockquote :: "string \<Rightarrow> string" where
  "render_blockquote body = elem ''blockquote'' [] (nl @ body) @ nl"

definition render_heading :: "nat \<Rightarrow> string \<Rightarrow> string" where
  "render_heading depth s = elem (CHR ''h'' # decimal depth) [] s @ nl"

definition render_hr :: string where
  "render_hr = ''<hr>'' @ nl"

definition render_checkbox :: "bool \<Rightarrow> string" where
  "render_checkbox checked =
     ''<input '' @ (if checked then ''checked='' @ dq @ dq @ '' '' else []) @ ''disabled='' @ dq @ dq @ '' type='' @
     dq @ ''checkbox'' @ dq @ ''>''"

definition render_link :: "string \<Rightarrow> string option \<Rightarrow> string \<Rightarrow> string" where
  "render_link href title a =
     elem ''a'' (attr ''href'' (cleanUrl href) @
       (case title of Some t \<Rightarrow> (if t \<noteq> [] then attr ''title'' (marked_escape t False) else []) | None \<Rightarrow> [])) a"

text \<open>The alternative text of an image is not escaped.\<close>

definition render_image :: "string \<Rightarrow> string option \<Rightarrow> string \<Rightarrow> string" where
  "render_image href title text =
     ''<img src='' @ dq @ cleanUrl href @ dq @ '' alt='' @ dq @ text @ dq @
     (case title of Some t \<Rightarrow> (if t \<noteq> [] then attr ''title'' (marked_escape t False) else []) | None \<Rightarrow> []) @ ''>''"

definition render_cell :: "bool \<Rightarrow> string option \<Rightarrow> string \<Rightarrow> string" where
  "render_cell header align t =
     (let n = (if header then ''th'' else ''td'')
      in elem n (case align of Some a \<Rightarrow> (if a \<noteq> [] then attr ''align'' a else []) | None \<Rightarrow> []) t @ nl)"

definition render_row :: "string \<Rightarrow> string" where
  "render_row text = elem ''tr'' [] (nl @ text) @ nl"

definition render_table :: "string \<Rightarrow> string \<Rightarrow> string" where
  "render_table head body =
     elem ''table'' [] (nl @ elem ''thead'' [] (nl @ head) @ nl @ 
       (if body \<noteq> [] then elem ''tbody'' [] body else [])) @ nl"

definition render_list :: "bool \<Rightarrow> nat \<Rightarrow> string \<Rightarrow> string" where
  "render_list ordered start body =
     elem (if ordered then ''ol'' else ''ul'')
       (if ordered \<and> start \<noteq> 1 then attr ''start'' (decimal start) else []) (nl @ body) @ nl"


section \<open>The parser\<close>

text \<open>
  A loose task item: the checkbox goes into its first paragraph, before the text that starts
  it, or in front as a text token of its own. (The code changes the tokens themselves.)
\<close>

fun loosen :: "string \<Rightarrow> token list \<Rightarrow> token list" where
  "loosen n (TParagraph (TText t ks e # ts) # us) =
     TParagraph (TText (n @ '' '' @ marked_escape t False) ks True # ts) # us"
| "loosen n (TParagraph ts # us) = TParagraph ts # us"
| "loosen n us = TText (n @ '' '') None True # us"

lemma size_loosen: "size_list size (loosen n ts) \<le> size_list size ts + 3"
  by (induction n ts rule: loosen.induct) simp_all

text \<open>
  \<open>Parser.parse\<close> with its loop over adjacent text tokens, \<open>parseInline\<close>, and the renderer
  methods that call them back, with the default options (no extensions, not silent): a token
  type that has no case throws.
\<close>

definition prepend :: "string \<Rightarrow> string option \<Rightarrow> string option" where
  "prepend s r = map_option (\<lambda>t. s @ t) r"

definition paragraph_of :: "string \<Rightarrow> string" where
  "paragraph_of s = elem ''p'' [] s @ nl"

fun text_fields :: "token \<Rightarrow> (string \<times> token list option \<times> bool) option" where
  "text_fields (TText t ks e) = Some (t, ks, e)"
| "text_fields _ = None"

lemma text_fields_Some: "text_fields r = Some (t, ks, e) \<longleftrightarrow> r = TText t ks e"
  by (cases r) auto

function (sequential) marked_parse :: "bool \<Rightarrow> token list \<Rightarrow> string option"
  and parse_run :: "bool \<Rightarrow> string \<Rightarrow> token list \<Rightarrow> string option"
  and parseInline :: "token list \<Rightarrow> string option"
  and render_text :: "string \<Rightarrow> token list option \<Rightarrow> bool \<Rightarrow> string option"
  and render_items :: "item list \<Rightarrow> string option"
  and render_cells :: "cell list \<Rightarrow> string option"
  and render_rows :: "cell list list \<Rightarrow> string option" where
  "marked_parse par [] = Some []"
| "marked_parse par (TSpace # ts) = marked_parse par ts"
| "marked_parse par (THr # ts) = prepend render_hr (marked_parse par ts)"
| "marked_parse par (THeading ks d # ts) =
     Option.bind (parseInline ks) (\<lambda>s. prepend (render_heading d s) (marked_parse par ts))"
| "marked_parse par (TCode t l e # ts) = prepend (render_code t l e) (marked_parse par ts)"
| "marked_parse par (TTable h rs # ts) =
     Option.bind (render_cells h) (\<lambda>hd. Option.bind (render_rows rs) (\<lambda>body.
       prepend (render_table (render_row hd) body) (marked_parse par ts)))"
| "marked_parse par (TBlockquote ks # ts) =
     Option.bind (marked_parse True ks) (\<lambda>s. prepend (render_blockquote s) (marked_parse par ts))"
| "marked_parse par (TList ordered start is # ts) =
     Option.bind (render_items is) (\<lambda>s. prepend (render_list ordered start s) (marked_parse par ts))"
| "marked_parse par (THtml t # ts) = prepend t (marked_parse par ts)"
| "marked_parse par (TParagraph ks # ts) =
     Option.bind (parseInline ks) (\<lambda>s. prepend (paragraph_of s) (marked_parse par ts))"
| "marked_parse par (TText t ks e # ts) = Option.bind (render_text t ks e) (\<lambda>s. parse_run par s ts)"
| "marked_parse par (t # ts) = None"

| "parse_run par s [] = Some (if par then paragraph_of s else s)"
| "parse_run par s (r # ts) =
     (case text_fields r of
        Some (t, ks, e) \<Rightarrow> Option.bind (render_text t ks e) (\<lambda>u. parse_run par (s @ nl @ u) ts)
      | None \<Rightarrow> prepend (if par then paragraph_of s else s) (marked_parse par (r # ts)))"

| "parseInline [] = Some []"
| "parseInline (TEscape t # ts) = prepend (marked_escape t False) (parseInline ts)"
| "parseInline (TText t ks e # ts) = Option.bind (render_text t ks e) (\<lambda>s. prepend s (parseInline ts))"
| "parseInline (THtml t # ts) = prepend t (parseInline ts)"
| "parseInline (TLink h t ks # ts) =
     Option.bind (parseInline ks) (\<lambda>s. prepend (render_link h t s) (parseInline ts))"
| "parseInline (TImage h t a # ts) = prepend (render_image h t a) (parseInline ts)"
| "parseInline (TStrong ks # ts) = Option.bind (parseInline ks) (\<lambda>s. prepend (elem ''strong'' [] s) (parseInline ts))"
| "parseInline (TEm ks # ts) = Option.bind (parseInline ks) (\<lambda>s. prepend (elem ''em'' [] s) (parseInline ts))"
| "parseInline (TCodespan t # ts) = prepend (elem ''code'' [] (marked_escape t True)) (parseInline ts)"
| "parseInline (TBr # ts) = prepend ''<br>'' (parseInline ts)"
| "parseInline (TDel ks # ts) = Option.bind (parseInline ks) (\<lambda>s. prepend (elem ''del'' [] s) (parseInline ts))"
| "parseInline (t # ts) = None"

| "render_text t (Some ks) e = parseInline ks"
| "render_text t None e = Some (if e then t else marked_escape t False)"

| "render_items [] = Some []"
| "render_items ((task, checked, loose, ts) # is) =
     Option.bind (if task \<and> loose then marked_parse True (loosen (render_checkbox checked) ts)
                  else prepend (if task then render_checkbox checked @ '' '' else []) (marked_parse loose ts)) (\<lambda>s.
       prepend (elem ''li'' [] s @ nl) (render_items is))"

| "render_cells [] = Some []"
| "render_cells ((ks, header, align) # cs) =
     Option.bind (parseInline ks) (\<lambda>s. prepend (render_cell header align s) (render_cells cs))"

| "render_rows [] = Some []"
| "render_rows (r # rs) = Option.bind (render_cells r) (\<lambda>s. prepend (render_row s) (render_rows rs))"
  by pat_completeness auto
termination
  by (relation "measure (\<lambda>x. case x of
        Inl (Inl (_, ts)) \<Rightarrow> 2 * size_list size ts
      | Inl (Inr (Inl (_, _, ts))) \<Rightarrow> 2 * size_list size ts + 1
      | Inl (Inr (Inr ts)) \<Rightarrow> 2 * size_list size ts
      | Inr (Inl (Inl (_, ks, _))) \<Rightarrow> 2 * size_option (size_list size) ks
      | Inr (Inl (Inr is)) \<Rightarrow> 2 * size_list (size_prod (\<lambda>_. 0) (size_prod (\<lambda>_. 0) (size_prod (\<lambda>_. 0) (size_list size)))) is
      | Inr (Inr (Inl cs)) \<Rightarrow> 2 * size_list (size_prod (size_list size) (\<lambda>_. 0)) cs
      | Inr (Inr (Inr rs)) \<Rightarrow> 2 * size_list (size_list (size_prod (size_list size) (\<lambda>_. 0))) rs)")
    (auto simp: le_imp_less_Suc text_fields_Some intro: le_less_trans [OF mult_le_mono2 [OF size_loosen]])


section \<open>Safe output\<close>

text \<open>
  The HTML the renderer is meant to write: text without markup characters, known elements
  around such HTML, and void elements; attribute values without quotes or brackets.
\<close>

definition text_char :: "char \<Rightarrow> bool" where
  "text_char c \<longleftrightarrow> c \<noteq> CHR ''<'' \<and> c \<noteq> CHR ''>'' \<and> c \<noteq> CHR 0x22"

definition attr_names :: "string set" where
  "attr_names = {''class'', ''href'', ''title'', ''src'', ''alt'', ''align'', ''start'', ''checked'', ''disabled'', ''type''}"

definition element_names :: "string set" where
  "element_names = {''p'', ''pre'', ''code'', ''blockquote'', ''ol'', ''ul'', ''li'', ''table'', ''thead'', ''tbody'', ''tr'',
     ''th'', ''td'', ''strong'', ''em'', ''del'', ''a''} \<union> range (\<lambda>d. CHR ''h'' # decimal d)"

definition void_names :: "string set" where
  "void_names = {''hr'', ''br'', ''img'', ''input''}"

inductive attrs_ok :: "string \<Rightarrow> bool" where
  NoAttr [intro, simp]: "attrs_ok []"
| MoreAttr [intro]: "attrs_ok a \<Longrightarrow> n \<in> attr_names \<Longrightarrow> list_all text_char v \<Longrightarrow> attrs_ok (a @ attr n v)"

inductive html_ok :: "string \<Rightarrow> bool" where
  Text [intro]: "list_all text_char s \<Longrightarrow> html_ok s"
| Append [intro]: "html_ok s \<Longrightarrow> html_ok t \<Longrightarrow> html_ok (s @ t)"
| Elem [intro]: "n \<in> element_names \<Longrightarrow> attrs_ok a \<Longrightarrow> html_ok s \<Longrightarrow> html_ok (elem n a s)"
| Void [intro]: "n \<in> void_names \<Longrightarrow> attrs_ok a \<Longrightarrow> html_ok (''<'' @ n @ a @ ''>'')"

lemma html_ok_Nil [simp]: "html_ok []" and html_ok_nl [simp]: "html_ok nl"
  by (auto intro: Text simp: text_char_def)

lemma attr_ok [intro]: "n \<in> attr_names \<Longrightarrow> list_all text_char v \<Longrightarrow> attrs_ok (attr n v)"
  using MoreAttr [OF NoAttr, of n v] by simp

section \<open>Escapes are safe\<close>

lemma escape_replacement_safe: "markup_char c \<or> c = CHR ''&'' \<Longrightarrow> list_all text_char (escape_replacement c)"
  by (auto simp: escape_replacement_def markup_char_def text_char_def)

lemma unmarked_safe: "\<not> markup_char c \<Longrightarrow> text_char c"
  by (auto simp: markup_char_def text_char_def)

lemma escape_no_encode_safe: "list_all text_char (escape_no_encode s)"
  by (induction s) (auto simp: escape_replacement_safe unmarked_safe)

lemma list_all_concat_map: "(\<And>x. list_all P (f x)) \<Longrightarrow> list_all P (concat (map f xs))"
  by (induction xs) auto

lemma marked_escape_safe [simp]: "list_all text_char (marked_escape s e)"
proof -
  have "list_all text_char (escape_replacement c)" for c
    by (cases "markup_char c \<or> c = CHR ''&''")
      (auto simp: escape_replacement_safe escape_replacement_def markup_char_def text_char_def)
  moreover have "\<not> list_ex (\<lambda>c. markup_char c \<or> c = CHR ''&'') s \<Longrightarrow> list_all text_char s"
    by (auto simp: list_ex_iff list_all_iff unmarked_safe)
  ultimately show ?thesis
    using escape_no_encode_safe [of s] by (auto simp: marked_escape_def intro: list_all_concat_map)
qed

lemma marked_escape_html [simp]: "html_ok (marked_escape s e)"
  by (rule Text) simp

text \<open>A url is percent-encoded: no quote, bracket or blank is left.\<close>

lemma percent_decode_subset: "set (percent_decode s) \<subseteq> set s \<union> {CHR ''%''}"
  by (induction s rule: percent_decode.induct) auto

lemma hex_digit_safe: "text_char (hex_digit n)"
proof -
  have "hex_digit n \<in> set ''0123456789ABCDEF''"
    unfolding hex_digit_def by (rule nth_mem) simp
  then show ?thesis by (auto simp: text_char_def)
qed

lemma uri_kept_safe: "uri_kept c \<Longrightarrow> text_char c"
  by (auto simp: uri_kept_def is_word_def text_char_def Let_def)

lemma encode_char_safe: "list_all text_char (encode_char c)"
proof -
  have "list_all text_char (percent b)" for b
    by (simp add: percent_def hex_digit_safe) (simp add: text_char_def)
  then show ?thesis by (simp add: encode_char_def Let_def uri_kept_safe)
qed

lemma cleanUrl_safe: "list_all text_char (cleanUrl s)"
proof -
  have "list_all text_char (concat (map encode_char s))"
    by (intro list_all_concat_map encode_char_safe)
  moreover have "text_char (CHR ''%'')" by (simp add: text_char_def)
  ultimately show ?thesis
    using percent_decode_subset [of "concat (map encode_char s)"]
    unfolding cleanUrl_def list_all_iff by blast
qed

lemma decimal_safe: "list_all text_char (decimal n)"
proof (induction n rule: decimal.induct)
  case (1 n)
  have "''0123456789'' ! (n mod 10) \<in> set ''0123456789''" by (rule nth_mem) simp
  then have "text_char (''0123456789'' ! (n mod 10))" by (auto simp: text_char_def)
  with 1 show ?case by (cases "n < 10"; subst decimal.simps) simp_all
qed


section \<open>Rendered tokens are safe\<close>

lemma takeWhile_lang: "list_all text_char (''language-'' @ marked_escape a e)"
  by (simp add: text_char_def)

lemma render_code_html: "\<not> e \<Longrightarrow> html_ok (render_code t l e)"
  unfolding render_code_def Let_def
  by (intro Append Elem html_ok_nl)
    (auto simp: element_names_def attr_names_def text_char_def intro!: attr_ok)

lemma render_checkbox_html: "html_ok (render_checkbox c)"
proof -
  have "attrs_ok ((attr ''checked'' [] @ attr ''disabled'' []) @ attr ''type'' ''checkbox'')"
    "attrs_ok (attr ''disabled'' [] @ attr ''type'' ''checkbox'')"
    by (intro MoreAttr NoAttr attr_ok; simp add: attr_names_def text_char_def)+
  then have "html_ok (''<'' @ ''input'' @ ((attr ''checked'' [] @ attr ''disabled'' []) @ attr ''type'' ''checkbox'') @ ''>'')"
    "html_ok (''<'' @ ''input'' @ (attr ''disabled'' [] @ attr ''type'' ''checkbox'') @ ''>'')"
    by (intro Void; simp add: void_names_def)+
  then show ?thesis by (cases c) (simp_all add: render_checkbox_def attr_def)
qed

lemma title_attr: "attrs_ok a \<Longrightarrow>
   attrs_ok (a @ (case t of Some t \<Rightarrow> (if t \<noteq> [] then attr ''title'' (marked_escape t False) else []) | None \<Rightarrow> []))"
  by (auto simp: attr_names_def split: option.splits intro!: MoreAttr)

lemma render_link_html: "html_ok s \<Longrightarrow> html_ok (render_link h t s)"
  unfolding render_link_def
  by (intro Elem title_attr attr_ok cleanUrl_safe) (simp_all add: element_names_def attr_names_def)

lemma render_image_html:
  assumes "list_all text_char a"
  shows "html_ok (render_image h t a)"
proof -
  have "attrs_ok ((attr ''src'' (cleanUrl h) @ attr ''alt'' a) @
      (case t of Some t \<Rightarrow> (if t \<noteq> [] then attr ''title'' (marked_escape t False) else []) | None \<Rightarrow> []))"
    using assms by (intro title_attr MoreAttr attr_ok cleanUrl_safe) (simp_all add: attr_names_def)
  then have "html_ok (''<'' @ ''img'' @ ((attr ''src'' (cleanUrl h) @ attr ''alt'' a) @
      (case t of Some t \<Rightarrow> (if t \<noteq> [] then attr ''title'' (marked_escape t False) else []) | None \<Rightarrow> [])) @ ''>'')"
    by (intro Void) (simp_all add: void_names_def)
  then show ?thesis by (simp add: render_image_def attr_def)
qed

lemma render_cell_html:
  "html_ok s \<Longrightarrow> pred_option (list_all text_char) align \<Longrightarrow> html_ok (render_cell header align s)"
  unfolding render_cell_def Let_def
  by (intro Append Elem html_ok_nl)
    (auto simp: element_names_def attr_names_def split: option.splits intro!: attr_ok)

lemma render_row_html: "html_ok s \<Longrightarrow> html_ok (render_row s)"
  unfolding render_row_def by (intro Append Elem html_ok_nl) (simp_all add: element_names_def)

lemma render_table_html: "html_ok h \<Longrightarrow> html_ok b \<Longrightarrow> html_ok (render_table h b)"
  unfolding render_table_def by (intro Append Elem html_ok_nl) (auto simp: element_names_def intro!: Elem)

lemma render_list_html: "html_ok s \<Longrightarrow> html_ok (render_list b n s)"
  unfolding render_list_def
  by (intro Append Elem html_ok_nl) (auto simp: element_names_def attr_names_def decimal_safe intro!: attr_ok)

lemma simple_elem_html:
  "n \<in> {''p'', ''blockquote'', ''li'', ''strong'', ''em'', ''del'', ''code''} \<Longrightarrow> html_ok s \<Longrightarrow> html_ok (elem n [] s)"
  by (rule Elem) (auto simp: element_names_def)

lemma heading_html: "html_ok s \<Longrightarrow> html_ok (elem (CHR ''h'' # decimal d) [] s @ nl)"
  by (intro Append Elem html_ok_nl) (simp_all add: element_names_def)

lemma break_html: "html_ok ''<br>''" "html_ok (''<hr>'' @ nl)"
  using Void [of "''br''" "[]"] Append [OF Void [of "''hr''" "[]"] html_ok_nl] by (simp_all add: void_names_def)

text \<open>
  Tokens whose raw pieces satisfy \<open>H\<close>: html tokens, escaped text and escaped code; image
  texts and cell alignments without markup characters.
\<close>

primrec token_ok :: "(string \<Rightarrow> bool) \<Rightarrow> token \<Rightarrow> bool" where
  "token_ok H TSpace = True" | "token_ok H THr = True"
| "token_ok H (THeading ts d) = list_all id (map (token_ok H) ts)"
| "token_ok H (TCode t l e) = (\<not> e)"
| "token_ok H (TTable h rs) =
     (list_all (\<lambda>(ks, _, align). list_all id ks \<and> pred_option (list_all text_char) align)
        (map (map_prod (map (token_ok H)) id) h) \<and>
      list_all (list_all (\<lambda>(ks, _, align). list_all id ks \<and> pred_option (list_all text_char) align))
        (map (map (map_prod (map (token_ok H)) id)) rs))"
| "token_ok H (TBlockquote ts) = list_all id (map (token_ok H) ts)"
| "token_ok H (TList b n is) =
     list_all (\<lambda>(_, _, _, ks). list_all id ks) (map (map_prod id (map_prod id (map_prod id (map (token_ok H))))) is)"
| "token_ok H (THtml t) = H t"
| "token_ok H (TParagraph ts) = list_all id (map (token_ok H) ts)"
| "token_ok H (TText t ks e) = ((e \<longrightarrow> H t) \<and> pred_option (list_all id) (map_option (map (token_ok H)) ks))"
| "token_ok H (TEscape t) = True"
| "token_ok H (TLink h t ts) = list_all id (map (token_ok H) ts)"
| "token_ok H (TImage h t a) = list_all text_char a"
| "token_ok H (TStrong ts) = list_all id (map (token_ok H) ts)"
| "token_ok H (TEm ts) = list_all id (map (token_ok H) ts)"
| "token_ok H (TCodespan t) = True" | "token_ok H TBr = True"
| "token_ok H (TDel ts) = list_all id (map (token_ok H) ts)"
| "token_ok H (TOther t) = True"


definition safe_result :: "string option \<Rightarrow> bool" where
  "safe_result r \<longleftrightarrow> pred_option html_ok r"

lemma safe_result_simps [simp]: "safe_result None" "safe_result (Some s) = html_ok s"
  by (simp_all add: safe_result_def)

lemma safe_prepend: "html_ok s \<Longrightarrow> safe_result r \<Longrightarrow> safe_result (prepend s r)"
  by (cases r) (auto simp: prepend_def)

lemma safe_bind:
  "safe_result r \<Longrightarrow> (\<And>s. r = Some s \<Longrightarrow> html_ok s \<Longrightarrow> safe_result (f s)) \<Longrightarrow> safe_result (Option.bind r f)"
  by (cases r) auto

definition item_ok :: "(string \<Rightarrow> bool) \<Rightarrow> item \<Rightarrow> bool" where
  "item_ok H i = (case i of (_, _, _, ks) \<Rightarrow> list_all (token_ok H) ks)"

definition cell_ok :: "(string \<Rightarrow> bool) \<Rightarrow> cell \<Rightarrow> bool" where
  "cell_ok H c = (case c of (ks, _, align) \<Rightarrow> list_all (token_ok H) ks \<and> pred_option (list_all text_char) align)"

lemma list_all_id_map: "list_all id (map f xs) = list_all f xs"
  by (simp add: list.pred_map comp_def)

lemma token_ok_simps [simp]:
  "token_ok H (TTable h rs) = (list_all (cell_ok H) h \<and> list_all (list_all (cell_ok H)) rs)"
  "token_ok H (TList b n is) = list_all (item_ok H) is"
  "token_ok H (TText t ks e) = ((e \<longrightarrow> H t) \<and> pred_option (list_all (token_ok H)) ks)"
  by (simp_all add: list.pred_map option.pred_map comp_def list_all_id_map cell_ok_def [abs_def] item_ok_def [abs_def]
      case_prod_unfold)

declare token_ok.simps(5,7,10) [simp del]

lemma loosen_ok:
  assumes "list_all (token_ok html_ok) ts" and "html_ok n"
  shows "list_all (token_ok html_ok) (loosen n ts)"
proof -
  have "html_ok (n @ '' '' @ marked_escape t e)" "html_ok (n @ '' '')" for t e
    using assms(2) by (intro Append; auto simp: text_char_def)+
  then show ?thesis using assms by (induction n ts rule: loosen.induct) (auto simp: list_all_id_map)
qed

lemma line_html: "html_ok s \<Longrightarrow> html_ok (CHR 0x0A # s)"
  using Append [OF html_ok_nl] by simp

lemma join_html: "html_ok s \<Longrightarrow> html_ok t \<Longrightarrow> html_ok (s @ CHR 0x0A # t)"
  by (intro Append line_html)

lemma blank_html: "html_ok '' ''"
  by (rule Text) (simp add: text_char_def)

lemma paragraph_html: "html_ok s \<Longrightarrow> html_ok (paragraph_of s)"
  unfolding paragraph_of_def by (intro Append simple_elem_html html_ok_nl) simp_all

lemma task_html: "html_ok (if task then render_checkbox c @ '' '' else [])"
  by (auto intro!: Append render_checkbox_html simp: text_char_def)

lemmas safe_intros = safe_prepend safe_bind render_code_html render_link_html paragraph_html task_html
  render_image_html render_cell_html render_row_html render_table_html render_list_html heading_html
  simple_elem_html line_html Append

lemma render_safe:
  "list_all (token_ok html_ok) ts \<Longrightarrow> safe_result (marked_parse par ts)"
  "list_all (token_ok html_ok) us \<Longrightarrow> html_ok s \<Longrightarrow> safe_result (parse_run par s us)"
  "list_all (token_ok html_ok) vs \<Longrightarrow> safe_result (parseInline vs)"
  "(e \<longrightarrow> html_ok t) \<Longrightarrow> pred_option (list_all (token_ok html_ok)) ks \<Longrightarrow> safe_result (render_text t ks e)"
  "list_all (item_ok html_ok) is \<Longrightarrow> safe_result (render_items is)"
  "list_all (cell_ok html_ok) cs \<Longrightarrow> safe_result (render_cells cs)"
  "list_all (list_all (cell_ok html_ok)) rs \<Longrightarrow> safe_result (render_rows rs)"
proof (induction par ts and par s us and vs and t ks e and "is" and cs and rs
    rule: marked_parse_parse_run_parseInline_render_text_render_items_render_cells_render_rows.induct)
qed (auto simp: list_all_id_map loosen_ok join_html blank_html render_checkbox_html break_html [simplified] cell_ok_def item_ok_def
      text_fields_Some render_hr_def render_heading_def render_blockquote_def
      intro!: safe_intros split: if_splits option.splits)


text \<open>Without html tokens and escaped text in the tree, nothing raw reaches the output.\<close>

lemma token_ok_mono: "(\<And>s. H s \<Longrightarrow> K s) \<Longrightarrow> token_ok H t \<Longrightarrow> token_ok K t"
  by (induction t) (auto simp: list_all_iff option.pred_set cell_ok_def item_ok_def split: prod.splits; fastforce)+

lemma marked_parse_safe:
  assumes "list_all (token_ok (\<lambda>_. False)) ts" and "marked_parse par ts = Some s"
  shows "html_ok s"
proof -
  have "list_all (token_ok html_ok) ts"
    using assms(1) token_ok_mono [of "\<lambda>_. False" html_ok] by (auto simp: list_all_iff)
  from render_safe(1) [OF this, of par] assms(2) show ?thesis by simp
qed

text \<open>Every opening bracket of safe HTML starts a tag the renderer knows.\<close>

definition tag_starts :: "string \<Rightarrow> bool" where
  "tag_starts s \<longleftrightarrow> (\<exists>n \<in> element_names \<union> void_names. prefix n s \<or> prefix (CHR ''/'' # n) s)"

fun brackets_known :: "string \<Rightarrow> bool" where
  "brackets_known [] = True"
| "brackets_known (c # s) = ((c = CHR ''<'' \<longrightarrow> tag_starts s) \<and> brackets_known s)"

lemma tag_starts_append: "tag_starts s \<Longrightarrow> tag_starts (s @ t)"
  unfolding tag_starts_def by (meson prefix_prefix)

lemma tag_starts_name: "n \<in> element_names \<union> void_names \<Longrightarrow> tag_starts (n @ s)"
  "n \<in> element_names \<union> void_names \<Longrightarrow> tag_starts (CHR ''/'' # n @ s)"
  unfolding tag_starts_def by (rule bexI [of _ n]; simp)+

lemma brackets_known_append: "brackets_known s \<Longrightarrow> brackets_known t \<Longrightarrow> brackets_known (s @ t)"
  by (induction s) (auto simp: tag_starts_append)

lemma brackets_known_plain: "\<forall>c \<in> set s. c \<noteq> CHR ''<'' \<Longrightarrow> brackets_known s"
  by (induction s) auto

lemma text_no_bracket: "list_all text_char s \<Longrightarrow> \<forall>c \<in> set s. c \<noteq> CHR ''<''"
  by (auto simp: list_all_iff text_char_def)

lemma names_no_bracket:
  assumes "n \<in> element_names \<union> void_names"
  shows "\<forall>c \<in> set n. c \<noteq> CHR ''<''"
proof -
  have "\<forall>c \<in> set (decimal d). c \<noteq> CHR ''<''" for d
    by (rule text_no_bracket [OF decimal_safe])
  then have "\<forall>c \<in> set (CHR ''h'' # decimal d). c \<noteq> CHR ''<''" for d by simp
  moreover have "\<forall>n \<in> void_names \<union> {''p'', ''pre'', ''code'', ''blockquote'', ''ol'', ''ul'', ''li'', ''table'', ''thead'', ''tbody'', ''tr'',
     ''th'', ''td'', ''strong'', ''em'', ''del'', ''a''}. list_all (\<lambda>c. c \<noteq> CHR ''<'') n"
    by (simp add: void_names_def)
  ultimately show ?thesis using assms unfolding element_names_def by (force simp: list_all_iff)
qed

lemma attrs_no_bracket: "attrs_ok a \<Longrightarrow> \<forall>c \<in> set a. c \<noteq> CHR ''<''"
proof (induction rule: attrs_ok.induct)
  case (MoreAttr a n v)
  moreover have "\<forall>c \<in> set n. c \<noteq> CHR ''<''" using MoreAttr.hyps(2) by (auto simp: attr_names_def)
  ultimately show ?case using text_no_bracket [of v] by (auto simp: attr_def)
qed simp

lemma html_brackets: "html_ok s \<Longrightarrow> brackets_known s"
proof (induction rule: html_ok.induct)
  case (Elem n a s)
  have "tag_starts (n @ a @ ''>'' @ s @ ''</'' @ n @ ''>'')" "tag_starts (CHR ''/'' # n @ ''>'')"
    using Elem.hyps(1) by (intro tag_starts_name; simp)+
  moreover have "brackets_known (n @ a @ ''>'')" "brackets_known (''/'' @ n @ ''>'')"
    using names_no_bracket [of n] attrs_no_bracket [OF Elem.hyps(2)] Elem.hyps(1)
    by (intro brackets_known_plain; auto)+
  ultimately have t: "tag_starts (n @ a @ ''>'' @ s @ ''</'' @ n @ ''>'')"
    and "brackets_known (''<'' @ ''/'' @ n @ ''>'')" "brackets_known (n @ a @ ''>'')" by simp_all
  then have "brackets_known ((n @ a @ ''>'') @ s @ (''<'' @ ''/'' @ n @ ''>''))"
    using Elem.IH brackets_known_append by metis
  then have "brackets_known (n @ a @ ''>'' @ s @ ''</'' @ n @ ''>'')" by simp
  with t have "brackets_known (CHR ''<'' # (n @ a @ ''>'' @ s @ ''</'' @ n @ ''>''))"
    by (simp only: brackets_known.simps simp_thms)
  then show ?case by (simp add: elem_def)
next
  case (Void n a)
  have "tag_starts (n @ a @ ''>'')" using Void.hyps(1) by (intro tag_starts_name) simp
  moreover have "brackets_known (n @ a @ ''>'')"
    using names_no_bracket [of n] attrs_no_bracket [OF Void.hyps(2)] Void.hyps(1)
    by (intro brackets_known_plain) auto
  ultimately show ?case by simp
qed (simp_all add: brackets_known_append brackets_known_plain text_no_bracket)

lemma brackets_known_split: "brackets_known (a @ CHR ''<'' # b) \<Longrightarrow> tag_starts b"
  by (induction a) auto

section \<open>Escaping is reversible\<close>

function html_unescape :: "string \<Rightarrow> string" where
  "html_unescape s =
     (case s of [] \<Rightarrow> []
      | c # r \<Rightarrow>
          if c \<noteq> CHR ''&'' then c # html_unescape r
          else if prefix ''amp;'' r then CHR ''&'' # html_unescape (drop 4 r)
          else if prefix ''lt;'' r then CHR ''<'' # html_unescape (drop 3 r)
          else if prefix ''gt;'' r then CHR ''>'' # html_unescape (drop 3 r)
          else if prefix ''quot;'' r then CHR 0x22 # html_unescape (drop 5 r)
          else if prefix ''#39;'' r then CHR 0x27 # html_unescape (drop 4 r)
          else c # html_unescape r)"
  by pat_completeness auto
termination by (relation "measure length") auto

declare html_unescape.simps [simp del]

lemma html_unescape_replacement: "html_unescape (escape_replacement c @ r) = c # html_unescape r"
  by (subst html_unescape.simps) (auto simp: escape_replacement_def)

lemma html_unescape_escape: "html_unescape (marked_escape s True) = s"
proof -
  have "html_unescape (concat (map escape_replacement s)) = s"
    by (induction s) (simp_all add: html_unescape_replacement html_unescape.simps [of "[]"])
  moreover have "concat (map escape_replacement s) = s" if "\<not> list_ex (\<lambda>c. markup_char c \<or> c = CHR ''&'') s"
    using that by (induction s) (auto simp: escape_replacement_def markup_char_def)
  ultimately show ?thesis by (cases "list_ex (\<lambda>c. markup_char c \<or> c = CHR ''&'') s") (simp_all add: marked_escape_def)
qed

section \<open>Table rows\<close>

text \<open>
  \<open>splitCells\<close>: a pipe behind an odd number of backslashes stays, any other gets a blank in
  front, at which the row is split. Empty first and last cells are dropped, and the row is
  cut or filled up to the number of columns.
\<close>

fun mark_pipes :: "string \<Rightarrow> string \<Rightarrow> string" where
  "mark_pipes before [] = []"
| "mark_pipes before (c # s) =
     (if c = CHR ''|''
      then (if odd (length (takeWhile (\<lambda>b. b = CHR 0x5C) before)) then [c] else [CHR '' '', c])
      else [c]) @ mark_pipes (c # before) s"

fun split_pipes :: "string \<Rightarrow> string \<Rightarrow> string list" where
  "split_pipes cell [] = [cell]"
| "split_pipes cell [c] = [cell @ [c]]"
| "split_pipes cell (c # d # s) =
     (if c = CHR '' '' \<and> d = CHR ''|'' then cell # split_pipes [] s else split_pipes (cell @ [c]) (d # s))"

definition js_trim :: "string \<Rightarrow> string" where
  "js_trim s = rev (dropWhile is_space (rev (dropWhile is_space s)))"

fun unslash_pipes :: "string \<Rightarrow> string" where
  "unslash_pipes (c # d # s) =
     (if c = CHR 0x5C \<and> d = CHR ''|'' then d # unslash_pipes s else c # unslash_pipes (d # s))"
| "unslash_pipes s = s"

definition splitCells :: "string \<Rightarrow> nat option \<Rightarrow> string list" where
  "splitCells e t =
     (let n = split_pipes [] (mark_pipes [] e);
          n = (if js_trim (hd n) = [] then tl n else n);
          n = (if n \<noteq> [] \<and> js_trim (last n) = [] then butlast n else n);
          n = (case t of Some k \<Rightarrow> if k \<noteq> 0 then (if length n > k then take k n else n @ replicate (k - length n) []) else n
               | None \<Rightarrow> n)
      in map (\<lambda>c. unslash_pipes (js_trim c)) n)"

lemma splitCells_length: "k \<noteq> 0 \<Longrightarrow> length (splitCells e (Some k)) = k"
  by (auto simp: splitCells_def Let_def)

end
