(* ===== verification/Webpack.thy ===== *)
theory Webpack
  imports StringUtils
begin

text \<open>
  The module loader of the saved documentation pages,
  \<open>html/DeepWiki_files/webpack-acbbbb548492d4a6.js\<close>: \<open>__webpack_require__\<close> (\<open>r\<close>) with its
  module cache, the queue of deferred entries (\<open>r.O\<close>), loading of chunks (\<open>r.f.j\<close>, \<open>r.u\<close> and
  the JSONP callback), and on the second line the test for the toolbar cookie. The file is
  minified: each of its two lines holds all of these functions. The bodies of modules are the
  other bundles' code: a parameter, given as the requests they make of the loader.
\<close>

section \<open>Modules\<close>

text \<open>
  What the body of a module does to the loader, step by step: require another module and go
  on with its exports, replace its own exports, end, or throw.
\<close>

datatype 'x act = Require nat "'x \<Rightarrow> 'x act" | SetExports 'x "'x act" | Finish | Throw

record 'x module_entry =
  me_loaded :: bool
  me_exports :: 'x

text \<open>The table of module bodies \<open>r.m\<close>, the cache \<open>t\<close>, and the bodies run so far, for the statements.\<close>

record 'x loader =
  ld_modules :: "nat \<rightharpoonup> 'x act"
  ld_cache :: "nat \<rightharpoonup> 'x module_entry"
  ld_log :: "nat list"

text \<open>\<open>NoFuel\<close> is no outcome of the program; \<open>require_fuel\<close> says how much is enough.\<close>

datatype 'a outcome = Value 'a | Thrown | NoFuel

primrec run_act ::
    "'x act \<Rightarrow> (nat \<Rightarrow> 'x loader \<Rightarrow> 'x outcome \<times> 'x loader) \<Rightarrow> nat \<Rightarrow> 'x loader \<Rightarrow> unit outcome \<times> 'x loader" where
  "run_act (Require i k) req self s =
     (case req i s of
        (Value x, s') \<Rightarrow> run_act (k x) req self s'
      | (Thrown, s') \<Rightarrow> (Thrown, s')
      | (NoFuel, s') \<Rightarrow> (NoFuel, s'))"
| "run_act (SetExports x k) req self s =
     run_act k req self (case ld_cache s self of
         Some m \<Rightarrow> s\<lparr>ld_cache := (ld_cache s)(self \<mapsto> m\<lparr>me_exports := x\<rparr>)\<rparr>
       | None \<Rightarrow> s)"
| "run_act Finish req self s = (Value (), s)"
| "run_act Throw req self s = (Thrown, s)"

text \<open>
  \<open>r(a)\<close>: a cached module gives its exports, loaded or not. Otherwise it is entered in the
  cache with empty exports and its body runs; if that throws (also because there is no body),
  the entry is deleted again.
\<close>

fun webpack_require :: "nat \<Rightarrow> 'x \<Rightarrow> nat \<Rightarrow> 'x loader \<Rightarrow> 'x outcome \<times> 'x loader" where
  "webpack_require 0 e0 a s = (NoFuel, s)"
| "webpack_require (Suc n) e0 a s =
     (case ld_cache s a of
        Some m \<Rightarrow> (Value (me_exports m), s)
      | None \<Rightarrow>
          let s1 = s\<lparr>ld_cache := (ld_cache s)(a \<mapsto> \<lparr>me_loaded = False, me_exports = e0\<rparr>)\<rparr>
          in case ld_modules s1 a of
               None \<Rightarrow> (Thrown, s1\<lparr>ld_cache := (ld_cache s1)(a := None)\<rparr>)
             | Some body \<Rightarrow>
                 case run_act body (webpack_require n e0) a (s1\<lparr>ld_log := ld_log s1 @ [a]\<rparr>) of
                   (Value _, s2) \<Rightarrow>
                     (case ld_cache s2 a of
                        Some m \<Rightarrow> (Value (me_exports m), s2\<lparr>ld_cache := (ld_cache s2)(a \<mapsto> m\<lparr>me_loaded := True\<rparr>)\<rparr>)
                      | None \<Rightarrow> (Value e0, s2))
                 | (Thrown, s2) \<Rightarrow> (Thrown, s2\<lparr>ld_cache := (ld_cache s2)(a := None)\<rparr>)
                 | (NoFuel, s2) \<Rightarrow> (NoFuel, s2))"

text \<open>
  A run from one loader state to another that did not throw: the bodies run are new in the
  log, each once and none of them cached before; they are all cached after, and whatever was
  cached stays as it was.
\<close>

definition ran :: "'x loader \<Rightarrow> 'x loader \<Rightarrow> bool" where
  "ran s s' \<longleftrightarrow>
     ld_modules s' = ld_modules s \<and>
     (\<exists>new. ld_log s' = ld_log s @ new \<and> distinct new \<and> (\<forall>i \<in> set new. ld_cache s i = None \<and> ld_cache s' i \<noteq> None)) \<and>
     (\<forall>i. ld_cache s i \<noteq> None \<longrightarrow> ld_cache s' i = ld_cache s i)"

lemma ran_refl [simp]: "ran s s"
  by (simp add: ran_def)

lemma ran_trans:
  assumes "ran s t" and "ran t u"
  shows "ran s u"
proof -
  from assms obtain xs ys where
    x: "ld_log t = ld_log s @ xs" "distinct xs" "\<forall>i \<in> set xs. ld_cache s i = None \<and> ld_cache t i \<noteq> None" and
    y: "ld_log u = ld_log t @ ys" "distinct ys" "\<forall>i \<in> set ys. ld_cache t i = None \<and> ld_cache u i \<noteq> None" and
    keep: "\<forall>i. ld_cache s i \<noteq> None \<longrightarrow> ld_cache t i = ld_cache s i" "\<forall>i. ld_cache t i \<noteq> None \<longrightarrow> ld_cache u i = ld_cache t i"
    by (auto simp: ran_def)
  have "ld_cache s i = None" if "i \<in> set ys" for i using y(3) keep(1) that by metis
  moreover have "ld_cache u i \<noteq> None" if "i \<in> set xs" for i using x(3) keep(2) that by metis
  moreover have "set xs \<inter> set ys = {}" using x(3) y(3) by auto
  ultimately show ?thesis
    using assms x y keep unfolding ran_def by (intro conjI exI [of _ "xs @ ys"]) auto
qed

text \<open>The same for the body of module \<open>a\<close>, whose own entry it may change.\<close>

definition ran_in :: "nat \<Rightarrow> 'x loader \<Rightarrow> 'x loader \<Rightarrow> bool" where
  "ran_in a s s' \<longleftrightarrow>
     ld_cache s' a \<noteq> None \<and> ld_modules s' = ld_modules s \<and>
     (\<exists>new. ld_log s' = ld_log s @ new \<and> distinct new \<and> (\<forall>i \<in> set new. ld_cache s i = None \<and> ld_cache s' i \<noteq> None)) \<and>
     (\<forall>i. i \<noteq> a \<longrightarrow> ld_cache s i \<noteq> None \<longrightarrow> ld_cache s' i = ld_cache s i)"

lemma ran_in_refl: "ld_cache s a \<noteq> None \<Longrightarrow> ran_in a s s"
  by (simp add: ran_in_def)

lemma ran_in_trans:
  assumes "ran_in a s t" and "ran_in a t u" and "ld_cache s a \<noteq> None"
  shows "ran_in a s u"
proof -
  from assms obtain xs ys where
    x: "ld_log t = ld_log s @ xs" "distinct xs" "\<forall>i \<in> set xs. ld_cache s i = None \<and> ld_cache t i \<noteq> None" and
    y: "ld_log u = ld_log t @ ys" "distinct ys" "\<forall>i \<in> set ys. ld_cache t i = None \<and> ld_cache u i \<noteq> None" and
    keep: "\<forall>i. i \<noteq> a \<longrightarrow> ld_cache s i \<noteq> None \<longrightarrow> ld_cache t i = ld_cache s i"
      "\<forall>i. i \<noteq> a \<longrightarrow> ld_cache t i \<noteq> None \<longrightarrow> ld_cache u i = ld_cache t i" and
    a: "ld_cache t a \<noteq> None" "ld_cache u a \<noteq> None"
    by (auto simp: ran_in_def)
  have "ld_cache s i = None" if "i \<in> set ys" for i using y(3) keep(1) a that assms(3) by metis
  moreover have "ld_cache u i \<noteq> None" if "i \<in> set xs" for i using x(3) keep(2) a that by metis
  moreover have "set xs \<inter> set ys = {}" using x(3) y(3) by auto
  ultimately show ?thesis
    using assms x y keep a unfolding ran_in_def by (intro conjI exI [of _ "xs @ ys"]) auto
qed

lemma ran_in_ran: "ran s t \<Longrightarrow> ld_cache s a \<noteq> None \<Longrightarrow> ran_in a s t"
  by (auto simp: ran_def ran_in_def)

lemma run_act_ran:
  assumes "\<And>i s x s'. req i s = (Value x, s') \<Longrightarrow> ran s s'"
    and "run_act body req a s = (Value u, s')" and "ld_cache s a \<noteq> None"
  shows "ran_in a s s'"
  using assms(2,3)
proof (induction body arbitrary: s)
  case (Require i k)
  then obtain x s1 where 1: "req i s = (Value x, s1)" "run_act (k x) req a s1 = (Value u, s')"
    by (auto split: prod.splits outcome.splits)
  have "ran_in a s s1" by (rule ran_in_ran [OF assms(1) [OF 1(1)] Require.prems(2)])
  moreover from this have "ld_cache s1 a \<noteq> None" by (simp add: ran_in_def)
  ultimately show ?case using Require.IH [OF _ 1(2)] Require.prems(2) ran_in_trans by (metis rangeI)
next
  case (SetExports x k)
  from SetExports.prems(2) obtain m where m: "ld_cache s a = Some m" by auto
  let ?t = "s\<lparr>ld_cache := (ld_cache s)(a \<mapsto> m\<lparr>me_exports := x\<rparr>)\<rparr>"
  have "ran_in a s ?t" by (simp add: ran_in_def)
  moreover have "ran_in a ?t s'" using SetExports m by simp
  ultimately show ?case using ran_in_trans SetExports.prems(2) by metis
qed (auto simp: ran_in_refl)

lemma require_ran: "webpack_require n e0 a s = (Value x, s') \<Longrightarrow> ran s s' \<and> map_option me_exports (ld_cache s' a) = Some x"
proof (induction n arbitrary: a s x s')
  case (Suc n)
  show ?case
  proof (cases "ld_cache s a")
    case (Some m)
    with Suc.prems show ?thesis by auto
  next
    case None
    define s1 where "s1 = s\<lparr>ld_cache := (ld_cache s)(a \<mapsto> \<lparr>me_loaded = False, me_exports = e0\<rparr>), ld_log := ld_log s @ [a]\<rparr>"
    from Suc.prems None obtain body u s2 where body: "ld_modules s a = Some body"
      and run: "run_act body (webpack_require n e0) a s1 = (Value u, s2)"
      and res: "(case ld_cache s2 a of
                   Some m \<Rightarrow> (Value (me_exports m), s2\<lparr>ld_cache := (ld_cache s2)(a \<mapsto> m\<lparr>me_loaded := True\<rparr>)\<rparr>)
                 | None \<Rightarrow> (Value e0, s2)) = (Value x, s')"
      by (auto simp: Let_def s1_def split: option.splits prod.splits outcome.splits)
    have c1: "ld_cache s1 a \<noteq> None" by (simp add: s1_def)
    have "ran_in a s1 s2" using run_act_ran [OF _ run c1] Suc.IH by blast
    then obtain m new where m: "ld_cache s2 a = Some m" and new: "ld_log s2 = ld_log s1 @ new" "distinct new"
      "\<forall>i \<in> set new. ld_cache s1 i = None \<and> ld_cache s2 i \<noteq> None" "ld_modules s2 = ld_modules s1"
      "\<forall>i. i \<noteq> a \<longrightarrow> ld_cache s1 i \<noteq> None \<longrightarrow> ld_cache s2 i = ld_cache s1 i"
      by (auto simp: ran_in_def)
    have s': "s' = s2\<lparr>ld_cache := (ld_cache s2)(a \<mapsto> m\<lparr>me_loaded := True\<rparr>)\<rparr>" "x = me_exports m"
      using res m by auto
    have "a \<notin> set new" using new(3) c1 by auto
    then have "ran s s'"
      using new None unfolding ran_def s'
      by (intro conjI exI [of _ "a # new"]) (auto simp: s1_def split: if_splits)
    then show ?thesis by (simp add: s')
  qed
qed simp


section \<open>Enough fuel\<close>

text \<open>Each nested request is for a module with a body that is not cached: their number is enough.\<close>

definition uncached :: "'x loader \<Rightarrow> nat set" where
  "uncached s = {i \<in> dom (ld_modules s). ld_cache s i = None}"

lemma finite_uncached: "finite (dom (ld_modules s)) \<Longrightarrow> finite (uncached s)"
  by (simp add: uncached_def)

lemma uncached_ran: "ran s t \<Longrightarrow> uncached t \<subseteq> uncached s"
  by (auto simp: ran_def uncached_def)

lemma run_act_fuel:
  assumes req: "\<And>i s x s'. req i s = (Value x, s') \<Longrightarrow> ran s s'"
    and fuel: "\<And>i s. finite (dom (ld_modules s)) \<Longrightarrow> card (uncached s) < n \<Longrightarrow> fst (req i s) \<noteq> NoFuel"
    and "finite (dom (ld_modules s))" "card (uncached s) < n" "ld_cache s a \<noteq> None"
  shows "fst (run_act body req a s) \<noteq> NoFuel"
  using assms(3-5)
proof (induction body arbitrary: s)
  case (Require i k)
  show ?case
  proof (cases "fst (req i s)")
    case (Value x)
    then obtain t where t: "req i s = (Value x, t)" by (cases "req i s") auto
    from req [OF t] have r: "ran s t" .
    have "finite (dom (ld_modules t))" "ld_cache t a \<noteq> None" using r Require.prems by (auto simp: ran_def)
    moreover have "card (uncached t) < n"
      using card_mono [OF finite_uncached [OF Require.prems(1)] uncached_ran [OF r]] Require.prems(2) by linarith
    ultimately show ?thesis using Require.IH [of "k x" t] t by simp
  next
    case Thrown
    then show ?thesis by (cases "req i s") auto
  next
    case NoFuel
    with fuel Require.prems show ?thesis by blast
  qed
next
  case (SetExports x k)
  then obtain m where m: "ld_cache s a = Some m" by auto
  let ?t = "s\<lparr>ld_cache := (ld_cache s)(a \<mapsto> m\<lparr>me_exports := x\<rparr>)\<rparr>"
  have "uncached ?t = uncached s" using m by (auto simp: uncached_def)
  then show ?case using SetExports m by simp
qed auto

lemma require_fuel:
  "finite (dom (ld_modules s)) \<Longrightarrow> card (uncached s) < n \<Longrightarrow> fst (webpack_require n e0 a s) \<noteq> NoFuel"
proof (induction n arbitrary: a s)
  case (Suc n)
  show ?case
  proof (cases "ld_cache s a = None \<and> a \<in> dom (ld_modules s)")
    case True
    then obtain body where body: "ld_modules s a = Some body" by auto
    define s1 where "s1 = s\<lparr>ld_cache := (ld_cache s)(a \<mapsto> \<lparr>me_loaded = False, me_exports = e0\<rparr>), ld_log := ld_log s @ [a]\<rparr>"
    have U: "uncached s1 = uncached s - {a}" "a \<in> uncached s" using True by (auto simp: uncached_def s1_def)
    have "card (uncached s1) < card (uncached s)"
      using U card_Diff1_less [OF finite_uncached [OF Suc.prems(1)] U(2)] by simp
    then have "card (uncached s1) < n" using Suc.prems(2) by linarith
    have "fst (run_act body (webpack_require n e0) a s1) \<noteq> NoFuel"
    proof (rule run_act_fuel [where n = n])
      show "ran s s'" if "webpack_require n e0 i s = (Value x, s')" for i s x s'
        using require_ran [OF that] by (rule conjunct1)
      show "fst (webpack_require n e0 i s) \<noteq> NoFuel" if "finite (dom (ld_modules s))" "card (uncached s) < n" for i s
        by (rule Suc.IH [OF that])
    qed (use Suc.prems(1) \<open>card (uncached s1) < n\<close> in \<open>simp_all add: s1_def\<close>)
    then show ?thesis
      using True body by (auto simp: Let_def s1_def split: prod.splits outcome.splits option.splits)
  qed (auto simp: Let_def split: option.splits)
qed simp

section \<open>Deferred entries\<close>

text \<open>
  An entry waits for chunks and has a priority; what it runs is a list of modules. \<open>r.O\<close> with
  chunks inserts behind the entries of the same or a lower priority value.
\<close>

record entry =
  en_chunks :: "nat list"
  en_modules :: "nat list"
  en_priority :: nat

fun insert_from_back :: "entry \<Rightarrow> entry list \<Rightarrow> entry list" where
  "insert_from_back e [] = [e]"
| "insert_from_back e (x # xs) = (if en_priority x > en_priority e then x # insert_from_back e xs else e # x # xs)"

definition O_insert :: "entry \<Rightarrow> entry list \<Rightarrow> entry list" where
  "O_insert e es = rev (insert_from_back e (rev es))"

text \<open>
  \<open>r.O()\<close>: chunks that are there are struck from an entry, unless an earlier entry of a lower
  priority value is unfinished (\<open>f\<close>, infinite at first); entries without chunks left are taken out
  and run.
\<close>

fun O_chunks :: "(nat \<Rightarrow> bool) \<Rightarrow> nat \<Rightarrow> nat list \<Rightarrow> nat option \<Rightarrow> nat list \<times> bool \<times> nat option" where
  "O_chunks loaded prio [] f = ([], True, f)"
| "O_chunks loaded prio (c # cs) f =
     (if (case f of None \<Rightarrow> True | Some g \<Rightarrow> g \<ge> prio) \<and> loaded c then O_chunks loaded prio cs f
      else let f' = (case f of None \<Rightarrow> Some prio | Some g \<Rightarrow> if prio < g then Some prio else f)
           in case O_chunks loaded prio cs f' of (rest, _, f'') \<Rightarrow> (c # rest, False, f''))"

fun O_check :: "(nat \<Rightarrow> bool) \<Rightarrow> entry list \<Rightarrow> nat option \<Rightarrow> entry list \<times> nat list list" where
  "O_check loaded [] f = ([], [])"
| "O_check loaded (e # es) f =
     (case O_chunks loaded (en_priority e) (en_chunks e) f of (rest, done, f') \<Rightarrow>
        case O_check loaded es f' of (es', runs) \<Rightarrow>
          if done then (es', en_modules e # runs) else (e\<lparr>en_chunks := rest\<rparr> # es', runs))"

lemma insert_from_back_sorted:
  "sorted (map en_priority (rev xs)) \<Longrightarrow> sorted (map en_priority (rev (insert_from_back e xs)))"
proof (induction xs)
  case (Cons x xs)
  have "set (map en_priority (rev (insert_from_back e xs))) = insert (en_priority e) (set (map en_priority xs))"
    by (induction xs) auto
  with Cons show ?case by (fastforce simp: sorted_append)
qed simp

lemma O_insert_sorted: "sorted (map en_priority es) \<Longrightarrow> sorted (map en_priority (O_insert e es))"
  using insert_from_back_sorted [of "rev es" e] by (simp add: O_insert_def)

text \<open>The pages use one priority: then exactly the entries with all chunks loaded run, in order.\<close>

lemma O_chunks_same:
  assumes "f = None \<or> f = Some p"
  shows "O_chunks loaded p cs f =
    (filter (\<lambda>c. \<not> loaded c) cs, list_all loaded cs, if list_all loaded cs then f else Some p)"
  using assms by (induction cs arbitrary: f) auto

lemma O_check_same:
  assumes "list_all (\<lambda>e. en_priority e = p) es" and "f = None \<or> f = Some p"
  shows "snd (O_check loaded es f) = map en_modules (filter (\<lambda>e. list_all loaded (en_chunks e)) es)"
    and "fst (O_check loaded es f) =
      map (\<lambda>e. e\<lparr>en_chunks := filter (\<lambda>c. \<not> loaded c) (en_chunks e)\<rparr>) (filter (\<lambda>e. \<not> list_all loaded (en_chunks e)) es)"
  using assms
proof (induction es arbitrary: f)
  case (Cons e es)
  { case 1 then show ?case using Cons.IH(1) by (auto simp: O_chunks_same split: prod.splits) (metis snd_conv)+ }
  { case 2 then show ?case using Cons.IH(2) by (auto simp: O_chunks_same split: prod.splits) (metis fst_conv)+ }
qed simp_all


section \<open>Chunks\<close>

text \<open>
  The file a chunk is in, \<open>r.p + r.u(t)\<close>: a name for three of them, a hash for those that are
  loaded on demand.
\<close>

definition chunk_names :: "(nat \<times> string) list" where
  "chunk_names =
   [    (2331, ''db261188''), (5661, ''e0368f7a''), (7696, ''33d0405b'')]"

definition chunk_hashes :: "(nat \<times> string) list" where
  "chunk_hashes =
   [    (368, ''b9b2585340f38284''), (441, ''b07b18df515e612a''), (472, ''d35e27f887c5553f''),
     (850, ''4b14b635eba611cd''), (914, ''878c16945c389547''), (2132, ''59802620e6f9bb99''),
     (2201, ''4cecfe4199b44525''), (2331, ''7a4645803186d83d''), (2609, ''a7dc27872e2bcf43''),
     (2728, ''aa26da84510a688a''), (3256, ''07131d69f87dc896''), (3601, ''9824b50c7a69ff6c''),
     (3645, ''2a21169c3b407dfb''), (3649, ''8b4517fa5fc48dad''), (3767, ''72e7e722ff260f33''),
     (3939, ''08e34e71bd1427f7''), (3994, ''ecaa5858e21b881f''), (4428, ''aa7827dea1c60d9e''),
     (4454, ''649e154dcb6a50d3''), (4473, ''f8822158d5679e8f''), (4527, ''3a8b6d5d3b9f52a1''),
     (4818, ''f6491877bad82af3''), (5140, ''8d3a325a3ab78b83''), (5280, ''d4aeb7d7d56c3786''),
     (5661, ''46fac392c22c864d''), (5677, ''0bb0360fb4510a8c''), (5974, ''ec7b464d19d2bf2c''),
     (5991, ''b4624c0b7ad09077''), (6230, ''77862e7921464ac4''), (6459, ''f6f097a2a25ef9a9''),
     (6492, ''33f559aaf4c50580''), (6510, ''1147f22bb6737803''), (6881, ''2d00fd6cb27b5829''),
     (7100, ''10fbc825f51b9522''), (7441, ''a7cc258bf19cf63f''), (7696, ''9bf51d6e7f9e728e''),
     (8276, ''87704dc28af607fc''), (8592, ''166f92f0045c2433''), (8818, ''0fd95cdf44152fad''),
     (9915, ''93e3bc40feb5efb9'')]"

definition chunk_file :: "nat \<Rightarrow> string" where
  "chunk_file t =
     ''static/chunks/'' @ (case map_of chunk_names t of Some n \<Rightarrow> n | None \<Rightarrow> decimal t) @ ''.'' @
     (case map_of chunk_hashes t of Some h \<Rightarrow> h | None \<Rightarrow> ''undefined'') @ ''.js''"

definition chunk_url :: "nat \<Rightarrow> string" where
  "chunk_url t = ''/_next/'' @ chunk_file t"

text \<open>
  The table \<open>e\<close> of chunks: installed (0), \<open>undefined\<close> after a failure, or waiting with its promise.
  Promises are numbered; \<open>ck_settled\<close> records how each one ended, \<open>ck_loading\<close> the callbacks of the
  scripts that are being loaded, by chunk, \<open>ck_scripts\<close> the scripts put into the page.
\<close>

datatype chunk_state = Installed | Undefined | Waiting nat

record chunks =
  ck_state :: "nat \<rightharpoonup> chunk_state"
  ck_loading :: "string \<rightharpoonup> nat list"
  ck_next :: nat
  ck_settled :: "(nat \<times> bool) list"
  ck_scripts :: "string list"

definition initial_chunks :: chunks where
  "initial_chunks = \<lparr>ck_state = [8068 \<mapsto> Installed, 4481 \<mapsto> Installed, 7690 \<mapsto> Installed, 7474 \<mapsto> Installed],
     ck_loading = Map.empty, ck_next = 0, ck_settled = [], ck_scripts = []\<rparr>"

text \<open>\<open>r.l\<close>: \<open>found\<close> says that the page has a script for the url or chunk already.\<close>

definition load_script :: "bool \<Rightarrow> string \<Rightarrow> nat \<Rightarrow> chunks \<Rightarrow> chunks" where
  "load_script found url t s =
     (case ck_loading s url of
        Some ts \<Rightarrow> s\<lparr>ck_loading := (ck_loading s)(url \<mapsto> ts @ [t])\<rparr>
      | None \<Rightarrow> s\<lparr>ck_loading := (ck_loading s)(url \<mapsto> [t]),
                  ck_scripts := ck_scripts s @ (if found then [] else [url])\<rparr>)"

text \<open>\<open>r.f.j\<close>: the promise it adds, if any. Four chunks come with the page.\<close>

definition ensure_chunk :: "bool \<Rightarrow> nat \<Rightarrow> chunks \<Rightarrow> nat option \<times> chunks" where
  "ensure_chunk found t s =
     (case ck_state s t of
        Some Installed \<Rightarrow> (None, s)
      | Some (Waiting p) \<Rightarrow> (Some p, s)
      | _ \<Rightarrow>
          if t = 4481 \<or> t = 7474 \<or> t = 7690 \<or> t = 8068
          then (None, s\<lparr>ck_state := (ck_state s)(t \<mapsto> Installed)\<rparr>)
          else (Some (ck_next s),
                load_script found (chunk_url t) t
                  (s\<lparr>ck_state := (ck_state s)(t \<mapsto> Waiting (ck_next s)), ck_next := ck_next s + 1\<rparr>)))"

text \<open>The callback of a script that loaded, failed or timed out: a chunk still waiting is rejected.\<close>

definition chunk_ended :: "nat \<Rightarrow> chunks \<Rightarrow> chunks" where
  "chunk_ended t s =
     (case ck_state s t of
        Some (Waiting p) \<Rightarrow> s\<lparr>ck_state := (ck_state s)(t \<mapsto> Undefined), ck_settled := ck_settled s @ [(p, False)]\<rparr>
      | _ \<Rightarrow> s)"

definition script_event :: "string \<Rightarrow> chunks \<Rightarrow> chunks" where
  "script_event url s =
     (let ts = (case ck_loading s url of Some ts \<Rightarrow> ts | None \<Rightarrow> [])
      in fold chunk_ended ts (s\<lparr>ck_loading := (ck_loading s)(url := None)\<rparr>))"

text \<open>The JSONP callback: each chunk that arrives is resolved if it was waiting, and installed.\<close>

definition install_chunk :: "nat \<Rightarrow> chunks \<Rightarrow> chunks" where
  "install_chunk t s =
     (case ck_state s t of
        Some (Waiting p) \<Rightarrow> s\<lparr>ck_state := (ck_state s)(t \<mapsto> Installed), ck_settled := ck_settled s @ [(p, True)]\<rparr>
      | _ \<Rightarrow> s\<lparr>ck_state := (ck_state s)(t \<mapsto> Installed)\<rparr>)"

definition jsonp_chunks :: "nat list \<Rightarrow> chunks \<Rightarrow> chunks" where
  "jsonp_chunks ts s = fold install_chunk ts s"

text \<open>Its other half, on the modules: they are added unless all chunks were there already.\<close>

definition jsonp_modules :: "nat list \<Rightarrow> (nat \<times> 'x act) list \<Rightarrow> chunks \<Rightarrow> 'x loader \<Rightarrow> 'x loader" where
  "jsonp_modules ts ms s l =
     (if list_ex (\<lambda>t. ck_state s t \<noteq> Some Installed) ts
      then l\<lparr>ld_modules := ld_modules l ++ map_of (rev ms)\<rparr> else l)"

datatype chunk_event = Request bool nat | ScriptEnd string | Arrive "nat list"

fun chunk_step :: "chunk_event \<Rightarrow> chunks \<Rightarrow> chunks" where
  "chunk_step (Request found t) s = snd (ensure_chunk found t s)"
| "chunk_step (ScriptEnd url) s = script_event url s"
| "chunk_step (Arrive ts) s = jsonp_chunks ts s"

definition chunks_inv :: "chunks \<Rightarrow> bool" where
  "chunks_inv s \<longleftrightarrow>
     distinct (map fst (ck_settled s)) \<and> (\<forall>p \<in> fst ` set (ck_settled s). p < ck_next s) \<and>
     (\<forall>t p. ck_state s t = Some (Waiting p) \<longrightarrow> p < ck_next s \<and> p \<notin> fst ` set (ck_settled s)) \<and>
     (\<forall>t u p. ck_state s t = Some (Waiting p) \<longrightarrow> ck_state s u = Some (Waiting p) \<longrightarrow> t = u)"

lemma chunk_ended_inv: "chunks_inv s \<Longrightarrow> chunks_inv (chunk_ended t s)"
  by (auto simp: chunks_inv_def chunk_ended_def split: option.splits chunk_state.splits)

lemma install_chunk_inv: "chunks_inv s \<Longrightarrow> chunks_inv (install_chunk t s)"
  by (auto simp: chunks_inv_def install_chunk_def split: option.splits chunk_state.splits)

lemma load_script_fields [simp]:
  "ck_state (load_script f u t s) = ck_state s" "ck_next (load_script f u t s) = ck_next s"
  "ck_settled (load_script f u t s) = ck_settled s"
  by (simp_all add: load_script_def split: option.splits)

lemma fold_inv: "(\<And>x s. P s \<Longrightarrow> P (f x s)) \<Longrightarrow> P s \<Longrightarrow> P (fold f xs s)"
  by (induction xs arbitrary: s) auto

lemma chunk_step_inv:
  assumes "chunks_inv s"
  shows "chunks_inv (chunk_step e s)"
proof (cases e)
  case (Request f t)
  show ?thesis
  proof (cases "(\<exists>p. ck_state s t = Some (Waiting p)) \<or> ck_state s t = Some Installed")
    case True
    then show ?thesis using assms Request by (auto simp: ensure_chunk_def)
  next
    case False
    then have "ck_state s t = None \<or> ck_state s t = Some Undefined"
      by (metis chunk_state.exhaust not_None_eq)
    then have "snd (ensure_chunk f t s) = (if t = 4481 \<or> t = 7474 \<or> t = 7690 \<or> t = 8068
        then s\<lparr>ck_state := (ck_state s)(t \<mapsto> Installed)\<rparr>
        else load_script f (chunk_url t) t
               (s\<lparr>ck_state := (ck_state s)(t \<mapsto> Waiting (ck_next s)), ck_next := ck_next s + 1\<rparr>))"
      by (auto simp: ensure_chunk_def)
    then show ?thesis using assms by (auto simp: Request chunks_inv_def split: if_splits; fastforce)
  qed
next
  case (ScriptEnd url)
  have "chunks_inv (s\<lparr>ck_loading := (ck_loading s)(url := None)\<rparr>)" using assms by (simp add: chunks_inv_def)
  then show ?thesis unfolding ScriptEnd by (simp add: script_event_def Let_def fold_inv [where P = chunks_inv, OF chunk_ended_inv])
next
  case (Arrive ts)
  then show ?thesis using assms by (simp add: jsonp_chunks_def fold_inv [where P = chunks_inv, OF install_chunk_inv])
qed

lemma initial_chunks_inv: "chunks_inv initial_chunks"
  by (simp add: chunks_inv_def initial_chunks_def)

text \<open>A chunk that is waiting or installed is not requested again; one that failed is.\<close>

lemma ensure_chunk_once:
  "ck_state s t = Some Installed \<Longrightarrow> ensure_chunk f t s = (None, s)"
  "ck_state s t = Some (Waiting p) \<Longrightarrow> ensure_chunk f t s = (Some p, s)"
  by (simp_all add: ensure_chunk_def)

lemma install_chunks_state:
  "ck_state (fold install_chunk ts s) t = (if t \<in> set ts then Some Installed else ck_state s t)"
  by (induction ts arbitrary: s) (auto simp: install_chunk_def split: option.splits chunk_state.splits)

section \<open>The toolbar cookie\<close>

text \<open>
  The second line loads the toolbar only if \<open>/(?:^|;\s)__vercel_toolbar=1(?:;|$)/\<close> matches
  \<open>document.cookie\<close>.
\<close>

definition toolbar_cookie :: string where
  "toolbar_cookie = ''__vercel_toolbar=1''"

definition cookie_space :: "char \<Rightarrow> bool" where
  "cookie_space c \<longleftrightarrow> (of_char c :: nat) \<in> {9 .. 13} \<union> {32, 160}"

definition cookie_here :: "string \<Rightarrow> bool" where
  "cookie_here s \<longleftrightarrow> prefix toolbar_cookie s \<and>
     (case drop (length toolbar_cookie) s of [] \<Rightarrow> True | c # _ \<Rightarrow> c = CHR '';'')"

fun cookie_later :: "string \<Rightarrow> bool" where
  "cookie_later (c # d # s) = (c = CHR '';'' \<and> cookie_space d \<and> cookie_here s \<or> cookie_later (d # s))"
| "cookie_later s = False"

definition toolbar_enabled :: "string \<Rightarrow> bool" where
  "toolbar_enabled cookie \<longleftrightarrow> cookie_here cookie \<or> cookie_later cookie"


text \<open>On a cookie string as the browser writes it: exactly when this cookie is one of them.\<close>

lemma cookie_here_part:
  assumes "CHR '';'' \<notin> set p" and "t = [] \<or> hd t = CHR '';''"
  shows "cookie_here (p @ t) \<longleftrightarrow> p = toolbar_cookie"
proof
  assume here: "cookie_here (p @ t)"
  then obtain z where z: "p @ t = toolbar_cookie @ z" unfolding cookie_here_def prefix_def by blast
  then have "z = [] \<or> hd z = CHR '';''"
    using here unfolding cookie_here_def z by (simp split: list.splits)
  then have "takeWhile (\<lambda>c. c \<noteq> CHR '';'') (toolbar_cookie @ z) = toolbar_cookie"
    by (cases z) (simp_all add: toolbar_cookie_def)
  moreover have "takeWhile (\<lambda>c. c \<noteq> CHR '';'') (p @ t) = p"
    using assms by (cases t) (auto simp: takeWhile_append takeWhile_eq_all_conv)
  ultimately show "p = toolbar_cookie" using z by simp
next
  assume "p = toolbar_cookie"
  with assms(2) show "cookie_here (p @ t)" by (cases t) (simp_all add: cookie_here_def)
qed

lemma cookie_later_skip:
  "CHR '';'' \<notin> set p \<Longrightarrow> cookie_later (p @ CHR '';'' # d # s) = (cookie_space d \<and> cookie_here s \<or> cookie_later (d # s))"
proof (induction p)
  case (Cons c p)
  then show ?case by (cases p) auto
qed simp

lemma cookie_later_none: "CHR '';'' \<notin> set p \<Longrightarrow> \<not> cookie_later p"
  by (induction p rule: cookie_later.induct) auto

lemma toolbar_enabled_iff:
  assumes "list_all (\<lambda>p. CHR '';'' \<notin> set p) ps" and "ps \<noteq> []"
  shows "toolbar_enabled (join ''; '' ps) \<longleftrightarrow> toolbar_cookie \<in> set ps"
  using assms
proof (induction ps)
  case (Cons p ps)
  show ?case
  proof (cases ps)
    case Nil
    then show ?thesis
      using Cons.prems cookie_here_part [of p "[]"] cookie_later_none [of p] by (auto simp: toolbar_enabled_def)
  next
    case (Cons q qs)
    have p: "CHR '';'' \<notin> set p" using Cons.prems by simp
    let ?j = "join ''; '' ps"
    have "join ''; '' (p # ps) = p @ CHR '';'' # CHR '' '' # ?j" using Cons by simp
    moreover have "cookie_here (p @ CHR '';'' # CHR '' '' # ?j) \<longleftrightarrow> p = toolbar_cookie"
      using cookie_here_part [OF p, of "CHR '';'' # CHR '' '' # ?j"] by simp
    moreover have "cookie_later (p @ CHR '';'' # CHR '' '' # ?j) \<longleftrightarrow> cookie_here ?j \<or> cookie_later (CHR '' '' # ?j)"
      by (simp add: cookie_later_skip [OF p] cookie_space_def)
    moreover have "cookie_later (CHR '' '' # ?j) = cookie_later ?j" by (cases ?j) auto
    ultimately show ?thesis using Cons.IH Cons.prems Cons by (auto simp: toolbar_enabled_def)
  qed
qed simp

end
