(* ===== verification/PageBundles.thy ===== *)
theory PageBundles
  imports Marked Webpack
begin

text \<open>
  What the smaller bundles of the saved documentation pages compute, one section per file of
  \<open>html/\<close> (each is one line): the start of the application (\<open>main-app\<close>), the page a route
  shows (\<open>page\<close>), urls (\<open>2136\<close>), the emitter of events (\<open>c16f53c3\<close>), the stack of focus
  scopes and the count of scroll locks (\<open>168\<close>), class names (\<open>537\<close>), and the wiki text and
  its table of contents (\<open>7111\<close>). Rendering itself is the browser's and React's.
\<close>

section \<open>Splitting and joining as JavaScript does\<close>

fun js_split :: "char \<Rightarrow> string \<Rightarrow> string list" where
  "js_split d [] = [[]]"
| "js_split d (c # s) = (if c = d then [] # js_split d s else (case js_split d s of p # ps \<Rightarrow> (c # p) # ps | [] \<Rightarrow> [[c]]))"

fun js_join :: "string \<Rightarrow> string list \<Rightarrow> string" where
  "js_join d [] = []"
| "js_join d [p] = p"
| "js_join d (p # q # ps) = p @ d @ js_join d (q # ps)"

lemma js_split_not_empty [simp]: "js_split d s \<noteq> []"
  by (cases s) (auto split: list.splits)

lemma js_split_plain: "d \<notin> set s \<Longrightarrow> js_split d s = [s]"
  by (induction s) auto

lemma js_split_first: "d \<notin> set p \<Longrightarrow> js_split d (p @ d # s) = p # js_split d s"
  by (induction p) auto

lemma js_split_parts: "p \<in> set (js_split d s) \<Longrightarrow> d \<notin> set p"
proof (induction s arbitrary: p)
  case (Cons c s)
  then show ?case
    by (cases "js_split d s") (auto split: if_splits)
qed simp

lemma js_join_Cons: "ps \<noteq> [] \<Longrightarrow> js_join d (p # ps) = p @ d @ js_join d ps"
  by (cases ps) simp_all

lemma js_join_split: "js_join [d] (js_split d s) = s"
proof (induction s)
  case (Cons c s)
  obtain p ps where p: "js_split d s = p # ps" by (cases "js_split d s") auto
  from p Cons show ?case by (cases ps) (auto simp: js_join_Cons)
qed simp

lemma js_split_chars: "c \<in> set s \<Longrightarrow> c = d \<or> (\<exists>p \<in> set (js_split d s). c \<in> set p)"
proof (induction s)
  case (Cons e s)
  obtain p ps where p: "js_split d s = p # ps" by (cases "js_split d s") auto
  from p Cons show ?case by (cases "e = d") auto
qed simp

lemma js_split_join: "ls \<noteq> [] \<Longrightarrow> \<forall>l \<in> set ls. d \<notin> set l \<Longrightarrow> js_split d (js_join [d] ls) = ls"
  by (induction "[d]" ls rule: js_join.induct) (simp_all add: js_split_plain js_split_first)

section \<open>The start of the application\<close>

text \<open>
  Chunk 7358 brings an empty module and 27140, which loads the framework's modules; its
  runtime asks to run 35415 and 27140 once the chunks 8441 and 1684 are there.
\<close>

definition main_app_modules :: "(nat \<times> nat list) list" where
  "main_app_modules = [(19393, []), (27140, [90894, 94970, 26614, 46975, 87555, 74911, 59665, 31295])]"

definition main_app_entry :: entry where
  "main_app_entry = \<lparr>en_chunks = [8441, 1684], en_modules = [35415, 27140], en_priority = 0\<rparr>"

definition main_app_start :: "(nat \<Rightarrow> bool) \<Rightarrow> entry list \<Rightarrow> entry list \<times> nat list list" where
  "main_app_start loaded es = O_check loaded (O_insert main_app_entry es) None"

text \<open>The page's runtime: it waits for all chunks of the layout, this application's among them.\<close>

definition page_entry :: entry where
  "page_entry = \<lparr>en_chunks = [9453, 8970, 1585, 2545, 537, 5009, 3377, 2136, 6671, 5217, 9514, 168, 5938, 7111, 8441, 1684, 7358],
     en_modules = [69482], en_priority = 0\<rparr>"

definition page_start :: "(nat \<Rightarrow> bool) \<Rightarrow> entry list \<Rightarrow> entry list \<times> nat list list" where
  "page_start loaded es = O_check loaded (O_insert page_entry es) None"

lemma O_chunks_done:
  "(case f of None \<Rightarrow> True | Some g \<Rightarrow> prio \<le> g) \<Longrightarrow>
   (\<forall>c \<in> set cs. loaded c) \<Longrightarrow> O_chunks loaded prio cs f = ([], True, f)"
  by (induction cs) simp_all

lemma O_chunks_not_done: "\<not> (\<forall>c \<in> set cs. loaded c) \<Longrightarrow> fst (snd (O_chunks loaded prio cs f)) = False"
  by (induction loaded prio cs f rule: O_chunks.induct) (auto simp: Let_def split: prod.splits option.splits)

text \<open>A runtime's modules run exactly when all chunks it named are there.\<close>

lemma start_runs:
  "snd (O_check loaded (O_insert e []) None) = (if \<forall>c \<in> set (en_chunks e). loaded c then [en_modules e] else [])"
proof (cases "\<forall>c \<in> set (en_chunks e). loaded c")
  case True
  then show ?thesis by (simp add: O_insert_def O_chunks_done)
next
  case False
  from O_chunks_not_done [OF False, of "en_priority e" None] show ?thesis
    using False by (auto simp: O_insert_def split: prod.split)
qed

section \<open>The page of a route\<close>

datatype shown = ShowPage string string | RedirectTo string

text \<open>\<open>/^\d+(\.\d+)*$/\<close>: numbers separated by dots.\<close>

definition is_page_id :: "string \<Rightarrow> bool" where
  "is_page_id s = list_all (\<lambda>p. p \<noteq> [] \<and> list_all is_dec p) (js_split (CHR ''.'') s)"

text \<open>The part of the last segment before the first dash; without segments, page 1.\<close>

definition route_page :: "string list \<Rightarrow> string" where
  "route_page routes = (if routes = [] then ''1'' else hd (js_split (CHR ''-'') (last routes)))"

definition wiki_page :: "string \<Rightarrow> string \<Rightarrow> string list \<Rightarrow> shown" where
  "wiki_page org repo routes =
     (let d = org @ ''/'' @ repo; p = route_page routes
      in if is_page_id p then ShowPage d p else RedirectTo (''/'' @ org @ ''/'' @ repo))"

text \<open>
  The links of the side bar (\<open>7111\<close>, module 17494): the id of the page and a slug of its
  title, which a library makes.
\<close>

definition page_link :: "string \<Rightarrow> string \<Rightarrow> string \<Rightarrow> string" where
  "page_link repo_name page slug = ''/'' @ repo_name @ ''/'' @ page @ ''-'' @ slug"

definition page_depth :: "string \<Rightarrow> nat" where
  "page_depth page = length (js_split (CHR ''.'') page) - 1"

lemma page_id_no_dash:
  assumes "is_page_id p"
  shows "CHR ''-'' \<notin> set p"
proof
  assume "CHR ''-'' \<in> set p"
  then obtain q where q: "q \<in> set (js_split (CHR ''.'') p)" "CHR ''-'' \<in> set q"
    using js_split_chars [of "CHR ''-''" p "CHR ''.''"] by auto
  with assms have "is_dec (CHR ''-'')" unfolding is_page_id_def list_all_iff by blast
  then show False by (simp add: is_dec_def)
qed

lemma wiki_link_page:
  assumes "is_page_id p"
  shows "wiki_page org repo (routes @ [p @ ''-'' @ slug]) = ShowPage (org @ ''/'' @ repo) p"
proof -
  have "route_page (routes @ [p @ ''-'' @ slug]) = p"
    using js_split_first [OF page_id_no_dash [OF assms], of slug] by (simp add: route_page_def)
  with assms show ?thesis by (simp add: wiki_page_def)
qed

section \<open>Urls\<close>

text \<open>\<open>isAbsoluteUrl\<close>: a scheme and a colon.\<close>

definition scheme_char :: "char \<Rightarrow> bool" where
  "scheme_char c \<longleftrightarrow> (let n = of_char c :: nat in 65 \<le> n \<and> n \<le> 90 \<or> 97 \<le> n \<and> n \<le> 122) \<or> is_dec c \<or> c \<in> {CHR ''+'', CHR ''-'', CHR ''.''}"

definition isAbsoluteUrl :: "string \<Rightarrow> bool" where
  "isAbsoluteUrl s = (case s of [] \<Rightarrow> False
     | c # r \<Rightarrow> (let n = of_char c :: nat in 65 \<le> n \<and> n \<le> 90 \<or> 97 \<le> n \<and> n \<le> 122) \<and>
         (case dropWhile scheme_char r of [] \<Rightarrow> False | d # _ \<Rightarrow> d = CHR '':''))"

definition getLocationOrigin :: "string \<Rightarrow> string \<Rightarrow> string \<Rightarrow> string" where
  "getLocationOrigin protocol hostname port = protocol @ ''//'' @ hostname @ (if port \<noteq> [] then '':'' @ port else [])"

text \<open>\<open>normalizeRepeatedSlashes\<close>: both slashes become one \<open>/\<close>; the query is put back as it was.\<close>

fun squeeze_slashes :: "string \<Rightarrow> string" where
  "squeeze_slashes (c # d # s) =
     (if c = CHR ''/'' \<and> d = CHR ''/'' then squeeze_slashes (d # s) else c # squeeze_slashes (d # s))"
| "squeeze_slashes s = s"

definition unbackslash :: "string \<Rightarrow> string" where
  "unbackslash s = map (\<lambda>c. if c = CHR 0x5C then CHR ''/'' else c) s"

definition normalizeRepeatedSlashes :: "string \<Rightarrow> string" where
  "normalizeRepeatedSlashes e =
     (let t = js_split (CHR ''?'') e
      in squeeze_slashes (unbackslash (hd t)) @
         (if 1 < length t \<and> t ! 1 \<noteq> [] then ''?'' @ js_join ''?'' (tl t) else []))"

fun no_double_slash :: "string \<Rightarrow> bool" where
  "no_double_slash (c # d # s) \<longleftrightarrow> \<not> (c = CHR ''/'' \<and> d = CHR ''/'') \<and> no_double_slash (d # s)"
| "no_double_slash _ \<longleftrightarrow> True"

lemma squeeze_slashes_hd: "squeeze_slashes (c # s) = c # tl (squeeze_slashes (c # s))"
  by (induction s arbitrary: c) auto

lemma no_double_squeeze: "no_double_slash (squeeze_slashes s)"
proof (induction s rule: squeeze_slashes.induct)
  case (1 c d s)
  obtain x where x: "squeeze_slashes (d # s) = d # x" using squeeze_slashes_hd by blast
  show ?case
  proof (cases "c = CHR ''/'' \<and> d = CHR ''/''")
    case False
    then have "squeeze_slashes (c # d # s) = c # d # x" by (simp only: squeeze_slashes.simps if_False x)
    with False 1(2) x show ?thesis by simp
  qed (use 1(1) in simp)
qed auto

lemma squeeze_id: "no_double_slash s \<Longrightarrow> squeeze_slashes s = s"
  by (induction s rule: squeeze_slashes.induct) auto

lemma set_squeeze: "set (squeeze_slashes s) = set s"
  by (induction s rule: squeeze_slashes.induct) auto

lemma unbackslash_id: "CHR 0x5C \<notin> set s \<Longrightarrow> unbackslash s = s"
  by (induction s) (auto simp: unbackslash_def)

lemma no_backslash: "CHR 0x5C \<notin> set (unbackslash s)"
  by (auto simp: unbackslash_def)

text \<open>The path of the result has neither kind of repeated slash, and normalising again changes nothing.\<close>

lemma normalize_path:
  fixes e defines "p \<equiv> squeeze_slashes (unbackslash (hd (js_split (CHR ''?'') e)))"
  shows "\<exists>q. normalizeRepeatedSlashes e = p @ q \<and> (q = [] \<or> hd q = CHR ''?'') \<and>
    no_double_slash p \<and> CHR 0x5C \<notin> set p \<and> CHR ''?'' \<notin> set p"
proof -
  have "CHR ''?'' \<notin> set (hd (js_split (CHR ''?'') e))"
    by (rule js_split_parts [OF hd_in_set]) simp
  then have "CHR ''?'' \<notin> set p"
    unfolding p_def set_squeeze by (auto simp: unbackslash_def split: if_splits)
  moreover have "no_double_slash p" "CHR 0x5C \<notin> set p"
    unfolding p_def set_squeeze by (simp_all add: no_double_squeeze no_backslash)
  ultimately show ?thesis
    unfolding normalizeRepeatedSlashes_def Let_def p_def [symmetric] by auto
qed

lemma normalize_idempotent:
  "normalizeRepeatedSlashes (normalizeRepeatedSlashes e) = normalizeRepeatedSlashes e"
proof -
  define t where "t = js_split (CHR ''?'') e"
  define p where "p = squeeze_slashes (unbackslash (hd t))"
  have t: "t \<noteq> []" "\<forall>l \<in> set t. CHR ''?'' \<notin> set l" by (simp_all add: t_def js_split_parts)
  have p: "no_double_slash p" "CHR 0x5C \<notin> set p" "CHR ''?'' \<notin> set p"
    using normalize_path [of e] by (auto simp: p_def t_def)
  have n: "normalizeRepeatedSlashes e = p @ (if 1 < length t \<and> t ! 1 \<noteq> [] then ''?'' @ js_join ''?'' (tl t) else [])"
    by (simp add: normalizeRepeatedSlashes_def Let_def t_def p_def)
  have pp: "squeeze_slashes (unbackslash p) = p"
    by (simp add: unbackslash_id p squeeze_id)
  show ?thesis
  proof (cases "1 < length t \<and> t ! 1 \<noteq> []")
    case True
    then have tl: "tl t \<noteq> []" by (cases t) auto
    have "\<forall>l \<in> set (tl t). CHR ''?'' \<notin> set l" using t by (auto dest: list.set_sel(2))
    then have "js_split (CHR ''?'') (p @ ''?'' @ js_join ''?'' (tl t)) = p # tl t"
      using js_split_first [OF p(3)] js_split_join [OF tl] by simp
    moreover have "tl t ! 0 \<noteq> []" using True by (cases t) auto
    ultimately show ?thesis
      using True pp tl unfolding n by (subst normalizeRepeatedSlashes_def) (simp add: Let_def)
  next
    case False
    with p(3) pp n show ?thesis
      by (simp only: if_False append_Nil2) (simp add: normalizeRepeatedSlashes_def js_split_plain Let_def)
  qed
qed

text \<open>A query that starts with a second question mark is dropped.\<close>

lemma normalize_drops_query: "normalizeRepeatedSlashes ''/a??b=1'' = ''/a''"
  by (simp add: normalizeRepeatedSlashes_def Let_def unbackslash_def)

text \<open>A click on a link: what the event says, and what is done (module 6874).\<close>

record click =
  ck_prevented :: bool
  ck_anchor :: bool
  ck_target :: "string option"
  ck_modifier :: bool
  ck_middle :: bool
  ck_download :: bool

datatype link_action = BrowserDefault | ReplaceLocation string | Vetoed | Navigate string bool bool

text \<open>
  \<open>local\<close> tells whether the url is one of this application (\<open>isLocalURL\<close>), \<open>vetoed\<close> whether
  \<open>onNavigate\<close> prevented the default; \<open>None\<close> for the scroll option is its default.
\<close>

definition linkClicked :: "click \<Rightarrow> string \<Rightarrow> string \<Rightarrow> bool \<Rightarrow> bool \<Rightarrow> bool option \<Rightarrow> bool \<Rightarrow> link_action" where
  "linkClicked e href as_href is_local repl scroll vetoed =
     (let modified = (case ck_target e of None \<Rightarrow> False | Some t \<Rightarrow> t \<noteq> [] \<and> t \<noteq> ''_self'') \<or> ck_modifier e \<or> ck_middle e
      in if ck_prevented e then BrowserDefault
         else if ck_anchor e \<and> modified \<or> ck_download e then BrowserDefault
         else if \<not> is_local then (if repl then ReplaceLocation href else BrowserDefault)
         else if vetoed then Vetoed
         else Navigate (if as_href \<noteq> [] then as_href else href) repl (case scroll of None \<Rightarrow> True | Some s \<Rightarrow> s))"

section \<open>Events of floating elements\<close>

text \<open>The map of the emitter: for each event the set of its listeners in their order.\<close>

type_synonym 'l emitter = "string \<rightharpoonup> 'l list"

definition em_on :: "string \<Rightarrow> 'l \<Rightarrow> 'l emitter \<Rightarrow> 'l emitter" where
  "em_on t n e = (let s = (case e t of None \<Rightarrow> [] | Some s \<Rightarrow> s) in e(t \<mapsto> (if n \<in> set s then s else s @ [n])))"

definition em_off :: "string \<Rightarrow> 'l \<Rightarrow> 'l emitter \<Rightarrow> 'l emitter" where
  "em_off t n e = (case e t of None \<Rightarrow> e | Some s \<Rightarrow> e(t \<mapsto> remove1 n s))"

text \<open>The listeners \<open>emit\<close> calls.\<close>

definition em_emit :: "string \<Rightarrow> 'l emitter \<Rightarrow> 'l list" where
  "em_emit t e = (case e t of None \<Rightarrow> [] | Some s \<Rightarrow> s)"

datatype 'l subscription = On string 'l | Off string 'l

fun em_step :: "'l subscription \<Rightarrow> 'l emitter \<Rightarrow> 'l emitter" where
  "em_step (On t n) e = em_on t n e"
| "em_step (Off t n) e = em_off t n e"

text \<open>A listener is subscribed when its last subscription is on.\<close>

fun subscribed :: "string \<Rightarrow> 'l \<Rightarrow> 'l subscription list \<Rightarrow> bool \<Rightarrow> bool" where
  "subscribed t n [] b = b"
| "subscribed t n (On t' m # es) b = subscribed t n es (t = t' \<and> n = m \<or> b)"
| "subscribed t n (Off t' m # es) b = subscribed t n es (b \<and> \<not> (t = t' \<and> n = m))"

lemma em_on_emit: "em_emit t (em_on u n e) = (if t = u \<and> n \<notin> set (em_emit t e) then em_emit t e @ [n] else em_emit t e)"
  by (simp add: em_emit_def em_on_def Let_def split: option.split)

lemma em_off_emit: "em_emit t (em_off u n e) = (if t = u then remove1 n (em_emit t e) else em_emit t e)"
  by (simp add: em_emit_def em_off_def split: option.split)

lemma em_run:
  "distinct (em_emit t e) \<Longrightarrow>
     distinct (em_emit t (fold em_step es e)) \<and>
     (n \<in> set (em_emit t (fold em_step es e)) \<longleftrightarrow> subscribed t n es (n \<in> set (em_emit t e)))"
proof (induction es arbitrary: e)
  case (Cons a es)
  have "distinct (em_emit t (em_step a e))"
    using Cons.prems by (cases a) (auto simp: em_on_emit em_off_emit)
  moreover have "subscribed t n es (n \<in> set (em_emit t (em_step a e))) = subscribed t n (a # es) (n \<in> set (em_emit t e))"
    using Cons.prems by (cases a) (auto simp: em_on_emit em_off_emit intro!: arg_cong [of _ _ "subscribed t n es"])
  ultimately show ?case using Cons.IH [of "em_step a e"] by simp
qed simp

definition by_orientation :: "string \<Rightarrow> bool \<Rightarrow> bool \<Rightarrow> bool" where
  "by_orientation orientation vertical horizontal =
     (if orientation = ''vertical'' then vertical else if orientation = ''horizontal'' then horizontal
      else vertical \<or> horizontal)"

section \<open>Focus scopes and scroll locks\<close>

text \<open>The list \<open>e\<close> of the focus stack, the topmost scope first, and which scopes are paused.\<close>

record focus_stack =
  fs_stack :: "nat list"
  fs_paused :: "nat \<Rightarrow> bool"

definition focus_new :: focus_stack where
  "focus_new = \<lparr>fs_stack = [], fs_paused = (\<lambda>_. False)\<rparr>"

definition focus_add :: "nat \<Rightarrow> focus_stack \<Rightarrow> focus_stack" where
  "focus_add t f =
     (let f = (case fs_stack f of [] \<Rightarrow> f | n # _ \<Rightarrow> if t \<noteq> n then f\<lparr>fs_paused := (fs_paused f)(n := True)\<rparr> else f)
      in f\<lparr>fs_stack := t # remove1 t (fs_stack f)\<rparr>)"

definition focus_remove :: "nat \<Rightarrow> focus_stack \<Rightarrow> focus_stack" where
  "focus_remove t f =
     (let f = f\<lparr>fs_stack := remove1 t (fs_stack f)\<rparr>
      in case fs_stack f of [] \<Rightarrow> f | n # _ \<Rightarrow> f\<lparr>fs_paused := (fs_paused f)(n := False)\<rparr>)"

definition focus_inv :: "focus_stack \<Rightarrow> bool" where
  "focus_inv f \<longleftrightarrow> distinct (fs_stack f) \<and>
     (case fs_stack f of [] \<Rightarrow> True | n # ns \<Rightarrow> \<not> fs_paused f n \<and> list_all (fs_paused f) ns)"

text \<open>A scope is an object of one mounted element: it is added once, not paused, and removed once.\<close>

inductive focus_reach :: "focus_stack \<Rightarrow> bool" where
  focus_start: "focus_reach focus_new"
| focus_mount: "focus_reach f \<Longrightarrow> t \<notin> set (fs_stack f) \<Longrightarrow> \<not> fs_paused f t \<Longrightarrow> focus_reach (focus_add t f)"
| focus_unmount: "focus_reach f \<Longrightarrow> focus_reach (focus_remove t f)"

lemma focus_reach_inv: "focus_reach f \<Longrightarrow> focus_inv f"
proof (induction rule: focus_reach.induct)
  case (focus_mount f t)
  then show ?case
    by (cases "fs_stack f") (auto simp: focus_inv_def focus_add_def remove1_idem list_all_iff)
next
  case (focus_unmount f t)
  then show ?case
    by (cases "fs_stack f"; cases "remove1 t (fs_stack f)")
      (auto simp: focus_inv_def focus_remove_def list_all_iff split: if_splits dest: notin_set_remove1)
qed (simp add: focus_inv_def focus_new_def)

text \<open>\<open>data-scroll-locked\<close> of the body: the attribute counts, and goes with the last lock.\<close>

definition lock_scroll :: "nat option \<Rightarrow> nat option" where
  "lock_scroll a = Some (Suc (case a of None \<Rightarrow> 0 | Some n \<Rightarrow> n))"

definition unlock_scroll :: "nat option \<Rightarrow> nat option" where
  "unlock_scroll a = (let n = int (case a of None \<Rightarrow> 0 | Some n \<Rightarrow> n) - 1 in if n \<le> 0 then None else Some (nat n))"

fun scroll_locks :: "bool list \<Rightarrow> nat \<Rightarrow> nat" where
  "scroll_locks [] n = n"
| "scroll_locks (True # ls) n = scroll_locks ls (Suc n)"
| "scroll_locks (False # ls) n = scroll_locks ls (n - 1)"

lemma scroll_locked:
  "fold (\<lambda>l. if l then lock_scroll else unlock_scroll) ls (if n = 0 then None else Some n) =
     (if scroll_locks ls n = 0 then None else Some (scroll_locks ls n))"
proof (induction ls n rule: scroll_locks.induct)
  case (2 ls n)
  have "lock_scroll (if n = 0 then None else Some n) = (if Suc n = 0 then None else Some (Suc n))"
    by (simp add: lock_scroll_def)
  with 2 show ?case by simp
next
  case (3 ls n)
  have "unlock_scroll (if n = 0 then None else Some n) = (if n - 1 = 0 then None else Some (n - 1))"
    by (cases n) (simp_all add: unlock_scroll_def Let_def)
  with 3 show ?case by simp
qed simp

section \<open>Class names\<close>

text \<open>
  An argument of \<open>clsx\<close>: a string, a number with its text, an array, an object as its keys with
  whether their values hold, or anything else, which holds or not.
\<close>

datatype cls = Str string | Num string | Arr "cls list" | Obj "(string \<times> bool) list" | Other bool

fun cls_holds :: "cls \<Rightarrow> bool" where
  "cls_holds (Str s) = (s \<noteq> [])"
| "cls_holds (Num s) = (s \<notin> {''0'', ''NaN''})"
| "cls_holds (Arr _) = True"
| "cls_holds (Obj _) = True"
| "cls_holds (Other b) = b"

definition add_class :: "string \<Rightarrow> string \<Rightarrow> string" where
  "add_class a t = (if a = [] then t else a @ '' '' @ t)"

fun cls_text :: "cls \<Rightarrow> string" where
  "cls_text (Str s) = s"
| "cls_text (Num s) = s"
| "cls_text (Arr xs) = fold (\<lambda>x a. if cls_holds x \<and> cls_text x \<noteq> [] then add_class a (cls_text x) else a) xs []"
| "cls_text (Obj kvs) = fold (\<lambda>(k, v) a. if v then add_class a k else a) kvs []"
| "cls_text (Other _) = []"

definition clsx :: "cls list \<Rightarrow> string" where
  "clsx xs = cls_text (Arr xs)"

text \<open>The names that hold, from left to right, whatever the nesting.\<close>

fun cls_names :: "cls \<Rightarrow> string list" where
  "cls_names (Str s) = (if s = [] then [] else [s])"
| "cls_names (Num s) = (if s = [] then [] else [s])"
| "cls_names (Arr xs) = concat (map (\<lambda>x. if cls_holds x then cls_names x else []) xs)"
| "cls_names (Obj kvs) = map fst (filter snd kvs)"
| "cls_names (Other _) = []"

fun cls_keys_ok :: "cls \<Rightarrow> bool" where
  "cls_keys_ok (Arr xs) = list_all cls_keys_ok xs"
| "cls_keys_ok (Obj kvs) = list_all (\<lambda>(k, v). k \<noteq> []) kvs"
| "cls_keys_ok _ = True"

lemma js_join_snoc: "ps \<noteq> [] \<Longrightarrow> js_join d (ps @ [p]) = js_join d ps @ d @ p"
  by (induction d ps rule: js_join.induct) auto

lemma js_join_append: "ps \<noteq> [] \<Longrightarrow> qs \<noteq> [] \<Longrightarrow> js_join d (ps @ qs) = js_join d ps @ d @ js_join d qs"
  by (induction d ps rule: js_join.induct) (auto, metis js_join.simps(3) list.exhaust)

lemma js_join_empty: "\<forall>p \<in> set ps. p \<noteq> [] \<Longrightarrow> js_join d ps = [] \<longleftrightarrow> ps = []"
  by (induction d ps rule: js_join.induct) auto

lemma add_class_join:
  assumes "\<forall>p \<in> set ps. p \<noteq> []" "qs \<noteq> []"
  shows "add_class (js_join '' '' ps) (js_join '' '' qs) = js_join '' '' (ps @ qs)"
  using js_join_empty [OF assms(1), of "'' ''"] js_join_append [OF _ assms(2), of ps "'' ''"] assms
  by (auto simp: add_class_def)

lemma cls_text_names:
  "cls_keys_ok x \<Longrightarrow> cls_text x = js_join '' '' (cls_names x) \<and> (\<forall>p \<in> set (cls_names x). p \<noteq> [])"
proof (induction x)
  case (Arr xs)
  have "fold (\<lambda>x a. if cls_holds x \<and> cls_text x \<noteq> [] then add_class a (cls_text x) else a) ys (js_join '' '' ps) =
        js_join '' '' (ps @ concat (map (\<lambda>x. if cls_holds x then cls_names x else []) ys))"
    if "set ys \<subseteq> set xs" "\<forall>p \<in> set ps. p \<noteq> []" for ys ps
    using that
  proof (induction ys arbitrary: ps)
    case (Cons y ys)
    have y: "cls_text y = js_join '' '' (cls_names y)" "\<forall>p \<in> set (cls_names y). p \<noteq> []"
      using Arr.IH [of y] Arr.prems Cons.prems(1) by (auto simp: list_all_iff)
    have e: "cls_text y = [] \<longleftrightarrow> cls_names y = []" using y js_join_empty by metis
    show ?case
    proof (cases "cls_holds y \<and> cls_text y \<noteq> []")
      case True
      then have "add_class (js_join '' '' ps) (cls_text y) = js_join '' '' (ps @ cls_names y)"
        using add_class_join [OF Cons.prems(2)] e y(1) by simp
      moreover have "\<forall>p \<in> set (ps @ cls_names y). p \<noteq> []" using Cons.prems(2) y(2) by auto
      ultimately show ?thesis using True Cons.IH [of "ps @ cls_names y"] Cons.prems(1) by simp
    next
      case False
      with e Cons.IH [of ps] Cons.prems show ?thesis by auto
    qed
  qed simp
  from this [of xs "[]"] have "cls_text (Arr xs) = js_join '' '' (cls_names (Arr xs))" by simp
  moreover have "\<forall>p \<in> set (cls_names (Arr xs)). p \<noteq> []"
    using Arr by (auto simp: list_all_iff)
  ultimately show ?case by blast
next
  case (Obj kvs)
  have "fold (\<lambda>(k, v) a. if v then add_class a k else a) ls (js_join '' '' ps) =
        js_join '' '' (ps @ map fst (filter snd ls))"
    if "list_all (\<lambda>(k, v). k \<noteq> []) ls" "\<forall>p \<in> set ps. p \<noteq> []" for ls ps
    using that
  proof (induction ls arbitrary: ps)
    case (Cons l ls)
    obtain k v where l: "l = (k, v)" by (rule prod.exhaust)
    have "add_class (js_join '' '' ps) k = js_join '' '' (ps @ [k])"
      using add_class_join [OF Cons.prems(2), of "[k]"] by simp
    with Cons.IH [of "ps @ [k]"] Cons.IH [of ps] Cons.prems l show ?case by simp
  qed simp
  from this [of kvs "[]"] Obj show ?case by (auto simp: list_all_iff)
qed auto

section \<open>The wiki text\<close>

text \<open>\<open>d\<close> of the wiki component: an open code fence is closed at the end.\<close>

definition is_fence :: "string \<Rightarrow> bool" where
  "is_fence l \<longleftrightarrow> take 3 (js_trim l) = replicate 3 (CHR 0x60)"

definition close_fences :: "string \<Rightarrow> string" where
  "close_fences e =
     (let t = js_split (CHR 0x0A) e; r = fold (\<lambda>l r. if is_fence l then \<not> r else r) t False
      in js_join [CHR 0x0A] (if r then t @ [replicate 3 (CHR 0x60)] else t))"

definition fence_count :: "string \<Rightarrow> nat" where
  "fence_count e = length (filter is_fence (js_split (CHR 0x0A) e))"

lemma fence_fold: "fold (\<lambda>l r. if is_fence l then \<not> r else r) t r = (r = even (length (filter is_fence t)))"
  by (induction t arbitrary: r) auto

lemma fence_is_fence: "is_fence (replicate 3 (CHR 0x60))"
  by (simp add: is_fence_def js_trim_def is_space_def eval_nat_numeral)

lemma close_fences_lines:
  "js_split (CHR 0x0A) (close_fences e) =
     js_split (CHR 0x0A) e @ (if even (fence_count e) then [] else [replicate 3 (CHR 0x60)])"
proof -
  let ?t = "js_split (CHR 0x0A) e"
  have "fold (\<lambda>l r. if is_fence l then \<not> r else r) ?t False = odd (fence_count e)"
    by (simp add: fence_fold fence_count_def)
  then have "close_fences e = js_join [CHR 0x0A] (?t @ (if even (fence_count e) then [] else [replicate 3 (CHR 0x60)]))"
    by (simp add: close_fences_def Let_def)
  moreover have "js_split (CHR 0x0A) (js_join [CHR 0x0A] (?t @ fs)) = ?t @ fs" if "\<forall>f \<in> set fs. CHR 0x0A \<notin> set f" for fs
    by (rule js_split_join) (use that js_split_parts in auto)
  ultimately show ?thesis by simp
qed

lemma close_fences_even: "even (fence_count (close_fences e))"
  by (simp add: fence_count_def close_fences_lines) (simp add: fence_count_def fence_is_fence)

lemma close_fences_id: "close_fences (close_fences e) = close_fences e"
  using close_fences_even [of e]
  by (simp add: close_fences_def [of "close_fences e"] fence_fold fence_count_def js_join_split Let_def)

section \<open>The table of contents\<close>

text \<open>The id of a heading, for texts of ASCII characters.\<close>

definition lower :: "char \<Rightarrow> char" where
  "lower c = (let n = of_char c :: nat in if 65 \<le> n \<and> n \<le> 90 then char_of (n + 32) else c)"

fun dash_spaces :: "bool \<Rightarrow> string \<Rightarrow> string" where
  "dash_spaces b [] = []"
| "dash_spaces b (c # s) =
     (if is_space c then (if b then dash_spaces True s else CHR ''-'' # dash_spaces True s) else c # dash_spaces False s)"

definition heading_slug :: "string \<Rightarrow> string" where
  "heading_slug text =
     dash_spaces False (filter (\<lambda>c. is_word c \<or> is_space c \<or> c = CHR ''-'') (map lower text))"

text \<open>
  The ids of the table of contents: \<open>for (; e.has(l);) l = a-n, n++\<close>. The rounds are bounded by
  the ids given out so far (\<open>unique_id_some\<close>).
\<close>

fun unique_id :: "nat \<Rightarrow> string list \<Rightarrow> string \<Rightarrow> string \<Rightarrow> nat \<Rightarrow> string option" where
  "unique_id 0 seen a l n = (if l \<in> set seen then None else Some l)"
| "unique_id (Suc k) seen a l n =
     (if l \<in> set seen then unique_id k seen a (a @ ''-'' @ decimal n) (Suc n) else Some l)"

definition toc_id :: "string list \<Rightarrow> string \<Rightarrow> string option" where
  "toc_id seen text = unique_id (Suc (length seen)) seen (heading_slug text) (heading_slug text) 1"

fun toc_ids :: "string list \<Rightarrow> string list \<Rightarrow> string list option" where
  "toc_ids seen [] = Some []"
| "toc_ids seen (t # ts) = (case toc_id seen t of None \<Rightarrow> None
     | Some l \<Rightarrow> map_option (\<lambda>ls. l # ls) (toc_ids (seen @ [l]) ts))"

text \<open>The ids the headings themselves get (\<open>h1\<close> to \<open>h4\<close> of the same component).\<close>

definition heading_ids :: "string list \<Rightarrow> string list" where
  "heading_ids ts = map heading_slug ts"

lemma unique_id_new: "unique_id k seen a l n = Some m \<Longrightarrow> m \<notin> set seen"
  by (induction k seen a l n rule: unique_id.induct) (auto split: if_splits)

lemma unique_id_fails:
  "unique_id k seen a l n = None \<Longrightarrow> l \<in> set seen \<and> (\<forall>i < k. a @ ''-'' @ decimal (n + i) \<in> set seen)"
proof (induction k seen a l n rule: unique_id.induct)
  case (2 k seen a l n)
  from 2(2) have l: "l \<in> set seen" and u: "unique_id k seen a (a @ ''-'' @ decimal n) (Suc n) = None"
    by (simp_all split: if_splits)
  from 2(1) [OF l u] have a: "a @ ''-'' @ decimal n \<in> set seen" "\<forall>i < k. a @ ''-'' @ decimal (Suc n + i) \<in> set seen"
    by blast+
  have "a @ ''-'' @ decimal (n + i) \<in> set seen" if "i < Suc k" for i
    using that a by (cases i) auto
  with l show ?case by blast
qed (simp split: if_splits)

lemma unique_id_some: "unique_id (Suc (length seen)) seen a l n \<noteq> None"
proof
  assume "unique_id (Suc (length seen)) seen a l n = None"
  then have "(\<lambda>i. a @ ''-'' @ decimal (n + i)) ` {..< Suc (length seen)} \<subseteq> set seen"
    using unique_id_fails by blast
  moreover have "inj_on (\<lambda>i. a @ ''-'' @ decimal (n + i)) {..< Suc (length seen)}"
    by (auto simp: inj_on_def dest: decimal_inj)
  ultimately have "Suc (length seen) \<le> card (set seen)"
    by (metis List.finite_set card_image card_lessThan card_mono)
  with card_length [of seen] show False by simp
qed

lemma toc_ids_distinct:
  "distinct seen \<Longrightarrow> \<exists>ls. toc_ids seen ts = Some ls \<and> distinct (seen @ ls) \<and> length ls = length ts"
proof (induction ts arbitrary: seen)
  case (Cons t ts)
  obtain l where l: "toc_id seen t = Some l"
    using unique_id_some by (fastforce simp: toc_id_def)
  have "l \<notin> set seen" by (rule unique_id_new [OF l [unfolded toc_id_def]])
  with Cons.prems have "distinct (seen @ [l])" by simp
  from Cons.IH [OF this] obtain ls where "toc_ids (seen @ [l]) ts = Some ls" "distinct (seen @ [l] @ ls)" "length ls = length ts"
    by auto
  with l show ?case by simp
qed simp

text \<open>
  Of two headings with the same text the second gets an id in the table of contents that no
  heading carries: its link leads nowhere.
\<close>

lemma toc_link_broken:
  "toc_ids [] [''Setup'', ''Setup''] = Some [''setup'', ''setup-1''] \<and> ''setup-1'' \<notin> set (heading_ids [''Setup'', ''Setup''])"
proof -
  have "heading_slug ''Setup'' = ''setup''"
    by code_simp
  moreover have "decimal 1 = ''1''" by (simp add: decimal.simps)
  ultimately show ?thesis by (simp add: toc_id_def heading_ids_def)
qed

end
