(* ===== verification/PageProps.thy ===== *)
theory PageProps
  imports Hotjar QueryClient PageBundles
begin

text \<open>
  The properties of the scripts of the saved documentation pages, over the models in \<open>Marked\<close>,
  \<open>Webpack\<close>, \<open>Hotjar\<close>, \<open>Retryer\<close>, \<open>QueryClient\<close> and \<open>PageBundles\<close>.
\<close>

section \<open>Rendering\<close>

text \<open>
  C33. What the Markdown renderer makes of parsed tokens is well formed and inert: built of
  known elements with known attributes around escaped text, so that every \<open><\<close> in it opens or
  closes a known element. Raw HTML, texts marked as escaped already and the texts of images and
  alignments are the exceptions, and are excluded here (\<open>token_ok\<close>).
\<close>

theorem marked_html_safe:
  assumes "list_all (token_ok (\<lambda>_. False)) ts" and "marked_parse par ts = Some s"
  shows "html_ok s \<and> (s = a @ CHR ''<'' # b \<longrightarrow> tag_starts b)"
  using marked_parse_safe [OF assms] html_brackets brackets_known_split by blast

definition sample_tokens :: "token list" where
  "sample_tokens = [TParagraph [TText ''<script>'' None False, TStrong [TCodespan ''a<b''], TBr]]"

theorem marked_html_safe_witness:
  "\<exists>s. marked_parse True sample_tokens = Some s \<and> html_ok s"
proof -
  have "list_all (token_ok (\<lambda>_. False)) sample_tokens" by (simp add: sample_tokens_def)
  moreover obtain s where "marked_parse True sample_tokens = Some s"
    by (simp add: sample_tokens_def prepend_def)
  ultimately show ?thesis using marked_html_safe [THEN conjunct1] by blast
qed

text \<open>
  Escaping loses nothing: a browser that replaces the five character references by their
  characters reads back the text, entities in it included.
\<close>

theorem html_escape_round_trip: "html_unescape (marked_escape s True) = s"
  by (rule html_unescape_escape)

section \<open>Loading\<close>

text \<open>
  C36. Requiring a module ends, however the modules require each other, cycles included: as many
  nested calls as there are modules not yet cached are enough. When it returns a value, each
  body that ran, ran once and had not been cached, and what was cached stays.
\<close>

theorem require_terminates:
  assumes "finite (dom (ld_modules s))" and "card (uncached s) < n"
  shows "fst (webpack_require n e0 a s) \<noteq> NoFuel \<and>
         (\<forall>x s'. webpack_require n e0 a s = (Value x, s') \<longrightarrow> ran s s' \<and> map_option me_exports (ld_cache s' a) = Some x)"
proof (intro conjI allI impI)
  show "fst (webpack_require n e0 a s) \<noteq> NoFuel" by (rule require_fuel [OF assms])
qed (erule require_ran [THEN conjunct1], erule require_ran [THEN conjunct2])

text \<open>Two modules that require each other.\<close>

definition cyclic_modules :: "nat loader" where
  "cyclic_modules = \<lparr>ld_modules = [1 \<mapsto> Require 2 (\<lambda>x. SetExports (x + 10) Finish), 2 \<mapsto> Require 1 (\<lambda>x. SetExports (x + 5) Finish)],
     ld_cache = Map.empty, ld_log = []\<rparr>"

theorem require_terminates_witness:
  "fst (webpack_require 3 0 1 cyclic_modules) \<noteq> NoFuel \<and>
   (\<exists>s'. webpack_require 3 0 1 cyclic_modules = (Value 15, s') \<and> ran cyclic_modules s')"
proof -
  have "uncached cyclic_modules = {1, 2}" by (auto simp: uncached_def cyclic_modules_def)
  then have "card (uncached cyclic_modules) < 3" by simp
  moreover have "finite (dom (ld_modules cyclic_modules))" by (simp add: cyclic_modules_def)
  moreover have "fst (webpack_require 3 0 1 cyclic_modules) = Value 15"
    by (simp add: cyclic_modules_def eval_nat_numeral)
  ultimately show ?thesis using require_terminates [of cyclic_modules 3 0 1] by (metis prod.collapse)
qed

text \<open>
  C35. Chunks, in any order of requests, arrivals, and scripts that load, fail or time out: every
  promise given out is settled at most once, one that is waited for is not settled yet, and no
  two chunks wait for the same promise.
\<close>

theorem chunk_promises_settle_once:
  "distinct (map fst (ck_settled (fold chunk_step es initial_chunks))) \<and>
   (\<forall>t p. ck_state (fold chunk_step es initial_chunks) t = Some (Waiting p) \<longrightarrow>
      p < ck_next (fold chunk_step es initial_chunks) \<and>
      p \<notin> fst ` set (ck_settled (fold chunk_step es initial_chunks))) \<and>
   (\<forall>t u p. ck_state (fold chunk_step es initial_chunks) t = Some (Waiting p) \<longrightarrow>
      ck_state (fold chunk_step es initial_chunks) u = Some (Waiting p) \<longrightarrow> t = u)"
proof -
  have "chunks_inv (fold chunk_step es initial_chunks)"
    by (rule fold_inv [where P = chunks_inv, OF chunk_step_inv initial_chunks_inv])
  then show ?thesis by (simp add: chunks_inv_def)
qed

theorem chunk_promises_settle_once_witness:
  "distinct (map fst (ck_settled (fold chunk_step
     [Webpack.Request False 5661, Webpack.Request False 5661, ScriptEnd (chunk_url 5661), Webpack.Request False 5661, Arrive [5661]] initial_chunks)))"
  by (rule chunk_promises_settle_once [THEN conjunct1])

section \<open>Fetching\<close>

text \<open>
  C34. A retryer that is started once and may retry \<open>n\<close> times calls the request at most \<open>n + 1\<close>
  times, whatever happens in between (pauses, cancellation, retries switched off and on); it
  settles its promise at most once and tells so by one callback; with the default delay it has
  slept 1, 2, 4 seconds and so on, never more than 30.
\<close>

theorem retry_bounds:
  assumes "rt_reach opts r" and "ro_retry opts = Some (RetryTimes (int n))" and "ro_delay opts = None"
  shows "rt_runs r \<le> n + 1 \<and>
         length (filter settling (rt_calls r)) = (if rt_result r = None then 0 else 1) \<and>
         rt_delays r = map (\<lambda>i. min (1000 * 2 ^ i) 30000) [0..<rt_failures r]"
proof -
  have "retry_delay = (\<lambda>i. min (1000 * 2 ^ i) 30000)" by (simp add: fun_eq_iff retry_delay_def)
  with rt_reach_inv [OF assms(1)] assms(2,3) show ?thesis by (force simp: rt_inv_def rt_core_def)
qed

definition retry_twice :: "nat retry_options" where
  "retry_twice = \<lparr>ro_retry = Some (RetryTimes (int 2)), ro_delay = None, ro_mode = None, ro_initial = False, ro_server = False\<rparr>"

definition failed_once :: "(nat, nat) retryer" where
  "failed_once = rt_step retry_twice (Errored 5) (rt_step retry_twice (Started True) retryer_new)"

theorem retry_bounds_witness:
  "rt_runs failed_once \<le> 2 + 1 \<and>
   length (filter settling (rt_calls failed_once)) = (if rt_result failed_once = None then 0 else 1) \<and>
   rt_delays failed_once = map (\<lambda>i. min (1000 * 2 ^ i) 30000) [0..<rt_failures failed_once]"
proof (rule retry_bounds)
  have "rt_enabled (Errored 5) (rt_step retry_twice (Started True) (retryer_new :: (nat, nat) retryer))"
    by (simp add: retryer_new_def rt_run_def rt_spawn_def)
  then show "rt_reach retry_twice failed_once"
    unfolding failed_once_def by (intro rt_event rt_start) auto
qed (simp_all add: retry_twice_def)

text \<open>
  C38. In a browser that is focused and online the caller gets the first success among the
  first \<open>n + 1\<close> answers, or else the last of these errors.
\<close>

theorem retry_outcome:
  assumes "ro_retry opts = Some (RetryTimes (int n))"
  shows "rt_result (rt_drive opts os (rt_step opts (Started True) retryer_new)) = first_outcome n os"
  using rt_drive_outcome [OF rt_start_waiting, of opts n os] assms by simp

theorem retry_outcome_witness:
  "rt_result (rt_drive retry_twice [Fail 1, Fail 2, Ok 3] (rt_step retry_twice (Started True) retryer_new)) =
     first_outcome 2 [Fail 1, Fail 2, Ok (3 :: nat)]"
  by (rule retry_outcome) (simp add: retry_twice_def)

text \<open>
  C37. The mutation cache after any use, of mutations that keep the scope they were built with:
  every scope has exactly the mutations of the set with that scope, in the order they were
  added, and one without mutations is not in the map. A pending mutation of a scope may run
  just when it is the first pending one of the scope, so at most one may.
\<close>

theorem mutation_scopes:
  fixes es defines "c \<equiv> mc_run es"
  shows "(\<forall>t. mc_scopes c t = (let ms = filter (\<lambda>i. mc_scope c i = Some t) (mc_all c) in if ms = [] then None else Some ms)) \<and>
     (\<forall>t m. m \<in> set (mc_all c) \<longrightarrow> mc_scope c m = Some t \<longrightarrow> mo_status (mc_objs c m) = Pending \<longrightarrow>
        canRun m c = (find (\<lambda>i. mo_status (mc_objs c i) = Pending) (filter (\<lambda>i. mc_scope c i = Some t) (mc_all c)) = Some m)) \<and>
     (\<forall>t m n. m \<in> set (mc_all c) \<longrightarrow> n \<in> set (mc_all c) \<longrightarrow> mc_scope c m = Some t \<longrightarrow> mc_scope c n = Some t \<longrightarrow>
        mo_status (mc_objs c m) = Pending \<longrightarrow> mo_status (mc_objs c n) = Pending \<longrightarrow> canRun m c \<longrightarrow> canRun n c \<longrightarrow> m = n)"
proof -
  have i: "mc_inv c" unfolding c_def by (rule mc_run_inv)
  then have "\<forall>t. mc_scopes c t = (let ms = filter (\<lambda>i. mc_scope c i = Some t) (mc_all c) in if ms = [] then None else Some ms)"
    by (simp add: mc_inv_def scope_list_def)
  with canRun_first [OF i] canRun_exclusive [OF i] show ?thesis by blast
qed

definition upload :: mutation where
  "upload = \<lparr>mo_scope = Some ''upload'', mo_status = Pending, mo_paused = False\<rparr>"

theorem mutation_scopes_witness:
  "canRun 1 (mc_run [Build upload, Build upload]) \<and>
   mc_scopes (mc_run [Build upload, Build upload]) ''upload'' =
     Some (filter (\<lambda>i. mc_scope (mc_run [Build upload, Build upload]) i = Some ''upload'') (mc_all (mc_run [Build upload, Build upload])))"
proof -
  have "canRun 1 (mc_run [Build upload, Build upload])"
    by (simp add: mc_run_def mc_build_def mc_add_def mc_scope_def MutationCache_new_def upload_def canRun_def Let_def)
  with mutation_scopes [of "[Build upload, Build upload]"] show ?thesis
    by (simp add: mc_run_def mc_build_def mc_add_def mc_scope_def MutationCache_new_def upload_def Let_def)
qed

section \<open>The wiki\<close>

text \<open>
  C39. The ids of the table of contents: the loop that looks for a free suffix ends within as
  many rounds as ids have been given, and all ids differ, whatever the headings.
\<close>

theorem toc_ids_unique: "\<exists>ls. toc_ids [] ts = Some ls \<and> distinct ls \<and> length ls = length ts"
  using toc_ids_distinct [of "[]" ts] by simp

text \<open>
  A link of the side bar leads to its page: the route of page id and title slug shows the
  page with that id, whatever the slug is.
\<close>

theorem wiki_link_round_trip:
  assumes "is_page_id p"
  shows "wiki_page org repo (routes @ [p @ ''-'' @ slug]) = ShowPage (org @ ''/'' @ repo) p"
  by (rule wiki_link_page [OF assms])

theorem wiki_link_round_trip_witness:
  "wiki_page ''o'' ''r'' ([] @ [''2.1'' @ ''-'' @ ''rtmp-10'']) = ShowPage (''o'' @ ''/'' @ ''r'') ''2.1''"
  by (rule wiki_link_round_trip) (simp add: is_page_id_def is_dec_def)

section \<open>Measuring\<close>

text \<open>
  C40. The batch reports every metric once and in order: what was sent and what waits is what
  was added; no report is empty or larger than a batch, less than a batch waits, and a timeout
  is pending exactly when something does.
\<close>

theorem batch_reports_all:
  assumes "0 < k"
  shows "concat (bt_sent (bt_run es (Batcher_new k))) @ bt_buffer (bt_run es (Batcher_new k)) = added es \<and>
         batch_inv (bt_run es (Batcher_new k)) \<and> bt_size (bt_run es (Batcher_new k)) = k"
  using bt_run_inv [OF batch_inv_new [OF assms], of es] bt_run_log [of es "Batcher_new k"]
  by (simp add: batch_log_def) (simp add: Batcher_new_def)

theorem batch_reports_all_witness:
  "concat (bt_sent (bt_run [Add 1, Add 2, Timeout, Add 3] (Batcher_new 2))) @
     bt_buffer (bt_run [Add 1, Add 2, Timeout, Add 3] (Batcher_new 2)) = added [Add 1, Add 2, Timeout, Add (3 :: nat)] \<and>
   batch_inv (bt_run [Add 1, Add 2, Timeout, Add (3 :: nat)] (Batcher_new 2)) \<and>
   bt_size (bt_run [Add 1, Add 2, Timeout, Add (3 :: nat)] (Batcher_new 2)) = 2"
  by (rule batch_reports_all) simp

end
