(* ===== verification/Spec2Isabelle.thy ===== *)
theory Spec2Isabelle
  imports RtmpSession RtmpParse ServiceProps LiveProps FlvProps HttpProps HlsProps PageProps Config
begin

text \<open>
  A model of tmms, a live streaming server in C++ (\<open>src/src/\<close>), and of the scripts of the
  documentation pages saved with it (\<open>src/html/\<close>), with the properties that make them correct.

  \<^bold>\<open>The server.\<close> Sockets (\<open>network/\<close>) fill a \<open>MsgBuffer\<close>; a protocol context reads messages
  from it and queues the ones to send; a session (\<open>live/\<close>) holds a \<open>Stream\<close>, which keeps the
  newest packets of a publisher in a ring buffer and lets players take them from the groups of
  pictures they begin with. Modelled are

  \<^item> \<open>ByteIO\<close>, \<open>Double\<close>, \<open>Amf\<close>: byte order (\<open>mmedia/base/BytesReader.cc\<close>, \<open>BytesWriter.cc\<close>),
    doubles through their bits, and the AMF0 codec (\<open>mmedia/rtmp/amf/\<close>). Names and encoded
    values form a wire format, an interface of \<open>Interfaces\<close>.
  \<^item> \<open>MsgBuffer\<close>: \<open>network/base/MsgBuffer.*\<close>, a record of the vector and its two positions; it
    implements the byte stream interface of \<open>Interfaces\<close>.
  \<^item> \<open>StringUtils\<close>, \<open>Config\<close>: \<open>base/\<close>, with jsoncpp and the file system as parameters.
  \<^item> \<open>RtmpHandShake\<close>: the handshake as a state machine, with the hash as parameter.
  \<^item> \<open>Packet\<close>, \<open>RtmpChunk\<close>, \<open>RtmpSend\<close>, \<open>RtmpQueue\<close>, \<open>RtmpContext\<close>, \<open>RtmpSession\<close>, \<open>RtmpParse\<close>: packets and
    \<open>mmedia/rtmp/RtmpContext.cc\<close>: cutting messages into chunks and back (the lemmas that join
    the two are in \<open>RtmpChunkTrip\<close>), the sending queue, the control messages and commands,
    with the session of a client and a server run against each other. \<open>RtmpQueue\<close> follows a run
    of the queue, with what the connection is given to write, to a peer that reads it;
    \<open>RtmpParse\<close> has the rounds of the receiving loop as a step relation and the ways it ends.
  \<^item> \<open>TimeCorrector\<close>, \<open>GopMgr\<close>, \<open>CodecHeader\<close>, \<open>Stream\<close>, \<open>LiveUser\<close>, \<open>Player\<close>: \<open>live/base/\<close>,
    \<open>live/Stream.cc\<close> and \<open>live/user/\<close>. \<open>StreamInv\<close> relates a stream to the log of all packets
    it was given, the abstract specification of it; \<open>PlayerSink\<close> states what a protocol context
    promises a player, and that the RTMP one keeps it; \<open>LiveProps\<close> has the properties.
  \<^item> \<open>PullerRelay\<close>, \<open>Session\<close>, \<open>LiveService\<close>, \<open>LiveRequest\<close>: \<open>live/relay/\<close>, \<open>live/Session.cc\<close> and
    \<open>live/LiveService.cc\<close>: sessions by name with their players and publisher, the relay that
    pulls a stream nobody publishes, and the requests over HTTP. Users and sessions live in heaps, what is done to
    connections is a list of calls. \<open>LiveInv\<close> has the invariant of the service, \<open>LiveRun\<close> the
    step relation over everything that calls it and the log of each session as the abstract
    specification of what players get; \<open>ServiceProps\<close> has the properties and what goes wrong.
  \<^item> \<open>Flv\<close>, \<open>FlvPlayer\<close>: \<open>mmedia/flv/FlvContext.cc\<close> with the FLV tag as a wire format, and
    \<open>live/user/FlvPlayerUser.cc\<close> with the step relation of a player and its connection, the
    second sink of frames; \<open>FlvProps\<close> has the properties.
  \<^item> \<open>HttpUtils\<close>, \<open>HttpRequest\<close>, \<open>HttpParser\<close>, \<open>HttpContext\<close>: \<open>mmedia/http/\<close>, the parser as a state
    machine over the buffer, its loop as a partial function (it need not end), posting as a state
    machine with its events. \<open>HttpMessage\<close> joins the writer of messages and the parser,
    \<open>HttpProps\<close> has the properties.
  \<^item> \<open>Demux\<close>: \<open>mmedia/demux/\<close> and \<open>mmedia/base/NalBitStream.cc\<close>, audio and video tags cut into samples.
  \<^item> \<open>TsTool\<close>, \<open>TsPacket\<close>, \<open>TsPsi\<close>, \<open>TsPes\<close>, \<open>TsEncoder\<close>: \<open>mmedia/mpegts/\<close>: the checksum, the tables
    and the elementary streams of a transport stream, written through any writer that keeps the
    contract of the locale \<open>stream_writer\<close>. \<open>TsPacket\<close> and \<open>TsPes\<close> hold a reader of packets, sections
    and time stamps as the standard has it, against which what is written is proved;
    \<open>TsFrames\<close> does so for whole frames.
  \<^item> \<open>Fragment\<close>, \<open>Hls\<close>: \<open>mmedia/hls/\<close>: the segment, which is such a writer (its interpretation
    discharges the contract), the window with the playlist, and the muxer. \<open>HlsInv\<close> has what the
    muxer keeps between packets, \<open>HlsHeaders\<close> how the sequence headers establish it, \<open>HlsProps\<close> the
    properties.

  A C++ class is a record with the fields of the class, a member function a definition of the
  same name that returns the updated record; reading out of bounds, following an empty pointer
  and a failing assertion are values of \<open>fault\<close>, and every definition that can meet one
  returns a \<open>result\<close>. Integers are words of their width or integers converted where the code
  converts them. Calls of the connection and of handlers are recorded as events. One operation
  runs at a time: the locks of \<open>Stream\<close> and the thread of a connection make it so.

  \<^bold>\<open>The pages.\<close> The saved pages are the only JavaScript of the repository, minified: a whole
  bundle stands on a line or a few, so the line a definition models holds many other functions;
  the function is the one named with it. Modelled are functions with logic of their own:
  the module loader (\<open>Webpack\<close>), the Markdown renderer (\<open>Marked\<close>), the measuring script
  (\<open>Hotjar\<close>), the request machinery and its caches (\<open>Retryer\<close>, \<open>QueryClient\<close>) and smaller ones
  (\<open>PageBundles\<close>); \<open>PageProps\<close> has the properties. Timers, the network and other modules are
  events or parameters.

  \<^bold>\<open>Bounds and fuel.\<close> Loops over input are recursive functions with a number of rounds. The
  chunk loop gets a round for each byte of the buffer, and each round takes a byte; the AMF
  decoder a step for each byte in each level of nesting; that these are never used up is proved
  (\<open>OutOfFuel\<close> is not a result). The module loader needs a nested call for each module not yet
  cached, the search for a free heading id a round for each id given; both are proved too.
  A segment's bytes and capacity are kept below 2 GB, where its \<open>int32_t\<close> sizes overflow.
  Ring and index statements hold for streams of fewer than \<open>2 ^ 31\<close> packets, where the code's
  index overflows.

  \<^bold>\<open>What the properties show.\<close> C1 to C40 stand before their theorems, here for RTMP, the
  buffer and strings, in \<open>LiveProps\<close> for streams, in \<open>FlvProps\<close> for FLV, in \<open>HttpProps\<close> for HTTP, in \<open>HlsProps\<close> for HLS,
  in \<open>ServiceProps\<close> for the service and in \<open>PageProps\<close> for the pages, numbered by importance. The lemmas they rest on are with their components: invariants and their
  preservation, what an operation does on each of its branches, and the two ends of a protocol
  against each other.

  \<^bold>\<open>Not modelled.\<close> \<open>LiveService::Start\<close>; \<open>TestStreamWriter\<close>, which writes to a file,
  and \<open>TsTool::HexString\<close>; WebRTC is mostly calls of OpenSSL, libsrtp, opus and faad2; event loops, sockets
  and threads are system calls; log output and tests have no part in the behaviour. Of the
  pages: React, Next.js and the other frameworks, the lexer of the Markdown library (a table of
  regular expressions) and everything that only builds elements. Vendored headers
  (\<open>lib/\<close>) are not the program's.
\<close>

section \<open>RTMP: the chunk protocol\<close>

text \<open>
  C1. Any sequence of messages put through \<open>BuildChunk\<close> comes out of the chunk loop of
  \<open>ParseMessage\<close> as the same sequence: payload, message type, stream id and timestamp of
  each, whatever header formats were chosen. The messages are not empty, below 16 MiB, with
  timestamps below \<open>0xFFFFFF\<close> and a chunk stream id the basic header can hold; their chunk
  headers fit the buffer of 4096 bytes; the receiver has accepted the chunk size.
\<close>

theorem rtmp_chunk_round_trip:
  assumes "list_all sendable_item xs" and "(\<Sum>x\<leftarrow>xs. item_room x) \<le> out_buffer_size"
  shows "\<exists>s qs r. build_all xs RtmpOut_new = Inr s \<and>
           run_chunks (RtmpIn_new\<lparr>in_chunk_size := int out_chunk_size\<rparr>)
             (concat (ro_bufs s)) = Inr (qs, r, []) \<and>
           list_all2 item_delivered xs qs"
proof -
  let ?r = "RtmpIn_new\<lparr>in_chunk_size := int out_chunk_size\<rparr>"
  have "synced ?r RtmpOut_new" "ro_pos RtmpOut_new = 0" "ro_bufs RtmpOut_new = []"
    by (simp_all add: synced_def RtmpIn_new_def RtmpOut_new_def)
  from build_all_trip [OF this(1) assms(1)] this(2,3) assms(2) obtain s r qs where
    s: "build_all xs RtmpOut_new = Inr s" "parses ?r (concat (ro_bufs s)) qs r" "list_all2 item_delivered xs qs"
    by auto
  obtain n where n: "parse_chunks n ?r (concat (ro_bufs s)) = Inr (qs, r, [])"
    using parses_run [OF s(2)] by blast
  have "rin_inv ?r" "0 \<le> in_chunk_size ?r"
    using rin_inv_new by (simp_all add: rin_inv_def out_chunk_size_def)
  from run_chunks_unique [OF this n] s show ?thesis by blast
qed

text \<open>A small audio message, for the concrete instances below.\<close>

definition sample_audio :: "bytes \<Rightarrow> RtmpPacket" where
  "sample_audio d =
     \<lparr>pk_type = 8, pk_size = length d, pk_index = -1, pk_timestamp = 0, pk_capacity = length d,
      pk_ext = Some \<lparr>rh_cs_id = 4, rh_timestamp = 0, rh_msg_len = of_nat (length d), rh_msg_type = 8, rh_msg_sid = 1\<rparr>,
      pk_data = d\<rparr>"

theorem rtmp_chunk_round_trip_witness:
  "\<exists>s qs r. build_all [(sample_audio [1, 2, 3], 0, False), (sample_audio [4, 5], 40, False)] RtmpOut_new = Inr s \<and>
     run_chunks (RtmpIn_new\<lparr>in_chunk_size := int out_chunk_size\<rparr>)
       (concat (ro_bufs s)) = Inr (qs, r, []) \<and>
     list_all2 item_delivered [(sample_audio [1, 2, 3], 0, False), (sample_audio [4, 5], 40, False)] qs"
  by (rule rtmp_chunk_round_trip)
    (simp_all add: sample_audio_def sendable_item_def sendable_def item_room_def hdr_room_def
      out_buffer_size_def out_chunk_size_def)

text \<open>
  C4. The receiver does not depend on how the socket cuts the bytes: stopping in the middle
  of a chunk, with the fields as the early return leaves them, and going on when more bytes
  have arrived gives the packets, fields and remaining bytes of one run over all of them.
\<close>

theorem rtmp_parse_fragmentation:
  assumes "rin_inv s" and "0 \<le> in_chunk_size s"
    and "run_chunks s d = Inr (ps, s', rest)"
    and "run_chunks s' (rest @ e) = Inr (qs, s'', rest')"
  shows "run_chunks s (d @ e) = Inr (ps @ qs, s'', rest')"
  using run_chunks_unique [OF assms(1,2) parse_chunks_append [OF assms(3,4) [unfolded run_chunks_def]]] .

theorem rtmp_parse_fragmentation_witness:
  "\<exists>ps s' rest qs s'' rest'.
     run_chunks RtmpIn_new [4, 0, 0, 7, 0, 0, 2, 8, 1, 0, 0, 0, 65, 66, 4] = Inr (ps, s', rest) \<and>
     run_chunks s' (rest @ [0]) = Inr (qs, s'', rest') \<and>
     run_chunks RtmpIn_new ([4, 0, 0, 7, 0, 0, 2, 8, 1, 0, 0, 0, 65, 66, 4] @ [0]) = Inr (ps @ qs, s'', rest')"
proof -
  have i: "rin_inv RtmpIn_new" "0 \<le> in_chunk_size RtmpIn_new" using rin_inv_new by (simp_all add: RtmpIn_new_def)
  obtain ps s' n where 1: "run_chunks RtmpIn_new [4, 0, 0, 7, 0, 0, 2, 8, 1, 0, 0, 0, 65, 66, 4] =
      Inr (ps, s', drop n [4, 0, 0, 7, 0, 0, 2, 8, 1, 0, 0, 0, 65, 66, 4])"
    "rin_inv s'" "in_chunk_size s' = in_chunk_size RtmpIn_new"
    using run_chunks_ok [OF i] by blast
  let ?rest = "drop n [4, 0, 0, 7, 0, 0, 2, 8, 1, 0, 0, 0, 65, 66, 4 :: u8] @ [0]"
  obtain qs s'' m where 2: "run_chunks s' ?rest = Inr (qs, s'', drop m ?rest)"
    using run_chunks_ok [OF 1(2), of ?rest] i(2) 1(3) by auto
  from rtmp_parse_fragmentation [OF i 1(1) 2] 1(1) 2 show ?thesis by blast
qed

text \<open>
  C6. With a chunk size that is not negative, no byte sequence makes the loop read outside
  the buffer, write outside a packet or use an empty pointer; the fields stay well formed,
  bytes are only taken off the front, and a round per byte is enough for it to end.
\<close>

theorem rtmp_parse_safe:
  assumes "rin_inv s" and "0 \<le> in_chunk_size s"
  shows "\<exists>ps s' n. run_chunks s d = Inr (ps, s', drop n d) \<and> rin_inv s' \<and>
           in_chunk_size s' = in_chunk_size s"
  by (rule run_chunks_ok [OF assms])

theorem rtmp_parse_safe_witness:
  "\<exists>ps s' n. run_chunks RtmpIn_new [3, 0, 0] = Inr (ps, s', drop n [3, 0, 0]) \<and>
     rin_inv s' \<and> in_chunk_size s' = in_chunk_size RtmpIn_new"
  by (rule rtmp_parse_safe [OF rin_inv_new]) (simp add: RtmpIn_new_def)

text \<open>
  C7. The whole of \<open>ParseMessage\<close>, with every message handler and the AMF decoder, ends on
  every input: the rounds the buffer's bytes allow are never used up. How it ends, from a
  context whose queue and receiving fields are well formed and whose chunk size is not
  negative: it has taken whole chunks off the front of the buffer, one per round, and handled
  the messages they completed, and then either it returned 1, with at most a byte or the
  beginning of a chunk left in the buffer and the context well formed; or it is faulting in
  the handler of an AMF command; or a peer has just set a negative chunk size, after which
  the loop still ends but may fault anywhere.
\<close>

theorem rtmp_parse_message_returns:
  assumes "mb_inv buf"
  shows "ParseMessage c buf \<noteq> Inl OutOfFuel \<and>
    (parse_ctx_inv c \<and> 0 \<le> in_chunk_size (rc_in c) \<longrightarrow> (\<exists>c0 c1 buf1 n. acknowledged c buf = Inr c0 \<and>
       parse_round\<^sup>*\<^sup>* (c0, buf) (c1, buf1) \<and> mb_inv buf1 \<and> buf_contents buf1 = drop n (buf_contents buf) \<and>
       ((\<exists>c'. ParseMessage c buf = Inr (1, c', buf1) \<and> parse_done c1 buf1 c' \<and> parse_ctx_inv c') \<or>
        (\<exists>e. ParseMessage c buf = Inl e \<and> command_faults c1 buf1 e) \<or>
        in_chunk_size (rc_in c1) < 0)))"
  using ParseMessage_fueled [OF assms, of c] ParseMessage_outcome [OF assms, of c]
  by (simp add: fueled_def message_outcome_def)

theorem rtmp_parse_message_returns_witness:
  "\<exists>c0 c1 buf1 n. acknowledged (RtmpContext_new True False) (MsgBuffer_new 2048) = Inr c0 \<and>
     parse_round\<^sup>*\<^sup>* (c0, MsgBuffer_new 2048) (c1, buf1) \<and> mb_inv buf1 \<and>
     buf_contents buf1 = drop n (buf_contents (MsgBuffer_new 2048)) \<and>
     ((\<exists>c'. ParseMessage (RtmpContext_new True False) (MsgBuffer_new 2048) = Inr (1, c', buf1) \<and>
         parse_done c1 buf1 c' \<and> parse_ctx_inv c') \<or>
      (\<exists>e. ParseMessage (RtmpContext_new True False) (MsgBuffer_new 2048) = Inl e \<and> command_faults c1 buf1 e) \<or>
      in_chunk_size (rc_in c1) < 0)"
proof -
  have "mb_inv (MsgBuffer_new 2048)" by (simp add: mb_inv_new kBufferOffset_def)
  moreover have "parse_ctx_inv (RtmpContext_new True False)" "0 \<le> in_chunk_size (rc_in (RtmpContext_new True False))"
    using rin_inv_new by (simp_all add: parse_ctx_inv_def out_inv_def RtmpContext_new_def queue_inv_new)
      (simp_all add: RtmpOut_new_def RtmpIn_new_def)
  ultimately show ?thesis using rtmp_parse_message_returns [of "MsgBuffer_new 2048" "RtmpContext_new True False"] by blast
qed

section \<open>RTMP: the session\<close>

text \<open>
  C8. A player's session: the client's connect, createStream and play, each answered by the
  server's handlers, end in \<open>OnPlay\<close> at both ends; the server's names come from what the
  client sent. Nothing faults, and every message was queued in the sending buffer.
\<close>

theorem rtmp_play_session:
  assumes "out_inv c" "rc_handler c" "rc_is_player c" and "out_inv s" "rc_handler s"
    and "length (rc_app c) + length (rc_tc_url c) \<le> 800" "length (rc_name c) \<le> 900"
  shows "\<exists>c' s'. run_session c s = Inr (c', s') \<and> out_inv c' \<and> out_inv s' \<and>
           EvPlay (rc_session_name c) (rc_param c) \<in> set (rc_events c') \<and>
           (\<exists>session param. EvPlay session param \<in> set (rc_events s') \<and>
              (\<exists>app name. parse_names (rc_tc_url c) (rc_app c) (rc_name c) = (app, param, name, session)))"
proof -
  let ?n = "named True (rc_name c) (s\<lparr>rc_tc_url := rc_tc_url c, rc_app := rc_app c\<rparr>)"
  obtain app param name session where p:
    "parse_names (rc_tc_url c) (rc_app c) (rc_name c) = (app, param, name, session)"
    by (rule prod_cases4)
  then have "rc_session_name ?n = session" "rc_param ?n = param"
    by (simp_all add: named_def ParseNameAndTcUrl_def)
  with run_session_play [OF assms] p show ?thesis by auto
qed

definition sample_player :: RtmpContext where
  "sample_player = Play ''rtmp://10.0.0.1/a.cn:1935/live/test'' (RtmpContext_new True True)"

definition sample_publisher :: RtmpContext where
  "sample_publisher = Publish ''rtmp://10.0.0.1/a.cn:1935/live/test'' (RtmpContext_new True True)"

lemma out_inv_new: "out_inv (RtmpContext_new h cl)"
  by (simp add: out_inv_def RtmpContext_new_def queue_inv_new) (simp add: RtmpOut_new_def)

lemma sample_names:
  "out_inv sample_player" "rc_handler sample_player" "rc_is_player sample_player"
  "rc_app sample_player = ''live''" "rc_name sample_player = ''test''"
  "rc_tc_url sample_player = ''rtmp://10.0.0.1/a.cn:1935/live/test''"
  "out_inv sample_publisher" "rc_handler sample_publisher" "\<not> rc_is_player sample_publisher"
  "rc_app sample_publisher = ''live''" "rc_name sample_publisher = ''test''"
  "rc_tc_url sample_publisher = ''rtmp://10.0.0.1/a.cn:1935/live/test''"
proof -
  have "SplitString ''rtmp://10.0.0.1/a.cn:1935/live/test'' ''/'' =
      [''rtmp:'', [], ''10.0.0.1'', ''a.cn:1935'', ''live'', ''test'']"
    by (simp add: SplitString_def split_rest.simps)
  then have p: "parse_names ''rtmp://10.0.0.1/a.cn:1935/live/test'' [] [] = (''live'', [], ''test'', ''a.cn/live/test'')"
    by (simp add: parse_names_def url_parts_def)
  have o: "out_inv (c\<lparr>rc_is_client := a, rc_is_player := b, rc_tc_url := u\<rparr>) = out_inv c" for c a b u
    by (simp add: out_inv_def)
  show "out_inv sample_player" "out_inv sample_publisher"
    by (simp_all add: sample_player_def sample_publisher_def Play_def Publish_def o out_inv_new)
  show "rc_handler sample_player" "rc_is_player sample_player" "rc_app sample_player = ''live''"
    "rc_name sample_player = ''test''" "rc_tc_url sample_player = ''rtmp://10.0.0.1/a.cn:1935/live/test''"
    "rc_handler sample_publisher" "\<not> rc_is_player sample_publisher" "rc_app sample_publisher = ''live''"
    "rc_name sample_publisher = ''test''" "rc_tc_url sample_publisher = ''rtmp://10.0.0.1/a.cn:1935/live/test''"
    using p by (simp_all add: sample_player_def sample_publisher_def Play_def Publish_def
        ParseNameAndTcUrl_def RtmpContext_new_def)
qed

theorem rtmp_play_session_witness:
  "\<exists>c' s'. run_session sample_player (RtmpContext_new True False) = Inr (c', s') \<and> out_inv c' \<and> out_inv s' \<and>
     EvPlay (rc_session_name sample_player) (rc_param sample_player) \<in> set (rc_events c') \<and>
     (\<exists>session param. EvPlay session param \<in> set (rc_events s') \<and>
        (\<exists>app name. parse_names (rc_tc_url sample_player) (rc_app sample_player) (rc_name sample_player)
                      = (app, param, name, session)))"
  by (rule rtmp_play_session) (simp_all add: sample_names out_inv_new, simp add: RtmpContext_new_def)

text \<open>
  C9. A publisher's session, the same way: both ends get \<open>OnPublish\<close>.
\<close>

theorem rtmp_publish_session:
  assumes "out_inv c" "rc_handler c" "\<not> rc_is_player c" and "out_inv s" "rc_handler s"
    and "length (rc_app c) + length (rc_tc_url c) \<le> 800" "length (rc_name c) \<le> 900"
  shows "\<exists>c' s'. run_session c s = Inr (c', s') \<and> out_inv c' \<and> out_inv s' \<and>
           EvPublish (rc_session_name c) (rc_param c) \<in> set (rc_events c') \<and>
           (\<exists>session param. EvPublish session param \<in> set (rc_events s') \<and>
              (\<exists>app name. parse_names (rc_tc_url c) (rc_app c) (rc_name c) = (app, param, name, session)))"
proof -
  let ?n = "named False (rc_name c) (s\<lparr>rc_tc_url := rc_tc_url c, rc_app := rc_app c\<rparr>)"
  obtain app param name session where p:
    "parse_names (rc_tc_url c) (rc_app c) (rc_name c) = (app, param, name, session)"
    by (rule prod_cases4)
  then have "rc_session_name ?n = session" "rc_param ?n = param"
    by (simp_all add: named_def ParseNameAndTcUrl_def)
  with run_session_publish [OF assms] p show ?thesis by auto
qed

theorem rtmp_publish_session_witness:
  "\<exists>c' s'. run_session sample_publisher (RtmpContext_new True False) = Inr (c', s') \<and> out_inv c' \<and> out_inv s' \<and>
     EvPublish (rc_session_name sample_publisher) (rc_param sample_publisher) \<in> set (rc_events c') \<and>
     (\<exists>session param. EvPublish session param \<in> set (rc_events s') \<and>
        (\<exists>app name. parse_names (rc_tc_url sample_publisher) (rc_app sample_publisher) (rc_name sample_publisher)
                      = (app, param, name, session)))"
  by (rule rtmp_publish_session) (simp_all add: sample_names out_inv_new, simp add: RtmpContext_new_def)

text \<open>
  Client and server agree on the session: when the url has the four, five or six parts
  that decide the names, the name the server derives from what the client sent it is the one
  \<open>Play\<close> gave the client.
\<close>

theorem rtmp_session_name_agrees:
  assumes "length (SplitString url ''/'') \<in> {4, 5, 6}"
  shows "rc_session_name (named b (rc_name (Play url c))
           (s\<lparr>rc_tc_url := rc_tc_url (Play url c), rc_app := rc_app (Play url c)\<rparr>)) = rc_session_name (Play url c)"
  by (rule session_name_agrees [OF assms])

theorem rtmp_session_name_agrees_witness:
  "rc_session_name (named True (rc_name (Play ''rtmp://a/live'' (RtmpContext_new True True)))
     ((RtmpContext_new True False)\<lparr>rc_tc_url := rc_tc_url (Play ''rtmp://a/live'' (RtmpContext_new True True)),
        rc_app := rc_app (Play ''rtmp://a/live'' (RtmpContext_new True True))\<rparr>)) =
   rc_session_name (Play ''rtmp://a/live'' (RtmpContext_new True True))"
  by (rule rtmp_session_name_agrees) (simp add: SplitString_def split_rest.simps)

text \<open>
  The session name of \<open>rtmp://host/domain:port/app/name\<close> is \<open>domain/app/name\<close>.
\<close>

theorem rtmp_session_name_of_url:
  assumes "CHR ''/'' \<notin> set host" "CHR ''/'' \<notin> set domain" "CHR '':'' \<notin> set domain"
    "CHR ''/'' \<notin> set port" "CHR ''/'' \<notin> set app" "app \<noteq> []" "CHR ''/'' \<notin> set name" "name \<noteq> []"
  shows "rc_session_name (Play (''rtmp://'' @ host @ ''/'' @ domain @ '':'' @ port @ ''/'' @ app @ ''/'' @ name) c)
           = domain @ ''/'' @ app @ ''/'' @ name"
  by (rule session_name_of_url [OF assms])

theorem rtmp_session_name_of_url_witness:
  "rc_session_name (Play (''rtmp://'' @ ''h'' @ ''/'' @ ''d'' @ '':'' @ ''80'' @ ''/'' @ ''live'' @ ''/'' @ ''s'')
     (RtmpContext_new True True)) = ''d'' @ ''/'' @ ''live'' @ ''/'' @ ''s''"
  by (rule rtmp_session_name_of_url) simp_all

text \<open>
  C10. The sending queue delivers. Messages are pushed and writes complete in any order, from
  a fresh context; when then as many completions follow as the messages need, ten each, the
  queue is empty, no chunk header was written outside \<open>out_buffer_\<close>, and the bytes handed to
  \<open>connection_->Send\<close>, one batch after the other, are taken whole by the chunk loop of a peer
  with the chunk size 4096 and give it every pushed message once, in the order of the pushes
  (a packet without a message header is dropped). A message is one a peer can receive, of at
  most 200000 bytes; its time stamp is 0, as \<open>Send\<close> builds it.
\<close>

theorem rtmp_queue_drains:
  assumes "list_all queueable (pushed es)" and "length (pushed es) \<le> 10 * n"
  shows "\<exists>out s qs r. run_queue (es @ replicate n QWritten) RtmpOut_new = Inr (out, s) \<and> ro_waiting s = [] \<and>
           run_chunks (RtmpIn_new\<lparr>in_chunk_size := int out_chunk_size\<rparr>) out = Inr (qs, r, []) \<and>
           list_all2 queue_delivered (filter has_header (pushed es)) qs"
proof -
  let ?r = "RtmpIn_new\<lparr>in_chunk_size := int out_chunk_size\<rparr>"
  have w: "ro_waiting RtmpOut_new = []" by (simp add: RtmpOut_new_def)
  have "length (ro_waiting RtmpOut_new) + length (pushed es) \<le> 10 * n" using assms(2) w by simp
  from run_queue_drains [OF queue_synced_new assms(1) this] obtain out s r qs where
    s: "run_queue (es @ replicate n QWritten) RtmpOut_new = Inr (out, s)" "parses ?r out qs r"
    "ro_waiting s = []" "list_all2 queue_delivered (filter has_header (pushed es)) qs" unfolding w append_Nil by blast
  obtain m where m: "parse_chunks m ?r out = Inr (qs, r, [])" using parses_run [OF s(2)] by blast
  have "rin_inv ?r" "0 \<le> in_chunk_size ?r"
    using rin_inv_new by (simp_all add: rin_inv_def out_chunk_size_def)
  from run_chunks_unique [OF this m] s show ?thesis by blast
qed

theorem rtmp_queue_drains_witness:
  "\<exists>out s qs r. run_queue ((QPush (sample_audio [7]) # QWritten # replicate 13 (QPush (sample_audio [8, 9]))) @
      replicate 2 QWritten) RtmpOut_new = Inr (out, s) \<and> ro_waiting s = [] \<and>
      run_chunks (RtmpIn_new\<lparr>in_chunk_size := int out_chunk_size\<rparr>) out = Inr (qs, r, []) \<and>
      list_all2 queue_delivered
        (filter has_header (pushed (QPush (sample_audio [7]) # QWritten # replicate 13 (QPush (sample_audio [8, 9]))))) qs"
proof -
  have p: "pushed (replicate k (QPush p)) = replicate k p" for k p by (induction k) simp_all
  have q: "queueable (sample_audio [7])" "queueable (sample_audio [8, 9])"
    by (simp_all add: queueable_def packet_ready_def sample_audio_def max_queued_len_def sendable_def)
  show ?thesis by (rule rtmp_queue_drains) (use q in \<open>simp_all add: p list_all_iff\<close>)
qed

text \<open>
  C28. A message that is not an AMF command, of whatever type and content, is handled
  without a fault and keeps what the sending queue and the receiving fields promise.
\<close>

theorem rtmp_control_messages_safe:
  assumes "packet_inv p" and "out_inv c" "rin_inv (rc_in c)"
    and "pk_type p \<noteq> ucast kRtmpMsgTypeAMFMessage" "pk_type p \<noteq> ucast kRtmpMsgTypeAMF3Message"
  shows "\<exists>c'. MessageComplete p c = Inr c' \<and> out_inv c' \<and> rin_inv (rc_in c')"
  by (rule MessageComplete_ok [OF assms])

theorem rtmp_control_messages_safe_witness:
  "\<exists>c'. MessageComplete ((sample_audio [0, 6, 0, 0, 0, 1])\<lparr>pk_type := 4\<rparr>) (RtmpContext_new True False) = Inr c' \<and>
        out_inv c' \<and> rin_inv (rc_in c')"
  by (rule rtmp_control_messages_safe)
    (simp_all add: sample_audio_def packet_inv_def out_inv_new rtmp_msg_type_defs,
     simp add: RtmpContext_new_def rin_inv_new)

text \<open>
  The answer to a ping request is not a ping response: the six bytes hold the value
  where the event type belongs (\<open>SendUserCtrlMessage\<close> passes \<open>body\<close> instead of \<open>p\<close> to the
  writers), so that a peer reads the upper half of the value as the type.
\<close>

theorem rtmp_ping_response:
  "ReadUint16T (user_ctrl_body kRtmpEventTypePingResponse value 0) = Inr (ucast (drop_bit 16 value))"
proof -
  have "(push_bit 8 (ucast (ucast (drop_bit 24 value) :: u8)) OR ucast (ucast (drop_bit 16 value) :: u8) :: u16)
      = ucast (drop_bit 16 value)" (is "?l = ?r")
    by (rule bit_word_eqI) (auto simp: bit_simps less_diff_conv2)
  then show ?thesis
    by (simp add: ping_response_body WriteUint32T_def)
qed

section \<open>RTMP: the handshake\<close>

text \<open>
  C29. Client and server of this code complete the complex handshake with each other,
  whatever random bytes they draw and whatever hash of 32 bytes is used; what the client
  sends behind C2 is left in the server's buffer for the chunk loop.
\<close>

theorem rtmp_handshake_completes:
  assumes "hmac_len hmac"
  shows "run_handshake hmac rndc rnds now tail =
           Inr ((0, kHandShakeDone, []), (0, kHandShakeDone, tail))"
  by (rule handshake_run [OF assms])

theorem rtmp_handshake_completes_witness:
  "run_handshake (\<lambda>k m. take 32 (k @ replicate 32 0)) (\<lambda>i. of_nat i) (\<lambda>i. of_nat (2 * i)) 5 [1] =
     Inr ((0, kHandShakeDone, []), (0, kHandShakeDone, [1]))"
  by (rule rtmp_handshake_completes) (auto simp: hmac_len_def min_def)

text \<open>
  In every state a handshake reaches, the object is in one of the states of its role:
  \<open>kHandShakeWaitS2\<close> is never entered, and neither role gets into a state of the other.
\<close>

theorem rtmp_handshake_states:
  assumes "hs_reach hmac client hs"
  shows "hs_client hs = client \<and> hs_state hs \<noteq> kHandShakeWaitS2 \<and> hs_state hs \<noteq> kHandShakeInit \<and>
     (client \<longrightarrow> hs_state hs \<notin> {kHandShakeWaitC0C1, kHandShakePostS0S1, kHandShakePostS2}) \<and>
     (\<not> client \<longrightarrow> hs_state hs \<notin> {kHandShakePostC0C1, kHandShakeWaitS0S1, kHandShakePostC2, kHandShakeDoning})"
  using hs_reach_inv [OF assms] by (auto simp: hs_inv_def split: if_splits)

theorem rtmp_handshake_states_witness:
  "hs_reach (\<lambda>k m. replicate 32 0) True (fst (HandShake_Start (\<lambda>k m. replicate 32 0) (\<lambda>_. 0) (RtmpHandShake_new True))) \<and>
   hs_state (fst (HandShake_Start (\<lambda>k m. replicate 32 0) (\<lambda>_. 0) (RtmpHandShake_new True))) \<noteq> kHandShakeWaitS2"
  using hs_reach.hs_start [of "\<lambda>k m. replicate 32 0" True "\<lambda>_. 0"]
    rtmp_handshake_states [OF hs_reach.hs_start [of "\<lambda>k m. replicate 32 0" True "\<lambda>_. 0"]] by blast

section \<open>AMF\<close>

text \<open>
  C30. What the encoders write for a message, the object decoder reads back: strings,
  booleans, nulls and nested objects as they are, numbers through the integer conversion of
  the reader. Only values in the last three bytes are not seen (\<open>amf_visible\<close>).
\<close>

theorem amf_round_trip:
  assumes "\<forall>p \<in> set ps. amf_wf p \<and> AMFAny_Name p = []"
  shows "\<exists>len. amf_Decode (concat (map amf_enc ps) @ extra) (int (length (concat (map amf_enc ps)))) =
           Inr (Some (map amf_conv (amf_visible ps), len))"
  by (rule amf_Decode_message [OF assms])

theorem amf_round_trip_witness:
  "\<exists>len. amf_Decode (concat (map amf_enc (connect_args ''live'' ''rtmp://a/live'')) @ [1])
      (int (length (concat (map amf_enc (connect_args ''live'' ''rtmp://a/live''))))) =
    Inr (Some (map amf_conv (amf_visible (connect_args ''live'' ''rtmp://a/live'')), len))"
  by (rule amf_round_trip) (simp add: connect_args_def del: amf_wf.simps(1))

text \<open>
  The decoder returns on every byte sequence and every claimed length: the recursion
  over nested objects and arrays, whose counts are not checked, is bounded by the data.
\<close>

theorem amf_decode_returns: "amf_Decode data sz \<noteq> Inl OutOfFuel"
  using fueled_amf_Decode [of data sz] by (simp add: fueled_def)

text \<open>
  A sequence of property names is a wire format: reading as many names as were written
  gives exactly these names.
\<close>

lemma amf_names_decode:
  assumes "\<forall>n \<in> set names. length n < 65536"
  shows "decode_items amf_read_name (length names) (concat (map EncodeName names) @ rest) = Some names"
  by (rule amf_names.decode_items_enc [OF assms])

text \<open>
  An integer below \<open>2 ^ 53\<close> survives the way through a \<open>double\<close> and the reader's
  \<open>uint64_t\<close>.
\<close>

lemma double_integer_round_trip:
  assumes "unat v < 2 ^ 53"
  shows "ReadUint64T (WriteNumber (double_of_u64 v) @ rest) = Inr v"
  by (simp add: ReadUint64T_def WriteNumber_def double_of_u64_round_trip [OF assms])

section \<open>The socket buffer and strings\<close>

text \<open>
  C32. \<open>MsgBuffer\<close> is a byte stream: feeding any fragments never fails, and the readable
  bytes are what was there and the fragments' concatenation, however it was cut.
\<close>

theorem msg_buffer_stream:
  assumes "mb_inv b" and "concat ds = concat es"
  shows "\<exists>b1 b2. feed MsgBuffer_Append ds b = Inr b1 \<and> feed MsgBuffer_Append es b = Inr b2 \<and>
           mb_inv b1 \<and> buf_contents b1 = buf_contents b @ concat ds \<and> buf_contents b1 = buf_contents b2"
  using mbs.feed_ok [OF assms(1), of ds] mbs.feed_ok [OF assms(1), of es] assms(2) by auto

theorem msg_buffer_stream_witness:
  "\<exists>b1 b2. feed MsgBuffer_Append [[1, 2], [3]] (MsgBuffer_new 8) = Inr b1 \<and>
     feed MsgBuffer_Append [[1], [2, 3]] (MsgBuffer_new 8) = Inr b2 \<and>
     mb_inv b1 \<and> buf_contents b1 = buf_contents (MsgBuffer_new 8) @ concat [[1, 2], [3]] \<and> buf_contents b1 = buf_contents b2"
  by (rule msg_buffer_stream) (simp_all add: mb_inv_new kBufferOffset_def)

text \<open>
  Writing in front: \<open>AddInFront\<close> puts the bytes before the readable ones in each of its
  three ways (room in front, room behind, a larger vector), and never fails.
\<close>

lemma msg_buffer_add_in_front:
  assumes "mb_inv b"
  shows "\<exists>b'. AddInFront d b = Inr b' \<and> mb_inv b' \<and> buf_contents b' = d @ buf_contents b"
  by (rule AddInFront_ok [OF assms])

text \<open>
  Reading from the descriptor: with a kernel that fills at most the two areas offered,
  the readable bytes grow by exactly the bytes delivered, also when they overflow into the
  stack buffer; on an error the buffer is untouched.
\<close>

theorem msg_buffer_read_fd:
  assumes "mb_inv b" and "\<And>w e d. readv w e = Inr d \<Longrightarrow> length d \<le> w + e"
  shows "(\<exists>e. ReadFd readv b = Inr (b, Inl e)) \<or>
         (\<exists>d b'. ReadFd readv b = Inr (b', Inr (length d)) \<and> mb_inv b' \<and>
            buf_contents b' = buf_contents b @ d)"
  by (rule ReadFd_ok [OF assms])

theorem msg_buffer_read_fd_witness:
  "(\<exists>e. ReadFd (\<lambda>w e. Inr (take (w + e) [1, 2, 3])) (MsgBuffer_new 8) = Inr (MsgBuffer_new 8, Inl e)) \<or>
   (\<exists>d b'. ReadFd (\<lambda>w e. Inr (take (w + e) [1, 2, 3])) (MsgBuffer_new 8) = Inr (b', Inr (length d)) \<and> mb_inv b' \<and>
      buf_contents b' = buf_contents (MsgBuffer_new 8) @ d)"
  by (rule msg_buffer_read_fd) (auto simp: mb_inv_new kBufferOffset_def)

text \<open>
  The state machine \<open>SplitStringFSM\<close> computes what the search loop \<open>SplitString\<close> does.
\<close>

theorem split_string_fsm: "SplitStringFSM s c = SplitString s [c]"
  by (simp add: SplitStringFSM_def SplitString_def FSM_loop_eq)

text \<open>
  Splitting loses nothing but a delimiter at the very end: the parts, none of which
  contains the delimiter, joined by it are the string or the string without it.
\<close>

lemma split_string_join:
  assumes "d \<noteq> []"
  shows "(s = join d (SplitString s d) \<or> s = join d (SplitString s d) @ d) \<and>
         (\<forall>p \<in> set (SplitString s d). \<not> contains d p)"
  using split_rest_ok [OF assms, of s] assms by (simp add: SplitString_def)

end
